(* ===== verification/Prelude.thy ===== *)
theory Prelude
  imports Main "HOL-Library.Word" "HOL-Library.AList" "HOL-Library.Multiset"
begin

text \<open>
  Shared vocabulary of the development: bytes and fixed-width integers, results and
  panics, association lists standing for the hash maps and ordered maps of the code,
  and the generic lemmas on lists and sums that the component theories share.

  Conventions.  A Rust \<^verbatim>\<open>HashMap\<close> or \<^verbatim>\<open>BTreeMap\<close> is an association list with
  distinct keys: \<^term>\<open>map_of\<close> reads it, \<^term>\<open>AList.update\<close> is \<^verbatim>\<open>insert\<close> and a
  filter is \<^verbatim>\<open>retain\<close>.  The order of the list is the order in which the map is
  iterated; for a \<^verbatim>\<open>BTreeMap\<close> it is ascending, for a \<^verbatim>\<open>HashMap\<close> it is arbitrary, so
  a theorem about a hash map quantifies over every list.  A hash set is a list without
  duplicates, written with \<^term>\<open>List.insert\<close>.
\<close>

named_theorems hashmap_simps \<open>how lookups and key sets react to map updates\<close>
named_theorems stake_simps \<open>stake sums as natural numbers\<close>

type_synonym byte = "8 word"
type_synonym u32 = "32 word"
type_synonym u64 = "64 word"

section \<open>Results and panics\<close>

text \<open>
  A Rust function that may panic returns \<^term>\<open>Inl\<close> of the reason; a function returning
  \<^verbatim>\<open>Result\<close> returns \<^term>\<open>Inl\<close> of the error.
\<close>

datatype panic =
    AssertFailed string
  | ExpectFailed string
  | IndexOutOfBounds
  | RemainderByZero

type_synonym 'a outcome = "panic + 'a"

definition rbind :: "'e + 'a \<Rightarrow> ('a \<Rightarrow> 'e + 'b) \<Rightarrow> 'e + 'b" where
  "rbind m f = (case m of Inl e \<Rightarrow> Inl e | Inr x \<Rightarrow> f x)"

lemma rbind_simps [simp]:
  "rbind (Inl e) f = Inl e"
  "rbind (Inr x) f = f x"
  by (simp_all add: rbind_def)

lemma rbind_eq_Inr [simp]: "rbind m f = Inr y \<longleftrightarrow> (\<exists>x. m = Inr x \<and> f x = Inr y)"
  by (cases m) auto

lemma rbind_split:
  "P (rbind m f) \<longleftrightarrow> (\<forall>e. m = Inl e \<longrightarrow> P (Inl e)) \<and> (\<forall>x. m = Inr x \<longrightarrow> P (f x))"
  by (cases m) auto

lemma rbind_cong [fundef_cong]:
  assumes "m = m'" and "\<And>x. m' = Inr x \<Longrightarrow> f x = f' x"
  shows "rbind m f = rbind m' f'"
  using assms by (cases m') auto

section \<open>Unsigned 64-bit values kept as natural numbers\<close>

text \<open>
  Rounds are \<^verbatim>\<open>u64\<close>.  They are natural numbers in the model.  Subtraction of the
  release build wraps, so every \<^verbatim>\<open>a - b\<close> of the code whose operands are not known to be
  ordered is \<^term>\<open>u64_sub\<close>; \<^verbatim>\<open>saturating_sub\<close> is the subtraction of natural numbers.
\<close>

definition u64_sub :: "nat \<Rightarrow> nat \<Rightarrow> nat" where
  "u64_sub a b = (if b \<le> a then a - b else a + 2 ^ 64 - b)"

lemma u64_sub_le [simp]: "b \<le> a \<Longrightarrow> u64_sub a b = a - b"
  by (simp add: u64_sub_def)

definition u64_add :: "nat \<Rightarrow> nat \<Rightarrow> nat" where
  "u64_add a b = (a + b) mod 2 ^ 64"

lemma u64_add_bound [simp]: "u64_add a b < 2 ^ 64"
  by (simp add: u64_add_def)

lemma u64_add_small [simp]: "a + b < 2 ^ 64 \<Longrightarrow> u64_add a b = a + b"
  by (simp add: u64_add_def)

section \<open>Bytes\<close>

text \<open>\<^verbatim>\<open>to_le_bytes\<close> of an \<^term>\<open>n\<close>-byte unsigned integer.\<close>

fun le_bytes :: "nat \<Rightarrow> nat \<Rightarrow> byte list" where
  "le_bytes 0 x = []"
| "le_bytes (Suc n) x = word_of_nat x # le_bytes n (x div 256)"

fun nat_of_le_bytes :: "byte list \<Rightarrow> nat" where
  "nat_of_le_bytes [] = 0"
| "nat_of_le_bytes (b # bs) = unat b + 256 * nat_of_le_bytes bs"

lemma length_le_bytes [simp]: "length (le_bytes n x) = n"
  by (induction n arbitrary: x) auto

lemma unat_byte_of_nat [simp]: "unat (word_of_nat x :: byte) = x mod 256"
  by (simp add: unat_of_nat)

lemma nat_of_le_bytes_le_bytes: "nat_of_le_bytes (le_bytes n x) = x mod 256 ^ n"
proof (induction n arbitrary: x)
  case 0
  then show ?case by simp
next
  case (Suc n)
  have "x mod (256 * 256 ^ n) = 256 * (x div 256 mod 256 ^ n) + x mod 256"
    by (rule mod_mult2_eq)
  with Suc show ?case by simp
qed

lemma le_bytes_inject:
  "x < 256 ^ n \<Longrightarrow> y < 256 ^ n \<Longrightarrow> le_bytes n x = le_bytes n y \<Longrightarrow> x = y"
  by (metis mod_less nat_of_le_bytes_le_bytes)

lemma nat_of_le_bytes_bound: "nat_of_le_bytes bs < 256 ^ length bs"
proof (induction bs)
  case Nil
  then show ?case by simp
next
  case (Cons b bs)
  have "unat b < 256"
    using unsigned_less [of b] by simp
  with Cons show ?case by simp
qed

section \<open>Association lists as maps\<close>

abbreviation keys_of :: "('k \<times> 'v) list \<Rightarrow> 'k list" where
  "keys_of m \<equiv> map fst m"

abbreviation values_of :: "('k \<times> 'v) list \<Rightarrow> 'v list" where
  "values_of m \<equiv> map snd m"

abbreviation wf_map :: "('k \<times> 'v) list \<Rightarrow> bool" where
  "wf_map m \<equiv> distinct (map fst m)"

definition contains_key :: "('k \<times> 'v) list \<Rightarrow> 'k \<Rightarrow> bool" where
  "contains_key m k \<longleftrightarrow> map_of m k \<noteq> None"

lemma contains_key_iff [hashmap_simps]: "contains_key m k \<longleftrightarrow> k \<in> fst ` set m"
  by (auto simp: contains_key_def map_of_eq_None_iff)

lemma map_of_update [simp, hashmap_simps]:
  "map_of (AList.update k v m) k' = (if k' = k then Some v else map_of m k')"
  by (simp add: update_conv')

lemma wf_update [simp, intro]: "wf_map m \<Longrightarrow> wf_map (AList.update k v m)"
  by (rule distinct_update)

lemma keys_update [hashmap_simps]: "fst ` set (AList.update k v m) = insert k (fst ` set m)"
  by (simp add: dom_update)

lemma wf_filter [simp, intro]: "wf_map m \<Longrightarrow> wf_map (filter P m)"
  by (rule distinct_map_filter)

lemma map_of_filter_wf [hashmap_simps]:
  "wf_map m \<Longrightarrow> map_of (filter P m) k =
     (case map_of m k of None \<Rightarrow> None | Some v \<Rightarrow> if P (k, v) then Some v else None)"
proof (induction m)
  case Nil
  then show ?case by simp
next
  case (Cons kv m)
  then show ?case
    by (cases kv) (auto split: option.splits simp: map_of_eq_None_iff dest: map_of_SomeD)
qed

lemma set_update_subset: "set (AList.update k v m) \<subseteq> insert (k, v) (set m)"
  by (induction m) auto

lemma in_set_update_iff:
  "wf_map m \<Longrightarrow> (a, b) \<in> set (AList.update k v m) \<longleftrightarrow>
     (if a = k then b = v else (a, b) \<in> set m)"
  by (metis map_of_eq_Some_iff map_of_update option.inject wf_update)

lemma keys_map_values [simp, hashmap_simps]: "keys_of (map (\<lambda>(k, v). (k, f k v)) m) = keys_of m"
  by (induction m) auto

lemma map_of_map_values [hashmap_simps]:
  "map_of (map (\<lambda>(k, v). (k, f k v)) m) k = map_option (f k) (map_of m k)"
  by (induction m) auto

section \<open>Lists\<close>

lemma distinct_insert_List [simp]: "distinct xs \<Longrightarrow> distinct (List.insert x xs)"
  by simp

text \<open>\<^verbatim>\<open>BTreeSet\<close>: the ascending list of the members.\<close>

definition btree_set :: "'a::linorder list \<Rightarrow> 'a list" where
  "btree_set xs = sort (remdups xs)"

lemma set_btree_set [simp]: "set (btree_set xs) = set xs"
  by (simp add: btree_set_def)

lemma sorted_btree_set [simp]: "sorted (btree_set xs)"
  by (simp add: btree_set_def)

lemma distinct_btree_set [simp]: "distinct (btree_set xs)"
  by (simp add: btree_set_def)

lemma btree_set_cong: "set xs = set ys \<Longrightarrow> btree_set xs = btree_set ys"
  by (metis distinct_btree_set set_btree_set sorted_btree_set sorted_distinct_set_unique)

text \<open>
  A list sorted by an injective key is determined by its elements: whatever order an
  unordered container is iterated in, sorting by such a key gives one result.
\<close>

lemma sort_key_mset_unique:
  assumes "mset xs = mset ys" and "inj_on k (set xs)"
  shows "sort_key k xs = sort_key k ys"
  using assms
  by (metis mset_sort sorted_sort_key sort_key_inj_key_eq)

lemma distinct_remdups_adj_sorted: "sorted xs \<Longrightarrow> distinct (remdups_adj xs)"
  by (induction xs rule: remdups_adj.induct) (auto simp: antisym)

lemma add_mod_inj:
  fixes s i j n :: nat
  assumes "(s + i) mod n = (s + j) mod n" and "i < n" and "j < n"
  shows "i = j"
proof -
  have "a = b" if "(s + a) mod n = (s + b) mod n" and "a \<le> b" and "b < n" for a b :: nat
  proof -
    have "n dvd (s + b) - (s + a)"
      using that by (subst mod_eq_dvd_iff_nat [symmetric]) auto
    then show ?thesis using that by (auto dest: dvd_imp_le)
  qed
  then show ?thesis using assms by (metis nle_le)
qed

end
