(* ===== verification/Crypto.thy ===== *)
theory Crypto
  imports Prelude
begin

text \<open>
  The crate \<^verbatim>\<open>crypto\<close> (\<^verbatim>\<open>crypto/src/lib.rs\<close>): keys, digests and signatures, batch
  verification, and the RECP threshold signatures of Wahoo.  The packages the crate
  calls (ed25519-dalek, threshold\_crypto, bincode, the seeded generator) are the fields
  of \<open>CryptoLib\<close>, an argument of every definition that calls them; their opaque values
  are byte lists.
\<close>

section \<open>Keys and digests\<close>

text \<open>
  Both are \<^verbatim>\<open>[u8; 32]\<close> with the derived lexicographic order, which is the unsigned order
  of the bytes read as one big-endian 256-bit number.
\<close>

datatype Digest = Digest (digest_word: "256 word")

datatype PublicKey = PublicKey (key_word: "256 word")

instantiation Digest :: linorder
begin

definition less_eq_Digest :: "Digest \<Rightarrow> Digest \<Rightarrow> bool" where
  "less_eq_Digest a b \<longleftrightarrow> digest_word a \<le> digest_word b"

definition less_Digest :: "Digest \<Rightarrow> Digest \<Rightarrow> bool" where
  "less_Digest a b \<longleftrightarrow> digest_word a < digest_word b"

instance
  by standard (auto simp: less_eq_Digest_def less_Digest_def intro: Digest.expand)

end

instantiation PublicKey :: linorder
begin

definition less_eq_PublicKey :: "PublicKey \<Rightarrow> PublicKey \<Rightarrow> bool" where
  "less_eq_PublicKey a b \<longleftrightarrow> key_word a \<le> key_word b"

definition less_PublicKey :: "PublicKey \<Rightarrow> PublicKey \<Rightarrow> bool" where
  "less_PublicKey a b \<longleftrightarrow> key_word a < key_word b"

instance
  by standard (auto simp: less_eq_PublicKey_def less_PublicKey_def intro: PublicKey.expand)

end

lemma Digest_le [simp]: "Digest a \<le> Digest b \<longleftrightarrow> a \<le> b"
  by (simp add: less_eq_Digest_def)

lemma Digest_less [simp]: "Digest a < Digest b \<longleftrightarrow> a < b"
  by (simp add: less_Digest_def)

lemma PublicKey_le [simp]: "PublicKey a \<le> PublicKey b \<longleftrightarrow> a \<le> b"
  by (simp add: less_eq_PublicKey_def)

lemma PublicKey_less [simp]: "PublicKey a < PublicKey b \<longleftrightarrow> a < b"
  by (simp add: less_PublicKey_def)

text \<open>The 32 bytes of such an array, first byte first, and back.\<close>

definition bytes32 :: "256 word \<Rightarrow> byte list" where
  "bytes32 w = rev (le_bytes 32 (unat w))"

definition word32 :: "byte list \<Rightarrow> 256 word" where
  "word32 bs = word_of_nat (nat_of_le_bytes (rev bs))"

lemma length_bytes32 [simp]: "length (bytes32 w) = 32"
  by (simp add: bytes32_def)

lemma word32_bytes32 [simp]: "word32 (bytes32 w) = w"
proof -
  have "unat w < 256 ^ 32"
    using unsigned_less [of w] by simp
  then show ?thesis
    by (simp add: word32_def bytes32_def nat_of_le_bytes_le_bytes)
qed

lemma bytes32_inject [simp]: "bytes32 a = bytes32 b \<longleftrightarrow> a = b"
  by (metis word32_bytes32)

definition digest_bytes :: "Digest \<Rightarrow> byte list" where
  "digest_bytes d = bytes32 (digest_word d)"

definition key_bytes :: "PublicKey \<Rightarrow> byte list" where
  "key_bytes k = bytes32 (key_word k)"

lemma length_digest_bytes [simp]: "length (digest_bytes d) = 32"
  by (simp add: digest_bytes_def)

lemma length_key_bytes [simp]: "length (key_bytes k) = 32"
  by (simp add: key_bytes_def)

lemma digest_bytes_inject [simp]: "digest_bytes a = digest_bytes b \<longleftrightarrow> a = b"
  by (auto simp: digest_bytes_def intro: Digest.expand)

lemma key_bytes_inject [simp]: "key_bytes a = key_bytes b \<longleftrightarrow> a = b"
  by (auto simp: key_bytes_def intro: PublicKey.expand)

definition default_digest :: Digest where
  "default_digest = Digest 0"

definition default_key :: PublicKey where
  "default_key = PublicKey 0"

text \<open>A byte-string literal \<^verbatim>\<open>b"..."\<close>.\<close>

definition bstr :: "string \<Rightarrow> byte list" where
  "bstr s = map (\<lambda>c. word_of_nat (of_char c)) s"

section \<open>The packages the crate calls\<close>

record CryptoLib =
  sha512 :: "byte list \<Rightarrow> byte list"
  dalek_sig_ok :: "byte list \<Rightarrow> bool"
  dalek_key_ok :: "byte list \<Rightarrow> bool"
  dalek_verify_strict :: "byte list \<Rightarrow> byte list \<Rightarrow> byte list \<Rightarrow> bool"
  dalek_verify_batch :: "byte list list \<Rightarrow> byte list list \<Rightarrow> byte list list \<Rightarrow> bool"
  dalek_sign :: "byte list \<Rightarrow> byte list \<Rightarrow> byte list"
  bls_key_set :: "nat \<Rightarrow> byte list \<Rightarrow> byte list"
  bls_sign_share :: "byte list \<Rightarrow> nat \<Rightarrow> byte list \<Rightarrow> byte list"
  bls_verify_share :: "byte list \<Rightarrow> nat \<Rightarrow> byte list \<Rightarrow> byte list \<Rightarrow> bool"
  bls_combine :: "byte list \<Rightarrow> (nat \<times> byte list) list \<Rightarrow> byte list option"
  bls_verify :: "byte list \<Rightarrow> byte list \<Rightarrow> byte list \<Rightarrow> bool"
  bls_sig_bytes :: "byte list \<Rightarrow> byte list"
  bls_sig_from_bytes :: "byte list \<Rightarrow> byte list option"
  bincode_share :: "byte list \<Rightarrow> byte list option"
  debincode_share :: "byte list \<Rightarrow> byte list option"

text \<open>\<^verbatim>\<open>Digest(hasher.finalize()[..32])\<close>: the first 32 bytes of a SHA-512 output.\<close>

definition sha_digest :: "CryptoLib \<Rightarrow> byte list \<Rightarrow> Digest" where
  "sha_digest lib bs = Digest (word32 (take 32 (sha512 lib bs)))"

section \<open>Signatures\<close>

datatype Signature = Signature (part1: "256 word") (part2: "256 word")

datatype CryptoError = CryptoError

definition default_signature :: Signature where
  "default_signature = Signature 0 0"

definition sig_flatten :: "Signature \<Rightarrow> byte list" where
  "sig_flatten s = bytes32 (part1 s) @ bytes32 (part2 s)"

definition sig_to_bytes :: "Signature \<Rightarrow> byte list" where
  "sig_to_bytes s = sig_flatten s"

definition sig_new :: "CryptoLib \<Rightarrow> Digest \<Rightarrow> byte list \<Rightarrow> Signature" where
  "sig_new lib digest secret =
     (let sig = dalek_sign lib secret (digest_bytes digest)
      in Signature (word32 (take 32 sig)) (word32 (take 32 (drop 32 sig))))"

definition sig_from_bytes :: "CryptoLib \<Rightarrow> byte list \<Rightarrow> CryptoError + Signature" where
  "sig_from_bytes lib bytes =
     (if dalek_sig_ok lib bytes
      then Inr (Signature (word32 (take 32 bytes)) (word32 (take 32 (drop 32 bytes))))
      else Inl CryptoError)"

definition sig_verify ::
    "CryptoLib \<Rightarrow> Signature \<Rightarrow> Digest \<Rightarrow> PublicKey \<Rightarrow> CryptoError + unit" where
  "sig_verify lib s digest public_key =
     (if \<not> dalek_sig_ok lib (sig_flatten s) then Inl CryptoError
      else if \<not> dalek_key_ok lib (key_bytes public_key) then Inl CryptoError
      else if dalek_verify_strict lib (key_bytes public_key) (digest_bytes digest) (sig_flatten s)
      then Inr () else Inl CryptoError)"

text \<open>The decoding loop of the two batch verifiers, stopping at the first malformed entry.\<close>

fun batch_items ::
    "CryptoLib \<Rightarrow> (Digest \<times> PublicKey \<times> Signature) list
     \<Rightarrow> CryptoError + (byte list \<times> byte list \<times> byte list) list" where
  "batch_items lib [] = Inr []"
| "batch_items lib ((digest, key, sig) # votes) =
     (if \<not> dalek_sig_ok lib (sig_flatten sig) then Inl CryptoError
      else if \<not> dalek_key_ok lib (key_bytes key) then Inl CryptoError
      else rbind (batch_items lib votes)
        (\<lambda>items. Inr ((digest_bytes digest, sig_flatten sig, key_bytes key) # items)))"

definition verify_batch_digests ::
    "CryptoLib \<Rightarrow> (Digest \<times> PublicKey \<times> Signature) list \<Rightarrow> CryptoError + unit" where
  "verify_batch_digests lib votes =
     rbind (batch_items lib votes)
       (\<lambda>items.
         if dalek_verify_batch lib (map fst items) (map (fst \<circ> snd) items) (map (snd \<circ> snd) items)
         then Inr () else Inl CryptoError)"

definition verify_batch ::
    "CryptoLib \<Rightarrow> Digest \<Rightarrow> (PublicKey \<times> Signature) list \<Rightarrow> CryptoError + unit" where
  "verify_batch lib digest votes =
     verify_batch_digests lib (map (\<lambda>(key, sig). (digest, key, sig)) votes)"

lemma batch_items_Inr:
  "batch_items lib votes = Inr items \<Longrightarrow>
     items = map (\<lambda>(d, k, s). (digest_bytes d, sig_flatten s, key_bytes k)) votes \<and>
     (\<forall>(d, k, s) \<in> set votes. dalek_sig_ok lib (sig_flatten s) \<and> dalek_key_ok lib (key_bytes k))"
  by (induction votes arbitrary: items rule: batch_items.induct [of _ lib]) (auto split: if_splits)

section \<open>RECP threshold signatures\<close>

text \<open>\<^verbatim>\<open>position\<close> of the first element satisfying a predicate.\<close>

fun position :: "('a \<Rightarrow> bool) \<Rightarrow> 'a list \<Rightarrow> nat option" where
  "position P [] = None"
| "position P (x # xs) = (if P x then Some 0 else map_option Suc (position P xs))"

lemma position_Some: "position P xs = Some i \<Longrightarrow> i < length xs \<and> P (xs ! i)"
  by (induction xs arbitrary: i) (auto split: if_splits)

lemma position_None: "position P xs = None \<longleftrightarrow> (\<forall>x \<in> set xs. \<not> P x)"
  by (induction xs) auto

definition authority_index :: "PublicKey list \<Rightarrow> PublicKey \<Rightarrow> nat option" where
  "authority_index authorities authority = position (\<lambda>name. name = authority) (sort authorities)"

definition deterministic_recp_key_set :: "CryptoLib \<Rightarrow> PublicKey list \<Rightarrow> nat \<Rightarrow> byte list" where
  "deterministic_recp_key_set lib authorities threshold =
     bls_key_set lib threshold
       (take 32 (sha512 lib (bstr ''wahoo-threshold-recp-seed-v1''
                             @ concat (map key_bytes (sort authorities)))))"

definition recp_message :: "nat \<Rightarrow> Digest \<Rightarrow> byte list" where
  "recp_message round block_hash =
     bstr ''wahoo-recp-v1'' @ le_bytes 8 round @ digest_bytes block_hash"

definition recp_threshold :: "nat \<Rightarrow> nat" where
  "recp_threshold committee_size = (committee_size - 1) div 3"

definition make_recp_share ::
    "CryptoLib \<Rightarrow> PublicKey list \<Rightarrow> nat \<Rightarrow> PublicKey \<Rightarrow> nat \<Rightarrow> Digest \<Rightarrow> byte list option" where
  "make_recp_share lib authorities threshold authority round block_hash =
     (case authority_index authorities authority of
        None \<Rightarrow> None
      | Some index \<Rightarrow>
          bincode_share lib
            (bls_sign_share lib (deterministic_recp_key_set lib authorities threshold) index
              (recp_message round block_hash)))"

definition verify_recp_share ::
    "CryptoLib \<Rightarrow> PublicKey list \<Rightarrow> nat \<Rightarrow> PublicKey \<Rightarrow> nat \<Rightarrow> Digest \<Rightarrow> byte list \<Rightarrow> bool" where
  "verify_recp_share lib authorities threshold authority round block_hash share_bytes =
     (case authority_index authorities authority of
        None \<Rightarrow> False
      | Some index \<Rightarrow>
          (case debincode_share lib share_bytes of
             None \<Rightarrow> False
           | Some share \<Rightarrow>
               bls_verify_share lib (deterministic_recp_key_set lib authorities threshold) index
                 share (recp_message round block_hash)))"

fun recp_unique_shares ::
    "CryptoLib \<Rightarrow> PublicKey list \<Rightarrow> byte list \<Rightarrow> byte list
     \<Rightarrow> (nat \<times> byte list) list \<Rightarrow> (PublicKey \<times> byte list) list \<Rightarrow> (nat \<times> byte list) list" where
  "recp_unique_shares lib authorities pks message unique_shares [] = unique_shares"
| "recp_unique_shares lib authorities pks message unique_shares ((authority, bytes) # shares) =
     (case authority_index authorities authority of
        None \<Rightarrow> recp_unique_shares lib authorities pks message unique_shares shares
      | Some index \<Rightarrow>
          (case debincode_share lib bytes of
             None \<Rightarrow> recp_unique_shares lib authorities pks message unique_shares shares
           | Some share \<Rightarrow>
               if \<not> bls_verify_share lib pks index share message
               then recp_unique_shares lib authorities pks message unique_shares shares
               else recp_unique_shares lib authorities pks message
                      (if contains_key unique_shares index then unique_shares
                       else AList.update index share unique_shares) shares))"

definition combine_recp_shares ::
    "CryptoLib \<Rightarrow> PublicKey list \<Rightarrow> nat \<Rightarrow> nat \<Rightarrow> Digest \<Rightarrow> (PublicKey \<times> byte list) list
     \<Rightarrow> byte list option" where
  "combine_recp_shares lib authorities threshold round block_hash shares =
     (let pks = deterministic_recp_key_set lib authorities threshold;
          message = recp_message round block_hash;
          unique_shares = recp_unique_shares lib authorities pks message [] shares
      in if length unique_shares < threshold + 1 then None
         else (case bls_combine lib pks (sort_key fst unique_shares) of
                 None \<Rightarrow> None
               | Some signature \<Rightarrow>
                   if \<not> bls_verify lib pks signature message then None
                   else Some (bls_sig_bytes lib signature)))"

definition verify_recp_aggregate ::
    "CryptoLib \<Rightarrow> PublicKey list \<Rightarrow> nat \<Rightarrow> nat \<Rightarrow> Digest \<Rightarrow> byte list \<Rightarrow> bool" where
  "verify_recp_aggregate lib authorities threshold round block_hash aggregate_bytes =
     (if length aggregate_bytes \<noteq> 96 then False
      else (case bls_sig_from_bytes lib aggregate_bytes of
              None \<Rightarrow> False
            | Some signature \<Rightarrow>
                bls_verify lib (deterministic_recp_key_set lib authorities threshold) signature
                  (recp_message round block_hash)))"

section \<open>Messages are separated\<close>

lemma append_eq_prefixI: "xs @ zs = ys @ ws \<Longrightarrow> length xs = length ys \<Longrightarrow> xs = ys \<and> zs = ws"
  by simp

lemma recp_message_inject:
  assumes "r < 2 ^ 64" and "r' < 2 ^ 64" and "recp_message r h = recp_message r' h'"
  shows "r = r' \<and> h = h'"
  using assms le_bytes_inject [of r 8 r'] by (simp add: recp_message_def)

section \<open>A library for concrete runs\<close>

text \<open>
  A trivial instance of the packages, used to evaluate the definitions on concrete
  inputs: hashing keeps the first bytes, every signature verifies, a share of a message
  is the message.
\<close>

definition demo_lib :: CryptoLib where
  "demo_lib = \<lparr>
     sha512 = (\<lambda>bs. take 64 bs @ replicate (64 - length bs) 0),
     dalek_sig_ok = (\<lambda>_. True), dalek_key_ok = (\<lambda>_. True),
     dalek_verify_strict = (\<lambda>_ _ _. True), dalek_verify_batch = (\<lambda>_ _ _. True),
     dalek_sign = (\<lambda>_ _. replicate 64 0),
     bls_key_set = (\<lambda>_ _. []), bls_sign_share = (\<lambda>_ _ m. m),
     bls_verify_share = (\<lambda>_ _ s m. s = m),
     bls_combine = (\<lambda>_ shares. case shares of [] \<Rightarrow> None | (_, s) # _ \<Rightarrow> Some s),
     bls_verify = (\<lambda>_ s m. s = m), bls_sig_bytes = (\<lambda>s. s), bls_sig_from_bytes = Some,
     bincode_share = Some, debincode_share = Some\<rparr>"

lemma demo_lib_simps [simp]:
  "sha512 demo_lib bs = take 64 bs @ replicate (64 - length bs) 0"
  "dalek_sig_ok demo_lib b" "dalek_key_ok demo_lib b"
  "dalek_verify_strict demo_lib k m b" "dalek_verify_batch demo_lib ms ss ks"
  "dalek_sign demo_lib sec b = replicate 64 0"
  "bls_key_set demo_lib t b = []" "bls_sign_share demo_lib b i m = m"
  "bls_verify_share demo_lib b i s m = (s = m)"
  "bls_combine demo_lib b shares = (case shares of [] \<Rightarrow> None | (_, s) # _ \<Rightarrow> Some s)"
  "bls_verify demo_lib b s m = (s = m)" "bls_sig_bytes demo_lib s = s"
  "bls_sig_from_bytes demo_lib b = Some b"
  "bincode_share demo_lib b = Some b" "debincode_share demo_lib b = Some b"
  by (simp_all add: demo_lib_def)

end
