(* ===== verification/Config.thy ===== *)
theory Config
  imports Crypto
begin

text \<open>
  The crate \<^verbatim>\<open>config\<close> (\<^verbatim>\<open>config/src/lib.rs\<close>): the protocol selectors and the committee
  with its stake arithmetic.  A stake is a \<^verbatim>\<open>u32\<close> and stays a 32-bit word, since the
  thresholds multiply the total stake by two.  The theory also states the interface
  \<open>stake_quorum\<close> that every certificate-forming component relies on, and interprets it
  on the committee.
\<close>

section \<open>Protocol selectors\<close>

datatype DagProtocol =
    Narwhal | Bullshark | Shortfin | MahiMahi | MahiMahi4 | MahiMahi5 | Wahoo

datatype ConsensusProtocol = RoundRobin | PseudoRandom | CommonCoin

definition default_dag_protocol :: DagProtocol where
  "default_dag_protocol = Shortfin"

fun dag_protocol_as_str :: "DagProtocol \<Rightarrow> string" where
  "dag_protocol_as_str Narwhal = ''narwhal''"
| "dag_protocol_as_str Bullshark = ''bullshark''"
| "dag_protocol_as_str Shortfin = ''shortfin''"
| "dag_protocol_as_str MahiMahi = ''mahi_mahi''"
| "dag_protocol_as_str MahiMahi4 = ''mahi_mahi_4''"
| "dag_protocol_as_str MahiMahi5 = ''mahi_mahi_5''"
| "dag_protocol_as_str Wahoo = ''wahoo''"

definition is_shortfin_family :: "DagProtocol \<Rightarrow> bool" where
  "is_shortfin_family p \<longleftrightarrow> p = Shortfin"

definition is_uncertified_dag :: "DagProtocol \<Rightarrow> bool" where
  "is_uncertified_dag p \<longleftrightarrow> p \<in> {Shortfin, MahiMahi, MahiMahi4, MahiMahi5}"

fun mahi_mahi_wave_length :: "DagProtocol \<Rightarrow> nat option" where
  "mahi_mahi_wave_length MahiMahi = Some 5"
| "mahi_mahi_wave_length MahiMahi5 = Some 5"
| "mahi_mahi_wave_length MahiMahi4 = Some 4"
| "mahi_mahi_wave_length _ = None"

definition is_mahi_mahi :: "DagProtocol \<Rightarrow> bool" where
  "is_mahi_mahi p \<longleftrightarrow> mahi_mahi_wave_length p \<noteq> None"

fun consensus_protocol_as_str :: "ConsensusProtocol \<Rightarrow> string" where
  "consensus_protocol_as_str RoundRobin = ''round_robin''"
| "consensus_protocol_as_str PseudoRandom = ''pseudo_random''"
| "consensus_protocol_as_str CommonCoin = ''common_coin''"

section \<open>The committee\<close>

type_synonym Stake = u32
type_synonym WorkerId = u32
type_synonym SocketAddr = string

record PrimaryAddresses =
  primary_to_primary :: SocketAddr
  worker_to_primary :: SocketAddr

record WorkerAddresses =
  transactions :: SocketAddr
  worker_to_worker :: SocketAddr
  primary_to_worker :: SocketAddr

record Authority =
  auth_stake :: Stake
  auth_primary :: PrimaryAddresses
  auth_workers :: "(WorkerId \<times> WorkerAddresses) list"

record Committee =
  authorities :: "(PublicKey \<times> Authority) list"

datatype ConfigError = NotInCommittee PublicKey | UnknownWorker WorkerId

definition committee_size :: "Committee \<Rightarrow> nat" where
  "committee_size c = length (authorities c)"

definition stake :: "Committee \<Rightarrow> PublicKey \<Rightarrow> Stake" where
  "stake c name = (case map_of (authorities c) name of None \<Rightarrow> 0 | Some a \<Rightarrow> auth_stake a)"

definition others_stake :: "Committee \<Rightarrow> PublicKey \<Rightarrow> (PublicKey \<times> Stake) list" where
  "others_stake c myself =
     map (\<lambda>(name, a). (name, auth_stake a)) (filter (\<lambda>(name, _). name \<noteq> myself) (authorities c))"

definition total_votes :: "Committee \<Rightarrow> Stake" where
  "total_votes c = sum_list (map (\<lambda>(_, a). auth_stake a) (authorities c))"

definition quorum_threshold :: "Committee \<Rightarrow> Stake" where
  "quorum_threshold c = 2 * total_votes c div 3 + 1"

definition validity_threshold :: "Committee \<Rightarrow> Stake" where
  "validity_threshold c = (total_votes c + 2) div 3"

definition committee_leader :: "Committee \<Rightarrow> nat \<Rightarrow> PublicKey outcome" where
  "committee_leader c seed =
     (let keys = sort (keys_of (authorities c))
      in if committee_size c = 0 then Inl RemainderByZero
         else Inr (keys ! (seed mod committee_size c)))"

definition committee_primary :: "Committee \<Rightarrow> PublicKey \<Rightarrow> ConfigError + PrimaryAddresses" where
  "committee_primary c to =
     (case map_of (authorities c) to of
        None \<Rightarrow> Inl (NotInCommittee to) | Some a \<Rightarrow> Inr (auth_primary a))"

definition others_primaries :: "Committee \<Rightarrow> PublicKey \<Rightarrow> (PublicKey \<times> PrimaryAddresses) list" where
  "others_primaries c myself =
     map (\<lambda>(name, a). (name, auth_primary a)) (filter (\<lambda>(name, _). name \<noteq> myself) (authorities c))"

text \<open>A missing worker is reported with the authority, as the code does.\<close>

definition committee_worker ::
    "Committee \<Rightarrow> PublicKey \<Rightarrow> WorkerId \<Rightarrow> ConfigError + WorkerAddresses" where
  "committee_worker c to worker_id =
     (case List.find (\<lambda>(name, _). name = to) (authorities c) of
        None \<Rightarrow> Inl (NotInCommittee to)
      | Some (_, a) \<Rightarrow>
          (case List.find (\<lambda>(i, _). i = worker_id) (auth_workers a) of
             None \<Rightarrow> Inl (NotInCommittee to)
           | Some (_, w) \<Rightarrow> Inr w))"

definition our_workers :: "Committee \<Rightarrow> PublicKey \<Rightarrow> ConfigError + WorkerAddresses list" where
  "our_workers c myself =
     (case List.find (\<lambda>(name, _). name = myself) (authorities c) of
        None \<Rightarrow> Inl (NotInCommittee myself)
      | Some (_, a) \<Rightarrow> Inr (values_of (auth_workers a)))"

definition others_workers ::
    "Committee \<Rightarrow> PublicKey \<Rightarrow> WorkerId \<Rightarrow> (PublicKey \<times> WorkerAddresses) list" where
  "others_workers c myself worker_id =
     List.map_filter (\<lambda>(name, a).
        map_option (\<lambda>(_, w). (name, w)) (List.find (\<lambda>(i, _). i = worker_id) (auth_workers a)))
       (filter (\<lambda>(name, _). name \<noteq> myself) (authorities c))"

section \<open>Stake sums\<close>

text \<open>
  The code adds stakes up in \<^verbatim>\<open>u32\<close>.  \<open>total_stake\<close> is the mathematical total; a
  committee is well formed when its keys ascend (it is a \<^verbatim>\<open>BTreeMap\<close>) and the total
  leaves room for the factor two of \<^verbatim>\<open>quorum_threshold\<close>.
\<close>

definition total_stake :: "Committee \<Rightarrow> nat" where
  "total_stake c = sum_list (map (\<lambda>(_, a). unat (auth_stake a)) (authorities c))"

definition committee_ok :: "Committee \<Rightarrow> bool" where
  "committee_ok c \<longleftrightarrow>
     sorted_wrt (<) (keys_of (authorities c)) \<and> 0 < total_stake c \<and> total_stake c < 2 ^ 31"

definition members :: "Committee \<Rightarrow> PublicKey set" where
  "members c = fst ` set (authorities c)"

definition nstake :: "Committee \<Rightarrow> PublicKey \<Rightarrow> nat" where
  "nstake c a = unat (stake c a)"

lemma committee_ok_wf: "committee_ok c \<Longrightarrow> wf_map (authorities c)"
  by (auto simp: committee_ok_def strict_sorted_iff)

lemma finite_members [simp]: "finite (members c)"
  by (simp add: members_def)

lemma stake_outside: "a \<notin> members c \<Longrightarrow> stake c a = 0"
  by (auto simp: stake_def members_def split: option.splits dest: map_of_SomeD intro: rev_image_eqI)

lemma stake_pos_member: "0 < stake c a \<Longrightarrow> a \<in> members c"
  using stake_outside by fastforce

lemma nstake_outside: "a \<notin> members c \<Longrightarrow> nstake c a = 0"
  by (simp add: nstake_def stake_outside)

lemma sum_stake_total:
  assumes "wf_map (authorities c)"
  shows "(\<Sum>a \<in> members c. nstake c a) = total_stake c"
proof -
  have "(\<Sum>a \<in> members c. nstake c a) = sum_list (map (nstake c) (keys_of (authorities c)))"
    using sum_list_distinct_conv_sum_set [OF assms, of "nstake c"] by (simp add: members_def)
  also have "\<dots> = total_stake c"
    using assms by (auto simp: total_stake_def nstake_def stake_def comp_def intro!: arg_cong [where f = sum_list])
  finally show ?thesis .
qed

text \<open>A word sum is the sum of the values while that sum fits.\<close>

lemma unat_sum_list_word:
  fixes f :: "'a \<Rightarrow> u32"
  assumes "sum_list (map (\<lambda>x. unat (f x)) xs) < 2 ^ 32"
  shows "unat (sum_list (map f xs)) = sum_list (map (\<lambda>x. unat (f x)) xs)"
  using assms
proof (induction xs)
  case Nil
  then show ?case by simp
next
  case (Cons x xs)
  then have "unat (sum_list (map f xs)) = sum_list (map (\<lambda>x. unat (f x)) xs)" by simp
  with Cons.prems show ?case by (simp add: unat_word_ariths)
qed

lemma weight_le_total:
  assumes "wf_map (authorities c)"
  shows "(\<Sum>a \<in> A. nstake c a) \<le> total_stake c"
proof (cases "finite A")
  case True
  have "(\<Sum>a \<in> A. nstake c a) = (\<Sum>a \<in> A \<inter> members c. nstake c a)"
    using True by (intro sum.mono_neutral_right) (auto simp: nstake_outside)
  also have "\<dots> \<le> (\<Sum>a \<in> members c. nstake c a)"
    by (intro sum_mono2) auto
  finally show ?thesis
    using sum_stake_total [OF assms] by simp
qed simp

lemma unat_weight [stake_simps]:
  assumes "committee_ok c" and "distinct xs"
  shows "unat (sum_list (map (stake c) xs)) = (\<Sum>a \<in> set xs. nstake c a)"
proof -
  have eq: "sum_list (map (\<lambda>x. unat (stake c x)) xs) = (\<Sum>a \<in> set xs. nstake c a)"
    using assms(2) by (simp add: sum_list_distinct_conv_sum_set nstake_def)
  have "(\<Sum>a \<in> set xs. nstake c a) < 2 ^ 32"
    using weight_le_total [OF committee_ok_wf [OF assms(1)], of "set xs"] assms(1)
    by (simp add: committee_ok_def)
  then show ?thesis
    using unat_sum_list_word [of "stake c" xs] eq by simp
qed

lemma unat_total_votes [stake_simps]:
  assumes "committee_ok c"
  shows "unat (total_votes c) = total_stake c"
proof -
  have "total_stake c = sum_list (map (\<lambda>x. unat (auth_stake (snd x))) (authorities c))"
    by (simp add: total_stake_def case_prod_beta')
  moreover have "total_votes c = sum_list (map (\<lambda>x. auth_stake (snd x)) (authorities c))"
    by (simp add: total_votes_def case_prod_beta')
  ultimately show ?thesis
    using assms unat_sum_list_word [of "\<lambda>x. auth_stake (snd x)" "authorities c"]
    by (simp add: committee_ok_def)
qed

lemma unat_quorum_threshold [stake_simps]:
  assumes "committee_ok c"
  shows "unat (quorum_threshold c) = 2 * total_stake c div 3 + 1"
proof -
  have b: "total_stake c < 2 ^ 31" using assms by (simp add: committee_ok_def)
  have "unat (2 * total_votes c) = 2 * total_stake c"
    using b by (simp add: unat_word_ariths unat_total_votes [OF assms])
  then have d: "unat (2 * total_votes c div 3) = 2 * total_stake c div 3"
    by (simp add: unat_div)
  have "2 * total_stake c div 3 + 1 < 2 ^ 32" using b by simp
  then show ?thesis
    using d by (simp add: quorum_threshold_def unat_word_ariths)
qed

lemma unat_validity_threshold [stake_simps]:
  assumes "committee_ok c"
  shows "unat (validity_threshold c) = (total_stake c + 2) div 3"
proof -
  have b: "total_stake c < 2 ^ 31" using assms by (simp add: committee_ok_def)
  have "unat (total_votes c + 2) = total_stake c + 2"
    using b by (simp add: unat_word_ariths unat_total_votes [OF assms])
  then show ?thesis by (simp add: validity_threshold_def unat_div)
qed

section \<open>Quorum systems\<close>

text \<open>
  What the protocols need of the thresholds, for any weighted set of voters: two quorums
  share a correct voter, a validity set contains one and meets every quorum, and the
  correct voters alone can form a quorum.  The laws only bound the thresholds by the
  total weight.
\<close>

locale stake_quorum =
  fixes invar :: "'c \<Rightarrow> bool"
    and voters :: "'c \<Rightarrow> 'a set"
    and weight :: "'c \<Rightarrow> 'a \<Rightarrow> nat"
    and quorum :: "'c \<Rightarrow> nat"
    and validity :: "'c \<Rightarrow> nat"
  assumes finite_voters: "invar c \<Longrightarrow> finite (voters c)"
    and weight_outside: "invar c \<Longrightarrow> a \<notin> voters c \<Longrightarrow> weight c a = 0"
    and quorum_two_thirds: "invar c \<Longrightarrow> 2 * sum (weight c) (voters c) < 3 * quorum c"
    and quorum_tight: "invar c \<Longrightarrow> 3 * quorum c \<le> 2 * sum (weight c) (voters c) + 3"
    and validity_third: "invar c \<Longrightarrow> sum (weight c) (voters c) \<le> 3 * validity c"
begin

lemma sum_le_total:
  assumes "invar c"
  shows "sum (weight c) A \<le> sum (weight c) (voters c)"
proof (cases "finite A")
  case True
  have "sum (weight c) A = sum (weight c) (A \<inter> voters c)"
    using True assms by (intro sum.mono_neutral_right) (auto simp: weight_outside)
  also have "\<dots> \<le> sum (weight c) (voters c)"
    by (intro sum_mono2) (auto simp: assms finite_voters)
  finally show ?thesis .
qed simp

lemma overlap_weight:
  assumes "invar c" and "finite A" and "finite B"
  shows "sum (weight c) A + sum (weight c) B
         \<le> sum (weight c) (voters c) + sum (weight c) (A \<inter> B)"
  using sum.union_inter [OF assms(2,3), of "weight c"] sum_le_total [OF assms(1), of "A \<union> B"]
  by linarith

lemma escapes_faulty:
  assumes "finite A" and "sum (weight c) F < sum (weight c) A" and "finite F"
  shows "\<exists>a \<in> A. a \<notin> F \<and> 0 < weight c a"
proof (rule ccontr)
  assume "\<not> ?thesis"
  then have "sum (weight c) (A - F) = 0" by (intro sum.neutral) auto
  then have "sum (weight c) A = sum (weight c) (A \<inter> F)"
    using sum.Int_Diff [OF assms(1), of "weight c" F] by simp
  also have "\<dots> \<le> sum (weight c) F"
    using assms(3) by (intro sum_mono2) auto
  finally show False using assms(2) by simp
qed

lemma quorums_share_correct:
  assumes "invar c" and "finite A" and "finite B" and "finite F"
    and "quorum c \<le> sum (weight c) A" and "quorum c \<le> sum (weight c) B"
    and "3 * sum (weight c) F < sum (weight c) (voters c)"
  shows "\<exists>a \<in> A \<inter> B. a \<notin> F \<and> 0 < weight c a"
proof (rule escapes_faulty)
  show "sum (weight c) F < sum (weight c) (A \<inter> B)"
    using overlap_weight [OF assms(1-3)] quorum_two_thirds [OF assms(1)] assms(5-7) by linarith
qed (use assms in auto)

lemma validity_has_correct:
  assumes "invar c" and "finite A" and "finite F"
    and "validity c \<le> sum (weight c) A"
    and "3 * sum (weight c) F < sum (weight c) (voters c)"
  shows "\<exists>a \<in> A. a \<notin> F \<and> 0 < weight c a"
proof (rule escapes_faulty)
  show "sum (weight c) F < sum (weight c) A"
    using validity_third [OF assms(1)] assms(4,5) by linarith
qed (use assms in auto)

lemma quorum_meets_validity:
  assumes "invar c" and "finite A" and "finite B"
    and "quorum c \<le> sum (weight c) A" and "validity c \<le> sum (weight c) B"
  shows "\<exists>a \<in> A \<inter> B. 0 < weight c a"
  using escapes_faulty [of "A \<inter> B" c "{}"] overlap_weight [OF assms(1-3)]
    quorum_two_thirds [OF assms(1)] validity_third [OF assms(1)] assms(2-5)
  by auto

lemma correct_form_quorum:
  assumes "invar c" and "3 * sum (weight c) F < sum (weight c) (voters c)" and "F \<subseteq> voters c"
  shows "quorum c \<le> sum (weight c) (voters c - F)"
proof -
  have "sum (weight c) (voters c - F) = sum (weight c) (voters c) - sum (weight c) F"
    using assms by (intro sum_diff_nat) (auto simp: finite_voters intro: finite_subset)
  then show ?thesis
    using quorum_tight [OF assms(1)] assms(2) by linarith
qed

end

interpretation committee: stake_quorum committee_ok members nstake
  "\<lambda>c. unat (quorum_threshold c)" "\<lambda>c. unat (validity_threshold c)"
proof
  fix c :: Committee and a
  assume ok: "committee_ok c"
  note total = sum_stake_total [OF committee_ok_wf [OF ok]]
  show "finite (members c)" by simp
  show "a \<notin> members c \<Longrightarrow> nstake c a = 0" by (rule nstake_outside)
  show "2 * sum (nstake c) (members c) < 3 * unat (quorum_threshold c)"
    and "3 * unat (quorum_threshold c) \<le> 2 * sum (nstake c) (members c) + 3"
    and "sum (nstake c) (members c) \<le> 3 * unat (validity_threshold c)"
    by (auto simp: total stake_simps ok)
qed

text \<open>
  A set of authorities holds a quorum (a validity share) of the stake; the faulty
  authorities hold less than a third.
\<close>

definition has_quorum :: "Committee \<Rightarrow> PublicKey set \<Rightarrow> bool" where
  "has_quorum c A \<longleftrightarrow> finite A \<and> unat (quorum_threshold c) \<le> sum (nstake c) A"

definition few_faulty :: "Committee \<Rightarrow> PublicKey set \<Rightarrow> bool" where
  "few_faulty c F \<longleftrightarrow> finite F \<and> 3 * sum (nstake c) F < total_stake c"

lemma few_faulty_members:
  "committee_ok c \<Longrightarrow> few_faulty c F \<longleftrightarrow> finite F \<and> 3 * sum (nstake c) F < sum (nstake c) (members c)"
  by (simp add: few_faulty_def sum_stake_total committee_ok_wf)

lemma has_quorum_list:
  assumes "committee_ok c" and "distinct xs"
  shows "has_quorum c (set xs) \<longleftrightarrow> quorum_threshold c \<le> sum_list (map (stake c) xs)"
  using assms by (simp add: has_quorum_def word_le_nat_alt unat_weight)

lemma has_quorum_mono:
  assumes "has_quorum c A" and "A \<subseteq> B" and "finite B"
  shows "has_quorum c B"
  using assms sum_mono2 [OF assms(3,2), of "nstake c"] by (simp add: has_quorum_def)

lemma has_quorum_meets:
  assumes "committee_ok c" and "has_quorum c A" and "has_quorum c B"
  shows "A \<inter> B \<noteq> {}"
  using assms committee.quorums_share_correct [of c A B "{}"] sum_stake_total [of c]
  by (auto simp: has_quorum_def committee_ok_def strict_sorted_iff)

lemma quorums_share_correct_member:
  assumes "committee_ok c" and "has_quorum c A" and "has_quorum c B" and "few_faulty c F"
  shows "\<exists>a \<in> A \<inter> B. a \<notin> F \<and> 0 < nstake c a"
  using assms committee.quorums_share_correct [of c A B F]
  by (simp add: has_quorum_def few_faulty_members)

section \<open>A committee for concrete runs\<close>

text \<open>Four authorities of stake one: three make a quorum, two a validity share.\<close>

definition demo_keys :: "PublicKey list" where
  "demo_keys = [PublicKey 1, PublicKey 2, PublicKey 3, PublicKey 4]"

definition demo_committee :: Committee where
  "demo_committee = \<lparr>authorities = map (\<lambda>k. (k,
     \<lparr>auth_stake = 1, auth_primary = \<lparr>primary_to_primary = [], worker_to_primary = []\<rparr>,
      auth_workers = []\<rparr>)) demo_keys\<rparr>"

lemma demo_committee_keys [simp]: "keys_of (authorities demo_committee) = demo_keys"
  by (simp add: demo_committee_def demo_keys_def)

lemma demo_committee_thresholds [simp]:
  "quorum_threshold demo_committee = 3" "validity_threshold demo_committee = 2"
  "total_stake demo_committee = 4" "committee_ok demo_committee"
  by (simp_all add: quorum_threshold_def validity_threshold_def total_votes_def total_stake_def
      committee_ok_def demo_committee_def demo_keys_def)

lemma demo_stake [simp]: "stake demo_committee k = (if k \<in> set demo_keys then 1 else 0)"
  by (auto simp: stake_def demo_committee_def demo_keys_def)

lemma demo_no_faulty [simp]: "few_faulty demo_committee {}"
  by (simp add: few_faulty_def)

section \<open>Properties\<close>

text \<open>
  C25. Thresholds and intersection.  For a well-formed committee whose total stake fits
  in 31 bits, the quorum threshold is the total minus the largest tolerated faulty stake
  and the validity threshold is one more than that faulty stake; any two quorums then
  share an authority outside every faulty set of that size, and a quorum and a validity
  set share an authority.
\<close>

theorem thresholds_are_quorums:
  assumes "committee_ok c" and "n = total_stake c" and "f = (n - 1) div 3"
  shows "unat (quorum_threshold c) = n - f \<and> unat (validity_threshold c) = f + 1 \<and>
         (\<forall>A B F. has_quorum c A \<and> has_quorum c B \<and> few_faulty c F \<longrightarrow> (\<exists>a \<in> A \<inter> B. a \<notin> F)) \<and>
         (\<forall>A B. has_quorum c A \<and> finite B \<and> unat (validity_threshold c) \<le> sum (nstake c) B
            \<longrightarrow> A \<inter> B \<noteq> {})"
proof (intro conjI allI impI)
  have "0 < n" using assms(1,2) by (simp add: committee_ok_def)
  then show "unat (quorum_threshold c) = n - f" and "unat (validity_threshold c) = f + 1"
    using assms by (simp_all add: stake_simps)
next
  fix A B F
  assume "has_quorum c A \<and> has_quorum c B \<and> few_faulty c F"
  then show "\<exists>a \<in> A \<inter> B. a \<notin> F"
    using quorums_share_correct_member [OF assms(1)] by blast
next
  fix A B
  assume "has_quorum c A \<and> finite B \<and> unat (validity_threshold c) \<le> sum (nstake c) B"
  then show "A \<inter> B \<noteq> {}"
    using committee.quorum_meets_validity [OF assms(1), of A B] by (auto simp: has_quorum_def)
qed

theorem thresholds_are_quorums_witness:
  "unat (quorum_threshold demo_committee) = 3 \<and> unat (validity_threshold demo_committee) = 2"
  using thresholds_are_quorums [of demo_committee 4 1] by simp

text \<open>
  Overflow of the quorum threshold.  Doubling the total stake is done in 32 bits:
  a committee whose total stake is exactly half of the \<^verbatim>\<open>u32\<close> range gets the quorum
  threshold 1, so that a single unit of stake passes every quorum check.
\<close>

theorem quorum_threshold_overflow:
  assumes "total_votes c = 2 ^ 31"
  shows "quorum_threshold c = 1"
  using assms by (simp add: quorum_threshold_def)

theorem quorum_threshold_overflow_witness:
  "quorum_threshold \<lparr>authorities = map (\<lambda>k. (k,
     \<lparr>auth_stake = 2 ^ 29, auth_primary = \<lparr>primary_to_primary = [], worker_to_primary = []\<rparr>,
      auth_workers = []\<rparr>)) demo_keys\<rparr> = 1"
  by (rule quorum_threshold_overflow) (simp add: total_votes_def demo_keys_def)

end
