(* ===== verification/Coin.thy ===== *)
theory Coin
  imports Config
begin

text \<open>
  The leader coin (\<^verbatim>\<open>crypto/src/coin.rs\<close>): the communication-free schedules of
  \<^verbatim>\<open>CoinCommittee\<close> and the threshold coin with its three caches.  The caches sit behind
  mutexes in the code; the model threads the coin through every call.
\<close>

definition CACHE_ROUNDS :: nat where
  "CACHE_ROUNDS = 256"

section \<open>Schedules\<close>

record CoinCommittee =
  cc_authorities :: "PublicKey list"

definition coin_committee_new :: "PublicKey list \<Rightarrow> CoinCommittee outcome" where
  "coin_committee_new auths =
     (let sorted = remdups_adj (sort auths)
      in if sorted = [] then Inl (AssertFailed ''coin committee must not be empty'')
         else Inr \<lparr>cc_authorities = sorted\<rparr>)"

definition cc_round_robin :: "CoinCommittee \<Rightarrow> nat \<Rightarrow> nat" where
  "cc_round_robin cc election_slot = election_slot"

definition cc_pseudo_random :: "CryptoLib \<Rightarrow> CoinCommittee \<Rightarrow> nat \<Rightarrow> nat" where
  "cc_pseudo_random lib cc round =
     nat_of_le_bytes (take 8 (sha512 lib
       (bstr ''noveldag-pseudo-random-coin-v1''
        @ concat (map key_bytes (cc_authorities cc)) @ le_bytes 8 round)))"

text \<open>The index is computed in \<^verbatim>\<open>usize\<close> (64 bits), where the addition wraps.\<close>

definition cc_leader :: "CoinCommittee \<Rightarrow> nat \<Rightarrow> nat \<Rightarrow> PublicKey outcome" where
  "cc_leader cc value offset =
     (if cc_authorities cc = [] then Inl RemainderByZero
      else Inr (cc_authorities cc ! (u64_add value offset mod length (cc_authorities cc))))"

definition round_robin_slot :: "nat \<Rightarrow> nat \<Rightarrow> nat \<Rightarrow> nat outcome" where
  "round_robin_slot round first_round stride =
     (if \<not> stride > 0 then Inl (AssertFailed ''round-robin stride must be positive'')
      else if \<not> round \<ge> first_round then Inl (AssertFailed ''round precedes first leader round'')
      else Inr ((round - first_round) div stride))"

section \<open>The threshold coin\<close>

record CachedShare =
  cs_bytes :: "byte list"
  cs_share :: "byte list option"

record ThresholdCoin =
  tc_indices :: "(PublicKey \<times> nat) list"
  tc_threshold :: nat
  tc_key_set :: "byte list"
  tc_share_cache :: "((nat \<times> nat) \<times> byte list) list"
  tc_verified :: "((nat \<times> nat) \<times> CachedShare) list"
  tc_recovered :: "(nat \<times> nat) list"

definition coin_threshold :: "nat \<Rightarrow> nat" where
  "coin_threshold n = (n - 1) div 3"

definition coin_quorum_threshold :: "nat \<Rightarrow> nat" where
  "coin_quorum_threshold n = 2 * coin_threshold n"

definition coin_message :: "nat \<Rightarrow> byte list" where
  "coin_message round = bstr ''narwhal-common-coin-v1'' @ le_bytes 8 round"

definition deterministic_key_set :: "CryptoLib \<Rightarrow> PublicKey list \<Rightarrow> nat \<Rightarrow> byte list" where
  "deterministic_key_set lib auths threshold =
     bls_key_set lib threshold
       (take 32 (sha512 lib (bstr ''narwhal-threshold-coin-seed-v1'' @ concat (map key_bytes auths))))"

definition coin_from_committee :: "CryptoLib \<Rightarrow> CoinCommittee \<Rightarrow> nat \<Rightarrow> ThresholdCoin outcome" where
  "coin_from_committee lib cc threshold =
     (if \<not> threshold < length (cc_authorities cc)
      then Inl (AssertFailed ''coin threshold must be smaller than the committee'')
      else Inr \<lparr>tc_indices = zip (cc_authorities cc) [0..<length (cc_authorities cc)],
                tc_threshold = threshold,
                tc_key_set = deterministic_key_set lib (cc_authorities cc) threshold,
                tc_share_cache = [], tc_verified = [], tc_recovered = []\<rparr>)"

definition coin_new :: "CryptoLib \<Rightarrow> PublicKey list \<Rightarrow> nat \<Rightarrow> ThresholdCoin outcome" where
  "coin_new lib auths threshold =
     rbind (coin_committee_new auths) (\<lambda>cc. coin_from_committee lib cc threshold)"

definition retain_recent :: "nat \<Rightarrow> ((nat \<times> nat) \<times> 'v) list \<Rightarrow> ((nat \<times> nat) \<times> 'v) list" where
  "retain_recent newest_round cache =
     (let oldest_round = newest_round - CACHE_ROUNDS
      in filter (\<lambda>((round, _), _). round \<ge> oldest_round) cache)"

definition make_share ::
    "CryptoLib \<Rightarrow> ThresholdCoin \<Rightarrow> PublicKey \<Rightarrow> nat \<Rightarrow> ThresholdCoin \<times> byte list option" where
  "make_share lib tc authority round =
     (case map_of (tc_indices tc) authority of
        None \<Rightarrow> (tc, None)
      | Some index \<Rightarrow>
          (case map_of (tc_share_cache tc) (round, index) of
             Some share \<Rightarrow> (tc, Some share)
           | None \<Rightarrow>
               (let share = bls_sign_share lib (tc_key_set tc) index (coin_message round)
                in case bincode_share lib share of
                     None \<Rightarrow> (tc, None)
                   | Some bytes \<Rightarrow>
                       (tc\<lparr>tc_share_cache := retain_recent round
                              (AList.update (round, index) bytes (tc_share_cache tc)),
                           tc_verified := retain_recent round
                              (AList.update (round, index) \<lparr>cs_bytes = bytes, cs_share = Some share\<rparr>
                                (tc_verified tc))\<rparr>,
                        Some bytes))))"

text \<open>What \<^verbatim>\<open>verify_share\<close> computes on a cache miss.\<close>

definition check_share ::
    "CryptoLib \<Rightarrow> byte list \<Rightarrow> nat \<Rightarrow> byte list \<Rightarrow> byte list \<Rightarrow> byte list option" where
  "check_share lib key_set index bytes message =
     (case debincode_share lib bytes of
        None \<Rightarrow> None
      | Some share \<Rightarrow> if bls_verify_share lib key_set index share message then Some share else None)"

definition verify_share ::
    "CryptoLib \<Rightarrow> ThresholdCoin \<Rightarrow> nat \<Rightarrow> nat \<Rightarrow> byte list \<Rightarrow> byte list
     \<Rightarrow> ThresholdCoin \<times> byte list option" where
  "verify_share lib tc round index bytes message =
     (let uncached =
            (let share = check_share lib (tc_key_set tc) index bytes message
             in (tc\<lparr>tc_verified := retain_recent round
                      (AList.update (round, index) \<lparr>cs_bytes = bytes, cs_share = share\<rparr>
                        (tc_verified tc))\<rparr>, share))
      in case map_of (tc_verified tc) (round, index) of
           None \<Rightarrow> uncached
         | Some cached \<Rightarrow> if cs_bytes cached = bytes then (tc, cs_share cached) else uncached)"

text \<open>
  The share loop of \<^verbatim>\<open>recover\<close>: skips unknown authorities and repeated indices, keeps
  the shares that verify, and stops at \<open>threshold + 1\<close> of them.
\<close>

fun collect_shares ::
    "CryptoLib \<Rightarrow> ThresholdCoin \<Rightarrow> nat \<Rightarrow> (nat \<times> byte list) list
     \<Rightarrow> (PublicKey \<times> byte list) list \<Rightarrow> ThresholdCoin \<times> (nat \<times> byte list) list" where
  "collect_shares lib tc round unique_shares [] = (tc, unique_shares)"
| "collect_shares lib tc round unique_shares ((authority, bytes) # shares) =
     (case map_of (tc_indices tc) authority of
        None \<Rightarrow> collect_shares lib tc round unique_shares shares
      | Some index \<Rightarrow>
          if contains_key unique_shares index
          then collect_shares lib tc round unique_shares shares
          else (case verify_share lib tc round index bytes (coin_message round) of
                  (tc', None) \<Rightarrow> collect_shares lib tc' round unique_shares shares
                | (tc', Some share) \<Rightarrow>
                    (let unique' = AList.update index share unique_shares
                     in if length unique' = tc_threshold tc + 1 then (tc', unique')
                        else collect_shares lib tc' round unique' shares)))"

function evict_oldest :: "(nat \<times> nat) list \<Rightarrow> (nat \<times> nat) list" where
  "evict_oldest cache =
     (if length cache > CACHE_ROUNDS
      then evict_oldest (filter (\<lambda>(k, _). k \<noteq> Min (set (keys_of cache))) cache)
      else cache)"
  by pat_completeness auto
termination
proof (relation "measure length")
  fix cache :: "(nat \<times> nat) list"
  assume "length cache > CACHE_ROUNDS"
  then have "set cache \<noteq> {}" by auto
  then have "Min (set (keys_of cache)) \<in> set (keys_of cache)" by (intro Min_in) auto
  then obtain kv where "kv \<in> set cache" and "fst kv = Min (set (keys_of cache))" by auto
  then show "(filter (\<lambda>(k, _). k \<noteq> Min (set (keys_of cache))) cache, cache) \<in> measure length"
    by (auto simp: case_prod_beta' intro!: length_filter_less)
qed simp

declare evict_oldest.simps [simp del]

definition coin_of_signature :: "CryptoLib \<Rightarrow> byte list \<Rightarrow> nat" where
  "coin_of_signature lib signature =
     nat_of_le_bytes (take 8 (sha512 lib
       (bstr ''narwhal-common-coin-output-v1'' @ bls_sig_bytes lib signature)))"

definition recover ::
    "CryptoLib \<Rightarrow> ThresholdCoin \<Rightarrow> nat \<Rightarrow> (PublicKey \<times> byte list) list
     \<Rightarrow> ThresholdCoin \<times> nat option" where
  "recover lib tc round shares =
     (case map_of (tc_recovered tc) round of
        Some coin \<Rightarrow> (tc, Some coin)
      | None \<Rightarrow>
          (let (tc', unique_shares) = collect_shares lib tc round [] shares
           in if length unique_shares < tc_threshold tc + 1 then (tc', None)
              else (case bls_combine lib (tc_key_set tc) (sort_key fst unique_shares) of
                      None \<Rightarrow> (tc', None)
                    | Some signature \<Rightarrow>
                        if \<not> bls_verify lib (tc_key_set tc) signature (coin_message round)
                        then (tc', None)
                        else (let coin = coin_of_signature lib signature
                              in (tc'\<lparr>tc_recovered :=
                                        evict_oldest (AList.update round coin (tc_recovered tc'))\<rparr>,
                                  Some coin)))))"

section \<open>Schedules are fair\<close>

lemma coin_committee_new_Inr:
  "coin_committee_new auths = Inr cc \<Longrightarrow>
     cc_authorities cc \<noteq> [] \<and> distinct (cc_authorities cc) \<and> sorted (cc_authorities cc) \<and>
     set (cc_authorities cc) = set auths"
  by (auto simp: coin_committee_new_def Let_def sorted_remdups_adj distinct_remdups_adj_sorted
      split: if_splits)

lemma cc_leader_mod:
  "cc_authorities cc \<noteq> [] \<Longrightarrow> value + offset < 2 ^ 64 \<Longrightarrow>
     cc_leader cc value offset =
       Inr (cc_authorities cc ! ((value + offset) mod length (cc_authorities cc)))"
  by (simp add: cc_leader_def)

section \<open>What the coin keeps\<close>

text \<open>
  The caches only hold what the signature library would answer: a verified share is the
  result of checking the stored bytes, a recovered coin is the hash of a signature that
  verifies, and at most \<^const>\<open>CACHE_ROUNDS\<close> coins are stored.
\<close>

definition valid_coin :: "CryptoLib \<Rightarrow> byte list \<Rightarrow> nat \<Rightarrow> nat \<Rightarrow> bool" where
  "valid_coin lib key_set round coin \<longleftrightarrow>
     (\<exists>signature. bls_verify lib key_set signature (coin_message round) \<and>
                  coin = coin_of_signature lib signature)"

definition verified_ok :: "CryptoLib \<Rightarrow> ThresholdCoin \<Rightarrow> bool" where
  "verified_ok lib tc \<longleftrightarrow> wf_map (tc_verified tc) \<and>
     (\<forall>r i cs. ((r, i), cs) \<in> set (tc_verified tc) \<longrightarrow>
        cs_share cs = check_share lib (tc_key_set tc) i (cs_bytes cs) (coin_message r))"

definition recovered_ok :: "CryptoLib \<Rightarrow> ThresholdCoin \<Rightarrow> bool" where
  "recovered_ok lib tc \<longleftrightarrow> wf_map (tc_recovered tc) \<and> length (tc_recovered tc) \<le> CACHE_ROUNDS \<and>
     (\<forall>r coin. (r, coin) \<in> set (tc_recovered tc) \<longrightarrow> valid_coin lib (tc_key_set tc) r coin)"

definition coin_inv :: "CryptoLib \<Rightarrow> ThresholdCoin \<Rightarrow> bool" where
  "coin_inv lib tc \<longleftrightarrow> verified_ok lib tc \<and> recovered_ok lib tc"

lemma retain_recent_wf: "wf_map m \<Longrightarrow> wf_map (retain_recent r m)"
  by (simp add: retain_recent_def Let_def)

lemma set_retain_recent: "set (retain_recent r m) \<subseteq> set m"
  by (auto simp: retain_recent_def Let_def)

lemma verified_ok_insert:
  assumes "verified_ok lib tc"
    and "s = check_share lib (tc_key_set tc) index bytes (coin_message round)"
  shows "verified_ok lib (tc\<lparr>tc_verified := retain_recent round
           (AList.update (round, index) \<lparr>cs_bytes = bytes, cs_share = s\<rparr> (tc_verified tc))\<rparr>)"
  using assms
  by (auto simp: verified_ok_def retain_recent_wf in_set_update_iff split: if_splits
      dest!: subsetD [OF set_retain_recent])

lemma verify_share_ok:
  assumes "verified_ok lib tc" and "verify_share lib tc round index bytes (coin_message round) = (tc', s)"
  shows "s = check_share lib (tc_key_set tc) index bytes (coin_message round) \<and>
         verified_ok lib tc' \<and> tc_key_set tc' = tc_key_set tc \<and> tc_indices tc' = tc_indices tc \<and>
         tc_threshold tc' = tc_threshold tc \<and> tc_recovered tc' = tc_recovered tc"
  using assms verified_ok_insert [OF assms(1) refl, of round index bytes]
  by (auto simp: verify_share_def Let_def verified_ok_def split: option.splits if_splits
      dest!: map_of_SomeD)

definition share_of :: "CryptoLib \<Rightarrow> ThresholdCoin \<Rightarrow> nat \<Rightarrow> PublicKey \<times> byte list \<Rightarrow> (nat \<times> byte list) option" where
  "share_of lib tc round sh =
     (case map_of (tc_indices tc) (fst sh) of
        None \<Rightarrow> None
      | Some index \<Rightarrow> map_option (Pair index)
                        (check_share lib (tc_key_set tc) index (snd sh) (coin_message round)))"

lemma share_of_verify:
  "verified_ok lib tc \<Longrightarrow> verify_share lib tc round index bytes (coin_message round) = (tc', s) \<Longrightarrow>
     map_of (tc_indices tc) authority = Some index \<Longrightarrow>
     share_of lib tc round (authority, bytes) = map_option (Pair index) s"
  using verify_share_ok [of lib tc round index bytes tc' s] by (simp add: share_of_def)

lemma share_of_frame:
  "tc_indices tc' = tc_indices tc \<Longrightarrow> tc_key_set tc' = tc_key_set tc \<Longrightarrow>
     share_of lib tc' round = share_of lib tc round"
  by (intro ext) (simp add: share_of_def split: option.split)

definition same_setup :: "ThresholdCoin \<Rightarrow> ThresholdCoin \<Rightarrow> bool" where
  "same_setup tc tc' \<longleftrightarrow> tc_indices tc' = tc_indices tc \<and> tc_key_set tc' = tc_key_set tc \<and>
     tc_threshold tc' = tc_threshold tc"

text \<open>
  The share loop without caches: a reference definition over the checked shares.  The
  loop of the code computes it whatever its caches hold.
\<close>

fun collect_checked ::
    "nat \<Rightarrow> (nat \<times> byte list) list \<Rightarrow> (nat \<times> byte list) option list \<Rightarrow> (nat \<times> byte list) list" where
  "collect_checked t us [] = us"
| "collect_checked t us (None # xs) = collect_checked t us xs"
| "collect_checked t us (Some (i, s) # xs) =
     (if contains_key us i then collect_checked t us xs
      else let us' = us @ [(i, s)]
           in if length us' = t + 1 then us' else collect_checked t us' xs)"

lemma update_fresh: "k \<notin> fst ` set m \<Longrightarrow> AList.update k v m = m @ [(k, v)]"
  by (induction m) auto

lemma collect_shares_checked:
  assumes "verified_ok lib tc" and "collect_shares lib tc round us shares = (tc', us')"
  shows "us' = collect_checked (tc_threshold tc) us (map (share_of lib tc round) shares) \<and>
         verified_ok lib tc' \<and> same_setup tc tc' \<and> tc_recovered tc' = tc_recovered tc"
  using assms
proof (induction lib tc round us shares arbitrary: tc' us' rule: collect_shares.induct)
  case (1 lib tc round us)
  then show ?case by (simp add: same_setup_def)
next
  case (2 lib tc round us authority bytes shares)
  show ?case
  proof (cases "map_of (tc_indices tc) authority")
    case None
    with "2.IH"(1) [OF None "2.prems"(1)] "2.prems"(2) show ?thesis by (simp add: share_of_def)
  next
    case (Some index)
    show ?thesis
    proof (cases "contains_key us index")
      case True
      from "2.IH"(2) [OF Some True "2.prems"(1)] "2.prems"(2) Some True show ?thesis
        by (cases "check_share lib (tc_key_set tc) index bytes (coin_message round)")
          (simp_all add: share_of_def)
    next
      case False
      then have fresh: "AList.update index s us = us @ [(index, s)]" for s
        by (simp add: update_fresh contains_key_iff)
      obtain tc1 r where v: "verify_share lib tc round index bytes (coin_message round) = (tc1, r)"
        by fastforce
      note vs = verify_share_ok [OF "2.prems"(1) v]
      note sh = share_of_verify [OF "2.prems"(1) v Some]
      have frame: "share_of lib tc1 round = share_of lib tc round"
        using vs by (intro share_of_frame) auto
      show ?thesis
      proof (cases r)
        case r: None
        have next1: "collect_shares lib tc1 round us shares = (tc', us')"
          using "2.prems"(2) Some False v r by simp
        have "verified_ok lib tc1" using vs by simp
        from "2.IH"(3) [OF Some False v [symmetric] r this next1] vs sh r frame
        show ?thesis by (simp add: same_setup_def)
      next
        case r: (Some s)
        show ?thesis
        proof (cases "length us = tc_threshold tc")
          case True
          with "2.prems"(2) Some False r v vs sh fresh show ?thesis
            by (auto simp: same_setup_def)
        next
          case more: False
          with "2.prems"(2) Some False r v fresh
          have next1: "collect_shares lib tc1 round (us @ [(index, s)]) shares = (tc', us')"
            by simp
          have more': "\<not> length (AList.update index s us) = tc_threshold tc + 1"
            using more fresh by simp
          have vf: "verified_ok lib tc1" "same_setup tc tc1" "tc_recovered tc1 = tc_recovered tc"
            using vs by (simp_all add: same_setup_def)
          have "share_of lib tc round (authority, bytes) = Some (index, s)" using sh r by simp
          with "2.IH"(4) [OF Some False v [symmetric] r refl more' vf(1)] next1 more vf False frame fresh
          show ?thesis by (simp add: same_setup_def)
        qed
      qed
    qed
  qed
qed

lemma collect_checked_props:
  assumes "wf_map us" and "length us \<le> t"
  shows "wf_map (collect_checked t us xs) \<and> length (collect_checked t us xs) \<le> t + 1 \<and>
         set (collect_checked t us xs) \<subseteq> set us \<union> {x. Some x \<in> set xs} \<and>
         fst ` set us \<subseteq> fst ` set (collect_checked t us xs)"
  using assms
proof (induction t us xs rule: collect_checked.induct)
  case (3 t us i s xs)
  then show ?case by (cases "contains_key us i") (auto simp: Let_def contains_key_iff)
qed auto

lemma collect_checked_complete:
  assumes "length (collect_checked t us xs) \<le> t" and "Some (i, s) \<in> set xs"
  shows "i \<in> fst ` set (collect_checked t us xs)"
  using assms
proof (induction t us xs rule: collect_checked.induct)
  case (3 t us j r xs)
  have mono: "fst ` set vs \<subseteq> fst ` set (collect_checked t vs ys)" for vs ys
    by (induction t vs ys rule: collect_checked.induct) (auto simp: Let_def)
  from 3 mono [of us xs] mono [of "us @ [(j, r)]" xs] show ?case
    by (auto simp: Let_def contains_key_iff split: if_splits)
qed auto

lemma evict_oldest_props:
  "set (evict_oldest m) \<subseteq> set m \<and> length (evict_oldest m) \<le> CACHE_ROUNDS \<and>
   (wf_map m \<longrightarrow> wf_map (evict_oldest m))"
proof (induction m rule: evict_oldest.induct)
  case (1 m)
  show ?case
  proof (cases "length m > CACHE_ROUNDS")
    case True
    with 1 show ?thesis by (subst (1 2 3) evict_oldest.simps) auto
  next
    case False
    then show ?thesis by (simp add: evict_oldest.simps [of m])
  qed
qed

text \<open>Documented behaviour of the signature library the coin relies on.\<close>

definition bls_shares_verify :: "CryptoLib \<Rightarrow> bool" where
  "bls_shares_verify lib \<longleftrightarrow>
     (\<forall>ks i m. bls_verify_share lib ks i (bls_sign_share lib ks i m) m) \<and>
     (\<forall>s b. bincode_share lib s = Some b \<longrightarrow> debincode_share lib b = Some s)"

definition bls_unique :: "CryptoLib \<Rightarrow> bool" where
  "bls_unique lib \<longleftrightarrow>
     (\<forall>ks s s' m. bls_verify lib ks s m \<longrightarrow> bls_verify lib ks s' m \<longrightarrow> s = s')"

definition bls_combines :: "CryptoLib \<Rightarrow> byte list \<Rightarrow> nat \<Rightarrow> bool" where
  "bls_combines lib ks t \<longleftrightarrow>
     (\<forall>shares m. wf_map shares \<longrightarrow> t < length shares \<longrightarrow>
        (\<forall>(i, s) \<in> set shares. bls_verify_share lib ks i s m) \<longrightarrow>
        (\<exists>sig. bls_combine lib ks shares = Some sig \<and> bls_verify lib ks sig m))"

lemma coin_inv_initial:
  "coin_from_committee lib cc t = Inr tc \<Longrightarrow> coin_inv lib tc"
  by (auto simp: coin_from_committee_def coin_inv_def verified_ok_def recovered_ok_def
      split: if_splits)

lemma make_share_ok:
  assumes "bls_shares_verify lib" and "coin_inv lib tc" and "make_share lib tc a r = (tc', res)"
  shows "coin_inv lib tc' \<and> same_setup tc tc'"
proof -
  have "Some (bls_sign_share lib ks i m) = check_share lib ks i b m"
    if "bincode_share lib (bls_sign_share lib ks i m) = Some b" for ks i m b
    using that assms(1) by (simp add: check_share_def bls_shares_verify_def)
  then show ?thesis
    using assms(2,3) verified_ok_insert [of lib tc]
    by (auto simp: make_share_def Let_def coin_inv_def verified_ok_def recovered_ok_def same_setup_def
        split: option.splits)
qed

lemma recover_ok:
  assumes "coin_inv lib tc" and "recover lib tc r shares = (tc', res)"
  shows "coin_inv lib tc' \<and> same_setup tc tc' \<and>
         (\<forall>c. res = Some c \<longrightarrow> valid_coin lib (tc_key_set tc) r c)"
proof (cases "map_of (tc_recovered tc) r")
  case (Some c)
  with assms show ?thesis
    by (auto simp: recover_def coin_inv_def recovered_ok_def same_setup_def dest: map_of_SomeD)
next
  case None
  obtain tc1 us where c: "collect_shares lib tc r [] shares = (tc1, us)" by fastforce
  have vok: "verified_ok lib tc" using assms(1) by (simp add: coin_inv_def)
  note cs = collect_shares_checked [OF vok c]
  have inv1: "coin_inv lib tc1" and same: "same_setup tc tc1"
    using cs assms(1) by (auto simp: coin_inv_def recovered_ok_def same_setup_def)
  have store: "recovered_ok lib (tc1\<lparr>tc_recovered := evict_oldest (AList.update r v (tc_recovered tc1))\<rparr>)"
    if "valid_coin lib (tc_key_set tc) r v" for v
    using that inv1 same evict_oldest_props [of "AList.update r v (tc_recovered tc1)"]
    by (auto simp: coin_inv_def recovered_ok_def same_setup_def in_set_update_iff
        dest!: subsetD split: if_splits)
  from assms(2) None c inv1 same show ?thesis
    using store [of "coin_of_signature lib _"]
    by (auto simp: recover_def coin_inv_def verified_ok_def same_setup_def valid_coin_def Let_def
        split: option.splits if_splits)
qed

section \<open>The coin as an interface\<close>

text \<open>
  What the consensus protocols need of a shared coin: recovering keeps the invariant, a
  recovered value is an admissible value of its round, and a round has one admissible
  value.  Two objects with the same admissible values then agree on every round, however
  many requests each has served before.
\<close>

locale agreed_coin =
  fixes invar :: "'s \<Rightarrow> bool"
    and step :: "'s \<Rightarrow> 'op \<Rightarrow> 's"
    and result :: "'s \<Rightarrow> nat \<Rightarrow> 'sh \<Rightarrow> nat option"
    and admissible :: "'s \<Rightarrow> nat \<Rightarrow> nat \<Rightarrow> bool"
  assumes invar_step: "invar s \<Longrightarrow> invar (step s x)"
    and admissible_step: "invar s \<Longrightarrow> admissible (step s x) = admissible s"
    and result_admissible: "invar s \<Longrightarrow> result s r sh = Some c \<Longrightarrow> admissible s r c"
    and admissible_unique: "invar s \<Longrightarrow> admissible s r c \<Longrightarrow> admissible s r c' \<Longrightarrow> c = c'"
begin

lemma run_ok:
  "invar s \<Longrightarrow> invar (foldl step s xs) \<and> admissible (foldl step s xs) = admissible s"
proof (induction xs arbitrary: s)
  case (Cons x xs)
  then show ?case using Cons.IH [OF invar_step [OF Cons.prems]] admissible_step by simp
qed simp

lemma agreement:
  assumes "invar s" and "invar t" and "admissible s = admissible t"
    and "result (foldl step s xs) r sh = Some c" and "result (foldl step t ys) r sh' = Some c'"
  shows "c = c'"
  using assms run_ok [of s xs] run_ok [of t ys] result_admissible admissible_unique
  by metis

end

text \<open>The requests a coin object serves, in any order.\<close>

datatype coin_op = Recover nat "(PublicKey \<times> byte list) list" | MakeShare PublicKey nat

fun coin_step :: "CryptoLib \<Rightarrow> ThresholdCoin \<Rightarrow> coin_op \<Rightarrow> ThresholdCoin" where
  "coin_step lib tc (Recover r shares) = fst (recover lib tc r shares)"
| "coin_step lib tc (MakeShare a r) = fst (make_share lib tc a r)"

definition coin_ready :: "CryptoLib \<times> ThresholdCoin \<Rightarrow> bool" where
  "coin_ready s \<longleftrightarrow> bls_shares_verify (fst s) \<and> bls_unique (fst s) \<and> coin_inv (fst s) (snd s)"

lemma coin_step_ok:
  assumes "bls_shares_verify lib" and "coin_inv lib tc"
  shows "coin_inv lib (coin_step lib tc x) \<and> same_setup tc (coin_step lib tc x)"
proof (cases x)
  case (Recover r sh)
  obtain tc' res where "recover lib tc r sh = (tc', res)" by fastforce
  with recover_ok [OF assms(2) this] Recover show ?thesis by simp
next
  case (MakeShare a r)
  obtain tc' res where "make_share lib tc a r = (tc', res)" by fastforce
  with make_share_ok [OF assms this] MakeShare show ?thesis by simp
qed

interpretation coin: agreed_coin coin_ready
  "\<lambda>s x. (fst s, coin_step (fst s) (snd s) x)"
  "\<lambda>s r sh. snd (recover (fst s) (snd s) r sh)"
  "\<lambda>s. valid_coin (fst s) (tc_key_set (snd s))"
proof
  fix s :: "CryptoLib \<times> ThresholdCoin" and x r sh c c'
  assume s: "coin_ready s"
  show "coin_ready (fst s, coin_step (fst s) (snd s) x)"
    and "valid_coin (fst (fst s, coin_step (fst s) (snd s) x))
          (tc_key_set (snd (fst s, coin_step (fst s) (snd s) x)))
         = valid_coin (fst s) (tc_key_set (snd s))"
    using s coin_step_ok [of "fst s" "snd s" x] by (auto simp: coin_ready_def same_setup_def)
  show "valid_coin (fst s) (tc_key_set (snd s)) r c"
    if "snd (recover (fst s) (snd s) r sh) = Some c"
    using that s recover_ok [of "fst s" "snd s" r sh "fst (recover (fst s) (snd s) r sh)"]
    by (cases "recover (fst s) (snd s) r sh") (auto simp: coin_ready_def)
  show "c = c'" if "valid_coin (fst s) (tc_key_set (snd s)) r c"
    and "valid_coin (fst s) (tc_key_set (snd s)) r c'"
    using that s by (auto simp: coin_ready_def valid_coin_def bls_unique_def)
qed

lemma foldl_pair_step: "foldl (\<lambda>s x. (fst s, f (fst s) (snd s) x)) (a, b) xs = (a, foldl (f a) b xs)"
  by (induction xs arbitrary: b) auto

section \<open>Properties\<close>

text \<open>
  C19. Coin agreement.  Two nodes that set up the threshold coin for the same committee and
  then serve any sequences of share and recovery requests recover the same coin for a
  round, whatever shares each of them was given, because signatures are unique and the
  caches never hold a value the library would not produce.
\<close>

theorem recover_agreement:
  assumes "bls_shares_verify lib" and "bls_unique lib"
    and "coin_from_committee lib cc t = Inr tc"
    and "recover lib (foldl (coin_step lib) tc xs) round shares = (tc1, Some c1)"
    and "recover lib (foldl (coin_step lib) tc ys) round shares' = (tc2, Some c2)"
  shows "c1 = c2"
  using coin.agreement [of "(lib, tc)" "(lib, tc)" xs round shares c1 ys shares' c2] assms
    coin_inv_initial [OF assms(3)]
  by (simp add: coin_ready_def foldl_pair_step)

definition demo_coin :: ThresholdCoin where
  "demo_coin = \<lparr>tc_indices = zip demo_keys [0, 1, 2, 3], tc_threshold = 1, tc_key_set = [],
     tc_share_cache = [], tc_verified = [], tc_recovered = []\<rparr>"

lemma demo_coin_from_committee:
  "coin_from_committee demo_lib \<lparr>cc_authorities = demo_keys\<rparr> 1 = Inr demo_coin"
  by (simp add: coin_from_committee_def demo_coin_def demo_keys_def deterministic_key_set_def upt_rec)

lemma demo_lib_bls:
  "bls_shares_verify demo_lib" "bls_unique demo_lib" "bls_combines demo_lib ks t"
  by (auto simp: bls_shares_verify_def bls_unique_def bls_combines_def split: list.splits)

lemma coin_message_not_single [simp]: "[b] \<noteq> coin_message r" "coin_message r \<noteq> [b]"
  by (auto simp: coin_message_def bstr_def)

lemma demo_recover:
  "snd (recover demo_lib demo_coin 5
     [(PublicKey 9, []), (PublicKey 2, coin_message 5), (PublicKey 2, coin_message 5),
      (PublicKey 3, coin_message 5)]) = Some (coin_of_signature demo_lib (coin_message 5))"
  "snd (recover demo_lib (coin_step demo_lib demo_coin (MakeShare (PublicKey 2) 5)) 5
     [(PublicKey 1, [7]), (PublicKey 4, coin_message 5), (PublicKey 2, coin_message 5)])
   = Some (coin_of_signature demo_lib (coin_message 5))"
  by (simp_all add: recover_def demo_coin_def demo_keys_def verify_share_def check_share_def
      contains_key_def make_share_def retain_recent_def CACHE_ROUNDS_def Let_def)

theorem recover_agreement_witness:
  "snd (recover demo_lib demo_coin 5
     [(PublicKey 9, []), (PublicKey 2, coin_message 5), (PublicKey 2, coin_message 5),
      (PublicKey 3, coin_message 5)]) =
   snd (recover demo_lib (coin_step demo_lib demo_coin (MakeShare (PublicKey 2) 5)) 5
     [(PublicKey 1, [7]), (PublicKey 4, coin_message 5), (PublicKey 2, coin_message 5)])"
  (is "snd ?A = snd ?B")
proof -
  obtain c1 c2 where c: "?A = (fst ?A, Some c1)" "?B = (fst ?B, Some c2)"
    using demo_recover by (metis prod.collapse)
  have "c1 = c2"
    using recover_agreement [OF demo_lib_bls(1,2) demo_coin_from_committee,
        of "[]" 5 _ "fst ?A" c1 "[MakeShare (PublicKey 2) 5]" _ "fst ?B" c2] c
    by simp
  then show ?thesis using c by (metis snd_conv)
qed

lemma wf_map_sort_key [simp]: "wf_map (sort_key f m) \<longleftrightarrow> wf_map m"
  by (metis mset_eq_imp_distinct_iff mset_map mset_sort)

lemma checked_share_verifies:
  "share_of lib tc r sh = Some (i, s) \<Longrightarrow> bls_verify_share lib (tc_key_set tc) i s (coin_message r)"
  by (auto simp: share_of_def check_share_def split: option.splits if_splits)

lemma enough_shares_collected:
  assumes "t < card {i. \<exists>s. Some (i, s) \<in> set xs}"
  shows "length (collect_checked t [] xs) = t + 1"
proof (rule ccontr)
  let ?us = "collect_checked t [] xs"
  assume "length ?us \<noteq> t + 1"
  with collect_checked_props [of "[]" t xs] have short: "length ?us \<le> t" by simp
  then have "{i. \<exists>s. Some (i, s) \<in> set xs} \<subseteq> fst ` set ?us"
    using collect_checked_complete [of t "[]" xs] by auto
  then have "card {i. \<exists>s. Some (i, s) \<in> set xs} \<le> card (fst ` set ?us)"
    by (intro card_mono) auto
  also have "\<dots> \<le> length ?us"
    by (metis card_length length_map list.set_map)
  finally show False using assms short by simp
qed

lemma coin_run_ok:
  "bls_shares_verify lib \<Longrightarrow> coin_inv lib tc \<Longrightarrow>
     coin_inv lib (foldl (coin_step lib) tc xs) \<and> same_setup tc (foldl (coin_step lib) tc xs)"
proof (induction xs arbitrary: tc)
  case (Cons x xs)
  then show ?case
    using coin_step_ok [of lib tc x] Cons.IH [of "coin_step lib tc x"] by (simp add: same_setup_def)
qed (simp add: same_setup_def)

lemma recover_enough:
  assumes "coin_inv lib tc" and "bls_combines lib (tc_key_set tc) (tc_threshold tc)"
    and "tc_threshold tc < card {i. \<exists>s. Some (i, s) \<in> set (map (share_of lib tc r) shares)}"
  shows "\<exists>c. snd (recover lib tc r shares) = Some c"
proof (cases "map_of (tc_recovered tc) r")
  case (Some c)
  then show ?thesis by (simp add: recover_def)
next
  case None
  let ?us = "collect_checked (tc_threshold tc) [] (map (share_of lib tc r) shares)"
  obtain tc1 us where c: "collect_shares lib tc r [] shares = (tc1, us)" by fastforce
  have us: "us = ?us"
    using collect_shares_checked [OF _ c] assms(1) by (simp add: coin_inv_def)
  have len: "length us = tc_threshold tc + 1"
    using enough_shares_collected [OF assms(3)] us by simp
  have "\<forall>(i, s) \<in> set us. bls_verify_share lib (tc_key_set tc) i s (coin_message r)"
    using collect_checked_props [of "[]" "tc_threshold tc" "map (share_of lib tc r) shares"] us
    by (auto dest!: subsetD simp: image_iff intro: checked_share_verifies [OF sym])
  moreover have "wf_map us"
    using collect_checked_props [of "[]" "tc_threshold tc" "map (share_of lib tc r) shares"] us by simp
  ultimately have "\<exists>sig. bls_combine lib (tc_key_set tc) (sort_key fst us) = Some sig \<and>
      bls_verify lib (tc_key_set tc) sig (coin_message r)"
    using assms(2) [unfolded bls_combines_def, rule_format, of "sort_key fst us" "coin_message r"] len
    by auto
  with None c len show ?thesis by (auto simp: recover_def Let_def)
qed

text \<open>
  Coin liveness.  After any requests, a coin object given valid shares of more than
  \<open>threshold\<close> different authorities returns a coin: duplicates, unknown authorities and
  invalid shares in between never make it miss the quorum.
\<close>

theorem recover_live:
  assumes "bls_shares_verify lib" and "coin_from_committee lib cc t = Inr tc"
    and "bls_combines lib (tc_key_set tc) t"
    and "t < card {i. \<exists>s. Some (i, s) \<in> set (map (share_of lib tc round) shares)}"
  shows "\<exists>c. snd (recover lib (foldl (coin_step lib) tc xs) round shares) = Some c"
proof -
  have t: "tc_threshold tc = t"
    using assms(2) by (auto simp: coin_from_committee_def split: if_splits)
  let ?tc = "foldl (coin_step lib) tc xs"
  have run: "coin_inv lib ?tc" "same_setup tc ?tc"
    using coin_run_ok [OF assms(1) coin_inv_initial [OF assms(2)]] by auto
  then have "share_of lib ?tc round = share_of lib tc round"
    by (intro share_of_frame) (auto simp: same_setup_def)
  then show ?thesis
    using recover_enough [OF run(1), of round shares] run(2) assms(3,4) t
    by (simp add: same_setup_def)
qed

theorem recover_live_witness:
  "\<exists>c. snd (recover demo_lib (foldl (coin_step demo_lib) demo_coin [MakeShare (PublicKey 2) 5]) 5
         [(PublicKey 1, coin_message 5), (PublicKey 9, []), (PublicKey 4, coin_message 5)]) = Some c"
proof (rule recover_live [OF demo_lib_bls(1) demo_coin_from_committee demo_lib_bls(3)])
  have "{i. \<exists>s. Some (i, s) \<in> set (map (share_of demo_lib demo_coin 5)
      [(PublicKey 1, coin_message 5), (PublicKey 9, []), (PublicKey 4, coin_message 5)])} = {0, 3}"
    by (auto simp: share_of_def demo_coin_def demo_keys_def check_share_def)
  then show "1 < card {i. \<exists>s. Some (i, s) \<in> set (map (share_of demo_lib demo_coin 5)
      [(PublicKey 1, coin_message 5), (PublicKey 9, []), (PublicKey 4, coin_message 5)])}"
    by simp
qed

lemma round_robin_slot_hit:
  "0 < stride \<Longrightarrow> round_robin_slot (first + stride * k) first stride = Inr k"
  by (simp add: round_robin_slot_def)

text \<open>
  Round-robin fairness.  Over as many consecutive leader rounds as there are
  authorities, the round-robin schedule makes every authority of the committee leader
  exactly once, whatever the stride between leader rounds (a stride that shares a divisor
  with the committee size included).
\<close>

theorem round_robin_fair:
  assumes "coin_committee_new auths = Inr cc" and "0 < stride"
    and "k + length (cc_authorities cc) \<le> 2 ^ 64"
  shows "bij_betw
    (\<lambda>i. rbind (round_robin_slot (first + stride * (k + i)) first stride)
              (\<lambda>slot. cc_leader cc (cc_round_robin cc slot) 0))
    {..<length (cc_authorities cc)} (Inr ` set auths)"
proof -
  let ?as = "cc_authorities cc"
  let ?n = "length ?as"
  have as: "?as \<noteq> []" "distinct ?as" "set ?as = set auths"
    using coin_committee_new_Inr [OF assms(1)] by auto
  have lead: "rbind (round_robin_slot (first + stride * (k + i)) first stride)
      (\<lambda>slot. cc_leader cc (cc_round_robin cc slot) 0) = Inr (?as ! ((k + i) mod ?n))"
    if "i < ?n" for i
    using that assms(2,3) as(1)
    by (simp only: round_robin_slot_hit rbind_simps cc_round_robin_def) (simp add: cc_leader_mod)
  have idx: "inj_on (\<lambda>i. (k + i) mod ?n) {..<?n}"
    by (auto intro!: inj_onI dest: add_mod_inj)
  then have "(\<lambda>i. (k + i) mod ?n) ` {..<?n} = {..<?n}"
    using as(1) by (intro endo_inj_surj) auto
  then have "bij_betw (\<lambda>i. (k + i) mod ?n) {..<?n} {..<?n}"
    using idx by (simp add: bij_betw_def)
  moreover have "bij_betw (\<lambda>i. Inr (?as ! i) :: PublicKey outcome) {..<?n} (Inr ` set auths)"
    using bij_betw_nth [OF as(2) refl refl] as(3)
    by (auto simp: bij_betw_def inj_on_def image_image)
  ultimately have "bij_betw ((\<lambda>i. Inr (?as ! i) :: PublicKey outcome) \<circ> (\<lambda>i. (k + i) mod ?n))
      {..<?n} (Inr ` set auths)"
    by (rule bij_betw_trans)
  then show ?thesis
    by (rule bij_betw_cong [THEN iffD1, rotated]) (simp add: lead)
qed

theorem round_robin_fair_witness:
  "bij_betw
    (\<lambda>i. rbind (round_robin_slot (1 + 4 * (7 + i)) 1 4)
              (\<lambda>slot. cc_leader \<lparr>cc_authorities = demo_keys\<rparr>
                         (cc_round_robin \<lparr>cc_authorities = demo_keys\<rparr> slot) 0))
    {..<4} (Inr ` set demo_keys)"
proof -
  have "coin_committee_new demo_keys = Inr \<lparr>cc_authorities = demo_keys\<rparr>"
    by (simp add: coin_committee_new_def demo_keys_def sort_key_def)
  moreover have "length demo_keys = 4" by (simp add: demo_keys_def)
  ultimately show ?thesis using round_robin_fair [of demo_keys _ 4 7 1] by simp
qed

end
