(* ===== verification/Messages.thy ===== *)
theory Messages
  imports Coin
begin

text \<open>
  The wire types of the primaries (\<^verbatim>\<open>primary/src/messages.rs\<close>, \<^verbatim>\<open>primary/src/error.rs\<close>):
  headers, votes and certificates, their digests and their verification.  Ordered sets and
  maps are ascending lists; \<open>h_\<close>, \<open>v_\<close> and \<open>qc_\<close> prefix the fields the three structs
  share a name for.
\<close>

type_synonym Round = nat

section \<open>Errors\<close>

datatype DagError =
    InvalidSignature CryptoError
  | StoreError
  | SerializationError
  | InvalidHeaderId
  | MalformedHeader Digest
  | UnknownAuthority PublicKey
  | AuthorityReuse PublicKey
  | UnexpectedVote Digest
  | CertificateRequiresQuorum
  | HeaderRequiresQuorum Digest
  | TooOld Digest Round
  | InvalidLeaderLink

type_synonym 'a dag_result = "DagError + 'a"

definition of_crypto :: "CryptoError + 'a \<Rightarrow> 'a dag_result" where
  "of_crypto r = (case r of Inl e \<Rightarrow> Inl (InvalidSignature e) | Inr x \<Rightarrow> Inr x)"

definition ensure :: "bool \<Rightarrow> 'e \<Rightarrow> 'e + unit" where
  "ensure b e = (if b then Inr () else Inl e)"

lemma ensure_simps [simp]:
  "ensure b e = Inr u \<longleftrightarrow> b"
  "ensure b e = Inl x \<longleftrightarrow> \<not> b \<and> x = e"
  by (auto simp: ensure_def)

lemma of_crypto_Inr [simp]: "of_crypto r = Inr x \<longleftrightarrow> r = Inr x"
  by (auto simp: of_crypto_def split: sum.splits)

section \<open>Wahoo extensions\<close>

datatype WahooTag = EpbcTs1 | EpbcTs2 | EpbcTf | Pbc | PbcVoteComplete

fun wahoo_tag_u8 :: "WahooTag \<Rightarrow> byte" where
  "wahoo_tag_u8 EpbcTs1 = 1"
| "wahoo_tag_u8 EpbcTs2 = 2"
| "wahoo_tag_u8 EpbcTf = 3"
| "wahoo_tag_u8 Pbc = 4"
| "wahoo_tag_u8 PbcVoteComplete = 5"

datatype WahooVotePhase = PhaseTs1 | PhaseTs2 | PhaseTf | PhasePbc

fun wahoo_phase_u8 :: "WahooVotePhase \<Rightarrow> byte" where
  "wahoo_phase_u8 PhaseTs1 = 1"
| "wahoo_phase_u8 PhaseTs2 = 2"
| "wahoo_phase_u8 PhaseTf = 3"
| "wahoo_phase_u8 PhasePbc = 4"

record RecpMessage =
  rm_block_hash :: Digest
  rm_round :: Round
  rm_author :: PublicKey
  rm_share :: "byte list"

datatype LeaderProof = ExclusiveCommit "byte list" | NoCommit "RecpMessage list"

record LeaderLink =
  ll_hash :: "Digest option"
  ll_proof :: LeaderProof

section \<open>Votes, headers, certificates\<close>

record Vote =
  v_id :: Digest
  v_round :: Round
  v_voter_round :: Round
  v_origin :: PublicKey
  v_author :: PublicKey
  v_wahoo_phase :: "WahooVotePhase option"
  v_signature :: Signature

record EmbeddedQc =
  qc_target :: Digest
  qc_round :: Round
  qc_votes :: "Vote list"

record Header =
  h_author :: PublicKey
  h_round :: Round
  h_payload :: "(Digest \<times> WorkerId) list"
  h_parents :: "Digest list"
  h_parents_2 :: "Digest list"
  h_qc :: "EmbeddedQc option"
  h_coin_share :: "byte list"
  h_wahoo_tag :: "WahooTag option"
  h_leader_link :: "LeaderLink option"
  h_equivocation_tag :: nat
  h_benchmark_invalid_payload :: bool
  h_id :: Digest
  h_signature :: Signature

record Certificate =
  header :: Header
  votes :: "Vote list"

definition default_header :: Header where
  "default_header = \<lparr>h_author = default_key, h_round = 0, h_payload = [], h_parents = [],
     h_parents_2 = [], h_qc = None, h_coin_share = [], h_wahoo_tag = None, h_leader_link = None,
     h_equivocation_tag = 0, h_benchmark_invalid_payload = False, h_id = default_digest,
     h_signature = default_signature\<rparr>"

section \<open>Digests\<close>

definition vote_digest :: "CryptoLib \<Rightarrow> Vote \<Rightarrow> Digest" where
  "vote_digest lib v = sha_digest lib
     (digest_bytes (v_id v) @ le_bytes 8 (v_round v) @ le_bytes 8 (v_voter_round v)
      @ key_bytes (v_origin v)
      @ (case v_wahoo_phase v of None \<Rightarrow> [] | Some phase \<Rightarrow> bstr ''WVPH'' @ [wahoo_phase_u8 phase]))"

definition qc_vote_bytes :: "Vote \<Rightarrow> byte list" where
  "qc_vote_bytes v =
     digest_bytes (v_id v) @ le_bytes 8 (v_round v) @ le_bytes 8 (v_voter_round v)
     @ key_bytes (v_origin v) @ key_bytes (v_author v) @ sig_to_bytes (v_signature v)"

definition recp_bytes :: "RecpMessage \<Rightarrow> byte list" where
  "recp_bytes r =
     digest_bytes (rm_block_hash r) @ le_bytes 8 (rm_round r) @ key_bytes (rm_author r) @ rm_share r"

definition leader_link_bytes :: "LeaderLink \<Rightarrow> byte list" where
  "leader_link_bytes ll =
     bstr ''WLLN''
     @ (case ll_hash ll of None \<Rightarrow> [] | Some h \<Rightarrow> bstr ''WLLH'' @ digest_bytes h)
     @ (case ll_proof ll of
          ExclusiveCommit sig \<Rightarrow> bstr ''WLPE'' @ sig
        | NoCommit recps \<Rightarrow>
            bstr ''WLPN'' @ le_bytes 4 (length recps) @ concat (map recp_bytes recps))"

definition header_preimage :: "Header \<Rightarrow> byte list" where
  "header_preimage h =
     key_bytes (h_author h) @ le_bytes 8 (h_round h)
     @ concat (map (\<lambda>(x, y). digest_bytes x @ le_bytes 4 (unat y)) (h_payload h))
     @ concat (map digest_bytes (h_parents h))
     @ concat (map digest_bytes (h_parents_2 h))
     @ (case h_qc h of
          None \<Rightarrow> []
        | Some qc \<Rightarrow> digest_bytes (qc_target qc) @ le_bytes 8 (qc_round qc)
                     @ concat (map qc_vote_bytes (qc_votes qc)))
     @ h_coin_share h
     @ (case h_wahoo_tag h of None \<Rightarrow> [] | Some tag \<Rightarrow> bstr ''WTAG'' @ [wahoo_tag_u8 tag])
     @ (case h_leader_link h of None \<Rightarrow> [] | Some ll \<Rightarrow> leader_link_bytes ll)
     @ (if h_equivocation_tag h \<noteq> 0 then bstr ''EQVC'' @ le_bytes 8 (h_equivocation_tag h) else [])
     @ (if h_benchmark_invalid_payload h then bstr ''BINV'' else [])"

definition header_digest :: "CryptoLib \<Rightarrow> Header \<Rightarrow> Digest" where
  "header_digest lib h = sha_digest lib (header_preimage h)"

definition cert_round :: "Certificate \<Rightarrow> Round" where
  "cert_round c = h_round (header c)"

definition cert_origin :: "Certificate \<Rightarrow> PublicKey" where
  "cert_origin c = h_author (header c)"

definition cert_preimage :: "Certificate \<Rightarrow> byte list" where
  "cert_preimage c =
     digest_bytes (h_id (header c)) @ le_bytes 8 (cert_round c) @ key_bytes (cert_origin c)"

definition cert_digest :: "CryptoLib \<Rightarrow> Certificate \<Rightarrow> Digest" where
  "cert_digest lib c = sha_digest lib (cert_preimage c)"

text \<open>\<^verbatim>\<open>impl PartialEq for Certificate\<close>.\<close>

definition cert_eq :: "Certificate \<Rightarrow> Certificate \<Rightarrow> bool" where
  "cert_eq a b \<longleftrightarrow> h_id (header a) = h_id (header b) \<and> cert_round a = cert_round b \<and>
     cert_origin a = cert_origin b"

section \<open>Constructors\<close>

text \<open>Signing is a request to the signature service, which holds the secret key.\<close>

definition header_new_with_wahoo ::
    "CryptoLib \<Rightarrow> byte list \<Rightarrow> PublicKey \<Rightarrow> Round \<Rightarrow> (Digest \<times> WorkerId) list \<Rightarrow> Digest list
     \<Rightarrow> Digest list \<Rightarrow> EmbeddedQc option \<Rightarrow> byte list \<Rightarrow> WahooTag option \<Rightarrow> LeaderLink option
     \<Rightarrow> bool \<Rightarrow> Header" where
  "header_new_with_wahoo lib secret author round payload parents parents_2 qc coin_share
     wahoo_tag leader_link benchmark_invalid_payload =
     (let h = \<lparr>h_author = author, h_round = round, h_payload = payload, h_parents = parents,
                h_parents_2 = parents_2, h_qc = qc, h_coin_share = coin_share,
                h_wahoo_tag = wahoo_tag, h_leader_link = leader_link, h_equivocation_tag = 0,
                h_benchmark_invalid_payload = benchmark_invalid_payload,
                h_id = default_digest, h_signature = default_signature\<rparr>;
          id = header_digest lib h
      in h\<lparr>h_id := id, h_signature := sig_new lib id secret\<rparr>)"

definition header_new ::
    "CryptoLib \<Rightarrow> byte list \<Rightarrow> PublicKey \<Rightarrow> Round \<Rightarrow> (Digest \<times> WorkerId) list \<Rightarrow> Digest list
     \<Rightarrow> Digest list \<Rightarrow> EmbeddedQc option \<Rightarrow> byte list \<Rightarrow> bool \<Rightarrow> Header" where
  "header_new lib secret author round payload parents parents_2 qc coin_share
     benchmark_invalid_payload =
     header_new_with_wahoo lib secret author round payload parents parents_2 qc coin_share
       None None benchmark_invalid_payload"

definition vote_new_with_phase ::
    "CryptoLib \<Rightarrow> byte list \<Rightarrow> Header \<Rightarrow> Round \<Rightarrow> PublicKey \<Rightarrow> WahooVotePhase option \<Rightarrow> Vote" where
  "vote_new_with_phase lib secret h voter_round author wahoo_phase =
     (let v = \<lparr>v_id = h_id h, v_round = h_round h, v_voter_round = voter_round,
                v_origin = h_author h, v_author = author, v_wahoo_phase = wahoo_phase,
                v_signature = default_signature\<rparr>
      in v\<lparr>v_signature := sig_new lib (vote_digest lib v) secret\<rparr>)"

definition vote_new :: "CryptoLib \<Rightarrow> byte list \<Rightarrow> Header \<Rightarrow> Round \<Rightarrow> PublicKey \<Rightarrow> Vote" where
  "vote_new lib secret h voter_round author = vote_new_with_phase lib secret h voter_round author None"

definition genesis :: "Committee \<Rightarrow> Certificate list" where
  "genesis c = map (\<lambda>name. \<lparr>header = default_header\<lparr>h_author := name\<rparr>, votes = []\<rparr>)
     (keys_of (authorities c))"

section \<open>Verification\<close>

fun recp_authors ::
    "Committee \<Rightarrow> PublicKey list \<Rightarrow> RecpMessage list \<Rightarrow> PublicKey list dag_result" where
  "recp_authors c seen [] = Inr seen"
| "recp_authors c seen (r # recps) =
     rbind (ensure (stake c (rm_author r) > 0) (UnknownAuthority (rm_author r))) (\<lambda>_.
     rbind (ensure (rm_author r \<notin> set seen) (AuthorityReuse (rm_author r))) (\<lambda>_.
     recp_authors c (seen @ [rm_author r]) recps))"

definition verify_structure :: "Committee \<Rightarrow> LeaderLink \<Rightarrow> unit dag_result" where
  "verify_structure c ll =
     (let n = sum_list (map (stake c) (keys_of (authorities c)));
          f_plus_1 = validity_threshold c;
          n_minus_f = n - f_plus_1 + 1
      in case (ll_hash ll, ll_proof ll) of
           (None, NoCommit recps) \<Rightarrow>
             rbind (recp_authors c [] recps) (\<lambda>seen.
               ensure (sum_list (map (stake c) seen) \<ge> n_minus_f) CertificateRequiresQuorum)
         | (Some _, ExclusiveCommit sig) \<Rightarrow> ensure (sig \<noteq> []) CertificateRequiresQuorum
         | _ \<Rightarrow> Inl CertificateRequiresQuorum)"

fun verify_recps ::
    "CryptoLib \<Rightarrow> PublicKey list \<Rightarrow> nat \<Rightarrow> Round \<Rightarrow> RecpMessage list \<Rightarrow> unit dag_result" where
  "verify_recps lib auths threshold attested_round [] = Inr ()"
| "verify_recps lib auths threshold attested_round (r # recps) =
     rbind (ensure (rm_round r = attested_round) InvalidLeaderLink) (\<lambda>_.
     if \<not> verify_recp_share lib auths threshold (rm_author r) (rm_round r) (rm_block_hash r) (rm_share r)
     then Inl InvalidLeaderLink
     else verify_recps lib auths threshold attested_round recps)"

definition verify_with_crypto ::
    "CryptoLib \<Rightarrow> Committee \<Rightarrow> Round \<Rightarrow> LeaderLink \<Rightarrow> unit dag_result" where
  "verify_with_crypto lib c attested_round ll =
     rbind (verify_structure c ll) (\<lambda>_.
       (let auths = sort (keys_of (authorities c));
            threshold = recp_threshold (length auths)
        in case (ll_hash ll, ll_proof ll) of
             (Some hash, ExclusiveCommit sig) \<Rightarrow>
               if \<not> verify_recp_aggregate lib auths threshold attested_round hash sig
               then Inl InvalidLeaderLink else Inr ()
           | (None, NoCommit recps) \<Rightarrow> verify_recps lib auths threshold attested_round recps
           | _ \<Rightarrow> Inl CertificateRequiresQuorum))"

text \<open>The structural rules of \<^verbatim>\<open>Header::verify\<close>, one case per protocol.\<close>

fun tag_matches_round :: "bool \<Rightarrow> WahooTag \<Rightarrow> bool" where
  "tag_matches_round is_epbc_round EpbcTs1 = is_epbc_round"
| "tag_matches_round is_epbc_round EpbcTs2 = is_epbc_round"
| "tag_matches_round is_epbc_round EpbcTf = is_epbc_round"
| "tag_matches_round is_epbc_round Pbc = (\<not> is_epbc_round)"
| "tag_matches_round is_epbc_round PbcVoteComplete = (\<not> is_epbc_round)"

definition shortfin_structure :: "Header \<Rightarrow> unit dag_result" where
  "shortfin_structure h =
     (if h_round h = 0
      then ensure (h_parents h = [] \<and> h_parents_2 h = [] \<and> h_qc h = None) (MalformedHeader (h_id h))
      else if h_round h = 1
      then ensure (h_parents h \<noteq> [] \<and> h_parents_2 h = [] \<and> h_qc h = None) (MalformedHeader (h_id h))
      else ensure (h_parents h \<noteq> [] \<and> h_parents_2 h = [] \<and> h_qc h \<noteq> None) (MalformedHeader (h_id h)))"

definition certified_structure :: "Header \<Rightarrow> unit dag_result" where
  "certified_structure h =
     rbind (if h_round h = 0
            then ensure (h_parents h = [] \<and> h_parents_2 h = []) (MalformedHeader (h_id h))
            else ensure (h_round h = 1 \<or> h_parents h \<noteq> []) (MalformedHeader (h_id h)))
       (\<lambda>_. ensure (h_wahoo_tag h = None \<and> h_leader_link h = None) (MalformedHeader (h_id h)))"

definition mahi_structure :: "Header \<Rightarrow> unit dag_result" where
  "mahi_structure h =
     rbind (if h_round h = 0
            then ensure (h_parents h = [] \<and> h_parents_2 h = [] \<and> h_qc h = None) (MalformedHeader (h_id h))
            else ensure (h_parents h \<noteq> [] \<and> h_parents_2 h = [] \<and> h_qc h = None) (MalformedHeader (h_id h)))
       (\<lambda>_. ensure (h_wahoo_tag h = None \<and> h_leader_link h = None) (MalformedHeader (h_id h)))"

definition wahoo_structure :: "Committee \<Rightarrow> Header \<Rightarrow> unit dag_result" where
  "wahoo_structure c h =
     (if h_round h = 0
      then ensure (h_parents h = [] \<and> h_parents_2 h = [] \<and> h_wahoo_tag h = None \<and> h_leader_link h = None)
             (MalformedHeader (h_id h))
      else
        rbind (ensure (h_parents h \<noteq> []) (MalformedHeader (h_id h))) (\<lambda>_.
          (let is_epbc_round = (h_round h mod 2 = 1)
           in rbind (case h_wahoo_tag h of
                       None \<Rightarrow> Inr ()
                     | Some tag \<Rightarrow> ensure (tag_matches_round is_epbc_round tag) (MalformedHeader (h_id h)))
                (\<lambda>_. rbind (if \<not> is_epbc_round
                            then ensure (h_leader_link h = None) (MalformedHeader (h_id h)) else Inr ())
                (\<lambda>_. case h_leader_link h of
                        None \<Rightarrow> Inr ()
                      | Some link \<Rightarrow>
                          (case verify_structure c link of
                             Inl _ \<Rightarrow> Inl (MalformedHeader (h_id h)) | Inr u \<Rightarrow> Inr u))))))"

fun header_structure :: "Committee \<Rightarrow> DagProtocol \<Rightarrow> Header \<Rightarrow> unit dag_result" where
  "header_structure c Shortfin h = shortfin_structure h"
| "header_structure c Narwhal h = certified_structure h"
| "header_structure c Bullshark h = certified_structure h"
| "header_structure c MahiMahi h = mahi_structure h"
| "header_structure c MahiMahi4 h = mahi_structure h"
| "header_structure c MahiMahi5 h = mahi_structure h"
| "header_structure c Wahoo h = wahoo_structure c h"

fun verify_workers :: "Committee \<Rightarrow> Header \<Rightarrow> WorkerId list \<Rightarrow> unit dag_result" where
  "verify_workers c h [] = Inr ()"
| "verify_workers c h (w # ws) =
     (case committee_worker c (h_author h) w of
        Inl _ \<Rightarrow> Inl (MalformedHeader (h_id h))
      | Inr _ \<Rightarrow> verify_workers c h ws)"

text \<open>
  The vote loop over an embedded QC: it accumulates the weight in \<^verbatim>\<open>u32\<close> and the
  signatures for the batch check.
\<close>

fun verify_qc_votes ::
    "CryptoLib \<Rightarrow> Committee \<Rightarrow> DagProtocol \<Rightarrow> Header \<Rightarrow> EmbeddedQc \<Rightarrow> PublicKey list \<Rightarrow> Stake
     \<Rightarrow> (Digest \<times> PublicKey \<times> Signature) list \<Rightarrow> Vote list
     \<Rightarrow> (Stake \<times> (Digest \<times> PublicKey \<times> Signature) list) dag_result" where
  "verify_qc_votes lib c dp h qc used weight sigs [] = Inr (weight, sigs)"
| "verify_qc_votes lib c dp h qc used weight sigs (v # vs) =
     rbind (ensure (v_id v = qc_target qc) (MalformedHeader (h_id h))) (\<lambda>_.
     rbind (ensure (v_round v = qc_round qc) (MalformedHeader (h_id h))) (\<lambda>_.
     rbind (ensure (v_origin v = h_author h) (MalformedHeader (h_id h))) (\<lambda>_.
     rbind (if is_shortfin_family dp
            then ensure (v_voter_round v > 0) (MalformedHeader (h_id h)) else Inr ()) (\<lambda>_.
     rbind (ensure (v_author v \<notin> set used) (AuthorityReuse (v_author v))) (\<lambda>_.
     rbind (ensure (stake c (v_author v) > 0) (UnknownAuthority (v_author v))) (\<lambda>_.
     verify_qc_votes lib c dp h qc (v_author v # used) (weight + stake c (v_author v))
       (sigs @ [(vote_digest lib v, v_author v, v_signature v)]) vs))))))"

definition verify_embedded_qc ::
    "CryptoLib \<Rightarrow> Committee \<Rightarrow> DagProtocol \<Rightarrow> Header \<Rightarrow> EmbeddedQc \<Rightarrow> unit dag_result" where
  "verify_embedded_qc lib c dp h qc =
     rbind (ensure (u64_add (qc_round qc) 1 = h_round h) (MalformedHeader (h_id h))) (\<lambda>_.
     rbind (verify_qc_votes lib c dp h qc [] 0 [] (qc_votes qc)) (\<lambda>(weight, sigs).
     rbind (of_crypto (verify_batch_digests lib sigs)) (\<lambda>_.
     ensure (weight \<ge> quorum_threshold c) CertificateRequiresQuorum)))"

definition header_verify ::
    "CryptoLib \<Rightarrow> Committee \<Rightarrow> DagProtocol \<Rightarrow> Header \<Rightarrow> unit dag_result" where
  "header_verify lib c dp h =
     rbind (ensure (header_digest lib h = h_id h) InvalidHeaderId) (\<lambda>_.
     rbind (header_structure c dp h) (\<lambda>_.
     rbind (ensure (stake c (h_author h) > 0) (UnknownAuthority (h_author h))) (\<lambda>_.
     rbind (verify_workers c h (values_of (h_payload h))) (\<lambda>_.
     rbind (ensure (list_all (\<lambda>p. p \<notin> set (h_parents_2 h)) (h_parents h)) (MalformedHeader (h_id h))) (\<lambda>_.
     rbind (ensure (length (h_coin_share h) \<le> 256) (MalformedHeader (h_id h))) (\<lambda>_.
     rbind (case h_qc h of None \<Rightarrow> Inr () | Some qc \<Rightarrow> verify_embedded_qc lib c dp h qc) (\<lambda>_.
     of_crypto (sig_verify lib (h_signature h) (h_id h) (h_author h)))))))))"

definition vote_verify :: "CryptoLib \<Rightarrow> Committee \<Rightarrow> Vote \<Rightarrow> unit dag_result" where
  "vote_verify lib c v =
     rbind (ensure (stake c (v_author v) > 0) (UnknownAuthority (v_author v))) (\<lambda>_.
     of_crypto (sig_verify lib (v_signature v) (vote_digest lib v) (v_author v)))"

fun verify_cert_votes ::
    "CryptoLib \<Rightarrow> Committee \<Rightarrow> Certificate \<Rightarrow> PublicKey list \<Rightarrow> Stake
     \<Rightarrow> (Digest \<times> PublicKey \<times> Signature) list \<Rightarrow> Vote list
     \<Rightarrow> (Stake \<times> (Digest \<times> PublicKey \<times> Signature) list) dag_result" where
  "verify_cert_votes lib c cert used weight sigs [] = Inr (weight, sigs)"
| "verify_cert_votes lib c cert used weight sigs (v # vs) =
     rbind (ensure (v_id v = h_id (header cert)) (MalformedHeader (h_id (header cert)))) (\<lambda>_.
     rbind (ensure (v_round v = cert_round cert) (MalformedHeader (h_id (header cert)))) (\<lambda>_.
     rbind (ensure (v_origin v = cert_origin cert) (MalformedHeader (h_id (header cert)))) (\<lambda>_.
     rbind (ensure (v_author v \<notin> set used) (AuthorityReuse (v_author v))) (\<lambda>_.
     rbind (ensure (stake c (v_author v) > 0) (UnknownAuthority (v_author v))) (\<lambda>_.
     verify_cert_votes lib c cert (v_author v # used) (weight + stake c (v_author v))
       (sigs @ [(vote_digest lib v, v_author v, v_signature v)]) vs)))))"

definition cert_verify ::
    "CryptoLib \<Rightarrow> Committee \<Rightarrow> DagProtocol \<Rightarrow> Certificate \<Rightarrow> unit dag_result" where
  "cert_verify lib c dp cert =
     (if list_ex (\<lambda>g. cert_eq g cert) (genesis c) then Inr ()
      else
        rbind (header_verify lib c dp (header cert)) (\<lambda>_.
          if is_uncertified_dag dp \<and> votes cert = [] then Inr ()
          else
            rbind (verify_cert_votes lib c cert [] 0 [] (votes cert)) (\<lambda>(weight, sigs).
            rbind (of_crypto (verify_batch_digests lib sigs)) (\<lambda>_.
            ensure (weight \<ge> quorum_threshold c) CertificateRequiresQuorum))))"

section \<open>What verification establishes\<close>

lemma verify_cert_votes_Inr:
  assumes "verify_cert_votes lib c cert used w sigs vs = Inr (w', sigs')"
  shows "distinct (map v_author vs) \<and> v_author ` set vs \<inter> set used = {} \<and>
         w' = w + sum_list (map (stake c) (map v_author vs)) \<and>
         (\<forall>v \<in> set vs. v_id v = h_id (header cert) \<and> v_round v = cert_round cert \<and>
            v_origin v = cert_origin cert \<and> 0 < stake c (v_author v))"
  using assms
  by (induction lib c cert used w sigs vs rule: verify_cert_votes.induct) (auto simp: algebra_simps)

lemma verify_qc_votes_Inr:
  assumes "verify_qc_votes lib c dp h qc used w sigs vs = Inr (w', sigs')"
  shows "distinct (map v_author vs) \<and> v_author ` set vs \<inter> set used = {} \<and>
         w' = w + sum_list (map (stake c) (map v_author vs)) \<and>
         (\<forall>v \<in> set vs. v_id v = qc_target qc \<and> v_round v = qc_round qc \<and>
            v_origin v = h_author h \<and> 0 < stake c (v_author v))"
  using assms
  by (induction lib c dp h qc used w sigs vs rule: verify_qc_votes.induct)
    (auto simp: algebra_simps split: if_splits)

text \<open>A list of votes is a quorum certificate for one header.\<close>

definition quorum_votes :: "Committee \<Rightarrow> Digest \<Rightarrow> Round \<Rightarrow> PublicKey \<Rightarrow> Vote list \<Rightarrow> bool" where
  "quorum_votes c i r origin vs \<longleftrightarrow>
     distinct (map v_author vs) \<and> has_quorum c (v_author ` set vs) \<and>
     (\<forall>v \<in> set vs. v_id v = i \<and> v_round v = r \<and> v_origin v = origin \<and> v_author v \<in> members c)"

lemma quorum_votesI:
  assumes "committee_ok c" and "distinct (map v_author vs)"
    and "quorum_threshold c \<le> sum_list (map (stake c) (map v_author vs))"
    and "\<And>v. v \<in> set vs \<Longrightarrow> v_id v = i \<and> v_round v = r \<and> v_origin v = origin \<and> 0 < stake c (v_author v)"
  shows "quorum_votes c i r origin vs"
  using assms has_quorum_list [OF assms(1,2)]
  by (auto simp: quorum_votes_def intro!: stake_pos_member)

lemma cert_verify_quorum:
  assumes "committee_ok c" and "cert_verify lib c dp cert = Inr ()"
    and "\<forall>g \<in> set (genesis c). \<not> cert_eq g cert" and "\<not> is_uncertified_dag dp \<or> votes cert \<noteq> []"
  shows "quorum_votes c (h_id (header cert)) (cert_round cert) (cert_origin cert) (votes cert)"
proof -
  obtain w sigs where vs: "verify_cert_votes lib c cert [] 0 [] (votes cert) = Inr (w, sigs)"
    and w: "quorum_threshold c \<le> w"
    using assms(2-4) by (auto simp: cert_verify_def list_ex_iff split: if_splits)
  from verify_cert_votes_Inr [OF vs] w show ?thesis
    by (intro quorum_votesI [OF assms(1)]) auto
qed

lemma header_verify_qc_quorum:
  assumes "committee_ok c" and "header_verify lib c dp h = Inr ()" and "h_qc h = Some qc"
  shows "quorum_votes c (qc_target qc) (qc_round qc) (h_author h) (qc_votes qc) \<and>
         u64_add (qc_round qc) 1 = h_round h"
proof -
  obtain w sigs where vs: "verify_qc_votes lib c dp h qc [] 0 [] (qc_votes qc) = Inr (w, sigs)"
    and w: "quorum_threshold c \<le> w" "u64_add (qc_round qc) 1 = h_round h"
    using assms(2,3) by (auto simp: header_verify_def verify_embedded_qc_def)
  from verify_qc_votes_Inr [OF vs] w show ?thesis
    by (auto intro!: quorum_votesI [OF assms(1)])
qed

lemma quorum_votes_unique:
  assumes "committee_ok c" and "few_faulty c F"
    and "quorum_votes c i r a vs" and "quorum_votes c i' r a vs'"
    and "\<And>v v'. v \<in> set vs \<Longrightarrow> v' \<in> set vs' \<Longrightarrow> v_author v = v_author v' \<Longrightarrow> v_author v \<notin> F \<Longrightarrow>
           v_id v = v_id v'"
  shows "i = i'"
proof -
  have "has_quorum c (v_author ` set vs)" and "has_quorum c (v_author ` set vs')"
    using assms(3,4) by (auto simp: quorum_votes_def)
  from quorums_share_correct_member [OF assms(1) this assms(2)] obtain v v'
    where "v \<in> set vs" "v' \<in> set vs'" "v_author v = v_author v'" "v_author v \<notin> F"
    by auto
  with assms(3,4,5) show ?thesis unfolding quorum_votes_def by metis
qed

lemma verify_qc_votes_frame:
  "h_id h' = h_id h \<Longrightarrow> h_author h' = h_author h \<Longrightarrow>
     verify_qc_votes lib c dp h' qc used w sigs vs = verify_qc_votes lib c dp h qc used w sigs vs"
  by (induction lib c dp h qc used w sigs vs rule: verify_qc_votes.induct)
    (simp_all add: rbind_def split: sum.splits)

lemma verify_workers_frame:
  "h_id h' = h_id h \<Longrightarrow> h_author h' = h_author h \<Longrightarrow> verify_workers c h' ws = verify_workers c h ws"
  by (induction c h ws rule: verify_workers.induct) (simp_all split: sum.splits)

lemma preimage_split:
  "h_parents h = ps @ qs \<Longrightarrow> h_parents_2 h = [] \<Longrightarrow>
     header_preimage (h\<lparr>h_parents := ps, h_parents_2 := qs\<rparr>) = header_preimage h"
  by (simp add: header_preimage_def)

lemma cert_preimage_inject:
  assumes "cert_round a < 2 ^ 64" and "cert_round b < 2 ^ 64" and "cert_preimage a = cert_preimage b"
  shows "cert_eq a b"
  using assms le_bytes_inject [of "cert_round a" 8 "cert_round b"]
  by (simp add: cert_preimage_def cert_eq_def)

section \<open>Properties\<close>

text \<open>
  C10. Certified headers are unique.  If two certificates verify (outside the genesis
  and vote-less cases), stand for the same author and round, and the authorities that
  vote for two different headers of one author and round hold less than a third of the
  stake, then the certificates are for the same header.
\<close>

theorem certified_header_unique:
  assumes "committee_ok c" and "few_faulty c F"
    and "cert_verify lib c dp a = Inr ()" and "cert_verify lib c dp b = Inr ()"
    and "\<forall>g \<in> set (genesis c). \<not> cert_eq g a \<and> \<not> cert_eq g b"
    and "\<not> is_uncertified_dag dp \<or> (votes a \<noteq> [] \<and> votes b \<noteq> [])"
    and "cert_round a = cert_round b" and "cert_origin a = cert_origin b"
    and "\<forall>v \<in> set (votes a). \<forall>v' \<in> set (votes b).
           v_author v = v_author v' \<and> v_author v \<notin> F \<longrightarrow> v_id v = v_id v'"
  shows "h_id (header a) = h_id (header b)"
proof (rule quorum_votes_unique [OF assms(1,2)])
  show "quorum_votes c (h_id (header a)) (cert_round a) (cert_origin a) (votes a)"
    using cert_verify_quorum [OF assms(1,3)] assms(5,6) by blast
  show "quorum_votes c (h_id (header b)) (cert_round a) (cert_origin a) (votes b)"
    using cert_verify_quorum [OF assms(1,4)] assms(5-8) by metis
qed (use assms(9) in blast)

definition demo_header :: "PublicKey \<Rightarrow> Round \<Rightarrow> Digest list \<Rightarrow> Header" where
  "demo_header a r ps =
     default_header\<lparr>h_author := a, h_round := r, h_parents := ps, h_id := Digest (key_word a)\<rparr>"

definition demo_cert :: "Header \<Rightarrow> PublicKey list \<Rightarrow> Certificate" where
  "demo_cert h ks = \<lparr>header = h, votes = map (vote_new demo_lib [] h (h_round h)) ks\<rparr>"

lemma demo_header_verify:
  assumes "a \<in> set demo_keys" and "1 \<le> r" and "ps \<noteq> []"
  shows "header_verify demo_lib demo_committee Narwhal (demo_header a r ps) = Inr ()"
  using assms
  by (simp add: header_verify_def demo_header_def default_header_def header_digest_def
      header_preimage_def sha_digest_def certified_structure_def sig_verify_def of_crypto_def
      list_all_iff key_bytes_def)

lemma demo_cert_verify:
  assumes "a \<in> set demo_keys" and "1 \<le> r" and "ps \<noteq> []" and "set ks \<subseteq> set demo_keys"
    and "distinct ks" and "length ks \<in> {3, 4}"
  shows "cert_verify demo_lib demo_committee Narwhal (demo_cert (demo_header a r ps) ks) = Inr ()"
proof -
  let ?cert = "demo_cert (demo_header a r ps) ks"
  have votes_ok: "\<exists>sigs'. verify_cert_votes demo_lib demo_committee ?cert used w sigs
      (map (vote_new demo_lib [] (demo_header a r ps) r) vs) = Inr (w + word_of_nat (length vs), sigs')"
    if "set vs \<subseteq> set demo_keys" "distinct vs" "set used \<inter> set vs = {}" for vs used w sigs
    using that
  proof (induction vs arbitrary: used w sigs)
    case (Cons v vs)
    then show ?case
      using Cons.IH [of "v # used" "w + 1"]
      by (simp add: vote_new_def vote_new_with_phase_def Let_def demo_cert_def demo_header_def
          default_header_def cert_round_def cert_origin_def ensure_def algebra_simps)
  qed simp
  have batch: "batch_items demo_lib sigs = Inr
      (map (\<lambda>(d, k, s). (digest_bytes d, sig_flatten s, key_bytes k)) sigs)" for sigs
    by (induction sigs) auto
  have q: "(3 :: u32) \<le> word_of_nat (length ks)"
    using assms(6) by auto
  obtain sigs' where "verify_cert_votes demo_lib demo_committee ?cert [] 0 [] (votes ?cert)
      = Inr (word_of_nat (length ks), sigs')"
    using votes_ok [OF assms(4,5), of "[]" 0 "[]"]
    by (auto simp: demo_cert_def demo_header_def default_header_def)
  then show ?thesis
    using demo_header_verify [OF assms(1-3)] q
    by (simp add: cert_verify_def is_uncertified_dag_def verify_batch_digests_def batch)
      (simp add: demo_cert_def)
qed

theorem certified_header_unique_witness:
  "h_id (header (demo_cert (demo_header (PublicKey 1) 1 [Digest 7]) [PublicKey 1, PublicKey 2, PublicKey 3]))
   = h_id (header (demo_cert (demo_header (PublicKey 1) 1 [Digest 8]) [PublicKey 2, PublicKey 3, PublicKey 4]))"
  (is "h_id (header ?a) = h_id (header ?b)")
proof (rule certified_header_unique [where c = demo_committee and F = "{}" and lib = demo_lib and dp = Narwhal])
  show "cert_verify demo_lib demo_committee Narwhal ?a = Inr ()"
    and "cert_verify demo_lib demo_committee Narwhal ?b = Inr ()"
    by (rule demo_cert_verify; simp add: demo_keys_def)+
  show "\<forall>g \<in> set (genesis demo_committee). \<not> cert_eq g ?a \<and> \<not> cert_eq g ?b"
    by (auto simp: genesis_def cert_eq_def cert_round_def demo_cert_def demo_header_def default_header_def)
qed (auto simp: demo_cert_def cert_round_def cert_origin_def demo_header_def default_header_def
    vote_new_def vote_new_with_phase_def is_uncertified_dag_def Let_def)

text \<open>
  C26. The header digest does not separate the two parent sets.  In the certified
  protocols a header that verifies stays valid, with the same identifier and the same
  signature, when a tail of its parents is moved to the second-hop parents; the
  certificates of the two headers also have the same digest.
\<close>

theorem header_parents_malleable:
  assumes "dp = Narwhal \<or> dp = Bullshark" and "header_verify lib c dp h = Inr ()"
    and "h_parents h = ps @ qs" and "distinct (h_parents h)" and "ps \<noteq> []" and "h_parents_2 h = []"
  defines "h' \<equiv> h\<lparr>h_parents := ps, h_parents_2 := qs\<rparr>"
  shows "header_verify lib c dp h' = Inr () \<and> h_id h' = h_id h \<and> h_signature h' = h_signature h \<and>
         cert_digest lib \<lparr>header = h', votes = vs\<rparr> = cert_digest lib \<lparr>header = h, votes = vs\<rparr>"
proof -
  have "header_digest lib h' = header_digest lib h"
    using assms(3,6) by (simp add: h'_def header_digest_def preimage_split)
  moreover have "h_round h \<noteq> 0"
    using assms(1,2,3,5) by (auto simp: header_verify_def certified_structure_def split: if_splits)
  moreover have "list_all (\<lambda>p. p \<notin> set qs) ps"
    using assms(3,4) by (auto simp: list_all_iff)
  ultimately have "header_verify lib c dp h' = Inr ()"
    using assms(1,2,5) verify_workers_frame [of h' h c] verify_qc_votes_frame [of h' h lib c dp]
    by (auto simp: h'_def header_verify_def certified_structure_def verify_embedded_qc_def
        split: option.splits)
  then show ?thesis
    by (simp add: h'_def cert_digest_def cert_preimage_def cert_round_def cert_origin_def)
qed

theorem header_parents_malleable_witness:
  "header_verify demo_lib demo_committee Narwhal
     ((demo_header (PublicKey 1) 1 [Digest 1, Digest 2, Digest 3, Digest 4])
        \<lparr>h_parents := [Digest 1, Digest 2, Digest 3], h_parents_2 := [Digest 4]\<rparr>) = Inr ()"
proof -
  have "header_verify demo_lib demo_committee Narwhal
      (demo_header (PublicKey 1) 1 [Digest 1, Digest 2, Digest 3, Digest 4]) = Inr ()"
    by (rule demo_header_verify) (simp_all add: demo_keys_def)
  from header_parents_malleable [OF _ this, of "[Digest 1, Digest 2, Digest 3]" "[Digest 4]"]
  show ?thesis by (simp add: demo_header_def default_header_def)
qed

end
