(* ===== verification/Aggregators.thy ===== *)
theory Aggregators
  imports Messages
begin

text \<open>
  The aggregators (\<^verbatim>\<open>primary/src/aggregators.rs\<close>) that turn votes into certificates and
  certificates into parent sets.  The interface \<open>quorum_collector\<close> states what the first
  two have in common and is interpreted on both.
\<close>

section \<open>Votes into certificates\<close>

record VotesAggregator =
  va_weight :: Stake
  va_votes :: "Vote list"
  va_used :: "PublicKey list"

definition votes_aggregator_new :: VotesAggregator where
  "votes_aggregator_new = \<lparr>va_weight = 0, va_votes = [], va_used = []\<rparr>"

definition votes_append ::
    "Committee \<Rightarrow> Header \<Rightarrow> VotesAggregator \<Rightarrow> Vote \<Rightarrow> VotesAggregator \<times> Certificate option" where
  "votes_append c h agg vote =
     (let author = v_author vote
      in if author \<in> set (va_used agg) then (agg, None)
         else (let agg1 = agg\<lparr>va_used := List.insert author (va_used agg),
                              va_votes := va_votes agg @ [vote],
                              va_weight := va_weight agg + stake c author\<rparr>
               in if va_weight agg1 \<ge> quorum_threshold c
                  then (agg1\<lparr>va_weight := 0\<rparr>, Some \<lparr>header = h, votes = va_votes agg1\<rparr>)
                  else (agg1, None)))"

section \<open>Certificates into parents\<close>

record CertificatesAggregator =
  ca_weight :: Stake
  ca_certificates :: "Digest list"
  ca_used :: "PublicKey list"

definition certificates_aggregator_new :: CertificatesAggregator where
  "certificates_aggregator_new = \<lparr>ca_weight = 0, ca_certificates = [], ca_used = []\<rparr>"

definition certificates_append ::
    "CryptoLib \<Rightarrow> Committee \<Rightarrow> CertificatesAggregator \<Rightarrow> Certificate
     \<Rightarrow> CertificatesAggregator \<times> Digest list option" where
  "certificates_append lib c agg cert =
     (let origin = cert_origin cert
      in if origin \<in> set (ca_used agg) then (agg, None)
         else (let agg1 = agg\<lparr>ca_used := List.insert origin (ca_used agg),
                              ca_certificates := ca_certificates agg @ [cert_digest lib cert],
                              ca_weight := ca_weight agg + stake c origin\<rparr>
               in if ca_weight agg1 \<ge> quorum_threshold c
                  then (agg1\<lparr>ca_weight := 0, ca_certificates := []\<rparr>, Some (ca_certificates agg1))
                  else (agg1, None)))"

text \<open>The Bullshark variant keeps full certificates and does not reset its weight.\<close>

record CertificatesVecAggregator =
  cva_weight :: Stake
  cva_certificates :: "Certificate list"
  cva_used :: "PublicKey list"

definition certificates_vec_aggregator_new :: CertificatesVecAggregator where
  "certificates_vec_aggregator_new = \<lparr>cva_weight = 0, cva_certificates = [], cva_used = []\<rparr>"

definition certificates_vec_append ::
    "Committee \<Rightarrow> CertificatesVecAggregator \<Rightarrow> Certificate
     \<Rightarrow> CertificatesVecAggregator \<times> Certificate list option" where
  "certificates_vec_append c agg cert =
     (let origin = cert_origin cert
      in if origin \<in> set (cva_used agg) then (agg, None)
         else (let agg1 = agg\<lparr>cva_used := List.insert origin (cva_used agg),
                              cva_certificates := cva_certificates agg @ [cert],
                              cva_weight := cva_weight agg + stake c origin\<rparr>
               in if cva_weight agg1 \<ge> quorum_threshold c
                  then (agg1\<lparr>cva_certificates := []\<rparr>, Some (cva_certificates agg1))
                  else (agg1, None)))"

section \<open>Wahoo phases\<close>

datatype WahooQuorum =
    QuorumTs1 Certificate | QuorumTs2 Certificate | QuorumTf Certificate | QuorumPbc Certificate

fun wahoo_quorum_tag :: "WahooQuorum \<Rightarrow> WahooTag" where
  "wahoo_quorum_tag (QuorumTs1 _) = EpbcTs1"
| "wahoo_quorum_tag (QuorumTs2 _) = EpbcTs2"
| "wahoo_quorum_tag (QuorumTf _) = EpbcTf"
| "wahoo_quorum_tag (QuorumPbc _) = Pbc"

fun wahoo_quorum_inner :: "WahooQuorum \<Rightarrow> Certificate" where
  "wahoo_quorum_inner (QuorumTs1 c) = c"
| "wahoo_quorum_inner (QuorumTs2 c) = c"
| "wahoo_quorum_inner (QuorumTf c) = c"
| "wahoo_quorum_inner (QuorumPbc c) = c"

record PhaseBucket =
  pb_weight :: Stake
  pb_votes :: "Vote list"
  pb_used :: "PublicKey list"
  pb_done :: bool

definition phase_bucket_default :: PhaseBucket where
  "phase_bucket_default = \<lparr>pb_weight = 0, pb_votes = [], pb_used = [], pb_done = False\<rparr>"

definition bucket_append ::
    "Committee \<Rightarrow> Stake \<Rightarrow> PhaseBucket \<Rightarrow> Vote \<Rightarrow> PhaseBucket \<times> Vote list option dag_result" where
  "bucket_append c threshold b vote =
     (if pb_done b then (b, Inr None)
      else (let author = v_author vote
            in if author \<in> set (pb_used b) then (b, Inl (AuthorityReuse author))
               else (let b1 = b\<lparr>pb_used := List.insert author (pb_used b),
                                pb_votes := pb_votes b @ [vote],
                                pb_weight := pb_weight b + stake c author\<rparr>
                     in if pb_weight b1 \<ge> threshold
                        then (b1\<lparr>pb_done := True\<rparr>, Inr (Some (pb_votes b1)))
                        else (b1, Inr None))))"

record WahooVotesAggregator =
  wva_ts1 :: PhaseBucket
  wva_ts2 :: PhaseBucket
  wva_tf :: PhaseBucket
  wva_pbc :: PhaseBucket

definition wahoo_votes_aggregator_new :: WahooVotesAggregator where
  "wahoo_votes_aggregator_new = \<lparr>wva_ts1 = phase_bucket_default, wva_ts2 = phase_bucket_default,
     wva_tf = phase_bucket_default, wva_pbc = phase_bucket_default\<rparr>"

fun phase_bucket :: "WahooVotePhase \<Rightarrow> WahooVotesAggregator \<Rightarrow> PhaseBucket" where
  "phase_bucket PhaseTs1 agg = wva_ts1 agg"
| "phase_bucket PhaseTs2 agg = wva_ts2 agg"
| "phase_bucket PhaseTf agg = wva_tf agg"
| "phase_bucket PhasePbc agg = wva_pbc agg"

fun set_phase_bucket :: "WahooVotePhase \<Rightarrow> PhaseBucket \<Rightarrow> WahooVotesAggregator \<Rightarrow> WahooVotesAggregator" where
  "set_phase_bucket PhaseTs1 b agg = agg\<lparr>wva_ts1 := b\<rparr>"
| "set_phase_bucket PhaseTs2 b agg = agg\<lparr>wva_ts2 := b\<rparr>"
| "set_phase_bucket PhaseTf b agg = agg\<lparr>wva_tf := b\<rparr>"
| "set_phase_bucket PhasePbc b agg = agg\<lparr>wva_pbc := b\<rparr>"

fun phase_quorum :: "WahooVotePhase \<Rightarrow> Certificate \<Rightarrow> WahooQuorum" where
  "phase_quorum PhaseTs1 cert = QuorumTs1 cert"
| "phase_quorum PhaseTs2 cert = QuorumTs2 cert"
| "phase_quorum PhaseTf cert = QuorumTf cert"
| "phase_quorum PhasePbc cert = QuorumPbc cert"

definition wahoo_votes_append ::
    "Committee \<Rightarrow> Header \<Rightarrow> WahooVotesAggregator \<Rightarrow> Vote
     \<Rightarrow> WahooVotesAggregator \<times> WahooQuorum option dag_result" where
  "wahoo_votes_append c h agg vote =
     (if v_id vote \<noteq> h_id h \<or> v_round vote \<noteq> h_round h \<or> v_origin vote \<noteq> h_author h
      then (agg, Inl (MalformedHeader (h_id h)))
      else (case v_wahoo_phase vote of
              None \<Rightarrow> (agg, Inl (MalformedHeader (v_id vote)))
            | Some phase \<Rightarrow>
                (let quorum = quorum_threshold c;
                     total = sum_list (map (stake c) (keys_of (authorities c)));
                     threshold = (if phase = PhaseTf then total else quorum);
                     (b, r) = bucket_append c threshold (phase_bucket phase agg) vote;
                     agg1 = set_phase_bucket phase b agg
                 in (agg1, rbind r (\<lambda>votes_opt. Inr (map_option
                       (\<lambda>vs. phase_quorum phase \<lparr>header = h, votes = vs\<rparr>) votes_opt))))))"

definition tf_done :: "WahooVotesAggregator \<Rightarrow> bool" where
  "tf_done agg = pb_done (wva_tf agg)"

section \<open>The collector interface\<close>

text \<open>
  A collector counts each author once, reports when the weight collected since the last
  report reaches the quorum, and then starts counting from zero.  Since two disjoint
  quorums do not exist, it reports at most once, and it has reported exactly when the
  authors seen so far hold a quorum.
\<close>

fun run_collector :: "('s \<Rightarrow> 'i \<Rightarrow> 's \<times> 'r option) \<Rightarrow> 's \<Rightarrow> 'i list \<Rightarrow> 's \<times> 'r list" where
  "run_collector f s [] = (s, [])"
| "run_collector f s (x # xs) =
     (let (s1, r) = f s x; (s2, rs) = run_collector f s1 xs
      in (s2, (case r of None \<Rightarrow> rs | Some y \<Rightarrow> y # rs)))"

lemma unat_add_stake:
  assumes "committee_ok c" and "finite B" and "a \<notin> B" and "unat w = sum (nstake c) B"
  shows "unat (w + stake c a) = sum (nstake c) (insert a B)"
proof -
  have "sum (nstake c) (insert a B) < 2 ^ 32"
    using weight_le_total [OF committee_ok_wf [OF assms(1)], of "insert a B"] assms(1)
    by (simp add: committee_ok_def)
  moreover have "sum (nstake c) (insert a B) = unat w + unat (stake c a)"
    using assms(2-4) by (simp add: nstake_def)
  ultimately show ?thesis
    by (simp add: unat_word_ariths)
qed

lemma run_collector_inv:
  assumes "run_collector f s xs = (s', rs)" and "P s"
    and "\<And>s x. x \<in> set xs \<Longrightarrow> P s \<Longrightarrow> P (fst (f s x))"
  shows "P s'"
  using assms
proof (induction xs arbitrary: s rs s')
  case (Cons x xs)
  obtain s1 r where a: "f s x = (s1, r)" by fastforce
  obtain s2 rs2 where b: "run_collector f s1 xs = (s2, rs2)" by fastforce
  have "P s1" using Cons.prems(2) Cons.prems(3) [of x s] a by simp
  with Cons.IH [OF b] Cons.prems(1,3) a b show ?case by (simp add: Let_def)
qed simp

locale quorum_collector =
  fixes comm :: "'e \<Rightarrow> Committee"
    and add :: "'e \<Rightarrow> 's \<Rightarrow> 'i \<Rightarrow> 's \<times> 'r option"
    and author :: "'i \<Rightarrow> PublicKey"
    and seen :: "'s \<Rightarrow> PublicKey list"
    and pending :: "'s \<Rightarrow> Stake"
    and start :: 's
  assumes start_seen: "seen start = []"
    and start_pending: "pending start = 0"
    and add_seen: "author x \<in> set (seen s) \<Longrightarrow> add e s x = (s, None)"
    and add_new_seen: "author x \<notin> set (seen s) \<Longrightarrow> seen (fst (add e s x)) = author x # seen s"
    and add_new_fires: "author x \<notin> set (seen s) \<Longrightarrow>
          snd (add e s x) = None \<longleftrightarrow> \<not> quorum_threshold (comm e) \<le> pending s + stake (comm e) (author x)"
    and add_new_pending: "author x \<notin> set (seen s) \<Longrightarrow>
          pending (fst (add e s x)) =
            (if snd (add e s x) = None then pending s + stake (comm e) (author x) else 0)"
begin

definition collected :: "'e \<Rightarrow> 's \<Rightarrow> bool \<Rightarrow> bool" where
  "collected e s fired \<longleftrightarrow>
     distinct (seen s) \<and>
     (if fired then \<exists>A B. set (seen s) = A \<union> B \<and> A \<inter> B = {} \<and> has_quorum (comm e) A \<and>
                        unat (pending s) = sum (nstake (comm e)) B
      else unat (pending s) = sum (nstake (comm e)) (set (seen s)) \<and>
           \<not> has_quorum (comm e) (set (seen s)))"

lemma collected_start: "committee_ok (comm e) \<Longrightarrow> collected e start False"
  by (simp add: collected_def start_seen start_pending has_quorum_def stake_simps)

lemma pending_add:
  assumes "committee_ok (comm e)" and "author x \<notin> set (seen s)" and "distinct (seen s)"
    and "B \<subseteq> set (seen s)" and "unat (pending s) = sum (nstake (comm e)) B"
  shows "unat (pending s + stake (comm e) (author x)) = sum (nstake (comm e)) (insert (author x) B)"
  using assms by (intro unat_add_stake) (auto intro: finite_subset)

lemma add_collected:
  assumes ok: "committee_ok (comm e)" and inv: "collected e s fired" and eq: "add e s x = (s', r)"
  shows "collected e s' (fired \<or> r \<noteq> None)" and "fired \<Longrightarrow> r = None"
proof -
  have both: "collected e s' (fired \<or> r \<noteq> None) \<and> (fired \<longrightarrow> r = None)"
  proof (cases "author x \<in> set (seen s)")
    case True
    with eq inv show ?thesis by (simp add: add_seen)
  next
    case new: False
    have s': "seen s' = author x # seen s" using add_new_seen [OF new, of e] eq by simp
    have fire: "r = None \<longleftrightarrow> \<not> quorum_threshold (comm e) \<le> pending s + stake (comm e) (author x)"
      using add_new_fires [OF new, of e] eq by simp
    have pend: "pending s' = (if r = None then pending s + stake (comm e) (author x) else 0)"
      using add_new_pending [OF new, of e] eq by simp
    have dist: "distinct (seen s)" using inv by (simp add: collected_def)
    show ?thesis
    proof (cases fired)
      case False
      then have p: "unat (pending s) = sum (nstake (comm e)) (set (seen s))"
        using inv by (simp add: collected_def)
      have q: "r = None \<longleftrightarrow> \<not> has_quorum (comm e) (set (seen s'))"
        using pending_add [OF ok new dist subset_refl p] fire s'
        by (simp add: has_quorum_def word_le_nat_alt)
      show ?thesis
      proof (cases r)
        case None
        with False q pend dist new s' pending_add [OF ok new dist subset_refl p] show ?thesis
          by (simp add: collected_def)
      next
        case (Some y)
        have "\<exists>A B. set (seen s') = A \<union> B \<and> A \<inter> B = {} \<and> has_quorum (comm e) A \<and>
            unat (pending s') = sum (nstake (comm e)) B"
          using Some q pend by (intro exI [of _ "set (seen s')"] exI [of _ "{}"]) simp
        with False Some dist new s' show ?thesis by (simp add: collected_def)
      qed
    next
      case True
      then obtain A B where ab: "set (seen s) = A \<union> B" "A \<inter> B = {}" "has_quorum (comm e) A"
        "unat (pending s) = sum (nstake (comm e)) B"
        using inv by (auto simp: collected_def)
      have sub: "B \<subseteq> set (seen s)" using ab(1) by simp
      note pa = pending_add [OF ok new dist sub ab(4)]
      have "r = None"
      proof (rule ccontr)
        assume "r \<noteq> None"
        then have "has_quorum (comm e) (insert (author x) B)"
          using fire pa sub by (auto simp: has_quorum_def word_le_nat_alt intro: finite_subset)
        from quorums_share_correct_member [OF ok ab(3) this, of "{}"] ok
        have "A \<inter> insert (author x) B \<noteq> {}"
          by (auto simp: few_faulty_def committee_ok_def)
        with ab(1,2) new show False by auto
      qed
      moreover have "\<exists>A B. set (seen s') = A \<union> B \<and> A \<inter> B = {} \<and> has_quorum (comm e) A \<and>
          unat (pending s') = sum (nstake (comm e)) B"
        using ab new s' pend pa \<open>r = None\<close>
        by (intro exI [of _ A] exI [of _ "insert (author x) B"]) auto
      ultimately show ?thesis using True dist new s' by (simp add: collected_def)
    qed
  qed
  then show "collected e s' (fired \<or> r \<noteq> None)" and "fired \<Longrightarrow> r = None" by auto
qed

lemma run_collected:
  assumes "committee_ok (comm e)" and "collected e s fired"
    and "run_collector (add e) s xs = (s', rs)"
  shows "collected e s' (fired \<or> rs \<noteq> []) \<and> length rs \<le> (if fired then 0 else 1)"
  using assms(2,3)
proof (induction xs arbitrary: s fired rs s')
  case (Cons x xs)
  obtain s1 r where a: "add e s x = (s1, r)" by fastforce
  obtain s2 rs2 where b: "run_collector (add e) s1 xs = (s2, rs2)" by fastforce
  note step = add_collected [OF assms(1) Cons.prems(1) a]
  note IH = Cons.IH [OF step(1) b]
  from Cons.prems(2) a b have "s' = s2" "rs = (case r of None \<Rightarrow> rs2 | Some y \<Rightarrow> y # rs2)"
    by (auto simp: Let_def)
  with IH step(2) show ?case by (auto split: option.splits if_splits)
qed simp

lemma run_seen:
  "run_collector (add e) s xs = (s', rs) \<Longrightarrow> set (seen s') = set (seen s) \<union> author ` set xs"
proof (induction xs arbitrary: s rs s')
  case (Cons x xs)
  obtain s1 r where a: "add e s x = (s1, r)" by fastforce
  obtain s2 rs2 where b: "run_collector (add e) s1 xs = (s2, rs2)" by fastforce
  have "set (seen s1) = insert (author x) (set (seen s))"
    using a add_seen [of x s e] add_new_seen [of x s e]
    by (cases "author x \<in> set (seen s)") auto
  with Cons.IH [OF b] Cons.prems a b show ?case by (auto simp: Let_def)
qed simp

lemma reports_once_iff_quorum:
  assumes "committee_ok (comm e)" and "run_collector (add e) start xs = (s', rs)"
  shows "length rs = (if has_quorum (comm e) (author ` set xs) then 1 else 0)"
proof -
  note run = run_collected [OF assms(1) collected_start [OF assms(1)] assms(2)]
  have seen: "set (seen s') = author ` set xs"
    using run_seen [OF assms(2)] start_seen by simp
  show ?thesis
  proof (cases "rs = []")
    case True
    with run seen show ?thesis by (simp add: collected_def)
  next
    case False
    with run obtain A B where ab: "author ` set xs = A \<union> B" "has_quorum (comm e) A"
      using seen by (auto simp: collected_def)
    then have "has_quorum (comm e) (author ` set xs)"
      by (intro has_quorum_mono [OF ab(2)]) (blast, rule finite_imageI, simp)
    with False run show ?thesis by (cases rs) auto
  qed
qed

lemma run_report:
  assumes "committee_ok (comm e)" and "collected e s False"
    and "run_collector (add e) s xs = (s', rs)" and "y \<in> set rs"
  shows "\<exists>ys x zs s1 s2. xs = ys @ x # zs \<and> run_collector (add e) s ys = (s1, []) \<and>
           add e s1 x = (s2, Some y) \<and> has_quorum (comm e) (set (seen s2))"
  using assms(2-4)
proof (induction xs arbitrary: s rs s')
  case (Cons x xs)
  obtain s1 r where a: "add e s x = (s1, r)" by fastforce
  obtain s2 rs2 where b: "run_collector (add e) s1 xs = (s2, rs2)" by fastforce
  note step = add_collected [OF assms(1) Cons.prems(1) a]
  show ?case
  proof (cases r)
    case None
    with step have inv: "collected e s1 False" by simp
    have "y \<in> set rs2" using Cons.prems(2,3) a b None by (auto simp: Let_def)
    from Cons.IH [OF inv b this] obtain ys x' zs t1 t2 where
      "xs = ys @ x' # zs" "run_collector (add e) s1 ys = (t1, [])"
      "add e t1 x' = (t2, Some y)" "has_quorum (comm e) (set (seen t2))" by blast
    with a None show ?thesis by (intro exI [of _ "x # ys"]) auto
  next
    case (Some z)
    with step run_collected [OF assms(1) _ b, of True] have "rs2 = []" by simp
    with Cons.prems(2,3) a b Some have "y = z" by (auto simp: Let_def)
    have new: "author x \<notin> set (seen s)" using a Some add_seen [of x s e] by auto
    have "has_quorum (comm e) (set (seen s1))"
      using pending_add [OF assms(1) new _ subset_refl] add_new_fires [OF new, of e]
        add_new_seen [OF new, of e] Cons.prems(1) a Some
      by (simp add: collected_def has_quorum_def word_le_nat_alt)
    with a Some \<open>y = z\<close> show ?thesis by (intro exI [of _ "[]"]) auto
  qed
qed simp

end

interpretation va: quorum_collector
  "fst :: Committee \<times> Header \<Rightarrow> Committee" "\<lambda>(c, h). votes_append c h" v_author va_used va_weight
  votes_aggregator_new
  by unfold_locales
    (auto simp: votes_append_def votes_aggregator_new_def Let_def split: if_splits)

interpretation ca: quorum_collector
  "snd :: CryptoLib \<times> Committee \<Rightarrow> Committee" "\<lambda>(lib, c). certificates_append lib c" cert_origin
  ca_used ca_weight certificates_aggregator_new
  by unfold_locales
    (auto simp: certificates_append_def certificates_aggregator_new_def Let_def split: if_splits)

section \<open>What the aggregators hold\<close>

definition votes_kept :: "Vote list \<Rightarrow> VotesAggregator \<Rightarrow> bool" where
  "votes_kept vs agg \<longleftrightarrow> map v_author (va_votes agg) = rev (va_used agg) \<and> distinct (va_used agg) \<and>
     set (va_votes agg) \<subseteq> set vs"

lemma votes_append_kept:
  "v \<in> set vs \<Longrightarrow> votes_kept vs agg \<Longrightarrow> votes_kept vs (fst (votes_append c h agg v))"
  by (auto simp: votes_kept_def votes_append_def Let_def)

lemma votes_append_Some:
  assumes "votes_append c h agg v = (agg', Some cert)"
  shows "header cert = h \<and> votes cert = va_votes agg'"
  using assms by (auto simp: votes_append_def Let_def split: if_splits)

lemma votes_run_certificate:
  assumes "committee_ok c" and "run_collector (votes_append c h) votes_aggregator_new vs = (s, certs)"
    and "cert \<in> set certs"
  shows "header cert = h \<and> distinct (map v_author (votes cert)) \<and>
         has_quorum c (v_author ` set (votes cert)) \<and> set (votes cert) \<subseteq> set vs"
proof -
  obtain ys v zs s1 s2 where split: "vs = ys @ v # zs"
    and run: "run_collector (votes_append c h) votes_aggregator_new ys = (s1, [])"
    and fire: "votes_append c h s1 v = (s2, Some cert)" and q: "has_quorum c (set (va_used s2))"
    using va.run_report [of "(c, h)" votes_aggregator_new vs s certs cert]
      va.collected_start [of "(c, h)"] assms by auto
  have "votes_kept vs s1"
    by (rule run_collector_inv [OF run])
      (auto simp: split intro: votes_append_kept, simp add: votes_kept_def votes_aggregator_new_def)
  then have kept: "votes_kept vs s2"
    using votes_append_kept [of v vs s1 c h] fire split by simp
  then have "v_author ` set (va_votes s2) = set (va_used s2)"
    by (metis list.set_map set_rev votes_kept_def)
  with kept q votes_append_Some [OF fire] show ?thesis
    by (simp add: votes_kept_def)
qed

definition certs_kept :: "CryptoLib \<Rightarrow> Certificate list \<Rightarrow> CertificatesAggregator \<Rightarrow> bool" where
  "certs_kept lib cs agg \<longleftrightarrow> distinct (ca_used agg) \<and>
     (\<exists>ps. ca_certificates agg = map (cert_digest lib) ps \<and> map cert_origin ps = rev (ca_used agg) \<and>
           set ps \<subseteq> set cs)"

lemma certificates_append_kept:
  assumes "certs_kept lib cs agg" and "certificates_append lib c agg x = (agg', r)" and "x \<in> set cs"
  shows "r = None \<Longrightarrow> certs_kept lib cs agg'"
    and "r = Some out \<Longrightarrow> \<exists>ps. out = map (cert_digest lib) ps \<and> distinct (map cert_origin ps) \<and>
           set ps \<subseteq> set cs \<and> cert_origin ` set ps = set (ca_used agg')"
proof -
  obtain ps where ps: "ca_certificates agg = map (cert_digest lib) ps" "set ps \<subseteq> set cs"
    "map cert_origin ps = rev (ca_used agg)" and d: "distinct (ca_used agg)"
    using assms(1) by (auto simp: certs_kept_def)
  have im: "cert_origin ` set ps = set (ca_used agg)" by (metis ps(3) list.set_map set_rev)
  show "certs_kept lib cs agg'" if "r = None"
  proof (cases "cert_origin x \<in> set (ca_used agg)")
    case True
    with assms(1,2) show ?thesis by (simp add: certificates_append_def)
  next
    case False
    with that assms(2,3) ps d show ?thesis
      by (auto simp: certificates_append_def certs_kept_def Let_def split: if_splits
          intro!: exI [of _ "ps @ [x]"])
  qed
  show "\<exists>ps. out = map (cert_digest lib) ps \<and> distinct (map cert_origin ps) \<and>
      set ps \<subseteq> set cs \<and> cert_origin ` set ps = set (ca_used agg')" if "r = Some out"
    using that assms(2,3) ps d im
    by (simp add: certificates_append_def Let_def split: if_splits)
      (rule exI [of _ "ps @ [x]"], force)
qed

lemma certificates_run_kept:
  "run_collector (certificates_append lib c) s ys = (s1, []) \<Longrightarrow> certs_kept lib cs s \<Longrightarrow>
     set ys \<subseteq> set cs \<Longrightarrow> certs_kept lib cs s1"
proof (induction ys arbitrary: s)
  case (Cons x ys)
  obtain t r where a: "certificates_append lib c s x = (t, r)" by fastforce
  obtain t2 rs where b: "run_collector (certificates_append lib c) t ys = (t2, rs)" by fastforce
  from Cons.prems(1) a b have "r = None" "t2 = s1" "rs = []" by (auto simp: Let_def split: option.splits)
  with Cons.IH b certificates_append_kept(1) [OF Cons.prems(2) a] Cons.prems(3) show ?case by simp
qed simp

text \<open>The first element of each key, in order.\<close>

fun first_per :: "('a \<Rightarrow> 'k) \<Rightarrow> 'k set \<Rightarrow> 'a list \<Rightarrow> 'a list" where
  "first_per f seen [] = []"
| "first_per f seen (x # xs) =
     (if f x \<in> seen then first_per f seen xs else x # first_per f (insert (f x) seen) xs)"

definition vec_ok :: "Committee \<Rightarrow> CertificatesVecAggregator \<Rightarrow> bool" where
  "vec_ok c agg \<longleftrightarrow> distinct (cva_used agg) \<and>
     unat (cva_weight agg) = sum (nstake c) (set (cva_used agg)) \<and>
     (has_quorum c (set (cva_used agg)) \<longrightarrow> cva_certificates agg = [])"

lemma vec_append:
  assumes "committee_ok c" and "vec_ok c agg" and "certificates_vec_append c agg x = (agg', r)"
  shows "vec_ok c agg'"
    and "set (cva_used agg') = insert (cert_origin x) (set (cva_used agg))"
    and "cva_certificates agg @ (if cert_origin x \<in> set (cva_used agg) then [] else [x])
         = (case r of None \<Rightarrow> [] | Some out \<Rightarrow> out) @ cva_certificates agg'"
    and "r \<noteq> None \<Longrightarrow> has_quorum c (set (cva_used agg'))"
proof -
  have w: "unat (cva_weight agg + stake c (cert_origin x))
      = sum (nstake c) (insert (cert_origin x) (set (cva_used agg)))"
    if "cert_origin x \<notin> set (cva_used agg)"
    using that assms(1,2) by (intro unat_add_stake) (auto simp: vec_ok_def)
  show "vec_ok c agg'" and "r \<noteq> None \<Longrightarrow> has_quorum c (set (cva_used agg'))"
    using assms(2,3) w
    by (auto simp: vec_ok_def certificates_vec_append_def Let_def has_quorum_def word_le_nat_alt
        split: if_splits)
  show "set (cva_used agg') = insert (cert_origin x) (set (cva_used agg))"
    and "cva_certificates agg @ (if cert_origin x \<in> set (cva_used agg) then [] else [x])
         = (case r of None \<Rightarrow> [] | Some out \<Rightarrow> out) @ cva_certificates agg'"
    using assms(3) by (auto simp: certificates_vec_append_def Let_def split: if_splits)
qed

lemma vec_run:
  assumes "committee_ok c" and "vec_ok c agg" and "run_collector (certificates_vec_append c) agg xs = (agg', outs)"
  shows "vec_ok c agg' \<and> set (cva_used agg') = set (cva_used agg) \<union> cert_origin ` set xs \<and>
         concat outs @ cva_certificates agg'
           = cva_certificates agg @ first_per cert_origin (set (cva_used agg)) xs \<and>
         (outs \<noteq> [] \<longrightarrow> has_quorum c (set (cva_used agg')))"
  using assms(2,3)
proof (induction xs arbitrary: agg outs)
  case (Cons x xs)
  obtain s1 r where a: "certificates_vec_append c agg x = (s1, r)" by fastforce
  obtain s2 rs where b: "run_collector (certificates_vec_append c) s1 xs = (s2, rs)" by fastforce
  note step = vec_append [OF assms(1) Cons.prems(1) a]
  from Cons.prems(2) a b have eq: "s2 = agg'" "outs = (case r of None \<Rightarrow> rs | Some y \<Rightarrow> y # rs)"
    by (auto simp: Let_def)
  note IH = Cons.IH [OF step(1) b [unfolded eq(1)]]
  have "concat outs @ cva_certificates agg' = (case r of None \<Rightarrow> [] | Some out \<Rightarrow> out) @
      cva_certificates s1 @ first_per cert_origin (set (cva_used s1)) xs"
    using IH eq(2) by (simp split: option.splits)
  also have "\<dots> = cva_certificates agg @ first_per cert_origin (set (cva_used agg)) (x # xs)"
    using step(2,3) by (auto simp: insert_absorb simp flip: append_assoc)
  finally have out: "concat outs @ cva_certificates agg'
      = cva_certificates agg @ first_per cert_origin (set (cva_used agg)) (x # xs)" .
  have "has_quorum c (set (cva_used agg'))" if "outs \<noteq> []"
    using that IH step(4) eq(2) by (cases r) (auto intro: has_quorum_mono)
  with out IH step(2) show ?case by auto
qed simp

section \<open>Properties\<close>

text \<open>
  Votes into certificates.  Whatever votes are appended, in whatever order and with
  whatever repetitions, the aggregator emits exactly one certificate if the voters hold a
  quorum and none otherwise; the certificate is for the aggregated header and carries votes
  of distinct authors that hold a quorum, all of them votes that were appended.
\<close>

theorem votes_aggregator_certifies_once:
  assumes "committee_ok c" and "run_collector (votes_append c h) votes_aggregator_new vs = (s, certs)"
  shows "length certs = (if has_quorum c (v_author ` set vs) then 1 else 0) \<and>
         (\<forall>cert \<in> set certs. header cert = h \<and> distinct (map v_author (votes cert)) \<and>
            has_quorum c (v_author ` set (votes cert)) \<and> set (votes cert) \<subseteq> set vs)"
  using va.reports_once_iff_quorum [of "(c, h)"] votes_run_certificate [OF assms] assms by simp

theorem votes_aggregator_certifies_once_witness:
  "\<exists>s cert. run_collector (votes_append demo_committee default_header) votes_aggregator_new
      (map (vote_new demo_lib [] default_header 1) (PublicKey 1 # demo_keys)) = (s, [cert]) \<and>
      distinct (map v_author (votes cert))"
proof -
  obtain s certs where run: "run_collector (votes_append demo_committee default_header) votes_aggregator_new
      (map (vote_new demo_lib [] default_header 1) (PublicKey 1 # demo_keys)) = (s, certs)" by fastforce
  have "has_quorum demo_committee
      (v_author ` set (map (vote_new demo_lib [] default_header 1) (PublicKey 1 # demo_keys)))"
    by (simp add: has_quorum_def vote_new_def vote_new_with_phase_def Let_def demo_keys_def nstake_def)
  with votes_aggregator_certifies_once [OF _ run] run show ?thesis
    by (auto simp: length_Suc_conv simp del: list.set_map)
qed

text \<open>
  Certificates into parents (Narwhal).  The aggregator of a round emits exactly one
  parent set if the origins seen hold a quorum and none otherwise, and the parents are
  the digests of received certificates of distinct origins that hold a quorum.
\<close>

theorem certificates_aggregator_parents_once:
  assumes "committee_ok c"
    and "run_collector (certificates_append lib c) certificates_aggregator_new cs = (s, outs)"
  shows "length outs = (if has_quorum c (cert_origin ` set cs) then 1 else 0) \<and>
         (\<forall>out \<in> set outs. \<exists>ps. out = map (cert_digest lib) ps \<and> set ps \<subseteq> set cs \<and>
            distinct (map cert_origin ps) \<and> has_quorum c (cert_origin ` set ps))"
proof (intro conjI ballI)
  show "length outs = (if has_quorum c (cert_origin ` set cs) then 1 else 0)"
    using ca.reports_once_iff_quorum [of "(lib, c)"] assms by simp
next
  fix out
  assume "out \<in> set outs"
  then obtain ys x zs s1 s2 where split: "cs = ys @ x # zs"
    and run: "run_collector (certificates_append lib c) certificates_aggregator_new ys = (s1, [])"
    and fire: "certificates_append lib c s1 x = (s2, Some out)" and q: "has_quorum c (set (ca_used s2))"
    using ca.run_report [of "(lib, c)" certificates_aggregator_new cs s outs out]
      ca.collected_start [of "(lib, c)"] assms by auto
  have "certs_kept lib cs s1"
    by (rule certificates_run_kept [OF run]) (auto simp: split certs_kept_def certificates_aggregator_new_def)
  from certificates_append_kept(2) [OF this fire] split q
  show "\<exists>ps. out = map (cert_digest lib) ps \<and> set ps \<subseteq> set cs \<and>
      distinct (map cert_origin ps) \<and> has_quorum c (cert_origin ` set ps)" by fastforce
qed

theorem certificates_aggregator_parents_once_witness:
  "\<exists>s out. run_collector (certificates_append demo_lib demo_committee) certificates_aggregator_new
      (genesis demo_committee) = (s, [out])"
proof -
  obtain s outs where run: "run_collector (certificates_append demo_lib demo_committee)
      certificates_aggregator_new (genesis demo_committee) = (s, outs)" by fastforce
  have "has_quorum demo_committee (cert_origin ` set (genesis demo_committee))"
    by (simp add: has_quorum_def genesis_def cert_origin_def image_image demo_keys_def nstake_def)
  with certificates_aggregator_parents_once [OF _ run] run show ?thesis
    by (auto simp: length_Suc_conv)
qed

text \<open>
  Certificates into parents (Bullshark).  The aggregator that does not reset its
  weight hands over every certificate once: what it has emitted, followed by what it still
  holds, is the first certificate of each origin in the order of arrival.  It emits nothing
  before the origins hold a quorum, and holds nothing back from then on.
\<close>

theorem certificates_vec_aggregator_complete:
  assumes "committee_ok c"
    and "run_collector (certificates_vec_append c) certificates_vec_aggregator_new cs = (s, outs)"
  shows "concat outs @ cva_certificates s = first_per cert_origin {} cs \<and>
         (if has_quorum c (cert_origin ` set cs) then cva_certificates s = [] else outs = [])"
proof -
  have "\<not> has_quorum c {}" using assms(1) by (simp add: has_quorum_def stake_simps)
  then have "vec_ok c certificates_vec_aggregator_new"
    by (simp add: vec_ok_def certificates_vec_aggregator_new_def)
  from vec_run [OF assms(1) this assms(2)] show ?thesis
    by (auto simp: certificates_vec_aggregator_new_def vec_ok_def)
qed

theorem certificates_vec_aggregator_complete_witness:
  "concat (snd (run_collector (certificates_vec_append demo_committee) certificates_vec_aggregator_new
      (genesis demo_committee))) = genesis demo_committee"
proof -
  obtain s outs where run: "run_collector (certificates_vec_append demo_committee)
      certificates_vec_aggregator_new (genesis demo_committee) = (s, outs)" by fastforce
  have "has_quorum demo_committee (cert_origin ` set (genesis demo_committee))"
    by (simp add: has_quorum_def genesis_def cert_origin_def image_image demo_keys_def nstake_def)
  moreover have "first_per cert_origin {} (genesis demo_committee) = genesis demo_committee"
    by (simp add: genesis_def cert_origin_def demo_keys_def)
  ultimately show ?thesis
    using certificates_vec_aggregator_complete [OF _ run] run by auto
qed

text \<open>A batch check accepts signatures that verify one by one (\<^verbatim>\<open>ed25519_dalek\<close>).\<close>

definition batch_complete :: "CryptoLib \<Rightarrow> bool" where
  "batch_complete lib \<longleftrightarrow>
     (\<forall>items. (\<forall>(m, s, k) \<in> set items. dalek_verify_strict lib k m s) \<longrightarrow>
        dalek_verify_batch lib (map fst items) (map (fst \<circ> snd) items) (map (snd \<circ> snd) items))"

lemma batch_accepts:
  assumes "batch_complete lib" and "\<forall>(d, k, s) \<in> set sigs. sig_verify lib s d k = Inr ()"
  shows "verify_batch_digests lib sigs = Inr ()"
proof -
  have "batch_items lib sigs = Inr (map (\<lambda>(d, k, s). (digest_bytes d, sig_flatten s, key_bytes k)) sigs)"
    using assms(2) by (induction lib sigs rule: batch_items.induct) (auto simp: sig_verify_def split: if_splits)
  moreover have "dalek_verify_batch lib (map fst items) (map (fst \<circ> snd) items) (map (snd \<circ> snd) items)"
    if "items = map (\<lambda>(d, k, s). (digest_bytes d, sig_flatten s, key_bytes k)) sigs" for items
  proof -
    have "\<forall>(m, s, k) \<in> set items. dalek_verify_strict lib k m s"
      using assms(2) that by (auto simp: sig_verify_def split: if_splits)
    with assms(1) show ?thesis unfolding batch_complete_def by blast
  qed
  ultimately show ?thesis by (simp add: verify_batch_digests_def)
qed

lemma verify_cert_votes_complete:
  assumes "distinct (map v_author vs)" and "v_author ` set vs \<inter> set used = {}"
    and "\<And>v. v \<in> set vs \<Longrightarrow> v_id v = h_id (header cert) \<and> v_round v = cert_round cert \<and>
           v_origin v = cert_origin cert \<and> 0 < stake c (v_author v)"
  shows "verify_cert_votes lib c cert used w sigs vs =
     Inr (w + sum_list (map (stake c) (map v_author vs)),
          sigs @ map (\<lambda>v. (vote_digest lib v, v_author v, v_signature v)) vs)"
  using assms
proof (induction vs arbitrary: used w sigs)
  case (Cons v vs)
  have "v_author ` set vs \<inter> set (v_author v # used) = {}" using Cons.prems(1,2) by auto
  then have IH: "verify_cert_votes lib c cert (v_author v # used) w' sigs' vs =
      Inr (w' + sum_list (map (stake c) (map v_author vs)),
           sigs' @ map (\<lambda>v. (vote_digest lib v, v_author v, v_signature v)) vs)" for w' sigs'
    using Cons.prems(1) by (intro Cons.IH Cons.prems(3)) simp_all
  have v: "v_id v = h_id (header cert)" "v_round v = cert_round cert"
    "v_origin v = cert_origin cert" "0 < stake c (v_author v)" "v_author v \<notin> set used"
    using Cons.prems(3) [of v] Cons.prems(2) by simp_all
  show ?case by (simp only: verify_cert_votes.simps IH) (simp add: ensure_def v add.assoc)
qed simp

text \<open>
  C24. Aggregated certificates verify.  If the header verifies and every appended vote is
  for it and verifies by itself, then a certificate the aggregator emits passes
  \<^verbatim>\<open>Certificate::verify\<close> at every other node.
\<close>

theorem aggregated_certificate_verifies:
  assumes "committee_ok c" and "batch_complete lib"
    and "run_collector (votes_append c h) votes_aggregator_new vs = (s, certs)"
    and "header_verify lib c dp h = Inr ()"
    and "\<forall>v \<in> set vs. vote_verify lib c v = Inr () \<and> v_id v = h_id h \<and> v_round v = h_round h \<and>
           v_origin v = h_author h"
  shows "\<forall>cert \<in> set certs. cert_verify lib c dp cert = Inr ()"
proof
  fix cert
  assume "cert \<in> set certs"
  note run = votes_run_certificate [OF assms(1,3) this]
  have ok: "vote_verify lib c v = Inr () \<and> v_id v = h_id (header cert) \<and> v_round v = cert_round cert \<and>
      v_origin v = cert_origin cert \<and> 0 < stake c (v_author v)" if "v \<in> set (votes cert)" for v
    using that run assms(5) by (auto simp: cert_round_def cert_origin_def vote_verify_def)
  have "verify_cert_votes lib c cert [] 0 [] (votes cert) =
      Inr (sum_list (map (stake c) (map v_author (votes cert))),
           map (\<lambda>v. (vote_digest lib v, v_author v, v_signature v)) (votes cert))"
    using run ok verify_cert_votes_complete [of "votes cert" "[]" cert c lib 0 "[]"] by simp
  moreover have "verify_batch_digests lib
      (map (\<lambda>v. (vote_digest lib v, v_author v, v_signature v)) (votes cert)) = Inr ()"
    using ok by (intro batch_accepts [OF assms(2)]) (auto simp: vote_verify_def)
  moreover have "quorum_threshold c \<le> sum_list (map (stake c) (map v_author (votes cert)))"
    using run has_quorum_list [OF assms(1), of "map v_author (votes cert)"] by simp
  ultimately show "cert_verify lib c dp cert = Inr ()"
    using assms(4) run by (simp add: cert_verify_def of_crypto_def)
qed

theorem aggregated_certificate_verifies_witness:
  "\<exists>s cert. run_collector (votes_append demo_committee (demo_header (PublicKey 1) 1 [Digest 7]))
       votes_aggregator_new (map (vote_new demo_lib [] (demo_header (PublicKey 1) 1 [Digest 7]) 1) demo_keys) =
         (s, [cert]) \<and> cert_verify demo_lib demo_committee Narwhal cert = Inr ()"
proof -
  let ?h = "demo_header (PublicKey 1) 1 [Digest 7]"
  let ?vs = "map (vote_new demo_lib [] ?h 1) demo_keys"
  obtain s certs where run: "run_collector (votes_append demo_committee ?h) votes_aggregator_new ?vs = (s, certs)"
    by fastforce
  have "has_quorum demo_committee (v_author ` set ?vs)"
    by (simp add: has_quorum_def vote_new_def vote_new_with_phase_def Let_def demo_keys_def nstake_def)
  then have "length certs = 1"
    using va.reports_once_iff_quorum [of "(demo_committee, ?h)"] run by simp
  moreover have "header_verify demo_lib demo_committee Narwhal ?h = Inr ()"
    by (rule demo_header_verify) (simp_all add: demo_keys_def)
  moreover have "batch_complete demo_lib" by (simp add: batch_complete_def)
  ultimately have "\<forall>cert \<in> set certs. cert_verify demo_lib demo_committee Narwhal cert = Inr ()"
    by (intro aggregated_certificate_verifies [OF _ _ run])
      (auto simp: vote_verify_def vote_new_def vote_new_with_phase_def Let_def sig_verify_def)
  with run \<open>length certs = 1\<close> show ?thesis by (auto simp: length_Suc_conv)
qed

section \<open>The Wahoo buckets\<close>

definition phase_threshold :: "Committee \<Rightarrow> WahooVotePhase \<Rightarrow> nat" where
  "phase_threshold c phase = (if phase = PhaseTf then total_stake c else unat (quorum_threshold c))"

definition vote_for :: "Header \<Rightarrow> WahooVotePhase \<Rightarrow> Vote \<Rightarrow> bool" where
  "vote_for h phase v \<longleftrightarrow> v_id v = h_id h \<and> v_round v = h_round h \<and> v_origin v = h_author h \<and>
     v_wahoo_phase v = Some phase"

definition bucket_ok :: "Committee \<Rightarrow> Header \<Rightarrow> WahooVotePhase \<Rightarrow> PhaseBucket \<Rightarrow> bool" where
  "bucket_ok c h phase b \<longleftrightarrow>
     map v_author (pb_votes b) = rev (pb_used b) \<and> distinct (pb_used b) \<and>
     (\<forall>v \<in> set (pb_votes b). vote_for h phase v) \<and>
     unat (pb_weight b) = sum (nstake c) (set (pb_used b)) \<and>
     (pb_done b \<longleftrightarrow> phase_threshold c phase \<le> sum (nstake c) (set (pb_used b)))"

definition wahoo_votes_ok :: "Committee \<Rightarrow> Header \<Rightarrow> WahooVotesAggregator \<Rightarrow> bool" where
  "wahoo_votes_ok c h agg \<longleftrightarrow> (\<forall>phase. bucket_ok c h phase (phase_bucket phase agg))"

lemma phase_bucket_set [simp]:
  "phase_bucket p (set_phase_bucket q b agg) = (if p = q then b else phase_bucket p agg)"
  by (cases p; cases q) simp_all

lemma set_phase_bucket_id [simp]: "set_phase_bucket p (phase_bucket p agg) agg = agg"
  by (cases p) simp_all

lemma phase_quorum_inner [simp]: "wahoo_quorum_inner (phase_quorum p cert) = cert"
  by (cases p) simp_all

lemma unat_phase_threshold:
  assumes "committee_ok c"
  shows "unat (if phase = PhaseTf then sum_list (map (stake c) (keys_of (authorities c)))
               else quorum_threshold c) = phase_threshold c phase"
  using unat_weight [OF assms committee_ok_wf [OF assms]] sum_stake_total [OF committee_ok_wf [OF assms]]
  by (simp add: phase_threshold_def members_def)

lemma phase_threshold_pos: "committee_ok c \<Longrightarrow> 0 < phase_threshold c phase"
  by (simp add: phase_threshold_def stake_simps committee_ok_def)

lemma bucket_append_ok:
  assumes "committee_ok c" and "bucket_ok c h phase b" and "vote_for h phase v"
    and "unat t = phase_threshold c phase" and "bucket_append c t b v = (b', r)"
  shows "bucket_ok c h phase b' \<and>
    (case r of Inl e \<Rightarrow> b' = b \<and> e = AuthorityReuse (v_author v) \<and> v_author v \<in> set (pb_used b)
     | Inr None \<Rightarrow> pb_done b' = pb_done b
     | Inr (Some vs) \<Rightarrow> \<not> pb_done b \<and> pb_done b' \<and> vs = pb_votes b')"
proof -
  have w: "unat (pb_weight b + stake c (v_author v)) = sum (nstake c) (insert (v_author v) (set (pb_used b)))"
    if "v_author v \<notin> set (pb_used b)"
    using that assms(1,2) by (intro unat_add_stake) (auto simp: bucket_ok_def)
  show ?thesis
  proof (cases "pb_done b \<or> v_author v \<in> set (pb_used b)")
    case True
    with assms(2,5) show ?thesis by (auto simp: bucket_append_def Let_def split: if_splits)
  next
    case False
    with assms w show ?thesis
      by (auto simp: bucket_append_def bucket_ok_def Let_def word_le_nat_alt split: if_splits)
  qed
qed

lemma full_weight_all:
  assumes "committee_ok c" and "finite A" and "total_stake c \<le> sum (nstake c) A"
  shows "{a \<in> members c. 0 < nstake c a} \<subseteq> A"
proof
  fix a
  assume "a \<in> {a \<in> members c. 0 < nstake c a}"
  moreover have "sum (nstake c) (insert a A) \<le> total_stake c"
    by (rule weight_le_total [OF committee_ok_wf [OF assms(1)]])
  ultimately show "a \<in> A" using assms(2,3) by (cases "a \<in> A") auto
qed

lemma wahoo_votes_new_ok: "committee_ok c \<Longrightarrow> wahoo_votes_ok c h wahoo_votes_aggregator_new"
proof -
  assume "committee_ok c"
  then have "bucket_ok c h p phase_bucket_default" for p
    using phase_threshold_pos [of c p] by (simp add: bucket_ok_def phase_bucket_default_def)
  moreover have "phase_bucket p wahoo_votes_aggregator_new = phase_bucket_default" for p
    by (cases p) (simp_all add: wahoo_votes_aggregator_new_def)
  ultimately show ?thesis by (simp add: wahoo_votes_ok_def)
qed

text \<open>
  Wahoo phase quorums.  Every append keeps the buckets well formed: each holds votes
  of distinct authors for this header and this phase, their summed stake, and a flag that
  is set exactly when that stake has reached the threshold of the phase.  An error leaves
  the aggregator as it was.  A quorum is reported only by the append that sets the flag of
  the vote's own phase, so once per phase, and the other phases are untouched; its
  certificate carries at least the threshold of the phase, which for the fast path means
  every authority that has any stake.
\<close>

theorem wahoo_votes_append_phases:
  assumes "committee_ok c" and "wahoo_votes_ok c h agg" and "wahoo_votes_append c h agg v = (agg', r)"
  shows "wahoo_votes_ok c h agg' \<and>
    (case r of
       Inl e \<Rightarrow> agg' = agg
     | Inr None \<Rightarrow> (\<forall>p. pb_done (phase_bucket p agg') = pb_done (phase_bucket p agg))
     | Inr (Some q) \<Rightarrow>
         (\<exists>p vs. v_wahoo_phase v = Some p \<and> q = phase_quorum p \<lparr>header = h, votes = vs\<rparr> \<and>
            \<not> pb_done (phase_bucket p agg) \<and> pb_done (phase_bucket p agg') \<and>
            (\<forall>p'. p' \<noteq> p \<longrightarrow> phase_bucket p' agg' = phase_bucket p' agg) \<and>
            distinct (map v_author vs) \<and> (\<forall>v \<in> set vs. vote_for h p v) \<and>
            phase_threshold c p \<le> sum (nstake c) (v_author ` set vs) \<and>
            (p = PhaseTf \<longrightarrow> {a \<in> members c. 0 < nstake c a} \<subseteq> v_author ` set vs)))"
proof (cases "\<exists>p. vote_for h p v")
  case False
  then have "agg' = agg \<and> (\<exists>e. r = Inl e)"
    using assms(3) unfolding wahoo_votes_append_def vote_for_def
    by (cases "v_wahoo_phase v") (auto split: if_splits)
  with assms(2) show ?thesis by auto
next
  case True
  then obtain p where p: "vote_for h p v" by blast
  define t where "t = (if p = PhaseTf then sum_list (map (stake c) (keys_of (authorities c)))
                       else quorum_threshold c)"
  obtain b rb where b: "bucket_append c t (phase_bucket p agg) v = (b, rb)" by fastforce
  have bok: "bucket_ok c h p (phase_bucket p agg)" using assms(2) by (simp add: wahoo_votes_ok_def)
  note step = bucket_append_ok [OF assms(1) bok p unat_phase_threshold [OF assms(1), of p, folded t_def] b]
  have agg': "agg' = set_phase_bucket p b agg"
    and r: "r = rbind rb (\<lambda>ov. Inr (map_option (\<lambda>vs. phase_quorum p \<lparr>header = h, votes = vs\<rparr>) ov))"
    using assms(3) p b
    by (simp_all add: wahoo_votes_append_def vote_for_def Let_def t_def [symmetric] del: map_map)
  have inv: "wahoo_votes_ok c h agg'" using step assms(2) by (auto simp: wahoo_votes_ok_def agg')
  show ?thesis
  proof (cases rb)
    case (Inl e)
    with step inv r agg' show ?thesis by auto
  next
    case (Inr ov)
    show ?thesis
    proof (cases ov)
      case None
      with Inr step inv r agg' show ?thesis by auto
    next
      case (Some vs)
      with Inr step have vs: "bucket_ok c h p b" "\<not> pb_done (phase_bucket p agg)" "pb_done b" "vs = pb_votes b"
        by auto
      have d: "distinct (map v_author vs)"
        using vs(1,4) by (simp add: bucket_ok_def)
      have im: "v_author ` set vs = set (pb_used b)"
        using vs(1,4) by (metis bucket_ok_def list.set_map set_rev)
      have w: "phase_threshold c p \<le> sum (nstake c) (v_author ` set vs)"
        using vs(1,3) im by (simp add: bucket_ok_def)
      have "p = PhaseTf \<longrightarrow> {a \<in> members c. 0 < nstake c a} \<subseteq> v_author ` set vs"
        using w by (intro impI full_weight_all [OF assms(1)]) (simp_all add: phase_threshold_def)
      with Inr Some inv r agg' vs d w p show ?thesis
        by (auto simp: bucket_ok_def vote_for_def intro!: exI [of _ p])
    qed
  qed
qed

theorem wahoo_votes_append_phases_witness:
  "wahoo_votes_ok demo_committee (demo_header (PublicKey 1) 1 [])
     (fst (wahoo_votes_append demo_committee (demo_header (PublicKey 1) 1 []) wahoo_votes_aggregator_new
        (vote_new_with_phase demo_lib [] (demo_header (PublicKey 1) 1 []) 1 (PublicKey 2) (Some PhaseTf))))"
  by (rule conjunct1 [OF wahoo_votes_append_phases [OF demo_committee_thresholds(4)
        wahoo_votes_new_ok [OF demo_committee_thresholds(4)] surjective_pairing]])

end
