(* ===== verification/ConsensusState.thy ===== *)
theory ConsensusState
  imports Aggregators Coin
begin

text \<open>
  The shared part of the consensus crate (\<^verbatim>\<open>consensus/src/lib.rs\<close>): the DAG kept in
  memory, its garbage collection, and the leader election every protocol module calls.
  The channels of \<^verbatim>\<open>Consensus\<close> are the argument and the result of a run: a protocol
  module is a step function that maps a received certificate to the certificates it
  outputs.  The coin keeps its caches behind mutexes, so an election returns the updated
  \<^verbatim>\<open>Consensus\<close>.
\<close>

section \<open>The DAG and its garbage collection\<close>

type_synonym RoundDag = "(PublicKey \<times> (Digest \<times> Certificate)) list"
type_synonym Dag = "(Round \<times> RoundDag) list"

record State =
  last_committed_round :: Round
  last_committed :: "(PublicKey \<times> Round) list"
  dag :: Dag

definition state_new :: "CryptoLib \<Rightarrow> Certificate list \<Rightarrow> State" where
  "state_new lib gen =
     (let g = foldl (\<lambda>m x. AList.update (cert_origin x) (cert_digest lib x, x) m) [] gen
      in \<lparr>last_committed_round = 0,
          last_committed = map (\<lambda>(x, (_, y)). (x, cert_round y)) g,
          dag = [(0, g)]\<rparr>)"

text \<open>One pass of the \<^verbatim>\<open>retain\<close> loop of \<^verbatim>\<open>State::update\<close>, for one authority.\<close>

definition retain_authority :: "Round \<Rightarrow> Round \<Rightarrow> PublicKey \<times> Round \<Rightarrow> Dag \<Rightarrow> Dag" where
  "retain_authority gc_depth lcr nr d =
     filter (\<lambda>(r, auths). auths \<noteq> [] \<and> u64_add r gc_depth \<ge> lcr)
       (map (\<lambda>(r, auths). (r, filter (\<lambda>(n, _). n \<noteq> fst nr \<or> r \<ge> snd nr) auths)) d)"

definition state_update :: "Certificate \<Rightarrow> Round \<Rightarrow> State \<Rightarrow> State" where
  "state_update cert gc_depth s =
     (let lc = AList.update (cert_origin cert)
                 (case map_of (last_committed s) (cert_origin cert) of
                    None \<Rightarrow> cert_round cert | Some r \<Rightarrow> max r (cert_round cert))
                 (last_committed s);
          lcr = Max (set (values_of lc))
      in s\<lparr>last_committed := lc, last_committed_round := lcr,
           dag := foldl (\<lambda>d nr. retain_authority gc_depth lcr nr d) (dag s) lc\<rparr>)"

text \<open>
  \<^verbatim>\<open>dag.entry(round).or_insert_with(HashMap::new).insert(origin, (digest, certificate))\<close>.
\<close>

definition dag_insert :: "CryptoLib \<Rightarrow> Certificate \<Rightarrow> Dag \<Rightarrow> Dag" where
  "dag_insert lib cert d =
     AList.update (cert_round cert)
       (AList.update (cert_origin cert) (cert_digest lib cert, cert)
         (case map_of d (cert_round cert) of None \<Rightarrow> [] | Some m \<Rightarrow> m)) d"

section \<open>The consensus object\<close>

record Consensus =
  con_committee :: Committee
  con_gc_depth :: Round
  con_dag_protocol :: DagProtocol
  con_consensus_protocol :: ConsensusProtocol
  con_name :: PublicKey
  con_coin_committee :: CoinCommittee
  con_threshold_coin :: "ThresholdCoin option"
  con_genesis :: "Certificate list"

definition spawn_with_protocol ::
    "CryptoLib \<Rightarrow> PublicKey \<Rightarrow> Committee \<Rightarrow> Round \<Rightarrow> DagProtocol \<Rightarrow> ConsensusProtocol
     \<Rightarrow> Consensus outcome" where
  "spawn_with_protocol lib name c gc_depth dp cp =
     rbind (coin_committee_new (keys_of (authorities c))) (\<lambda>cc.
     rbind (if cp = CommonCoin \<and> dp \<noteq> Wahoo
            then (let threshold = (if is_mahi_mahi dp then coin_quorum_threshold (committee_size c)
                                   else coin_threshold (committee_size c))
                  in rbind (coin_from_committee lib cc threshold) (\<lambda>tc. Inr (Some tc)))
            else Inr None) (\<lambda>tc.
     Inr \<lparr>con_committee = c, con_gc_depth = gc_depth, con_dag_protocol = dp,
          con_consensus_protocol = cp, con_name = name, con_coin_committee = cc,
          con_threshold_coin = tc, con_genesis = genesis c\<rparr>))"

definition spawn :: "CryptoLib \<Rightarrow> PublicKey \<Rightarrow> Committee \<Rightarrow> Round \<Rightarrow> Consensus outcome" where
  "spawn lib name c gc_depth = spawn_with_protocol lib name c gc_depth Shortfin RoundRobin"

section \<open>Leader election\<close>

definition round_robin_coin :: "Consensus \<Rightarrow> Round \<Rightarrow> Round outcome" where
  "round_robin_coin con round =
     rbind (case con_dag_protocol con of
              Shortfin \<Rightarrow> round_robin_slot round 1 4
            | Narwhal \<Rightarrow> round_robin_slot round 2 2
            | Bullshark \<Rightarrow> round_robin_slot round 2 2
            | MahiMahi \<Rightarrow> round_robin_slot round 1 1
            | MahiMahi4 \<Rightarrow> round_robin_slot round 1 1
            | MahiMahi5 \<Rightarrow> round_robin_slot round 1 1
            | Wahoo \<Rightarrow> Inr round)
       (\<lambda>election_slot. Inr (cc_round_robin (con_coin_committee con) election_slot))"

definition pseudo_random_coin :: "CryptoLib \<Rightarrow> Consensus \<Rightarrow> Round \<Rightarrow> Round" where
  "pseudo_random_coin lib con round = cc_pseudo_random lib (con_coin_committee con) round"

definition carried_shares :: "Certificate list \<Rightarrow> (PublicKey \<times> byte list) list" where
  "carried_shares certs =
     List.map_filter (\<lambda>cert. if h_coin_share (header cert) = [] then None
                             else Some (cert_origin cert, h_coin_share (header cert))) certs"

definition threshold_coin_from_certificates ::
    "CryptoLib \<Rightarrow> Consensus \<Rightarrow> Round \<Rightarrow> Certificate list \<Rightarrow> Consensus \<times> Round option" where
  "threshold_coin_from_certificates lib con round certs =
     (let weight = sum_list (map (stake (con_committee con)) (remdups (map cert_origin certs)))
      in if weight < quorum_threshold (con_committee con) then (con, None)
         else (case con_threshold_coin con of
                 None \<Rightarrow> (con, None)
               | Some tc \<Rightarrow>
                   (let (tc', coin) = recover lib tc round (carried_shares certs)
                    in (con\<lparr>con_threshold_coin := Some tc'\<rparr>, coin))))"

definition round_certificates :: "RoundDag \<Rightarrow> Certificate list" where
  "round_certificates m = map snd (values_of m)"

definition con_threshold_coin_value ::
    "CryptoLib \<Rightarrow> Consensus \<Rightarrow> Round \<Rightarrow> Dag \<Rightarrow> Consensus \<times> Round option" where
  "con_threshold_coin_value lib con round d =
     (case map_of d round of
        None \<Rightarrow> (con, None)
      | Some certs \<Rightarrow> threshold_coin_from_certificates lib con round (round_certificates certs))"

definition with_leader ::
    "Consensus \<Rightarrow> nat \<Rightarrow> Consensus \<times> Round option \<Rightarrow> (Consensus \<times> PublicKey option) outcome" where
  "with_leader con offset r =
     (case snd r of
        None \<Rightarrow> Inr (fst r, None)
      | Some value \<Rightarrow> rbind (cc_leader (con_coin_committee con) value offset)
                        (\<lambda>a. Inr (fst r, Some a)))"

definition leader_authority_from_certificates ::
    "CryptoLib \<Rightarrow> Consensus \<Rightarrow> Round \<Rightarrow> Round \<Rightarrow> nat \<Rightarrow> Certificate list
     \<Rightarrow> (Consensus \<times> PublicKey option) outcome" where
  "leader_authority_from_certificates lib con leader_round coin_round offset certs =
     rbind (case con_consensus_protocol con of
              RoundRobin \<Rightarrow> rbind (round_robin_coin con leader_round) (\<lambda>v. Inr (con, Some v))
            | PseudoRandom \<Rightarrow> Inr (con, Some (pseudo_random_coin lib con coin_round))
            | CommonCoin \<Rightarrow> Inr (threshold_coin_from_certificates lib con coin_round certs))
       (with_leader con offset)"

definition coin_value ::
    "CryptoLib \<Rightarrow> Consensus \<Rightarrow> Round \<Rightarrow> Round \<Rightarrow> Dag \<Rightarrow> (Consensus \<times> Round option) outcome" where
  "coin_value lib con leader_round coin_round d =
     (case con_consensus_protocol con of
        RoundRobin \<Rightarrow> rbind (round_robin_coin con leader_round) (\<lambda>v. Inr (con, Some v))
      | PseudoRandom \<Rightarrow> Inr (con, Some (pseudo_random_coin lib con coin_round))
      | CommonCoin \<Rightarrow> Inr (con_threshold_coin_value lib con coin_round d))"

definition leader_authority ::
    "CryptoLib \<Rightarrow> Consensus \<Rightarrow> Round \<Rightarrow> Round \<Rightarrow> nat \<Rightarrow> Dag \<Rightarrow> (Consensus \<times> PublicKey option) outcome" where
  "leader_authority lib con leader_round coin_round offset d =
     rbind (coin_value lib con leader_round coin_round d) (with_leader con offset)"

definition con_leader ::
    "CryptoLib \<Rightarrow> Consensus \<Rightarrow> Round \<Rightarrow> Round \<Rightarrow> Dag
     \<Rightarrow> (Consensus \<times> (Digest \<times> Certificate) option) outcome" where
  "con_leader lib con round coin_round d =
     (case map_of d round of
        None \<Rightarrow> Inr (con, None)
      | Some by_round \<Rightarrow>
          rbind (leader_authority lib con round coin_round 0 d) (\<lambda>(con', a).
            Inr (con', Option.bind a (map_of by_round))))"

definition round_has_quorum :: "Consensus \<Rightarrow> Round \<Rightarrow> Dag \<Rightarrow> bool" where
  "round_has_quorum con round d =
     (case map_of d round of
        None \<Rightarrow> False
      | Some certs \<Rightarrow>
          sum_list (map (\<lambda>cert. stake (con_committee con) (cert_origin cert)) (round_certificates certs))
          \<ge> quorum_threshold (con_committee con))"

text \<open>The weight check in this function is a \<^verbatim>\<open>debug_assert!\<close>, absent from a release build.\<close>

definition embedded_qc_links :: "Certificate \<Rightarrow> Certificate \<Rightarrow> Round \<Rightarrow> bool" where
  "embedded_qc_links child parent commit_round =
     (case h_qc (header child) of
        None \<Rightarrow> False
      | Some qc \<Rightarrow>
          qc_target qc = h_id (header parent) \<and> qc_round qc = cert_round parent \<and>
          qc_round qc < commit_round \<and>
          list_all (\<lambda>vote. v_voter_round vote < commit_round) (qc_votes qc))"

section \<open>Runs\<close>

text \<open>
  The receive loop of a protocol module: one step per received certificate, the outputs
  concatenated.  A panic ends the task.
\<close>

fun run_steps :: "('s \<Rightarrow> 'i \<Rightarrow> ('s \<times> 'o list) outcome) \<Rightarrow> 's \<Rightarrow> 'i list \<Rightarrow> ('s \<times> 'o list) outcome" where
  "run_steps step s [] = Inr (s, [])"
| "run_steps step s (x # xs) =
     rbind (step s x) (\<lambda>(s1, out). rbind (run_steps step s1 xs) (\<lambda>(s2, outs). Inr (s2, out @ outs)))"

lemma run_steps_inv:
  assumes "run_steps step s xs = Inr (s', outs)" and "P s"
    and "\<And>s x s1 out. P s \<Longrightarrow> x \<in> set xs \<Longrightarrow> step s x = Inr (s1, out) \<Longrightarrow> P s1"
  shows "P s'"
  using assms
proof (induction xs arbitrary: s outs)
  case (Cons x xs)
  from Cons.prems(1) obtain s1 out outs2 where "step s x = Inr (s1, out)"
    "run_steps step s1 xs = Inr (s', outs2)" by auto
  with Cons.IH [of s1 outs2] Cons.prems(2,3) show ?case by (metis list.set_intros)
qed simp

text \<open>\<^verbatim>\<open>wahoo::run\<close> passes on what the primary has already ordered.\<close>

definition wahoo_step :: "Consensus \<Rightarrow> Certificate \<Rightarrow> (Consensus \<times> Certificate list) outcome" where
  "wahoo_step con cert = Inr (con, [cert])"

section \<open>Well-formed states\<close>

definition dag_at :: "Dag \<Rightarrow> Round \<Rightarrow> PublicKey \<Rightarrow> (Digest \<times> Certificate) option" where
  "dag_at d r a = Option.bind (map_of d r) (\<lambda>m. map_of m a)"

definition wf_round :: "CryptoLib \<Rightarrow> Round \<Rightarrow> RoundDag \<Rightarrow> bool" where
  "wf_round lib r m \<longleftrightarrow> wf_map m \<and>
     (\<forall>a dg c. (a, (dg, c)) \<in> set m \<longrightarrow> cert_round c = r \<and> cert_origin c = a \<and> dg = cert_digest lib c)"

definition wf_dag :: "CryptoLib \<Rightarrow> Dag \<Rightarrow> bool" where
  "wf_dag lib d \<longleftrightarrow> wf_map d \<and> (\<forall>r m. (r, m) \<in> set d \<longrightarrow> wf_round lib r m)"

definition wf_state :: "CryptoLib \<Rightarrow> State \<Rightarrow> bool" where
  "wf_state lib s \<longleftrightarrow> wf_dag lib (dag s) \<and> wf_map (last_committed s) \<and>
     (\<forall>(a, r) \<in> set (last_committed s). r \<le> last_committed_round s)"

lemma wf_dagD: "wf_dag lib d \<Longrightarrow> map_of d r = Some m \<Longrightarrow> wf_round lib r m"
  by (auto simp: wf_dag_def dest: map_of_SomeD)

lemma wf_roundD:
  "wf_round lib r m \<Longrightarrow> (a, (dg, c)) \<in> set m \<Longrightarrow>
     cert_round c = r \<and> cert_origin c = a \<and> dg = cert_digest lib c"
  by (auto simp: wf_round_def)

lemma wf_round_wf [simp]: "wf_round lib r m \<Longrightarrow> wf_map m"
  by (simp add: wf_round_def)

lemma wf_round_Nil [simp]: "wf_round lib r []"
  by (simp add: wf_round_def)

lemma wf_round_filter [simp]: "wf_round lib r m \<Longrightarrow> wf_round lib r (filter P m)"
  by (auto simp: wf_round_def)

lemma wf_round_update:
  "wf_round lib (cert_round c) m \<Longrightarrow>
     wf_round lib (cert_round c) (AList.update (cert_origin c) (cert_digest lib c, c) m)"
  unfolding wf_round_def by (auto simp: in_set_update_iff split: if_splits)

lemma dag_at_Some:
  "dag_at d r a = Some x \<longleftrightarrow> (\<exists>m. map_of d r = Some m \<and> map_of m a = Some x)"
  by (simp add: dag_at_def bind_eq_Some_conv)

lemma dag_at_wf:
  assumes "wf_dag lib d" and "dag_at d r a = Some (dg, c)"
  shows "cert_round c = r \<and> cert_origin c = a \<and> dg = cert_digest lib c"
  using assms wf_roundD [OF wf_dagD] map_of_SomeD unfolding dag_at_Some by metis

lemma wf_dag_insert:
  assumes "wf_dag lib d"
  shows "wf_dag lib (dag_insert lib cert d)"
proof -
  have "wf_round lib (cert_round cert) (case map_of d (cert_round cert) of None \<Rightarrow> [] | Some m \<Rightarrow> m)"
    using wf_dagD [OF assms] by (simp split: option.split)
  from wf_round_update [OF this] assms show ?thesis
    by (simp add: wf_dag_def dag_insert_def in_set_update_iff)
qed

lemma dag_at_insert:
  "dag_at (dag_insert lib cert d) r a =
     (if r = cert_round cert \<and> a = cert_origin cert then Some (cert_digest lib cert, cert) else dag_at d r a)"
  by (simp add: dag_at_def dag_insert_def split: option.split)

lemma wf_retain_authority:
  assumes "wf_dag lib d"
  shows "wf_dag lib (retain_authority gc lcr nr d)"
proof -
  have "wf_map (retain_authority gc lcr nr d)"
    using assms unfolding retain_authority_def wf_dag_def by (intro wf_filter) (simp only: keys_map_values)
  moreover have "wf_round lib r m" if "(r, m) \<in> set (retain_authority gc lcr nr d)" for r m
  proof -
    from that obtain m' where "(r, m') \<in> set d" "m = filter (\<lambda>(n, _). n \<noteq> fst nr \<or> r \<ge> snd nr) m'"
      by (auto simp: retain_authority_def)
    with assms show ?thesis by (auto simp: wf_dag_def)
  qed
  ultimately show ?thesis by (simp add: wf_dag_def)
qed

lemma map_of_retain_authority:
  assumes "wf_dag lib d"
  shows "map_of (retain_authority gc lcr nr d) r =
     (case map_of d r of None \<Rightarrow> None
      | Some m \<Rightarrow> (let m' = filter (\<lambda>(n, _). n \<noteq> fst nr \<or> r \<ge> snd nr) m
                   in if m' \<noteq> [] \<and> u64_add r gc \<ge> lcr then Some m' else None))"
proof -
  let ?d = "map (\<lambda>(r, auths). (r, filter (\<lambda>(n, _). n \<noteq> fst nr \<or> r \<ge> snd nr) auths)) d"
  have "wf_map ?d" using assms by (simp only: keys_map_values) (simp add: wf_dag_def)
  then show ?thesis
    unfolding retain_authority_def
    by (simp only: map_of_filter_wf map_of_map_values) (simp split: option.split)
qed

lemma dag_at_retain_authority:
  assumes "wf_dag lib d"
  shows "dag_at (retain_authority gc lcr (n, k) d) r a =
     (if lcr \<le> u64_add r gc \<and> (a = n \<longrightarrow> k \<le> r) then dag_at d r a else None)"
proof (cases "map_of d r")
  case (Some m)
  let ?m = "filter (\<lambda>(n', _). n' \<noteq> n \<or> r \<ge> k) m"
  have wf: "wf_map m" using wf_dagD [OF assms Some] by simp
  have look: "map_of ?m a = (if a = n \<longrightarrow> k \<le> r then map_of m a else None)"
    by (simp add: map_of_filter_wf [OF wf] split: option.split)
  have "dag_at (retain_authority gc lcr (n, k) d) r a = (if lcr \<le> u64_add r gc then map_of ?m a else None)"
    by (simp add: dag_at_def map_of_retain_authority [OF assms] Some Let_def)
  then show ?thesis unfolding look by (simp add: dag_at_def Some)
qed (simp add: dag_at_def map_of_retain_authority [OF assms])

lemma fold_retain:
  assumes "wf_dag lib d"
  shows "wf_dag lib (foldl (\<lambda>d nr. retain_authority gc lcr nr d) d lc) \<and>
    dag_at (foldl (\<lambda>d nr. retain_authority gc lcr nr d) d lc) r a =
     (if (lc = [] \<or> lcr \<le> u64_add r gc) \<and> (\<forall>k. (a, k) \<in> set lc \<longrightarrow> k \<le> r) then dag_at d r a else None)"
  using assms
proof (induction lc arbitrary: d)
  case (Cons nk lc)
  obtain n k where nk: "nk = (n, k)" by fastforce
  from Cons.IH [OF wf_retain_authority [OF Cons.prems, of gc lcr nk]] nk
    dag_at_retain_authority [OF Cons.prems, of gc lcr n k r a]
  show ?case by auto
qed simp

definition committed_of :: "State \<Rightarrow> PublicKey \<Rightarrow> Round option" where
  "committed_of s a = map_of (last_committed s) a"

lemma state_update_fields:
  fixes cert :: Certificate and gc :: Round
  assumes "wf_state lib s"
  defines "s' \<equiv> state_update cert gc s"
  shows "committed_of s' = (committed_of s)(cert_origin cert \<mapsto>
           (case committed_of s (cert_origin cert) of None \<Rightarrow> cert_round cert | Some r \<Rightarrow> max r (cert_round cert)))"
    and "last_committed_round s' = Max (ran (committed_of s'))"
    and "wf_map (last_committed s')" and "last_committed s' \<noteq> []"
    and "dag s' = foldl (\<lambda>d nr. retain_authority gc (last_committed_round s') nr d) (dag s) (last_committed s')"
proof -
  show lc: "committed_of s' = (committed_of s)(cert_origin cert \<mapsto>
      (case committed_of s (cert_origin cert) of None \<Rightarrow> cert_round cert | Some r \<Rightarrow> max r (cert_round cert)))"
    by (auto simp: s'_def state_update_def committed_of_def Let_def)
  show wf: "wf_map (last_committed s')"
    using assms(1) by (simp add: s'_def state_update_def wf_state_def Let_def)
  have "committed_of s' (cert_origin cert) \<noteq> None" unfolding lc by simp
  then show "last_committed s' \<noteq> []" by (auto simp: committed_of_def)
  have "ran (committed_of s') = set (values_of (last_committed s'))"
    using wf unfolding committed_of_def by (simp add: ran_distinct)
  then show "last_committed_round s' = Max (ran (committed_of s'))"
    by (simp add: s'_def state_update_def Let_def)
  show "dag s' = foldl (\<lambda>d nr. retain_authority gc (last_committed_round s') nr d) (dag s) (last_committed s')"
    by (simp add: s'_def state_update_def Let_def)
qed

lemma state_update_dag:
  fixes cert :: Certificate and gc :: Round
  assumes "wf_state lib s"
  defines "s' \<equiv> state_update cert gc s"
  shows "wf_dag lib (dag s')"
    and "dag_at (dag s') r a =
      (if last_committed_round s' \<le> u64_add r gc \<and> (\<forall>k. committed_of s' a = Some k \<longrightarrow> k \<le> r)
       then dag_at (dag s) r a else None)"
proof -
  note f = state_update_fields [OF assms(1), of cert gc, folded s'_def]
  have wf: "wf_dag lib (dag s)" using assms(1) by (simp add: wf_state_def)
  have "(a, k) \<in> set (last_committed s') \<longleftrightarrow> committed_of s' a = Some k" for k
    using f(3) by (simp add: committed_of_def)
  with fold_retain [OF wf, of gc "last_committed_round s'" "last_committed s'" r a] f(4,5)
  show "wf_dag lib (dag s')" and "dag_at (dag s') r a =
      (if last_committed_round s' \<le> u64_add r gc \<and> (\<forall>k. committed_of s' a = Some k \<longrightarrow> k \<le> r)
       then dag_at (dag s) r a else None)" by auto
qed

lemma wf_state_update:
  assumes "wf_state lib s"
  shows "wf_state lib (state_update cert gc s)"
proof -
  let ?s = "state_update cert gc s"
  note f = state_update_fields [OF assms, of cert gc]
  have "r \<le> last_committed_round ?s" if "(a, r) \<in> set (last_committed ?s)" for a r
  proof -
    have "committed_of ?s a = Some r" using that f(3) by (simp add: committed_of_def)
    then have "r \<in> ran (committed_of ?s)" by (rule ranI)
    moreover have "finite (ran (committed_of ?s))"
      unfolding committed_of_def by (intro finite_ran finite_dom_map_of)
    ultimately show ?thesis unfolding f(2) by (rule Max_ge [rotated])
  qed
  with f(3) state_update_dag(1) [OF assms] show ?thesis by (auto simp: wf_state_def)
qed

lemma committed_of_update_mono:
  assumes "wf_state lib s" and "committed_of s a = Some r"
  shows "\<exists>r'. committed_of (state_update cert gc s) a = Some r' \<and> r \<le> r'"
  using assms(2) by (auto simp: state_update_fields(1) [OF assms(1)])

lemma wf_state_new: "wf_state lib (state_new lib (genesis c))"
proof -
  define f where "f = (\<lambda>m x. AList.update (cert_origin x) (cert_digest lib x, x) m)"
  have "wf_round lib 0 (foldl f m gen)" if "wf_round lib 0 m" and "\<forall>x \<in> set gen. cert_round x = 0"
    for m gen
    using that
  proof (induction gen arbitrary: m)
    case (Cons x gen)
    then have "wf_round lib 0 (f m x)" using wf_round_update [of lib x m] by (simp add: f_def)
    with Cons show ?case by simp
  qed simp
  then have wf: "wf_round lib 0 (foldl f [] (genesis c))"
    by (simp add: genesis_def cert_round_def default_header_def)
  then show ?thesis
    by (auto simp: wf_state_def state_new_def wf_dag_def f_def [symmetric] Let_def comp_def
        case_prod_beta' dest: wf_roundD)
qed

section \<open>Elections agree\<close>

definition coin_peers :: "CryptoLib \<Rightarrow> ThresholdCoin \<Rightarrow> ThresholdCoin \<Rightarrow> bool" where
  "coin_peers lib s t \<longleftrightarrow> coin_inv lib s \<and> coin_inv lib t \<and> tc_key_set s = tc_key_set t"

definition peers :: "CryptoLib \<Rightarrow> Consensus \<Rightarrow> Consensus \<Rightarrow> bool" where
  "peers lib a b \<longleftrightarrow> con_committee a = con_committee b \<and> con_dag_protocol a = con_dag_protocol b \<and>
     con_consensus_protocol a = con_consensus_protocol b \<and> con_coin_committee a = con_coin_committee b \<and>
     rel_option (coin_peers lib) (con_threshold_coin a) (con_threshold_coin b)"

lemma peers_sym: "peers lib a b \<Longrightarrow> peers lib b a"
  by (auto simp: peers_def coin_peers_def option_rel_Some1 option_rel_Some2 elim!: option.rel_cases)

lemma spawn_peers:
  assumes "spawn_with_protocol lib n1 c gc dp cp = Inr a" and "spawn_with_protocol lib n2 c gc dp cp = Inr b"
  shows "peers lib a b"
  using assms
  by (auto simp: spawn_with_protocol_def peers_def coin_peers_def Let_def intro: coin_inv_initial
      split: if_splits)

text \<open>A series of elections, as the protocols call them.\<close>

fun elect_all ::
    "CryptoLib \<Rightarrow> Consensus \<Rightarrow> (Round \<times> Round \<times> nat \<times> Dag) list \<Rightarrow> Consensus outcome" where
  "elect_all lib con [] = Inr con"
| "elect_all lib con ((lr, cr, off, d) # xs) =
     rbind (leader_authority lib con lr cr off d) (\<lambda>(con', _). elect_all lib con' xs)"

lemma threshold_coin_peers:
  assumes "peers lib a b" and "threshold_coin_from_certificates lib a r certs = (a', v)"
  shows "peers lib a' b" and "v = Some x \<Longrightarrow> \<exists>tc. con_threshold_coin a = Some tc \<and>
           valid_coin lib (tc_key_set tc) r x"
proof -
  show "peers lib a' b"
  proof (cases "con_threshold_coin a")
    case None
    with assms show ?thesis
      by (auto simp: threshold_coin_from_certificates_def Let_def split: if_splits)
  next
    case (Some tc)
    obtain tc' res where r: "recover lib tc r (carried_shares certs) = (tc', res)" by fastforce
    have "coin_inv lib tc" using assms(1) Some by (auto simp: peers_def coin_peers_def option_rel_Some1)
    from recover_ok [OF this r] assms Some r show ?thesis
      by (auto simp: threshold_coin_from_certificates_def Let_def peers_def coin_peers_def same_setup_def
          option_rel_Some1 split: if_splits)
  qed
next
  assume v: "v = Some x"
  then obtain tc where tc: "con_threshold_coin a = Some tc"
    using assms(2) by (auto simp: threshold_coin_from_certificates_def Let_def split: if_splits option.splits)
  obtain tc' res where r: "recover lib tc r (carried_shares certs) = (tc', res)" by fastforce
  have "coin_inv lib tc" using assms(1) tc by (auto simp: peers_def coin_peers_def option_rel_Some1)
  from recover_ok [OF this r] assms(2) v tc r
  show "\<exists>tc. con_threshold_coin a = Some tc \<and> valid_coin lib (tc_key_set tc) r x"
    by (auto simp: threshold_coin_from_certificates_def Let_def split: if_splits)
qed

lemma leader_authority_peers:
  assumes "peers lib a b" and "leader_authority lib a lr cr off d = Inr (a', res)"
  shows "peers lib a' b"
  using assms threshold_coin_peers(1) [OF assms(1)]
  by (auto simp: leader_authority_def coin_value_def con_threshold_coin_value_def with_leader_def
      split: ConsensusProtocol.splits option.splits)

lemma elect_all_peers: "peers lib a b \<Longrightarrow> elect_all lib a xs = Inr a' \<Longrightarrow> peers lib a' b"
proof (induction lib a xs rule: elect_all.induct)
  case (2 lib con lr cr off d xs)
  then obtain con' res where l: "leader_authority lib con lr cr off d = Inr (con', res)"
    and e: "elect_all lib con' xs = Inr a'" by auto
  from "2.IH" [OF l refl leader_authority_peers [OF "2.prems"(1) l] e] show ?case .
qed simp

lemma coin_value_agree:
  assumes "bls_unique lib" and "peers lib a b"
    and "coin_value lib a lr cr d = Inr (a', Some x)" and "coin_value lib b lr cr d' = Inr (b', Some y)"
  shows "x = y"
proof (cases "con_consensus_protocol a")
  case CommonCoin
  have same: "con_consensus_protocol b = CommonCoin" using assms(2) CommonCoin by (simp add: peers_def)
  obtain certs where "threshold_coin_from_certificates lib a cr certs = (a', Some x)"
    using assms(3) CommonCoin by (auto simp: coin_value_def con_threshold_coin_value_def split: option.splits)
  from threshold_coin_peers(2) [OF assms(2) this refl] obtain s where
    s: "con_threshold_coin a = Some s" "valid_coin lib (tc_key_set s) cr x" by blast
  obtain certs' where "threshold_coin_from_certificates lib b cr certs' = (b', Some y)"
    using assms(4) same by (auto simp: coin_value_def con_threshold_coin_value_def split: option.splits)
  from threshold_coin_peers(2) [OF peers_sym [OF assms(2)] this refl] obtain t where
    t: "con_threshold_coin b = Some t" "valid_coin lib (tc_key_set t) cr y" by blast
  have "tc_key_set s = tc_key_set t"
    using assms(2) s(1) t(1) by (simp add: peers_def coin_peers_def)
  then show ?thesis using s(2) t(2) assms(1) by (auto simp: valid_coin_def bls_unique_def)
qed (use assms in \<open>auto simp: coin_value_def peers_def round_robin_coin_def pseudo_random_coin_def\<close>)

section \<open>Properties\<close>

text \<open>
  C11. Leader agreement.  Two nodes started for the same committee with the same protocol
  settings, which then hold any elections over any DAGs of their own, elect the same
  authority whenever both elect one for the same leader round, coin round and offset.
\<close>

theorem leader_agreement:
  assumes "bls_unique lib"
    and "spawn_with_protocol lib n1 c gc dp cp = Inr a" and "spawn_with_protocol lib n2 c gc dp cp = Inr b"
    and "elect_all lib a xs = Inr a1" and "elect_all lib b ys = Inr b1"
    and "leader_authority lib a1 lr cr off d = Inr (a2, Some x)"
    and "leader_authority lib b1 lr cr off d' = Inr (b2, Some y)"
  shows "x = y"
proof -
  have "peers lib a1 b" by (rule elect_all_peers [OF spawn_peers [OF assms(2,3)] assms(4)])
  then have p: "peers lib a1 b1"
    using elect_all_peers [OF peers_sym assms(5)] peers_sym by blast
  obtain v where v: "coin_value lib a1 lr cr d = Inr (a2, Some v)"
    "cc_leader (con_coin_committee a1) v off = Inr x"
    using assms(6) by (auto simp: leader_authority_def with_leader_def split: option.splits)
  obtain w where w: "coin_value lib b1 lr cr d' = Inr (b2, Some w)"
    "cc_leader (con_coin_committee b1) w off = Inr y"
    using assms(7) by (auto simp: leader_authority_def with_leader_def split: option.splits)
  from coin_value_agree [OF assms(1) p v(1) w(1)] v(2) w(2) p show ?thesis
    by (simp add: peers_def)
qed

lemma demo_coin_committee [simp]: "coin_committee_new demo_keys = Inr \<lparr>cc_authorities = demo_keys\<rparr>"
  by (simp add: coin_committee_new_def demo_keys_def sort_key_def)

definition demo_consensus :: "DagProtocol \<Rightarrow> ConsensusProtocol \<Rightarrow> PublicKey \<Rightarrow> Consensus" where
  "demo_consensus dp cp name = \<lparr>con_committee = demo_committee, con_gc_depth = 50, con_dag_protocol = dp,
     con_consensus_protocol = cp, con_name = name, con_coin_committee = \<lparr>cc_authorities = demo_keys\<rparr>,
     con_threshold_coin = (if cp = CommonCoin \<and> dp \<noteq> Wahoo \<and> \<not> is_mahi_mahi dp then Some demo_coin else None),
     con_genesis = genesis demo_committee\<rparr>"

lemma demo_spawn:
  "\<not> is_mahi_mahi dp \<or> cp \<noteq> CommonCoin \<Longrightarrow>
     spawn_with_protocol demo_lib name demo_committee 50 dp cp = Inr (demo_consensus dp cp name)"
proof -
  have "committee_size demo_committee = 4"
    by (simp add: committee_size_def demo_committee_def demo_keys_def)
  then have "coin_threshold (committee_size demo_committee) = 1" by (simp add: coin_threshold_def)
  moreover assume "\<not> is_mahi_mahi dp \<or> cp \<noteq> CommonCoin"
  ultimately show ?thesis
    by (auto simp: spawn_with_protocol_def demo_consensus_def demo_coin_from_committee [simplified] Let_def)
qed

text \<open>A round of certificates that carry their coin shares.\<close>

definition demo_round :: "Round \<Rightarrow> PublicKey list \<Rightarrow> RoundDag" where
  "demo_round r ks = map (\<lambda>k. (k, (Digest (key_word k),
     \<lparr>header = default_header\<lparr>h_author := k, h_round := r, h_coin_share := coin_message r\<rparr>, votes = []\<rparr>))) ks"

lemma demo_election:
  assumes "ks = [PublicKey 1, PublicKey 2, PublicKey 3] \<or> ks = [PublicKey 4, PublicKey 2, PublicKey 3]"
  shows "\<exists>a x. leader_authority demo_lib (demo_consensus Bullshark CommonCoin n) 4 4 0 [(4, demo_round 4 ks)]
           = Inr (a, Some x)"
proof -
  have ne: "coin_message 4 \<noteq> []" by (simp add: coin_message_def bstr_def)
  have shares: "carried_shares (round_certificates (demo_round 4 ks)) = map (\<lambda>k. (k, coin_message 4)) ks"
    using ne by (induction ks)
      (simp_all add: carried_shares_def round_certificates_def demo_round_def cert_origin_def map_filter_simps)
  have "snd (recover demo_lib demo_coin 4 (map (\<lambda>k. (k, coin_message 4)) ks))
      = Some (coin_of_signature demo_lib (coin_message 4))"
    using assms by (auto simp: recover_def demo_coin_def demo_keys_def verify_share_def check_share_def
      contains_key_def retain_recent_def CACHE_ROUNDS_def Let_def)
  moreover have "(3 :: u32) \<le> sum_list (map (stake demo_committee)
      (remdups (map cert_origin (round_certificates (demo_round 4 ks)))))"
    using assms
    by (auto simp: round_certificates_def demo_round_def cert_origin_def demo_keys_def)
  ultimately show ?thesis
    by (auto simp: leader_authority_def coin_value_def demo_consensus_def is_mahi_mahi_def
        con_threshold_coin_value_def threshold_coin_from_certificates_def shares with_leader_def
        cc_leader_def demo_keys_def Let_def case_prod_beta')
qed

theorem leader_agreement_witness:
  "\<exists>a b x. leader_authority demo_lib (demo_consensus Bullshark CommonCoin (PublicKey 1)) 4 4 0
            [(4, demo_round 4 [PublicKey 1, PublicKey 2, PublicKey 3])] = Inr (a, Some x) \<and>
         leader_authority demo_lib (demo_consensus Bullshark CommonCoin (PublicKey 2)) 4 4 0
            [(4, demo_round 4 [PublicKey 4, PublicKey 2, PublicKey 3])] = Inr (b, Some x)"
proof -
  obtain a x where a: "leader_authority demo_lib (demo_consensus Bullshark CommonCoin (PublicKey 1)) 4 4 0
      [(4, demo_round 4 [PublicKey 1, PublicKey 2, PublicKey 3])] = Inr (a, Some x)"
    using demo_election by blast
  obtain b y where b: "leader_authority demo_lib (demo_consensus Bullshark CommonCoin (PublicKey 2)) 4 4 0
      [(4, demo_round 4 [PublicKey 4, PublicKey 2, PublicKey 3])] = Inr (b, Some y)"
    using demo_election by blast
  have spawn: "spawn_with_protocol demo_lib n demo_committee 50 Bullshark CommonCoin
      = Inr (demo_consensus Bullshark CommonCoin n)" for n
    by (rule demo_spawn) (simp add: is_mahi_mahi_def)
  from leader_agreement [where xs = "[]" and ys = "[]", OF demo_lib_bls(2) spawn spawn _ _ a b] have "x = y" by simp
  with a b show ?thesis by blast
qed

text \<open>
  Garbage collection.  \<^verbatim>\<open>State::update\<close> raises the last committed round of the
  certificate's author and no other, recomputes the highest committed round, and keeps
  of the DAG exactly the certificates that are within \<open>gc_depth\<close> of that round and not
  older than the last committed round of their author, whatever the order in which the
  maps are iterated.
\<close>

theorem state_update_retains:
  fixes cert :: Certificate and gc :: Round
  assumes "wf_state lib s"
  defines "s' \<equiv> state_update cert gc s"
  shows "wf_state lib s' \<and>
    committed_of s' = (committed_of s)(cert_origin cert \<mapsto>
       (case committed_of s (cert_origin cert) of None \<Rightarrow> cert_round cert | Some r \<Rightarrow> max r (cert_round cert))) \<and>
    last_committed_round s' = Max (ran (committed_of s')) \<and>
    (\<forall>r a. dag_at (dag s') r a =
       (if last_committed_round s' \<le> u64_add r gc \<and> (\<forall>k. committed_of s' a = Some k \<longrightarrow> k \<le> r)
        then dag_at (dag s) r a else None))"
  unfolding s'_def
  using wf_state_update [OF assms(1)] state_update_fields(1,2) [OF assms(1)] state_update_dag(2) [OF assms(1)]
  by (intro conjI allI) (assumption | rule)+

theorem state_update_retains_witness:
  "wf_state demo_lib (state_update (demo_cert (demo_header (PublicKey 1) 1 []) []) 50
     (state_new demo_lib (genesis demo_committee)))"
  using state_update_retains [OF wf_state_new] by blast

end
