(* ===== verification/Certified_Dag.thy ===== *)
theory Certified_Dag
  imports ConsensusState
begin

text \<open>
  What the certified protocols Narwhal and Bullshark share (\<^verbatim>\<open>consensus/src/narwhal.rs\<close>,
  \<^verbatim>\<open>consensus/src/bullshark.rs\<close>): the search for linked past leaders, the flattening of a
  leader's history, and the commit loop.  The two modules repeat this code; here it is
  written once, with the election and the flattening of each module as arguments.  The
  interface \<open>history_order\<close> states what the commit loop needs of a flattening.
\<close>

definition expect :: "string \<Rightarrow> 'a option \<Rightarrow> 'a outcome" where
  "expect msg x = (case x of None \<Rightarrow> Inl (ExpectFailed msg) | Some v \<Rightarrow> Inr v)"

lemma expect_Inr [simp]: "expect msg x = Inr v \<longleftrightarrow> x = Some v"
  by (simp add: expect_def split: option.split)

section \<open>Linked leaders\<close>

definition next_layer :: "Certificate list \<Rightarrow> RoundDag \<Rightarrow> Certificate list" where
  "next_layer parents m =
     map snd (filter (\<lambda>(digest, _). list_ex (\<lambda>x. digest \<in> set (h_parents (header x))) parents) (values_of m))"

fun linked_layers :: "Dag \<Rightarrow> Certificate list \<Rightarrow> Round list \<Rightarrow> Certificate list outcome" where
  "linked_layers d parents [] = Inr parents"
| "linked_layers d parents (r # rs) =
     rbind (expect ''We should have the whole history by now'' (map_of d r))
       (\<lambda>m. linked_layers d (next_layer parents m) rs)"

definition linked :: "Certificate \<Rightarrow> Certificate \<Rightarrow> Dag \<Rightarrow> bool outcome" where
  "linked leader prev_leader d =
     rbind (linked_layers d [leader] (rev [cert_round prev_leader..<cert_round leader]))
       (\<lambda>parents. Inr (list_ex (\<lambda>x. cert_eq x prev_leader) parents))"

text \<open>\<^verbatim>\<open>(lo..=hi).rev().step_by(2)\<close>\<close>

definition rounds_down :: "Round \<Rightarrow> Round \<Rightarrow> Round list" where
  "rounds_down lo hi = rev (filter (\<lambda>r. even (hi - r)) [lo..<hi + 1])"

type_synonym election = "Consensus \<Rightarrow> Round \<Rightarrow> Dag \<Rightarrow> (Consensus \<times> (Digest \<times> Certificate) option) outcome"

fun order_leaders_loop ::
    "election \<Rightarrow> Dag \<Rightarrow> Consensus \<Rightarrow> Certificate \<Rightarrow> Certificate list \<Rightarrow> Round list
     \<Rightarrow> (Consensus \<times> Certificate list) outcome" where
  "order_leaders_loop elect d con current to_commit [] = Inr (con, to_commit)"
| "order_leaders_loop elect d con current to_commit (r # rs) =
     rbind (elect con r d) (\<lambda>(con', l).
       case l of
         None \<Rightarrow> order_leaders_loop elect d con' current to_commit rs
       | Some (_, prev_leader) \<Rightarrow>
           rbind (linked current prev_leader d) (\<lambda>b.
             if b then order_leaders_loop elect d con' prev_leader (to_commit @ [prev_leader]) rs
             else order_leaders_loop elect d con' current to_commit rs))"

definition order_leaders ::
    "election \<Rightarrow> Consensus \<Rightarrow> Certificate \<Rightarrow> State \<Rightarrow> (Consensus \<times> Certificate list) outcome" where
  "order_leaders elect con leader s =
     order_leaders_loop elect (dag s) con leader [leader]
       (rounds_down (u64_add (last_committed_round s) 2) (u64_sub (cert_round leader) 2))"

section \<open>Flattening a history\<close>

definition find_parent :: "Dag \<Rightarrow> Certificate \<Rightarrow> Digest \<Rightarrow> (Digest \<times> Certificate) option" where
  "find_parent d x parent =
     (case map_of d (u64_sub (cert_round x) 1) of
        None \<Rightarrow> None
      | Some m \<Rightarrow> List.find (\<lambda>(digest, _). digest = parent) (values_of m))"

text \<open>The comparison of the code is \<^verbatim>\<open>==\<close>, not \<^verbatim>\<open>>=\<close>.\<close>

definition just_committed :: "State \<Rightarrow> Certificate \<Rightarrow> bool" where
  "just_committed s cert =
     (case map_of (last_committed s) (cert_origin cert) of None \<Rightarrow> False | Some r \<Rightarrow> r = cert_round cert)"

text \<open>The stack \<^verbatim>\<open>buffer\<close> is a list whose head is the top.\<close>

fun push_parents ::
    "State \<Rightarrow> Certificate \<Rightarrow> Digest list \<Rightarrow> Certificate list \<times> Digest list
     \<Rightarrow> Certificate list \<times> Digest list" where
  "push_parents s x [] ba = ba"
| "push_parents s x (parent # parents) (buffer, already_ordered) =
     (case find_parent (dag s) x parent of
        None \<Rightarrow> push_parents s x parents (buffer, already_ordered)
      | Some (digest, certificate) \<Rightarrow>
          if digest \<in> set already_ordered \<or> just_committed s certificate
          then push_parents s x parents (buffer, already_ordered)
          else push_parents s x parents (certificate # buffer, List.insert digest already_ordered))"

definition dag_digests :: "Dag \<Rightarrow> Digest set" where
  "dag_digests d = (\<Union>(r, m) \<in> set d. fst ` set (values_of m))"

lemma finite_dag_digests [simp]: "finite (dag_digests d)"
  by (auto simp: dag_digests_def)

lemma find_SomeD: "List.find P xs = Some x \<Longrightarrow> x \<in> set xs \<and> P x"
  by (induction xs) (auto split: if_splits)

lemma find_parent_Some:
  assumes "find_parent d x p = Some (dg, c)"
  shows "dg = p" and "\<exists>m. map_of d (u64_sub (cert_round x) 1) = Some m \<and> (dg, c) \<in> set (values_of m)"
    and "dg \<in> dag_digests d"
proof -
  from assms obtain m where m: "map_of d (u64_sub (cert_round x) 1) = Some m"
    "List.find (\<lambda>(digest, _). digest = p) (values_of m) = Some (dg, c)"
    by (auto simp: find_parent_def split: option.splits)
  from find_SomeD [OF m(2)] have "(dg, c) \<in> set (values_of m)" and "dg = p" by auto
  with m(1) show "dg = p" and "\<exists>m. map_of d (u64_sub (cert_round x) 1) = Some m \<and> (dg, c) \<in> set (values_of m)"
    and "dg \<in> dag_digests d"
    by (auto simp: dag_digests_def dest!: map_of_SomeD intro!: bexI rev_image_eqI)
qed

lemma push_parents_measure:
  assumes "push_parents s x ps (b, a) = (b', a')"
  shows "card (dag_digests (dag s) - set a') < card (dag_digests (dag s) - set a) \<or> (b' = b \<and> a' = a)"
  using assms
proof (induction s x ps "(b, a)" arbitrary: b a rule: push_parents.induct)
  case (2 s x p ps b a)
  show ?case
  proof (cases "\<exists>dg c. find_parent (dag s) x p = Some (dg, c) \<and> \<not> (dg \<in> set a \<or> just_committed s c)")
    case True
    then obtain dg c where f: "find_parent (dag s) x p = Some (dg, c)" "dg \<notin> set a" "\<not> just_committed s c"
      by auto
    let ?a = "List.insert dg a"
    have "card (dag_digests (dag s) - set ?a) < card (dag_digests (dag s) - set a)"
      using find_parent_Some(3) [OF f(1)] f(2) by (intro psubset_card_mono) auto
    moreover have "push_parents s x ps (c # b, ?a) = (b', a')" using "2.prems" f by simp
    ultimately show ?thesis using "2.hyps"(3) [OF f(1) refl] f(2,3) by force
  next
    case False
    then show ?thesis using 2 by (force split: option.splits)
  qed
qed simp

function flatten_dag ::
    "State \<Rightarrow> Certificate list \<Rightarrow> Digest list \<Rightarrow> Certificate list \<Rightarrow> Certificate list" where
  "flatten_dag s ordered already_ordered [] = ordered"
| "flatten_dag s ordered already_ordered (x # buffer) =
     (let (b, a) = push_parents s x (h_parents (header x)) (buffer, already_ordered)
      in flatten_dag s (ordered @ [x]) a b)"
  by pat_completeness auto
termination
proof (relation "(\<lambda>(s, _, a, _). card (dag_digests (dag s) - set a)) <*mlex*>
    measure (\<lambda>(_, _, _, b). length b)")
  show "wf ((\<lambda>(s, _, a, _). card (dag_digests (dag s) - set a)) <*mlex*> measure (\<lambda>(_, _, _, b). length b))"
    by (simp add: wf_mlex)
next
  fix s ordered already_ordered x buffer p b a
  assume "p = push_parents s x (h_parents (header x)) (buffer, already_ordered)" and "(b, a) = p"
  from push_parents_measure [of s x "h_parents (header x)" buffer already_ordered b a] this
  show "((s, ordered @ [x], a, b), (s, ordered, already_ordered, x # buffer))
      \<in> (\<lambda>(s, _, a, _). card (dag_digests (dag s) - set a)) <*mlex*> measure (\<lambda>(_, _, _, b). length b)"
    by (auto simp: mlex_iff)
qed

declare flatten_dag.simps [simp del]

section \<open>The commit loop\<close>

fun commit_all :: "Round \<Rightarrow> Certificate list \<Rightarrow> State \<Rightarrow> State" where
  "commit_all gc [] s = s"
| "commit_all gc (x # xs) s = commit_all gc xs (state_update x gc s)"

fun commit_leaders ::
    "(State \<Rightarrow> Certificate \<Rightarrow> Certificate list) \<Rightarrow> Round \<Rightarrow> Certificate list \<Rightarrow> State
     \<Rightarrow> State \<times> Certificate list" where
  "commit_leaders order_dag gc [] s = (s, [])"
| "commit_leaders order_dag gc (leader # leaders) s =
     (let xs = order_dag s leader;
          (s', sequence) = commit_leaders order_dag gc leaders (commit_all gc xs s)
      in (s', xs @ sequence))"

definition support_stake :: "Committee \<Rightarrow> Digest \<Rightarrow> RoundDag \<Rightarrow> Stake" where
  "support_stake c leader_digest m =
     sum_list (map (\<lambda>(_, x). stake c (cert_origin x))
       (filter (\<lambda>(_, x). leader_digest \<in> set (h_parents (header x))) (values_of m)))"

section \<open>What flattening produces\<close>

definition cert_key :: "Certificate \<Rightarrow> Round \<times> PublicKey" where
  "cert_key c = (cert_round c, cert_origin c)"

text \<open>Rounds stay away from the \<^verbatim>\<open>u64\<close> maximum, so that round arithmetic does not wrap.\<close>

definition rounds_fit :: "Dag \<Rightarrow> bool" where
  "rounds_fit d \<longleftrightarrow> (\<forall>r a. dag_at d r a \<noteq> None \<longrightarrow> r + 2 < 2 ^ 64)"

definition in_history :: "State \<Rightarrow> Certificate \<Rightarrow> Digest list \<Rightarrow> Certificate \<Rightarrow> bool" where
  "in_history s leader already c \<longleftrightarrow>
     (\<exists>dg \<in> set already. dag_at (dag s) (cert_round c) (cert_origin c) = Some (dg, c)) \<and>
     \<not> just_committed s c \<and> cert_round c < cert_round leader"

definition flat_inv :: "State \<Rightarrow> Certificate \<Rightarrow> Digest list \<Rightarrow> Certificate list \<Rightarrow> bool" where
  "flat_inv s leader already cs \<longleftrightarrow> distinct (map cert_key cs) \<and> leader \<in> set cs \<and>
     (\<forall>c \<in> set cs. c = leader \<or> in_history s leader already c)"

lemma find_parent_dag_at:
  assumes "wf_dag lib d" and "rounds_fit d" and "find_parent d x p = Some (dg, c)"
  shows "dag_at d (cert_round c) (cert_origin c) = Some (dg, c) \<and> Suc (cert_round c) = cert_round x"
proof -
  obtain m where m: "map_of d (u64_sub (cert_round x) 1) = Some m" "(dg, c) \<in> set (values_of m)"
    using find_parent_Some(2) [OF assms(3)] by blast
  then obtain a where a: "(a, (dg, c)) \<in> set m" by auto
  note wf = wf_dagD [OF assms(1) m(1)]
  have c: "cert_round c = u64_sub (cert_round x) 1" "cert_origin c = a" using wf_roundD [OF wf a] by auto
  have "map_of m a = Some (dg, c)" using a wf by simp
  then have at: "dag_at d (u64_sub (cert_round x) 1) a = Some (dg, c)" using m(1) by (simp add: dag_at_Some)
  then have "u64_sub (cert_round x) 1 + 2 < 2 ^ 64" using assms(2) unfolding rounds_fit_def by blast
  then have "cert_round x \<noteq> 0" by (cases "cert_round x = 0") (simp_all add: u64_sub_def)
  then show ?thesis using c at by simp
qed

lemma in_history_mono: "in_history s l a c \<Longrightarrow> set a \<subseteq> set a' \<Longrightarrow> in_history s l a' c"
  by (auto simp: in_history_def)

lemma flat_inv_push:
  assumes "wf_dag lib (dag s)" and "rounds_fit (dag s)" and "flat_inv s l a (cs @ b)" and "x \<in> set (cs @ b)"
    and "find_parent (dag s) x p = Some (dg, c)" and "dg \<notin> set a" and "\<not> just_committed s c"
  shows "flat_inv s l (List.insert dg a) (cs @ c # b)"
proof -
  note c = find_parent_dag_at [OF assms(1,2,5)]
  have x: "cert_round x \<le> cert_round l" using assms(3,4) by (auto simp: flat_inv_def in_history_def)
  have hist: "in_history s l (List.insert dg a) c"
    using c x assms(7) by (auto simp: in_history_def)
  have "cert_key c \<noteq> cert_key c'" if "c' \<in> set (cs @ b)" for c'
  proof
    assume eq: "cert_key c = cert_key c'"
    with hist have "c' \<noteq> l" by (auto simp: cert_key_def in_history_def)
    with that assms(3) have "in_history s l a c'" unfolding flat_inv_def by blast
    then obtain dg' where "dg' \<in> set a" and c': "dag_at (dag s) (cert_round c') (cert_origin c') = Some (dg', c')"
      unfolding in_history_def by blast
    moreover have "dag_at (dag s) (cert_round c') (cert_origin c') = Some (dg, c)"
      using eq c by (simp add: cert_key_def)
    ultimately show False using assms(6) by simp
  qed
  then have "cert_key c \<notin> cert_key ` set (cs @ b)" by blast
  moreover have "in_history s l (List.insert dg a) c'" if "in_history s l a c'" for c'
    using that by (rule in_history_mono) auto
  ultimately show ?thesis
    using assms(3) hist by (auto simp: flat_inv_def)
qed

lemma push_parents_inv:
  assumes "wf_dag lib (dag s)" and "rounds_fit (dag s)" and "flat_inv s l a (cs @ b)" and "x \<in> set (cs @ b)"
    and "push_parents s x ps (b, a) = (b', a')"
  shows "flat_inv s l a' (cs @ b')"
  using assms
proof (induction s x ps "(b, a)" arbitrary: b a rule: push_parents.induct)
  case (2 s x p ps b a)
  show ?case
  proof (cases "find_parent (dag s) x p")
    case None
    with 2 show ?thesis by simp
  next
    case (Some q)
    then obtain dg c where f: "find_parent (dag s) x p = Some (dg, c)" by (cases q) auto
    show ?thesis
    proof (cases "dg \<in> set a \<or> just_committed s c")
      case True
      with 2 f show ?thesis by simp
    next
      case False
      then have "flat_inv s l (List.insert dg a) (cs @ c # b)"
        using flat_inv_push [OF "2.prems"(1-4) f] by simp
      with "2.hyps"(3) [OF f refl False] "2.prems" f False show ?thesis by simp
    qed
  qed
qed simp

lemma flatten_dag_inv:
  assumes "wf_dag lib (dag s)" and "rounds_fit (dag s)" and "flat_inv s l a (cs @ b)"
  shows "\<exists>a'. flat_inv s l a' (flatten_dag s cs a b)"
  using assms
proof (induction s cs a b rule: flatten_dag.induct)
  case (2 s cs a x b)
  obtain b' a' where p: "push_parents s x (h_parents (header x)) (b, a) = (b', a')" by fastforce
  have "flat_inv s l a ((cs @ [x]) @ b)" using "2.prems"(3) by simp
  from push_parents_inv [OF "2.prems"(1,2) this _ p] have "flat_inv s l a' ((cs @ [x]) @ b')" by simp
  from "2.IH" [OF p [symmetric] refl "2.prems"(1,2) this] p show ?case by (simp add: flatten_dag.simps)
qed (auto simp: flatten_dag.simps)

lemma flatten_dag_history:
  assumes "wf_dag lib (dag s)" and "rounds_fit (dag s)"
  obtains a where "flat_inv s leader a (flatten_dag s [] [] [leader])"
  using flatten_dag_inv [OF assms, of leader "[]" "[]" "[leader]"] by (auto simp: flat_inv_def)

text \<open>
  The edges that flattening follows, and the absence of digest collisions in the DAG
  (collision resistance of the hash).
\<close>

definition child :: "State \<Rightarrow> Certificate \<Rightarrow> Certificate \<Rightarrow> bool" where
  "child s x y \<longleftrightarrow> \<not> just_committed s y \<and>
     (\<exists>p \<in> set (h_parents (header x)). \<exists>dg. find_parent (dag s) x p = Some (dg, y))"

definition digests_unique :: "Dag \<Rightarrow> bool" where
  "digests_unique d \<longleftrightarrow>
     (\<forall>r a r' a' dg c c'. dag_at d r a = Some (dg, c) \<longrightarrow> dag_at d r' a' = Some (dg, c') \<longrightarrow> c = c')"

lemma push_parents_sound:
  assumes "push_parents s x ps (b, a) = (b', a')" and "set ps \<subseteq> set (h_parents (header x))"
  shows "set b \<subseteq> set b' \<and> (\<forall>y \<in> set b'. y \<in> set b \<or> child s x y)"
  using assms
proof (induction ps arbitrary: b a)
  case (Cons p ps)
  show ?case
  proof (cases "\<exists>dg c. find_parent (dag s) x p = Some (dg, c) \<and> \<not> (dg \<in> set a \<or> just_committed s c)")
    case True
    then obtain dg c where f: "find_parent (dag s) x p = Some (dg, c)" "\<not> (dg \<in> set a \<or> just_committed s c)"
      by auto
    then have "child s x c" using Cons.prems(2) by (auto simp: child_def)
    with Cons.IH [of "c # b" "List.insert dg a"] Cons.prems f show ?thesis by auto
  next
    case False
    then have "push_parents s x (p # ps) (b, a) = push_parents s x ps (b, a)"
      by (auto split: option.split)
    with Cons show ?thesis by simp
  qed
qed simp

lemma flatten_dag_sound:
  "y \<in> set (flatten_dag s cs a b) \<Longrightarrow> y \<in> set cs \<or> (\<exists>x \<in> set b. (child s)\<^sup>*\<^sup>* x y)"
proof (induction s cs a b rule: flatten_dag.induct)
  case (2 s cs a x b)
  obtain b' a' where p: "push_parents s x (h_parents (header x)) (b, a) = (b', a')" by fastforce
  from "2.IH" [OF p [symmetric] refl] "2.prems" p
  have "y \<in> set (cs @ [x]) \<or> (\<exists>z \<in> set b'. (child s)\<^sup>*\<^sup>* z y)" by (simp add: flatten_dag.simps)
  with push_parents_sound [OF p subset_refl] show ?case
    by (fastforce intro: converse_rtranclp_into_rtranclp)
qed (simp add: flatten_dag.simps)

definition seen_ok :: "State \<Rightarrow> Digest list \<Rightarrow> Certificate set \<Rightarrow> bool" where
  "seen_ok s a W \<longleftrightarrow> (\<forall>dg \<in> set a. \<forall>r k y. dag_at (dag s) r k = Some (dg, y) \<longrightarrow> y \<in> W)"

lemma push_parents_complete:
  assumes "wf_dag lib (dag s)" and "rounds_fit (dag s)" and "digests_unique (dag s)"
    and "seen_ok s a (W \<union> set b)" and "push_parents s x ps (b, a) = (b', a')"
  shows "seen_ok s a' (W \<union> set b') \<and> set b \<subseteq> set b' \<and>
         (\<forall>p \<in> set ps. \<forall>dg y. find_parent (dag s) x p = Some (dg, y) \<longrightarrow> \<not> just_committed s y \<longrightarrow> y \<in> W \<union> set b')"
  using assms
proof (induction s x ps "(b, a)" arbitrary: b a rule: push_parents.induct)
  case (2 s x p ps b a)
  show ?case
  proof (cases "find_parent (dag s) x p")
    case None
    with 2 show ?thesis by auto
  next
    case (Some q)
    then obtain dg c where f: "find_parent (dag s) x p = Some (dg, c)" by (cases q) auto
    note at = find_parent_dag_at [OF "2.prems"(1,2) f, THEN conjunct1]
    show ?thesis
    proof (cases "dg \<in> set a \<or> just_committed s c")
      case True
      have "c \<in> W \<union> set b \<or> just_committed s c"
        using True at "2.prems"(4) unfolding seen_ok_def by blast
      moreover have "push_parents s x ps (b, a) = (b', a')" using "2.prems"(5) f True by simp
      ultimately show ?thesis using "2.hyps"(2) [OF f refl True "2.prems"(1-4)] f by fastforce
    next
      case False
      have "seen_ok s (List.insert dg a) (W \<union> set (c # b))"
        using "2.prems"(3,4) at unfolding seen_ok_def digests_unique_def by fastforce
      moreover have "push_parents s x ps (c # b, List.insert dg a) = (b', a')"
        using "2.prems"(5) f False by simp
      ultimately show ?thesis using "2.hyps"(3) [OF f refl False "2.prems"(1-3)] f by fastforce
    qed
  qed
qed auto

lemma flatten_dag_closed:
  assumes "wf_dag lib (dag s)" and "rounds_fit (dag s)" and "digests_unique (dag s)"
    and "seen_ok s a (set cs \<union> set b)" and "\<forall>x \<in> set cs. \<forall>y. child s x y \<longrightarrow> y \<in> set cs \<union> set b"
  shows "set cs \<union> set b \<subseteq> set (flatten_dag s cs a b) \<and>
         (\<forall>x \<in> set (flatten_dag s cs a b). \<forall>y. child s x y \<longrightarrow> y \<in> set (flatten_dag s cs a b))"
  using assms
proof (induction s cs a b rule: flatten_dag.induct)
  case (2 s cs a x b)
  obtain b' a' where p: "push_parents s x (h_parents (header x)) (b, a) = (b', a')" by fastforce
  have "seen_ok s a (set (cs @ [x]) \<union> set b)" using "2.prems"(4) by (simp add: insert_commute)
  note pc = push_parents_complete [OF "2.prems"(1-3) this p]
  have "\<forall>z \<in> set (cs @ [x]). \<forall>y. child s z y \<longrightarrow> y \<in> set (cs @ [x]) \<union> set b'"
    using "2.prems"(5) pc by (fastforce simp: child_def)
  from "2.IH" [OF p [symmetric] refl "2.prems"(1-3) _ this] pc p show ?case
    by (auto simp: flatten_dag.simps)
qed (simp add: flatten_dag.simps)

lemma flatten_dag_reachable:
  assumes "wf_dag lib (dag s)" and "rounds_fit (dag s)" and "digests_unique (dag s)"
  shows "set (flatten_dag s [] [] [leader]) = {y. (child s)\<^sup>*\<^sup>* leader y}"
proof
  show "set (flatten_dag s [] [] [leader]) \<subseteq> {y. (child s)\<^sup>*\<^sup>* leader y}"
    using flatten_dag_sound [of _ s "[]" "[]" "[leader]"] by auto
  have closed: "leader \<in> set (flatten_dag s [] [] [leader])"
    "\<And>x y. x \<in> set (flatten_dag s [] [] [leader]) \<Longrightarrow> child s x y \<Longrightarrow> y \<in> set (flatten_dag s [] [] [leader])"
    using flatten_dag_closed [OF assms, of "[]" "[]" "[leader]"] by (auto simp: seen_ok_def)
  have "y \<in> set (flatten_dag s [] [] [leader])" if "(child s)\<^sup>*\<^sup>* leader y" for y
    using that by (induction rule: rtranclp_induct) (use closed in auto)
  then show "{y. (child s)\<^sup>*\<^sup>* leader y} \<subseteq> set (flatten_dag s [] [] [leader])" by blast
qed

section \<open>Every certificate is committed once\<close>

definition dag_keys :: "Dag \<Rightarrow> (Round \<times> PublicKey) set" where
  "dag_keys d = {(r, a). dag_at d r a \<noteq> None}"

text \<open>
  \<open>K\<close> is the set of slots (round and author) committed so far.  Their rounds are covered by
  the last committed round of the author; a committed slot that is still in the DAG is the
  last one of its author, which is the one the comparison in \<^const>\<open>just_committed\<close> catches.
\<close>

definition commit_inv :: "CryptoLib \<Rightarrow> State \<Rightarrow> (Round \<times> PublicKey) set \<Rightarrow> bool" where
  "commit_inv lib s K \<longleftrightarrow> wf_state lib s \<and> rounds_fit (dag s) \<and> last_committed_round s + 2 < 2 ^ 64 \<and>
     (\<forall>(r, a) \<in> K. \<exists>k. committed_of s a = Some k \<and> r \<le> k) \<and>
     (\<forall>(r, a) \<in> K \<inter> dag_keys (dag s). committed_of s a = Some r)"

lemma commit_inv_round: "commit_inv lib s K \<Longrightarrow> (r, a) \<in> K \<Longrightarrow> r \<le> last_committed_round s"
  by (fastforce simp: commit_inv_def wf_state_def committed_of_def dest: map_of_SomeD)

lemma commit_inv_fresh:
  assumes "commit_inv lib s K" and "dag_at (dag s) (cert_round c) (cert_origin c) \<noteq> None" and "\<not> just_committed s c"
  shows "cert_key c \<notin> K"
  using assms by (force simp: commit_inv_def cert_key_def just_committed_def committed_of_def dag_keys_def)

lemma last_committed_round_update:
  assumes "wf_state lib s"
  shows "last_committed_round (state_update x gc s) \<le> max (last_committed_round s) (cert_round x)"
proof -
  note f = state_update_fields [OF assms, of x gc]
  have old: "r \<le> last_committed_round s" if "committed_of s a = Some r" for a r
    using that assms by (auto simp: wf_state_def committed_of_def dest!: map_of_SomeD)
  have "finite (ran (committed_of (state_update x gc s)))"
    unfolding committed_of_def by (intro finite_ran finite_dom_map_of)
  moreover have "ran (committed_of (state_update x gc s)) \<noteq> {}" by (simp add: f(1) ran_def) blast
  moreover have "r \<le> max (last_committed_round s) (cert_round x)"
    if "r \<in> ran (committed_of (state_update x gc s))" for r
    using that old by (fastforce simp: f(1) ran_def split: option.splits if_splits)
  ultimately show ?thesis unfolding f(2) by simp
qed

lemma commit_inv_update:
  assumes "commit_inv lib s K" and "cert_round x + 2 < 2 ^ 64"
  shows "commit_inv lib (state_update x gc s) (insert (cert_key x) K)"
    and "dag_keys (dag (state_update x gc s)) \<subseteq> dag_keys (dag s)"
proof -
  let ?s = "state_update x gc s"
  have wf: "wf_state lib s" using assms(1) by (simp add: commit_inv_def)
  note f = state_update_fields(1) [OF wf, of x gc]
  note d = state_update_dag(2) [OF wf, of x gc]
  show keys: "dag_keys (dag ?s) \<subseteq> dag_keys (dag s)"
    by (auto simp: dag_keys_def d split: if_splits)
  have cov: "\<exists>k. committed_of ?s a = Some k \<and> r \<le> k" if "(r, a) \<in> insert (cert_key x) K" for r a
    using that assms(1) by (fastforce simp: f cert_key_def commit_inv_def split: option.splits)
  moreover have "committed_of ?s a = Some r"
    if "(r, a) \<in> insert (cert_key x) K" and "(r, a) \<in> dag_keys (dag ?s)" for r a
    using cov [OF that(1)] that(2) by (auto simp: dag_keys_def d split: if_splits)
  moreover have "rounds_fit (dag ?s)"
    using assms(1) by (auto simp: commit_inv_def rounds_fit_def d split: if_splits)
  ultimately show "commit_inv lib ?s (insert (cert_key x) K)"
    using wf_state_update [OF wf] last_committed_round_update [OF wf, of x gc] assms
    by (auto simp: commit_inv_def)
qed

lemma commit_inv_all:
  assumes "commit_inv lib s K" and "\<forall>x \<in> set xs. cert_round x + 2 < 2 ^ 64"
  shows "commit_inv lib (commit_all gc xs s) (K \<union> cert_key ` set xs) \<and>
         dag_keys (dag (commit_all gc xs s)) \<subseteq> dag_keys (dag s) \<and>
         last_committed_round (commit_all gc xs s) \<le> Max (insert (last_committed_round s) (cert_round ` set xs))"
  using assms
proof (induction xs arbitrary: s K)
  case (Cons x xs)
  note u = commit_inv_update [OF Cons.prems(1), of x gc]
  have "last_committed_round (state_update x gc s) \<le> max (last_committed_round s) (cert_round x)"
    using Cons.prems(1) by (intro last_committed_round_update [of lib]) (simp add: commit_inv_def)
  with Cons.IH [OF u(1)] u(2) Cons.prems(2) show ?case
    by (cases "xs = []") (auto simp: max.coboundedI1 max.coboundedI2)
qed simp

lemma commit_inv_insert:
  assumes "commit_inv lib s K" and "cert_key x \<notin> K" and "cert_round x + 2 < 2 ^ 64"
  shows "commit_inv lib (s\<lparr>dag := dag_insert lib x (dag s)\<rparr>) K"
    and "dag_keys (dag_insert lib x (dag s)) = insert (cert_key x) (dag_keys (dag s))"
proof -
  show keys: "dag_keys (dag_insert lib x (dag s)) = insert (cert_key x) (dag_keys (dag s))"
    by (auto simp: dag_keys_def dag_at_insert cert_key_def split: if_splits)
  then have "K \<inter> dag_keys (dag_insert lib x (dag s)) = K \<inter> dag_keys (dag s)" using assms(2) by auto
  moreover have "rounds_fit (dag_insert lib x (dag s))"
    using assms(1,3) unfolding commit_inv_def rounds_fit_def dag_at_insert by (auto split: if_splits)
  moreover have "wf_state lib (s\<lparr>dag := dag_insert lib x (dag s)\<rparr>)"
    using assms(1) by (simp add: commit_inv_def wf_state_def wf_dag_insert)
  ultimately show "commit_inv lib (s\<lparr>dag := dag_insert lib x (dag s)\<rparr>) K"
    using assms(1) by (simp add: commit_inv_def committed_of_def)
qed

locale history_order =
  fixes order :: "Round \<Rightarrow> State \<Rightarrow> Certificate \<Rightarrow> Certificate list"
  assumes order_distinct: "wf_dag lib (dag s) \<Longrightarrow> rounds_fit (dag s) \<Longrightarrow> distinct (map cert_key (order gc s l))"
    and order_history: "wf_dag lib (dag s) \<Longrightarrow> rounds_fit (dag s) \<Longrightarrow> c \<in> set (order gc s l) \<Longrightarrow>
          c = l \<or> (cert_key c \<in> dag_keys (dag s) \<and> \<not> just_committed s c \<and> cert_round c < cert_round l)"
begin

lemma order_fresh:
  assumes "commit_inv lib s K" and "last_committed_round s < cert_round l" and "c \<in> set (order gc s l)"
  shows "cert_key c \<notin> K"
proof -
  have wf: "wf_dag lib (dag s)" "rounds_fit (dag s)" using assms(1) by (auto simp: commit_inv_def wf_state_def)
  from order_history [OF wf assms(3)] show ?thesis
  proof
    assume "c = l"
    then show ?thesis using commit_inv_round [OF assms(1)] assms(2) by (fastforce simp: cert_key_def)
  next
    assume "cert_key c \<in> dag_keys (dag s) \<and> \<not> just_committed s c \<and> cert_round c < cert_round l"
    then show ?thesis using commit_inv_fresh [OF assms(1), of c] by (simp add: dag_keys_def cert_key_def)
  qed
qed

lemma commit_leaders_once:
  assumes "commit_inv lib s K" and "sorted_wrt (\<lambda>a b. cert_round a < cert_round b) ls"
    and "\<forall>l \<in> set ls. last_committed_round s < cert_round l \<and> cert_round l + 2 < 2 ^ 64"
    and "commit_leaders (order gc) gc ls s = (s', out)"
  shows "commit_inv lib s' (K \<union> cert_key ` set out) \<and> distinct (map cert_key out) \<and>
         cert_key ` set out \<inter> K = {} \<and> cert_key ` set out \<subseteq> dag_keys (dag s) \<union> cert_key ` set ls \<and>
         dag_keys (dag s') \<subseteq> dag_keys (dag s)"
  using assms
proof (induction ls arbitrary: s K out)
  case (Cons l ls)
  let ?xs = "order gc s l" and ?s = "commit_all gc (order gc s l) s"
  have wf: "wf_dag lib (dag s)" "rounds_fit (dag s)"
    using Cons.prems(1) by (auto simp: commit_inv_def wf_state_def)
  obtain out2 where rest: "commit_leaders (order gc) gc ls ?s = (s', out2)" and out: "out = ?xs @ out2"
    using Cons.prems(4) by (auto simp: Let_def split: prod.splits)
  have hist: "c = l \<or> (cert_key c \<in> dag_keys (dag s) \<and> cert_round c < cert_round l)" if "c \<in> set ?xs" for c
    using order_history [OF wf that] by blast
  have rounds: "cert_round c \<le> cert_round l" if "c \<in> set ?xs" for c using hist [OF that] by auto
  then have "\<forall>x \<in> set ?xs. cert_round x + 2 < 2 ^ 64" using Cons.prems(3) by fastforce
  note all = commit_inv_all [OF Cons.prems(1) this, of gc]
  have "Max (insert (last_committed_round s) (cert_round ` set ?xs)) \<le> cert_round l"
    using rounds Cons.prems(3) by auto
  with all have "last_committed_round ?s \<le> cert_round l" by linarith
  then have "\<forall>l' \<in> set ls. last_committed_round ?s < cert_round l' \<and> cert_round l' + 2 < 2 ^ 64"
    using Cons.prems(2,3) by auto
  note IH = Cons.IH [OF all [THEN conjunct1] _ this rest]
  have sorted: "sorted_wrt (\<lambda>a b. cert_round a < cert_round b) ls" using Cons.prems(2) by simp
  have "cert_key ` set ?xs \<inter> K = {}"
    using order_fresh [OF Cons.prems(1)] Cons.prems(3) by auto
  moreover have "cert_key ` set ?xs \<subseteq> dag_keys (dag s) \<union> cert_key ` set (l # ls)"
    using hist by fastforce
  moreover have "distinct (map cert_key ?xs)" by (rule order_distinct [OF wf])
  ultimately show ?case
    using IH [OF sorted] all unfolding out by (auto simp: Un_assoc image_Un)
qed simp

end

text \<open>
  A protocol module that stores the received certificate and then commits a chain of
  leaders of the DAG, oldest first, all of them above the last committed round.
\<close>

locale certified_protocol = history_order order
  for order :: "Round \<Rightarrow> State \<Rightarrow> Certificate \<Rightarrow> Certificate list" +
  fixes step :: "CryptoLib \<Rightarrow> Consensus \<times> State \<Rightarrow> Certificate
      \<Rightarrow> ((Consensus \<times> State) \<times> Certificate list) outcome"
  assumes step_commits:
    "step lib (con, s) x = Inr ((con', s'), out) \<Longrightarrow>
     wf_state lib (s\<lparr>dag := dag_insert lib x (dag s)\<rparr>) \<Longrightarrow> rounds_fit (dag_insert lib x (dag s)) \<Longrightarrow>
     last_committed_round s + 2 < 2 ^ 64 \<Longrightarrow>
     \<exists>ls gc. sorted_wrt (\<lambda>a b. cert_round a < cert_round b) ls \<and>
        (\<forall>l \<in> set ls. last_committed_round s < cert_round l \<and> cert_key l \<in> dag_keys (dag_insert lib x (dag s))) \<and>
        commit_leaders (order gc) gc ls (s\<lparr>dag := dag_insert lib x (dag s)\<rparr>) = (s', out)"
begin

lemma step_once:
  assumes "step lib (con, s) x = Inr ((con', s'), out)" and "commit_inv lib s K" and "cert_key x \<notin> K"
    and "cert_round x + 2 < 2 ^ 64"
  shows "commit_inv lib s' (K \<union> cert_key ` set out) \<and> distinct (map cert_key out) \<and>
         cert_key ` set out \<inter> K = {} \<and> cert_key ` set out \<subseteq> insert (cert_key x) (dag_keys (dag s)) \<and>
         dag_keys (dag s') \<subseteq> insert (cert_key x) (dag_keys (dag s))"
proof -
  let ?s = "s\<lparr>dag := dag_insert lib x (dag s)\<rparr>"
  note ins = commit_inv_insert [OF assms(2-4)]
  have pre: "wf_state lib ?s" "rounds_fit (dag_insert lib x (dag s))" "last_committed_round s + 2 < 2 ^ 64"
    using ins(1) by (simp_all add: commit_inv_def)
  from step_commits [OF assms(1) pre] obtain ls gc where
    ls: "sorted_wrt (\<lambda>a b. cert_round a < cert_round b) ls"
    "\<forall>l \<in> set ls. last_committed_round s < cert_round l \<and> cert_key l \<in> dag_keys (dag_insert lib x (dag s))"
    and c: "commit_leaders (order gc) gc ls ?s = (s', out)" by blast
  have "cert_round l + 2 < 2 ^ 64" if "cert_key l \<in> dag_keys (dag_insert lib x (dag s))" for l
    using that pre(2) by (auto simp: rounds_fit_def dag_keys_def cert_key_def)
  then have "\<forall>l \<in> set ls. last_committed_round ?s < cert_round l \<and> cert_round l + 2 < 2 ^ 64"
    using ls(2) by simp
  note once = commit_leaders_once [OF ins(1) ls(1) this c]
  have "cert_key ` set ls \<subseteq> insert (cert_key x) (dag_keys (dag s))" using ls(2) ins(2) by blast
  moreover have "cert_key ` set out \<subseteq> insert (cert_key x) (dag_keys (dag s)) \<union> cert_key ` set ls"
    using once ins(2) by simp
  ultimately have "cert_key ` set out \<subseteq> insert (cert_key x) (dag_keys (dag s))" by blast
  moreover have "dag_keys (dag s') \<subseteq> insert (cert_key x) (dag_keys (dag s))" using once ins(2) by simp
  ultimately show ?thesis using once by simp
qed

lemma run_once:
  assumes "run_steps (step lib) (con, s) xs = Inr ((con', s'), out)" and "commit_inv lib s K"
    and "distinct (map cert_key xs)" and "cert_key ` set xs \<inter> (K \<union> dag_keys (dag s)) = {}"
    and "\<forall>x \<in> set xs. cert_round x + 2 < 2 ^ 64"
  shows "distinct (map cert_key out) \<and> cert_key ` set out \<inter> K = {} \<and>
         cert_key ` set out \<subseteq> cert_key ` set xs \<union> dag_keys (dag s)"
  using assms
proof (induction xs arbitrary: con s K out)
  case (Cons x xs)
  from Cons.prems(1) obtain con1 s1 out1 out2 where step: "step lib (con, s) x = Inr ((con1, s1), out1)"
    and run: "run_steps (step lib) (con1, s1) xs = Inr ((con', s'), out2)" and out: "out = out1 @ out2"
    by auto
  have "cert_key x \<notin> K" "cert_round x + 2 < 2 ^ 64" using Cons.prems(4,5) by auto
  note st = step_once [OF step Cons.prems(2) this]
  have new: "cert_key ` set xs \<inter> (insert (cert_key x) (K \<union> dag_keys (dag s))) = {}"
    using Cons.prems(3,4) by auto
  then have "cert_key ` set xs \<inter> ((K \<union> cert_key ` set out1) \<union> dag_keys (dag s1)) = {}"
    using st by blast
  from Cons.IH [OF run st [THEN conjunct1] _ this] Cons.prems(3,5) st show ?case
    unfolding out by auto
qed simp

end

lemma foldl_update_map_of:
  "map_of (foldl (\<lambda>m x. AList.update (f x) (g x) m) m xs) a =
     (case map_of (map (\<lambda>x. (f x, g x)) (rev xs)) a of None \<Rightarrow> map_of m a | Some v \<Rightarrow> Some v)"
  by (induction xs arbitrary: m) (auto simp: map_add_def split: option.splits)

lemma map_of_project: "map_of (map (\<lambda>(x, (_, y)). (x, f y)) m) a = map_option (\<lambda>v. f (snd v)) (map_of m a)"
  by (induction m) auto

lemma commit_inv_new:
  fixes lib c
  defines "s \<equiv> state_new lib (genesis c)"
  shows "commit_inv lib s (dag_keys (dag s))" and "dag_keys (dag s) = {0} \<times> members c"
proof -
  define g where "g = foldl (\<lambda>m x. AList.update (cert_origin x) (cert_digest lib x, x) m) [] (genesis c)"
  have at: "dag_at (dag s) r a = (if r = 0 then map_of g a else None)" for r a
    by (simp add: s_def state_new_def dag_at_def g_def [symmetric])
  have com: "committed_of s a = map_option (\<lambda>_. 0) (map_of g a)" for a
  proof -
    have "wf_dag lib (dag s)" using wf_state_new by (simp add: s_def wf_state_def)
    then have "cert_round (snd v) = 0" if "map_of g a = Some v" for v
      using dag_at_wf [of lib "dag s" 0 a "fst v" "snd v"] that at by simp
    moreover have "committed_of s a = map_option (\<lambda>v. cert_round (snd v)) (map_of g a)"
      by (simp add: s_def state_new_def committed_of_def g_def [symmetric] map_of_project)
    ultimately show ?thesis by (cases "map_of g a") auto
  qed
  have "last_committed_round s = 0" by (simp add: s_def state_new_def Let_def)
  moreover have "wf_state lib s" using wf_state_new by (simp add: s_def)
  ultimately show "commit_inv lib s (dag_keys (dag s))"
    using at com by (auto simp: commit_inv_def dag_keys_def rounds_fit_def split: if_splits)
  have "map_of g a \<noteq> None \<longleftrightarrow> a \<in> members c" for a
    unfolding g_def foldl_update_map_of
    by (auto simp: map_of_eq_None_iff genesis_def cert_origin_def members_def image_image
        split: option.split dest!: map_of_SomeD)
  then show "dag_keys (dag s) = {0} \<times> members c"
    by (auto simp: dag_keys_def at split: if_splits)
qed

section \<open>The chain of leaders\<close>

lemma con_leader_in_dag:
  assumes "con_leader lib con r cr d = Inr (con', Some (dg, l))"
  shows "\<exists>a. dag_at d r a = Some (dg, l)"
  using assms by (auto simp: con_leader_def dag_at_Some bind_eq_Some_conv split: option.splits)

lemma con_leader_key:
  assumes "wf_dag lib d" and "con_leader lib con r cr d = Inr (con', Some (dg, l))"
  shows "cert_round l = r" and "cert_key l \<in> dag_keys d" and "dg = cert_digest lib l"
proof -
  obtain a where at: "dag_at d r a = Some (dg, l)" using con_leader_in_dag [OF assms(2)] by blast
  from dag_at_wf [OF assms(1) at] at show "cert_round l = r" "cert_key l \<in> dag_keys d" "dg = cert_digest lib l"
    by (auto simp: dag_keys_def cert_key_def)
qed

lemma flatten_history_order:
  assumes "wf_dag lib (dag s)" and "rounds_fit (dag s)"
  shows "distinct (map cert_key (filter P (flatten_dag s [] [] [l])))"
    and "c \<in> set (flatten_dag s [] [] [l]) \<Longrightarrow>
      c = l \<or> (cert_key c \<in> dag_keys (dag s) \<and> \<not> just_committed s c \<and> cert_round c < cert_round l)"
proof -
  obtain a where f: "flat_inv s l a (flatten_dag s [] [] [l])"
    using flatten_dag_history [OF assms] .
  then show "distinct (map cert_key (filter P (flatten_dag s [] [] [l])))"
    by (simp add: flat_inv_def distinct_map_filter)
  show "c = l \<or> (cert_key c \<in> dag_keys (dag s) \<and> \<not> just_committed s c \<and> cert_round c < cert_round l)"
    if "c \<in> set (flatten_dag s [] [] [l])"
    using f that by (auto simp: flat_inv_def in_history_def dag_keys_def cert_key_def)
qed

text \<open>An election that returns certificates of the requested round of the DAG.\<close>

definition elects_from :: "Dag \<Rightarrow> election \<Rightarrow> bool" where
  "elects_from d elect \<longleftrightarrow> (\<forall>con r con' dg l. elect con r d = Inr (con', Some (dg, l)) \<longrightarrow>
     cert_round l = r \<and> cert_key l \<in> dag_keys d)"

lemma order_leaders_loop_chain:
  assumes "elects_from d elect" and "order_leaders_loop elect d con current tc rs = Inr (con', ls)"
    and "sorted_wrt (>) rs" and "\<forall>r \<in> set rs. \<forall>l \<in> set tc. r < cert_round l"
    and "sorted_wrt (\<lambda>a b. cert_round a > cert_round b) tc"
  shows "sorted_wrt (\<lambda>a b. cert_round a > cert_round b) ls \<and>
         (\<forall>l \<in> set ls. l \<in> set tc \<or> (cert_round l \<in> set rs \<and> cert_key l \<in> dag_keys d))"
  using assms
proof (induction rs arbitrary: con current tc)
  case (Cons r rs)
  from Cons.prems(2) obtain con1 l where el: "elect con r d = Inr (con1, l)" by auto
  have tc: "\<forall>r \<in> set rs. \<forall>l \<in> set tc. r < cert_round l" "sorted_wrt (>) rs" using Cons.prems(3,4) by auto
  show ?case
  proof (cases "\<exists>dg p. l = Some (dg, p) \<and> linked current p d = Inr True")
    case True
    then obtain dg p where l: "l = Some (dg, p)" "linked current p d = Inr True" by blast
    have p: "cert_round p = r" "cert_key p \<in> dag_keys d"
      using Cons.prems(1) el l(1) unfolding elects_from_def by blast+
    have "order_leaders_loop elect d con1 p (tc @ [p]) rs = Inr (con', ls)"
      using Cons.prems(2) el l by simp
    from Cons.IH [OF Cons.prems(1) this tc(2)] tc(1) Cons.prems(3-5) p show ?thesis
      by (auto simp: sorted_wrt_append)
  next
    case False
    then have "order_leaders_loop elect d con1 current tc rs = Inr (con', ls)"
      using Cons.prems(2) el by (auto split: option.splits if_splits)
    from Cons.IH [OF Cons.prems(1) this tc(2,1) Cons.prems(5)] show ?thesis by auto
  qed
qed simp

lemma rounds_down_props:
  "sorted_wrt (>) (rounds_down lo hi)" "r \<in> set (rounds_down lo hi) \<Longrightarrow> lo \<le> r \<and> r \<le> hi"
proof -
  have "sorted_wrt (<) (filter (\<lambda>r. even (hi - r)) [lo..<hi + 1])"
    by (intro sorted_wrt_filter sorted_wrt_upt)
  then show "sorted_wrt (>) (rounds_down lo hi)" by (simp add: rounds_down_def sorted_wrt_rev)
  show "r \<in> set (rounds_down lo hi) \<Longrightarrow> lo \<le> r \<and> r \<le> hi" by (auto simp: rounds_down_def)
qed

lemma order_leaders_chain:
  assumes "elects_from (dag s) elect" and "order_leaders elect con leader s = Inr (con', ls)"
    and "last_committed_round s + 2 < 2 ^ 64" and "2 \<le> cert_round leader"
    and "last_committed_round s < cert_round leader" and "cert_key leader \<in> dag_keys (dag s)"
  shows "sorted_wrt (\<lambda>a b. cert_round a < cert_round b) (rev ls) \<and>
         (\<forall>l \<in> set (rev ls). last_committed_round s < cert_round l \<and> cert_key l \<in> dag_keys (dag s))"
proof -
  let ?rs = "rounds_down (u64_add (last_committed_round s) 2) (u64_sub (cert_round leader) 2)"
  have rs: "last_committed_round s < r \<and> r < cert_round leader" if "r \<in> set ?rs" for r
    using rounds_down_props(2) [OF that] assms(3,4) by (simp, linarith)
  have "order_leaders_loop elect (dag s) con leader [leader] ?rs = Inr (con', ls)"
    using assms(2) by (simp add: order_leaders_def)
  from order_leaders_loop_chain [OF assms(1) this rounds_down_props(1)] rs assms(5,6) show ?thesis
    by (auto simp: sorted_wrt_rev)
qed

section \<open>Small concrete DAGs\<close>

text \<open>A certificate of authority \<open>k\<close> at round \<open>r\<close> whose identifier is \<open>16 r + k\<close>.\<close>

definition slot_cert :: "nat \<Rightarrow> nat \<Rightarrow> (nat \<times> nat) list \<Rightarrow> Certificate" where
  "slot_cert r k ps = \<lparr>header = default_header\<lparr>h_author := PublicKey (word_of_nat k), h_round := r,
     h_parents := map (\<lambda>(r, k). Digest (word_of_nat (16 * r + k))) ps, h_id := Digest (word_of_nat (16 * r + k))\<rparr>,
     votes = []\<rparr>"

lemma demo_cert_digest [simp]: "cert_digest demo_lib c = h_id (header c)"
  by (simp add: cert_digest_def cert_preimage_def sha_digest_def digest_bytes_def)

lemma slot_cert_simps [simp]:
  "cert_round (slot_cert r k ps) = r" "cert_origin (slot_cert r k ps) = PublicKey (word_of_nat k)"
  "h_id (header (slot_cert r k ps)) = Digest (word_of_nat (16 * r + k))"
  "h_parents (header (slot_cert r k ps)) = map (\<lambda>(r, k). Digest (word_of_nat (16 * r + k))) ps"
  "h_parents_2 (header (slot_cert r k ps)) = []" "h_qc (header (slot_cert r k ps)) = None"
  by (simp_all add: slot_cert_def cert_round_def cert_origin_def default_header_def)

lemmas run_simps = Let_def u64_sub_def dag_insert_def state_new_def genesis_def demo_consensus_def
  demo_keys_def default_header_def con_leader_def leader_authority_def coin_value_def round_robin_coin_def
  round_robin_slot_def cc_round_robin_def with_leader_def cc_leader_def u64_add_def expect_def
  support_stake_def order_leaders_def rounds_down_def flatten_dag.simps find_parent_def just_committed_def

section \<open>Support makes a leader visible to later leaders\<close>

definition consistent :: "Dag \<Rightarrow> Dag \<Rightarrow> bool" where
  "consistent d d' \<longleftrightarrow> (\<forall>r a x y. dag_at d r a = Some x \<longrightarrow> dag_at d' r a = Some y \<longrightarrow> x = y)"

definition parent_authors :: "Dag \<Rightarrow> Certificate \<Rightarrow> PublicKey set" where
  "parent_authors d x =
     {b. \<exists>dg y. dag_at d (cert_round x - 1) b = Some (dg, y) \<and> dg \<in> set (h_parents (header x))}"

text \<open>Above round \<open>lo\<close>, every certificate of the DAG has a quorum of parents in the DAG.\<close>

definition quorum_history :: "Committee \<Rightarrow> Round \<Rightarrow> Dag \<Rightarrow> bool" where
  "quorum_history c lo d \<longleftrightarrow>
     (\<forall>r a dg x. lo < r \<longrightarrow> dag_at d r a = Some (dg, x) \<longrightarrow> has_quorum c (parent_authors d x))"

definition supporters :: "Digest \<Rightarrow> RoundDag \<Rightarrow> PublicKey list" where
  "supporters dg m = map (\<lambda>(_, x). cert_origin x) (filter (\<lambda>(_, x). dg \<in> set (h_parents (header x))) (values_of m))"

lemma supporters_props:
  assumes "wf_round lib r m"
  shows "distinct (supporters dg m)"
    and "a \<in> set (supporters dg m) \<Longrightarrow> \<exists>dx x. map_of m a = Some (dx, x) \<and> dg \<in> set (h_parents (header x))"
proof -
  have "supporters dg m = keys_of (filter (\<lambda>(_, (_, x)). dg \<in> set (h_parents (header x))) m)"
    using assms by (induction m) (auto simp: supporters_def wf_round_def)
  then show "distinct (supporters dg m)"
    using assms wf_filter by (metis wf_round_wf)
  have wf: "wf_map m" using assms by simp
  show "\<exists>dx x. map_of m a = Some (dx, x) \<and> dg \<in> set (h_parents (header x))" if "a \<in> set (supporters dg m)"
    using that wf wf_roundD [OF assms] by (fastforce simp: supporters_def)
qed

lemma next_layer_iff:
  "y \<in> set (next_layer P m) \<longleftrightarrow>
     (\<exists>a dg. (a, (dg, y)) \<in> set m \<and> (\<exists>x \<in> set P. dg \<in> set (h_parents (header x))))"
  by (force simp: next_layer_def list_ex_iff image_iff)

lemma next_layer_parent:
  assumes "map_of d r = Some m" and "dag_at d r a = Some (dg, y)" and "x \<in> set P"
    and "dg \<in> set (h_parents (header x))"
  shows "y \<in> set (next_layer P m)"
  using assms by (auto simp: next_layer_iff dag_at_Some dest: map_of_SomeD)

lemma parent_author_layer:
  assumes "b \<in> parent_authors d x" and "cert_round x = Suc r" and "x \<in> set P"
  obtains m dg y where "map_of d r = Some m" and "dag_at d r b = Some (dg, y)" and "y \<in> set (next_layer P m)"
  using assms next_layer_parent [of d r] by (fastforce simp: parent_authors_def dag_at_Some)

lemma layers_reach_leader:
  assumes "committee_ok c" and "wf_dag lib d" and "quorum_history c (Suc lr) d"
    and "dag_at d lr la = Some (dgl, l)"
    and "unat (validity_threshold c) \<le> sum (nstake c) S" and "finite S"
    and "\<And>a dx x. a \<in> S \<Longrightarrow> dag_at d (Suc lr) a = Some (dx, x) \<Longrightarrow> dgl \<in> set (h_parents (header x))"
    and "x \<in> set P" and "dag_at d (Suc (Suc lr) + k) a = Some (dx, x)"
  shows "\<exists>Q. linked_layers d P (rev [lr..<Suc (Suc lr) + k]) = Inr Q \<and> l \<in> set Q"
  using assms(8,9)
proof (induction k arbitrary: P x a dx)
  case 0
  have q: "has_quorum c (parent_authors d x)" and x: "cert_round x = Suc (Suc lr)"
    using assms(3) 0 dag_at_wf [OF assms(2)] by (auto simp: quorum_history_def)
  obtain b where b: "b \<in> parent_authors d x" "b \<in> S"
    using committee.quorum_meets_validity [OF assms(1) _ assms(6) _ assms(5)] q by (auto simp: has_quorum_def)
  obtain m dg y where m: "map_of d (Suc lr) = Some m" "dag_at d (Suc lr) b = Some (dg, y)"
    "y \<in> set (next_layer P m)"
    using parent_author_layer [OF b(1) x] 0(1) by blast
  have ref: "dgl \<in> set (h_parents (header y))" by (rule assms(7) [OF b(2) m(2)])
  obtain m' where m': "map_of d lr = Some m'" using assms(4) by (auto simp: dag_at_Some)
  have "l \<in> set (next_layer (next_layer P m) m')"
    by (rule next_layer_parent [OF m' assms(4) m(3) ref])
  with m(1) m' show ?case by (simp add: expect_def)
next
  case (Suc k)
  have x: "cert_round x = Suc (Suc (Suc lr) + k)" using Suc.prems dag_at_wf [OF assms(2)] by fastforce
  have q: "has_quorum c (parent_authors d x)"
    by (rule assms(3) [unfolded quorum_history_def, rule_format, OF _ Suc.prems(2)]) simp
  obtain b where "b \<in> parent_authors d x"
    using q has_quorum_meets [OF assms(1) q q] by blast
  then obtain m dg y where m: "map_of d (Suc (Suc lr) + k) = Some m"
    "dag_at d (Suc (Suc lr) + k) b = Some (dg, y)" "y \<in> set (next_layer P m)"
    using parent_author_layer [OF _ x] Suc.prems(1) by blast
  from Suc.IH [OF m(3,2)] m(1) show ?case by (simp add: expect_def)
qed

text \<open>
  C12. Support makes a leader visible.  Suppose a node sees a leader supported by a
  validity share of the next round.  Then in the DAG of every node that holds the same
  certificates where both hold one, and in which every certificate above that round has a
  quorum of parents, any certificate two or more rounds above the leader is linked to it:
  the search neither panics nor misses the leader, so a later leader commits this one
  first.
\<close>

theorem supported_leader_linked:
  assumes "committee_ok c" and "wf_dag lib d" and "wf_dag lib d'" and "consistent d d'"
    and "map_of d (lr + 1) = Some m" and "validity_threshold c \<le> support_stake c dgl m"
    and "dag_at d' lr la = Some (dgl, l)" and "quorum_history c (lr + 1) d'"
    and "dag_at d' r a = Some (dx, x)" and "lr + 2 \<le> r"
  shows "linked x l d' = Inr True"
proof -
  let ?S = "set (supporters dgl m)"
  have m: "wf_round lib (lr + 1) m" by (rule wf_dagD [OF assms(2,5)])
  have w: "support_stake c dgl m = sum_list (map (stake c) (supporters dgl m))"
    by (simp add: support_stake_def supporters_def case_prod_beta' comp_def)
  have "unat (validity_threshold c) \<le> sum (nstake c) ?S"
    using assms(6) unat_weight [OF assms(1) supporters_props(1) [OF m], of dgl]
    by (simp add: w word_le_nat_alt)
  moreover have "dgl \<in> set (h_parents (header y))"
    if "b \<in> ?S" and "dag_at d' (Suc lr) b = Some (dy, y)" for b dy y
    using supporters_props(2) [OF m that(1)] that(2) assms(4,5)
    by (fastforce simp: consistent_def dag_at_Some)
  moreover obtain k where "r = Suc (Suc lr) + k" using assms(10) by (metis add_2_eq_Suc' le_Suc_ex)
  ultimately obtain Q where "linked_layers d' [x] (rev [lr..<r]) = Inr Q" "l \<in> set Q"
    using layers_reach_leader [OF assms(1,3) _ assms(7), of ?S x "[x]" k a dx] assms(8,9) by auto
  moreover have "cert_round x = r" "cert_round l = lr"
    using dag_at_wf [OF assms(3)] assms(7,9) by blast+
  ultimately show ?thesis
    by (auto simp: linked_def list_ex_iff cert_eq_def)
qed

lemma wf_dag_Nil [simp]: "wf_dag lib []"
  by (simp add: wf_dag_def)

lemma wf_dag_foldr: "wf_dag lib (foldr (dag_insert lib) cs [])"
  by (induction cs) (simp_all add: wf_dag_insert)

lemma dag_at_foldr:
  "dag_at (foldr (dag_insert lib) cs []) r a =
     (case List.find (\<lambda>c. cert_round c = r \<and> cert_origin c = a) cs of
        None \<Rightarrow> None | Some c \<Rightarrow> Some (cert_digest lib c, c))"
  by (induction cs) (auto simp: dag_at_insert, simp add: dag_at_def)

theorem supported_leader_linked_witness:
  "linked (slot_cert 4 2 [(3, 1), (3, 2), (3, 3)]) (slot_cert 2 1 [])
     (foldr (dag_insert demo_lib)
        [slot_cert 4 2 [(3, 1), (3, 2), (3, 3)], slot_cert 3 3 [(2, 2)], slot_cert 3 2 [(2, 1)],
         slot_cert 3 1 [(2, 1)], slot_cert 2 1 []] []) = Inr True"
  (is "linked ?x ?l ?d = _")
proof (rule supported_leader_linked [where c = demo_committee and lib = demo_lib and lr = 2 and r = 4
      and d = "?d" and la = "PublicKey 1" and a = "PublicKey 2" and dgl = "Digest 33" and dx = "Digest 66"
      and m = "map (\<lambda>c. (cert_origin c, (cert_digest demo_lib c, c)))
        [slot_cert 3 1 [(2, 1)], slot_cert 3 2 [(2, 1)], slot_cert 3 3 [(2, 2)]]"])
  show "wf_dag demo_lib ?d" and "wf_dag demo_lib ?d" by (rule wf_dag_foldr)+
  show "consistent ?d ?d" by (auto simp: consistent_def)
  have "parent_authors ?d ?x = {PublicKey 1, PublicKey 2, PublicKey 3}"
    unfolding parent_authors_def dag_at_foldr by (auto split: if_splits)
  then have "has_quorum demo_committee (parent_authors ?d ?x)"
    by (simp add: has_quorum_def nstake_def demo_keys_def)
  then show "quorum_history demo_committee (2 + 1) ?d"
    unfolding quorum_history_def dag_at_foldr by (auto split: if_splits)
  show "dag_at ?d 2 (PublicKey 1) = Some (Digest 33, ?l)" and "dag_at ?d 4 (PublicKey 2) = Some (Digest 66, ?x)"
    unfolding dag_at_foldr by simp_all
qed (simp_all add: dag_insert_def support_stake_def demo_keys_def)

end
