(* ===== verification/Narwhal_Rules.thy ===== *)
theory Narwhal_Rules
  imports Certified_Dag
begin

text \<open>
  The Narwhal module (\<^verbatim>\<open>consensus/src/narwhal.rs\<close>): a leader every second round, supported
  from the round after it, revealed one more round later.
\<close>

definition narwhal_leader ::
    "CryptoLib \<Rightarrow> Consensus \<Rightarrow> Round \<Rightarrow> Round \<Rightarrow> Dag
     \<Rightarrow> (Consensus \<times> (Digest \<times> Certificate) option) outcome" where
  "narwhal_leader lib con round coin_round d = con_leader lib con round coin_round d"

definition narwhal_order_leaders ::
    "CryptoLib \<Rightarrow> Consensus \<Rightarrow> Certificate \<Rightarrow> State \<Rightarrow> (Consensus \<times> Certificate list) outcome" where
  "narwhal_order_leaders lib =
     order_leaders (\<lambda>con r d. narwhal_leader lib con r (u64_add r 2) d)"

definition narwhal_order_dag :: "State \<Rightarrow> Certificate \<Rightarrow> Certificate list" where
  "narwhal_order_dag s leader = sort_key cert_round (flatten_dag s [] [] [leader])"

definition narwhal_step ::
    "CryptoLib \<Rightarrow> Consensus \<times> State \<Rightarrow> Certificate \<Rightarrow> ((Consensus \<times> State) \<times> Certificate list) outcome" where
  "narwhal_step lib cs certificate =
     (let con = fst cs;
          round = cert_round certificate;
          s = (snd cs)\<lparr>dag := dag_insert lib certificate (dag (snd cs))\<rparr>;
          r = u64_sub round 1
      in if r mod 2 \<noteq> 0 \<or> r < 4 then Inr ((con, s), [])
         else (let leader_round = r - 2; coin_round = r
               in if leader_round \<le> last_committed_round s then Inr ((con, s), [])
                  else rbind (narwhal_leader lib con leader_round coin_round (dag s)) (\<lambda>(con1, l).
                    case l of
                      None \<Rightarrow> Inr ((con1, s), [])
                    | Some (leader_digest, leader) \<Rightarrow>
                        rbind (expect ''We should have the whole history by now'' (map_of (dag s) (r - 1))) (\<lambda>m.
                          if support_stake (con_committee con) leader_digest m
                             < validity_threshold (con_committee con)
                          then Inr ((con1, s), [])
                          else rbind (narwhal_order_leaders lib con1 leader s) (\<lambda>(con2, leaders).
                            let committed = commit_leaders narwhal_order_dag (con_gc_depth con) (rev leaders) s
                            in Inr ((con2, fst committed), snd committed))))))"

definition narwhal_run ::
    "CryptoLib \<Rightarrow> Consensus \<Rightarrow> Certificate list \<Rightarrow> ((Consensus \<times> State) \<times> Certificate list) outcome" where
  "narwhal_run lib con xs = run_steps (narwhal_step lib) (con, state_new lib (con_genesis con)) xs"

section \<open>The module meets the interface\<close>

lemma narwhal_step_commits:
  assumes "narwhal_step lib (con, s) x = Inr ((con', s'), out)"
    and "wf_state lib (s\<lparr>dag := dag_insert lib x (dag s)\<rparr>)" and "last_committed_round s + 2 < 2 ^ 64"
  shows "\<exists>ls gc. sorted_wrt (\<lambda>a b. cert_round a < cert_round b) ls \<and>
    (\<forall>l \<in> set ls. last_committed_round s < cert_round l \<and> cert_key l \<in> dag_keys (dag_insert lib x (dag s))) \<and>
    commit_leaders narwhal_order_dag gc ls (s\<lparr>dag := dag_insert lib x (dag s)\<rparr>) = (s', out)"
    (is "\<exists>ls gc. ?P ls gc")
proof (cases "s' = s\<lparr>dag := dag_insert lib x (dag s)\<rparr> \<and> out = []")
  case True
  then have "?P [] 0" by simp
  then show ?thesis by blast
next
  case False
  let ?s = "s\<lparr>dag := dag_insert lib x (dag s)\<rparr>" and ?r = "u64_sub (cert_round x) 1"
  have wfd: "wf_dag lib (dag ?s)" using assms(2) by (simp add: wf_state_def)
  from False assms(1) obtain con1 dg l con2 ls where
    r: "4 \<le> ?r" "last_committed_round s < ?r - 2"
    and lead: "con_leader lib con (?r - 2) ?r (dag ?s) = Inr (con1, Some (dg, l))"
    and ord: "narwhal_order_leaders lib con1 l ?s = Inr (con2, ls)"
    and com: "commit_leaders narwhal_order_dag (con_gc_depth con) (rev ls) ?s = (s', out)"
    unfolding narwhal_step_def narwhal_leader_def
    by (fastforce simp: Let_def not_less not_le split: if_splits option.splits)
  have "elects_from (dag ?s) (\<lambda>con r d. narwhal_leader lib con r (u64_add r 2) d)"
    unfolding elects_from_def narwhal_leader_def using con_leader_key [OF wfd] by blast
  from order_leaders_chain [OF this ord [unfolded narwhal_order_leaders_def]] con_leader_key [OF wfd lead] r assms(3)
  have "?P (rev ls) (con_gc_depth con)" using com by simp
  then show ?thesis by blast
qed

interpretation narwhal: certified_protocol "\<lambda>_. narwhal_order_dag" narwhal_step
proof
  fix lib :: CryptoLib and s :: State and l c :: Certificate and gc :: Round
  assume wf: "wf_dag lib (dag s)" "rounds_fit (dag s)"
  have "distinct (map cert_key (flatten_dag s [] [] [l]))"
    using flatten_history_order(1) [OF wf, of "\<lambda>_. True"] by simp
  then show "distinct (map cert_key (narwhal_order_dag s l))"
    unfolding narwhal_order_dag_def by (metis mset_eq_imp_distinct_iff mset_map mset_sort)
  show "c = l \<or> (cert_key c \<in> dag_keys (dag s) \<and> \<not> just_committed s c \<and> cert_round c < cert_round l)"
    if "c \<in> set (narwhal_order_dag s l)"
    using that flatten_history_order(2) [OF wf] by (simp add: narwhal_order_dag_def)
qed (rule narwhal_step_commits)

section \<open>Properties\<close>

text \<open>
  C14. Narwhal commits every slot at most once.  If the primary delivers at most one
  certificate per round and author, then the committed sequence has at most one
  certificate per round and author, and only of slots that were delivered: the genesis
  certificates are never output, and a certificate that stays in the DAG after it was
  committed is not output again.
\<close>

theorem narwhal_commits_once:
  assumes "narwhal_run lib con xs = Inr ((con', s'), out)" and "con_genesis con = genesis c"
    and "distinct (map cert_key xs)" and "\<forall>x \<in> set xs. 0 < cert_round x \<and> cert_round x + 2 < 2 ^ 64"
  shows "distinct (map cert_key out) \<and> cert_key ` set out \<subseteq> cert_key ` set xs"
proof -
  let ?s = "state_new lib (genesis c)"
  have run: "run_steps (narwhal_step lib) (con, ?s) xs = Inr ((con', s'), out)"
    using assms(1,2) by (simp add: narwhal_run_def)
  have "cert_key ` set xs \<inter> (dag_keys (dag ?s) \<union> dag_keys (dag ?s)) = {}"
    using assms(4) by (auto simp: commit_inv_new(2) cert_key_def)
  from narwhal.run_once [OF run commit_inv_new(1) assms(3) this] assms(4)
  have "distinct (map cert_key out) \<and> cert_key ` set out \<inter> dag_keys (dag ?s) = {} \<and>
      cert_key ` set out \<subseteq> cert_key ` set xs \<union> dag_keys (dag ?s)" by blast
  then show ?thesis by blast
qed

theorem narwhal_commits_once_witness:
  "\<exists>con s out. narwhal_run demo_lib (demo_consensus Narwhal RoundRobin (PublicKey 1))
      [slot_cert 2 1 [], slot_cert 3 1 [(2, 1)], slot_cert 3 2 [(2, 1)], slot_cert 5 1 []]
      = Inr ((con, s), out) \<and> out = [slot_cert 2 1 []] \<and> distinct (map cert_key out)"
proof -
  obtain con s where run: "narwhal_run demo_lib (demo_consensus Narwhal RoundRobin (PublicKey 1))
      [slot_cert 2 1 [], slot_cert 3 1 [(2, 1)], slot_cert 3 2 [(2, 1)], slot_cert 5 1 []]
      = Inr ((con, s), [slot_cert 2 1 []])"
    by (simp add: narwhal_run_def narwhal_step_def narwhal_leader_def narwhal_order_leaders_def
        narwhal_order_dag_def run_simps)
  have "distinct (map cert_key [slot_cert 2 1 []])"
    using narwhal_commits_once [OF run, of demo_committee]
    by (simp add: demo_consensus_def cert_key_def)
  with run show ?thesis by blast
qed

text \<open>
  C18. Flattening a Narwhal leader.  In a well-formed DAG without digest collisions,
  \<^verbatim>\<open>order_dag\<close> returns, sorted by round and without repetition, exactly the
  certificates that can be reached from the leader through parent links without passing
  through a last committed certificate.
\<close>

theorem narwhal_order_dag_reachable:
  assumes "wf_dag lib (dag s)" and "rounds_fit (dag s)" and "digests_unique (dag s)"
  shows "set (narwhal_order_dag s leader) = {y. (child s)\<^sup>*\<^sup>* leader y} \<and>
         sorted (map cert_round (narwhal_order_dag s leader)) \<and> distinct (narwhal_order_dag s leader)"
proof (intro conjI)
  show "set (narwhal_order_dag s leader) = {y. (child s)\<^sup>*\<^sup>* leader y}"
    by (simp add: narwhal_order_dag_def flatten_dag_reachable [OF assms])
  show "sorted (map cert_round (narwhal_order_dag s leader))" by (simp add: narwhal_order_dag_def)
  have "distinct (map cert_key (flatten_dag s [] [] [leader]))"
    using flatten_history_order(1) [OF assms(1,2), of "\<lambda>_. True"] by simp
  then show "distinct (narwhal_order_dag s leader)" by (simp add: narwhal_order_dag_def distinct_map)
qed

definition demo_history :: State where
  "demo_history = \<lparr>last_committed_round = 0, last_committed = [],
     dag = foldr (dag_insert demo_lib) [slot_cert 2 1 [(1, 2), (1, 3)], slot_cert 1 2 [], slot_cert 1 3 []] []\<rparr>"

theorem narwhal_order_dag_reachable_witness:
  "set (narwhal_order_dag demo_history (slot_cert 2 1 [(1, 2), (1, 3)]))
   = {y. (child demo_history)\<^sup>*\<^sup>* (slot_cert 2 1 [(1, 2), (1, 3)]) y}"
proof -
  have "wf_dag demo_lib (dag demo_history)" unfolding demo_history_def State.simps by (rule wf_dag_foldr)
  moreover have "rounds_fit (dag demo_history)"
    unfolding demo_history_def State.simps rounds_fit_def dag_at_foldr by auto
  moreover have "digests_unique (dag demo_history)"
    unfolding demo_history_def State.simps digests_unique_def dag_at_foldr by (auto split: if_splits)
  ultimately show ?thesis using narwhal_order_dag_reachable by blast
qed

end
