(* ===== verification/Bullshark_Rules.thy ===== *)
theory Bullshark_Rules
  imports Certified_Dag
begin

text \<open>
  The Bullshark module (\<^verbatim>\<open>consensus/src/bullshark.rs\<close>): a leader every second round, whose
  support is counted in the round of the certificate just received, and a flattening that
  drops certificates older than the garbage-collection depth.
\<close>

definition bullshark_leader ::
    "CryptoLib \<Rightarrow> Consensus \<Rightarrow> Round \<Rightarrow> Dag \<Rightarrow> (Consensus \<times> (Digest \<times> Certificate) option) outcome" where
  "bullshark_leader lib con round d = con_leader lib con round round d"

definition bullshark_linked :: "Certificate \<Rightarrow> Certificate \<Rightarrow> Dag \<Rightarrow> bool outcome" where
  "bullshark_linked leader prev_leader d = linked leader prev_leader d"

definition bullshark_order_leaders ::
    "CryptoLib \<Rightarrow> Consensus \<Rightarrow> Certificate \<Rightarrow> State \<Rightarrow> (Consensus \<times> Certificate list) outcome" where
  "bullshark_order_leaders lib = order_leaders (bullshark_leader lib)"

definition bullshark_order_dag :: "Round \<Rightarrow> State \<Rightarrow> Certificate \<Rightarrow> Certificate list" where
  "bullshark_order_dag gc_depth s leader =
     sort_key cert_round
       (filter (\<lambda>x. u64_add (cert_round x) gc_depth \<ge> last_committed_round s) (flatten_dag s [] [] [leader]))"

definition bullshark_step ::
    "CryptoLib \<Rightarrow> Consensus \<times> State \<Rightarrow> Certificate \<Rightarrow> ((Consensus \<times> State) \<times> Certificate list) outcome" where
  "bullshark_step lib cs certificate =
     (let con = fst cs;
          round = cert_round certificate;
          s = (snd cs)\<lparr>dag := dag_insert lib certificate (dag (snd cs))\<rparr>;
          r = u64_sub round 1
      in if r mod 2 \<noteq> 0 \<or> r < 2 then Inr ((con, s), [])
         else (let leader_round = r
               in if leader_round \<le> last_committed_round s then Inr ((con, s), [])
                  else rbind (bullshark_leader lib con leader_round (dag s)) (\<lambda>(con1, l).
                    case l of
                      None \<Rightarrow> Inr ((con1, s), [])
                    | Some (leader_digest, leader) \<Rightarrow>
                        rbind (expect ''We should have the whole history by now'' (map_of (dag s) round)) (\<lambda>m.
                          if support_stake (con_committee con) leader_digest m
                             < validity_threshold (con_committee con)
                          then Inr ((con1, s), [])
                          else rbind (bullshark_order_leaders lib con1 leader s) (\<lambda>(con2, leaders).
                            let committed = commit_leaders (bullshark_order_dag (con_gc_depth con))
                                              (con_gc_depth con) (rev leaders) s
                            in Inr ((con2, fst committed), snd committed))))))"

definition bullshark_run ::
    "CryptoLib \<Rightarrow> Consensus \<Rightarrow> Certificate list \<Rightarrow> ((Consensus \<times> State) \<times> Certificate list) outcome" where
  "bullshark_run lib con xs = run_steps (bullshark_step lib) (con, state_new lib (con_genesis con)) xs"

section \<open>The module meets the interface\<close>

lemma bullshark_step_commits:
  assumes "bullshark_step lib (con, s) x = Inr ((con', s'), out)"
    and "wf_state lib (s\<lparr>dag := dag_insert lib x (dag s)\<rparr>)" and "last_committed_round s + 2 < 2 ^ 64"
  shows "\<exists>ls gc. sorted_wrt (\<lambda>a b. cert_round a < cert_round b) ls \<and>
    (\<forall>l \<in> set ls. last_committed_round s < cert_round l \<and> cert_key l \<in> dag_keys (dag_insert lib x (dag s))) \<and>
    commit_leaders (bullshark_order_dag gc) gc ls (s\<lparr>dag := dag_insert lib x (dag s)\<rparr>) = (s', out)"
    (is "\<exists>ls gc. ?P ls gc")
proof (cases "s' = s\<lparr>dag := dag_insert lib x (dag s)\<rparr> \<and> out = []")
  case True
  then have "?P [] 0" by simp
  then show ?thesis by blast
next
  case False
  let ?s = "s\<lparr>dag := dag_insert lib x (dag s)\<rparr>" and ?r = "u64_sub (cert_round x) 1"
  have wfd: "wf_dag lib (dag ?s)" using assms(2) by (simp add: wf_state_def)
  from False assms(1) obtain con1 dg l con2 ls where
    r: "2 \<le> ?r" "last_committed_round s < ?r"
    and lead: "con_leader lib con ?r ?r (dag ?s) = Inr (con1, Some (dg, l))"
    and ord: "bullshark_order_leaders lib con1 l ?s = Inr (con2, ls)"
    and com: "commit_leaders (bullshark_order_dag (con_gc_depth con)) (con_gc_depth con) (rev ls) ?s = (s', out)"
    unfolding bullshark_step_def bullshark_leader_def
    by (fastforce simp: Let_def not_less not_le split: if_splits option.splits)
  have "elects_from (dag ?s) (bullshark_leader lib)"
    unfolding elects_from_def bullshark_leader_def using con_leader_key [OF wfd] by blast
  from order_leaders_chain [OF this ord [unfolded bullshark_order_leaders_def]] con_leader_key [OF wfd lead] r assms(3)
  have "?P (rev ls) (con_gc_depth con)" using com by simp
  then show ?thesis by blast
qed

interpretation bullshark: certified_protocol bullshark_order_dag bullshark_step
proof
  fix lib :: CryptoLib and s :: State and l c :: Certificate and gc :: Round
  assume wf: "wf_dag lib (dag s)" "rounds_fit (dag s)"
  show "distinct (map cert_key (bullshark_order_dag gc s l))"
    using flatten_history_order(1) [OF wf] unfolding bullshark_order_dag_def
    by (metis mset_eq_imp_distinct_iff mset_map mset_sort)
  show "c = l \<or> (cert_key c \<in> dag_keys (dag s) \<and> \<not> just_committed s c \<and> cert_round c < cert_round l)"
    if "c \<in> set (bullshark_order_dag gc s l)"
    using that flatten_history_order(2) [OF wf] by (simp add: bullshark_order_dag_def)
qed (rule bullshark_step_commits)

section \<open>Properties\<close>

text \<open>
  Bullshark commits every slot at most once, under the same condition on deliveries
  as for Narwhal, and also with the garbage-collection filter in its flattening.
\<close>

theorem bullshark_commits_once:
  assumes "bullshark_run lib con xs = Inr ((con', s'), out)" and "con_genesis con = genesis c"
    and "distinct (map cert_key xs)" and "\<forall>x \<in> set xs. 0 < cert_round x \<and> cert_round x + 2 < 2 ^ 64"
  shows "distinct (map cert_key out) \<and> cert_key ` set out \<subseteq> cert_key ` set xs"
proof -
  let ?s = "state_new lib (genesis c)"
  have run: "run_steps (bullshark_step lib) (con, ?s) xs = Inr ((con', s'), out)"
    using assms(1,2) by (simp add: bullshark_run_def)
  have "cert_key ` set xs \<inter> (dag_keys (dag ?s) \<union> dag_keys (dag ?s)) = {}"
    using assms(4) by (auto simp: commit_inv_new(2) cert_key_def)
  from bullshark.run_once [OF run commit_inv_new(1) assms(3) this] assms(4)
  have "distinct (map cert_key out) \<and> cert_key ` set out \<inter> dag_keys (dag ?s) = {} \<and>
      cert_key ` set out \<subseteq> cert_key ` set xs \<union> dag_keys (dag ?s)" by blast
  then show ?thesis by blast
qed

theorem bullshark_commits_once_witness:
  "\<exists>con s out. bullshark_run demo_lib (demo_consensus Bullshark RoundRobin (PublicKey 1))
      [slot_cert 2 1 [], slot_cert 3 1 [(2, 1)], slot_cert 3 2 [(2, 1)]]
      = Inr ((con, s), out) \<and> out = [slot_cert 2 1 []] \<and> distinct (map cert_key out)"
proof -
  obtain con s where run: "bullshark_run demo_lib (demo_consensus Bullshark RoundRobin (PublicKey 1))
      [slot_cert 2 1 [], slot_cert 3 1 [(2, 1)], slot_cert 3 2 [(2, 1)]] = Inr ((con, s), [slot_cert 2 1 []])"
    by (simp add: bullshark_run_def bullshark_step_def bullshark_leader_def bullshark_order_leaders_def
        bullshark_order_dag_def run_simps)
  have "distinct (map cert_key [slot_cert 2 1 []])"
    using bullshark_commits_once [OF run, of demo_committee]
    by (simp add: demo_consensus_def cert_key_def)
  with run show ?thesis by blast
qed

end
