(* ===== verification/Shortfin_Rules.thy ===== *)
theory Shortfin_Rules
  imports Certified_Dag "HOL-Library.Product_Lexorder"
begin

text \<open>
  The Shortfin module (\<^verbatim>\<open>consensus/src/shortfin.rs\<close>): waves of four rounds, a leader whose
  own chain of embedded quorum certificates commits it, and the collection of a wave from
  the causal history of the committed frontier.  The module keeps every record by digest,
  equivocations included.
\<close>

definition WAVE :: Round where
  "WAVE = 4"

type_synonym ShortfinRecords = "(Digest \<times> Certificate) list"

section \<open>Records\<close>

definition upgrades :: "Certificate \<Rightarrow> Certificate \<Rightarrow> bool" where
  "upgrades stored certificate \<longleftrightarrow> votes stored = [] \<and> votes certificate \<noteq> []"

definition insert_record ::
    "CryptoLib \<Rightarrow> State \<Rightarrow> ShortfinRecords \<Rightarrow> Certificate \<Rightarrow> State \<times> ShortfinRecords" where
  "insert_record lib s records certificate =
     (let digest = cert_digest lib certificate;
          origin = cert_origin certificate;
          round = cert_round certificate;
          records' = (case map_of records digest of
                        Some stored \<Rightarrow> if upgrades stored certificate
                                       then AList.update digest certificate records else records
                      | None \<Rightarrow> AList.update digest certificate records);
          by_author = (case map_of (dag s) round of None \<Rightarrow> [] | Some m \<Rightarrow> m);
          by_author' = (case map_of by_author origin of
                          Some (stored_digest, stored) \<Rightarrow>
                            if stored_digest = digest
                            then (if upgrades stored certificate
                                  then AList.update origin (stored_digest, certificate) by_author
                                  else by_author)
                            else by_author
                        | None \<Rightarrow> AList.update origin (digest, certificate) by_author)
      in (s\<lparr>dag := AList.update round by_author' (dag s)\<rparr>, records'))"

definition records_at_round :: "ShortfinRecords \<Rightarrow> Round \<Rightarrow> Certificate list" where
  "records_at_round records round = filter (\<lambda>c. cert_round c = round) (values_of records)"

definition round_ended :: "Round \<Rightarrow> PublicKey \<Rightarrow> Consensus \<Rightarrow> State \<Rightarrow> bool" where
  "round_ended round name con s \<longleftrightarrow>
     (case map_of (dag s) round of None \<Rightarrow> False | Some by_auth \<Rightarrow> contains_key by_auth name) \<and>
     round_has_quorum con round (dag s)"

section \<open>The leader's chain\<close>

datatype ChainError = LeaderUnavailable | MissingB2 | MissingB1 | QcChainInvalid

fun first_some :: "('a \<Rightarrow> 'b option) \<Rightarrow> 'a list \<Rightarrow> 'b option" where
  "first_some f [] = None"
| "first_some f (x # xs) = (case f x of None \<Rightarrow> first_some f xs | Some y \<Rightarrow> Some y)"

text \<open>The nested loops over the candidates, returning at the first chain.\<close>

definition find_chain ::
    "Round \<Rightarrow> Certificate list \<Rightarrow> Certificate list \<Rightarrow> Certificate list
     \<Rightarrow> (Certificate \<times> Certificate \<times> Certificate) option" where
  "find_chain commit_round b3s b2s b1s =
     first_some (\<lambda>b3.
       first_some (\<lambda>b2.
         if \<not> embedded_qc_links b2 b3 commit_round then None
         else first_some (\<lambda>b1.
                if embedded_qc_links b1 b2 commit_round then Some (b3, b2, b1) else None) b1s) b2s) b3s"

definition chain_candidates ::
    "CryptoLib \<Rightarrow> ShortfinRecords \<Rightarrow> Round \<Rightarrow> PublicKey \<Rightarrow> Certificate list" where
  "chain_candidates lib records round leader =
     sort_key (cert_digest lib) (filter (\<lambda>c. cert_origin c = leader) (records_at_round records round))"

definition verify_leader_chain ::
    "CryptoLib \<Rightarrow> Consensus \<Rightarrow> Round \<Rightarrow> State \<Rightarrow> ShortfinRecords
     \<Rightarrow> (Consensus \<times> (ChainError + Certificate \<times> Certificate \<times> Certificate)) outcome" where
  "verify_leader_chain lib con commit_round s records =
     (let leader_round = u64_sub commit_round 3;
          coin_certificates = (case map_of (dag s) commit_round of
                                 None \<Rightarrow> [] | Some by_author \<Rightarrow> round_certificates by_author)
      in rbind (leader_authority_from_certificates lib con leader_round commit_round 0 coin_certificates)
           (\<lambda>(con', l). Inr (con',
              case l of
                None \<Rightarrow> Inl LeaderUnavailable
              | Some leader \<Rightarrow>
                  (let b3s = chain_candidates lib records leader_round leader;
                       b2s = chain_candidates lib records (u64_add leader_round 1) leader;
                       b1s = chain_candidates lib records (u64_add leader_round 2) leader
                   in if b3s = [] then Inl LeaderUnavailable
                      else if b2s = [] then Inl MissingB2
                      else if b1s = [] then Inl MissingB1
                      else (case find_chain commit_round b3s b2s b1s of
                              Some triple \<Rightarrow> Inr triple
                            | None \<Rightarrow> Inl QcChainInvalid)))))"

section \<open>Causal reachability\<close>

definition reach_floor :: "Certificate list \<Rightarrow> Round" where
  "reach_floor seeds =
     (if seeds = [] then 0 else Min (set (map cert_round seeds))) - 100"

definition committed_upto :: "(PublicKey \<times> Round) list \<Rightarrow> Certificate \<Rightarrow> bool" where
  "committed_upto lc cert =
     (case map_of lc (cert_origin cert) of None \<Rightarrow> False | Some r \<Rightarrow> r \<ge> cert_round cert)"

text \<open>The certificates the loop pushes for one set of parents, in the order of the set.\<close>

definition parent_pushes ::
    "(Digest \<times> Certificate) list \<Rightarrow> Digest list \<Rightarrow> Digest list \<Rightarrow> Certificate list" where
  "parent_pushes index reachable parents =
     filter (\<lambda>p. h_id (header p) \<notin> set reachable) (List.map_filter (map_of index) parents)"

text \<open>The stack \<^verbatim>\<open>buffer\<close> is a list whose head is the top, so pushes are reversed onto it.\<close>

function reach_loop ::
    "(Digest \<times> Certificate) list \<Rightarrow> (PublicKey \<times> Round) list \<Rightarrow> Round \<Rightarrow> Digest list
     \<Rightarrow> Certificate list \<Rightarrow> Digest list" where
  "reach_loop index lc floor reachable [] = reachable"
| "reach_loop index lc floor reachable (cert # buffer) =
     (if cert_round cert < floor \<or> committed_upto lc cert \<or> h_id (header cert) \<in> set reachable
      then reach_loop index lc floor reachable buffer
      else (let reachable' = h_id (header cert) # reachable
            in reach_loop index lc floor reachable'
                 (rev (parent_pushes index reachable' (h_parents (header cert))
                       @ parent_pushes index reachable' (h_parents_2 (header cert))) @ buffer)))"
  by pat_completeness auto

definition ids_of :: "Certificate list \<Rightarrow> Digest set" where
  "ids_of cs = (\<lambda>c. h_id (header c)) ` set cs"

lemma finite_ids_of [simp]: "finite (ids_of cs)"
  by (simp add: ids_of_def)

lemma parent_pushes_iff:
  "p \<in> set (parent_pushes index reachable ps) \<longleftrightarrow>
     h_id (header p) \<notin> set reachable \<and> (\<exists>d \<in> set ps. map_of index d = Some p)"
  by (auto simp: parent_pushes_def List.map_filter_def image_iff)

lemma parent_pushes_index: "p \<in> set (parent_pushes index reachable ps) \<Longrightarrow> p \<in> set (values_of index)"
  by (force simp: parent_pushes_iff dest: map_of_SomeD)

lemma ids_of_pushes: "ids_of (parent_pushes index reachable ps) \<subseteq> ids_of (values_of index)"
  using parent_pushes_index by (fastforce simp: ids_of_def)

lemma ids_of_append [simp]: "ids_of (xs @ ys) = ids_of xs \<union> ids_of ys" "ids_of (rev xs) = ids_of xs"
  "ids_of (x # xs) = insert (h_id (header x)) (ids_of xs)"
  by (auto simp: ids_of_def)

termination reach_loop
proof (relation "(\<lambda>(index, _, _, reachable, buffer).
      card ((ids_of (values_of index) \<union> ids_of buffer) - set reachable)) <*mlex*>
    measure (\<lambda>(_, _, _, _, buffer). length buffer)")
  show "wf ((\<lambda>(index, _, _, reachable, buffer).
      card ((ids_of (values_of index) \<union> ids_of buffer) - set reachable)) <*mlex*>
    measure (\<lambda>(_, _, _, _, buffer). length buffer))"
    by (simp add: wf_mlex)
next
  fix index :: "(Digest \<times> Certificate) list" and lc :: "(PublicKey \<times> Round) list" and floor :: Round
    and reachable :: "Digest list" and cert :: Certificate and buffer :: "Certificate list"
  assume "cert_round cert < floor \<or> committed_upto lc cert \<or> h_id (header cert) \<in> set reachable"
  have "card ((ids_of (values_of index) \<union> ids_of buffer) - set reachable)
      \<le> card ((ids_of (values_of index) \<union> ids_of (cert # buffer)) - set reachable)"
    by (intro card_mono) (auto simp: ids_of_def)
  then show "((index, lc, floor, reachable, buffer), (index, lc, floor, reachable, cert # buffer))
      \<in> (\<lambda>(index, _, _, reachable, buffer).
        card ((ids_of (values_of index) \<union> ids_of buffer) - set reachable)) <*mlex*>
      measure (\<lambda>(_, _, _, _, buffer). length buffer)"
    by (auto simp: mlex_iff)
next
  fix index :: "(Digest \<times> Certificate) list" and lc :: "(PublicKey \<times> Round) list" and floor :: Round
    and reachable reachable' :: "Digest list" and cert :: Certificate and buffer :: "Certificate list"
  assume new: "\<not> (cert_round cert < floor \<or> committed_upto lc cert \<or> h_id (header cert) \<in> set reachable)"
    and r': "reachable' = h_id (header cert) # reachable"
  let ?b = "rev (parent_pushes index reachable' (h_parents (header cert))
      @ parent_pushes index reachable' (h_parents_2 (header cert))) @ buffer"
  have "(ids_of (values_of index) \<union> ids_of ?b) - set reachable'
      \<subset> (ids_of (values_of index) \<union> ids_of (cert # buffer)) - set reachable"
    using new r' ids_of_pushes [of index reachable'] by auto
  then have "card ((ids_of (values_of index) \<union> ids_of ?b) - set reachable')
      < card ((ids_of (values_of index) \<union> ids_of (cert # buffer)) - set reachable)"
    by (intro psubset_card_mono) auto
  then show "((index, lc, floor, reachable', ?b), (index, lc, floor, reachable, cert # buffer))
      \<in> (\<lambda>(index, _, _, reachable, buffer).
        card ((ids_of (values_of index) \<union> ids_of buffer) - set reachable)) <*mlex*>
      measure (\<lambda>(_, _, _, _, buffer). length buffer)"
    by (auto simp: mlex_iff)
qed

declare reach_loop.simps [simp del]

definition causal_reachability ::
    "Certificate list \<Rightarrow> (Digest \<times> Certificate) list \<Rightarrow> (PublicKey \<times> Round) list \<Rightarrow> Digest list" where
  "causal_reachability seeds index lc = reach_loop index lc (reach_floor seeds) [] (rev seeds)"

section \<open>Collecting a wave\<close>

definition refs_by_author :: "Certificate list \<Rightarrow> (PublicKey \<times> Digest list) list" where
  "refs_by_author certs =
     foldl (\<lambda>m c. AList.update (cert_origin c)
              (fold List.insert (h_parents (header c))
                (case map_of m (cert_origin c) of None \<Rightarrow> [] | Some ds \<Rightarrow> ds)) m) [] certs"

definition anchored_authors :: "(PublicKey \<times> Digest list) list \<Rightarrow> (Digest \<times> PublicKey list) list" where
  "anchored_authors refs =
     foldl (\<lambda>m (author, parents).
       foldl (\<lambda>m parent. AList.update parent
                (List.insert author (case map_of m parent of None \<Rightarrow> [] | Some as \<Rightarrow> as)) m) m parents)
       [] refs"

definition anchored_counts :: "ShortfinRecords \<Rightarrow> Round \<Rightarrow> (Digest \<times> nat) list" where
  "anchored_counts records commit_round =
     map (\<lambda>(digest, authors). (digest, length authors))
       (anchored_authors (refs_by_author (records_at_round records commit_round)))"

definition is_anchored :: "CryptoLib \<Rightarrow> (Digest \<times> nat) list \<Rightarrow> nat \<Rightarrow> Certificate \<Rightarrow> bool" where
  "is_anchored lib anchored validity cert =
     (case map_of anchored (cert_digest lib cert) of None \<Rightarrow> False | Some n \<Rightarrow> n \<ge> validity)"

definition not_yet_committed :: "(PublicKey \<times> Round) list \<Rightarrow> Certificate \<Rightarrow> bool" where
  "not_yet_committed lc cert =
     (case map_of lc (cert_origin cert) of None \<Rightarrow> True | Some last_r \<Rightarrow> cert_round cert > last_r)"

definition wave_index :: "Round \<Rightarrow> State \<Rightarrow> ShortfinRecords \<Rightarrow> (Digest \<times> Certificate) list" where
  "wave_index commit_round s records =
     filter (\<lambda>(_, cert). cert_round cert < commit_round \<and> not_yet_committed (last_committed s) cert) records"

text \<open>The committed frontier: the leader's chain and the anchored blocks of the last round.\<close>

definition wave_seeds ::
    "CryptoLib \<Rightarrow> Round \<Rightarrow> nat \<Rightarrow> Certificate list \<Rightarrow> ShortfinRecords \<Rightarrow> Certificate list" where
  "wave_seeds lib commit_round validity leader_blocks records =
     leader_blocks @ filter (is_anchored lib (anchored_counts records commit_round) validity)
                       (records_at_round records (u64_sub commit_round 1))"

definition qc_targets :: "Certificate list \<Rightarrow> Digest list" where
  "qc_targets certs = List.map_filter (\<lambda>cert. map_option qc_target (h_qc (header cert))) certs"

definition collect_wave ::
    "CryptoLib \<Rightarrow> Round \<Rightarrow> State \<Rightarrow> nat \<Rightarrow> Certificate list \<Rightarrow> ShortfinRecords \<Rightarrow> Certificate list" where
  "collect_wave lib commit_round s validity leader_blocks records =
     (let anchored = anchored_counts records commit_round;
          seeds = wave_seeds lib commit_round validity leader_blocks records;
          index = wave_index commit_round s records;
          reachable = causal_reachability seeds index (last_committed s);
          certified_targets =
            qc_targets (filter (\<lambda>cert. h_id (header cert) \<in> set reachable) (values_of index))
            @ qc_targets (records_at_round records commit_round);
          blocks = filter (\<lambda>cert.
              cert_round cert < commit_round \<and> not_yet_committed (last_committed s) cert \<and>
              (h_id (header cert) \<in> set certified_targets \<and> votes cert \<noteq> []) \<and>
              (if cert_round cert = u64_sub commit_round 1
               then is_anchored lib anchored validity cert
               else h_id (header cert) \<in> set reachable)) (values_of records)
      in sort_key (\<lambda>c. (cert_round c, h_id (header c))) blocks)"

section \<open>The receive loop\<close>

record ShortfinState =
  sf_state :: State
  sf_records :: ShortfinRecords
  sf_processed :: "Round list"

definition shortfin_new :: "CryptoLib \<Rightarrow> Consensus \<Rightarrow> ShortfinState" where
  "shortfin_new lib con =
     \<lparr>sf_state = state_new lib (con_genesis con),
      sf_records = foldl (\<lambda>m c. AList.update (cert_digest lib c) c m) [] (con_genesis con),
      sf_processed = []\<rparr>"

definition shortfin_step ::
    "CryptoLib \<Rightarrow> Consensus \<times> ShortfinState \<Rightarrow> Certificate
     \<Rightarrow> ((Consensus \<times> ShortfinState) \<times> Certificate list) outcome" where
  "shortfin_step lib cs certificate =
     (let con = fst cs;
          sf = (snd cs)\<lparr>sf_processed := filter (\<lambda>r. r \<ge> last_committed_round (sf_state (snd cs)) - con_gc_depth con)
                                         (sf_processed (snd cs))\<rparr>;
          round = cert_round certificate
      in if committed_upto (last_committed (sf_state sf)) certificate then Inr ((con, sf), [])
         else (let sr = insert_record lib (sf_state sf) (sf_records sf) certificate;
                   sf1 = sf\<lparr>sf_state := fst sr, sf_records := snd sr\<rparr>;
                   s = fst sr; records = snd sr
               in if round < WAVE \<or> round mod WAVE \<noteq> 0 \<or> round \<in> set (sf_processed sf1)
                  then Inr ((con, sf1), [])
                  else if \<not> round_ended round (con_name con) con s then Inr ((con, sf1), [])
                  else if round - 3 \<le> last_committed_round s then Inr ((con, sf1), [])
                  else rbind (verify_leader_chain lib con round s records) (\<lambda>(con1, chain).
                    case chain of
                      Inl _ \<Rightarrow> Inr ((con1, sf1), [])
                    | Inr (b3, b2, b1) \<Rightarrow>
                        (let sequence = collect_wave lib round s
                                          (unat (validity_threshold (con_committee con))) [b3, b2, b1] records;
                             s' = commit_all (con_gc_depth con) sequence s;
                             min_round = last_committed_round s' - con_gc_depth con
                         in Inr ((con1, \<lparr>sf_state = s',
                                         sf_records = filter (\<lambda>(_, c). cert_round c \<ge> min_round) records,
                                         sf_processed = List.insert round (sf_processed sf1)\<rparr>), sequence)))))"

definition shortfin_run ::
    "CryptoLib \<Rightarrow> Consensus \<Rightarrow> Certificate list
     \<Rightarrow> ((Consensus \<times> ShortfinState) \<times> Certificate list) outcome" where
  "shortfin_run lib con xs = run_steps (shortfin_step lib) (con, shortfin_new lib con) xs"

section \<open>The loop computes reachability\<close>

definition live :: "(PublicKey \<times> Round) list \<Rightarrow> Round \<Rightarrow> Certificate \<Rightarrow> bool" where
  "live lc floor c \<longleftrightarrow> \<not> cert_round c < floor \<and> \<not> committed_upto lc c"

definition refers :: "(Digest \<times> Certificate) list \<Rightarrow> Certificate \<Rightarrow> Certificate \<Rightarrow> bool" where
  "refers index x y \<longleftrightarrow>
     (\<exists>d \<in> set (h_parents (header x)) \<union> set (h_parents_2 (header x)). map_of index d = Some y)"

inductive reached ::
    "(Digest \<times> Certificate) list \<Rightarrow> (PublicKey \<times> Round) list \<Rightarrow> Round \<Rightarrow> Certificate list \<Rightarrow> Certificate \<Rightarrow> bool"
  for index lc floor seeds where
  seed: "x \<in> set seeds \<Longrightarrow> live lc floor x \<Longrightarrow> reached index lc floor seeds x"
| link: "reached index lc floor seeds x \<Longrightarrow> refers index x y \<Longrightarrow> live lc floor y \<Longrightarrow>
           reached index lc floor seeds y"

inductive_cases reached_cases: "reached index lc floor seeds x"

lemma pushes_refer:
  "y \<in> set (parent_pushes index R (h_parents (header x)) @ parent_pushes index R (h_parents_2 (header x)))
   \<longleftrightarrow> refers index x y \<and> h_id (header y) \<notin> set R"
  by (auto simp: parent_pushes_iff refers_def)

lemma reach_loop_sound:
  assumes "\<forall>b \<in> set buffer. live lc floor b \<longrightarrow> reached index lc floor seeds b"
    and "m \<in> set (reach_loop index lc floor R buffer)"
  shows "m \<in> set R \<or> (\<exists>x. reached index lc floor seeds x \<and> h_id (header x) = m)"
  using assms
proof (induction index lc floor R buffer rule: reach_loop.induct)
  case (1 index lc floor R)
  then show ?case by (simp add: reach_loop.simps)
next
  case (2 index lc floor R cert buffer)
  show ?case
  proof (cases "cert_round cert < floor \<or> committed_upto lc cert \<or> h_id (header cert) \<in> set R")
    case True
    with "2.IH"(1) "2.prems" show ?thesis by (simp add: reach_loop.simps)
  next
    case False
    let ?R = "h_id (header cert) # R"
    have r: "reached index lc floor seeds cert" using False "2.prems"(1) by (simp add: live_def)
    have "\<forall>b \<in> set (rev (parent_pushes index ?R (h_parents (header cert))
        @ parent_pushes index ?R (h_parents_2 (header cert))) @ buffer).
        live lc floor b \<longrightarrow> reached index lc floor seeds b"
      using "2.prems"(1) link [OF r] pushes_refer [of _ index ?R cert] by auto
    from "2.IH"(2) [OF False refl this] "2.prems"(2) False r show ?thesis
      by (auto simp: reach_loop.simps Let_def)
  qed
qed

text \<open>Records of one header identifier carry one header (the identifier is its hash).\<close>

definition ids_unique :: "Certificate set \<Rightarrow> bool" where
  "ids_unique U \<longleftrightarrow> (\<forall>x \<in> U. \<forall>y \<in> U. h_id (header x) = h_id (header y) \<longrightarrow> header x = header y)"

lemma ids_unique_subset: "ids_unique U \<Longrightarrow> V \<subseteq> U \<Longrightarrow> ids_unique V"
  unfolding ids_unique_def by blast

definition marks_closed ::
    "(Digest \<times> Certificate) list \<Rightarrow> (PublicKey \<times> Round) list \<Rightarrow> Round \<Rightarrow> Certificate set \<Rightarrow> Digest list
     \<Rightarrow> Certificate list \<Rightarrow> bool" where
  "marks_closed index lc floor U R buffer \<longleftrightarrow>
     (\<forall>x \<in> U. h_id (header x) \<in> set R \<longrightarrow>
        (\<forall>y. refers index x y \<longrightarrow> live lc floor y \<longrightarrow> h_id (header y) \<in> set R \<or> y \<in> set buffer))"

lemma reach_loop_complete:
  assumes "ids_unique U" and "set buffer \<subseteq> U" and "set (values_of index) \<subseteq> U"
    and "marks_closed index lc floor U R buffer"
  defines "M \<equiv> reach_loop index lc floor R buffer"
  shows "set R \<subseteq> set M \<and> marks_closed index lc floor U M [] \<and>
         (\<forall>b \<in> set buffer. live lc floor b \<longrightarrow> h_id (header b) \<in> set M)"
  using assms(1-4) unfolding M_def
proof (induction index lc floor R buffer rule: reach_loop.induct)
  case (1 index lc floor R)
  then show ?case by (simp add: reach_loop.simps)
next
  case (2 index lc floor R cert buffer)
  show ?case
  proof (cases "cert_round cert < floor \<or> committed_upto lc cert \<or> h_id (header cert) \<in> set R")
    case True
    have "marks_closed index lc floor U R buffer"
      using "2.prems"(4) True unfolding marks_closed_def live_def by auto
    with "2.IH"(1) [OF True] "2.prems"(1-3) True show ?thesis
      by (auto simp: reach_loop.simps live_def)
  next
    case False
    let ?R = "h_id (header cert) # R"
    let ?B = "rev (parent_pushes index ?R (h_parents (header cert))
        @ parent_pushes index ?R (h_parents_2 (header cert))) @ buffer"
    have sub: "set ?B \<subseteq> U" using "2.prems"(2,3) parent_pushes_index by fastforce
    have "marks_closed index lc floor U ?R ?B"
      unfolding marks_closed_def
    proof (intro ballI impI allI)
      fix x y
      assume x: "x \<in> U" "h_id (header x) \<in> set ?R" and y: "refers index x y" "live lc floor y"
      show "h_id (header y) \<in> set ?R \<or> y \<in> set ?B"
      proof (cases "h_id (header x) \<in> set R")
        case True
        then show ?thesis using "2.prems"(4) x(1) y unfolding marks_closed_def by auto
      next
        case new: False
        then have "header x = header cert"
          using x "2.prems"(1,2) unfolding ids_unique_def by auto
        then have "refers index cert y" using y(1) by (simp add: refers_def)
        then show ?thesis using pushes_refer [of y index ?R cert] by auto
      qed
    qed
    from "2.IH"(2) [OF False refl "2.prems"(1) sub "2.prems"(3) this] False show ?thesis
      by (auto simp: reach_loop.simps Let_def)
  qed
qed

lemma causal_reachability_ids:
  assumes "ids_unique (set seeds \<union> set (values_of index))"
  shows "set (causal_reachability seeds index lc) =
     (\<lambda>c. h_id (header c)) ` {x. reached index lc (reach_floor seeds) seeds x}"
proof
  let ?U = "set seeds \<union> set (values_of index)" and ?M = "causal_reachability seeds index lc"
  show "set ?M \<subseteq> (\<lambda>c. h_id (header c)) ` {x. reached index lc (reach_floor seeds) seeds x}"
    using reach_loop_sound [of "rev seeds" lc "reach_floor seeds" index seeds _ "[]"]
    by (fastforce simp: causal_reachability_def intro: seed)
  have c: "marks_closed index lc (reach_floor seeds) ?U ?M []"
    "\<And>b. b \<in> set seeds \<Longrightarrow> live lc (reach_floor seeds) b \<Longrightarrow> h_id (header b) \<in> set ?M"
    using reach_loop_complete [OF assms, of "rev seeds" index lc "reach_floor seeds" "[]"]
    by (auto simp: causal_reachability_def marks_closed_def)
  have "x \<in> ?U \<and> h_id (header x) \<in> set ?M" if "reached index lc (reach_floor seeds) seeds x" for x
    using that
  proof (induction rule: reached.induct)
    case (seed x)
    with c(2) show ?case by simp
  next
    case (link x y)
    then have "y \<in> set (values_of index)" by (force simp: refers_def dest: map_of_SomeD)
    with link c(1) show ?case unfolding marks_closed_def by fastforce
  qed
  then show "(\<lambda>c. h_id (header c)) ` {x. reached index lc (reach_floor seeds) seeds x} \<subseteq> set ?M" by auto
qed

section \<open>Records are kept and only upgraded\<close>

definition wf_records :: "CryptoLib \<Rightarrow> ShortfinRecords \<Rightarrow> bool" where
  "wf_records lib records \<longleftrightarrow> wf_map records \<and> (\<forall>d c. (d, c) \<in> set records \<longrightarrow> d = cert_digest lib c)"

definition insert_records :: "CryptoLib \<Rightarrow> State \<times> ShortfinRecords \<Rightarrow> Certificate list \<Rightarrow> State \<times> ShortfinRecords" where
  "insert_records lib = foldl (\<lambda>(s, records) c. insert_record lib s records c)"

lemma insert_record_records:
  assumes "insert_record lib s records c = (s', records')"
  shows "map_of records' d =
     (if d = cert_digest lib c
      then (case map_of records d of None \<Rightarrow> Some c | Some old \<Rightarrow> Some (if upgrades old c then c else old))
      else map_of records d)"
    and "wf_records lib records \<Longrightarrow> wf_records lib records'"
proof -
  have r': "records' = (case map_of records (cert_digest lib c) of
      Some stored \<Rightarrow> if upgrades stored c then AList.update (cert_digest lib c) c records else records
    | None \<Rightarrow> AList.update (cert_digest lib c) c records)"
    using assms by (simp add: insert_record_def Let_def)
  show "map_of records' d =
     (if d = cert_digest lib c
      then (case map_of records d of None \<Rightarrow> Some c | Some old \<Rightarrow> Some (if upgrades old c then c else old))
      else map_of records d)"
    unfolding r' by (simp split: option.split)
  have "wf_records lib records \<Longrightarrow> wf_records lib (AList.update (cert_digest lib c) c records)"
    by (auto simp: wf_records_def in_set_update_iff split: if_splits)
  then show "wf_records lib records \<Longrightarrow> wf_records lib records'"
    unfolding r' by (simp split: option.split)
qed

text \<open>What a record store holds of a digest, in terms of everything inserted so far.\<close>

definition holds_best :: "CryptoLib \<Rightarrow> Certificate set \<Rightarrow> ShortfinRecords \<Rightarrow> bool" where
  "holds_best lib X records \<longleftrightarrow>
     (\<forall>d. case map_of records d of
            None \<Rightarrow> \<not> (\<exists>x \<in> X. cert_digest lib x = d)
          | Some c \<Rightarrow> c \<in> X \<and> cert_digest lib c = d \<and>
                      (votes c = [] \<longrightarrow> (\<forall>x \<in> X. cert_digest lib x = d \<longrightarrow> votes x = [])))"

lemma insert_record_best:
  assumes "holds_best lib X records" and "insert_record lib s records c = (s', records')"
  shows "holds_best lib (insert c X) records'"
  unfolding holds_best_def
proof
  fix d
  have old: "case map_of records d of
            None \<Rightarrow> \<not> (\<exists>x \<in> X. cert_digest lib x = d)
          | Some c \<Rightarrow> c \<in> X \<and> cert_digest lib c = d \<and>
                      (votes c = [] \<longrightarrow> (\<forall>x \<in> X. cert_digest lib x = d \<longrightarrow> votes x = []))"
    using assms(1) by (simp add: holds_best_def)
  show "case map_of records' d of
            None \<Rightarrow> \<not> (\<exists>x \<in> insert c X. cert_digest lib x = d)
          | Some c' \<Rightarrow> c' \<in> insert c X \<and> cert_digest lib c' = d \<and>
                      (votes c' = [] \<longrightarrow> (\<forall>x \<in> insert c X. cert_digest lib x = d \<longrightarrow> votes x = []))"
    using old unfolding insert_record_records(1) [OF assms(2)]
    by (auto simp: upgrades_def split: option.splits)
qed

lemma insert_records_best:
  assumes "holds_best lib X records" and "insert_records lib (s, records) xs = (s', records')"
  shows "holds_best lib (X \<union> set xs) records'"
  using assms
proof (induction xs arbitrary: s records X)
  case (Cons x xs)
  obtain s1 r1 where i: "insert_record lib s records x = (s1, r1)" by fastforce
  have "insert_records lib (s1, r1) xs = (s', records')"
    using Cons.prems(2) i by (simp add: insert_records_def)
  from Cons.IH [OF insert_record_best [OF Cons.prems(1) i] this] show ?case by simp
qed (simp add: insert_records_def)

section \<open>The chain search\<close>

lemma first_some_Some:
  "first_some f xs = Some y \<Longrightarrow> \<exists>x \<in> set xs. f x = Some y"
  by (induction xs) (auto split: option.splits)

lemma first_some_None: "first_some f xs = None \<longleftrightarrow> (\<forall>x \<in> set xs. f x = None)"
  by (induction xs) (auto split: option.splits)

lemma find_chain_Some:
  "find_chain cr b3s b2s b1s = Some (b3, b2, b1) \<Longrightarrow>
     b3 \<in> set b3s \<and> b2 \<in> set b2s \<and> b1 \<in> set b1s \<and> embedded_qc_links b2 b3 cr \<and> embedded_qc_links b1 b2 cr"
  unfolding find_chain_def by (auto dest!: first_some_Some split: if_splits)

lemma find_chain_None:
  "find_chain cr b3s b2s b1s = None \<Longrightarrow> b3 \<in> set b3s \<Longrightarrow> b2 \<in> set b2s \<Longrightarrow> b1 \<in> set b1s \<Longrightarrow>
     \<not> (embedded_qc_links b2 b3 cr \<and> embedded_qc_links b1 b2 cr)"
  unfolding find_chain_def first_some_None by (fastforce simp: first_some_None split: if_splits)

lemma set_chain_candidates:
  "c \<in> set (chain_candidates lib records r a) \<longleftrightarrow>
     c \<in> set (values_of records) \<and> cert_round c = r \<and> cert_origin c = a"
  by (auto simp: chain_candidates_def records_at_round_def)

definition is_chain ::
    "ShortfinRecords \<Rightarrow> Round \<Rightarrow> PublicKey \<Rightarrow> Certificate \<Rightarrow> Certificate \<Rightarrow> Certificate \<Rightarrow> bool" where
  "is_chain records cr a b3 b2 b1 \<longleftrightarrow>
     {b3, b2, b1} \<subseteq> set (values_of records) \<and> cert_origin b3 = a \<and> cert_origin b2 = a \<and> cert_origin b1 = a \<and>
     cert_round b3 = cr - 3 \<and> cert_round b2 = cr - 2 \<and> cert_round b1 = cr - 1 \<and>
     embedded_qc_links b2 b3 cr \<and> embedded_qc_links b1 b2 cr"

text \<open>The coin certificates of the boundary round.\<close>

definition boundary_certificates :: "State \<Rightarrow> Round \<Rightarrow> Certificate list" where
  "boundary_certificates s cr = (case map_of (dag s) cr of None \<Rightarrow> [] | Some m \<Rightarrow> round_certificates m)"

lemma verify_leader_chain_cases:
  assumes "verify_leader_chain lib con cr s records = Inr (con', res)" and "4 \<le> cr" and "cr < 2 ^ 64"
  obtains (none) "leader_authority_from_certificates lib con (cr - 3) cr 0 (boundary_certificates s cr)
                    = Inr (con', None)" and "res = Inl LeaderUnavailable"
    | (leader) a where "leader_authority_from_certificates lib con (cr - 3) cr 0 (boundary_certificates s cr)
                    = Inr (con', Some a)"
      and "case res of Inr (b3, b2, b1) \<Rightarrow> is_chain records cr a b3 b2 b1
           | Inl _ \<Rightarrow> \<not> (\<exists>b3 b2 b1. is_chain records cr a b3 b2 b1)"
proof -
  have r: "u64_sub cr 3 = cr - 3" "u64_add (cr - 3) (Suc 0) = cr - 2" "u64_add (cr - 3) 2 = cr - 1"
    using assms(2,3) by simp_all
  let ?L = "leader_authority_from_certificates lib con (cr - 3) cr 0 (boundary_certificates s cr)"
  from assms(1) obtain l where l: "?L = Inr (con', l)"
    by (auto simp: verify_leader_chain_def Let_def r boundary_certificates_def)
  show thesis
  proof (cases l)
    case None
    with l assms(1) have "res = Inl LeaderUnavailable"
      by (auto simp: verify_leader_chain_def Let_def r boundary_certificates_def)
    with l None none show thesis by simp
  next
    case (Some a)
    let ?b3 = "chain_candidates lib records (cr - 3) a" and ?b2 = "chain_candidates lib records (cr - 2) a"
      and ?b1 = "chain_candidates lib records (cr - 1) a"
    have res: "res = (if ?b3 = [] then Inl LeaderUnavailable else if ?b2 = [] then Inl MissingB2
        else if ?b1 = [] then Inl MissingB1
        else case find_chain cr ?b3 ?b2 ?b1 of Some t \<Rightarrow> Inr t | None \<Rightarrow> Inl QcChainInvalid)"
      using l Some assms(1) unfolding One_nat_def
      by (auto simp: verify_leader_chain_def Let_def r boundary_certificates_def split del: if_split)
    have chain: "is_chain records cr a b3 b2 b1 \<longleftrightarrow> b3 \<in> set ?b3 \<and> b2 \<in> set ?b2 \<and> b1 \<in> set ?b1 \<and>
        embedded_qc_links b2 b3 cr \<and> embedded_qc_links b1 b2 cr" for b3 b2 b1
      by (auto simp: is_chain_def set_chain_candidates)
    have "case res of Inr (b3, b2, b1) \<Rightarrow> is_chain records cr a b3 b2 b1
        | Inl _ \<Rightarrow> \<not> (\<exists>b3 b2 b1. is_chain records cr a b3 b2 b1)"
      unfolding res chain
      by (auto split: option.split dest: find_chain_Some find_chain_None)
    with l Some leader show thesis by blast
  qed
qed

section \<open>Anchors\<close>

lemma map_of_refs:
  "(case map_of (refs_by_author cs) a of None \<Rightarrow> {} | Some ds \<Rightarrow> set ds)
     = (\<Union>c \<in> {c \<in> set cs. cert_origin c = a}. set (h_parents (header c)))"
  "wf_map (refs_by_author cs)"
proof -
  define f where "f = (\<lambda>m c. AList.update (cert_origin c)
              (fold List.insert (h_parents (header c))
                (case map_of m (cert_origin c) of None \<Rightarrow> [] | Some ds \<Rightarrow> ds)) m)"
  have ins: "set (fold List.insert xs ys) = set xs \<union> set ys" for xs ys :: "Digest list"
    by (induction xs arbitrary: ys) auto
  have "(case map_of (foldl f m cs) a of None \<Rightarrow> {} | Some ds \<Rightarrow> set ds)
      = (case map_of m a of None \<Rightarrow> {} | Some ds \<Rightarrow> set ds)
        \<union> (\<Union>c \<in> {c \<in> set cs. cert_origin c = a}. set (h_parents (header c)))" for m
  proof (induction cs arbitrary: m)
    case (Cons c cs)
    have "(case map_of (f m c) a of None \<Rightarrow> {} | Some ds \<Rightarrow> set ds)
        = (case map_of m a of None \<Rightarrow> {} | Some ds \<Rightarrow> set ds)
          \<union> (if cert_origin c = a then set (h_parents (header c)) else {})"
      by (auto simp: f_def ins split: option.splits)
    then show ?case using Cons.IH [of "f m c"] by auto
  qed simp
  from this [of "[]"] show "(case map_of (refs_by_author cs) a of None \<Rightarrow> {} | Some ds \<Rightarrow> set ds)
     = (\<Union>c \<in> {c \<in> set cs. cert_origin c = a}. set (h_parents (header c)))"
    by (simp add: refs_by_author_def f_def)
  have "wf_map m \<Longrightarrow> wf_map (foldl f m cs)" for m
    by (induction cs arbitrary: m) (auto simp: f_def)
  then show "wf_map (refs_by_author cs)" by (simp add: refs_by_author_def f_def [symmetric])
qed

definition authors_of :: "(Digest \<times> PublicKey list) list \<Rightarrow> Digest \<Rightarrow> PublicKey list" where
  "authors_of m d = (case map_of m d of None \<Rightarrow> [] | Some as \<Rightarrow> as)"

lemma add_author:
  "authors_of (foldl (\<lambda>m parent. AList.update parent
       (List.insert author (case map_of m parent of None \<Rightarrow> [] | Some as \<Rightarrow> as)) m) m ps) d
   = (if d \<in> set ps then List.insert author (authors_of m d) else authors_of m d)"
  by (induction ps arbitrary: m) (auto simp: authors_of_def)

lemma anchored_authors_of:
  "distinct (authors_of (anchored_authors refs) d) \<and>
   set (authors_of (anchored_authors refs) d) = {a. \<exists>ds. (a, ds) \<in> set refs \<and> d \<in> set ds}"
proof -
  define g where "g = (\<lambda>(m :: (Digest \<times> PublicKey list) list) (author :: PublicKey, parents).
       foldl (\<lambda>m parent. AList.update parent
                (List.insert author (case map_of m parent of None \<Rightarrow> [] | Some as \<Rightarrow> as)) m) m parents)"
  have "distinct (authors_of m d) \<Longrightarrow> distinct (authors_of (foldl g m refs) d) \<and>
      set (authors_of (foldl g m refs) d) = set (authors_of m d) \<union> {a. \<exists>ds. (a, ds) \<in> set refs \<and> d \<in> set ds}" for m
  proof (induction refs arbitrary: m)
    case (Cons ap refs)
    obtain a ps where ap: "ap = (a, ps)" by fastforce
    have "authors_of (g m ap) d = (if d \<in> set ps then List.insert a (authors_of m d) else authors_of m d)"
      using add_author [of a m ps d] by (simp add: g_def ap)
    with Cons.IH [of "g m ap"] Cons.prems ap show ?case by auto
  qed simp
  from this [of "[]"] show ?thesis by (simp add: anchored_authors_def g_def authors_of_def)
qed

text \<open>The authors of boundary records that refer to a digest.\<close>

definition referrers :: "ShortfinRecords \<Rightarrow> Round \<Rightarrow> Digest \<Rightarrow> PublicKey set" where
  "referrers records cr d =
     cert_origin ` {c \<in> set (values_of records). cert_round c = cr \<and> d \<in> set (h_parents (header c))}"

lemma anchored_card:
  assumes "0 < v"
  shows "is_anchored lib (anchored_counts records cr) v cert \<longleftrightarrow>
     v \<le> card (referrers records cr (cert_digest lib cert))"
proof -
  let ?d = "cert_digest lib cert" and ?refs = "refs_by_author (records_at_round records cr)"
  have "(\<exists>ds. (a, ds) \<in> set ?refs \<and> ?d \<in> set ds) \<longleftrightarrow> a \<in> referrers records cr ?d" for a
  proof -
    have "(a, ds) \<in> set ?refs \<longleftrightarrow> map_of ?refs a = Some ds" for ds by (simp add: map_of_refs(2))
    then have "(\<exists>ds. (a, ds) \<in> set ?refs \<and> ?d \<in> set ds)
        \<longleftrightarrow> ?d \<in> (case map_of ?refs a of None \<Rightarrow> {} | Some ds \<Rightarrow> set ds)"
      by (simp split: option.split)
    then show ?thesis by (auto simp: map_of_refs(1) referrers_def records_at_round_def)
  qed
  then have as: "distinct (authors_of (anchored_authors ?refs) ?d)"
    "set (authors_of (anchored_authors ?refs) ?d) = referrers records cr ?d"
    using anchored_authors_of by auto
  have look: "map_of (anchored_counts records cr) ?d = map_option length (map_of (anchored_authors ?refs) ?d)"
    unfolding anchored_counts_def by (rule map_of_map_values)
  show ?thesis
    using as distinct_card [OF as(1)] assms
    by (auto simp: is_anchored_def look authors_of_def split: option.splits)
qed

section \<open>What a wave contains\<close>

definition wave_reached ::
    "CryptoLib \<Rightarrow> Round \<Rightarrow> State \<Rightarrow> nat \<Rightarrow> Certificate list \<Rightarrow> ShortfinRecords \<Rightarrow> Digest \<Rightarrow> bool" where
  "wave_reached lib cr s v lb records i \<longleftrightarrow>
     (\<exists>x. reached (wave_index cr s records) (last_committed s) (reach_floor (wave_seeds lib cr v lb records))
            (wave_seeds lib cr v lb records) x \<and> h_id (header x) = i)"

definition has_qc_witness ::
    "CryptoLib \<Rightarrow> Round \<Rightarrow> State \<Rightarrow> nat \<Rightarrow> Certificate list \<Rightarrow> ShortfinRecords \<Rightarrow> Digest \<Rightarrow> bool" where
  "has_qc_witness lib cr s v lb records i \<longleftrightarrow>
     (\<exists>w \<in> set (values_of records). \<exists>qc. h_qc (header w) = Some qc \<and> qc_target qc = i \<and>
        (cert_round w = cr \<or> (cert_round w < cr \<and> not_yet_committed (last_committed s) w \<and>
                              wave_reached lib cr s v lb records (h_id (header w)))))"

definition wave_block ::
    "CryptoLib \<Rightarrow> Round \<Rightarrow> State \<Rightarrow> nat \<Rightarrow> Certificate list \<Rightarrow> ShortfinRecords \<Rightarrow> Certificate \<Rightarrow> bool" where
  "wave_block lib cr s v lb records c \<longleftrightarrow>
     c \<in> set (values_of records) \<and> cert_round c < cr \<and> not_yet_committed (last_committed s) c \<and> votes c \<noteq> [] \<and>
     has_qc_witness lib cr s v lb records (h_id (header c)) \<and>
     (if cert_round c = cr - 1 then v \<le> card (referrers records cr (cert_digest lib c))
      else wave_reached lib cr s v lb records (h_id (header c)))"

definition wave_key :: "Certificate \<Rightarrow> Round \<times> Digest" where
  "wave_key c = (cert_round c, h_id (header c))"

lemma wave_key_inj:
  assumes "wf_records lib records" and "ids_unique (set (values_of records))"
  shows "inj_on wave_key (set (values_of records))" and "distinct (values_of records)"
proof -
  have dig: "cert_digest lib x = cert_digest lib y" if "header x = header y" for x y
    using that by (simp add: cert_digest_def cert_preimage_def cert_round_def cert_origin_def)
  have same: "c = c'" if "(d, c) \<in> set records" "(d', c') \<in> set records" "cert_digest lib c = cert_digest lib c'"
    for d c d' c'
    using that assms(1) unfolding wf_records_def by (metis map_of_is_SomeI option.inject)
  show "inj_on wave_key (set (values_of records))"
  proof (rule inj_onI)
    fix x y assume xy: "x \<in> set (values_of records)" "y \<in> set (values_of records)" "wave_key x = wave_key y"
    from xy(3) have "h_id (header x) = h_id (header y)" by (simp add: wave_key_def)
    with xy(1,2) have "header x = header y" using assms(2) unfolding ids_unique_def by blast
    then have "cert_digest lib x = cert_digest lib y" by (rule dig)
    moreover obtain d d' where "(d, x) \<in> set records" "(d', y) \<in> set records" using xy(1,2) by auto
    ultimately show "x = y" using same by blast
  qed
  have keys: "map (cert_digest lib) (values_of records) = keys_of records"
    using assms(1) by (auto simp: wf_records_def)
  have "distinct (map (cert_digest lib) (values_of records))"
    unfolding keys using assms(1) by (simp add: wf_records_def)
  then show "distinct (values_of records)" by (simp only: distinct_map)
qed

lemma qc_targets_iff: "i \<in> set (qc_targets cs) \<longleftrightarrow> (\<exists>w \<in> set cs. \<exists>qc. h_qc (header w) = Some qc \<and> qc_target qc = i)"
  by (auto simp: qc_targets_def List.map_filter_def image_iff) force

lemma wave_reachable:
  assumes "ids_unique (set (values_of records))" and "set lb \<subseteq> set (values_of records)"
  shows "i \<in> set (causal_reachability (wave_seeds lib cr v lb records) (wave_index cr s records) (last_committed s))
    \<longleftrightarrow> wave_reached lib cr s v lb records i"
proof -
  have "set (wave_seeds lib cr v lb records) \<union> set (values_of (wave_index cr s records)) \<subseteq> set (values_of records)"
    using assms(2) by (auto simp: wave_seeds_def wave_index_def records_at_round_def)
  then have "ids_unique (set (wave_seeds lib cr v lb records) \<union> set (values_of (wave_index cr s records)))"
    by (rule ids_unique_subset [OF assms(1)])
  from causal_reachability_ids [OF this] show ?thesis by (auto simp: wave_reached_def)
qed

lemma collect_wave_set:
  assumes "ids_unique (set (values_of records))" and "set lb \<subseteq> set (values_of records)" and "0 < v" and "0 < cr"
  shows "set (collect_wave lib cr s v lb records) = {c. wave_block lib cr s v lb records c}"
proof -
  note reach = wave_reachable [OF assms(1,2)]
  have sub: "u64_sub cr 1 = cr - 1" using assms(4) by simp
  have "i \<in> set (qc_targets (filter (\<lambda>cert. wave_reached lib cr s v lb records (h_id (header cert)))
          (values_of (wave_index cr s records))) @ qc_targets (records_at_round records cr))
      \<longleftrightarrow> has_qc_witness lib cr s v lb records i" for i
    unfolding set_append Un_iff qc_targets_iff has_qc_witness_def
    by (fastforce simp: wave_index_def records_at_round_def)
  then show ?thesis
    unfolding collect_wave_def Let_def set_sort
    by (auto simp: reach sub anchored_card [OF assms(3)] wave_block_def)
qed

lemma collect_wave_sorted:
  assumes "wf_records lib records" and "ids_unique (set (values_of records))"
  shows "sorted_wrt (\<lambda>a b. wave_key a < wave_key b) (collect_wave lib cr s v lb records)"
proof -
  let ?xs = "collect_wave lib cr s v lb records"
  have "sorted (map wave_key ?xs)"
    unfolding collect_wave_def Let_def wave_key_def by (rule sorted_sort_key)
  moreover have "distinct (map wave_key ?xs)"
  proof -
    have "set ?xs \<subseteq> set (values_of records)" by (auto simp: collect_wave_def Let_def)
    moreover have "distinct ?xs" using wave_key_inj(2) [OF assms] by (simp add: collect_wave_def Let_def)
    ultimately show ?thesis
      using wave_key_inj(1) [OF assms] by (simp add: distinct_map inj_on_subset)
  qed
  ultimately have "sorted_wrt (<) (map wave_key ?xs)" by (simp only: strict_sorted_iff)
  then show ?thesis by (simp add: sorted_wrt_map)
qed

lemma reached_cong:
  assumes "map_of index = map_of index'" and "set seeds = set seeds'"
  shows "reached index lc floor seeds x = reached index' lc floor seeds' x"
proof -
  have mono: "reached i' lc floor ss' x"
    if "reached i lc floor ss x" "map_of i = map_of i'" "set ss = set ss'" for i i' ss ss'
    using that
  proof (induction rule: reached.induct)
    case (seed x)
    then show ?case by (intro reached.seed) simp_all
  next
    case (link x y)
    then have "refers i' x y" by (simp add: refers_def)
    with link show ?case by (blast intro: reached.link)
  qed
  show ?thesis using mono [of index seeds index' seeds'] mono [of index' seeds' index seeds] assms by auto
qed

lemma sorted_wrt_key_unique:
  fixes k :: "'a \<Rightarrow> 'b :: linorder"
  assumes "sorted_wrt (\<lambda>a b. k a < k b) xs" and "sorted_wrt (\<lambda>a b. k a < k b) ys" and "set xs = set ys"
    and "inj_on k (set xs)"
  shows "xs = ys"
proof -
  have "sorted_wrt (<) (map k xs)" "sorted_wrt (<) (map k ys)"
    using assms(1,2) by (simp_all add: sorted_wrt_map)
  then have "map k xs = map k ys" using assms(3) by (intro strict_sorted_equal) auto
  then show ?thesis using assms(3,4) by (auto intro: map_inj_on)
qed

text \<open>Two iteration orders of one hash map.\<close>

lemma same_records:
  assumes "wf_map records" and "mset records = mset records'"
  shows "wf_map records'" and "map_of records = map_of records'" and "set (values_of records) = set (values_of records')"
    and "mset (filter P records) = mset (filter P records')"
proof -
  show w: "wf_map records'" using assms by (metis mset_eq_imp_distinct_iff mset_map)
  have s: "set records = set records'" using assms(2) by (rule mset_eq_setD)
  show "map_of records = map_of records'" using assms(1) w s by (rule map_of_inject_set [THEN iffD2])
  show "set (values_of records) = set (values_of records')" using s by simp
  show "mset (filter P records) = mset (filter P records')" using assms(2) by simp
qed

lemma reach_floor_cong:
  assumes "set xs = set ys"
  shows "reach_floor xs = reach_floor ys"
proof -
  have "xs = [] \<longleftrightarrow> ys = []" using assms by (metis set_empty)
  then show ?thesis by (simp add: reach_floor_def assms)
qed

lemma wave_block_order:
  assumes "wf_map records" and "mset records = mset records'" and "0 < v"
  shows "wave_block lib cr s v lb records = wave_block lib cr s v lb records'"
proof -
  note same = same_records [OF assms(1,2)]
  have ref: "referrers records cr d = referrers records' cr d" for d
    unfolding referrers_def same(3) ..
  have anch: "is_anchored lib (anchored_counts records cr) v c = is_anchored lib (anchored_counts records' cr) v c" for c
    by (simp add: anchored_card [OF assms(3)] ref)
  have seeds: "set (wave_seeds lib cr v lb records) = set (wave_seeds lib cr v lb records')"
    unfolding wave_seeds_def records_at_round_def set_append set_filter same(3) anch ..
  then have floor: "reach_floor (wave_seeds lib cr v lb records) = reach_floor (wave_seeds lib cr v lb records')"
    by (rule reach_floor_cong)
  have "map_of (wave_index cr s records) = map_of (wave_index cr s records')"
    using same_records [of "wave_index cr s records" "wave_index cr s records'"] assms(1,2)
    by (simp add: wave_index_def)
  then have reach: "wave_reached lib cr s v lb records i = wave_reached lib cr s v lb records' i" for i
    unfolding wave_reached_def floor using reached_cong [OF _ seeds] by blast
  then have "has_qc_witness lib cr s v lb records i = has_qc_witness lib cr s v lb records' i" for i
    unfolding has_qc_witness_def same(3) by simp
  then show ?thesis unfolding wave_block_def fun_eq_iff same(3) ref reach by simp
qed

lemma chain_candidates_order:
  assumes "wf_records lib records" and "mset records = mset records'"
  shows "chain_candidates lib records r a = chain_candidates lib records' r a"
proof -
  have "inj_on (cert_digest lib) (set (values_of records))"
  proof (rule inj_onI)
    fix x y assume "x \<in> set (values_of records)" "y \<in> set (values_of records)" "cert_digest lib x = cert_digest lib y"
    moreover from this obtain d d' where "(d, x) \<in> set records" "(d', y) \<in> set records" by auto
    ultimately show "x = y" using assms(1) unfolding wf_records_def by (metis map_of_is_SomeI option.inject)
  qed
  then show ?thesis
    unfolding chain_candidates_def records_at_round_def
    using assms(2) by (intro sort_key_mset_unique) (auto intro: inj_on_subset)
qed

section \<open>The run commits in order\<close>

lemma insert_record_wf:
  assumes "wf_state lib s" and "insert_record lib s records c = (s', records')"
  shows "wf_state lib s'" and "last_committed s' = last_committed s"
    and "last_committed_round s' = last_committed_round s"
proof -
  let ?m = "case map_of (dag s) (cert_round c) of None \<Rightarrow> [] | Some m \<Rightarrow> m"
  have m: "wf_round lib (cert_round c) ?m"
    using assms(1) wf_dagD [of lib "dag s"] by (simp add: wf_state_def split: option.split)
  let ?m' = "case map_of ?m (cert_origin c) of
      Some (sd, st) \<Rightarrow> if sd = cert_digest lib c
        then (if upgrades st c then AList.update (cert_origin c) (sd, c) ?m else ?m) else ?m
    | None \<Rightarrow> AList.update (cert_origin c) (cert_digest lib c, c) ?m"
  have m': "wf_round lib (cert_round c) ?m'"
    using m wf_round_update [OF m] by (auto split: option.split)
  have s': "s' = s\<lparr>dag := AList.update (cert_round c) ?m' (dag s)\<rparr>"
    using assms(2) by (simp add: insert_record_def Let_def)
  have "wf_dag lib (AList.update (cert_round c) ?m' (dag s))"
    using assms(1) m' unfolding wf_state_def wf_dag_def by (simp add: in_set_update_iff)
  then show "wf_state lib s'" using assms(1) by (simp add: s' wf_state_def)
  show "last_committed s' = last_committed s" and "last_committed_round s' = last_committed_round s"
    by (simp_all add: s')
qed

definition covers :: "State \<Rightarrow> Certificate set \<Rightarrow> bool" where
  "covers s C \<longleftrightarrow> (\<forall>c \<in> C. \<exists>k. committed_of s (cert_origin c) = Some k \<and> cert_round c \<le> k)"

lemma commit_all_covers:
  assumes "wf_state lib s" and "covers s C"
  shows "wf_state lib (commit_all gc xs s) \<and> covers (commit_all gc xs s) (C \<union> set xs)"
  using assms
proof (induction xs arbitrary: s C)
  case (Cons x xs)
  have "covers (state_update x gc s) (insert x C)"
    using Cons.prems(2) committed_of_update_mono [OF Cons.prems(1)] unfolding covers_def
    by (fastforce simp: state_update_fields(1) [OF Cons.prems(1)] split: option.splits)
  from Cons.IH [OF wf_state_update [OF Cons.prems(1)] this] show ?case by simp
qed simp

definition shortfin_inv :: "CryptoLib \<Rightarrow> ShortfinState \<Rightarrow> Certificate set \<Rightarrow> bool" where
  "shortfin_inv lib sf C \<longleftrightarrow> wf_state lib (sf_state sf) \<and> wf_records lib (sf_records sf) \<and> covers (sf_state sf) C"

definition newer :: "Certificate list \<Rightarrow> Certificate set \<Rightarrow> bool" where
  "newer out C \<longleftrightarrow> (\<forall>c \<in> set out. \<forall>c' \<in> C. cert_origin c' = cert_origin c \<longrightarrow> cert_round c' < cert_round c)"

lemma collect_wave_basic:
  assumes "wf_records lib records"
  shows "distinct (collect_wave lib cr s v lb records)"
    and "sorted (map cert_round (collect_wave lib cr s v lb records))"
    and "c \<in> set (collect_wave lib cr s v lb records) \<Longrightarrow> votes c \<noteq> [] \<and> not_yet_committed (last_committed s) c \<and>
           c \<in> set (values_of records) \<and> cert_round c < cr"
proof -
  have keys: "map (cert_digest lib) (values_of records) = keys_of records"
    using assms by (auto simp: wf_records_def)
  have "distinct (map (cert_digest lib) (values_of records))"
    unfolding keys using assms by (simp add: wf_records_def)
  then have "distinct (values_of records)" by (simp only: distinct_map)
  then show "distinct (collect_wave lib cr s v lb records)" by (simp add: collect_wave_def Let_def)
  have "sorted (map (\<lambda>c. (cert_round c, h_id (header c))) (collect_wave lib cr s v lb records))"
    unfolding collect_wave_def Let_def by (rule sorted_sort_key)
  then show "sorted (map cert_round (collect_wave lib cr s v lb records))"
    unfolding sorted_map by (rule sorted_wrt_mono_rel [rotated]) (auto simp: less_eq_prod_def)
  show "c \<in> set (collect_wave lib cr s v lb records) \<Longrightarrow> votes c \<noteq> [] \<and> not_yet_committed (last_committed s) c \<and>
           c \<in> set (values_of records) \<and> cert_round c < cr"
    by (auto simp: collect_wave_def Let_def)
qed

lemma shortfin_step_cases:
  assumes "shortfin_step lib (con, sf) x = Inr ((con', sf'), out)"
    and ir: "insert_record lib (sf_state sf) (sf_records sf) x = (s, records)"
  obtains (dropped) "out = []" and "sf_state sf' = sf_state sf" and "sf_records sf' = sf_records sf"
    | (stored) "out = []" and "sf_state sf' = s" and "sf_records sf' = records"
    | (committed) b3 b2 b1 n where
        "verify_leader_chain lib con (cert_round x) s records = Inr (con', Inr (b3, b2, b1))"
        and "out = collect_wave lib (cert_round x) s (unat (validity_threshold (con_committee con))) [b3, b2, b1] records"
        and "sf_state sf' = commit_all (con_gc_depth con) out s"
        and "sf_records sf' = filter (\<lambda>(_, c). cert_round c \<ge> n) records"
proof (cases "committed_upto (last_committed (sf_state sf)) x")
  case True
  with assms show thesis by (intro dropped) (auto simp: shortfin_step_def Let_def)
next
  case new: False
  show thesis
  proof (cases "out = [] \<and> sf_state sf' = s \<and> sf_records sf' = records")
    case True
    then show thesis using stored by blast
  next
    case False
    let ?v = "verify_leader_chain lib con (cert_round x) s records"
    have "?v \<noteq> Inl e" for e
      using assms new False by (auto simp: shortfin_step_def Let_def split: if_splits)
    then obtain con1 chain where v: "?v = Inr (con1, chain)" by (cases ?v) auto
    with assms new False obtain b3 b2 b1 where "chain = Inr (b3, b2, b1)"
      by (cases chain) (auto simp: shortfin_step_def Let_def split: if_splits)
    with v assms new False show thesis
      by (intro committed) (auto simp: shortfin_step_def Let_def split: if_splits)
  qed
qed

lemma shortfin_step_ok:
  assumes "shortfin_step lib (con, sf) x = Inr ((con', sf'), out)" and "shortfin_inv lib sf C"
  shows "shortfin_inv lib sf' (C \<union> set out) \<and> newer out C \<and> distinct out \<and> sorted (map cert_round out) \<and>
         (\<forall>c \<in> set out. votes c \<noteq> [])"
proof -
  obtain s records where ir: "insert_record lib (sf_state sf) (sf_records sf) x = (s, records)" by fastforce
  have wf: "wf_state lib s" "last_committed s = last_committed (sf_state sf)"
    using insert_record_wf [OF _ ir] assms(2) by (auto simp: shortfin_inv_def)
  have rec: "wf_records lib records"
    using insert_record_records(2) [OF ir] assms(2) by (simp add: shortfin_inv_def)
  have cov: "covers s C" using assms(2) wf(2) by (simp add: shortfin_inv_def covers_def committed_of_def)
  show ?thesis
  proof (rule shortfin_step_cases [OF assms(1) ir])
    assume "out = []" "sf_state sf' = sf_state sf" "sf_records sf' = sf_records sf"
    with assms(2) show ?thesis by (simp add: shortfin_inv_def newer_def)
  next
    assume "out = []" "sf_state sf' = s" "sf_records sf' = records"
    with wf rec cov show ?thesis by (simp add: shortfin_inv_def newer_def)
  next
    fix b3 b2 b1 n
    assume out: "out = collect_wave lib (cert_round x) s (unat (validity_threshold (con_committee con))) [b3, b2, b1] records"
      and sf': "sf_state sf' = commit_all (con_gc_depth con) out s"
        "sf_records sf' = filter (\<lambda>(_, c). cert_round c \<ge> n) records"
    have basic: "distinct out" "sorted (map cert_round out)"
      "\<And>c. c \<in> set out \<Longrightarrow> votes c \<noteq> [] \<and> not_yet_committed (last_committed s) c"
      using collect_wave_basic [OF rec] unfolding out by blast+
    have "newer out C"
      using basic(3) cov unfolding newer_def covers_def
      by (fastforce simp: not_yet_committed_def committed_of_def split: option.splits)
    moreover have "wf_records lib (sf_records sf')" using rec by (auto simp: sf' wf_records_def)
    ultimately show ?thesis
      using commit_all_covers [OF wf(1) cov, of "con_gc_depth con" out] sf' basic
      by (auto simp: shortfin_inv_def)
  qed
qed

lemma shortfin_inv_new: "shortfin_inv lib (shortfin_new lib con) {}" if "con_genesis con = genesis c"
proof -
  have "wf_records lib m \<Longrightarrow> wf_records lib (foldl (\<lambda>m c. AList.update (cert_digest lib c) c m) m cs)" for m cs
  proof (induction cs arbitrary: m)
    case (Cons c cs)
    have "wf_records lib (AList.update (cert_digest lib c) c m)"
      using Cons.prems by (auto simp: wf_records_def in_set_update_iff split: if_splits)
    with Cons.IH show ?case by simp
  qed simp
  from this [of "[]"] wf_state_new [of lib c] that show ?thesis
    by (simp add: shortfin_inv_def shortfin_new_def covers_def wf_records_def)
qed

lemma shortfin_run_ok:
  assumes "run_steps (shortfin_step lib) (con, sf) xs = Inr ((con', sf'), out)" and "shortfin_inv lib sf C"
  shows "newer out C \<and> distinct out \<and> (\<forall>a. sorted (map cert_round (filter (\<lambda>c. cert_origin c = a) out))) \<and>
         (\<forall>c \<in> set out. votes c \<noteq> [])"
  using assms
proof (induction xs arbitrary: con sf C out)
  case (Cons x xs)
  from Cons.prems(1) obtain con1 sf1 out1 out2 where
    step: "shortfin_step lib (con, sf) x = Inr ((con1, sf1), out1)"
    and run: "run_steps (shortfin_step lib) (con1, sf1) xs = Inr ((con', sf'), out2)" and out: "out = out1 @ out2"
    by auto
  note st = shortfin_step_ok [OF step Cons.prems(2)]
  note IH = Cons.IH [OF run st [THEN conjunct1]]
  have s1: "sorted (map cert_round (filter (\<lambda>c. cert_origin c = a) out1))" for a
    using st by (auto simp: sorted_map intro: sorted_wrt_filter)
  have "sorted (map cert_round (filter (\<lambda>c. cert_origin c = a) out))" for a
    using s1 [of a] IH unfolding out newer_def by (auto simp: sorted_append intro: less_imp_le)
  moreover have "set out1 \<inter> set out2 = {}" using IH unfolding newer_def by fastforce
  ultimately show ?case using st IH unfolding out newer_def by auto
qed (simp add: newer_def)

section \<open>A concrete wave\<close>

text \<open>A certificate with a vote and, optionally, a quorum certificate for an earlier slot.\<close>

definition sf_cert :: "nat \<Rightarrow> nat \<Rightarrow> (nat \<times> nat) list \<Rightarrow> (nat \<times> nat) option \<Rightarrow> Certificate" where
  "sf_cert r k ps qc = (slot_cert r k ps)\<lparr>header := (header (slot_cert r k ps))\<lparr>h_qc := map_option (\<lambda>(r, k).
      \<lparr>qc_target = Digest (word_of_nat (16 * r + k)), qc_round = r, qc_votes = []\<rparr>) qc\<rparr>,
     votes := [vote_new demo_lib [] (header (slot_cert r k ps)) r (PublicKey 1)]\<rparr>"

lemma sf_cert_simps [simp]:
  "cert_round (sf_cert r k ps qc) = r" "cert_origin (sf_cert r k ps qc) = PublicKey (word_of_nat k)"
  "h_id (header (sf_cert r k ps qc)) = Digest (word_of_nat (16 * r + k))"
  "h_parents (header (sf_cert r k ps qc)) = map (\<lambda>(r, k). Digest (word_of_nat (16 * r + k))) ps"
  "h_parents_2 (header (sf_cert r k ps qc)) = []"
  "h_qc (header (sf_cert r k ps qc)) = map_option (\<lambda>(r, k).
      \<lparr>qc_target = Digest (word_of_nat (16 * r + k)), qc_round = r, qc_votes = []\<rparr>) qc"
  "votes (sf_cert r k ps qc) \<noteq> []"
  by (simp_all add: sf_cert_def slot_cert_def cert_round_def cert_origin_def default_header_def)

definition demo_chain :: "Certificate list" where
  "demo_chain = [sf_cert 1 1 [] None, sf_cert 2 1 [(1, 1)] (Some (1, 1)), sf_cert 3 1 [(2, 1)] (Some (2, 1))]"

definition demo_boundary :: "Certificate list" where
  "demo_boundary = [sf_cert 4 1 [(3, 1)] (Some (3, 1)), sf_cert 4 2 [(3, 1)] None, sf_cert 4 3 [] None]"

definition demo_records :: ShortfinRecords where
  "demo_records = map (\<lambda>c. (h_id (header c), c)) (demo_chain @ demo_boundary)"

definition demo_start :: State where
  "demo_start = \<lparr>last_committed_round = 0, last_committed = [], dag = []\<rparr>"

lemmas demo_wave_defs = demo_chain_def demo_boundary_def demo_records_def demo_start_def

lemmas wave_simps = collect_wave_def wave_seeds_def wave_index_def qc_targets_def is_anchored_def
  anchored_counts_def anchored_authors_def refs_by_author_def not_yet_committed_def causal_reachability_def
  reach_floor_def reach_loop.simps parent_pushes_def map_filter_simps committed_upto_def records_at_round_def Let_def

lemma demo_records_ok:
  "wf_records demo_lib demo_records" "ids_unique (set (values_of demo_records))"
  "set demo_chain \<subseteq> set (values_of demo_records)"
  by (auto simp: demo_wave_defs wf_records_def ids_unique_def)

lemma demo_wave: "collect_wave demo_lib 4 demo_start 2 demo_chain demo_records = demo_chain"
  by (simp add: demo_wave_defs wave_simps)

definition demo_genesis_last :: Certificate where
  "demo_genesis_last = \<lparr>header = default_header\<lparr>h_author := PublicKey 4\<rparr>, votes = []\<rparr>"

lemma demo_genesis_last_simps [simp]: "cert_round demo_genesis_last = 0" "cert_origin demo_genesis_last = PublicKey 4"
  "votes demo_genesis_last = []" "h_qc (header demo_genesis_last) = None" "h_parents (header demo_genesis_last) = []"
  "h_parents_2 (header demo_genesis_last) = []" "h_id (header demo_genesis_last) = Digest 0"
  by (simp_all add: demo_genesis_last_def default_header_def cert_round_def cert_origin_def default_digest_def)

lemma demo_shortfin_new: "\<exists>g. shortfin_new demo_lib (demo_consensus Shortfin RoundRobin (PublicKey 1)) =
   \<lparr>sf_state = \<lparr>last_committed_round = 0, last_committed = [(PublicKey 1, 0), (PublicKey 2, 0), (PublicKey 3, 0), (PublicKey 4, 0)],
     dag = [(0, g)]\<rparr>, sf_records = [(Digest 0, demo_genesis_last)], sf_processed = []\<rparr>"
  by (simp add: shortfin_new_def state_new_def genesis_def demo_keys_def demo_consensus_def Let_def cert_origin_def cert_round_def
   demo_genesis_last_def default_header_def default_digest_def)
lemma u32_le [simp]: "\<not> (3 :: u32) \<le> 1" "\<not> (3 :: u32) \<le> 2" "(3::u32) \<le> 3"
  by (simp_all add: word_le_nat_alt)

lemmas step_simps = shortfin_step_def WAVE_def committed_upto_def insert_record_def
   upgrades_def round_ended_def round_has_quorum_def contains_key_def round_certificates_def
   verify_leader_chain_def chain_candidates_def find_chain_def embedded_qc_links_def
   leader_authority_from_certificates_def round_robin_coin_def
  round_robin_slot_def cc_round_robin_def with_leader_def cc_leader_def u64_add_def u64_sub_def demo_consensus_def demo_keys_def

lemma demo_shortfin_run:
  "\<exists>con s. shortfin_run demo_lib (demo_consensus Shortfin RoundRobin (PublicKey 1)) (demo_chain @ demo_boundary)
      = Inr ((con, s), demo_chain)"
proof -
  obtain g where g: "shortfin_new demo_lib (demo_consensus Shortfin RoundRobin (PublicKey 1)) =
   \<lparr>sf_state = \<lparr>last_committed_round = 0, last_committed = [(PublicKey 1, 0), (PublicKey 2, 0), (PublicKey 3, 0), (PublicKey 4, 0)],
     dag = [(0, g)]\<rparr>, sf_records = [(Digest 0, demo_genesis_last)], sf_processed = []\<rparr>"
    using demo_shortfin_new by blast
  define G where "G = genesis demo_committee"
  show ?thesis
    unfolding shortfin_run_def g
    by (simp add: step_simps wave_simps demo_chain_def demo_boundary_def G_def [symmetric])
qed

section \<open>Properties\<close>

text \<open>
  C13. Shortfin commits in order and once.  Over a whole run, whatever certificates arrive
  and in whatever order, no certificate is output twice, the certificates of each author
  are output in ascending rounds, and only certificates that carry votes are output.
\<close>

theorem shortfin_commits_in_order:
  assumes "shortfin_run lib con xs = Inr ((con', sf'), out)" and "con_genesis con = genesis c"
  shows "distinct out \<and> (\<forall>a. sorted (map cert_round (filter (\<lambda>x. cert_origin x = a) out))) \<and>
         (\<forall>x \<in> set out. votes x \<noteq> [])"
  using shortfin_run_ok [OF _ shortfin_inv_new [OF assms(2)]] assms(1)
  by (simp add: shortfin_run_def)

theorem shortfin_commits_in_order_witness:
  "\<exists>con s. shortfin_run demo_lib (demo_consensus Shortfin RoundRobin (PublicKey 1)) (demo_chain @ demo_boundary)
      = Inr ((con, s), demo_chain) \<and> distinct demo_chain"
proof -
  obtain con s where run: "shortfin_run demo_lib (demo_consensus Shortfin RoundRobin (PublicKey 1))
      (demo_chain @ demo_boundary) = Inr ((con, s), demo_chain)"
    using demo_shortfin_run by blast
  moreover have "distinct demo_chain"
    using shortfin_commits_in_order [OF run, of demo_committee] by (simp add: demo_consensus_def)
  ultimately show ?thesis by blast
qed

text \<open>
  C15. The leader chain rule.  At a wave boundary the search reports a chain exactly when
  one exists: with a leader elected, it returns three records of the leader at the three
  rounds before the boundary, each linked to the one before by an embedded quorum
  certificate formed before the boundary, and it fails only if the records hold no such
  three, whatever equivocating records they hold besides.
\<close>

theorem verify_leader_chain_exact:
  assumes "verify_leader_chain lib con cr s records = Inr (con', res)" and "4 \<le> cr" and "cr < 2 ^ 64"
  shows "case leader_authority_from_certificates lib con (cr - 3) cr 0 (boundary_certificates s cr) of
           Inr (con'', Some a) \<Rightarrow> con'' = con' \<and>
             (case res of Inr (b3, b2, b1) \<Rightarrow> is_chain records cr a b3 b2 b1
              | Inl _ \<Rightarrow> \<not> (\<exists>b3 b2 b1. is_chain records cr a b3 b2 b1))
         | Inr (con'', None) \<Rightarrow> con'' = con' \<and> res = Inl LeaderUnavailable
         | Inl _ \<Rightarrow> False"
  using assms by (cases rule: verify_leader_chain_cases) auto

theorem verify_leader_chain_exact_witness:
  "is_chain demo_records 4 (PublicKey 1) (demo_chain ! 0) (demo_chain ! 1) (demo_chain ! 2)"
proof -
  let ?con = "demo_consensus Shortfin RoundRobin (PublicKey 1)"
  have l: "leader_authority_from_certificates demo_lib ?con 1 4 0 [] = Inr (?con, Some (PublicKey 1))"
    by (simp add: leader_authority_from_certificates_def run_simps)
  have v: "verify_leader_chain demo_lib ?con 4 demo_start demo_records
      = Inr (?con, Inr (demo_chain ! 0, demo_chain ! 1, demo_chain ! 2))"
    unfolding verify_leader_chain_def
    by (simp add: l [simplified] demo_wave_defs u64_add_def chain_candidates_def records_at_round_def find_chain_def
        embedded_qc_links_def Let_def)
  from verify_leader_chain_exact [OF v] l show ?thesis
    by (simp add: boundary_certificates_def demo_start_def)
qed

text \<open>
  Causal reachability.  The depth-first search marks exactly the header identifiers
  of the certificates that can be reached from the seeds through parent and second-hop
  links, without entering a round below the floor or a round its author has already
  committed.
\<close>

theorem causal_reachability_exact:
  assumes "ids_unique (set seeds \<union> set (values_of index))"
  shows "set (causal_reachability seeds index lc) =
     (\<lambda>c. h_id (header c)) ` {x. reached index lc (reach_floor seeds) seeds x}"
  by (rule causal_reachability_ids [OF assms])

theorem causal_reachability_exact_witness:
  "set (causal_reachability demo_chain (wave_index 4 demo_start demo_records) []) =
     (\<lambda>c. h_id (header c)) ` {x. reached (wave_index 4 demo_start demo_records) [] (reach_floor demo_chain) demo_chain x}"
proof (rule causal_reachability_exact)
  show "ids_unique (set demo_chain \<union> set (values_of (wave_index 4 demo_start demo_records)))"
    by (rule ids_unique_subset [OF demo_records_ok(2)])
      (use demo_records_ok(3) in \<open>auto simp: wave_index_def\<close>)
qed

text \<open>
  C16. What a wave commits.  A wave consists of exactly the records below the boundary that
  carry votes, are newer than the last committed round of their author, are certified by a
  quorum certificate inside the fixed history of the frontier, and are anchored by enough
  boundary authors (last round) or causally reachable from the frontier (earlier rounds);
  they come sorted by round and header identifier.
\<close>

theorem collect_wave_exact:
  assumes "wf_records lib records" and "ids_unique (set (values_of records))"
    and "set lb \<subseteq> set (values_of records)" and "0 < v" and "0 < cr"
  shows "set (collect_wave lib cr s v lb records) = {c. wave_block lib cr s v lb records c} \<and>
         sorted_wrt (\<lambda>a b. wave_key a < wave_key b) (collect_wave lib cr s v lb records)"
  using collect_wave_set [OF assms(2-5)] collect_wave_sorted [OF assms(1,2)] by blast

theorem collect_wave_exact_witness:
  "{c. wave_block demo_lib 4 demo_start 2 demo_chain demo_records c} = set demo_chain"
  using collect_wave_exact [OF demo_records_ok, of 2 4 demo_start] demo_wave by simp

text \<open>
  C17. Hash-map order does not matter.  Two nodes that hold the same records in hash maps
  that iterate in different orders verify the same leader chain and commit the same
  sequence.
\<close>

theorem shortfin_order_independent:
  assumes "wf_records lib records" and "mset records = mset records'"
    and "ids_unique (set (values_of records))" and "set lb \<subseteq> set (values_of records)" and "0 < v" and "0 < cr"
  shows "verify_leader_chain lib con cr s records = verify_leader_chain lib con cr s records' \<and>
         collect_wave lib cr s v lb records = collect_wave lib cr s v lb records'"
proof
  show "verify_leader_chain lib con cr s records = verify_leader_chain lib con cr s records'"
    unfolding verify_leader_chain_def chain_candidates_order [OF assms(1,2)] ..
  have wf: "wf_map records" using assms(1) by (simp add: wf_records_def)
  note same = same_records [OF wf assms(2)]
  have wf': "wf_records lib records'"
    using assms(1) same(1) mset_eq_setD [OF assms(2)] by (simp add: wf_records_def)
  have u': "ids_unique (set (values_of records'))" "set lb \<subseteq> set (values_of records')"
    using assms(3,4) unfolding same(3) by simp_all
  have set_eq: "set (collect_wave lib cr s v lb records) = set (collect_wave lib cr s v lb records')"
    using collect_wave_set [OF assms(3-6)] collect_wave_set [OF u' assms(5,6)]
      wave_block_order [OF wf assms(2,5)] by simp
  have "inj_on wave_key (set (collect_wave lib cr s v lb records))"
    using wave_key_inj(1) [OF assms(1,3)] by (rule inj_on_subset) (auto simp: collect_wave_def Let_def)
  then show "collect_wave lib cr s v lb records = collect_wave lib cr s v lb records'"
    using collect_wave_sorted [OF assms(1,3)] collect_wave_sorted [OF wf' u'(1)] set_eq
    by (intro sorted_wrt_key_unique [of wave_key])
qed

theorem shortfin_order_independent_witness:
  "collect_wave demo_lib 4 demo_start 2 demo_chain (rev demo_records) = demo_chain"
  using shortfin_order_independent [OF demo_records_ok(1) _ demo_records_ok(2,3), of "rev demo_records" 2 4]
    demo_wave by simp

text \<open>
  Records are order independent and never downgraded.  After any insertions, a digest
  has a record exactly if a certificate of that digest was inserted, so equivocating blocks
  of one author and round are all kept, and the record carries votes exactly if one of the
  certificates inserted under that digest did.
\<close>

theorem records_keep_best:
  assumes "insert_records lib (s, []) xs = (s', records)"
  shows "(map_of records d \<noteq> None \<longleftrightarrow> (\<exists>x \<in> set xs. cert_digest lib x = d)) \<and>
         (\<forall>c. map_of records d = Some c \<longrightarrow>
            (votes c \<noteq> [] \<longleftrightarrow> (\<exists>x \<in> set xs. cert_digest lib x = d \<and> votes x \<noteq> [])))"
proof -
  have "holds_best lib (set xs) records"
    using insert_records_best [OF _ assms, of "{}"] by (simp add: holds_best_def)
  then have "case map_of records d of
            None \<Rightarrow> \<not> (\<exists>x \<in> set xs. cert_digest lib x = d)
          | Some c \<Rightarrow> c \<in> set xs \<and> cert_digest lib c = d \<and>
                      (votes c = [] \<longrightarrow> (\<forall>x \<in> set xs. cert_digest lib x = d \<longrightarrow> votes x = []))"
    by (simp add: holds_best_def)
  then show ?thesis by (auto split: option.splits)
qed

theorem records_keep_best_witness:
  "\<exists>c. map_of (snd (insert_records demo_lib (demo_start, [])
       [slot_cert 1 1 [], sf_cert 1 1 [] None, slot_cert 1 1 []])) (Digest 17) = Some c \<and> votes c \<noteq> []"
proof -
  let ?xs = "[slot_cert 1 1 [], sf_cert 1 1 [] None, slot_cert 1 1 []]"
  obtain s' records where i: "insert_records demo_lib (demo_start, []) ?xs = (s', records)" by fastforce
  from records_keep_best [OF i, of "Digest 17"] show ?thesis unfolding i by auto
qed

text \<open>
  The anchor rule compares a number of authors with a stake.  The validity threshold
  is a stake, while the anchor count is a number of distinct boundary authors: if the
  threshold exceeds the number of authorities of the boundary records, which happens as soon
  as authorities have larger stakes than one, no block of the last round before the boundary
  is ever committed by the wave.
\<close>

theorem anchor_counts_authors_not_stake:
  assumes "card (cert_origin ` set (records_at_round records cr)) < v"
  shows "\<forall>c \<in> set (collect_wave lib cr s v lb records). cert_round c \<noteq> u64_sub cr 1"
proof -
  have "card (referrers records cr d) \<le> card (cert_origin ` set (records_at_round records cr))" for d
    by (intro card_mono) (auto simp: referrers_def records_at_round_def)
  then have "card (referrers records cr d) < v" for d using assms by (rule le_less_trans)
  then have "\<not> is_anchored lib (anchored_counts records cr) v c" for c
    using assms anchored_card [of v lib records cr c] by (simp add: not_le)
  then show ?thesis by (auto simp: collect_wave_def Let_def)
qed

theorem anchor_counts_authors_not_stake_witness:
  "list_all (\<lambda>c. cert_round c \<noteq> 3) (collect_wave demo_lib 4 demo_start 14 demo_chain demo_records)"
proof -
  have "card (cert_origin ` set (records_at_round demo_records 4)) < 14"
    by (simp add: demo_wave_defs records_at_round_def)
  from anchor_counts_authors_not_stake [OF this] show ?thesis by (simp add: list_all_iff)
qed

end
