(* ===== verification/Mahi_Dag.thy ===== *)
theory Mahi_Dag
  imports Certified_Dag
begin

text \<open>
  The block store of the Mahi-Mahi module (\<^verbatim>\<open>MahiDag\<close> in
  \<^verbatim>\<open>consensus/src/mahi_mahi.rs\<close>): all blocks by digest, equivocations included, indexes by
  round and author, and three caches for the recursive queries.  A \<^verbatim>\<open>BTreeMap\<close> is an
  association list read in ascending key order (\<open>btree_iter\<close>).  The set \<^verbatim>\<open>visiting\<close> of the
  recursive queries is passed by value: every return restores it, but for the one on a missing
  target in \<^verbatim>\<open>linked_inner\<close>, which the outermost call takes before any recursion.
\<close>

definition btree_iter :: "('k::linorder \<times> 'v) list \<Rightarrow> ('k \<times> 'v) list" where
  "btree_iter m = sort_key fst m"

type_synonym Blocks = "(Digest \<times> Certificate) list"
type_synonym SupportCache = "((Digest \<times> PublicKey \<times> Round) \<times> Digest option) list"
type_synonym PairCache = "((Digest \<times> Digest) \<times> bool) list"

record MahiDag =
  by_round :: "(Round \<times> (PublicKey \<times> Digest list) list) list"
  by_digest :: Blocks
  support_cache :: SupportCache
  certificate_cache :: PairCache
  link_cache :: PairCache

definition mahi_dag_empty :: MahiDag where
  "mahi_dag_empty = \<lparr>by_round = [], by_digest = [], support_cache = [], certificate_cache = [], link_cache = []\<rparr>"

definition mahi_insert :: "CryptoLib \<Rightarrow> MahiDag \<Rightarrow> Certificate \<Rightarrow> MahiDag \<times> bool" where
  "mahi_insert lib d certificate =
     (let digest = cert_digest lib certificate
      in if contains_key (by_digest d) digest then (d, False)
         else (let authors = (case map_of (by_round d) (cert_round certificate) of None \<Rightarrow> [] | Some m \<Rightarrow> m);
                   digests = (case map_of authors (cert_origin certificate) of None \<Rightarrow> [] | Some ds \<Rightarrow> ds)
               in (d\<lparr>by_round := AList.update (cert_round certificate)
                        (AList.update (cert_origin certificate) (List.insert digest digests) authors) (by_round d),
                     by_digest := AList.update digest certificate (by_digest d)\<rparr>, True)))"

definition mahi_dag_new :: "CryptoLib \<Rightarrow> Certificate list \<Rightarrow> MahiDag" where
  "mahi_dag_new lib gen = foldl (\<lambda>d c. fst (mahi_insert lib d c)) mahi_dag_empty gen"

definition highest_round :: "MahiDag \<Rightarrow> Round" where
  "highest_round d = (if by_round d = [] then 0 else Max (set (keys_of (by_round d))))"

definition round_digests :: "MahiDag \<Rightarrow> Round \<Rightarrow> Digest list" where
  "round_digests d round =
     (case map_of (by_round d) round of
        None \<Rightarrow> []
      | Some by_author \<Rightarrow> concat (map (\<lambda>(_, digests). sort digests) (btree_iter by_author)))"

definition slot_digests :: "MahiDag \<Rightarrow> PublicKey \<Rightarrow> Round \<Rightarrow> Digest list" where
  "slot_digests d authority round =
     (case Option.bind (map_of (by_round d) round) (\<lambda>by_author. map_of by_author authority) of
        None \<Rightarrow> [] | Some digests \<Rightarrow> sort digests)"

definition mahi_round_certificates :: "MahiDag \<Rightarrow> Round \<Rightarrow> Certificate list" where
  "mahi_round_certificates d round = List.map_filter (map_of (by_digest d)) (round_digests d round)"

section \<open>Support\<close>

definition unvisited :: "Blocks \<Rightarrow> Digest list \<Rightarrow> nat" where
  "unvisited blocks visiting = card (set (keys_of blocks) - set visiting)"

lemma unvisited_Cons:
  assumes "map_of blocks from = Some b" and "from \<notin> set visiting"
  shows "unvisited blocks (from # visiting) < unvisited blocks visiting"
proof -
  have "from \<in> set (keys_of blocks)" using assms(1) by (force dest: map_of_SomeD)
  then have "set (keys_of blocks) - set (from # visiting) \<subset> set (keys_of blocks) - set visiting"
    using assms(2) by auto
  then show ?thesis unfolding unvisited_def by (intro psubset_card_mono) auto
qed

lemma unvisited_le: "unvisited blocks (x # visiting) \<le> unvisited blocks visiting"
  unfolding unvisited_def by (intro card_mono) auto

function (sequential) find_support_inner ::
    "Blocks \<Rightarrow> SupportCache \<Rightarrow> Digest \<Rightarrow> PublicKey \<Rightarrow> Round \<Rightarrow> Digest list
     \<Rightarrow> SupportCache \<times> Digest option option"
  and support_loop ::
    "Blocks \<Rightarrow> SupportCache \<Rightarrow> Digest \<Rightarrow> PublicKey \<Rightarrow> Round \<Rightarrow> Digest list \<Rightarrow> Digest list
     \<Rightarrow> SupportCache \<times> Digest option option" where
  "find_support_inner blocks cache from authority round visiting =
     (case map_of cache (from, authority, round) of
        Some cached \<Rightarrow> (cache, Some cached)
      | None \<Rightarrow>
          if from \<in> set visiting then (cache, None)
          else (case map_of blocks from of
                  None \<Rightarrow> (cache, None)
                | Some block \<Rightarrow>
                    if cert_round block \<le> round
                    then (AList.update (from, authority, round) None cache, Some None)
                    else support_loop blocks cache from authority round (from # visiting)
                           (h_parents (header block))))"
| "support_loop blocks cache from authority round visiting [] =
     (AList.update (from, authority, round) None cache, Some None)"
| "support_loop blocks cache from authority round visiting (parent # parents) =
     (case map_of blocks parent of
        None \<Rightarrow> (cache, None)
      | Some block \<Rightarrow>
          if cert_round block < round
          then support_loop blocks cache from authority round visiting parents
          else if cert_round block = round \<and> cert_origin block = authority
          then (AList.update (from, authority, round) (Some parent) cache, Some (Some parent))
          else if cert_round block > round
          then (case find_support_inner blocks cache parent authority round visiting of
                  (cache', Some (Some support)) \<Rightarrow>
                    (AList.update (from, authority, round) (Some support) cache', Some (Some support))
                | (cache', Some None) \<Rightarrow> support_loop blocks cache' from authority round visiting parents
                | (cache', None) \<Rightarrow> (cache', None))
          else support_loop blocks cache from authority round visiting parents)"
  by pat_completeness auto

termination
proof (relation "(\<lambda>x. case x of
      Inl (blocks, cache, from, authority, round, visiting) \<Rightarrow> unvisited blocks visiting
    | Inr (blocks, cache, from, authority, round, visiting, parents) \<Rightarrow> unvisited blocks visiting) <*mlex*>
    measure (\<lambda>x. case x of Inl _ \<Rightarrow> 0 | Inr (blocks, cache, from, authority, round, visiting, parents) \<Rightarrow> Suc (length parents))")
qed (auto simp: wf_mlex mlex_iff unvisited_Cons)

declare find_support_inner.simps [simp del] support_loop.simps [simp del]

definition find_support :: "MahiDag \<Rightarrow> Digest \<Rightarrow> PublicKey \<Rightarrow> Round \<Rightarrow> MahiDag \<times> Digest option option" where
  "find_support d from authority round =
     (let r = find_support_inner (by_digest d) (support_cache d) from authority round []
      in (d\<lparr>support_cache := fst r\<rparr>, snd r))"

definition is_vote :: "MahiDag \<Rightarrow> Digest \<Rightarrow> Digest \<Rightarrow> MahiDag \<times> bool option" where
  "is_vote d vote leader =
     (case map_of (by_digest d) leader of
        None \<Rightarrow> (d, None)
      | Some block \<Rightarrow>
          (let r = find_support d vote (cert_origin block) (cert_round block)
           in (fst r, map_option (\<lambda>support. support = Some leader) (snd r))))"

section \<open>Certificates\<close>

fun certificate_loop ::
    "Committee \<Rightarrow> Digest \<Rightarrow> Round \<Rightarrow> MahiDag \<Rightarrow> PublicKey list \<Rightarrow> Stake \<Rightarrow> bool \<Rightarrow> Digest list
     \<Rightarrow> MahiDag \<times> bool option" where
  "certificate_loop c leader vote_round d voters weight incomplete [] =
     (d, if incomplete then None else Some False)"
| "certificate_loop c leader vote_round d voters weight incomplete (parent # parents) =
     (case map_of (by_digest d) parent of
        None \<Rightarrow> certificate_loop c leader vote_round d voters weight True parents
      | Some block \<Rightarrow>
          if cert_round block \<noteq> vote_round \<or> cert_origin block \<in> set voters
          then certificate_loop c leader vote_round d voters weight incomplete parents
          else (let r = is_vote d parent leader; d' = fst r
                in case snd r of
                     Some True \<Rightarrow>
                       (let weight' = weight + stake c (cert_origin block)
                        in if weight' \<ge> quorum_threshold c then (d', Some True)
                           else certificate_loop c leader vote_round d'
                                  (List.insert (cert_origin block) voters) weight' incomplete parents)
                   | Some False \<Rightarrow> certificate_loop c leader vote_round d' voters weight incomplete parents
                   | None \<Rightarrow> certificate_loop c leader vote_round d' voters weight True parents))"

definition is_certificate :: "Committee \<Rightarrow> MahiDag \<Rightarrow> Digest \<Rightarrow> Digest \<Rightarrow> MahiDag \<times> bool option" where
  "is_certificate c d certificate leader =
     (case map_of (certificate_cache d) (certificate, leader) of
        Some cached \<Rightarrow> (d, Some cached)
      | None \<Rightarrow>
          (case map_of (by_digest d) certificate of
             None \<Rightarrow> (d, None)
           | Some block \<Rightarrow>
               (let r = certificate_loop c leader (cert_round block - 1) d [] 0 False (h_parents (header block));
                    d' = fst r
                in case snd r of
                     None \<Rightarrow> (d', None)
                   | Some b \<Rightarrow>
                       (d'\<lparr>certificate_cache := AList.update (certificate, leader) b (certificate_cache d')\<rparr>, Some b))))"

section \<open>Links\<close>

function (sequential) linked_inner ::
    "Blocks \<Rightarrow> PairCache \<Rightarrow> Digest \<Rightarrow> Digest \<Rightarrow> Digest list \<Rightarrow> PairCache \<times> bool option"
  and linked_loop ::
    "Blocks \<Rightarrow> PairCache \<Rightarrow> Digest \<Rightarrow> Digest \<Rightarrow> Round \<Rightarrow> Digest list \<Rightarrow> bool \<Rightarrow> Digest list
     \<Rightarrow> PairCache \<times> bool option" where
  "linked_inner blocks cache from target visiting =
     (if from = target then (cache, Some True)
      else case map_of cache (from, target) of
             Some cached \<Rightarrow> (cache, Some cached)
           | None \<Rightarrow>
               if from \<in> set visiting then (cache, None)
               else (case map_of blocks target of
                       None \<Rightarrow> (cache, None)
                     | Some target_block \<Rightarrow>
                         (case map_of blocks from of
                            None \<Rightarrow> (cache, None)
                          | Some block \<Rightarrow>
                              if cert_round block \<le> cert_round target_block
                              then (AList.update (from, target) False cache, Some False)
                              else linked_loop blocks cache from target (cert_round target_block)
                                     (from # visiting) False (h_parents (header block)))))"
| "linked_loop blocks cache from target target_round visiting incomplete [] =
     (if incomplete then (cache, None) else (AList.update (from, target) False cache, Some False))"
| "linked_loop blocks cache from target target_round visiting incomplete (parent # parents) =
     (case map_of blocks parent of
        None \<Rightarrow> linked_loop blocks cache from target target_round visiting True parents
      | Some block \<Rightarrow>
          if cert_round block < target_round
          then linked_loop blocks cache from target target_round visiting incomplete parents
          else (case linked_inner blocks cache parent target visiting of
                  (cache', Some True) \<Rightarrow> (AList.update (from, target) True cache', Some True)
                | (cache', Some False) \<Rightarrow>
                    linked_loop blocks cache' from target target_round visiting incomplete parents
                | (cache', None) \<Rightarrow>
                    linked_loop blocks cache' from target target_round visiting True parents))"
  by pat_completeness auto

termination
proof (relation "(\<lambda>x. case x of
      Inl (blocks, cache, from, target, visiting) \<Rightarrow> unvisited blocks visiting
    | Inr (blocks, cache, from, target, tr, visiting, inc, parents) \<Rightarrow> unvisited blocks visiting) <*mlex*>
    measure (\<lambda>x. case x of Inl _ \<Rightarrow> 0 | Inr (blocks, cache, from, target, tr, visiting, inc, parents) \<Rightarrow> Suc (length parents))")
qed (auto simp: wf_mlex mlex_iff unvisited_Cons)

declare linked_inner.simps [simp del] linked_loop.simps [simp del]

definition mahi_linked :: "MahiDag \<Rightarrow> Digest \<Rightarrow> Digest \<Rightarrow> MahiDag \<times> bool option" where
  "mahi_linked d from target =
     (let r = linked_inner (by_digest d) (link_cache d) from target []
      in (d\<lparr>link_cache := fst r\<rparr>, snd r))"

definition root_recent :: "Blocks \<Rightarrow> Round \<Rightarrow> Digest \<Rightarrow> bool" where
  "root_recent blocks min_root_round root =
     (case map_of blocks root of None \<Rightarrow> False | Some block \<Rightarrow> cert_round block \<ge> min_root_round)"

definition prune_caches :: "MahiDag \<Rightarrow> Round \<Rightarrow> MahiDag" where
  "prune_caches d min_root_round =
     d\<lparr>support_cache := filter (\<lambda>((root, _, _), _). root_recent (by_digest d) min_root_round root) (support_cache d),
       certificate_cache := filter (\<lambda>((root, _), _). root_recent (by_digest d) min_root_round root) (certificate_cache d),
       link_cache := filter (\<lambda>((root, _), _). root_recent (by_digest d) min_root_round root) (link_cache d)\<rparr>"

section \<open>What the support query computes\<close>

text \<open>
  The answer of the depth-first search without caches and without the visiting set, as a
  relation over the blocks: \<open>supports blocks a r from v\<close> says that the search from \<open>from\<close>
  finds \<open>v\<close> at the slot of author \<open>a\<close> and round \<open>r\<close>; \<open>supports_any\<close> is its loop over the parents.
\<close>

inductive supports :: "(Digest \<Rightarrow> Certificate option) \<Rightarrow> PublicKey \<Rightarrow> Round \<Rightarrow> Digest \<Rightarrow> Digest option \<Rightarrow> bool"
  and supports_any :: "(Digest \<Rightarrow> Certificate option) \<Rightarrow> PublicKey \<Rightarrow> Round \<Rightarrow> Digest list \<Rightarrow> Digest option \<Rightarrow> bool"
  for B a r where
  low: "B from = Some b \<Longrightarrow> cert_round b \<le> r \<Longrightarrow> supports B a r from None"
| high: "B from = Some b \<Longrightarrow> r < cert_round b \<Longrightarrow> supports_any B a r (h_parents (header b)) v \<Longrightarrow>
           supports B a r from v"
| none: "supports_any B a r [] None"
| skip: "B p = Some b \<Longrightarrow> cert_round b < r \<or> (cert_round b = r \<and> cert_origin b \<noteq> a) \<Longrightarrow>
           supports_any B a r ps v \<Longrightarrow> supports_any B a r (p # ps) v"
| hit: "B p = Some b \<Longrightarrow> cert_round b = r \<Longrightarrow> cert_origin b = a \<Longrightarrow> supports_any B a r (p # ps) (Some p)"
| deep: "B p = Some b \<Longrightarrow> r < cert_round b \<Longrightarrow> supports B a r p (Some s) \<Longrightarrow> supports_any B a r (p # ps) (Some s)"
| go_on: "B p = Some b \<Longrightarrow> r < cert_round b \<Longrightarrow> supports B a r p None \<Longrightarrow> supports_any B a r ps v \<Longrightarrow>
           supports_any B a r (p # ps) v"

inductive_cases supports_elim: "supports B a r from v"
inductive_cases supports_any_Nil: "supports_any B a r [] v"
inductive_cases supports_any_Cons: "supports_any B a r (p # ps) v"

lemma supports_unique:
  "supports B a r from v \<Longrightarrow> supports B a r from v' \<Longrightarrow> v = v'"
  "supports_any B a r ps v \<Longrightarrow> supports_any B a r ps v' \<Longrightarrow> v = v'"
proof (induction arbitrary: v' and v' rule: supports_supports_any.inducts)
  case (low fr b)
  from low.prems show ?case by (rule supports_elim) (use low in auto)
next
  case (high fr b v)
  from high.prems show ?case by (rule supports_elim) (use high.IH(1,2) in simp, rule high.IH(4), use high.IH(1,2) in simp)
next
  case none
  then show ?case by (auto elim: supports_any_Nil)
next
  case (skip p b ps v)
  from skip.prems show ?case by (rule supports_any_Cons) (erule skip.IH(4) | use skip.IH(1,2) in auto)+
next
  case (hit p b ps)
  from hit.prems show ?case by (rule supports_any_Cons) (use hit in auto)
next
  case (deep p b s ps)
  from deep.prems show ?case by (rule supports_any_Cons) (use deep.IH(1,2) in \<open>auto dest: deep.IH(4)\<close>)
next
  case (go_on p b ps v)
  from go_on.prems show ?case by (rule supports_any_Cons) (use go_on.IH(1,2) in \<open>auto dest: go_on.IH(4,6)\<close>)
qed

lemma supports_mono:
  assumes "B \<subseteq>\<^sub>m B'"
  shows "supports B a r from v \<Longrightarrow> supports B' a r from v"
    and "supports_any B a r ps v \<Longrightarrow> supports_any B' a r ps v"
proof (induction rule: supports_supports_any.inducts)
qed (use assms in \<open>auto intro: supports_supports_any.intros simp: map_le_def dom_def\<close>)

lemma map_le_Some: "m \<subseteq>\<^sub>m m' \<Longrightarrow> m x = Some y \<Longrightarrow> m' x = Some y"
  by (auto simp: map_le_def dom_def)

definition support_cache_ok :: "(Digest \<Rightarrow> Certificate option) \<Rightarrow> SupportCache \<Rightarrow> bool" where
  "support_cache_ok B cache \<longleftrightarrow>
     (\<forall>from a r v. map_of cache (from, a, r) = Some v \<longrightarrow> supports B a r from v)"

lemma support_cache_update:
  "support_cache_ok B cache \<Longrightarrow> supports B a r from v \<Longrightarrow>
     support_cache_ok B (AList.update (from, a, r) v cache)"
  by (simp add: support_cache_ok_def)

lemma find_support_sound_mutual:
  "map_of blocks \<subseteq>\<^sub>m B \<Longrightarrow> support_cache_ok B cache \<Longrightarrow>
     find_support_inner blocks cache from a r visiting = (cache', res) \<Longrightarrow>
     support_cache_ok B cache' \<and> (\<forall>v. res = Some v \<longrightarrow> supports B a r from v)"
  "map_of blocks \<subseteq>\<^sub>m B \<Longrightarrow> support_cache_ok B cache \<Longrightarrow> map_of blocks from = Some b \<Longrightarrow> r < cert_round b \<Longrightarrow>
     (\<And>v. supports_any B a r parents v \<Longrightarrow> supports_any B a r (h_parents (header b)) v) \<Longrightarrow>
     support_loop blocks cache from a r visiting parents = (cache', res) \<Longrightarrow>
     support_cache_ok B cache' \<and> (\<forall>v. res = Some v \<longrightarrow> supports B a r from v)"
proof (induction blocks cache "from" a r visiting and blocks cache "from" a r visiting parents
    arbitrary: cache' res and cache' res b rule: find_support_inner_support_loop.induct)
  case (1 blocks cache fr a r visiting)
  show ?case
  proof (cases "map_of cache (fr, a, r)")
    case (Some cached)
    with "1.prems" show ?thesis by (auto simp: find_support_inner.simps support_cache_ok_def)
  next
    case miss: None
    show ?thesis
    proof (cases "fr \<in> set visiting \<or> map_of blocks fr = None")
      case True
      with "1.prems" miss show ?thesis
        by (auto simp: find_support_inner.simps split: if_splits)
    next
      case False
      then obtain b where b: "map_of blocks fr = Some b" and nv: "fr \<notin> set visiting" by auto
      show ?thesis
      proof (cases "cert_round b \<le> r")
        case True
        with "1.prems" miss b nv show ?thesis
          by (auto simp: find_support_inner.simps intro: support_cache_update low map_le_Some)
      next
        case False
        with "1.prems"(3) miss b nv
        have "support_loop blocks cache fr a r (fr # visiting) (h_parents (header b)) = (cache', res)"
          by (simp add: find_support_inner.simps)
        from "1.IH" [OF miss nv b False "1.prems"(1,2) b _ _ this] False show ?thesis by simp
      qed
    qed
  qed
next
  case (2 blocks cache fr a r visiting)
  from "2.prems"(3,4) high [OF map_le_Some [OF "2.prems"(1,3)] "2.prems"(4) "2.prems"(5) [OF none]] have "supports B a r fr None" by blast
  with "2.prems"(2,6) show ?case by (auto simp: support_loop.simps intro: support_cache_update)
next
  case (3 blocks cache fr a r visiting parent parents)
  note step = "3.prems"(6) [unfolded support_loop.simps(2)]
  have lift: "supports B a r fr v" if "supports_any B a r (parent # parents) v" for v
    using high [OF map_le_Some [OF "3.prems"(1,3)] "3.prems"(4) "3.prems"(5) [OF that]] .
  show ?case
  proof (cases "map_of blocks parent")
    case None
    with step "3.prems"(2) show ?thesis by simp
  next
    case (Some p)
    note BSome = map_le_Some [OF "3.prems"(1) Some]
    consider (lt) "cert_round p < r" | (hit) "cert_round p = r" "cert_origin p = a"
      | (other) "cert_round p = r" "cert_origin p \<noteq> a" | (gt) "r < cert_round p" by linarith
    then show ?thesis
    proof cases
      case lt
      with step Some have "support_loop blocks cache fr a r visiting parents = (cache', res)" by simp
      from "3.IH"(1) [OF Some lt "3.prems"(1-4) _ this] lt show ?thesis
        using "3.prems"(5) skip [of B, OF BSome] by blast
    next
      case hit
      with step Some lift [OF supports_supports_any.hit [of B, OF BSome hit]] "3.prems"(2) show ?thesis
        by (auto intro: support_cache_update)
    next
      case other
      with step Some have "support_loop blocks cache fr a r visiting parents = (cache', res)" by simp
      from "3.IH"(4) [OF Some _ _ _ "3.prems"(1-4) _ this] other show ?thesis
        using "3.prems"(5) skip [of B, OF BSome] by blast
    next
      case gt
      obtain c1 r1 where inner: "find_support_inner blocks cache parent a r visiting = (c1, r1)" by fastforce
      from "3.IH"(2) [OF Some _ _ gt "3.prems"(1,2) inner] gt
      have c1: "support_cache_ok B c1" and r1: "\<And>v. r1 = Some v \<Longrightarrow> supports B a r parent v" by auto
      consider "r1 = None" | s where "r1 = Some (Some s)" | "r1 = Some None" by (metis option.exhaust)
      then show ?thesis
      proof cases
        case 1
        with step Some gt inner c1 show ?thesis by simp
      next
        case (2 s)
        with lift [OF deep [of B, OF BSome gt r1 [OF 2]]] step Some gt inner c1 show ?thesis
          by (auto intro: support_cache_update)
      next
        case 3
        with step Some gt inner have rest: "support_loop blocks c1 fr a r visiting parents = (cache', res)" by simp
        from "3.IH"(3) [OF Some _ _ gt inner [symmetric] 3 refl "3.prems"(1) c1 "3.prems"(3,4) _ rest] gt show ?thesis
          using "3.prems"(5) go_on [of B, OF BSome gt r1 [OF 3]] by fastforce
      qed
    qed
  qed
qed

end
