(* ===== verification/Mahi_History.thy ===== *)
theory Mahi_History
  imports Mahi_Dag
begin

text \<open>
  What the queries of the Mahi-Mahi block store mean.  \<open>B\<close> is the collection of all blocks
  that pass the check of \<^verbatim>\<open>Core::validate_mahi_parents\<close>
  (\<^verbatim>\<open>primary/src/core.rs\<close>) at any node; a node holds a part of it.  Every answer that is
  not ``incomplete'' is then a statement about \<open>B\<close>, whatever the caches hold, and quorum
  intersection over \<open>B\<close> gives the uniqueness facts the commit rule rests on.
\<close>

section \<open>The parent check of the primary\<close>

fun validate_parents_loop ::
    "Committee \<Rightarrow> Header \<Rightarrow> PublicKey list \<Rightarrow> Stake \<Rightarrow> Certificate list \<Rightarrow> unit dag_result" where
  "validate_parents_loop c h authors weight [] =
     ensure (quorum_threshold c \<le> weight) (HeaderRequiresQuorum (h_id h))"
| "validate_parents_loop c h authors weight (parent # parents) =
     (if \<not> cert_round parent < h_round h then Inl (MalformedHeader (h_id h))
      else if cert_round parent + 1 = h_round h \<and> cert_origin parent \<notin> set authors
      then validate_parents_loop c h (cert_origin parent # authors) (weight + stake c (cert_origin parent)) parents
      else validate_parents_loop c h authors weight parents)"

definition validate_mahi_parents :: "Header \<Rightarrow> Certificate list \<Rightarrow> Committee \<Rightarrow> unit dag_result" where
  "validate_mahi_parents h parents c = validate_parents_loop c h [] 0 parents"

definition previous_authors :: "Header \<Rightarrow> Certificate list \<Rightarrow> PublicKey set" where
  "previous_authors h parents = cert_origin ` {p \<in> set parents. cert_round p + 1 = h_round h}"

lemma weight_Cons [stake_simps]:
  "(weight :: Stake) = sum_list (map (stake c) xs) \<Longrightarrow> weight + stake c x = sum_list (map (stake c) (x # xs))"
  by simp

lemma validate_parents_loop_iff:
  assumes "committee_ok c" and "distinct authors" and "weight = sum_list (map (stake c) authors)"
  shows "validate_parents_loop c h authors weight parents = Inr () \<longleftrightarrow>
     (\<forall>p \<in> set parents. cert_round p < h_round h) \<and> has_quorum c (set authors \<union> previous_authors h parents)"
  using assms
proof (induction c h authors weight parents rule: validate_parents_loop.induct)
  case (1 c h authors weight)
  then show ?case using has_quorum_list [of c authors] by (simp add: previous_authors_def)
next
  case (2 c h authors weight parent parents)
  have eq: "previous_authors h (parent # parents) =
      (if cert_round parent + 1 = h_round h then insert (cert_origin parent) (previous_authors h parents)
       else previous_authors h parents)"
    by (auto simp: previous_authors_def)
  show ?case
    using "2.IH" "2.prems" by (auto simp: eq insert_absorb)
qed

lemma validate_mahi_parents_iff:
  assumes "committee_ok c"
  shows "validate_mahi_parents h parents c = Inr () \<longleftrightarrow>
     (\<forall>p \<in> set parents. cert_round p < h_round h) \<and> has_quorum c (previous_authors h parents)"
  using validate_parents_loop_iff [OF assms, of "[]" 0] by (simp add: validate_mahi_parents_def)

section \<open>The blocks of all nodes\<close>

type_synonym blocks_of_all = "Digest \<Rightarrow> Certificate option"

definition mahi_block_ok :: "Committee \<Rightarrow> blocks_of_all \<Rightarrow> Certificate \<Rightarrow> bool" where
  "mahi_block_ok c B b \<longleftrightarrow>
     (if cert_round b = 0 then h_parents (header b) = []
      else case those (map B (h_parents (header b))) of
             None \<Rightarrow> False
           | Some parents \<Rightarrow> validate_mahi_parents (header b) parents c = Inr ())"

text \<open>All blocks are validated with their parents present, and an author outside \<open>F\<close> signs one block a round.\<close>

definition mahi_history :: "Committee \<Rightarrow> PublicKey set \<Rightarrow> blocks_of_all \<Rightarrow> bool" where
  "mahi_history c F B \<longleftrightarrow> committee_ok c \<and> few_faulty c F \<and> finite (dom B) \<and>
     (\<forall>d b. B d = Some b \<longrightarrow> mahi_block_ok c B b) \<and>
     (\<forall>d d' b b'. B d = Some b \<longrightarrow> B d' = Some b' \<longrightarrow> cert_round b = cert_round b' \<longrightarrow>
        cert_origin b = cert_origin b' \<longrightarrow> cert_origin b \<notin> F \<longrightarrow> d = d')"

definition parent_of :: "blocks_of_all \<Rightarrow> Digest \<Rightarrow> Digest \<Rightarrow> bool" where
  "parent_of B x y \<longleftrightarrow> (\<exists>b. B x = Some b \<and> y \<in> set (h_parents (header b)))"

definition links_to :: "blocks_of_all \<Rightarrow> Digest \<Rightarrow> Digest \<Rightarrow> bool" where
  "links_to B = (parent_of B)\<^sup>*\<^sup>*"

definition authors_at :: "blocks_of_all \<Rightarrow> Round \<Rightarrow> (Digest \<Rightarrow> bool) \<Rightarrow> PublicKey set" where
  "authors_at B r P = {cert_origin b | d b. B d = Some b \<and> cert_round b = r \<and> P d}"

lemma authors_at_mono: "(\<And>d. P d \<Longrightarrow> Q d) \<Longrightarrow> authors_at B r P \<subseteq> authors_at B r Q"
  by (auto simp: authors_at_def)

lemma those_Some_set:
  "those (map f xs) = Some ys \<Longrightarrow> x \<in> set xs \<Longrightarrow> \<exists>y \<in> set ys. f x = Some y"
  "those (map f xs) = Some ys \<Longrightarrow> y \<in> set ys \<Longrightarrow> \<exists>x \<in> set xs. f x = Some y"
  by (induction xs arbitrary: ys) (auto split: option.splits)

lemma mahi_committee: "mahi_history c F B \<Longrightarrow> committee_ok c"
  by (simp add: mahi_history_def)

lemma mahi_few_faulty: "mahi_history c F B \<Longrightarrow> few_faulty c F"
  by (simp add: mahi_history_def)

lemma mahi_finite_authors:
  assumes "mahi_history c F B"
  shows "finite (authors_at B r P)"
proof -
  have "authors_at B r P \<subseteq> (\<lambda>d. cert_origin (the (B d))) ` dom B" by (force simp: authors_at_def)
  with assms show ?thesis by (meson finite_imageI finite_subset mahi_history_def)
qed

lemma mahi_unique:
  "mahi_history c F B \<Longrightarrow> B d = Some b \<Longrightarrow> B d' = Some b' \<Longrightarrow> cert_round b = cert_round b' \<Longrightarrow>
     cert_origin b = cert_origin b' \<Longrightarrow> cert_origin b \<notin> F \<Longrightarrow> d = d'"
  unfolding mahi_history_def by blast

lemma mahi_parents:
  assumes "mahi_history c F B" and "B x = Some b" and "0 < cert_round b"
  obtains ps where "those (map B (h_parents (header b))) = Some ps"
    and "\<And>p. p \<in> set ps \<Longrightarrow> cert_round p < cert_round b" and "has_quorum c (previous_authors (header b) ps)"
proof -
  have ok: "mahi_block_ok c B b" and c: "committee_ok c" using assms(1,2) by (auto simp: mahi_history_def)
  from ok assms(3) obtain ps where "those (map B (h_parents (header b))) = Some ps"
    and "validate_mahi_parents (header b) ps c = Inr ()"
    by (auto simp: mahi_block_ok_def split: option.splits)
  then show thesis using that [of ps] validate_mahi_parents_iff [OF c] by (auto simp: cert_round_def)
qed

lemma mahi_parent_older:
  assumes "mahi_history c F B" and "B x = Some b" and "y \<in> set (h_parents (header b))"
  obtains b' where "B y = Some b'" and "cert_round b' < cert_round b"
proof (cases "cert_round b = 0")
  case True
  with assms show thesis by (auto simp: mahi_history_def mahi_block_ok_def)
next
  case False
  then have "0 < cert_round b" by simp
  from mahi_parents [OF assms(1,2) this]
  obtain ps where ps: "those (map B (h_parents (header b))) = Some ps"
    "\<forall>p \<in> set ps. cert_round p < cert_round b" by metis
  from those_Some_set(1) [OF ps(1) assms(3)] obtain b' where "b' \<in> set ps" "B y = Some b'" by blast
  then show thesis using that ps(2) by simp
qed

lemma mahi_parent_quorum:
  assumes "mahi_history c F B" and "B x = Some b" and "cert_round b = Suc r"
  shows "has_quorum c (authors_at B r (parent_of B x))"
proof -
  obtain ps where ps: "those (map B (h_parents (header b))) = Some ps" "has_quorum c (previous_authors (header b) ps)"
    using mahi_parents [OF assms(1,2)] assms(3) by auto
  have "previous_authors (header b) ps \<subseteq> authors_at B r (parent_of B x)"
  proof
    fix a
    assume "a \<in> previous_authors (header b) ps"
    then obtain p where p: "p \<in> set ps" "cert_round p = r" "a = cert_origin p"
      using assms(3) by (auto simp: previous_authors_def cert_round_def)
    from those_Some_set(2) [OF ps(1) p(1)] p assms(2) show "a \<in> authors_at B r (parent_of B x)"
      unfolding authors_at_def parent_of_def by blast
  qed
  then show ?thesis by (rule has_quorum_mono [OF ps(2)]) (rule mahi_finite_authors [OF assms(1)])
qed

lemma links_quorum:
  assumes "mahi_history c F B" and "B x = Some b" and "r < cert_round b"
  shows "has_quorum c (authors_at B r (links_to B x))"
  using assms(2,3)
proof (induction "cert_round b" arbitrary: x b rule: less_induct)
  case less
  show ?case
  proof (cases "cert_round b = Suc r")
    case True
    from mahi_parent_quorum [OF assms(1) less.prems(1) True] show ?thesis
      by (rule has_quorum_mono) (auto intro!: authors_at_mono mahi_finite_authors [OF assms(1)] simp: links_to_def)
  next
    case False
    then obtain k where k: "cert_round b = Suc k" "r < k" using less.prems(2) by (cases "cert_round b") auto
    have q: "has_quorum c (authors_at B k (parent_of B x))" by (rule mahi_parent_quorum [OF assms(1) less.prems(1) k(1)])
    obtain y b' where y: "B y = Some b'" "cert_round b' = k" "parent_of B x y"
      using has_quorum_meets [OF mahi_committee [OF assms(1)] q q] by (auto simp: authors_at_def)
    have "has_quorum c (authors_at B r (links_to B y))" using less.hyps [of b' y] y k by simp
    then show ?thesis
      by (rule has_quorum_mono)
        (auto intro!: authors_at_mono mahi_finite_authors [OF assms(1)]
          intro: converse_rtranclp_into_rtranclp y(3) simp: links_to_def)
  qed
qed

text \<open>Two quorums of authors at one round share a block.\<close>

lemma mahi_quorums_share_block:
  assumes "mahi_history c F B" and "has_quorum c (authors_at B r P)" and "has_quorum c (authors_at B r Q)"
  obtains d where "P d" and "Q d"
proof -
  obtain a where "a \<in> authors_at B r P" "a \<in> authors_at B r Q" "a \<notin> F"
    using quorums_share_correct_member [OF mahi_committee [OF assms(1)] assms(2,3) mahi_few_faulty [OF assms(1)]]
    by blast
  then obtain d b d' b' where "B d = Some b" "cert_round b = r" "P d" "cert_origin b = a"
    "B d' = Some b'" "cert_round b' = r" "Q d'" "cert_origin b' = a" by (auto simp: authors_at_def)
  with mahi_unique [OF assms(1), of d b d' b'] \<open>a \<notin> F\<close> that show thesis by simp
qed

section \<open>Certified leaders\<close>

definition votes_for :: "blocks_of_all \<Rightarrow> Digest \<Rightarrow> Digest \<Rightarrow> bool" where
  "votes_for B leader vote \<longleftrightarrow>
     (\<exists>lb. B leader = Some lb \<and> supports B (cert_origin lb) (cert_round lb) vote (Some leader))"

definition certifies :: "Committee \<Rightarrow> blocks_of_all \<Rightarrow> Digest \<Rightarrow> Digest \<Rightarrow> bool" where
  "certifies c B x leader \<longleftrightarrow>
     (\<exists>b. B x = Some b \<and>
       has_quorum c (authors_at B (cert_round b - 1) (\<lambda>d. parent_of B x d \<and> votes_for B leader d)))"

text \<open>A quorum of the vote round voting for the leader.\<close>

lemma certifies_quorum:
  assumes "mahi_history c F B" and "certifies c B x leader" and "B x = Some b" and "cert_round b = Suc r"
  shows "has_quorum c (authors_at B r (votes_for B leader))"
proof (rule has_quorum_mono)
  show "has_quorum c (authors_at B r (\<lambda>d. parent_of B x d \<and> votes_for B leader d))"
    using assms(2-4) by (auto simp: certifies_def)
qed (auto intro!: authors_at_mono mahi_finite_authors [OF assms(1)])

lemma certified_leader_unique:
  assumes "mahi_history c F B" and "has_quorum c (authors_at B r (votes_for B l))"
    and "has_quorum c (authors_at B r (votes_for B l'))"
    and "B l = Some lb" and "B l' = Some lb'" and "cert_round lb = cert_round lb'" and "cert_origin lb = cert_origin lb'"
  shows "l = l'"
proof -
  obtain d where "votes_for B l d" "votes_for B l' d" by (rule mahi_quorums_share_block [OF assms(1-3)])
  with assms(4-7) supports_unique(1) show ?thesis by (fastforce simp: votes_for_def)
qed

lemma certified_not_skipped:
  assumes "mahi_history c F B" and "has_quorum c (authors_at B r (votes_for B l))" and "B l = Some lb"
  shows "\<not> has_quorum c (authors_at B r (\<lambda>d. supports B (cert_origin lb) (cert_round lb) d None))"
proof
  assume "has_quorum c (authors_at B r (\<lambda>d. supports B (cert_origin lb) (cert_round lb) d None))"
  then obtain d where "votes_for B l d" "supports B (cert_origin lb) (cert_round lb) d None"
    by (rule mahi_quorums_share_block [OF assms(1,2)])
  with assms(3) supports_unique(1) show False by (fastforce simp: votes_for_def)
qed

section \<open>The answers of the store\<close>

definition cert_cache_ok :: "Committee \<Rightarrow> blocks_of_all \<Rightarrow> PairCache \<Rightarrow> bool" where
  "cert_cache_ok c B cache \<longleftrightarrow> (\<forall>x l b. map_of cache (x, l) = Some b \<longrightarrow> b = certifies c B x l)"

definition link_cache_ok :: "blocks_of_all \<Rightarrow> PairCache \<Rightarrow> bool" where
  "link_cache_ok B cache \<longleftrightarrow> (\<forall>x y b. map_of cache (x, y) = Some b \<longrightarrow> b = links_to B x y)"

definition mahi_store_ok :: "Committee \<Rightarrow> blocks_of_all \<Rightarrow> MahiDag \<Rightarrow> bool" where
  "mahi_store_ok c B d \<longleftrightarrow> map_of (by_digest d) \<subseteq>\<^sub>m B \<and> support_cache_ok B (support_cache d) \<and>
     cert_cache_ok c B (certificate_cache d) \<and> link_cache_ok B (link_cache d)"

text \<open>A query changes nothing but the caches.\<close>

definition same_blocks :: "MahiDag \<Rightarrow> MahiDag \<Rightarrow> bool" where
  "same_blocks d d' \<longleftrightarrow> by_digest d' = by_digest d \<and> by_round d' = by_round d"

lemma same_blocks_refl [simp]: "same_blocks d d"
  by (simp add: same_blocks_def)

lemma same_blocks_trans: "same_blocks d d' \<Longrightarrow> same_blocks d' d'' \<Longrightarrow> same_blocks d d''"
  by (simp add: same_blocks_def)

lemma find_support_sound:
  assumes "mahi_store_ok c B d" and "find_support d fr a r = (d', res)"
  shows "mahi_store_ok c B d' \<and> same_blocks d d' \<and> (\<forall>v. res = Some v \<longrightarrow> supports B a r fr v)"
proof -
  obtain cache' where inner: "find_support_inner (by_digest d) (support_cache d) fr a r [] = (cache', res)"
    and d': "d' = d\<lparr>support_cache := cache'\<rparr>"
    using assms(2) by (auto simp: find_support_def Let_def prod_eq_iff)
  from find_support_sound_mutual(1) [OF _ _ inner] assms(1) show ?thesis
    by (simp add: mahi_store_ok_def same_blocks_def d')
qed

lemma is_vote_sound:
  assumes "mahi_store_ok c B d" and "is_vote d vote leader = (d', res)"
  shows "mahi_store_ok c B d' \<and> same_blocks d d' \<and> (\<forall>b. res = Some b \<longrightarrow> b = votes_for B leader vote)"
proof (cases "map_of (by_digest d) leader")
  case None
  with assms show ?thesis by (simp add: is_vote_def)
next
  case (Some lb)
  obtain r where r: "find_support d vote (cert_origin lb) (cert_round lb) = (d', r)"
    and res: "res = map_option (\<lambda>support. support = Some leader) r"
    using assms(2) Some by (auto simp: is_vote_def Let_def prod_eq_iff)
  have "B leader = Some lb" using assms(1) Some map_le_Some by (fastforce simp: mahi_store_ok_def)
  with find_support_sound [OF assms(1) r] supports_unique(1) show ?thesis
    by (fastforce simp: res votes_for_def)
qed

definition voters_in :: "blocks_of_all \<Rightarrow> Digest \<Rightarrow> Round \<Rightarrow> Digest list \<Rightarrow> PublicKey set" where
  "voters_in B leader r ps = authors_at B r (\<lambda>d. d \<in> set ps \<and> votes_for B leader d)"

lemma finite_voters_in [simp]: "finite (voters_in B leader r ps)"
proof -
  have "voters_in B leader r ps \<subseteq> (\<lambda>d. cert_origin (the (B d))) ` set ps"
    by (force simp: voters_in_def authors_at_def)
  then show ?thesis by (rule finite_subset) simp
qed

lemma voters_in_Nil [simp]: "voters_in B leader r [] = {}"
  by (simp add: voters_in_def authors_at_def)

lemma voters_in_Cons:
  "B p = Some b \<Longrightarrow> voters_in B leader r (p # ps) =
     (if cert_round b = r \<and> votes_for B leader p then insert (cert_origin b) (voters_in B leader r ps)
      else voters_in B leader r ps)"
  by (auto simp: voters_in_def authors_at_def)

lemma voters_in_mono: "voters_in B leader r ps \<subseteq> voters_in B leader r (p # ps)"
  by (auto simp: voters_in_def authors_at_def)

definition certificate_answer ::
    "Committee \<Rightarrow> blocks_of_all \<Rightarrow> PublicKey set \<Rightarrow> bool \<Rightarrow> bool option \<Rightarrow> bool" where
  "certificate_answer c B V incomplete res \<longleftrightarrow>
     (res = Some True \<longrightarrow> has_quorum c V) \<and> (res = Some False \<longrightarrow> \<not> incomplete \<and> \<not> has_quorum c V)"

lemma certificate_answer_more:
  "certificate_answer c B V True res \<Longrightarrow> V \<subseteq> W \<Longrightarrow> finite W \<Longrightarrow> certificate_answer c B W inc res"
  by (auto simp: certificate_answer_def intro: has_quorum_mono)

lemma certificate_loop_sound:
  assumes "committee_ok c" and "mahi_store_ok c B d"
    and "distinct voters" and "weight = sum_list (map (stake c) voters)" and "\<not> has_quorum c (set voters)"
    and "certificate_loop c leader r d voters weight incomplete ps = (d', res)"
  shows "mahi_store_ok c B d' \<and> same_blocks d d' \<and>
    certificate_answer c B (set voters \<union> voters_in B leader r ps) incomplete res"
  using assms(2-)
proof (induction ps arbitrary: d voters weight incomplete)
  case Nil
  then show ?case by (auto simp: certificate_answer_def split: if_splits)
next
  case (Cons p ps)
  note step = Cons.prems(5) [unfolded certificate_loop.simps]
  let ?all = "set voters \<union> voters_in B leader r (p # ps)"
  show ?case
  proof (cases "map_of (by_digest d) p")
    case None
    with step have "certificate_loop c leader r d voters weight True ps = (d', res)" by simp
    from Cons.IH [OF Cons.prems(1-4) this] voters_in_mono [of B leader r ps p] show ?thesis
      by (auto elim!: certificate_answer_more)
  next
    case (Some b)
    have B: "B p = Some b" using Cons.prems(1) Some map_le_Some by (fastforce simp: mahi_store_ok_def)
    show ?thesis
    proof (cases "cert_round b \<noteq> r \<or> cert_origin b \<in> set voters")
      case True
      with step Some have "certificate_loop c leader r d voters weight incomplete ps = (d', res)" by simp
      from Cons.IH [OF Cons.prems(1-4) this] True show ?thesis
        by (auto simp: voters_in_Cons [of B, OF B] insert_absorb)
    next
      case False
      obtain d1 v where v: "is_vote d p leader = (d1, v)" by fastforce
      from is_vote_sound [OF Cons.prems(1) v]
      have d1: "mahi_store_ok c B d1" "same_blocks d d1" and vb: "\<And>b. v = Some b \<Longrightarrow> b = votes_for B leader p" by auto
      consider (yes) "v = Some True" | (no) "v = Some False" | (dunno) "v = None" by (cases v) auto
      then show ?thesis
      proof cases
        case yes
        let ?voters = "cert_origin b # voters" and ?weight = "weight + stake c (cert_origin b)"
        have w: "?weight = sum_list (map (stake c) ?voters)" using Cons.prems(3) by simp
        have V: "?all = set ?voters \<union> voters_in B leader r ps"
          using yes vb [OF yes] False by (simp add: voters_in_Cons [of B, OF B])
        have q: "has_quorum c (set ?voters) \<longleftrightarrow> quorum_threshold c \<le> ?weight"
          unfolding w by (rule has_quorum_list [OF assms(1)]) (use Cons.prems(2) False in simp)
        show ?thesis
        proof (cases "quorum_threshold c \<le> ?weight")
          case True
          with step Some False v yes have "d' = d1" "res = Some True" by simp_all
          moreover have "has_quorum c ?all" unfolding V by (rule has_quorum_mono) (use True q in auto)
          ultimately show ?thesis using d1 by (simp add: certificate_answer_def)
        next
          case less: False
          with step Some False v yes
          have "certificate_loop c leader r d1 ?voters ?weight incomplete ps = (d', res)" by simp
          from Cons.IH [OF d1(1) _ w _ this] less q Cons.prems(2) False d1(2) show ?thesis
            by (auto simp: V intro: same_blocks_trans)
        qed
      next
        case no
        with step Some False v have "certificate_loop c leader r d1 voters weight incomplete ps = (d', res)" by simp
        from Cons.IH [OF d1(1) Cons.prems(2-4) this] d1(2) vb [OF no] show ?thesis
          by (auto simp: voters_in_Cons [of B, OF B] intro: same_blocks_trans)
      next
        case dunno
        with step Some False v have "certificate_loop c leader r d1 voters weight True ps = (d', res)" by simp
        from Cons.IH [OF d1(1) Cons.prems(2-4) this] d1(2) voters_in_mono [of B leader r ps p] show ?thesis
          by (auto elim!: certificate_answer_more intro: same_blocks_trans)
      qed
    qed
  qed
qed

lemma not_quorum_empty: "committee_ok c \<Longrightarrow> \<not> has_quorum c {}"
  using has_quorum_meets [of c "{}" "{}"] by blast

lemma is_certificate_sound:
  assumes "mahi_history c F B" and "mahi_store_ok c B d" and "is_certificate c d x leader = (d', res)"
  shows "mahi_store_ok c B d' \<and> same_blocks d d' \<and> (\<forall>b. res = Some b \<longrightarrow> b = certifies c B x leader)"
proof (cases "map_of (certificate_cache d) (x, leader)")
  case (Some cached)
  with assms(2,3) show ?thesis by (auto simp: is_certificate_def mahi_store_ok_def cert_cache_ok_def)
next
  case miss: None
  show ?thesis
  proof (cases "map_of (by_digest d) x")
    case None
    with miss assms(2,3) show ?thesis by (simp add: is_certificate_def)
  next
    case (Some b)
    have B: "B x = Some b" using assms(2) Some map_le_Some by (fastforce simp: mahi_store_ok_def)
    obtain d1 v where v: "certificate_loop c leader (cert_round b - 1) d [] 0 False (h_parents (header b)) = (d1, v)"
      by fastforce
    note c = mahi_committee [OF assms(1)]
    from certificate_loop_sound [OF c assms(2) _ _ _ v] not_quorum_empty [OF c]
    have d1: "mahi_store_ok c B d1" "same_blocks d d1"
      and ans: "certificate_answer c B (voters_in B leader (cert_round b - 1) (h_parents (header b))) False v" by auto
    have eq: "voters_in B leader (cert_round b - 1) (h_parents (header b)) =
        authors_at B (cert_round b - 1) (\<lambda>d. parent_of B x d \<and> votes_for B leader d)"
      by (simp add: voters_in_def parent_of_def B)
    have vb: "b' = certifies c B x leader" if "v = Some b'" for b'
      using ans that B unfolding certificate_answer_def certifies_def eq by (cases b') auto
    show ?thesis
    proof (cases v)
      case None
      with assms(3) miss Some v d1 show ?thesis by (simp add: is_certificate_def)
    next
      case (Some b')
      with assms(3) miss \<open>map_of (by_digest d) x = Some b\<close> v
      have "d' = d1\<lparr>certificate_cache := AList.update (x, leader) b' (certificate_cache d1)\<rparr>" "res = Some b'"
        by (simp_all add: is_certificate_def)
      with d1 vb [OF Some] show ?thesis by (simp add: mahi_store_ok_def same_blocks_def cert_cache_ok_def)
    qed
  qed
qed

section \<open>Links\<close>

lemma links_to_step:
  assumes "B x = Some b" and "x \<noteq> y"
  shows "links_to B x y \<longleftrightarrow> (\<exists>p \<in> set (h_parents (header b)). links_to B p y)"
proof
  assume "links_to B x y"
  then show "\<exists>p \<in> set (h_parents (header b)). links_to B p y"
    unfolding links_to_def by (rule converse_rtranclpE) (use assms in \<open>auto simp: parent_of_def\<close>)
next
  assume "\<exists>p \<in> set (h_parents (header b)). links_to B p y"
  then obtain p where "parent_of B x p" "links_to B p y" using assms(1) by (auto simp: parent_of_def)
  then show "links_to B x y" unfolding links_to_def by (rule converse_rtranclp_into_rtranclp)
qed

lemma links_to_older:
  assumes "mahi_history c F B" and "links_to B x y" and "B x = Some b" and "B y = Some b'" and "x \<noteq> y"
  shows "cert_round b' < cert_round b"
  using assms(2)[unfolded links_to_def] assms(3-)
proof (induction arbitrary: b rule: converse_rtranclp_induct)
  case (step x z)
  then obtain bz where bz: "B z = Some bz" "cert_round bz < cert_round b"
    using mahi_parent_older [OF assms(1), of x b z] by (auto simp: parent_of_def)
  show ?case
  proof (cases "z = y")
    case False
    with step.IH [OF bz(1) step.prems(2)] bz(2) show ?thesis by simp
  qed (use bz step.prems in simp)
qed simp

lemma link_cache_update:
  "link_cache_ok B cache \<Longrightarrow> b = links_to B x y \<Longrightarrow> link_cache_ok B (AList.update (x, y) b cache)"
  by (simp add: link_cache_ok_def)

lemma linked_sound_mutual:
  assumes "mahi_history c F B"
  shows "map_of blocks \<subseteq>\<^sub>m B \<Longrightarrow> link_cache_ok B cache \<Longrightarrow>
      linked_inner blocks cache from target visiting = (cache', res) \<Longrightarrow>
      link_cache_ok B cache' \<and> (\<forall>v. res = Some v \<longrightarrow> v = links_to B from target)"
    and "map_of blocks \<subseteq>\<^sub>m B \<Longrightarrow> link_cache_ok B cache \<Longrightarrow> B from = Some b \<Longrightarrow> from \<noteq> target \<Longrightarrow>
      B target = Some tb \<Longrightarrow> target_round = cert_round tb \<Longrightarrow> set parents \<subseteq> set (h_parents (header b)) \<Longrightarrow>
      incomplete \<or> (\<forall>p \<in> set (h_parents (header b)) - set parents. \<not> links_to B p target) \<Longrightarrow>
      linked_loop blocks cache from target target_round visiting incomplete parents = (cache', res) \<Longrightarrow>
      link_cache_ok B cache' \<and> (\<forall>v. res = Some v \<longrightarrow> v = links_to B from target)"
proof (induction blocks cache "from" target visiting
    and blocks cache "from" target target_round visiting incomplete parents
    arbitrary: cache' res and cache' res b tb rule: linked_inner_linked_loop.induct)
  case (1 blocks cache fr target visiting)
  note step = "1.prems"(3) [unfolded linked_inner.simps]
  show ?case
  proof (cases "fr = target")
    case True
    with step "1.prems"(2) show ?thesis by (auto simp: links_to_def)
  next
    case ne: False
    show ?thesis
    proof (cases "map_of cache (fr, target) \<noteq> None \<or> fr \<in> set visiting \<or> map_of blocks target = None \<or> map_of blocks fr = None")
      case True
      with step ne "1.prems"(2) show ?thesis by (auto simp: link_cache_ok_def split: option.splits if_splits)
    next
      case False
      then obtain tb b where known: "map_of cache (fr, target) = None" "fr \<notin> set visiting"
        "map_of blocks target = Some tb" "map_of blocks fr = Some b" by auto
      note B = map_le_Some [OF "1.prems"(1) known(3)] map_le_Some [OF "1.prems"(1) known(4)]
      show ?thesis
      proof (cases "cert_round b \<le> cert_round tb")
        case True
        with links_to_older [OF assms _ B(2,1) ne] have "\<not> links_to B fr target" by fastforce
        with True step ne known "1.prems"(2) show ?thesis by (auto intro: link_cache_update)
      next
        case False
        with step ne known have "linked_loop blocks cache fr target (cert_round tb) (fr # visiting) False
            (h_parents (header b)) = (cache', res)" by simp
        from "1.IH" [OF ne known False "1.prems"(1,2) B(2) ne B(1) refl _ _ this] show ?thesis by simp
      qed
    qed
  qed
next
  case (2 blocks cache fr target tr visiting incomplete)
  then show ?case using links_to_step [of B fr b target]
    by (auto simp: linked_loop.simps intro: link_cache_update split: if_splits)
next
  case (3 blocks cache fr target tr visiting incomplete p ps)
  note step = "3.prems"(9) [unfolded linked_loop.simps(2)]
  note pre = "3.prems"(1-6)
  have ps: "set ps \<subseteq> set (h_parents (header b))" "p \<in> set (h_parents (header b))" using "3.prems"(7) by auto
  have rest: "incomplete \<or> (\<forall>q \<in> set (h_parents (header b)) - set ps. \<not> links_to B q target)"
    if "\<not> links_to B p target" using "3.prems"(8) that by auto
  show ?case
  proof (cases "map_of blocks p")
    case None
    with step have "linked_loop blocks cache fr target tr visiting True ps = (cache', res)" by simp
    from "3.IH"(1) [OF None pre ps(1) _ this] show ?thesis by simp
  next
    case (Some pb)
    note BSome = map_le_Some [OF "3.prems"(1) Some]
    show ?thesis
    proof (cases "cert_round pb < tr")
      case True
      have "\<not> links_to B p target"
        using links_to_older [OF assms _ BSome "3.prems"(5)] True "3.prems"(5,6) BSome by fastforce
      moreover from True step Some have "linked_loop blocks cache fr target tr visiting incomplete ps = (cache', res)" by simp
      ultimately show ?thesis using "3.IH"(2) [OF Some True pre ps(1) rest] by simp
    next
      case False
      obtain c1 r1 where inner: "linked_inner blocks cache p target visiting = (c1, r1)" by fastforce
      from "3.IH"(3) [OF Some False "3.prems"(1,2) inner]
      have c1: "link_cache_ok B c1" and r1: "\<And>v. r1 = Some v \<Longrightarrow> v = links_to B p target" by auto
      consider (yes) "r1 = Some True" | (no) "r1 = Some False" | (dunno) "r1 = None" by (cases r1) auto
      then show ?thesis
      proof cases
        case yes
        with r1 [OF yes] ps(2) links_to_step [of B, OF "3.prems"(3,4)] have "links_to B fr target" by auto
        with step Some False inner yes c1 show ?thesis by (auto intro: link_cache_update)
      next
        case no
        with step Some False inner have "linked_loop blocks c1 fr target tr visiting incomplete ps = (cache', res)" by simp
        from "3.IH"(5) [OF Some False inner [symmetric] no _ "3.prems"(1) c1 "3.prems"(3-6) ps(1) rest this]
          r1 [OF no] show ?thesis by simp
      next
        case dunno
        with step Some False inner have "linked_loop blocks c1 fr target tr visiting True ps = (cache', res)" by simp
        from "3.IH"(4) [OF Some False inner [symmetric] dunno "3.prems"(1) c1 "3.prems"(3-6) ps(1) _ this]
        show ?thesis by simp
      qed
    qed
  qed
qed

lemma linked_sound:
  assumes "mahi_history c F B" and "mahi_store_ok c B d" and "mahi_linked d fr target = (d', res)"
  shows "mahi_store_ok c B d' \<and> same_blocks d d' \<and> (\<forall>v. res = Some v \<longrightarrow> v = links_to B fr target)"
proof -
  obtain cache' where inner: "linked_inner (by_digest d) (link_cache d) fr target [] = (cache', res)"
    and d': "d' = d\<lparr>link_cache := cache'\<rparr>"
    using assms(3) by (auto simp: mahi_linked_def Let_def prod_eq_iff)
  from linked_sound_mutual(1) [OF assms(1) _ _ inner] assms(2) show ?thesis
    by (simp add: mahi_store_ok_def same_blocks_def d')
qed

section \<open>The indexes\<close>

definition slot_set :: "MahiDag \<Rightarrow> PublicKey \<Rightarrow> Round \<Rightarrow> Digest list" where
  "slot_set d a r =
     (case Option.bind (map_of (by_round d) r) (\<lambda>by_author. map_of by_author a) of None \<Rightarrow> [] | Some ds \<Rightarrow> ds)"

definition mahi_index_ok :: "MahiDag \<Rightarrow> bool" where
  "mahi_index_ok d \<longleftrightarrow>
     (\<forall>r m. map_of (by_round d) r = Some m \<longrightarrow> wf_map m) \<and> (\<forall>a r. distinct (slot_set d a r)) \<and>
     (\<forall>a r x. x \<in> set (slot_set d a r) \<longleftrightarrow>
        (\<exists>b. map_of (by_digest d) x = Some b \<and> cert_round b = r \<and> cert_origin b = a))"

lemma slot_digests_sort: "slot_digests d a r = sort (slot_set d a r)"
  by (simp add: slot_digests_def slot_set_def split: option.split)

lemma slot_digests_ok:
  assumes "mahi_index_ok d"
  shows "distinct (slot_digests d a r)"
    and "x \<in> set (slot_digests d a r) \<longleftrightarrow>
           (\<exists>b. map_of (by_digest d) x = Some b \<and> cert_round b = r \<and> cert_origin b = a)"
  using assms by (simp_all add: slot_digests_sort mahi_index_ok_def)

lemma round_digests_ok:
  assumes "mahi_index_ok d"
  shows "x \<in> set (round_digests d r) \<longleftrightarrow> (\<exists>b. map_of (by_digest d) x = Some b \<and> cert_round b = r)"
proof -
  have "x \<in> set (round_digests d r) \<longleftrightarrow> (\<exists>a. x \<in> set (slot_set d a r))"
  proof (cases "map_of (by_round d) r")
    case (Some m)
    with assms have wf: "wf_map m" by (simp add: mahi_index_ok_def)
    have "x \<in> set (round_digests d r) \<longleftrightarrow> (\<exists>a ds. (a, ds) \<in> set m \<and> x \<in> set ds)"
      by (auto simp: round_digests_def Some btree_iter_def)
    also have "\<dots> \<longleftrightarrow> (\<exists>a ds. map_of m a = Some ds \<and> x \<in> set ds)" using wf by simp
    also have "\<dots> \<longleftrightarrow> (\<exists>a. x \<in> set (slot_set d a r))"
      by (intro iff_exI) (simp add: slot_set_def Some eq_commute [of _ "map_of m _"] split: option.split)
    finally show ?thesis .
  qed (simp add: round_digests_def slot_set_def)
  with assms show ?thesis by (simp add: mahi_index_ok_def)
qed

lemma slot_set_insert:
  assumes "\<not> contains_key (by_digest d) (cert_digest lib b)"
  shows "slot_set (fst (mahi_insert lib d b)) a r =
    (if r = cert_round b \<and> a = cert_origin b then List.insert (cert_digest lib b) (slot_set d a r) else slot_set d a r)"
  using assms by (auto simp: slot_set_def mahi_insert_def Let_def split: option.splits)

lemma mahi_insert_blocks:
  "map_of (by_digest (fst (mahi_insert lib d b))) =
     (if contains_key (by_digest d) (cert_digest lib b) then map_of (by_digest d)
      else (map_of (by_digest d))(cert_digest lib b \<mapsto> b))"
  by (auto simp: mahi_insert_def Let_def)

lemma mahi_index_insert:
  assumes "mahi_index_ok d"
  shows "mahi_index_ok (fst (mahi_insert lib d b))"
proof (cases "contains_key (by_digest d) (cert_digest lib b)")
  case True
  with assms show ?thesis by (simp add: mahi_insert_def)
next
  case new: False
  let ?d = "fst (mahi_insert lib d b)"
  have "wf_map m" if "map_of (by_round ?d) r = Some m" for r m
    using that new assms by (auto simp: mahi_insert_def Let_def mahi_index_ok_def wf_update split: if_splits option.splits)
  moreover have "distinct (slot_set ?d a r)" for a r
    using assms by (simp add: slot_set_insert [OF new] mahi_index_ok_def)
  moreover have "x \<in> set (slot_set ?d a r) \<longleftrightarrow>
      (\<exists>b. map_of (by_digest ?d) x = Some b \<and> cert_round b = r \<and> cert_origin b = a)" for a r x
    using assms new by (auto simp: slot_set_insert [OF new] mahi_insert_blocks mahi_index_ok_def contains_key_def)
  ultimately show ?thesis by (simp add: mahi_index_ok_def)
qed

lemma mahi_index_empty [simp]: "mahi_index_ok mahi_dag_empty"
  by (simp add: mahi_index_ok_def mahi_dag_empty_def slot_set_def)

lemma mahi_index_same: "same_blocks d d' \<Longrightarrow> mahi_index_ok d' \<longleftrightarrow> mahi_index_ok d"
  by (simp add: same_blocks_def mahi_index_ok_def slot_set_def)

lemma same_blocks_queries:
  "same_blocks d d' \<Longrightarrow> slot_digests d' a r = slot_digests d a r"
  "same_blocks d d' \<Longrightarrow> round_digests d' r = round_digests d r"
  by (simp_all add: same_blocks_def slot_digests_def round_digests_def)

end
