(* ===== verification/Mahi_Committer.thy ===== *)
theory Mahi_Committer
  imports Mahi_History "HOL-Library.Product_Lexorder"
begin

text \<open>
  The commit rule of the Mahi-Mahi module (\<^verbatim>\<open>MahiCommitter\<close> and \<^verbatim>\<open>run\<close> in
  \<^verbatim>\<open>consensus/src/mahi_mahi.rs\<close>): two leader slots a round, direct decisions from the
  decision round, indirect decisions from a later committed leader, and the linearization
  of a committed leader's history.  An \<^verbatim>\<open>assert!\<close> or \<^verbatim>\<open>expect\<close> that fails is an
  \<^term>\<open>Inl\<close>.  The sum of a round and the wave length (4 or 5) is not reduced modulo
  \<open>2 ^ 64\<close>: a block of such a round needs a validated block of every round before it.
\<close>

definition LEADER_COUNT :: nat where
  "LEADER_COUNT = 2"

record SlotId =
  slot_round :: Round
  slot_index :: nat

datatype LeaderDecision = Commit Digest | Skip | Undecided

fun is_decided :: "LeaderDecision \<Rightarrow> bool" where
  "is_decided Undecided = False"
| "is_decided _ = True"

record LeaderSlot =
  ls_id :: SlotId
  ls_authority :: PublicKey

record DecisionRecord =
  dr_slot :: LeaderSlot
  dr_decision :: LeaderDecision

record MahiCommitter =
  mc_dag :: MahiDag
  mc_wave_length :: Round
  mc_decisions :: "(SlotId \<times> LeaderDecision) list"
  mc_last_decided :: "SlotId option"
  mc_emitted :: "Digest list"

definition mahi_committer_new :: "CryptoLib \<Rightarrow> Certificate list \<Rightarrow> Round \<Rightarrow> MahiCommitter" where
  "mahi_committer_new lib gen wave_length =
     \<lparr>mc_dag = mahi_dag_new lib gen, mc_wave_length = wave_length, mc_decisions = [],
      mc_last_decided = None, mc_emitted = remdups (map (cert_digest lib) gen)\<rparr>"

definition committer_insert :: "CryptoLib \<Rightarrow> MahiCommitter \<Rightarrow> Certificate \<Rightarrow> MahiCommitter \<times> bool" where
  "committer_insert lib mc certificate =
     (let r = mahi_insert lib (mc_dag mc) certificate in (mc\<lparr>mc_dag := fst r\<rparr>, snd r))"

section \<open>Direct decisions\<close>

text \<open>The decision blocks that certify one candidate, until they make a quorum.\<close>

fun commit_evidence ::
    "Committee \<Rightarrow> Digest \<Rightarrow> MahiDag \<Rightarrow> PublicKey list \<Rightarrow> Stake \<Rightarrow> Digest list \<Rightarrow> (MahiDag \<times> bool) outcome" where
  "commit_evidence c candidate d authors weight [] = Inr (d, False)"
| "commit_evidence c candidate d authors weight (decision_block # blocks) =
     (let r = is_certificate c d decision_block candidate; d' = fst r
      in if snd r = Some True
         then rbind (expect ''indexed decision block'' (map_of (by_digest d') decision_block)) (\<lambda>block.
                let author = cert_origin block;
                    fresh = author \<notin> set authors;
                    weight' = (if fresh then weight + stake c author else weight)
                in if weight' \<ge> quorum_threshold c then Inr (d', True)
                   else commit_evidence c candidate d' (List.insert author authors) weight' blocks)
         else commit_evidence c candidate d' authors weight blocks)"

fun supported_candidates ::
    "Committee \<Rightarrow> Digest list \<Rightarrow> MahiDag \<Rightarrow> Digest list \<Rightarrow> (MahiDag \<times> Digest list) outcome" where
  "supported_candidates c decision_blocks d [] = Inr (d, [])"
| "supported_candidates c decision_blocks d (candidate # candidates) =
     rbind (commit_evidence c candidate d [] 0 decision_blocks) (\<lambda>(d1, supported).
     rbind (supported_candidates c decision_blocks d1 candidates) (\<lambda>(d2, rest).
       Inr (d2, if supported then candidate # rest else rest)))"

text \<open>The vote-round blocks that support no block of the slot, until they make a quorum.\<close>

fun skip_evidence ::
    "Committee \<Rightarrow> PublicKey \<Rightarrow> Round \<Rightarrow> MahiDag \<Rightarrow> PublicKey list \<Rightarrow> Stake \<Rightarrow> Digest list
     \<Rightarrow> (MahiDag \<times> bool) outcome" where
  "skip_evidence c authority round d non_voters weight [] = Inr (d, False)"
| "skip_evidence c authority round d non_voters weight (vote_block # blocks) =
     (let r = find_support d vote_block authority round; d' = fst r
      in if snd r = Some None
         then rbind (expect ''indexed vote block'' (map_of (by_digest d') vote_block)) (\<lambda>block.
                let author = cert_origin block
                in if author \<in> set non_voters then skip_evidence c authority round d' non_voters weight blocks
                   else if weight + stake c author \<ge> quorum_threshold c then Inr (d', True)
                   else skip_evidence c authority round d' (author # non_voters) (weight + stake c author) blocks)
         else skip_evidence c authority round d' non_voters weight blocks)"

definition direct_decision :: "Committee \<Rightarrow> MahiCommitter \<Rightarrow> LeaderSlot \<Rightarrow> (MahiCommitter \<times> LeaderDecision) outcome" where
  "direct_decision c mc slot =
     (let d = mc_dag mc; round = slot_round (ls_id slot);
          candidates = slot_digests d (ls_authority slot) round;
          decision_blocks = round_digests d (round + mc_wave_length mc - 1)
      in rbind (supported_candidates c decision_blocks d candidates) (\<lambda>(d1, supported).
         if 1 < length supported
         then Inl (AssertFailed ''Mahi-Mahi safety violation: multiple directly certified leaders in one slot'')
         else if supported \<noteq> [] then Inr (mc\<lparr>mc_dag := d1\<rparr>, Commit (last supported))
         else rbind (skip_evidence c (ls_authority slot) round d1 [] 0
                       (round_digests d1 (round + mc_wave_length mc - 2))) (\<lambda>(d2, skip).
              Inr (mc\<lparr>mc_dag := d2\<rparr>, if skip then Skip else Undecided))))"

section \<open>Indirect decisions\<close>

fun anchored_certificate ::
    "Committee \<Rightarrow> Digest \<Rightarrow> Digest \<Rightarrow> MahiDag \<Rightarrow> bool \<Rightarrow> Digest list \<Rightarrow> MahiDag \<times> bool \<times> bool" where
  "anchored_certificate c anchor candidate d incomplete [] = (d, False, incomplete)"
| "anchored_certificate c anchor candidate d incomplete (certificate # certificates) =
     (let r1 = mahi_linked d anchor certificate; d1 = fst r1
      in case snd r1 of
           Some True \<Rightarrow>
             (let r2 = is_certificate c d1 certificate candidate; d2 = fst r2
              in case snd r2 of
                   Some True \<Rightarrow> (d2, True, incomplete)
                 | Some False \<Rightarrow> anchored_certificate c anchor candidate d2 incomplete certificates
                 | None \<Rightarrow> anchored_certificate c anchor candidate d2 True certificates)
         | Some False \<Rightarrow> anchored_certificate c anchor candidate d1 incomplete certificates
         | None \<Rightarrow> anchored_certificate c anchor candidate d1 True certificates)"

fun anchored_candidates ::
    "Committee \<Rightarrow> Digest \<Rightarrow> Digest list \<Rightarrow> MahiDag \<Rightarrow> bool \<Rightarrow> Digest list \<Rightarrow> MahiDag \<times> Digest list \<times> bool" where
  "anchored_candidates c anchor certificates d incomplete [] = (d, [], incomplete)"
| "anchored_candidates c anchor certificates d incomplete (candidate # candidates) =
     (case anchored_certificate c anchor candidate d incomplete certificates of
        (d1, candidate_certified, incomplete1) \<Rightarrow>
          (case anchored_candidates c anchor certificates d1 incomplete1 candidates of
             (d2, certified, incomplete2) \<Rightarrow>
               (d2, if candidate_certified then candidate # certified else certified, incomplete2)))"

definition decide_from_anchor ::
    "Committee \<Rightarrow> MahiCommitter \<Rightarrow> LeaderSlot \<Rightarrow> Digest \<Rightarrow> (MahiCommitter \<times> LeaderDecision) outcome" where
  "decide_from_anchor c mc slot anchor =
     (let d = mc_dag mc; round = slot_round (ls_id slot);
          candidates = slot_digests d (ls_authority slot) round;
          potential_certificates = round_digests d (round + mc_wave_length mc - 1)
      in case anchored_candidates c anchor potential_certificates d False candidates of
           (d1, certified, incomplete) \<Rightarrow>
             if 1 < length certified
             then Inl (AssertFailed ''Mahi-Mahi safety violation: anchor links multiple certified leaders in one slot'')
             else Inr (mc\<lparr>mc_dag := d1\<rparr>,
                       if certified \<noteq> [] then Commit (last certified)
                       else if incomplete then Undecided else Skip))"

fun indirect_loop ::
    "Committee \<Rightarrow> MahiCommitter \<Rightarrow> LeaderSlot \<Rightarrow> DecisionRecord list \<Rightarrow> (MahiCommitter \<times> LeaderDecision) outcome" where
  "indirect_loop c mc slot [] = Inr (mc, Undecided)"
| "indirect_loop c mc slot (record # later) =
     (case dr_decision record of
        Skip \<Rightarrow> indirect_loop c mc slot later
      | Undecided \<Rightarrow> Inr (mc, Undecided)
      | Commit anchor \<Rightarrow> decide_from_anchor c mc slot anchor)"

definition indirect_decision ::
    "Committee \<Rightarrow> MahiCommitter \<Rightarrow> LeaderSlot \<Rightarrow> DecisionRecord list \<Rightarrow> (MahiCommitter \<times> LeaderDecision) outcome" where
  "indirect_decision c mc slot later =
     (let decision_round = slot_round (ls_id slot) + mc_wave_length mc - 1
      in indirect_loop c mc slot (filter (\<lambda>record. slot_round (ls_id (dr_slot record)) > decision_round) later))"

section \<open>The pending slots\<close>

definition first_pending :: "SlotId option \<Rightarrow> SlotId" where
  "first_pending last_decided =
     (case last_decided of
        Some slot \<Rightarrow>
          if slot_index slot + 1 < LEADER_COUNT
          then \<lparr>slot_round = slot_round slot, slot_index = slot_index slot + 1\<rparr>
          else \<lparr>slot_round = slot_round slot + 1, slot_index = 0\<rparr>
      | None \<Rightarrow> \<lparr>slot_round = 1, slot_index = 0\<rparr>)"

text \<open>The slot identifiers the two nested loops visit, in their order.\<close>

definition slot_ids :: "SlotId \<Rightarrow> Round \<Rightarrow> SlotId list" where
  "slot_ids first max_leader_round =
     concat (map (\<lambda>round. map (\<lambda>index. \<lparr>slot_round = round, slot_index = index\<rparr>)
                            [(if round = slot_round first then slot_index first else 0)..<LEADER_COUNT])
               [slot_round first..<Suc max_leader_round])"

text \<open>The body of the loops: the first slot without a leader ends the list.\<close>

fun elect_slots ::
    "CryptoLib \<Rightarrow> MahiDag \<Rightarrow> Round \<Rightarrow> Consensus \<Rightarrow> SlotId list \<Rightarrow> (Consensus \<times> LeaderSlot list) outcome" where
  "elect_slots lib d wave_length con [] = Inr (con, [])"
| "elect_slots lib d wave_length con (slot # slots) =
     (let coin_round = slot_round slot + wave_length - 1
      in rbind (leader_authority_from_certificates lib con (slot_round slot) coin_round (slot_index slot)
                  (mahi_round_certificates d coin_round)) (\<lambda>(con1, authority).
           case authority of
             None \<Rightarrow> Inr (con1, [])
           | Some a \<Rightarrow> rbind (elect_slots lib d wave_length con1 slots) (\<lambda>(con2, rest).
                         Inr (con2, \<lparr>ls_id = slot, ls_authority = a\<rparr> # rest))))"

definition pending_slots :: "CryptoLib \<Rightarrow> Consensus \<Rightarrow> MahiCommitter \<Rightarrow> (Consensus \<times> LeaderSlot list) outcome" where
  "pending_slots lib con mc =
     (let highest = highest_round (mc_dag mc); wave_length = mc_wave_length mc
      in if highest + 1 < wave_length then Inr (con, [])
         else elect_slots lib (mc_dag mc) wave_length con
                (slot_ids (first_pending (mc_last_decided mc)) (highest - (wave_length - 1))))"

section \<open>Linearization\<close>

text \<open>The stack is a list with its top first.\<close>

function reachable_loop :: "Blocks \<Rightarrow> Digest list \<Rightarrow> Digest list \<Rightarrow> Digest list \<Rightarrow> Digest list" where
  "reachable_loop blocks emitted reachable [] = reachable"
| "reachable_loop blocks emitted reachable (digest # stack) =
     (if digest \<in> set emitted \<or> digest \<in> set reachable then reachable_loop blocks emitted reachable stack
      else case map_of blocks digest of
             None \<Rightarrow> reachable_loop blocks emitted (digest # reachable) stack
           | Some block \<Rightarrow>
               reachable_loop blocks emitted (digest # reachable) (rev (h_parents (header block)) @ stack))"
  by pat_completeness auto

termination
  by (relation "(\<lambda>(blocks, emitted, reachable, stack). unvisited blocks reachable) <*mlex*>
      measure (\<lambda>(blocks, emitted, reachable, stack). length stack)")
    (auto simp: wf_mlex mlex_iff unvisited_Cons intro: le_neq_implies_less [OF unvisited_le])

declare reachable_loop.simps [simp del]

definition block_order :: "Blocks \<Rightarrow> Digest \<Rightarrow> Round \<times> PublicKey \<times> Digest" where
  "block_order blocks digest =
     (case map_of blocks digest of
        None \<Rightarrow> (0, PublicKey 0, digest)
      | Some block \<Rightarrow> (cert_round block, cert_origin block, digest))"

text \<open>
  The comparison function panics on a digest without a block; the sort compares every
  element of a vector of two or more.
\<close>

definition mahi_linearize :: "MahiCommitter \<Rightarrow> Digest \<Rightarrow> (MahiCommitter \<times> Certificate list) outcome" where
  "mahi_linearize mc leader =
     (let blocks = by_digest (mc_dag mc);
          reachable = reachable_loop blocks (mc_emitted mc) [] [leader]
      in if 1 < length reachable \<and> list_ex (\<lambda>digest. map_of blocks digest = None) reachable
         then Inl (ExpectFailed ''reachable block is indexed'')
         else (let ordered = sort_key (block_order blocks) reachable;
                   known = filter (\<lambda>digest. map_of blocks digest \<noteq> None) ordered
               in Inr (mc\<lparr>mc_emitted := foldl (\<lambda>e digest. List.insert digest e) (mc_emitted mc) known\<rparr>,
                       List.map_filter (map_of blocks) ordered)))"

section \<open>The decision loop and the receive loop\<close>

fun decide_slots ::
    "Committee \<Rightarrow> MahiCommitter \<Rightarrow> DecisionRecord list \<Rightarrow> LeaderSlot list \<Rightarrow> (MahiCommitter \<times> DecisionRecord list) outcome" where
  "decide_slots c mc records [] = Inr (mc, records)"
| "decide_slots c mc records (slot # slots) =
     (let decision = (case map_of (mc_decisions mc) (ls_id slot) of None \<Rightarrow> Undecided | Some x \<Rightarrow> x)
      in rbind (if is_decided decision then Inr (mc, decision) else direct_decision c mc slot) (\<lambda>(mc1, decision1).
         rbind (if is_decided decision1 then Inr (mc1, decision1) else indirect_decision c mc1 slot records)
           (\<lambda>(mc2, decision2).
             decide_slots c
               (if is_decided decision2
                then mc2\<lparr>mc_decisions := AList.update (ls_id slot) decision2 (mc_decisions mc2)\<rparr> else mc2)
               (\<lparr>dr_slot = slot, dr_decision = decision2\<rparr> # records) slots)))"

fun emit_records :: "MahiCommitter \<Rightarrow> DecisionRecord list \<Rightarrow> (MahiCommitter \<times> Certificate list) outcome" where
  "emit_records mc [] = Inr (mc, [])"
| "emit_records mc (record # records) =
     (let mc1 = mc\<lparr>mc_last_decided := Some (ls_id (dr_slot record))\<rparr>
      in case dr_decision record of
           Undecided \<Rightarrow> Inr (mc, [])
         | Skip \<Rightarrow> emit_records mc1 records
         | Commit leader \<Rightarrow>
             rbind (mahi_linearize mc1 leader) (\<lambda>(mc2, out).
             rbind (emit_records mc2 records) (\<lambda>(mc3, outs). Inr (mc3, out @ outs))))"

definition try_decide :: "CryptoLib \<Rightarrow> Consensus \<Rightarrow> MahiCommitter \<Rightarrow> (Consensus \<times> MahiCommitter \<times> Certificate list) outcome" where
  "try_decide lib con mc =
     rbind (pending_slots lib con mc) (\<lambda>(con1, slots).
     rbind (decide_slots (con_committee con1) mc [] (rev slots)) (\<lambda>(mc1, records).
     rbind (emit_records mc1 records) (\<lambda>(mc2, sequence).
       Inr (con1,
            case mc_last_decided mc2 of
              None \<Rightarrow> mc2
            | Some decided \<Rightarrow> mc2\<lparr>mc_dag := prune_caches (mc_dag mc2) (slot_round decided - con_gc_depth con1)\<rparr>,
            sequence))))"

definition mahi_step ::
    "CryptoLib \<Rightarrow> Consensus \<times> MahiCommitter \<Rightarrow> Certificate \<Rightarrow> ((Consensus \<times> MahiCommitter) \<times> Certificate list) outcome" where
  "mahi_step lib s certificate =
     (let r = committer_insert lib (snd s) certificate
      in if \<not> snd r then Inr ((fst s, fst r), [])
         else rbind (try_decide lib (fst s) (fst r)) (\<lambda>(con, mc, sequence). Inr ((con, mc), sequence)))"

definition mahi_start :: "CryptoLib \<Rightarrow> Consensus \<Rightarrow> Consensus \<times> MahiCommitter" where
  "mahi_start lib con =
     (con, mahi_committer_new lib (con_genesis con)
        (case mahi_mahi_wave_length (con_dag_protocol con) of None \<Rightarrow> 5 | Some w \<Rightarrow> w))"

definition mahi_run :: "CryptoLib \<Rightarrow> Consensus \<Rightarrow> Certificate list \<Rightarrow> ((Consensus \<times> MahiCommitter) \<times> Certificate list) outcome" where
  "mahi_run lib con certs = run_steps (mahi_step lib) (mahi_start lib con) certs"

end
