(* ===== verification/Mahi_Decisions.thy ===== *)
theory Mahi_Decisions
  imports Mahi_Committer
begin

text \<open>
  What the decisions of the Mahi-Mahi committer mean over the blocks of all nodes, and that
  two nodes never decide a slot differently.  The relation \<open>justified\<close> is the abstract commit
  rule; the decision loop refines it.
\<close>

section \<open>Evidence\<close>

definition slot_block :: "blocks_of_all \<Rightarrow> PublicKey \<Rightarrow> Round \<Rightarrow> Digest \<Rightarrow> bool" where
  "slot_block B a r l \<longleftrightarrow> (\<exists>b. B l = Some b \<and> cert_round b = r \<and> cert_origin b = a)"

definition direct_commit :: "Committee \<Rightarrow> blocks_of_all \<Rightarrow> Round \<Rightarrow> PublicKey \<Rightarrow> Round \<Rightarrow> Digest \<Rightarrow> bool" where
  "direct_commit c B w a r l \<longleftrightarrow> slot_block B a r l \<and>
     has_quorum c (authors_at B (r + w - 1) (\<lambda>x. certifies c B x l))"

definition direct_skip :: "Committee \<Rightarrow> blocks_of_all \<Rightarrow> Round \<Rightarrow> PublicKey \<Rightarrow> Round \<Rightarrow> bool" where
  "direct_skip c B w a r \<longleftrightarrow> has_quorum c (authors_at B (r + w - 2) (\<lambda>d. supports B a r d None))"

definition anchored :: "Committee \<Rightarrow> blocks_of_all \<Rightarrow> Round \<Rightarrow> PublicKey \<Rightarrow> Round \<Rightarrow> Digest \<Rightarrow> Digest \<Rightarrow> bool" where
  "anchored c B w a r anchor l \<longleftrightarrow> slot_block B a r l \<and>
     (\<exists>x b. links_to B anchor x \<and> B x = Some b \<and> cert_round b = r + w - 1 \<and> certifies c B x l)"

definition mahi_node_ok :: "Committee \<Rightarrow> blocks_of_all \<Rightarrow> MahiDag \<Rightarrow> bool" where
  "mahi_node_ok c B d \<longleftrightarrow> mahi_store_ok c B d \<and> mahi_index_ok d \<and>
     (\<forall>x b p. map_of (by_digest d) x = Some b \<longrightarrow> p \<in> set (h_parents (header b)) \<longrightarrow> contains_key (by_digest d) p)"

lemma mahi_node_same:
  "mahi_node_ok c B d \<Longrightarrow> same_blocks d d' \<Longrightarrow> mahi_store_ok c B d' \<Longrightarrow> mahi_node_ok c B d'"
  using mahi_index_same [of d d'] by (simp add: mahi_node_ok_def same_blocks_def)

lemma mahi_node_block: "mahi_node_ok c B d \<Longrightarrow> map_of (by_digest d) x = Some b \<Longrightarrow> B x = Some b"
  by (auto simp: mahi_node_ok_def mahi_store_ok_def intro: map_le_Some)

lemma has_quorum_nonempty: "committee_ok c \<Longrightarrow> has_quorum c A \<Longrightarrow> A \<noteq> {}"
  using not_quorum_empty by blast

lemma votes_of_certified:
  assumes "mahi_history c F B" and "certifies c B x l" and "B x = Some b" and "cert_round b = r + w - 1" and "2 \<le> w"
  shows "has_quorum c (authors_at B (r + w - 2) (votes_for B l))"
  using certifies_quorum [OF assms(1-3), of "r + w - 2"] assms(4,5) by simp

lemma direct_commit_votes:
  assumes "mahi_history c F B" and "direct_commit c B w a r l" and "2 \<le> w"
  shows "has_quorum c (authors_at B (r + w - 2) (votes_for B l))"
proof -
  obtain x b where "B x = Some b" "cert_round b = r + w - 1" "certifies c B x l"
    using has_quorum_nonempty [OF mahi_committee [OF assms(1)]] assms(2)
    by (fastforce simp: direct_commit_def authors_at_def)
  with votes_of_certified [OF assms(1)] assms(3) show ?thesis by blast
qed

lemma anchored_votes:
  "mahi_history c F B \<Longrightarrow> anchored c B w a r anchor l \<Longrightarrow> 2 \<le> w \<Longrightarrow>
     has_quorum c (authors_at B (r + w - 2) (votes_for B l))"
  unfolding anchored_def using votes_of_certified by blast

lemma direct_commit_slot: "direct_commit c B w a r l \<Longrightarrow> slot_block B a r l"
  by (simp add: direct_commit_def)

lemma anchored_slot: "anchored c B w a r anchor l \<Longrightarrow> slot_block B a r l"
  by (simp add: anchored_def)

lemma slot_votes_unique:
  assumes "mahi_history c F B" and "slot_block B a r l" and "slot_block B a r l'"
    and "has_quorum c (authors_at B k (votes_for B l))" and "has_quorum c (authors_at B k (votes_for B l'))"
  shows "l = l'"
  using certified_leader_unique [OF assms(1,4,5)] assms(2,3) by (auto simp: slot_block_def)

lemma skip_excludes_votes:
  assumes "mahi_history c F B" and "slot_block B a r l" and "direct_skip c B w a r"
  shows "\<not> has_quorum c (authors_at B (r + w - 2) (votes_for B l))"
  using certified_not_skipped [OF assms(1)] assms(2,3) by (auto simp: slot_block_def direct_skip_def)

lemma mahi_quorums_share_certifier:
  assumes "mahi_history c F B" and "has_quorum c (authors_at B r P)" and "has_quorum c (authors_at B r Q)"
  obtains x b where "P x" and "Q x" and "B x = Some b" and "cert_round b = r"
proof -
  let ?R = "\<lambda>d. P d \<and> (\<exists>b. B d = Some b \<and> cert_round b = r)"
  have "authors_at B r P = authors_at B r ?R" by (auto simp: authors_at_def)
  with assms(2) have "has_quorum c (authors_at B r ?R)" by simp
  then obtain d where "?R d" "Q d" by (rule mahi_quorums_share_block [OF assms(1) _ assms(3)])
  with that show thesis by blast
qed

text \<open>A later block links to one of the certificates of a directly committed leader.\<close>

lemma direct_commit_anchored:
  assumes "mahi_history c F B" and "direct_commit c B w a r l" and "B anchor = Some ab" and "r + w - 1 < cert_round ab"
  shows "anchored c B w a r anchor l"
proof -
  have "has_quorum c (authors_at B (r + w - 1) (links_to B anchor))" by (rule links_quorum [OF assms(1,3,4)])
  moreover have "has_quorum c (authors_at B (r + w - 1) (\<lambda>x. certifies c B x l))"
    using assms(2) by (simp add: direct_commit_def)
  ultimately obtain x b where "links_to B anchor x" "certifies c B x l" "B x = Some b" "cert_round b = r + w - 1"
    by (rule mahi_quorums_share_certifier [OF assms(1)])
  with assms(2) show ?thesis by (auto simp: anchored_def direct_commit_def)
qed

section \<open>The abstract commit rule\<close>

definition valid_slot :: "SlotId \<Rightarrow> bool" where
  "valid_slot s \<longleftrightarrow> 1 \<le> slot_round s \<and> slot_index s < LEADER_COUNT"

definition slot_before :: "SlotId \<Rightarrow> SlotId \<Rightarrow> bool" where
  "slot_before s t \<longleftrightarrow>
     slot_round s < slot_round t \<or> (slot_round s = slot_round t \<and> slot_index s < slot_index t)"

lemma slot_before_total: "slot_before s t \<or> s = t \<or> slot_before t s"
  by (cases s; cases t) (auto simp: slot_before_def)

text \<open>
  A slot is decided by its own evidence or by the first later slot, more than a wave above,
  that is not skipped: its committed leader is the anchor.
\<close>

inductive justified ::
    "Committee \<Rightarrow> blocks_of_all \<Rightarrow> Round \<Rightarrow> (SlotId \<Rightarrow> PublicKey \<Rightarrow> bool) \<Rightarrow> SlotId \<Rightarrow> LeaderDecision \<Rightarrow> bool"
  for c B w elect where
  commit_direct: "valid_slot s \<Longrightarrow> elect s a \<Longrightarrow> direct_commit c B w a (slot_round s) l \<Longrightarrow>
    justified c B w elect s (Commit l)"
| skip_direct: "valid_slot s \<Longrightarrow> elect s a \<Longrightarrow> direct_skip c B w a (slot_round s) \<Longrightarrow>
    justified c B w elect s Skip"
| commit_anchor: "valid_slot s \<Longrightarrow> elect s a \<Longrightarrow> slot_round s + w - 1 < slot_round t \<Longrightarrow>
    (\<And>u. valid_slot u \<Longrightarrow> slot_round s + w - 1 < slot_round u \<Longrightarrow> slot_before u t \<Longrightarrow> justified c B w elect u Skip) \<Longrightarrow>
    justified c B w elect t (Commit anchor) \<Longrightarrow> anchored c B w a (slot_round s) anchor l \<Longrightarrow>
    justified c B w elect s (Commit l)"
| skip_anchor: "valid_slot s \<Longrightarrow> elect s a \<Longrightarrow> slot_round s + w - 1 < slot_round t \<Longrightarrow>
    (\<And>u. valid_slot u \<Longrightarrow> slot_round s + w - 1 < slot_round u \<Longrightarrow> slot_before u t \<Longrightarrow> justified c B w elect u Skip) \<Longrightarrow>
    justified c B w elect t (Commit anchor) \<Longrightarrow> (\<And>l. \<not> anchored c B w a (slot_round s) anchor l) \<Longrightarrow>
    justified c B w elect s Skip"

inductive_cases justified_CommitE: "justified c B w elect s (Commit l)"
inductive_cases justified_SkipE: "justified c B w elect s Skip"

lemma justified_valid: "justified c B w elect s d \<Longrightarrow> valid_slot s"
  by (cases rule: justified.cases) auto

lemma justified_commit_votes:
  assumes "justified c B w elect s (Commit l)" and "mahi_history c F B" and "2 \<le> w"
  obtains a where "elect s a" and "slot_block B a (slot_round s) l"
    and "has_quorum c (authors_at B (slot_round s + w - 2) (votes_for B l))"
  using assms(1)
proof (cases rule: justified.cases)
  case (commit_direct a)
  then show thesis using that direct_commit_votes [OF assms(2) _ assms(3)] direct_commit_slot by blast
next
  case (commit_anchor a t anchor)
  then show thesis using that anchored_votes [OF assms(2) _ assms(3)] anchored_slot by blast
qed

lemma justified_anchor_block:
  assumes "justified c B w elect t (Commit anchor)" and "mahi_history c F B" and "2 \<le> w"
  obtains b where "B anchor = Some b" and "cert_round b = slot_round t"
proof -
  obtain a where "slot_block B a (slot_round t) anchor" by (rule justified_commit_votes [OF assms])
  then show thesis using that by (auto simp: slot_block_def)
qed

lemma direct_commit_anchored_slot:
  assumes "mahi_history c F B" and "2 \<le> w" and "direct_commit c B w a (slot_round s) l"
    and "justified c B w elect t (Commit anchor)" and "slot_round s + w - 1 < slot_round t"
  shows "anchored c B w a (slot_round s) anchor l"
proof -
  obtain b where "B anchor = Some b" "cert_round b = slot_round t"
    by (rule justified_anchor_block [OF assms(4,1,2)])
  then show ?thesis using direct_commit_anchored [OF assms(1,3)] assms(5) by simp
qed

text \<open>The anchor step, without its verdict.\<close>

definition has_anchor ::
    "Committee \<Rightarrow> blocks_of_all \<Rightarrow> Round \<Rightarrow> (SlotId \<Rightarrow> PublicKey \<Rightarrow> bool) \<Rightarrow> SlotId \<Rightarrow> SlotId \<Rightarrow> Digest \<Rightarrow> bool" where
  "has_anchor c B w elect s t anchor \<longleftrightarrow> slot_round s + w - 1 < slot_round t \<and>
     (\<forall>u. valid_slot u \<longrightarrow> slot_round s + w - 1 < slot_round u \<longrightarrow> slot_before u t \<longrightarrow> justified c B w elect u Skip) \<and>
     justified c B w elect t (Commit anchor)"

text \<open>Two anchors of a slot agree, if what the first one rests on has no opposite decision.\<close>

lemma anchors_meet:
  assumes "has_anchor c B w elect s t anchor" and "has_anchor c B w elect s t' anchor'"
    and "\<And>u. valid_slot u \<Longrightarrow> slot_round s + w - 1 < slot_round u \<Longrightarrow> slot_before u t \<Longrightarrow>
           \<not> justified c B w elect u (Commit anchor')"
    and "\<not> justified c B w elect t Skip"
    and "\<And>l. justified c B w elect t (Commit l) \<Longrightarrow> l = anchor"
  shows "t' = t \<and> anchor' = anchor"
  using assms slot_before_total [of t t'] justified_valid unfolding has_anchor_def by metis

lemma justified_commits_agree:
  assumes "mahi_history c F B" and "2 \<le> w" and "\<And>s a a'. elect s a \<Longrightarrow> elect s a' \<Longrightarrow> a = a'"
    and "justified c B w elect s (Commit l)" and "justified c B w elect s (Commit l')"
  shows "l = l'"
proof -
  obtain a where "elect s a" "slot_block B a (slot_round s) l"
    "has_quorum c (authors_at B (slot_round s + w - 2) (votes_for B l))"
    by (rule justified_commit_votes [OF assms(4,1,2)])
  moreover obtain a' where "elect s a'" "slot_block B a' (slot_round s) l'"
    "has_quorum c (authors_at B (slot_round s + w - 2) (votes_for B l'))"
    by (rule justified_commit_votes [OF assms(5,1,2)])
  ultimately show ?thesis using slot_votes_unique [OF assms(1)] assms(3) by blast
qed

text \<open>The opposite of a decision, as a goal of the induction.\<close>

fun opposed :: "(LeaderDecision \<Rightarrow> bool) \<Rightarrow> LeaderDecision \<Rightarrow> bool" where
  "opposed P (Commit l) = P Skip"
| "opposed P Skip = (\<exists>l. P (Commit l))"
| "opposed P Undecided = False"

lemma justified_unopposed:
  assumes hist: "mahi_history c F B" and w: "2 \<le> w" and fn: "\<And>s a a'. elect s a \<Longrightarrow> elect s a' \<Longrightarrow> a = a'"
    and "justified c B w elect s d"
  shows "\<not> opposed (justified c B w elect s) d"
  using assms(4)
proof (induction rule: justified.induct)
  case (commit_direct s a l)
  show ?case
  proof
    assume "opposed (justified c B w elect s) (Commit l)"
    then have "justified c B w elect s Skip" by simp
    then show False
    proof (cases rule: justified.cases)
      case (skip_direct a')
      with commit_direct fn have "a' = a" by blast
      with skip_direct direct_commit_votes [OF hist _ w] skip_excludes_votes [OF hist] direct_commit_slot commit_direct
      show False by blast
    next
      case (skip_anchor a' t anchor)
      with direct_commit_anchored_slot [OF hist w commit_direct(3)] fn [OF commit_direct(2), of a'] show False by blast
    qed
  qed
next
  case (skip_direct s a)
  show ?case
  proof
    assume "opposed (justified c B w elect s) Skip"
    then obtain l where co: "justified c B w elect s (Commit l)" by auto
    obtain a' where "elect s a'" "slot_block B a' (slot_round s) l"
      "has_quorum c (authors_at B (slot_round s + w - 2) (votes_for B l))"
      by (rule justified_commit_votes [OF co hist w])
    then show False using fn [OF skip_direct(2)] skip_excludes_votes [OF hist _ skip_direct(3)] by blast
  qed
next
  case (commit_anchor s a t anchor l)
  have anc: "has_anchor c B w elect s t anchor" using commit_anchor by (simp add: has_anchor_def)
  show ?case
  proof
    assume "opposed (justified c B w elect s) (Commit l)"
    then have "justified c B w elect s Skip" by simp
    then show False
    proof (cases rule: justified.cases)
      case (skip_direct a')
      with commit_anchor(2) fn have "a' = a" by blast
      with skip_direct anchored_votes [OF hist commit_anchor(6) w] skip_excludes_votes [OF hist]
        anchored_slot [OF commit_anchor(6)]
      show False by blast
    next
      case (skip_anchor a' t' anchor')
      then have "has_anchor c B w elect s t' anchor'" by (simp add: has_anchor_def)
      from anchors_meet [OF anc this] commit_anchor.IH justified_commits_agree [OF hist w fn commit_anchor(5)]
      have "anchor' = anchor" by (auto simp: has_anchor_def)
      with skip_anchor commit_anchor fn [OF commit_anchor(2), of a'] show False by auto
    qed
  qed
next
  case (skip_anchor s a t anchor)
  have anc: "has_anchor c B w elect s t anchor" using skip_anchor by (simp add: has_anchor_def)
  show ?case
  proof
    assume "opposed (justified c B w elect s) Skip"
    then obtain l where "justified c B w elect s (Commit l)" by auto
    then show False
    proof (cases rule: justified.cases)
      case (commit_direct a')
      with direct_commit_anchored_slot [OF hist w _ skip_anchor(5,3)] skip_anchor fn [OF skip_anchor(2), of a']
      show False by blast
    next
      case (commit_anchor a' t' anchor')
      then have "has_anchor c B w elect s t' anchor'" by (simp add: has_anchor_def)
      from anchors_meet [OF anc this] skip_anchor.IH justified_commits_agree [OF hist w fn skip_anchor(5)]
      have "anchor' = anchor" by (auto simp: has_anchor_def)
      with commit_anchor skip_anchor fn [OF skip_anchor(2), of a'] show False by auto
    qed
  qed
qed

lemma justified_agree:
  assumes "mahi_history c F B" and "2 \<le> w" and "\<And>s a a'. elect s a \<Longrightarrow> elect s a' \<Longrightarrow> a = a'"
    and "justified c B w elect s d" and "justified c B w elect s d'"
  shows "d = d'"
proof (cases d)
  case (Commit l)
  with assms justified_unopposed [OF assms(1-4)] justified_commits_agree [OF assms(1-3)] show ?thesis
    by (cases d') (auto elim: justified.cases)
next
  case Skip
  with assms justified_unopposed [OF assms(1-4)] show ?thesis by (cases d') (auto elim: justified.cases)
qed (use assms(4) in \<open>auto elim: justified.cases\<close>)

end
