(* ===== verification/Mahi_Refinement.thy ===== *)
theory Mahi_Refinement
  imports Mahi_Decisions
begin

text \<open>
  The decision loop of the Mahi-Mahi committer refines the abstract commit rule: every
  decision it records is \<open>justified\<close>, and neither of its assertions nor of its \<^verbatim>\<open>expect\<close>s
  can fail.
\<close>

section \<open>Direct decisions\<close>

lemma commit_evidence_sound:
  assumes "mahi_history c F B" and "mahi_store_ok c B d"
    and "\<forall>x \<in> set xs. \<exists>b. map_of (by_digest d) x = Some b \<and> cert_round b = r"
    and "distinct authors" and "weight = sum_list (map (stake c) authors)" and "\<not> has_quorum c (set authors)"
    and "set authors \<subseteq> authors_at B r (\<lambda>x. certifies c B x l)"
  shows "\<exists>d' res. commit_evidence c l d authors weight xs = Inr (d', res) \<and> mahi_store_ok c B d' \<and> same_blocks d d' \<and>
    (res \<longrightarrow> has_quorum c (authors_at B r (\<lambda>x. certifies c B x l)))"
  using assms(2-)
proof (induction xs arbitrary: d authors weight)
  case (Cons x xs)
  note c = mahi_committee [OF assms(1)]
  obtain d1 v where v: "is_certificate c d x l = (d1, v)" by fastforce
  from is_certificate_sound [OF assms(1) Cons.prems(1) v]
  have d1: "mahi_store_ok c B d1" "same_blocks d d1" and vb: "v = Some True \<Longrightarrow> certifies c B x l" by auto
  have known: "\<forall>x \<in> set xs. \<exists>b. map_of (by_digest d1) x = Some b \<and> cert_round b = r"
    using Cons.prems(2) d1(2) by (simp add: same_blocks_def)
  obtain b where b: "map_of (by_digest d1) x = Some b" "cert_round b = r"
    using Cons.prems(2) d1(2) by (auto simp: same_blocks_def)
  have B: "B x = Some b" using d1(1) b(1) map_le_Some by (fastforce simp: mahi_store_ok_def)
  consider (no) "v \<noteq> Some True" | (old) "v = Some True" "cert_origin b \<in> set authors"
    | (new) "v = Some True" "cert_origin b \<notin> set authors" by blast
  then show ?case
  proof cases
    case no
    with Cons.IH [OF d1(1) known Cons.prems(3-6)] d1(2) v show ?thesis by (auto intro: same_blocks_trans)
  next
    case old
    have "\<not> quorum_threshold c \<le> weight"
      using has_quorum_list [OF c Cons.prems(3)] Cons.prems(4,5) by simp
    with Cons.IH [OF d1(1) known Cons.prems(3-6)] old d1(2) v b(1) show ?thesis
      by (auto simp: expect_def Let_def List.insert_def intro: same_blocks_trans)
  next
    case new
    let ?as = "cert_origin b # authors" and ?w = "weight + stake c (cert_origin b)"
    have w: "?w = sum_list (map (stake c) ?as)" using Cons.prems(4) by simp
    have dist: "distinct ?as" using new Cons.prems(3) by simp
    have sub: "set ?as \<subseteq> authors_at B r (\<lambda>x. certifies c B x l)"
      using Cons.prems(6) vb [OF new(1)] B b(2) by (auto simp: authors_at_def)
    have q: "has_quorum c (set ?as) \<longleftrightarrow> quorum_threshold c \<le> ?w" unfolding w by (rule has_quorum_list [OF c dist])
    show ?thesis
    proof (cases "quorum_threshold c \<le> ?w")
      case True
      then have "has_quorum c (authors_at B r (\<lambda>x. certifies c B x l))"
        using q sub mahi_finite_authors [OF assms(1)] by (blast intro: has_quorum_mono)
      with True new d1 v b(1) show ?thesis by (auto simp: expect_def)
    next
      case False
      with Cons.IH [OF d1(1) known dist w _ sub] q new d1(2) v b(1) show ?thesis
        by (auto simp: expect_def Let_def intro: same_blocks_trans)
    qed
  qed
qed auto

lemma supported_candidates_sound:
  assumes "mahi_history c F B" and "mahi_store_ok c B d"
    and "\<forall>x \<in> set xs. \<exists>b. map_of (by_digest d) x = Some b \<and> cert_round b = r"
  shows "\<exists>d' ls'. supported_candidates c xs d ls = Inr (d', ls') \<and> mahi_store_ok c B d' \<and> same_blocks d d' \<and>
    (\<forall>l \<in> set ls'. l \<in> set ls \<and> has_quorum c (authors_at B r (\<lambda>x. certifies c B x l))) \<and> (distinct ls \<longrightarrow> distinct ls')"
  using assms(2,3)
proof (induction ls arbitrary: d)
  case (Cons l ls)
  obtain d1 s where d1: "commit_evidence c l d [] 0 xs = Inr (d1, s)" "mahi_store_ok c B d1" "same_blocks d d1"
    "s \<Longrightarrow> has_quorum c (authors_at B r (\<lambda>x. certifies c B x l))"
    using commit_evidence_sound [OF assms(1) Cons.prems, of "[]" 0 l] not_quorum_empty [OF mahi_committee [OF assms(1)]]
    by auto
  have "\<forall>x \<in> set xs. \<exists>b. map_of (by_digest d1) x = Some b \<and> cert_round b = r"
    using Cons.prems(2) d1(3) by (simp add: same_blocks_def)
  from Cons.IH [OF d1(2) this] obtain d2 ls' where "supported_candidates c xs d1 ls = Inr (d2, ls')"
    "mahi_store_ok c B d2" "same_blocks d1 d2"
    "\<forall>l \<in> set ls'. l \<in> set ls \<and> has_quorum c (authors_at B r (\<lambda>x. certifies c B x l))" "distinct ls \<longrightarrow> distinct ls'"
    by blast
  with d1 show ?case by (cases s) (auto intro: same_blocks_trans)
qed simp

lemma skip_evidence_sound:
  assumes "mahi_history c F B" and "mahi_store_ok c B d"
    and "\<forall>x \<in> set xs. \<exists>b. map_of (by_digest d) x = Some b \<and> cert_round b = k"
    and "distinct authors" and "weight = sum_list (map (stake c) authors)"
    and "set authors \<subseteq> authors_at B k (\<lambda>x. supports B a r x None)"
  shows "\<exists>d' res. skip_evidence c a r d authors weight xs = Inr (d', res) \<and> mahi_store_ok c B d' \<and> same_blocks d d' \<and>
    (res \<longrightarrow> has_quorum c (authors_at B k (\<lambda>x. supports B a r x None)))"
  using assms(2-)
proof (induction xs arbitrary: d authors weight)
  case (Cons x xs)
  note c = mahi_committee [OF assms(1)]
  obtain d1 v where v: "find_support d x a r = (d1, v)" by fastforce
  from find_support_sound [OF Cons.prems(1) v]
  have d1: "mahi_store_ok c B d1" "same_blocks d d1" and vb: "v = Some None \<Longrightarrow> supports B a r x None" by auto
  have known: "\<forall>x \<in> set xs. \<exists>b. map_of (by_digest d1) x = Some b \<and> cert_round b = k"
    using Cons.prems(2) d1(2) by (simp add: same_blocks_def)
  obtain b where b: "map_of (by_digest d1) x = Some b" "cert_round b = k"
    using Cons.prems(2) d1(2) by (auto simp: same_blocks_def)
  have B: "B x = Some b" using d1(1) b(1) map_le_Some by (fastforce simp: mahi_store_ok_def)
  consider (no) "v \<noteq> Some None" | (old) "v = Some None" "cert_origin b \<in> set authors"
    | (new) "v = Some None" "cert_origin b \<notin> set authors" by blast
  then show ?case
  proof cases
    case no
    with Cons.IH [OF d1(1) known Cons.prems(3-5)] d1(2) v show ?thesis by (auto intro: same_blocks_trans)
  next
    case old
    with Cons.IH [OF d1(1) known Cons.prems(3-5)] d1(2) v b(1) show ?thesis
      by (auto simp: expect_def Let_def intro: same_blocks_trans)
  next
    case new
    let ?as = "cert_origin b # authors" and ?w = "weight + stake c (cert_origin b)"
    have w: "?w = sum_list (map (stake c) ?as)" using Cons.prems(4) by simp
    have dist: "distinct ?as" using new Cons.prems(3) by simp
    have sub: "set ?as \<subseteq> authors_at B k (\<lambda>x. supports B a r x None)"
      using Cons.prems(5) vb [OF new(1)] B b(2) by (auto simp: authors_at_def)
    show ?thesis
    proof (cases "quorum_threshold c \<le> ?w")
      case True
      then have "has_quorum c (set ?as)" unfolding w has_quorum_list [OF c dist] .
      then have "has_quorum c (authors_at B k (\<lambda>x. supports B a r x None))"
        using sub mahi_finite_authors [OF assms(1)] by (rule has_quorum_mono)
      with True new d1 v b(1) show ?thesis by (auto simp: expect_def)
    next
      case False
      with Cons.IH [OF d1(1) known dist w sub] new d1(2) v b(1) show ?thesis
        by (auto simp: expect_def Let_def intro: same_blocks_trans)
    qed
  qed
qed auto

lemma distinct_all_equal:
  assumes "distinct xs" and "\<And>x y. x \<in> set xs \<Longrightarrow> y \<in> set xs \<Longrightarrow> x = y"
  shows "length xs \<le> 1"
proof -
  have "card (set xs) \<le> Suc 0" unfolding card_le_Suc0_iff_eq [OF finite_set] using assms(2) by blast
  then show ?thesis using distinct_card [OF assms(1)] by simp
qed

definition dag_only :: "Committee \<Rightarrow> blocks_of_all \<Rightarrow> MahiCommitter \<Rightarrow> MahiCommitter \<Rightarrow> bool" where
  "dag_only c B mc mc' \<longleftrightarrow> mc' = mc\<lparr>mc_dag := mc_dag mc'\<rparr> \<and> same_blocks (mc_dag mc) (mc_dag mc') \<and>
     mahi_node_ok c B (mc_dag mc')"

lemma dag_onlyI:
  "mahi_node_ok c B (mc_dag mc) \<Longrightarrow> mahi_store_ok c B d \<Longrightarrow> same_blocks (mc_dag mc) d \<Longrightarrow>
     dag_only c B mc (mc\<lparr>mc_dag := d\<rparr>)"
  using mahi_node_same by (simp add: dag_only_def)

lemma dag_only_refl: "mahi_node_ok c B (mc_dag mc) \<Longrightarrow> dag_only c B mc mc"
  by (simp add: dag_only_def)

lemma dag_only_trans: "dag_only c B mc mc' \<Longrightarrow> dag_only c B mc' mc'' \<Longrightarrow> dag_only c B mc mc''"
  unfolding dag_only_def by (metis MahiCommitter.select_convs(1) MahiCommitter.surjective
      MahiCommitter.update_convs(1) same_blocks_trans)

lemma dag_only_fields:
  "dag_only c B mc mc' \<Longrightarrow> mc_wave_length mc' = mc_wave_length mc \<and> mc_decisions mc' = mc_decisions mc \<and>
     mc_last_decided mc' = mc_last_decided mc \<and> mc_emitted mc' = mc_emitted mc"
  unfolding dag_only_def by (metis MahiCommitter.select_convs MahiCommitter.surjective MahiCommitter.update_convs(1))

lemma direct_decision_sound:
  assumes "mahi_history c F B" and "mahi_node_ok c B (mc_dag mc)" and "w = mc_wave_length mc" and "2 \<le> w"
  shows "\<exists>mc' d. direct_decision c mc slot = Inr (mc', d) \<and> dag_only c B mc mc' \<and>
    (case d of Commit l \<Rightarrow> direct_commit c B w (ls_authority slot) (slot_round (ls_id slot)) l \<and>
                            contains_key (by_digest (mc_dag mc)) l
             | Skip \<Rightarrow> direct_skip c B w (ls_authority slot) (slot_round (ls_id slot)) | Undecided \<Rightarrow> True)"
proof -
  let ?d = "mc_dag mc" and ?r = "slot_round (ls_id slot)" and ?a = "ls_authority slot"
  have ok: "mahi_store_ok c B ?d" "mahi_index_ok ?d" using assms(2) by (simp_all add: mahi_node_ok_def)
  have known: "\<forall>x \<in> set (round_digests ?d k). \<exists>b. map_of (by_digest ?d) x = Some b \<and> cert_round b = k" for k
    by (simp add: round_digests_ok [OF ok(2)])
  obtain d1 ls where s: "supported_candidates c (round_digests ?d (?r + w - 1)) ?d (slot_digests ?d ?a ?r) = Inr (d1, ls)"
    "mahi_store_ok c B d1" "same_blocks ?d d1" "distinct ls"
    and ls: "\<And>l. l \<in> set ls \<Longrightarrow> direct_commit c B w ?a ?r l \<and> contains_key (by_digest ?d) l"
  proof -
    from supported_candidates_sound [OF assms(1) ok(1) known, of "?r + w - 1" "slot_digests ?d ?a ?r"]
    obtain d1 ls where "supported_candidates c (round_digests ?d (?r + w - 1)) ?d (slot_digests ?d ?a ?r) = Inr (d1, ls)"
      "mahi_store_ok c B d1" "same_blocks ?d d1" "distinct ls"
      and ls: "\<forall>l \<in> set ls. l \<in> set (slot_digests ?d ?a ?r) \<and> has_quorum c (authors_at B (?r + w - 1) (\<lambda>x. certifies c B x l))"
      using slot_digests_ok(1) [OF ok(2)] by auto
    moreover have "direct_commit c B w ?a ?r l \<and> contains_key (by_digest ?d) l" if "l \<in> set ls" for l
      using that ls mahi_node_block [OF assms(2)]
      by (auto simp: direct_commit_def slot_block_def slot_digests_ok(2) [OF ok(2)] contains_key_def)
    ultimately show thesis using that by blast
  qed
  have one: "length ls \<le> 1"
    by (rule distinct_all_equal [OF s(4)])
      (metis ls direct_commit_slot direct_commit_votes [OF assms(1) _ assms(4)] slot_votes_unique [OF assms(1)])
  show ?thesis
  proof (cases "ls = []")
    case False
    then have "last ls \<in> set ls" by simp
    with False one s assms(3) ls show ?thesis
      by (auto simp: direct_decision_def Let_def intro: dag_onlyI [OF assms(2)])
  next
    case True
    have "\<forall>x \<in> set (round_digests d1 (?r + w - 2)). \<exists>b. map_of (by_digest d1) x = Some b \<and> cert_round b = ?r + w - 2"
      using known s(3) same_blocks_queries(2) [OF s(3)] by (simp add: same_blocks_def)
    from skip_evidence_sound [OF assms(1) s(2) this, of "[]" 0 ?a ?r]
    obtain d2 res where "skip_evidence c ?a ?r d1 [] 0 (round_digests d1 (?r + w - 2)) = Inr (d2, res)"
      "mahi_store_ok c B d2" "same_blocks d1 d2" "res \<longrightarrow> direct_skip c B w ?a ?r"
      by (auto simp: direct_skip_def)
    with True s(1,3) assms(3) show ?thesis
      by (auto simp: direct_decision_def Let_def intro: dag_onlyI [OF assms(2)] same_blocks_trans)
  qed
qed

section \<open>Indirect decisions\<close>

definition certified_from :: "Committee \<Rightarrow> blocks_of_all \<Rightarrow> Digest \<Rightarrow> Digest list \<Rightarrow> Digest \<Rightarrow> bool" where
  "certified_from c B anchor xs l \<longleftrightarrow> (\<exists>x \<in> set xs. links_to B anchor x \<and> certifies c B x l)"

lemma certified_from_Cons:
  "certified_from c B anchor (x # xs) l \<longleftrightarrow> (links_to B anchor x \<and> certifies c B x l) \<or> certified_from c B anchor xs l"
  by (auto simp: certified_from_def)

lemma anchored_certificate_sound:
  assumes "mahi_history c F B" and "mahi_store_ok c B d"
    and "anchored_certificate c anchor l d inc xs = (d', found, inc')"
  shows "mahi_store_ok c B d' \<and> same_blocks d d' \<and> (found \<longrightarrow> certified_from c B anchor xs l) \<and> (inc \<longrightarrow> inc') \<and>
    (\<not> found \<and> \<not> inc' \<longrightarrow> \<not> certified_from c B anchor xs l)"
  using assms(2,3)
proof (induction xs arbitrary: d inc)
  case Nil
  then show ?case by (auto simp: certified_from_def)
next
  case (Cons x xs)
  obtain d1 v where v: "mahi_linked d anchor x = (d1, v)" by fastforce
  from linked_sound [OF assms(1) Cons.prems(1) v]
  have d1: "mahi_store_ok c B d1" "same_blocks d d1" and vb: "\<And>b. v = Some b \<Longrightarrow> b = links_to B anchor x" by auto
  consider (yes) "v = Some True" | (no) "v = Some False" | (dunno) "v = None" by (cases v) auto
  then show ?case
  proof cases
    case yes
    obtain d2 u where u: "is_certificate c d1 x l = (d2, u)" by fastforce
    from is_certificate_sound [OF assms(1) d1(1) u]
    have d2: "mahi_store_ok c B d2" "same_blocks d d2" and ub: "\<And>b. u = Some b \<Longrightarrow> b = certifies c B x l"
      using d1(2) same_blocks_trans by blast+
    consider (yes2) "u = Some True" | (no2) "u = Some False" | (dunno2) "u = None" by (cases u) auto
    then show ?thesis
    proof cases
      case yes2
      with Cons.prems(2) yes v u d2 vb [OF yes] ub [OF yes2] show ?thesis by (auto simp: certified_from_Cons)
    next
      case no2
      with Cons.prems(2) yes v u have "anchored_certificate c anchor l d2 inc xs = (d', found, inc')" by simp
      from Cons.IH [OF d2(1) this] d2(2) ub [OF no2] show ?thesis by (auto simp: certified_from_Cons intro: same_blocks_trans)
    next
      case dunno2
      with Cons.prems(2) yes v u have "anchored_certificate c anchor l d2 True xs = (d', found, inc')" by simp
      from Cons.IH [OF d2(1) this] d2(2) show ?thesis by (auto simp: certified_from_Cons intro: same_blocks_trans)
    qed
  next
    case no
    with Cons.prems(2) v have "anchored_certificate c anchor l d1 inc xs = (d', found, inc')" by simp
    from Cons.IH [OF d1(1) this] d1(2) vb [OF no] show ?thesis by (auto simp: certified_from_Cons intro: same_blocks_trans)
  next
    case dunno
    with Cons.prems(2) v have "anchored_certificate c anchor l d1 True xs = (d', found, inc')" by simp
    from Cons.IH [OF d1(1) this] d1(2) show ?thesis by (auto simp: certified_from_Cons intro: same_blocks_trans)
  qed
qed

lemma anchored_candidates_sound:
  assumes "mahi_history c F B" and "mahi_store_ok c B d"
    and "anchored_candidates c anchor xs d inc ls = (d', ls', inc')"
  shows "mahi_store_ok c B d' \<and> same_blocks d d' \<and> (inc \<longrightarrow> inc') \<and> (distinct ls \<longrightarrow> distinct ls') \<and>
    (\<forall>l \<in> set ls'. l \<in> set ls \<and> certified_from c B anchor xs l) \<and>
    (\<not> inc' \<longrightarrow> (\<forall>l \<in> set ls - set ls'. \<not> certified_from c B anchor xs l))"
  using assms(2,3)
proof (induction ls arbitrary: d inc d' ls' inc')
  case (Cons l ls)
  obtain d1 found inc1 where f: "anchored_certificate c anchor l d inc xs = (d1, found, inc1)"
    by (cases "anchored_certificate c anchor l d inc xs")
  obtain d2 ls2 inc2 where g: "anchored_candidates c anchor xs d1 inc1 ls = (d2, ls2, inc2)"
    by (cases "anchored_candidates c anchor xs d1 inc1 ls")
  note f' = anchored_certificate_sound [OF assms(1) Cons.prems(1) f]
  then have g': "mahi_store_ok c B d2 \<and> same_blocks d1 d2 \<and> (inc1 \<longrightarrow> inc2) \<and> (distinct ls \<longrightarrow> distinct ls2) \<and>
    (\<forall>l \<in> set ls2. l \<in> set ls \<and> certified_from c B anchor xs l) \<and>
    (\<not> inc2 \<longrightarrow> (\<forall>l \<in> set ls - set ls2. \<not> certified_from c B anchor xs l))"
    using Cons.IH [OF _ g] by blast
  have eq: "d' = d2" "inc' = inc2" "ls' = (if found then l # ls2 else ls2)" using Cons.prems(2) f g by simp_all
  have "same_blocks d d2" using f' g' same_blocks_trans by blast
  then show ?case using f' g' unfolding eq by auto
qed simp

text \<open>A supported block is in the history, so a node that holds an anchor and its history holds the leader.\<close>

lemma links_to_parent:
  assumes "B x = Some b" and "p \<in> set (h_parents (header b))" and "links_to B p l"
  shows "links_to B x l"
proof -
  have "parent_of B x p" using assms(1,2) by (auto simp: parent_of_def)
  then show ?thesis using assms(3) unfolding links_to_def by (rule converse_rtranclp_into_rtranclp)
qed

lemma supports_links:
  "supports B a r x v \<Longrightarrow> (\<forall>l. v = Some l \<longrightarrow> links_to B x l)"
  "supports_any B a r ps v \<Longrightarrow> (\<forall>l. v = Some l \<longrightarrow> (\<exists>p \<in> set ps. links_to B p l))"
proof (induction rule: supports_supports_any.inducts)
  case (high x b v)
  then show ?case using links_to_parent by blast
qed (auto simp: links_to_def)

lemma certifies_links:
  assumes "committee_ok c" and "certifies c B x l"
  shows "links_to B x l"
proof -
  from assms(2) obtain b where "has_quorum c (authors_at B (cert_round b - 1) (\<lambda>d. parent_of B x d \<and> votes_for B l d))"
    by (auto simp: certifies_def)
  from has_quorum_nonempty [OF assms(1) this] obtain p where "parent_of B x p" "votes_for B l p"
    by (auto simp: authors_at_def)
  then show ?thesis
    using supports_links(1) by (fastforce simp: votes_for_def links_to_def intro: converse_rtranclp_into_rtranclp)
qed

lemma mahi_node_closed:
  assumes "mahi_node_ok c B d" and "links_to B x y" and "contains_key (by_digest d) x"
  shows "contains_key (by_digest d) y"
  using assms(2)[unfolded links_to_def] assms(3)
proof (induction rule: converse_rtranclp_induct)
  case (step x z)
  then obtain b where "map_of (by_digest d) x = Some b" by (auto simp: contains_key_def)
  with step.hyps(1) mahi_node_block [OF assms(1)] assms(1) show ?case
    by (intro step.IH) (fastforce simp: mahi_node_ok_def parent_of_def)
qed

lemma decide_from_anchor_sound:
  assumes "mahi_history c F B" and "mahi_node_ok c B (mc_dag mc)" and "w = mc_wave_length mc" and "2 \<le> w"
    and "contains_key (by_digest (mc_dag mc)) anchor"
  shows "\<exists>mc' d. decide_from_anchor c mc slot anchor = Inr (mc', d) \<and> dag_only c B mc mc' \<and>
    (case d of Commit l \<Rightarrow> anchored c B w (ls_authority slot) (slot_round (ls_id slot)) anchor l \<and>
                            contains_key (by_digest (mc_dag mc)) l
             | Skip \<Rightarrow> (\<forall>l. \<not> anchored c B w (ls_authority slot) (slot_round (ls_id slot)) anchor l)
             | Undecided \<Rightarrow> True)"
proof -
  let ?d = "mc_dag mc" and ?r = "slot_round (ls_id slot)" and ?a = "ls_authority slot"
  let ?xs = "round_digests ?d (?r + w - 1)" and ?ls = "slot_digests ?d ?a ?r"
  have ok: "mahi_store_ok c B ?d" "mahi_index_ok ?d" using assms(2) by (simp_all add: mahi_node_ok_def)
  obtain d1 ls inc where run: "anchored_candidates c anchor ?xs ?d False ?ls = (d1, ls, inc)"
    by (cases "anchored_candidates c anchor ?xs ?d False ?ls")
  note s = anchored_candidates_sound [OF assms(1) ok(1) run]
  have known: "l \<in> set ?ls \<and> certified_from c B anchor ?xs l \<longleftrightarrow> anchored c B w ?a ?r anchor l" for l
  proof
    assume "l \<in> set ?ls \<and> certified_from c B anchor ?xs l"
    then show "anchored c B w ?a ?r anchor l"
      using mahi_node_block [OF assms(2)]
      by (fastforce simp: anchored_def slot_block_def certified_from_def slot_digests_ok(2) [OF ok(2)] round_digests_ok [OF ok(2)])
  next
    assume "anchored c B w ?a ?r anchor l"
    then obtain lb x b where x: "B l = Some lb" "cert_round lb = ?r" "cert_origin lb = ?a" "links_to B anchor x" "B x = Some b"
      "cert_round b = ?r + w - 1" "certifies c B x l" by (auto simp: anchored_def slot_block_def)
    have "contains_key (by_digest ?d) x" by (rule mahi_node_closed [OF assms(2) x(4) assms(5)])
    moreover from this have "contains_key (by_digest ?d) l"
      by (rule mahi_node_closed [OF assms(2) certifies_links [OF mahi_committee [OF assms(1)] x(7)]])
    ultimately show "l \<in> set ?ls \<and> certified_from c B anchor ?xs l"
      using x mahi_node_block [OF assms(2)]
      by (fastforce simp: certified_from_def slot_digests_ok(2) [OF ok(2)] round_digests_ok [OF ok(2)] contains_key_def)
  qed
  have one: "length ls \<le> 1"
    using s slot_digests_ok(1) [OF ok(2)] known
    by (intro distinct_all_equal) (metis anchored_slot anchored_votes [OF assms(1) _ assms(4)] slot_votes_unique [OF assms(1)])+
  have held: "contains_key (by_digest ?d) l" if "l \<in> set ?ls" for l
    using that by (auto simp: slot_digests_ok(2) [OF ok(2)] contains_key_def)
  show ?thesis
  proof (cases "ls = []")
    case False
    then have "last ls \<in> set ls" by simp
    then have "anchored c B w ?a ?r anchor (last ls) \<and> contains_key (by_digest ?d) (last ls)" using s known held by blast
    with False one s run assms(3) show ?thesis
      by (auto simp: decide_from_anchor_def Let_def intro: dag_onlyI [OF assms(2)])
  next
    case True
    with s known run assms(3) show ?thesis
      by (auto simp: decide_from_anchor_def Let_def intro: dag_onlyI [OF assms(2)])
  qed
qed

section \<open>The slots in order\<close>

definition slot_of :: "nat \<Rightarrow> SlotId" where
  "slot_of k = \<lparr>slot_round = Suc (k div LEADER_COUNT), slot_index = k mod LEADER_COUNT\<rparr>"

lemma slot_of_valid: "valid_slot s \<longleftrightarrow> (\<exists>k. s = slot_of k)"
proof
  assume "valid_slot s"
  then have "s = slot_of (LEADER_COUNT * (slot_round s - 1) + slot_index s)"
    by (cases s) (auto simp: slot_of_def valid_slot_def LEADER_COUNT_def)
  then show "\<exists>k. s = slot_of k" ..
qed (auto simp: slot_of_def valid_slot_def LEADER_COUNT_def)

lemma pair_digits:
  fixes i j :: nat
  shows "i < j \<longleftrightarrow> i div 2 < j div 2 \<or> (i div 2 = j div 2 \<and> i mod 2 < j mod 2)" (is ?less)
    and "i = j \<longleftrightarrow> i div 2 = j div 2 \<and> i mod 2 = j mod 2"
proof -
  obtain a b where i: "i = 2 * a + b" "b < 2" by (rule that [of "i div 2" "i mod 2"]) simp_all
  obtain p q where j: "j = 2 * p + q" "q < 2" by (rule that [of "j div 2" "j mod 2"]) simp_all
  have "i div 2 = a" "i mod 2 = b" "j div 2 = p" "j mod 2 = q" using i j by simp_all
  then show ?less using i j by auto
qed (metis div_mult_mod_eq)

lemma slot_before_of: "slot_before (slot_of i) (slot_of j) \<longleftrightarrow> i < j"
  unfolding slot_before_def slot_of_def LEADER_COUNT_def pair_digits(1) [of i j] by (simp del: mod_2_eq_odd)

lemma slot_of_inject [simp]: "slot_of i = slot_of j \<longleftrightarrow> i = j"
  unfolding slot_of_def LEADER_COUNT_def pair_digits(2) [of i j] by simp

lemma slot_ids_of: "slot_ids (slot_of n) m = map slot_of [n..<LEADER_COUNT * m]"
proof (induction m)
  case 0
  then show ?case by (simp add: slot_ids_def slot_of_def)
next
  case (Suc m)
  have ids: "slot_ids (slot_of n) (Suc m) = slot_ids (slot_of n) m @
      (if slot_round (slot_of n) \<le> Suc m
       then map (\<lambda>i. \<lparr>slot_round = Suc m, slot_index = i\<rparr>)
              [(if Suc m = slot_round (slot_of n) then slot_index (slot_of n) else 0)..<LEADER_COUNT] else [])"
    by (simp add: slot_ids_def)
  have two: "slot_of (2 * m) = \<lparr>slot_round = Suc m, slot_index = 0\<rparr>"
    "slot_of (Suc (2 * m)) = \<lparr>slot_round = Suc m, slot_index = 1\<rparr>"
    by (simp_all add: slot_of_def LEADER_COUNT_def)
  consider "n \<le> 2 * m" | "n = Suc (2 * m)" | "Suc (Suc (2 * m)) \<le> n" by linarith
  then show ?case
  proof cases
    case 1
    then have "slot_round (slot_of n) \<le> Suc m" "Suc m = slot_round (slot_of n) \<Longrightarrow> slot_index (slot_of n) = 0"
      by (simp_all add: slot_of_def LEADER_COUNT_def) presburger+
    moreover have "[0..<2] = [0, Suc 0]" by (simp add: numeral_2_eq_2)
    ultimately show ?thesis using 1 unfolding ids Suc.IH by (auto simp: LEADER_COUNT_def two)
  next
    case 2
    moreover have "[Suc 0..<2] = [Suc 0]" by (simp add: numeral_2_eq_2)
    ultimately show ?thesis unfolding ids Suc.IH by (simp add: LEADER_COUNT_def two)
  next
    case 3
    then have "Suc m < slot_round (slot_of n)" by (simp add: slot_of_def LEADER_COUNT_def)
    with 3 show ?thesis unfolding ids Suc.IH by (simp add: LEADER_COUNT_def)
  qed
qed

lemma first_pending_of:
  "first_pending (if n = 0 then None else Some (slot_of (n - 1))) = slot_of n"
  unfolding first_pending_def slot_of_def LEADER_COUNT_def
  by (cases n) (simp_all, presburger)

section \<open>The decision loop\<close>

definition decision_ok ::
    "Committee \<Rightarrow> blocks_of_all \<Rightarrow> Round \<Rightarrow> (SlotId \<Rightarrow> PublicKey \<Rightarrow> bool) \<Rightarrow> MahiDag \<Rightarrow> SlotId \<Rightarrow> LeaderDecision \<Rightarrow> bool" where
  "decision_ok c B w elect d s dec \<longleftrightarrow>
     (is_decided dec \<longrightarrow> justified c B w elect s dec \<and> (\<forall>l. dec = Commit l \<longrightarrow> contains_key (by_digest d) l))"

abbreviation rec_id :: "DecisionRecord \<Rightarrow> SlotId" where
  "rec_id r \<equiv> ls_id (dr_slot r)"

lemma decision_ok_same: "same_blocks d d' \<Longrightarrow> decision_ok c B w elect d' s dec = decision_ok c B w elect d s dec"
  by (simp add: decision_ok_def same_blocks_def)

text \<open>The first record that is not skipped commits an anchor with the given verdict.\<close>

definition decided_by :: "(Digest \<Rightarrow> bool) \<Rightarrow> DecisionRecord list \<Rightarrow> bool" where
  "decided_by V R \<longleftrightarrow> (\<exists>R1 x R2 anchor. R = R1 @ x # R2 \<and> (\<forall>y \<in> set R1. dr_decision y = Skip) \<and>
     dr_decision x = Commit anchor \<and> V anchor)"

lemma decided_by_Commit: "dr_decision x = Commit anchor \<Longrightarrow> V anchor \<Longrightarrow> decided_by V (x # R)"
  unfolding decided_by_def by (metis append_Nil empty_iff empty_set)

lemma decided_by_Skip: "dr_decision x = Skip \<Longrightarrow> decided_by V R \<Longrightarrow> decided_by V (x # R)"
  unfolding decided_by_def by (metis append_Cons set_ConsD)

definition anchor_verdict ::
    "Committee \<Rightarrow> blocks_of_all \<Rightarrow> Round \<Rightarrow> MahiDag \<Rightarrow> LeaderSlot \<Rightarrow> LeaderDecision \<Rightarrow> Digest \<Rightarrow> bool" where
  "anchor_verdict c B w d slot dec anchor \<longleftrightarrow>
     (case dec of
        Commit l \<Rightarrow> anchored c B w (ls_authority slot) (slot_round (ls_id slot)) anchor l \<and> contains_key (by_digest d) l
      | Skip \<Rightarrow> (\<forall>l. \<not> anchored c B w (ls_authority slot) (slot_round (ls_id slot)) anchor l)
      | Undecided \<Rightarrow> True)"

lemma indirect_loop_sound:
  assumes "mahi_history c F B" and "mahi_node_ok c B (mc_dag mc)" and "w = mc_wave_length mc" and "2 \<le> w"
    and "\<forall>x \<in> set R. decision_ok c B w elect (mc_dag mc) (rec_id x) (dr_decision x)"
  shows "\<exists>mc' d. indirect_loop c mc slot R = Inr (mc', d) \<and> dag_only c B mc mc' \<and>
    (is_decided d \<longrightarrow> decided_by (anchor_verdict c B w (mc_dag mc) slot d) R)"
  using assms(5)
proof (induction R)
  case Nil
  then show ?case using dag_only_refl [OF assms(2)] by simp
next
  case (Cons x R)
  show ?case
  proof (cases "dr_decision x")
    case (Commit anchor)
    with Cons.prems have "contains_key (by_digest (mc_dag mc)) anchor" by (simp add: decision_ok_def)
    from decide_from_anchor_sound [OF assms(1-4) this, of slot] obtain mc' d where
      "decide_from_anchor c mc slot anchor = Inr (mc', d)" "dag_only c B mc mc'"
      "anchor_verdict c B w (mc_dag mc) slot d anchor"
      by (auto simp: anchor_verdict_def)
    with Commit decided_by_Commit show ?thesis by simp
  next
    case Skip
    with Cons.IH Cons.prems decided_by_Skip show ?thesis by fastforce
  next
    case Undecided
    then show ?thesis using dag_only_refl [OF assms(2)] by simp
  qed
qed

lemma indirect_decision_sound:
  assumes "mahi_history c F B" and "mahi_node_ok c B (mc_dag mc)" and "w = mc_wave_length mc" and "2 \<le> w"
    and "\<forall>x \<in> set R. decision_ok c B w elect (mc_dag mc) (rec_id x) (dr_decision x)"
    and "map rec_id R = map slot_of [Suc k..<m]" and "ls_id slot = slot_of k" and "elect (slot_of k) (ls_authority slot)"
  shows "\<exists>mc' d. indirect_decision c mc slot R = Inr (mc', d) \<and> dag_only c B mc mc' \<and>
    decision_ok c B w elect (mc_dag mc) (slot_of k) d"
proof -
  let ?far = "\<lambda>x. slot_round (ls_id slot) + w - 1 < slot_round (rec_id x)"
  let ?R = "filter ?far R"
  have "\<forall>x \<in> set ?R. decision_ok c B w elect (mc_dag mc) (rec_id x) (dr_decision x)" using assms(5) by auto
  from indirect_loop_sound [OF assms(1-4) this] obtain mc' d where
    run: "indirect_loop c mc slot ?R = Inr (mc', d)" "dag_only c B mc mc'"
    and dec: "is_decided d \<Longrightarrow> decided_by (anchor_verdict c B w (mc_dag mc) slot d) ?R" by blast
  have "decision_ok c B w elect (mc_dag mc) (slot_of k) d" if d: "is_decided d"
  proof -
    obtain R1 x R2 anchor where R: "?R = R1 @ x # R2" and skips: "\<forall>y \<in> set R1. dr_decision y = Skip"
      and x: "dr_decision x = Commit anchor" and verdict: "anchor_verdict c B w (mc_dag mc) slot d anchor"
      using dec [OF d] by (auto simp: decided_by_def)
    have sorted: "sorted_wrt (\<lambda>x y. slot_before (rec_id x) (rec_id y)) ?R"
    proof -
      have "sorted_wrt slot_before (map rec_id R)" unfolding assms(6) by (simp add: sorted_wrt_map slot_before_of)
      then show ?thesis by (simp add: sorted_wrt_map sorted_wrt_filter)
    qed
    have "x \<in> set ?R" unfolding R by simp
    then have inR: "x \<in> set R" "?far x" by simp_all
    then obtain j where j: "rec_id x = slot_of j" "Suc k \<le> j" "j < m"
    proof -
      have "rec_id x \<in> set (map rec_id R)" using inR(1) by simp
      then show thesis unfolding assms(6) using that by auto
    qed
    have just: "justified c B w elect (slot_of j) (Commit anchor)"
      using assms(5) inR(1) x j(1) by (auto simp: decision_ok_def)
    have skipped: "justified c B w elect u Skip"
      if u: "valid_slot u" "slot_round (slot_of k) + w - 1 < slot_round u" "slot_before u (slot_of j)" for u
    proof -
      obtain i where i: "u = slot_of i" using u(1) slot_of_valid by auto
      have "slot_round (slot_of k) < slot_round (slot_of i)" using u(2) assms(4) unfolding i by linarith
      then have "slot_before (slot_of k) (slot_of i)" by (simp add: slot_before_def)
      then have ki: "k < i" "i < j" using u(3) by (simp_all add: i slot_before_of)
      then have "slot_of i \<in> set (map rec_id R)" unfolding assms(6) using j by auto
      then obtain y where y: "y \<in> set R" "rec_id y = slot_of i" by auto
      then have "y \<in> set (R1 @ x # R2)" using u(2) i assms(7) by (simp flip: R)
      moreover have "y \<noteq> x" using y(2) j(1) ki by auto
      moreover have "y \<notin> set R2" using sorted R y(2) j(1) ki by (auto simp: sorted_wrt_append slot_before_of)
      ultimately show ?thesis using skips y assms(5) by (auto simp: decision_ok_def i)
    qed
    have far: "slot_round (slot_of k) + w - 1 < slot_round (slot_of j)" using inR(2) j(1) assms(7) by simp
    have valid: "valid_slot (slot_of k)" using slot_of_valid by blast
    show ?thesis
    proof (cases d)
      case (Commit l)
      with verdict commit_anchor [OF valid assms(8) far skipped just] assms(7) show ?thesis
        by (simp add: decision_ok_def anchor_verdict_def)
    next
      case Skip
      with verdict skip_anchor [OF valid assms(8) far skipped just] assms(7) show ?thesis
        by (simp add: decision_ok_def anchor_verdict_def)
    qed (use d in simp)
  qed
  then have "decision_ok c B w elect (mc_dag mc) (slot_of k) d" by (auto simp: decision_ok_def)
  with run assms(3) show ?thesis by (simp add: indirect_decision_def)
qed

definition decisions_ok ::
    "Committee \<Rightarrow> blocks_of_all \<Rightarrow> Round \<Rightarrow> (SlotId \<Rightarrow> PublicKey \<Rightarrow> bool) \<Rightarrow> MahiCommitter \<Rightarrow> bool" where
  "decisions_ok c B w elect mc \<longleftrightarrow>
     (\<forall>s d. map_of (mc_decisions mc) s = Some d \<longrightarrow> decision_ok c B w elect (mc_dag mc) s d)"

lemma decisions_ok_same:
  "dag_only c B mc mc' \<Longrightarrow> decisions_ok c B w elect mc' \<longleftrightarrow> decisions_ok c B w elect mc"
  using dag_only_fields [of c B mc mc'] decision_ok_same [of "mc_dag mc" "mc_dag mc'"]
  by (simp add: decisions_ok_def dag_only_def)

text \<open>The direct rule does not decide the slot on the blocks of \<open>d\<close>.\<close>

definition directly_undecided :: "Committee \<Rightarrow> blocks_of_all \<Rightarrow> Round \<Rightarrow> MahiDag \<Rightarrow> LeaderSlot \<Rightarrow> bool" where
  "directly_undecided c B w d slot \<longleftrightarrow> (\<exists>mc mc'. same_blocks d (mc_dag mc) \<and> mahi_node_ok c B (mc_dag mc) \<and>
     mc_wave_length mc = w \<and> direct_decision c mc slot = Inr (mc', Undecided))"

lemma directly_undecided_same:
  "same_blocks d d' \<Longrightarrow> directly_undecided c B w d' slot \<longleftrightarrow> directly_undecided c B w d slot"
  by (simp add: directly_undecided_def same_blocks_def)

text \<open>One slot: the recorded, the direct or the indirect decision.\<close>

lemma decide_slot_sound:
  assumes "mahi_history c F B" and "mahi_node_ok c B (mc_dag mc)" and "w = mc_wave_length mc" and "2 \<le> w"
    and "decisions_ok c B w elect mc"
    and "\<forall>x \<in> set R. decision_ok c B w elect (mc_dag mc) (rec_id x) (dr_decision x)"
    and "map rec_id R = map slot_of [Suc k..<m]" and "ls_id slot = slot_of k" and "elect (slot_of k) (ls_authority slot)"
  shows "\<exists>mc1 d1 mc2 d2. (if is_decided (case map_of (mc_decisions mc) (ls_id slot) of None \<Rightarrow> Undecided | Some x \<Rightarrow> x)
       then Inr (mc, case map_of (mc_decisions mc) (ls_id slot) of None \<Rightarrow> Undecided | Some x \<Rightarrow> x)
       else direct_decision c mc slot) = Inr (mc1, d1) \<and>
    (if is_decided d1 then Inr (mc1, d1) else indirect_decision c mc1 slot R) = Inr (mc2, d2) \<and>
    dag_only c B mc mc2 \<and> decision_ok c B w elect (mc_dag mc) (slot_of k) d2 \<and>
    (is_decided d2 \<or> (\<exists>mc'. direct_decision c mc slot = Inr (mc', Undecided)))"
proof -
  let ?dec = "case map_of (mc_decisions mc) (ls_id slot) of None \<Rightarrow> Undecided | Some x \<Rightarrow> x"
  obtain mc1 d1 where one: "(if is_decided ?dec then Inr (mc, ?dec) else direct_decision c mc slot) = Inr (mc1, d1)"
    "dag_only c B mc mc1" "decision_ok c B w elect (mc_dag mc) (slot_of k) d1"
    "is_decided d1 \<or> direct_decision c mc slot = Inr (mc1, Undecided)"
  proof (cases "is_decided ?dec")
    case True
    then show thesis using that [of mc ?dec] assms(5,8) dag_only_refl [OF assms(2)]
      by (auto simp: decisions_ok_def split: option.splits)
  next
    case False
    have valid: "valid_slot (slot_of k)" using slot_of_valid by blast
    obtain mc1 d1 where "direct_decision c mc slot = Inr (mc1, d1)" "dag_only c B mc mc1"
      and "case d1 of Commit l \<Rightarrow> direct_commit c B w (ls_authority slot) (slot_round (slot_of k)) l \<and>
                            contains_key (by_digest (mc_dag mc)) l
             | Skip \<Rightarrow> direct_skip c B w (ls_authority slot) (slot_round (slot_of k)) | Undecided \<Rightarrow> True"
      using direct_decision_sound [OF assms(1-4), of slot] unfolding assms(8) by blast
    moreover from this(3) have "decision_ok c B w elect (mc_dag mc) (slot_of k) d1"
      using commit_direct [OF valid, of elect _ c B w] skip_direct [OF valid, of elect _ c B w] assms(9)
      by (cases d1) (auto simp: decision_ok_def)
    ultimately show thesis using that False by (cases d1) auto
  qed
  show ?thesis
  proof (cases "is_decided d1")
    case True
    with one show ?thesis by auto
  next
    case False
    note f = dag_only_fields [OF one(2)]
    have same: "same_blocks (mc_dag mc) (mc_dag mc1)" "mahi_node_ok c B (mc_dag mc1)"
      using one(2) by (simp_all add: dag_only_def)
    have "\<forall>x \<in> set R. decision_ok c B w elect (mc_dag mc1) (rec_id x) (dr_decision x)"
      using assms(6) by (simp add: decision_ok_same [OF same(1)])
    from indirect_decision_sound [OF assms(1) same(2) _ assms(4) this assms(7-9)] f assms(3)
    obtain mc2 d2 where "indirect_decision c mc1 slot R = Inr (mc2, d2)" "dag_only c B mc1 mc2"
      "decision_ok c B w elect (mc_dag mc1) (slot_of k) d2" by auto
    with False one same show ?thesis by (auto simp: decision_ok_same [OF same(1)] intro: dag_only_trans)
  qed
qed

definition loop_frame :: "Committee \<Rightarrow> blocks_of_all \<Rightarrow> MahiCommitter \<Rightarrow> MahiCommitter \<Rightarrow> bool" where
  "loop_frame c B mc mc' \<longleftrightarrow> same_blocks (mc_dag mc) (mc_dag mc') \<and> mahi_node_ok c B (mc_dag mc') \<and>
     mc_wave_length mc' = mc_wave_length mc \<and> mc_last_decided mc' = mc_last_decided mc \<and> mc_emitted mc' = mc_emitted mc"

lemma loop_frame_trans: "loop_frame c B mc mc' \<Longrightarrow> loop_frame c B mc' mc'' \<Longrightarrow> loop_frame c B mc mc''"
  by (auto simp: loop_frame_def intro: same_blocks_trans)

lemma loop_frame_dag_only:
  "dag_only c B mc mc' \<Longrightarrow> loop_frame c B mc mc'"
  "dag_only c B mc mc' \<Longrightarrow> loop_frame c B mc (mc'\<lparr>mc_decisions := D\<rparr>)"
  using dag_only_fields [of c B mc mc'] by (simp_all add: loop_frame_def dag_only_def)

lemma decide_slots_sound:
  assumes "mahi_history c F B" and "mahi_node_ok c B (mc_dag mc)" and "w = mc_wave_length mc" and "2 \<le> w"
    and "decisions_ok c B w elect mc"
    and "\<forall>x \<in> set R. decision_ok c B w elect (mc_dag mc) (rec_id x) (dr_decision x)"
    and "map rec_id R = map slot_of [k..<m]" and "map ls_id xs = rev (map slot_of [n..<k])" and "n \<le> k" and "k \<le> m"
    and "\<forall>s \<in> set xs. elect (ls_id s) (ls_authority s)"
  shows "\<exists>mc' R'. decide_slots c mc R xs = Inr (mc', R') \<and> map rec_id R' = map slot_of [n..<m] \<and>
    (\<forall>x \<in> set R'. decision_ok c B w elect (mc_dag mc') (rec_id x) (dr_decision x)) \<and>
    decisions_ok c B w elect mc' \<and> loop_frame c B mc mc' \<and>
    (\<forall>x \<in> set R'. x \<in> set R \<or> (dr_slot x \<in> set xs \<and>
       (is_decided (dr_decision x) \<or> directly_undecided c B w (mc_dag mc) (dr_slot x))))"
  using assms(2,3,5-)
proof (induction xs arbitrary: mc R k)
  case Nil
  then have "n = k" by auto
  with Nil show ?case by (simp add: loop_frame_def)
next
  case (Cons slot xs)
  then have "n < k" by (cases "n < k") simp_all
  then obtain k' where k: "k = Suc k'" "n \<le> k'" by (cases k) auto
  have ids: "ls_id slot = slot_of k'" "map ls_id xs = rev (map slot_of [n..<k'])" using Cons.prems(6) k by simp_all
  have elect: "elect (slot_of k') (ls_authority slot)" "\<forall>s \<in> set xs. elect (ls_id s) (ls_authority s)"
    using Cons.prems(9) ids(1) by auto
  from decide_slot_sound [OF assms(1) Cons.prems(1,2) assms(4) Cons.prems(3,4) Cons.prems(5) [unfolded k(1)] ids(1) elect(1)]
  obtain mc1 d1 mc2 d2 where run:
    "(if is_decided (case map_of (mc_decisions mc) (ls_id slot) of None \<Rightarrow> Undecided | Some x \<Rightarrow> x)
       then Inr (mc, case map_of (mc_decisions mc) (ls_id slot) of None \<Rightarrow> Undecided | Some x \<Rightarrow> x)
       else direct_decision c mc slot) = Inr (mc1, d1)"
    "(if is_decided d1 then Inr (mc1, d1) else indirect_decision c mc1 slot R) = Inr (mc2, d2)"
    and frame: "dag_only c B mc mc2" and dec: "decision_ok c B w elect (mc_dag mc) (slot_of k') d2"
    and und: "is_decided d2 \<or> (\<exists>mc'. direct_decision c mc slot = Inr (mc', Undecided))" by blast
  let ?mc = "if is_decided d2 then mc2\<lparr>mc_decisions := AList.update (ls_id slot) d2 (mc_decisions mc2)\<rparr> else mc2"
  let ?R = "\<lparr>dr_slot = slot, dr_decision = d2\<rparr> # R"
  have same: "same_blocks (mc_dag mc) (mc_dag mc2)" "mahi_node_ok c B (mc_dag mc2)" using frame by (simp_all add: dag_only_def)
  have mc: "mc_dag ?mc = mc_dag mc2" "w = mc_wave_length ?mc" "loop_frame c B mc ?mc"
    using loop_frame_dag_only [OF frame] dag_only_fields [OF frame] Cons.prems(2)
    by simp_all
  have decs: "decisions_ok c B w elect ?mc"
    using Cons.prems(3) dec ids(1) unfolding decisions_ok_same [OF frame, symmetric] decision_ok_same [OF same(1), symmetric]
    by (simp add: decisions_ok_def)
  have recs: "\<forall>x \<in> set ?R. decision_ok c B w elect (mc_dag ?mc) (rec_id x) (dr_decision x)"
    using Cons.prems(4) dec ids(1) by (simp add: mc(1) decision_ok_same [OF same(1)])
  have rids: "map rec_id ?R = map slot_of [k'..<m]"
    using Cons.prems(5,8) k(1) ids(1) by (simp add: upt_conv_Cons)
  have node: "mahi_node_ok c B (mc_dag ?mc)" using same(2) mc(1) by simp
  have "k' \<le> m" using Cons.prems(8) k(1) by simp
  from Cons.IH [OF node mc(2) decs recs rids ids(2) k(2) this elect(2)] obtain mc' R' where
    "decide_slots c ?mc ?R xs = Inr (mc', R')" and rest: "map rec_id R' = map slot_of [n..<m]"
    "\<forall>x \<in> set R'. decision_ok c B w elect (mc_dag mc') (rec_id x) (dr_decision x)"
    "decisions_ok c B w elect mc'" "loop_frame c B ?mc mc'"
    and prog: "\<forall>x \<in> set R'. x \<in> set ?R \<or> (dr_slot x \<in> set xs \<and>
       (is_decided (dr_decision x) \<or> directly_undecided c B w (mc_dag ?mc) (dr_slot x)))" by blast
  have "is_decided d2 \<or> directly_undecided c B w (mc_dag mc) slot"
    using und Cons.prems(1,2) by (auto simp: directly_undecided_def)
  then have "\<forall>x \<in> set R'. x \<in> set R \<or> (dr_slot x \<in> set (slot # xs) \<and>
       (is_decided (dr_decision x) \<or> directly_undecided c B w (mc_dag mc) (dr_slot x)))"
    using prog unfolding mc(1) directly_undecided_same [OF same(1)] by fastforce
  moreover from \<open>decide_slots c ?mc ?R xs = Inr (mc', R')\<close> have "decide_slots c mc R (slot # xs) = Inr (mc', R')"
    unfolding decide_slots.simps Let_def run(1) by (simp add: run(2))
  ultimately show ?case using rest loop_frame_trans [OF mc(3)] by blast
qed

end
