(* ===== verification/Mahi_Order.thy ===== *)
theory Mahi_Order
  imports Mahi_Refinement "HOL-Library.Sublist"
begin

text \<open>
  The output of a Mahi-Mahi node.  The linearization of a committed leader is the part of
  its history that was not output before, in a fixed order; the output of a run is a
  function of the decisions of the slots in order, so the outputs of two nodes are prefixes
  of each other.
\<close>

section \<open>Linearization\<close>

definition history :: "blocks_of_all \<Rightarrow> Digest \<Rightarrow> Digest set" where
  "history B l = {x. links_to B l x}"

definition parent_closed :: "blocks_of_all \<Rightarrow> Digest set \<Rightarrow> bool" where
  "parent_closed B E \<longleftrightarrow> (\<forall>x \<in> E. \<forall>p. parent_of B x p \<longrightarrow> p \<in> E)"

lemma history_refl [simp]: "l \<in> history B l"
  by (simp add: history_def links_to_def)

lemma history_step: "x \<in> history B l \<Longrightarrow> parent_of B x p \<Longrightarrow> p \<in> history B l"
  by (auto simp: history_def links_to_def)

lemma history_closed: "parent_closed B (history B l)"
  by (auto simp: parent_closed_def intro: history_step)

lemma history_least: "l \<in> E \<Longrightarrow> parent_closed B E \<Longrightarrow> history B l \<subseteq> E"
proof
  fix x
  assume "l \<in> E" "parent_closed B E" "x \<in> history B l"
  from this(3) have "(parent_of B)\<^sup>*\<^sup>* l x" by (simp add: history_def links_to_def)
  then show "x \<in> E" using \<open>l \<in> E\<close> \<open>parent_closed B E\<close>
    by (induction rule: rtranclp_induct) (auto simp: parent_closed_def)
qed

text \<open>The invariant of the search: marked blocks are reachable and their parents are accounted for.\<close>

definition search_inv :: "blocks_of_all \<Rightarrow> Digest set \<Rightarrow> Digest \<Rightarrow> Digest list \<Rightarrow> Digest list \<Rightarrow> bool" where
  "search_inv B E l R S \<longleftrightarrow> set R \<union> set S \<subseteq> history B l \<and> set R \<inter> E = {} \<and> distinct R \<and>
     l \<in> set R \<union> E \<union> set S \<and> (\<forall>x \<in> set R. \<forall>p. parent_of B x p \<longrightarrow> p \<in> set R \<union> E \<union> set S)"

lemma reachable_loop_exact:
  assumes "parent_closed (map_of blocks) (set E)" and "search_inv (map_of blocks) (set E) l R S"
  shows "set (reachable_loop blocks E R S) = history (map_of blocks) l - set E \<and> distinct (reachable_loop blocks E R S)"
  using assms
proof (induction blocks E R S rule: reachable_loop.induct)
  case (1 blocks E R)
  then have "parent_closed (map_of blocks) (set R \<union> set E)" "l \<in> set R \<union> set E"
    by (auto simp: search_inv_def parent_closed_def)
  from history_least [OF this(2,1)] "1.prems"(2) show ?case
    by (auto simp: search_inv_def reachable_loop.simps)
next
  case (2 blocks E R x S)
  show ?case
  proof (cases "x \<in> set E \<or> x \<in> set R")
    case True
    then have "search_inv (map_of blocks) (set E) l R S" using "2.prems"(2) by (auto simp: search_inv_def)
    with "2.IH"(1) [OF True "2.prems"(1)] True show ?thesis by (simp add: reachable_loop.simps)
  next
    case new: False
    show ?thesis
    proof (cases "map_of blocks x")
      case None
      then have "search_inv (map_of blocks) (set E) l (x # R) S"
        using "2.prems"(2) new by (auto simp: search_inv_def parent_of_def)
      with "2.IH"(2) [OF new None "2.prems"(1)] new None show ?thesis by (simp add: reachable_loop.simps)
    next
      case (Some b)
      have "parent_of (map_of blocks) x p \<longleftrightarrow> p \<in> set (h_parents (header b))" for p
        using Some by (simp add: parent_of_def)
      then have "search_inv (map_of blocks) (set E) l (x # R) (rev (h_parents (header b)) @ S)"
        using "2.prems"(2) new history_step [of x "map_of blocks" l] unfolding search_inv_def by (auto; blast)
      with "2.IH"(3) [OF new Some "2.prems"(1)] new Some show ?thesis by (simp add: reachable_loop.simps)
    qed
  qed
qed

text \<open>A node that holds the history of a leader sees the same history as everybody.\<close>

lemma history_node:
  assumes "mahi_node_ok c B d" and "contains_key (by_digest d) l"
  shows "history (map_of (by_digest d)) l = history B l" and "x \<in> history B l \<Longrightarrow> contains_key (by_digest d) x"
proof -
  have known: "contains_key (by_digest d) x" if "x \<in> history B l" for x
    using mahi_node_closed [OF assms(1) _ assms(2)] that by (simp add: history_def)
  then show "x \<in> history B l \<Longrightarrow> contains_key (by_digest d) x" .
  have par: "parent_of (map_of (by_digest d)) x p \<longleftrightarrow> parent_of B x p" if "contains_key (by_digest d) x" for x p
    using that mahi_node_block [OF assms(1), of x] by (auto simp: parent_of_def contains_key_def)
  show "history (map_of (by_digest d)) l = history B l"
  proof
    show "history (map_of (by_digest d)) l \<subseteq> history B l"
      using par known by (intro history_least) (auto simp: parent_closed_def intro: history_step)
    have "parent_closed B (history (map_of (by_digest d)) l \<inter> history B l)"
      using par known by (auto simp: parent_closed_def intro: history_step)
    then show "history B l \<subseteq> history (map_of (by_digest d)) l"
      using history_least [of l "history (map_of (by_digest d)) l \<inter> history B l" B] by simp
  qed
qed

definition order_key :: "blocks_of_all \<Rightarrow> Digest \<Rightarrow> Round \<times> PublicKey \<times> Digest" where
  "order_key B x = (case B x of None \<Rightarrow> (0, PublicKey 0, x) | Some b \<Rightarrow> (cert_round b, cert_origin b, x))"

definition new_blocks :: "blocks_of_all \<Rightarrow> Digest set \<Rightarrow> Digest \<Rightarrow> Digest list" where
  "new_blocks B E l = map (\<lambda>(_, _, x). x) (sorted_list_of_set (order_key B ` (history B l - E)))"

lemma order_key_digest [simp]: "(\<lambda>(_, _, x). x) (order_key B x) = x"
  by (simp add: order_key_def split: option.split)

lemma inj_order_key: "inj (order_key B)"
  by (metis injI order_key_digest)

lemma sort_key_order:
  assumes "distinct R"
  shows "sort_key (order_key B) R = map (\<lambda>(_, _, x). x) (sorted_list_of_set (order_key B ` set R))"
proof -
  let ?xs = "map (order_key B) (sort_key (order_key B) R)"
  have "distinct ?xs" using assms inj_on_subset [OF inj_order_key subset_UNIV] by (simp add: distinct_map)
  then have "?xs = sorted_list_of_set (order_key B ` set R)"
    by (intro sorted_distinct_set_unique) simp_all
  then have "map (\<lambda>(_, _, x). x) ?xs = map (\<lambda>(_, _, x). x) (sorted_list_of_set (order_key B ` set R))" by simp
  then show ?thesis by (simp add: comp_def)
qed

lemma insort_key_agree:
  "(\<And>y. y \<in> set (x # xs) \<Longrightarrow> f y = g y) \<Longrightarrow> insort_key f x xs = insort_key g x xs"
  by (induction xs) auto

lemma sort_key_agree: "(\<And>x. x \<in> set xs \<Longrightarrow> f x = g x) \<Longrightarrow> sort_key f xs = sort_key g xs"
proof (induction xs)
  case (Cons x xs)
  then have "sort_key f xs = sort_key g xs" by simp
  moreover have "insort_key f x (sort_key g xs) = insort_key g x (sort_key g xs)"
    by (rule insort_key_agree) (use Cons.prems in auto)
  ultimately show ?case by simp
qed simp

lemma set_foldl_insert: "set (foldl (\<lambda>e x. List.insert x e) e xs) = set e \<union> set xs"
  by (induction xs arbitrary: e) auto

lemma map_filter_known: "(\<And>x. x \<in> set xs \<Longrightarrow> f x = Some (g x)) \<Longrightarrow> List.map_filter f xs = map g xs"
  by (induction xs) (simp_all add: map_filter_simps)

lemma mahi_linearize_sound:
  assumes "mahi_node_ok c B (mc_dag mc)" and "contains_key (by_digest (mc_dag mc)) l"
    and "parent_closed B (set (mc_emitted mc))"
  shows "\<exists>e. mahi_linearize mc l = Inr (mc\<lparr>mc_emitted := e\<rparr>, map (\<lambda>x. the (B x)) (new_blocks B (set (mc_emitted mc)) l)) \<and>
    set e = set (mc_emitted mc) \<union> history B l"
proof -
  let ?blocks = "by_digest (mc_dag mc)" and ?E = "mc_emitted mc"
  let ?R = "reachable_loop ?blocks ?E [] [l]"
  have hist: "history (map_of ?blocks) l = history B l" and known: "\<And>x. x \<in> history B l \<Longrightarrow> contains_key ?blocks x"
    using history_node [OF assms(1,2)] by auto
  have held: "\<exists>b. map_of ?blocks x = Some b \<and> B x = Some b" if "x \<in> history B l" for x
    using known [OF that] mahi_node_block [OF assms(1), of x] by (auto simp: contains_key_def)
  then have look: "map_of ?blocks x = Some (the (B x))" if "x \<in> history B l" for x
    using that by fastforce
  have "parent_closed (map_of ?blocks) (set ?E)"
    using assms(3) mahi_node_block [OF assms(1)] by (fastforce simp: parent_closed_def parent_of_def)
  from reachable_loop_exact [OF this, of l "[]" "[l]"] hist
  have R: "set ?R = history B l - set ?E" "distinct ?R" by (simp_all add: search_inv_def)
  have all: "\<not> list_ex (\<lambda>x. map_of ?blocks x = None) ?R" using look by (auto simp: list_ex_iff R(1))
  have "sort_key (block_order ?blocks) ?R = sort_key (order_key B) ?R"
    using held by (intro sort_key_agree) (fastforce simp: R(1) block_order_def order_key_def)
  also have "\<dots> = new_blocks B (set ?E) l" using sort_key_order [OF R(2)] by (simp add: new_blocks_def R(1))
  finally have ord: "sort_key (block_order ?blocks) ?R = new_blocks B (set ?E) l" .
  have new: "set (new_blocks B (set ?E) l) = history B l - set ?E" using R(1) by (metis ord set_sort)
  have filt: "filter (\<lambda>x. map_of ?blocks x \<noteq> None) (new_blocks B (set ?E) l) = new_blocks B (set ?E) l"
    using look new by (intro filter_True) auto
  have out: "List.map_filter (map_of ?blocks) (new_blocks B (set ?E) l) = map (\<lambda>x. the (B x)) (new_blocks B (set ?E) l)"
    using look new by (intro map_filter_known) auto
  let ?e = "foldl (\<lambda>e x. List.insert x e) ?E (new_blocks B (set ?E) l)"
  have "mahi_linearize mc l = Inr (mc\<lparr>mc_emitted := ?e\<rparr>, map (\<lambda>x. the (B x)) (new_blocks B (set ?E) l))"
    using all unfolding mahi_linearize_def Let_def ord filt out by simp
  moreover have "set ?e = set ?E \<union> history B l" by (auto simp: set_foldl_insert new)
  ultimately show ?thesis by blast
qed

section \<open>The output as a function of the decisions\<close>

fun spec_output :: "blocks_of_all \<Rightarrow> Digest set \<Rightarrow> LeaderDecision list \<Rightarrow> Digest list" where
  "spec_output B E [] = []"
| "spec_output B E (Commit l # ds) = new_blocks B E l @ spec_output B (E \<union> history B l) ds"
| "spec_output B E (_ # ds) = spec_output B E ds"

fun spec_emitted :: "blocks_of_all \<Rightarrow> Digest set \<Rightarrow> LeaderDecision list \<Rightarrow> Digest set" where
  "spec_emitted B E [] = E"
| "spec_emitted B E (Commit l # ds) = spec_emitted B (E \<union> history B l) ds"
| "spec_emitted B E (_ # ds) = spec_emitted B E ds"

lemma spec_output_append: "spec_output B E (ds @ ds') = spec_output B E ds @ spec_output B (spec_emitted B E ds) ds'"
  by (induction B E ds rule: spec_output.induct) auto

lemma spec_emitted_append: "spec_emitted B E (ds @ ds') = spec_emitted B (spec_emitted B E ds) ds'"
  by (induction B E ds rule: spec_output.induct) auto

lemma parent_closed_union: "parent_closed B E \<Longrightarrow> parent_closed B (E \<union> history B l)"
  using history_step by (fastforce simp: parent_closed_def)

text \<open>
  The shape of the output: every block once, after its parents, and exactly what the
  commits emit.
\<close>

lemma finite_history: "finite (dom B) \<Longrightarrow> finite (history B l)"
proof (rule finite_subset)
  show "history B l \<subseteq> insert l (\<Union>x \<in> dom B. set (h_parents (header (the (B x)))))"
  proof
    fix x
    assume "x \<in> history B l"
    then have "(parent_of B)\<^sup>*\<^sup>* l x" by (simp add: history_def links_to_def)
    then show "x \<in> insert l (\<Union>x \<in> dom B. set (h_parents (header (the (B x)))))"
    proof (cases rule: rtranclp.cases)
      case (rtrancl_into_rtrancl y)
      then obtain b where "B y = Some b" "x \<in> set (h_parents (header b))" by (auto simp: parent_of_def)
      then have "y \<in> dom B" "x \<in> set (h_parents (header (the (B y))))" by (auto simp: dom_def)
      then show ?thesis by blast
    qed simp
  qed
qed simp

lemma new_blocks_set:
  assumes "finite (dom B)"
  shows "set (new_blocks B E l) = history B l - E" and "distinct (new_blocks B E l)"
    and "sorted (map (order_key B) (new_blocks B E l))"
proof -
  obtain R where R: "set R = history B l - E" "distinct R"
    using finite_distinct_list [of "history B l - E"] finite_history [OF assms] by blast
  have eq: "new_blocks B E l = sort_key (order_key B) R" using sort_key_order [OF R(2)] by (simp add: new_blocks_def R(1))
  show "set (new_blocks B E l) = history B l - E" "distinct (new_blocks B E l)"
    "sorted (map (order_key B) (new_blocks B E l))"
    using R by (simp_all add: eq)
qed

lemma spec_output_set:
  assumes "finite (dom B)"
  shows "set (spec_output B E ds) = spec_emitted B E ds - E" and "distinct (spec_output B E ds)" and "E \<subseteq> spec_emitted B E ds"
proof -
  have "set (spec_output B E ds) = spec_emitted B E ds - E \<and> distinct (spec_output B E ds) \<and> E \<subseteq> spec_emitted B E ds"
    using assms by (induction B E ds rule: spec_output.induct) (auto simp: new_blocks_set)
  then show "set (spec_output B E ds) = spec_emitted B E ds - E" "distinct (spec_output B E ds)" "E \<subseteq> spec_emitted B E ds"
    by simp_all
qed

definition causal :: "blocks_of_all \<Rightarrow> Digest set \<Rightarrow> Digest list \<Rightarrow> bool" where
  "causal B E xs \<longleftrightarrow> (\<forall>ys x zs p. xs = ys @ x # zs \<longrightarrow> parent_of B x p \<longrightarrow> p \<in> E \<union> set ys)"

lemma causal_append: "causal B E xs \<Longrightarrow> causal B (E \<union> set xs) ys \<Longrightarrow> causal B E (xs @ ys)"
  unfolding causal_def by (fastforce simp: append_eq_append_conv2 append_eq_Cons_conv)

lemma new_blocks_causal:
  assumes "mahi_history c F B" and "parent_closed B E"
  shows "causal B E (new_blocks B E l)"
proof -
  have fin: "finite (dom B)" using assms(1) by (simp add: mahi_history_def)
  have "p \<in> E \<union> set ys" if eq: "new_blocks B E l = ys @ x # zs" and p: "parent_of B x p" for ys x zs p
  proof (rule ccontr)
    assume "p \<notin> E \<union> set ys"
    have "x \<in> history B l" using eq new_blocks_set(1) [OF fin, of E l] by auto
    then have "p \<in> set (ys @ x # zs)"
      using \<open>p \<notin> E \<union> set ys\<close> history_step [OF _ p] new_blocks_set(1) [OF fin, of E l] unfolding eq [symmetric] by auto
    with \<open>p \<notin> E \<union> set ys\<close> have "p \<in> set (x # zs)" by auto
    then have "order_key B x \<le> order_key B p"
      using new_blocks_set(3) [OF fin, of E l] by (auto simp: eq sorted_append)
    moreover obtain b where b: "B x = Some b" "p \<in> set (h_parents (header b))" using p by (auto simp: parent_of_def)
    obtain b' where "B p = Some b'" "cert_round b' < cert_round b" by (rule mahi_parent_older [OF assms(1) b])
    ultimately show False using b(1) by (simp add: order_key_def)
  qed
  then show ?thesis by (auto simp: causal_def)
qed

lemma spec_output_causal:
  assumes "mahi_history c F B" and "parent_closed B E"
  shows "causal B E (spec_output B E ds)"
  using assms(2)
proof (induction ds arbitrary: E)
  case (Cons d ds)
  have fin: "finite (dom B)" using assms(1) by (simp add: mahi_history_def)
  show ?case
  proof (cases d)
    case (Commit l)
    have "E \<union> set (new_blocks B E l) = E \<union> history B l" using new_blocks_set(1) [OF fin] by auto
    with Cons.IH [OF parent_closed_union [OF Cons.prems, of l]] show ?thesis
      using causal_append [OF new_blocks_causal [OF assms(1) Cons.prems, of l]] by (simp add: Commit)
  qed (use Cons in auto)
qed (simp add: causal_def)

text \<open>The records that are output are the decided ones before the first undecided one.\<close>

definition decided_prefix :: "DecisionRecord list \<Rightarrow> LeaderDecision list" where
  "decided_prefix R = takeWhile is_decided (map dr_decision R)"

definition last_slot :: "nat \<Rightarrow> SlotId option" where
  "last_slot n = (if n = 0 then None else Some (slot_of (n - 1)))"

lemma emit_records_sound:
  assumes "mahi_node_ok c B (mc_dag mc)" and "parent_closed B (set (mc_emitted mc))"
    and "\<forall>x \<in> set R. decision_ok c B w elect (mc_dag mc) (rec_id x) (dr_decision x)"
    and "map rec_id R = map slot_of [n..<m]" and "mc_last_decided mc = last_slot n"
  shows "\<exists>mc'. emit_records mc R = Inr (mc', map (\<lambda>x. the (B x)) (spec_output B (set (mc_emitted mc)) (decided_prefix R))) \<and>
    mc' = mc\<lparr>mc_last_decided := last_slot (n + length (decided_prefix R)), mc_emitted := mc_emitted mc'\<rparr> \<and>
    set (mc_emitted mc') = spec_emitted B (set (mc_emitted mc)) (decided_prefix R) \<and> parent_closed B (set (mc_emitted mc'))"
  using assms
proof (induction R arbitrary: mc n)
  case Nil
  then show ?case by (auto simp: decided_prefix_def)
next
  case (Cons x R)
  then have "n < m" by (cases "n < m") simp_all
  with Cons.prems(4) have ids: "rec_id x = slot_of n" "map rec_id R = map slot_of [Suc n..<m]" by (simp_all add: upt_conv_Cons)
  let ?mc = "mc\<lparr>mc_last_decided := Some (rec_id x)\<rparr>"
  have last: "mc_last_decided ?mc = last_slot (Suc n)" by (simp add: ids last_slot_def)
  show ?case
  proof (cases "dr_decision x")
    case (Commit l)
    with Cons.prems(3) have "contains_key (by_digest (mc_dag ?mc)) l" by (simp add: decision_ok_def)
    with mahi_linearize_sound [of c B ?mc l] Cons.prems(1,2) obtain e where
      lin: "mahi_linearize ?mc l = Inr (?mc\<lparr>mc_emitted := e\<rparr>, map (\<lambda>x. the (B x)) (new_blocks B (set (mc_emitted mc)) l))"
      and e: "set e = set (mc_emitted mc) \<union> history B l" by auto
    have closed: "parent_closed B (set e)" unfolding e by (rule parent_closed_union [OF Cons.prems(2)])
    from Cons.IH [of "?mc\<lparr>mc_emitted := e\<rparr>" "Suc n"] Cons.prems ids(2) last closed obtain mc' where
      run: "emit_records (?mc\<lparr>mc_emitted := e\<rparr>) R = Inr (mc', map (\<lambda>x. the (B x)) (spec_output B (set e) (decided_prefix R)))"
      and mc': "mc' = (?mc\<lparr>mc_emitted := e\<rparr>)\<lparr>mc_last_decided := last_slot (Suc n + length (decided_prefix R)), mc_emitted := mc_emitted mc'\<rparr>"
        "set (mc_emitted mc') = spec_emitted B (set e) (decided_prefix R)" "parent_closed B (set (mc_emitted mc'))"
      by auto
    have pre: "decided_prefix (x # R) = Commit l # decided_prefix R" by (simp add: decided_prefix_def Commit)
    show ?thesis
      using run mc' by (intro exI [of _ mc']) (simp add: Commit lin pre e)
  next
    case Skip
    then have pre: "decided_prefix (x # R) = Skip # decided_prefix R" by (simp add: decided_prefix_def)
    from Cons.IH [of ?mc "Suc n"] Cons.prems ids(2) last obtain mc' where
      "emit_records ?mc R = Inr (mc', map (\<lambda>x. the (B x)) (spec_output B (set (mc_emitted mc)) (decided_prefix R)))"
      "mc' = ?mc\<lparr>mc_last_decided := last_slot (Suc n + length (decided_prefix R)), mc_emitted := mc_emitted mc'\<rparr>"
      "set (mc_emitted mc') = spec_emitted B (set (mc_emitted mc)) (decided_prefix R)" "parent_closed B (set (mc_emitted mc'))"
      by auto
    then show ?thesis by (intro exI [of _ mc']) (simp add: Skip pre)
  next
    case Undecided
    then have "decided_prefix (x # R) = []" by (simp add: decided_prefix_def)
    with Cons.prems(2,5) Undecided show ?thesis by simp
  qed
qed

end
