(* ===== verification/Mahi_Agreement.thy ===== *)
theory Mahi_Agreement
  imports Mahi_Order
begin

text \<open>
  Runs of Mahi-Mahi nodes: every run keeps the invariant that its output is the function
  \<open>spec_output\<close> of justified decisions for the slots in order.  Two runs therefore output
  prefixes of one sequence, and no run panics.
\<close>

section \<open>Elections\<close>

definition mahi_elects :: "CryptoLib \<Rightarrow> Consensus \<Rightarrow> Round \<Rightarrow> SlotId \<Rightarrow> PublicKey \<Rightarrow> bool" where
  "mahi_elects lib con0 w s a \<longleftrightarrow> (\<exists>con certs con'. peers lib con con0 \<and>
     leader_authority_from_certificates lib con (slot_round s) (slot_round s + w - 1) (slot_index s) certs = Inr (con', Some a))"

lemma peers_trans: "peers lib a b \<Longrightarrow> peers lib b d \<Longrightarrow> peers lib a d"
  by (auto simp: peers_def coin_peers_def option_rel_Some1 option_rel_Some2 elim!: option.rel_cases)

lemma leader_from_peers:
  assumes "peers lib a b" and "leader_authority_from_certificates lib a lr cr off certs = Inr (a', res)"
  shows "peers lib a' b"
  using assms threshold_coin_peers(1) [OF assms(1)]
  by (auto simp: leader_authority_from_certificates_def with_leader_def split: ConsensusProtocol.splits option.splits)

lemma leader_from_agree:
  assumes "bls_unique lib" and "peers lib a b"
    and "leader_authority_from_certificates lib a lr cr off certs = Inr (a', Some x)"
    and "leader_authority_from_certificates lib b lr cr off certs' = Inr (b', Some y)"
  shows "x = y"
proof (cases "con_consensus_protocol a")
  case CommonCoin
  have same: "con_consensus_protocol b = CommonCoin" "con_coin_committee a = con_coin_committee b"
    using assms(2) CommonCoin by (simp_all add: peers_def)
  obtain v where v: "threshold_coin_from_certificates lib a cr certs = (a', Some v)" "cc_leader (con_coin_committee a) v off = Inr x"
    using assms(3) CommonCoin by (auto simp: leader_authority_from_certificates_def with_leader_def prod_eq_iff split: option.splits)
  obtain u where u: "threshold_coin_from_certificates lib b cr certs' = (b', Some u)" "cc_leader (con_coin_committee b) u off = Inr y"
    using assms(4) same by (auto simp: leader_authority_from_certificates_def with_leader_def prod_eq_iff split: option.splits)
  from threshold_coin_peers(2) [OF assms(2) v(1) refl] obtain s where
    s: "con_threshold_coin a = Some s" "valid_coin lib (tc_key_set s) cr v" by blast
  from threshold_coin_peers(2) [OF peers_sym [OF assms(2)] u(1) refl] obtain t where
    t: "con_threshold_coin b = Some t" "valid_coin lib (tc_key_set t) cr u" by blast
  have "tc_key_set s = tc_key_set t" using assms(2) s(1) t(1) by (simp add: peers_def coin_peers_def)
  then have "v = u" using s(2) t(2) assms(1) by (auto simp: valid_coin_def bls_unique_def)
  then show ?thesis using v(2) u(2) same(2) by simp
qed (use assms(2-4) in \<open>auto simp: leader_authority_from_certificates_def with_leader_def peers_def round_robin_coin_def
       pseudo_random_coin_def\<close>)

lemma mahi_elects_fun:
  assumes "bls_unique lib" and "mahi_elects lib con0 w s a" and "mahi_elects lib con0 w s a'"
  shows "a = a'"
  using assms leader_from_agree peers_trans peers_sym unfolding mahi_elects_def by meson

definition mahi_electable :: "Consensus \<Rightarrow> bool" where
  "mahi_electable con \<longleftrightarrow> cc_authorities (con_coin_committee con) \<noteq> [] \<and> is_mahi_mahi (con_dag_protocol con)"

lemma leader_from_total:
  assumes "mahi_electable con" and "1 \<le> lr"
  shows "\<exists>con' res. leader_authority_from_certificates lib con lr cr off certs = Inr (con', res)"
proof -
  have "\<exists>v. round_robin_coin con lr = Inr v"
    using assms by (cases "con_dag_protocol con")
      (auto simp: mahi_electable_def is_mahi_mahi_def round_robin_coin_def round_robin_slot_def)
  then obtain v where v: "round_robin_coin con lr = Inr v" ..
  have total: "\<exists>con' res. with_leader con off p = Inr (con', res)" for p
    using assms(1) by (simp add: with_leader_def cc_leader_def mahi_electable_def split: option.split)
  show ?thesis
    by (cases "con_consensus_protocol con") (simp_all add: leader_authority_from_certificates_def v total)
qed

text \<open>The held blocks of the coin round do not give the slot a leader.\<close>

definition leaderless :: "CryptoLib \<Rightarrow> Consensus \<Rightarrow> Round \<Rightarrow> MahiDag \<Rightarrow> SlotId \<Rightarrow> bool" where
  "leaderless lib con0 w d s \<longleftrightarrow> (\<exists>con con'. peers lib con con0 \<and>
     leader_authority_from_certificates lib con (slot_round s) (slot_round s + w - 1) (slot_index s)
       (mahi_round_certificates d (slot_round s + w - 1)) = Inr (con', None))"

lemma leaderless_same: "same_blocks d d' \<Longrightarrow> leaderless lib con0 w d' s \<longleftrightarrow> leaderless lib con0 w d s"
  unfolding leaderless_def mahi_round_certificates_def same_blocks_queries(2) [of d d'] by (simp add: same_blocks_def round_digests_def)

lemma elect_slots_sound:
  assumes "mahi_electable con0" and "peers lib con con0" and "\<forall>s \<in> set ids. 1 \<le> slot_round s"
  shows "\<exists>con' slots. elect_slots lib d w con ids = Inr (con', slots) \<and> prefix (map ls_id slots) ids \<and> peers lib con' con0 \<and>
    (\<forall>s \<in> set slots. mahi_elects lib con0 w (ls_id s) (ls_authority s)) \<and>
    (length slots < length ids \<longrightarrow> leaderless lib con0 w d (ids ! length slots))"
  using assms(2,3)
proof (induction ids arbitrary: con)
  case (Cons s ids)
  let ?cr = "slot_round s + w - 1"
  have "mahi_electable con" using assms(1) Cons.prems(1) by (simp add: mahi_electable_def peers_def)
  with leader_from_total [of con "slot_round s" lib ?cr "slot_index s" "mahi_round_certificates d ?cr"] Cons.prems(2)
  obtain con1 res where r: "leader_authority_from_certificates lib con (slot_round s) ?cr (slot_index s)
      (mahi_round_certificates d ?cr) = Inr (con1, res)" by auto
  note p = leader_from_peers [OF Cons.prems(1) r]
  show ?case
  proof (cases res)
    case None
    with r have "leaderless lib con0 w d s" unfolding leaderless_def using Cons.prems(1) by blast
    with None r p show ?thesis by simp
  next
    case (Some a)
    from Cons.IH [OF p] Cons.prems(2) obtain con2 slots where "elect_slots lib d w con1 ids = Inr (con2, slots)"
      "prefix (map ls_id slots) ids" "peers lib con2 con0" "\<forall>s \<in> set slots. mahi_elects lib con0 w (ls_id s) (ls_authority s)"
      "length slots < length ids \<longrightarrow> leaderless lib con0 w d (ids ! length slots)"
      by auto
    moreover have "mahi_elects lib con0 w s a"
      unfolding mahi_elects_def using r Some Cons.prems(1) by blast
    ultimately show ?thesis using r Some by auto
  qed
qed simp

section \<open>The store under insertion and pruning\<close>

lemma map_of_filter_key: "map_of (filter (\<lambda>x. P (fst x)) xs) k = (if P k then map_of xs k else None)"
  by (induction xs) auto

lemma prune_caches_ok:
  assumes "mahi_node_ok c B d"
  shows "mahi_node_ok c B (prune_caches d m) \<and> same_blocks d (prune_caches d m)"
proof -
  let ?P = "root_recent (by_digest d) m"
  have "support_cache (prune_caches d m) = filter (\<lambda>x. (\<lambda>(root, _, _). ?P root) (fst x)) (support_cache d)"
    "certificate_cache (prune_caches d m) = filter (\<lambda>x. (\<lambda>(root, _). ?P root) (fst x)) (certificate_cache d)"
    "link_cache (prune_caches d m) = filter (\<lambda>x. (\<lambda>(root, _). ?P root) (fst x)) (link_cache d)"
    by (simp_all add: prune_caches_def case_prod_beta')
  then have "mahi_store_ok c B (prune_caches d m)"
    using assms
    by (auto simp: mahi_node_ok_def mahi_store_ok_def support_cache_ok_def cert_cache_ok_def link_cache_ok_def
        map_of_filter_key prune_caches_def split: if_splits)
  moreover have "same_blocks d (prune_caches d m)" by (simp add: same_blocks_def prune_caches_def)
  ultimately show ?thesis using mahi_node_same [OF assms] by blast
qed

definition held :: "MahiDag \<Rightarrow> Digest set" where
  "held d = {x. contains_key (by_digest d) x}"

lemma mahi_insert_ok:
  assumes "mahi_node_ok c B d" and "B (cert_digest lib x) = Some x" and "set (h_parents (header x)) \<subseteq> held d"
  shows "mahi_node_ok c B (fst (mahi_insert lib d x)) \<and> held (fst (mahi_insert lib d x)) = insert (cert_digest lib x) (held d)"
proof -
  let ?d = "fst (mahi_insert lib d x)"
  have caches: "support_cache ?d = support_cache d" "certificate_cache ?d = certificate_cache d" "link_cache ?d = link_cache d"
    by (simp_all add: mahi_insert_def Let_def)
  have le: "map_of (by_digest ?d) \<subseteq>\<^sub>m B"
    using assms(1,2) by (auto simp: mahi_insert_blocks mahi_node_ok_def mahi_store_ok_def map_le_def)
  then have "mahi_store_ok c B ?d" using assms(1) by (simp add: mahi_node_ok_def mahi_store_ok_def caches)
  moreover have "mahi_index_ok ?d" using assms(1) by (simp add: mahi_node_ok_def mahi_index_insert)
  moreover have h: "held ?d = insert (cert_digest lib x) (held d)"
    by (auto simp: held_def contains_key_def mahi_insert_blocks)
  moreover have "p \<in> held ?d" if "map_of (by_digest ?d) y = Some b" "p \<in> set (h_parents (header b))" for y b p
    using that assms(1,3) unfolding h by (auto simp: mahi_insert_blocks mahi_node_ok_def held_def split: if_splits)
  ultimately show ?thesis by (auto simp: mahi_node_ok_def held_def)
qed

section \<open>The invariant of a run\<close>

record mahi_world =
  mw_lib :: CryptoLib
  mw_committee :: Committee
  mw_consensus :: Consensus
  mw_wave :: Round
  mw_blocks :: blocks_of_all
  mw_genesis :: "Digest set"

definition mahi_world_ok :: "PublicKey set \<Rightarrow> mahi_world \<Rightarrow> bool" where
  "mahi_world_ok F W \<longleftrightarrow> mahi_history (mw_committee W) F (mw_blocks W) \<and> bls_unique (mw_lib W) \<and> 2 \<le> mw_wave W \<and>
     mahi_electable (mw_consensus W) \<and> con_committee (mw_consensus W) = mw_committee W \<and>
     parent_closed (mw_blocks W) (mw_genesis W)"

abbreviation world_elects :: "mahi_world \<Rightarrow> SlotId \<Rightarrow> PublicKey \<Rightarrow> bool" where
  "world_elects W \<equiv> mahi_elects (mw_lib W) (mw_consensus W) (mw_wave W)"

abbreviation world_leaderless :: "mahi_world \<Rightarrow> MahiDag \<Rightarrow> SlotId \<Rightarrow> bool" where
  "world_leaderless W \<equiv> leaderless (mw_lib W) (mw_consensus W) (mw_wave W)"

abbreviation world_justified :: "mahi_world \<Rightarrow> SlotId \<Rightarrow> LeaderDecision \<Rightarrow> bool" where
  "world_justified W \<equiv> justified (mw_committee W) (mw_blocks W) (mw_wave W) (world_elects W)"

definition world_output :: "mahi_world \<Rightarrow> LeaderDecision list \<Rightarrow> Certificate list" where
  "world_output W ds = map (\<lambda>x. the (mw_blocks W x)) (spec_output (mw_blocks W) (mw_genesis W) ds)"

definition mahi_run_inv :: "mahi_world \<Rightarrow> Consensus \<times> MahiCommitter \<Rightarrow> LeaderDecision list \<Rightarrow> bool" where
  "mahi_run_inv W s ds \<longleftrightarrow> peers (mw_lib W) (fst s) (mw_consensus W) \<and> mahi_node_ok (mw_committee W) (mw_blocks W) (mc_dag (snd s)) \<and>
     mc_wave_length (snd s) = mw_wave W \<and>
     decisions_ok (mw_committee W) (mw_blocks W) (mw_wave W) (world_elects W) (snd s) \<and>
     mc_last_decided (snd s) = last_slot (length ds) \<and>
     (\<forall>k < length ds. world_justified W (slot_of k) (ds ! k)) \<and>
     set (mc_emitted (snd s)) = spec_emitted (mw_blocks W) (mw_genesis W) ds \<and>
     parent_closed (mw_blocks W) (set (mc_emitted (snd s))) \<and> set (mc_emitted (snd s)) \<subseteq> held (mc_dag (snd s))"

lemma emitted_held:
  assumes "mahi_node_ok c B d" and "E \<subseteq> held d" and "\<forall>l. Commit l \<in> set ds \<longrightarrow> l \<in> held d"
  shows "spec_emitted B E ds \<subseteq> held d"
  using assms(2,3)
proof (induction ds arbitrary: E)
  case (Cons x ds)
  show ?case
  proof (cases x)
    case (Commit l)
    with Cons.prems have "history B l \<subseteq> held d" using history_node(2) [OF assms(1), of l] by (auto simp: held_def)
    with Cons Commit show ?thesis by simp
  qed (use Cons in auto)
qed simp

lemma prefix_slots:
  assumes "prefix (map ls_id slots) (map slot_of [n..<m])"
  obtains m' where "map ls_id slots = map slot_of [n..<m']" and "n \<le> m'"
proof -
  from assms obtain zs where "map slot_of [n..<m] = map ls_id slots @ zs" by (auto simp: prefix_def)
  then have "map ls_id slots = take (length slots) (map slot_of [n..<m])" by (metis append_eq_conv_conj length_map)
  also have "\<dots> = map slot_of [n..<min m (n + length slots)]" by (simp add: take_map take_upt min_def)
  finally have eq: "map ls_id slots = map slot_of [n..<min m (n + length slots)]" .
  show thesis
  proof (cases "n \<le> min m (n + length slots)")
    case False
    then have "slots = []" using eq by (simp del: min_less_iff_conj)
    then show thesis using that [of n] by simp
  qed (use that eq in blast)
qed

lemma pending_slots_sound:
  assumes "mahi_world_ok F W" and "mahi_run_inv W (con, mc) ds"
  shows "\<exists>con' slots m. pending_slots (mw_lib W) con mc = Inr (con', slots) \<and> peers (mw_lib W) con' (mw_consensus W) \<and>
    map ls_id slots = map slot_of [length ds..<m] \<and> length ds \<le> m \<and> (\<forall>s \<in> set slots. world_elects W (ls_id s) (ls_authority s)) \<and>
    (highest_round (mc_dag mc) < slot_round (slot_of m) + mw_wave W - 1 \<or> world_leaderless W (mc_dag mc) (slot_of m))"
proof (cases "highest_round (mc_dag mc) + 1 < mc_wave_length mc")
  case True
  with assms(2) show ?thesis by (intro exI [of _ con] exI [of _ "[]"] exI [of _ "length ds"]) (auto simp: pending_slots_def mahi_run_inv_def slot_of_def)
next
  case False
  let ?M = "highest_round (mc_dag mc) - (mc_wave_length mc - 1)"
  have ids: "slot_ids (first_pending (mc_last_decided mc)) ?M = map slot_of [length ds..<LEADER_COUNT * ?M]"
    using assms(2) first_pending_of [of "length ds"] by (simp add: mahi_run_inv_def last_slot_def slot_ids_of)
  have valid: "\<forall>s \<in> set (map slot_of [length ds..<LEADER_COUNT * ?M]). 1 \<le> slot_round s" by (simp add: slot_of_def)
  have el: "mahi_electable (mw_consensus W)" and p: "peers (mw_lib W) con (mw_consensus W)" and w: "mc_wave_length mc = mw_wave W"
    using assms by (simp_all add: mahi_world_ok_def mahi_run_inv_def)
  from elect_slots_sound [OF el p valid, of "mc_dag mc" "mw_wave W"] obtain con' slots where
    run: "elect_slots (mw_lib W) (mc_dag mc) (mw_wave W) con (map slot_of [length ds..<LEADER_COUNT * ?M]) = Inr (con', slots)"
    "peers (mw_lib W) con' (mw_consensus W)" "\<forall>s \<in> set slots. world_elects W (ls_id s) (ls_authority s)"
    and pre: "prefix (map ls_id slots) (map slot_of [length ds..<LEADER_COUNT * ?M])"
    and stop: "length slots < LEADER_COUNT * ?M - length ds \<longrightarrow>
      world_leaderless W (mc_dag mc) (map slot_of [length ds..<LEADER_COUNT * ?M] ! length slots)" by auto
  obtain m where m: "map ls_id slots = map slot_of [length ds..<m]" "length ds \<le> m" by (rule prefix_slots [OF pre])
  have len: "length slots = m - length ds" using arg_cong [OF m(1), of length] by simp
  have "highest_round (mc_dag mc) < slot_round (slot_of m) + mw_wave W - 1 \<or> world_leaderless W (mc_dag mc) (slot_of m)"
  proof (cases "m < LEADER_COUNT * ?M")
    case True
    then show ?thesis using stop m(2) len by (simp add: less_diff_conv)
  next
    case past: False
    then have "?M \<le> m div LEADER_COUNT" by (simp add: LEADER_COUNT_def)
    then have "Suc ?M \<le> slot_round (slot_of m)" by (simp add: slot_of_def)
    with False w assms(1) show ?thesis by (auto simp: mahi_world_ok_def)
  qed
  with run False ids w m show ?thesis by (auto simp: pending_slots_def Let_def)
qed

lemma decided_prefix_justified:
  assumes "\<forall>x \<in> set R. decision_ok c B w elect d (rec_id x) (dr_decision x)" and "map rec_id R = map slot_of [n..<m]"
    and "k < length (decided_prefix R)"
  shows "justified c B w elect (slot_of (n + k)) (decided_prefix R ! k)"
proof -
  have len: "k < length R" using assms(3) length_takeWhile_le [of is_decided "map dr_decision R"] by (simp add: decided_prefix_def)
  have nth: "decided_prefix R ! k = dr_decision (R ! k)" using assms(3) len by (simp add: decided_prefix_def takeWhile_nth)
  have "is_decided (decided_prefix R ! k)"
    using nth_mem [OF assms(3)] unfolding decided_prefix_def by (rule set_takeWhileD [THEN conjunct2])
  moreover have "rec_id (R ! k) = slot_of (n + k)"
    using arg_cong [OF assms(2), of "\<lambda>xs. xs ! k"] len arg_cong [OF assms(2), of length] by simp
  ultimately show ?thesis using assms(1) nth_mem [OF len] by (auto simp: decision_ok_def nth)
qed

text \<open>Why a node has not decided a slot.\<close>

definition stalled :: "mahi_world \<Rightarrow> MahiDag \<Rightarrow> nat \<Rightarrow> bool" where
  "stalled W d n \<longleftrightarrow> highest_round d < slot_round (slot_of n) + mw_wave W - 1 \<or> world_leaderless W d (slot_of n) \<or>
     (\<exists>slot. ls_id slot = slot_of n \<and> world_elects W (slot_of n) (ls_authority slot) \<and>
        directly_undecided (mw_committee W) (mw_blocks W) (mw_wave W) d slot)"

lemma stalled_same: "same_blocks d d' \<Longrightarrow> stalled W d' n \<longleftrightarrow> stalled W d n"
  unfolding stalled_def using leaderless_same [of d d'] directly_undecided_same [of d d']
  by (simp add: same_blocks_def highest_round_def)

lemma undecided_stalled:
  assumes "map rec_id R = map slot_of [n..<m]" and "n + length (decided_prefix R) < m"
    and "\<forall>x \<in> set R. world_elects W (rec_id x) (ls_authority (dr_slot x)) \<and>
           (is_decided (dr_decision x) \<or> directly_undecided (mw_committee W) (mw_blocks W) (mw_wave W) d (dr_slot x))"
  shows "stalled W d (n + length (decided_prefix R))"
proof -
  let ?k = "length (decided_prefix R)"
  have len: "length R = m - n" using arg_cong [OF assms(1), of length] by simp
  then have k: "?k < length (map dr_decision R)" using assms(2) by simp
  then have "\<not> is_decided (dr_decision (R ! ?k))"
    using nth_length_takeWhile [of is_decided "map dr_decision R"] by (simp add: decided_prefix_def)
  moreover have "rec_id (R ! ?k) = slot_of (n + ?k)"
    using arg_cong [OF assms(1), of "\<lambda>xs. xs ! ?k"] k assms(2) by simp
  moreover have "R ! ?k \<in> set R" using k by simp
  ultimately show ?thesis unfolding stalled_def using assms(3) by metis
qed

lemma try_decide_sound:
  assumes "mahi_world_ok F W" and "mahi_run_inv W (con, mc) ds"
  shows "\<exists>con' mc' ds'. try_decide (mw_lib W) con mc =
      Inr (con', mc', map (\<lambda>x. the (mw_blocks W x)) (spec_output (mw_blocks W) (set (mc_emitted mc)) ds')) \<and>
    mahi_run_inv W (con', mc') (ds @ ds') \<and> held (mc_dag mc') = held (mc_dag mc) \<and> stalled W (mc_dag mc') (length (ds @ ds'))"
proof -
  let ?c = "mw_committee W" and ?B = "mw_blocks W" and ?w = "mw_wave W" and ?n = "length ds"
  have hist: "mahi_history ?c F ?B" and w: "2 \<le> ?w" using assms(1) by (simp_all add: mahi_world_ok_def)
  have inv: "mahi_node_ok ?c ?B (mc_dag mc)" "?w = mc_wave_length mc" "decisions_ok ?c ?B ?w (world_elects W) mc"
    using assms(2) by (simp_all add: mahi_run_inv_def)
  from pending_slots_sound [OF assms] obtain con' slots m where pend: "pending_slots (mw_lib W) con mc = Inr (con', slots)"
    "peers (mw_lib W) con' (mw_consensus W)" and ids: "map ls_id slots = map slot_of [?n..<m]" "?n \<le> m"
    and el: "\<forall>s \<in> set slots. world_elects W (ls_id s) (ls_authority s)"
    and stop: "highest_round (mc_dag mc) < slot_round (slot_of m) + ?w - 1 \<or> world_leaderless W (mc_dag mc) (slot_of m)" by blast
  have c: "con_committee con' = ?c" using pend(2) assms(1) by (simp add: peers_def mahi_world_ok_def)
  have rids: "map ls_id (rev slots) = rev (map slot_of [?n..<m])" using ids(1) by (simp flip: rev_map)
  from decide_slots_sound [OF hist inv(1,2) w inv(3), of "[]" m m "rev slots" ?n] ids(2) rids el obtain mc1 R where
    dec: "decide_slots ?c mc [] (rev slots) = Inr (mc1, R)" "map rec_id R = map slot_of [?n..<m]"
    "\<forall>x \<in> set R. decision_ok ?c ?B ?w (world_elects W) (mc_dag mc1) (rec_id x) (dr_decision x)"
    "decisions_ok ?c ?B ?w (world_elects W) mc1" "loop_frame ?c ?B mc mc1"
    and prog: "\<forall>x \<in> set R. dr_slot x \<in> set slots \<and> (is_decided (dr_decision x) \<or> directly_undecided ?c ?B ?w (mc_dag mc) (dr_slot x))"
    by auto
  have f: "same_blocks (mc_dag mc) (mc_dag mc1)" "mahi_node_ok ?c ?B (mc_dag mc1)" "mc_wave_length mc1 = ?w"
    "mc_last_decided mc1 = last_slot ?n" "mc_emitted mc1 = mc_emitted mc"
    using dec(5) inv(2) assms(2) by (simp_all add: loop_frame_def mahi_run_inv_def)
  let ?ds = "decided_prefix R"
  have closed: "parent_closed ?B (set (mc_emitted mc1))" using f(5) assms(2) by (auto simp: mahi_run_inv_def)
  from emit_records_sound [OF f(2) closed dec(3,2) f(4)] obtain mc2 where
    emit: "emit_records mc1 R = Inr (mc2, map (\<lambda>x. the (?B x)) (spec_output ?B (set (mc_emitted mc)) ?ds))"
    and mc2: "mc2 = mc1\<lparr>mc_last_decided := last_slot (?n + length ?ds), mc_emitted := mc_emitted mc2\<rparr>"
    "set (mc_emitted mc2) = spec_emitted ?B (set (mc_emitted mc)) ?ds" "parent_closed ?B (set (mc_emitted mc2))"
    unfolding f(5) by blast
  have same2: "mc_dag mc2 = mc_dag mc1" "mc_wave_length mc2 = mc_wave_length mc1" "mc_decisions mc2 = mc_decisions mc1"
    "mc_last_decided mc2 = last_slot (length (ds @ ?ds))"
    by (subst mc2(1), simp)+
  define mc3 where "mc3 = (case mc_last_decided mc2 of None \<Rightarrow> mc2
      | Some s \<Rightarrow> mc2\<lparr>mc_dag := prune_caches (mc_dag mc2) (slot_round s - con_gc_depth con')\<rparr>)"
  have mc3: "mahi_node_ok ?c ?B (mc_dag mc3)" "same_blocks (mc_dag mc1) (mc_dag mc3)" "mc_wave_length mc3 = ?w"
    "mc_decisions mc3 = mc_decisions mc1" "mc_last_decided mc3 = last_slot (length (ds @ ?ds))" "mc_emitted mc3 = mc_emitted mc2"
    using prune_caches_ok [OF f(2)] f(2,3) same2 by (auto simp: mc3_def split: option.split)
  have "decisions_ok ?c ?B ?w (world_elects W) mc3"
    using dec(4) by (simp add: decisions_ok_def mc3(4) decision_ok_same [OF mc3(2)])
  moreover have "world_justified W (slot_of k) ((ds @ ?ds) ! k)" if "k < length (ds @ ?ds)" for k
    using that assms(2) decided_prefix_justified [OF dec(3,2), of "k - ?n"]
    by (cases "k < ?n") (simp_all add: mahi_run_inv_def nth_append)
  moreover have "set (mc_emitted mc2) \<subseteq> held (mc_dag mc1)"
    unfolding mc2(2)
  proof (rule emitted_held [OF f(2)])
    show "set (mc_emitted mc) \<subseteq> held (mc_dag mc1)" using assms(2) f(1) by (auto simp: mahi_run_inv_def held_def same_blocks_def)
    have "l \<in> held (mc_dag mc1)" if "Commit l = dr_decision x" "x \<in> set R" for l x
      using dec(3) that(2) unfolding decision_ok_def that(1) [symmetric] by (auto simp: held_def simp flip: that(1))
    then show "\<forall>l. Commit l \<in> set ?ds \<longrightarrow> l \<in> held (mc_dag mc1)"
      by (auto simp: decided_prefix_def dest!: set_takeWhileD)
  qed
  then have "set (mc_emitted mc2) \<subseteq> held (mc_dag mc3)" using mc3(2) by (simp add: held_def same_blocks_def)
  ultimately have "mahi_run_inv W (con', mc3) (ds @ ?ds)"
    using pend(2) mc3 mc2(2,3) assms(2) by (simp add: mahi_run_inv_def spec_emitted_append)
  moreover have "try_decide (mw_lib W) con mc = Inr (con', mc3, map (\<lambda>x. the (?B x)) (spec_output ?B (set (mc_emitted mc)) ?ds))"
    by (simp add: try_decide_def pend(1) c dec(1) emit mc3_def)
  moreover have "held (mc_dag mc3) = held (mc_dag mc)"
    using f(1) mc3(2) by (simp add: held_def same_blocks_def)
  moreover have "stalled W (mc_dag mc) (length (ds @ ?ds))"
  proof (cases "?n + length ?ds < m")
    case True
    have "stalled W (mc_dag mc) (?n + length ?ds)" by (rule undecided_stalled [OF dec(2) True]) (use prog el in blast)
    then show ?thesis by simp
  next
    case False
    have "length R = m - ?n" using arg_cong [OF dec(2), of length] by simp
    then have "?n + length ?ds = m"
      using False ids(2) length_takeWhile_le [of is_decided "map dr_decision R"] by (simp add: decided_prefix_def)
    then show ?thesis using stop by (auto simp: stalled_def)
  qed
  then have "stalled W (mc_dag mc3) (length (ds @ ?ds))" using stalled_same [OF same_blocks_trans [OF f(1) mc3(2)]] by simp
  ultimately show ?thesis by blast
qed

section \<open>Runs\<close>

text \<open>The primary hands a block to the consensus task after all its parents.\<close>

fun delivered :: "CryptoLib \<Rightarrow> blocks_of_all \<Rightarrow> Digest set \<Rightarrow> Certificate list \<Rightarrow> bool" where
  "delivered lib B K [] \<longleftrightarrow> True"
| "delivered lib B K (x # xs) \<longleftrightarrow> B (cert_digest lib x) = Some x \<and> set (h_parents (header x)) \<subseteq> K \<and>
     delivered lib B (insert (cert_digest lib x) K) xs"

lemma mahi_inv_insert:
  assumes "mahi_run_inv W (con, mc) ds" and "mw_blocks W (cert_digest (mw_lib W) x) = Some x"
    and "set (h_parents (header x)) \<subseteq> held (mc_dag mc)"
  shows "mahi_run_inv W (con, fst (committer_insert (mw_lib W) mc x)) ds \<and>
    held (mc_dag (fst (committer_insert (mw_lib W) mc x))) = insert (cert_digest (mw_lib W) x) (held (mc_dag mc)) \<and>
    mc_emitted (fst (committer_insert (mw_lib W) mc x)) = mc_emitted mc"
proof -
  have ok: "mahi_node_ok (mw_committee W) (mw_blocks W) (mc_dag mc)" using assms(1) by (simp add: mahi_run_inv_def)
  note ins = mahi_insert_ok [OF ok assms(2,3)]
  have "decision_ok (mw_committee W) (mw_blocks W) (mw_wave W) (world_elects W) (fst (mahi_insert (mw_lib W) (mc_dag mc) x)) s d"
    if "decision_ok (mw_committee W) (mw_blocks W) (mw_wave W) (world_elects W) (mc_dag mc) s d" for s d
    using that ins by (auto simp: decision_ok_def held_def)
  then show ?thesis using assms(1) ins by (auto simp: mahi_run_inv_def committer_insert_def Let_def decisions_ok_def)
qed

lemma mahi_step_sound:
  assumes "mahi_world_ok F W" and "mahi_run_inv W (con, mc) ds" and "mw_blocks W (cert_digest (mw_lib W) x) = Some x"
    and "set (h_parents (header x)) \<subseteq> held (mc_dag mc)" and "stalled W (mc_dag mc) (length ds)"
  shows "\<exists>con' mc' ds'. mahi_step (mw_lib W) (con, mc) x =
      Inr ((con', mc'), map (\<lambda>x. the (mw_blocks W x)) (spec_output (mw_blocks W) (spec_emitted (mw_blocks W) (mw_genesis W) ds) ds')) \<and>
    mahi_run_inv W (con', mc') (ds @ ds') \<and> held (mc_dag mc') = insert (cert_digest (mw_lib W) x) (held (mc_dag mc)) \<and>
    stalled W (mc_dag mc') (length (ds @ ds'))"
proof (cases "snd (committer_insert (mw_lib W) mc x)")
  case False
  then have "mc_dag (fst (committer_insert (mw_lib W) mc x)) = mc_dag mc"
    by (auto simp: committer_insert_def mahi_insert_def Let_def split: if_splits)
  with False mahi_inv_insert [OF assms(2-4)] assms(5) show ?thesis
    by (intro exI [of _ con] exI [of _ "fst (committer_insert (mw_lib W) mc x)"] exI [of _ "[]"]) (simp add: mahi_step_def Let_def)
next
  case True
  let ?mc = "fst (committer_insert (mw_lib W) mc x)"
  note ins = mahi_inv_insert [OF assms(2-4)]
  then have "set (mc_emitted ?mc) = spec_emitted (mw_blocks W) (mw_genesis W) ds" by (auto simp: mahi_run_inv_def)
  with try_decide_sound [OF assms(1), of con ?mc ds] ins obtain con' mc' ds' where
    "try_decide (mw_lib W) con ?mc = Inr (con', mc',
       map (\<lambda>x. the (mw_blocks W x)) (spec_output (mw_blocks W) (spec_emitted (mw_blocks W) (mw_genesis W) ds) ds'))"
    "mahi_run_inv W (con', mc') (ds @ ds')" "held (mc_dag mc') = held (mc_dag ?mc)" "stalled W (mc_dag mc') (length (ds @ ds'))"
    by auto
  with True ins show ?thesis by (auto simp: mahi_step_def Let_def)
qed

lemma mahi_steps_sound:
  assumes "mahi_world_ok F W" and "mahi_run_inv W (con, mc) ds" and "delivered (mw_lib W) (mw_blocks W) (held (mc_dag mc)) xs"
    and "stalled W (mc_dag mc) (length ds)"
  shows "\<exists>s' ds'. run_steps (mahi_step (mw_lib W)) (con, mc) xs =
      Inr (s', map (\<lambda>x. the (mw_blocks W x)) (spec_output (mw_blocks W) (spec_emitted (mw_blocks W) (mw_genesis W) ds) ds')) \<and>
    mahi_run_inv W s' (ds @ ds') \<and> held (mc_dag (snd s')) = held (mc_dag mc) \<union> cert_digest (mw_lib W) ` set xs \<and>
    stalled W (mc_dag (snd s')) (length (ds @ ds'))"
  using assms(2-4)
proof (induction xs arbitrary: con mc ds)
  case Nil
  then show ?case by (intro exI [of _ "(con, mc)"] exI [of _ "[]"]) simp
next
  case (Cons x xs)
  from mahi_step_sound [OF assms(1) Cons.prems(1) _ _ Cons.prems(3), of x] Cons.prems(2) obtain con1 mc1 ds1 where
    step: "mahi_step (mw_lib W) (con, mc) x =
      Inr ((con1, mc1), map (\<lambda>x. the (mw_blocks W x)) (spec_output (mw_blocks W) (spec_emitted (mw_blocks W) (mw_genesis W) ds) ds1))"
    "mahi_run_inv W (con1, mc1) (ds @ ds1)" "held (mc_dag mc1) = insert (cert_digest (mw_lib W) x) (held (mc_dag mc))"
    "stalled W (mc_dag mc1) (length (ds @ ds1))" by auto
  from Cons.IH [OF step(2) _ step(4)] Cons.prems(2) step(3) obtain s' ds2 where
    "run_steps (mahi_step (mw_lib W)) (con1, mc1) xs =
      Inr (s', map (\<lambda>x. the (mw_blocks W x)) (spec_output (mw_blocks W) (spec_emitted (mw_blocks W) (mw_genesis W) (ds @ ds1)) ds2))"
    "mahi_run_inv W s' ((ds @ ds1) @ ds2)" "held (mc_dag (snd s')) = held (mc_dag mc1) \<union> cert_digest (mw_lib W) ` set xs"
    "stalled W (mc_dag (snd s')) (length ((ds @ ds1) @ ds2))" by auto
  with step(1,3) show ?case
    by (intro exI [of _ s'] exI [of _ "ds1 @ ds2"]) (simp add: spec_output_append spec_emitted_append)
qed

text \<open>The genesis blocks.\<close>

lemma genesis_facts: "g \<in> set (genesis c) \<Longrightarrow> cert_round g = 0 \<and> h_parents (header g) = []"
  by (auto simp: genesis_def default_header_def cert_round_def)

lemma mahi_dag_new_ok:
  assumes "\<forall>g \<in> set gs. B (cert_digest lib g) = Some g \<and> h_parents (header g) = []"
  shows "mahi_node_ok c B (mahi_dag_new lib gs) \<and> held (mahi_dag_new lib gs) = cert_digest lib ` set gs"
  using assms
proof (induction gs rule: rev_induct)
  case Nil
  then show ?case
    by (simp add: mahi_dag_new_def mahi_node_ok_def mahi_store_ok_def support_cache_ok_def cert_cache_ok_def
        link_cache_ok_def held_def contains_key_def) (simp add: mahi_dag_empty_def)
next
  case (snoc g gs)
  then have "mahi_node_ok c B (mahi_dag_new lib gs)" "held (mahi_dag_new lib gs) = cert_digest lib ` set gs" by simp_all
  with mahi_insert_ok [of c B "mahi_dag_new lib gs" lib g] snoc.prems show ?case by (simp add: mahi_dag_new_def)
qed

lemma genesis_highest_round:
  assumes "\<forall>g \<in> set gs. cert_round g = 0"
  shows "highest_round (mahi_dag_new lib gs) = 0"
proof -
  have keys: "set (keys_of (by_round (fst (mahi_insert lib d g)))) \<subseteq> insert (cert_round g) (set (keys_of (by_round d)))" for d g
    by (auto simp: mahi_insert_def Let_def dom_update split: if_splits)
  have "set (keys_of (by_round (mahi_dag_new lib gs))) \<subseteq> {0}"
    using assms
  proof (induction gs rule: rev_induct)
    case (snoc g gs)
    then have "insert (cert_round g) (set (keys_of (by_round (mahi_dag_new lib gs)))) \<subseteq> {0}" by simp
    with keys [of "mahi_dag_new lib gs" g] have "set (keys_of (by_round (fst (mahi_insert lib (mahi_dag_new lib gs) g)))) \<subseteq> {0}"
      by (rule subset_trans)
    then show ?case by (simp add: mahi_dag_new_def)
  qed (simp add: mahi_dag_new_def mahi_dag_empty_def)
  from subset_singletonD [OF this]
  have "set (keys_of (by_round (mahi_dag_new lib gs))) = {0} \<or> by_round (mahi_dag_new lib gs) = []" by auto
  then show ?thesis unfolding highest_round_def by (metis Max_singleton)
qed

definition world_of :: "CryptoLib \<Rightarrow> Committee \<Rightarrow> Consensus \<Rightarrow> blocks_of_all \<Rightarrow> mahi_world" where
  "world_of lib c con B = \<lparr>mw_lib = lib, mw_committee = c, mw_consensus = con,
     mw_wave = (case mahi_mahi_wave_length (con_dag_protocol con) of None \<Rightarrow> 5 | Some w \<Rightarrow> w), mw_blocks = B,
     mw_genesis = cert_digest lib ` set (genesis c)\<rparr>"

lemma spawn_electable:
  assumes "spawn_with_protocol lib n c gc dp cp = Inr con" and "is_mahi_mahi dp"
  shows "mahi_electable con \<and> con_committee con = c \<and> con_genesis con = genesis c \<and> con_dag_protocol con = dp"
  using assms by (auto simp: spawn_with_protocol_def mahi_electable_def coin_committee_new_def Let_def split: if_splits)

lemma world_of_ok:
  assumes "mahi_history c F B" and "bls_unique lib" and "spawn_with_protocol lib n c gc dp cp = Inr con" and "is_mahi_mahi dp"
    and "\<forall>g \<in> set (genesis c). B (cert_digest lib g) = Some g"
  shows "mahi_world_ok F (world_of lib c con B)"
proof -
  have "parent_closed B (cert_digest lib ` set (genesis c))"
    using assms(5) genesis_facts by (fastforce simp: parent_closed_def parent_of_def)
  moreover have "2 \<le> (case mahi_mahi_wave_length dp of None \<Rightarrow> 5 | Some w \<Rightarrow> w)" by (cases dp) simp_all
  ultimately show ?thesis
    using spawn_electable [OF assms(3,4)] assms(1,2) by (simp add: mahi_world_ok_def world_of_def)
qed

lemma mahi_run_sound:
  assumes "mahi_history c F B" and "bls_unique lib" and "is_mahi_mahi dp"
    and "spawn_with_protocol lib n c gc dp cp = Inr con" and "spawn_with_protocol lib n' c gc dp cp = Inr con0"
    and "\<forall>g \<in> set (genesis c). B (cert_digest lib g) = Some g"
    and "delivered lib B (cert_digest lib ` set (genesis c)) xs"
  shows "\<exists>s ds. mahi_run lib con xs = Inr (s, world_output (world_of lib c con0 B) ds) \<and> mahi_run_inv (world_of lib c con0 B) s ds \<and>
    held (mc_dag (snd s)) = cert_digest lib ` (set (genesis c) \<union> set xs) \<and>
    stalled (world_of lib c con0 B) (mc_dag (snd s)) (length ds)"
proof -
  let ?W = "world_of lib c con0 B"
  have W: "mahi_world_ok F ?W" by (rule world_of_ok [OF assms(1,2,5,3,6)])
  have e: "con_genesis con = genesis c" "con_dag_protocol con = dp" "con_dag_protocol con0 = dp"
    using spawn_electable [OF assms(4,3)] spawn_electable [OF assms(5,3)] by simp_all
  have new: "mahi_node_ok c B (mahi_dag_new lib (genesis c))" "held (mahi_dag_new lib (genesis c)) = cert_digest lib ` set (genesis c)"
    using mahi_dag_new_ok [of "genesis c" B lib c] assms(6) genesis_facts by auto
  have "parent_closed B (cert_digest lib ` set (genesis c))" using W by (simp add: mahi_world_ok_def world_of_def)
  then have "mahi_run_inv ?W (mahi_start lib con) []"
    using new spawn_peers [OF assms(4,5)] e
    by (simp add: mahi_run_inv_def mahi_start_def mahi_committer_new_def world_of_def decisions_ok_def last_slot_def)
  moreover have "held (mc_dag (snd (mahi_start lib con))) = cert_digest lib ` set (genesis c)"
    using new(2) e(1) by (simp add: mahi_start_def mahi_committer_new_def)
  moreover have "stalled ?W (mc_dag (snd (mahi_start lib con))) 0"
  proof -
    have "highest_round (mc_dag (snd (mahi_start lib con))) = 0"
      using genesis_highest_round [of "genesis c" lib] genesis_facts e(1) by (simp add: mahi_start_def mahi_committer_new_def)
    then show ?thesis using W by (simp add: stalled_def slot_of_def mahi_world_ok_def)
  qed
  ultimately show ?thesis
    using mahi_steps_sound [OF W, of "fst (mahi_start lib con)" "snd (mahi_start lib con)" "[]" xs] assms(7)
    by (simp add: mahi_run_def world_output_def image_Un) (simp add: world_of_def)
qed

end
