(* ===== verification/Mahi_Complete.thy ===== *)
theory Mahi_Complete
  imports Mahi_Agreement
begin

text \<open>
  Completeness of the Mahi-Mahi queries.  In a store that holds the parents of all its
  blocks no query answers ``incomplete'', so the direct rule commits or skips a slot exactly
  when the held blocks are evidence for it, and an anchor decides every slot below it.
\<close>

section \<open>Queries\<close>

definition closed_store :: "Blocks \<Rightarrow> bool" where
  "closed_store blocks \<longleftrightarrow> (\<forall>x b p. map_of blocks x = Some b \<longrightarrow> p \<in> set (h_parents (header b)) \<longrightarrow>
     (\<exists>bp. map_of blocks p = Some bp \<and> cert_round bp < cert_round b))"

lemma closed_storeE:
  assumes "closed_store blocks" and "map_of blocks x = Some b" and "p \<in> set (h_parents (header b))"
  obtains bp where "map_of blocks p = Some bp" and "cert_round bp < cert_round b"
  using assms unfolding closed_store_def by blast

lemma node_closed_store:
  assumes "mahi_history c F B" and "mahi_node_ok c B d"
  shows "closed_store (by_digest d)"
  unfolding closed_store_def
proof (intro allI impI)
  fix x b p
  assume x: "map_of (by_digest d) x = Some b" and p: "p \<in> set (h_parents (header b))"
  then have "contains_key (by_digest d) p" using assms(2) unfolding mahi_node_ok_def by blast
  then obtain bp where bp: "map_of (by_digest d) p = Some bp" by (auto simp: contains_key_def)
  obtain b' where "B p = Some b'" "cert_round b' < cert_round b"
    by (rule mahi_parent_older [OF assms(1) mahi_node_block [OF assms(2) x] p])
  then show "\<exists>bp. map_of (by_digest d) p = Some bp \<and> cert_round bp < cert_round b"
    using bp mahi_node_block [OF assms(2) bp] by simp
qed

text \<open>The blocks being visited are all newer than the one the search is at.\<close>

definition newer :: "Blocks \<Rightarrow> Digest list \<Rightarrow> Digest \<Rightarrow> bool" where
  "newer blocks visiting x \<longleftrightarrow> (\<exists>b. map_of blocks x = Some b \<and>
     (\<forall>v \<in> set visiting. \<exists>bv. map_of blocks v = Some bv \<and> cert_round b < cert_round bv))"

lemma newer_not_visiting: "newer blocks visiting x \<Longrightarrow> x \<notin> set visiting"
  by (auto simp: newer_def)

lemma newer_parents:
  assumes "closed_store blocks" and "newer blocks visiting x" and "map_of blocks x = Some b"
  shows "\<forall>p \<in> set (h_parents (header b)). newer blocks (x # visiting) p"
proof
  fix p
  assume "p \<in> set (h_parents (header b))"
  then obtain bp where bp: "map_of blocks p = Some bp" "cert_round bp < cert_round b"
    using closed_storeE [OF assms(1,3)] by blast
  moreover have "\<exists>bv. map_of blocks v = Some bv \<and> cert_round bp < cert_round bv" if "v \<in> set visiting" for v
    using assms(2,3) that bp(2) by (fastforce simp: newer_def)
  ultimately show "newer blocks (x # visiting) p" using assms(3) by (auto simp: newer_def)
qed

lemma find_support_complete_mutual:
  "closed_store blocks \<Longrightarrow> newer blocks visiting from \<Longrightarrow> snd (find_support_inner blocks cache from a r visiting) \<noteq> None"
  "closed_store blocks \<Longrightarrow> \<forall>p \<in> set parents. newer blocks visiting p \<Longrightarrow>
     snd (support_loop blocks cache from a r visiting parents) \<noteq> None"
proof (induction blocks cache "from" a r visiting and blocks cache "from" a r visiting parents
    rule: find_support_inner_support_loop.induct)
  case (1 blocks cache fr a r visiting)
  obtain b where b: "map_of blocks fr = Some b" using "1.prems"(2) by (auto simp: newer_def)
  note nv = newer_not_visiting [OF "1.prems"(2)]
  show ?case
    using "1.IH" [OF _ nv b _ "1.prems"(1) newer_parents [OF "1.prems" b]] nv b
    by (simp add: find_support_inner.simps split: option.split)
next
  case (3 blocks cache fr a r visiting p ps)
  then obtain b where b: "map_of blocks p = Some b" by (auto simp: newer_def)
  have rest: "\<forall>q \<in> set ps. newer blocks visiting q" and p: "newer blocks visiting p" using "3.prems"(2) by simp_all
  consider (lt) "cert_round b < r" | (hit) "cert_round b = r" "cert_origin b = a"
    | (other) "cert_round b = r" "cert_origin b \<noteq> a" | (gt) "r < cert_round b" by linarith
  then show ?case
  proof cases
    case gt
    from "3.IH"(2) [OF b _ _ gt "3.prems"(1) p] gt obtain c1 v where
      inner: "find_support_inner blocks cache p a r visiting = (c1, Some v)"
      by (cases "find_support_inner blocks cache p a r visiting") auto
    show ?thesis
    proof (cases v)
      case None
      with "3.IH"(3) [OF b _ _ gt inner [symmetric] _ refl "3.prems"(1) rest] inner b gt show ?thesis
        by (simp add: support_loop.simps)
    qed (use inner b gt in \<open>simp add: support_loop.simps\<close>)
  qed (use "3.IH" "3.prems"(1) rest b in \<open>simp_all add: support_loop.simps\<close>)
qed (simp add: support_loop.simps)

lemma find_support_complete:
  assumes "mahi_history c F B" and "mahi_node_ok c B d" and "contains_key (by_digest d) x"
  shows "\<exists>d' v. find_support d x a r = (d', Some v) \<and> supports B a r x v \<and> mahi_store_ok c B d' \<and> same_blocks d d'"
proof -
  obtain d' res where run: "find_support d x a r = (d', res)" by fastforce
  have "newer (by_digest d) [] x" using assms(3) by (auto simp: newer_def contains_key_def)
  from find_support_complete_mutual(1) [OF node_closed_store [OF assms(1,2)] this, of "support_cache d" a r] run
  obtain v where "res = Some v" by (auto simp: find_support_def Let_def)
  moreover have "mahi_store_ok c B d" using assms(2) by (simp add: mahi_node_ok_def)
  ultimately show ?thesis using find_support_sound [OF _ run] run by auto
qed

lemma linked_complete_mutual:
  "closed_store blocks \<Longrightarrow> newer blocks visiting from \<Longrightarrow> map_of blocks target \<noteq> None \<Longrightarrow>
     snd (linked_inner blocks cache from target visiting) \<noteq> None"
  "closed_store blocks \<Longrightarrow> \<forall>p \<in> set parents. newer blocks visiting p \<Longrightarrow> map_of blocks target \<noteq> None \<Longrightarrow> \<not> incomplete \<Longrightarrow>
     snd (linked_loop blocks cache from target target_round visiting incomplete parents) \<noteq> None"
proof (induction blocks cache "from" target visiting
    and blocks cache "from" target target_round visiting incomplete parents rule: linked_inner_linked_loop.induct)
  case (1 blocks cache fr target visiting)
  obtain b where b: "map_of blocks fr = Some b" using "1.prems"(2) by (auto simp: newer_def)
  obtain tb where tb: "map_of blocks target = Some tb" using "1.prems"(3) by auto
  note nv = newer_not_visiting [OF "1.prems"(2)]
  show ?case
    using "1.IH" [OF _ _ nv tb b _ "1.prems"(1) newer_parents [OF "1.prems"(1,2) b] "1.prems"(3)] nv b tb
    by (simp add: linked_inner.simps del: not_None_eq split: option.split)
next
  case (3 blocks cache fr target tr visiting incomplete p ps)
  then obtain b where b: "map_of blocks p = Some b" by (auto simp: newer_def)
  have rest: "\<forall>q \<in> set ps. newer blocks visiting q" and p: "newer blocks visiting p" using "3.prems"(2) by simp_all
  show ?case
  proof (cases "cert_round b < tr")
    case True
    with "3.IH"(2) [OF b True "3.prems"(1) rest "3.prems"(3,4)] b show ?thesis by (simp add: linked_loop.simps)
  next
    case False
    from "3.IH"(3) [OF b False "3.prems"(1) p "3.prems"(3)] obtain c1 v where
      inner: "linked_inner blocks cache p target visiting = (c1, Some v)"
      by (cases "linked_inner blocks cache p target visiting") auto
    show ?thesis
    proof (cases v)
      case False
      with "3.IH"(5) [OF b \<open>\<not> cert_round b < tr\<close> inner [symmetric] _ _ "3.prems"(1) rest "3.prems"(3,4)] inner b
        \<open>\<not> cert_round b < tr\<close> show ?thesis by (simp add: linked_loop.simps)
    qed (use inner b False in \<open>simp add: linked_loop.simps\<close>)
  qed
qed (simp add: linked_loop.simps)

lemma linked_complete:
  assumes "mahi_history c F B" and "mahi_node_ok c B d" and "contains_key (by_digest d) x" and "contains_key (by_digest d) y"
  shows "\<exists>d'. mahi_linked d x y = (d', Some (links_to B x y)) \<and> mahi_store_ok c B d' \<and> same_blocks d d'"
proof -
  obtain d' res where run: "mahi_linked d x y = (d', res)" by fastforce
  have "newer (by_digest d) [] x" using assms(3) by (auto simp: newer_def contains_key_def)
  from linked_complete_mutual(1) [OF node_closed_store [OF assms(1,2)] this, of y "link_cache d"] assms(4) run obtain v where "res = Some v"
    by (auto simp: mahi_linked_def Let_def contains_key_def)
  moreover have "mahi_store_ok c B d" using assms(2) by (simp add: mahi_node_ok_def)
  ultimately show ?thesis using linked_sound [OF assms(1) _ run] run by auto
qed

lemma is_vote_complete:
  assumes "mahi_history c F B" and "mahi_node_ok c B d" and "contains_key (by_digest d) x" and "contains_key (by_digest d) l"
  shows "\<exists>d' v. is_vote d x l = (d', Some v)"
proof -
  obtain lb where "map_of (by_digest d) l = Some lb" using assms(4) by (auto simp: contains_key_def)
  with find_support_complete [OF assms(1-3), of "cert_origin lb" "cert_round lb"] show ?thesis by (auto simp: is_vote_def Let_def)
qed

lemma certificate_loop_complete:
  assumes "mahi_history c F B" and "mahi_node_ok c B d" and "contains_key (by_digest d) l"
    and "\<forall>p \<in> set ps. contains_key (by_digest d) p"
  shows "snd (certificate_loop c l r d voters weight False ps) \<noteq> None"
  using assms(2-4)
proof (induction ps arbitrary: d voters weight)
  case (Cons p ps)
  obtain b where b: "map_of (by_digest d) p = Some b" using Cons.prems(3) by (auto simp: contains_key_def)
  obtain d1 v where v: "is_vote d p l = (d1, Some v)"
    using is_vote_complete [OF assms(1) Cons.prems(1) _ Cons.prems(2), of p] Cons.prems(3) by auto
  have ok: "mahi_store_ok c B d" using Cons.prems(1) by (simp add: mahi_node_ok_def)
  from is_vote_sound [OF ok v] have same: "same_blocks d d1" and "mahi_store_ok c B d1" by auto
  then have d1: "mahi_node_ok c B d1" by (rule mahi_node_same [OF Cons.prems(1)])
  have k: "contains_key (by_digest d1) l" "\<forall>p \<in> set ps. contains_key (by_digest d1) p"
    using same Cons.prems(2,3) by (simp_all add: same_blocks_def)
  show ?case
    using Cons.IH [OF Cons.prems(1,2)] Cons.IH [OF d1 k] Cons.prems(3) b v by (cases v) (simp_all add: Let_def del: not_None_eq)
qed simp

lemma is_certificate_complete:
  assumes "mahi_history c F B" and "mahi_node_ok c B d" and "contains_key (by_digest d) x" and "contains_key (by_digest d) l"
  shows "\<exists>d'. is_certificate c d x l = (d', Some (certifies c B x l)) \<and> mahi_node_ok c B d' \<and> same_blocks d d'"
proof -
  obtain d' res where run: "is_certificate c d x l = (d', res)" by fastforce
  obtain b where b: "map_of (by_digest d) x = Some b" using assms(3) by (auto simp: contains_key_def)
  have "\<forall>p \<in> set (h_parents (header b)). contains_key (by_digest d) p" using assms(2) b by (auto simp: mahi_node_ok_def)
  from certificate_loop_complete [OF assms(1,2,4) this, of "cert_round b - 1" "[]" 0] obtain y where
    "snd (certificate_loop c l (cert_round b - 1) d [] 0 False (h_parents (header b))) = Some y" by auto
  then have "snd (is_certificate c d x l) \<noteq> None" using b by (simp add: is_certificate_def Let_def split: option.split)
  then obtain v where v: "res = Some v" using run by auto
  have ok: "mahi_store_ok c B d" using assms(2) by (simp add: mahi_node_ok_def)
  from is_certificate_sound [OF assms(1) ok run] v have "mahi_store_ok c B d'" "same_blocks d d'" "v = certifies c B x l" by auto
  with run v mahi_node_same [OF assms(2)] show ?thesis by auto
qed

section \<open>The direct rule\<close>

definition local_authors :: "Blocks \<Rightarrow> Digest list \<Rightarrow> (Digest \<Rightarrow> bool) \<Rightarrow> PublicKey set" where
  "local_authors blocks xs P = {cert_origin b | x b. x \<in> set xs \<and> map_of blocks x = Some b \<and> P x}"

lemma local_authors_Nil [simp]: "local_authors blocks [] P = {}"
  by (simp add: local_authors_def)

lemma local_authors_Cons:
  "map_of blocks x = Some b \<Longrightarrow> local_authors blocks (x # xs) P =
     (if P x then insert (cert_origin b) (local_authors blocks xs P) else local_authors blocks xs P)"
  by (auto simp: local_authors_def)

lemma finite_local_authors [simp]: "finite (local_authors blocks xs P)"
proof (rule finite_subset)
  show "local_authors blocks xs P \<subseteq> (\<lambda>x. cert_origin (the (map_of blocks x))) ` set xs"
    by (force simp: local_authors_def)
qed simp

lemma local_authors_round:
  "mahi_index_ok d \<Longrightarrow> local_authors (by_digest d) (round_digests d k) P = authors_at (map_of (by_digest d)) k P"
  unfolding local_authors_def authors_at_def by (intro Collect_cong) (fastforce simp: round_digests_ok)

text \<open>One counted author of the evidence loops.\<close>

lemma quorum_step:
  assumes "committee_ok c" and "distinct authors" and "a \<notin> set authors" and "weight = sum_list (map (stake c) authors)"
  shows "quorum_threshold c \<le> weight + stake c a \<longleftrightarrow> has_quorum c (set (a # authors))"
  using has_quorum_list [OF assms(1), of "a # authors"] assms(2-4) by (simp add: add.commute)

lemma commit_evidence_exact:
  assumes "mahi_history c F B" and "mahi_node_ok c B d" and "contains_key (by_digest d) l"
    and "\<forall>x \<in> set xs. contains_key (by_digest d) x"
    and "distinct authors" and "weight = sum_list (map (stake c) authors)" and "\<not> has_quorum c (set authors)"
  shows "\<exists>d'. commit_evidence c l d authors weight xs =
      Inr (d', has_quorum c (set authors \<union> local_authors (by_digest d) xs (\<lambda>x. certifies c B x l))) \<and>
    mahi_node_ok c B d' \<and> same_blocks d d'"
  using assms(2-)
proof (induction xs arbitrary: d authors weight)
  case (Cons x xs)
  note c = mahi_committee [OF assms(1)]
  obtain b where b: "map_of (by_digest d) x = Some b" using Cons.prems(3) by (auto simp: contains_key_def)
  obtain d1 where v: "is_certificate c d x l = (d1, Some (certifies c B x l))" "mahi_node_ok c B d1" "same_blocks d d1"
    using is_certificate_complete [OF assms(1) Cons.prems(1) _ Cons.prems(2), of x] Cons.prems(3) by auto
  have same: "by_digest d1 = by_digest d" using v(3) by (simp add: same_blocks_def)
  have k: "contains_key (by_digest d1) l" "\<forall>x \<in> set xs. contains_key (by_digest d1) x" using Cons.prems(2,3) by (simp_all add: same)
  note IH = Cons.IH [OF v(2) k, unfolded same]
  let ?P = "\<lambda>x. certifies c B x l"
  consider (no) "\<not> ?P x" | (old) "?P x" "cert_origin b \<in> set authors" | (new) "?P x" "cert_origin b \<notin> set authors" by blast
  then show ?case
  proof cases
    case no
    with IH [OF Cons.prems(4-6)] v b show ?thesis by (auto simp: local_authors_Cons intro: same_blocks_trans)
  next
    case old
    have "\<not> quorum_threshold c \<le> weight" using has_quorum_list [OF c Cons.prems(4)] Cons.prems(5,6) by simp
    with IH [OF Cons.prems(4-6)] v b old show ?thesis
      by (auto simp: local_authors_Cons insert_absorb same expect_def Let_def List.insert_def intro: same_blocks_trans)
  next
    case new
    note q = quorum_step [OF c Cons.prems(4) new(2) Cons.prems(5)]
    show ?thesis
    proof (cases "has_quorum c (set (cert_origin b # authors))")
      case True
      then have "has_quorum c (set authors \<union> local_authors (by_digest d) (x # xs) ?P)"
        by (rule has_quorum_mono) (use new(1) b in \<open>auto simp: local_authors_Cons\<close>)
      with True q v b new show ?thesis by (simp add: same expect_def Let_def)
    next
      case False
      have "commit_evidence c l d authors weight (x # xs) =
          commit_evidence c l d1 (cert_origin b # authors) (weight + stake c (cert_origin b)) xs"
        using False q v(1) b new by (simp add: same expect_def Let_def)
      moreover have "set authors \<union> local_authors (by_digest d) (x # xs) ?P =
          set (cert_origin b # authors) \<union> local_authors (by_digest d) xs ?P" using new(1) b by (simp add: local_authors_Cons)
      ultimately show ?thesis
        using IH [of "cert_origin b # authors" "weight + stake c (cert_origin b)"] Cons.prems(4,5) new(2) False v(3)
        by (auto intro: same_blocks_trans)
    qed
  qed
qed auto

lemma supported_candidates_exact:
  assumes "mahi_history c F B" and "mahi_node_ok c B d" and "\<forall>l \<in> set ls. contains_key (by_digest d) l"
    and "\<forall>x \<in> set xs. contains_key (by_digest d) x"
  shows "\<exists>d'. supported_candidates c xs d ls =
      Inr (d', filter (\<lambda>l. has_quorum c (local_authors (by_digest d) xs (\<lambda>x. certifies c B x l))) ls) \<and>
    mahi_node_ok c B d' \<and> same_blocks d d'"
  using assms(2-)
proof (induction ls arbitrary: d)
  case (Cons l ls)
  from commit_evidence_exact [OF assms(1) Cons.prems(1) _ Cons.prems(3), of l "[]" 0] Cons.prems(2)
    not_quorum_empty [OF mahi_committee [OF assms(1)]] obtain d1 where
    d1: "commit_evidence c l d [] 0 xs = Inr (d1, has_quorum c (local_authors (by_digest d) xs (\<lambda>x. certifies c B x l)))"
      "mahi_node_ok c B d1" "same_blocks d d1" by auto
  have same: "by_digest d1 = by_digest d" using d1(3) by (simp add: same_blocks_def)
  from Cons.IH [OF d1(2)] Cons.prems obtain d2 where
    "supported_candidates c xs d1 ls =
       Inr (d2, filter (\<lambda>l. has_quorum c (local_authors (by_digest d) xs (\<lambda>x. certifies c B x l))) ls)"
    "mahi_node_ok c B d2" "same_blocks d1 d2" unfolding same by auto
  with d1 show ?case by (auto intro: same_blocks_trans)
qed simp

lemma skip_evidence_exact:
  assumes "mahi_history c F B" and "mahi_node_ok c B d" and "\<forall>x \<in> set xs. contains_key (by_digest d) x"
    and "distinct authors" and "weight = sum_list (map (stake c) authors)" and "\<not> has_quorum c (set authors)"
  shows "\<exists>d'. skip_evidence c a r d authors weight xs =
      Inr (d', has_quorum c (set authors \<union> local_authors (by_digest d) xs (\<lambda>x. supports B a r x None))) \<and>
    mahi_node_ok c B d' \<and> same_blocks d d'"
  using assms(2-)
proof (induction xs arbitrary: d authors weight)
  case (Cons x xs)
  note c = mahi_committee [OF assms(1)]
  obtain b where b: "map_of (by_digest d) x = Some b" using Cons.prems(2) by (auto simp: contains_key_def)
  obtain d1 u where v: "find_support d x a r = (d1, Some u)" "supports B a r x u" "mahi_store_ok c B d1" "same_blocks d d1"
    using find_support_complete [OF assms(1) Cons.prems(1), of x a r] Cons.prems(2) by auto
  have u: "u = None \<longleftrightarrow> supports B a r x None" using v(2) supports_unique(1) by blast
  have same: "by_digest d1 = by_digest d" using v(4) by (simp add: same_blocks_def)
  have d1: "mahi_node_ok c B d1" by (rule mahi_node_same [OF Cons.prems(1) v(4,3)])
  have k: "\<forall>x \<in> set xs. contains_key (by_digest d1) x" using Cons.prems(2) by (simp add: same)
  note IH = Cons.IH [OF d1 k, unfolded same]
  let ?P = "\<lambda>x. supports B a r x None"
  consider (no) "\<not> ?P x" | (old) "?P x" "cert_origin b \<in> set authors" | (new) "?P x" "cert_origin b \<notin> set authors" by blast
  then show ?case
  proof cases
    case no
    with IH [OF Cons.prems(3-5)] v(1,4) u b show ?thesis by (auto simp: local_authors_Cons intro: same_blocks_trans)
  next
    case old
    with IH [OF Cons.prems(3-5)] v(1,4) u b show ?thesis
      by (auto simp: local_authors_Cons insert_absorb same expect_def Let_def intro: same_blocks_trans)
  next
    case new
    note q = quorum_step [OF c Cons.prems(3) new(2) Cons.prems(4)]
    show ?thesis
    proof (cases "has_quorum c (set (cert_origin b # authors))")
      case True
      then have "has_quorum c (set authors \<union> local_authors (by_digest d) (x # xs) ?P)"
        by (rule has_quorum_mono) (use new(1) b in \<open>auto simp: local_authors_Cons\<close>)
      with True q v(1,4) u d1 b new show ?thesis by (simp add: same expect_def Let_def)
    next
      case False
      have "skip_evidence c a r d authors weight (x # xs) =
          skip_evidence c a r d1 (cert_origin b # authors) (weight + stake c (cert_origin b)) xs"
        using False q v(1) u b new by (simp add: same expect_def Let_def)
      moreover have "set authors \<union> local_authors (by_digest d) (x # xs) ?P =
          set (cert_origin b # authors) \<union> local_authors (by_digest d) xs ?P" using new(1) b by (simp add: local_authors_Cons)
      ultimately show ?thesis
        using IH [of "cert_origin b # authors" "weight + stake c (cert_origin b)"] Cons.prems(3,4) new(2) False v(4)
        by (auto intro: same_blocks_trans)
    qed
  qed
qed auto

text \<open>The evidence for a slot in the blocks a node holds.\<close>

definition local_commit :: "Committee \<Rightarrow> blocks_of_all \<Rightarrow> MahiDag \<Rightarrow> Round \<Rightarrow> PublicKey \<Rightarrow> Round \<Rightarrow> Digest \<Rightarrow> bool" where
  "local_commit c B d w a r l \<longleftrightarrow> slot_block (map_of (by_digest d)) a r l \<and>
     has_quorum c (authors_at (map_of (by_digest d)) (r + w - 1) (\<lambda>x. certifies c B x l))"

definition local_skip :: "Committee \<Rightarrow> blocks_of_all \<Rightarrow> MahiDag \<Rightarrow> Round \<Rightarrow> PublicKey \<Rightarrow> Round \<Rightarrow> bool" where
  "local_skip c B d w a r \<longleftrightarrow> has_quorum c (authors_at (map_of (by_digest d)) (r + w - 2) (\<lambda>x. supports B a r x None))"

lemma authors_at_held:
  assumes "mahi_history c F B" and "mahi_node_ok c B d" and "has_quorum c (authors_at (map_of (by_digest d)) r P)"
  shows "has_quorum c (authors_at B r P)"
  using assms(3)
proof (rule has_quorum_mono)
  show "authors_at (map_of (by_digest d)) r P \<subseteq> authors_at B r P"
    using mahi_node_block [OF assms(2)] by (fastforce simp: authors_at_def)
qed (rule mahi_finite_authors [OF assms(1)])

lemma local_commit_direct:
  "mahi_history c F B \<Longrightarrow> mahi_node_ok c B d \<Longrightarrow> local_commit c B d w a r l \<Longrightarrow> direct_commit c B w a r l"
  using mahi_node_block authors_at_held by (fastforce simp: local_commit_def direct_commit_def slot_block_def)

lemma local_skip_direct:
  "mahi_history c F B \<Longrightarrow> mahi_node_ok c B d \<Longrightarrow> local_skip c B d w a r \<Longrightarrow> direct_skip c B w a r"
  using authors_at_held by (simp add: local_skip_def direct_skip_def)

lemma local_commits_equal:
  assumes "mahi_history c F B" and "mahi_node_ok c B d" and "2 \<le> w"
    and "local_commit c B d w a r l" and "local_commit c B d w a r l'"
  shows "l = l'"
proof -
  note dc = local_commit_direct [OF assms(1,2)]
  show ?thesis
    by (rule slot_votes_unique [OF assms(1) direct_commit_slot [OF dc [OF assms(4)]] direct_commit_slot [OF dc [OF assms(5)]]
          direct_commit_votes [OF assms(1) dc [OF assms(4)] assms(3)] direct_commit_votes [OF assms(1) dc [OF assms(5)] assms(3)]])
qed

lemma local_commit_no_skip:
  assumes "mahi_history c F B" and "mahi_node_ok c B d" and "2 \<le> w" and "local_commit c B d w a r l"
  shows "\<not> local_skip c B d w a r"
proof -
  note dc = local_commit_direct [OF assms(1,2,4)]
  show ?thesis
    using skip_excludes_votes [OF assms(1) direct_commit_slot [OF dc]] direct_commit_votes [OF assms(1) dc assms(3)]
      local_skip_direct [OF assms(1,2)] by blast
qed

lemma direct_rule_exact:
  assumes "mahi_history c F B" and "mahi_node_ok c B (mc_dag mc)" and "w = mc_wave_length mc" and "2 \<le> w"
  shows "\<exists>mc' dec. direct_decision c mc slot = Inr (mc', dec) \<and>
    (\<forall>l. dec = Commit l \<longleftrightarrow> local_commit c B (mc_dag mc) w (ls_authority slot) (slot_round (ls_id slot)) l) \<and>
    (dec = Skip \<longleftrightarrow> local_skip c B (mc_dag mc) w (ls_authority slot) (slot_round (ls_id slot)))"
proof -
  let ?d = "mc_dag mc" and ?r = "slot_round (ls_id slot)" and ?a = "ls_authority slot"
  let ?C = "local_commit c B ?d w ?a ?r"
  have idx: "mahi_index_ok ?d" using assms(2) by (simp add: mahi_node_ok_def)
  have cand: "l \<in> set (slot_digests ?d ?a ?r) \<longleftrightarrow> slot_block (map_of (by_digest ?d)) ?a ?r l" for l
    by (simp add: slot_digests_ok(2) [OF idx] slot_block_def)
  have known: "\<forall>x \<in> set (round_digests ?d k). contains_key (by_digest ?d) x" for k
    by (auto simp: round_digests_ok [OF idx] contains_key_def)
  have "\<forall>l \<in> set (slot_digests ?d ?a ?r). contains_key (by_digest ?d) l" by (auto simp: cand slot_block_def contains_key_def)
  note exact = supported_candidates_exact [OF assms(1,2) this known [of "?r + w - 1"]]
  have "filter (\<lambda>l. has_quorum c (authors_at (map_of (by_digest ?d)) (?r + w - 1) (\<lambda>x. certifies c B x l))) (slot_digests ?d ?a ?r)
      = filter ?C (slot_digests ?d ?a ?r)"
    by (rule filter_cong) (simp_all add: local_commit_def cand)
  with exact obtain d1 where
    s: "supported_candidates c (round_digests ?d (?r + w - 1)) ?d (slot_digests ?d ?a ?r) = Inr (d1, filter ?C (slot_digests ?d ?a ?r))"
    "mahi_node_ok c B d1" "same_blocks ?d d1"
    unfolding local_authors_round [OF idx] by auto
  have all: "set (filter ?C (slot_digests ?d ?a ?r)) = {l. ?C l}" using cand by (auto simp: local_commit_def)
  have one: "length (filter ?C (slot_digests ?d ?a ?r)) \<le> 1"
    using local_commits_equal [OF assms(1,2,4)] slot_digests_ok(1) [OF idx] by (intro distinct_all_equal) auto
  show ?thesis
  proof (cases "filter ?C (slot_digests ?d ?a ?r) = []")
    case False
    let ?l = "last (filter ?C (slot_digests ?d ?a ?r))"
    have l: "?C ?l" using last_in_set [OF False] all by blast
    have "direct_decision c mc slot = Inr (mc\<lparr>mc_dag := d1\<rparr>, Commit ?l)"
      using s(1) one False assms(3) by (simp add: direct_decision_def Let_def)
    moreover have "Commit ?l = Commit l \<longleftrightarrow> ?C l" for l
      using l local_commits_equal [OF assms(1,2,4) l, of l] unfolding LeaderDecision.inject by blast
    ultimately show ?thesis using local_commit_no_skip [OF assms(1,2,4) l] by (metis LeaderDecision.distinct(1))
  next
    case True
    have q: "by_digest d1 = by_digest ?d" "round_digests d1 (?r + w - 2) = round_digests ?d (?r + w - 2)"
      using s(3) same_blocks_queries(2) [OF s(3)] by (simp_all add: same_blocks_def)
    from skip_evidence_exact [OF assms(1) s(2), of "round_digests d1 (?r + w - 2)" "[]" 0 ?a ?r] known
      not_quorum_empty [OF mahi_committee [OF assms(1)]] obtain d2 where
      "skip_evidence c ?a ?r d1 [] 0 (round_digests d1 (?r + w - 2)) = Inr (d2, local_skip c B ?d w ?a ?r)"
      unfolding q by (auto simp: local_authors_round [OF idx] local_skip_def)
    then have "direct_decision c mc slot = Inr (mc\<lparr>mc_dag := d2\<rparr>, if local_skip c B ?d w ?a ?r then Skip else Undecided)"
      using s(1) True assms(3) by (simp add: direct_decision_def Let_def)
    moreover have "\<not> ?C l" for l using all True by auto
    ultimately show ?thesis by simp
  qed
qed

end
