(* ===== verification/Mahi_Safety.thy ===== *)
theory Mahi_Safety
  imports Mahi_Agreement
begin

text \<open>
  The properties of whole Mahi-Mahi runs, and a concrete world in which they apply: four
  authorities that all reference all blocks of the previous round.
\<close>

section \<open>A concrete world\<close>

text \<open>A hash that separates the slots: the low bytes of the round and of the author.\<close>

definition slot_lib :: CryptoLib where
  "slot_lib = demo_lib\<lparr>sha512 := \<lambda>bs.
     (if length bs = 72 then replicate 30 0 @ [bs ! 32, bs ! 71] else take 32 bs) @ replicate 32 0\<rparr>"

definition grid_digest :: "nat \<Rightarrow> nat \<Rightarrow> Digest" where
  "grid_digest r k = Digest (word_of_nat (256 * r + k))"

definition grid_block :: "nat \<Rightarrow> nat \<Rightarrow> Certificate" where
  "grid_block r k = \<lparr>header = default_header\<lparr>h_author := PublicKey (word_of_nat k), h_round := r,
     h_parents := (if r = 0 then [] else map (grid_digest (r - 1)) [1, 2, 3, 4])\<rparr>, votes = []\<rparr>"

definition grid_round :: "nat \<Rightarrow> Certificate list" where
  "grid_round r = map (grid_block r) [1, 2, 3, 4]"

definition grid_pairs :: "nat \<Rightarrow> (Digest \<times> Certificate) list" where
  "grid_pairs R = concat (map (\<lambda>r. map (\<lambda>k. (grid_digest r k, grid_block r k)) [1, 2, 3, 4]) [0..<Suc R])"

definition grid :: "nat \<Rightarrow> blocks_of_all" where
  "grid R = map_of (grid_pairs R)"

lemma grid_block_simps [simp]:
  "cert_round (grid_block r k) = r" "cert_origin (grid_block r k) = PublicKey (word_of_nat k)"
  "h_parents (header (grid_block r k)) = (if r = 0 then [] else map (grid_digest (r - 1)) [1, 2, 3, 4])"
  "h_id (header (grid_block r k)) = default_digest"
  by (simp_all add: grid_block_def cert_round_def cert_origin_def default_header_def)

lemma grid_digest_inject:
  assumes "r < 256" and "r' < 256" and "k < 256" and "k' < 256"
  shows "grid_digest r k = grid_digest r' k' \<longleftrightarrow> r = r' \<and> k = k'"
proof -
  have "256 * r + k < 2 ^ 256" "256 * r' + k' < 2 ^ 256" using assms by (simp_all add: power_eq_if)
  then have "grid_digest r k = grid_digest r' k' \<longleftrightarrow> 256 * r + k = 256 * r' + k'"
    unfolding grid_digest_def Digest.inject word_of_nat_eq_iff by (simp add: take_bit_nat_eq_self del: of_nat_add of_nat_mult)
  moreover have "256 * r + k = 256 * r' + k' \<longleftrightarrow> r = r' \<and> k = k'"
  proof
    assume "256 * r + k = 256 * r' + k'"
    from arg_cong [OF this, of "\<lambda>n. n div 256"] arg_cong [OF this, of "\<lambda>n. n mod 256"] assms(3,4)
    show "r = r' \<and> k = k'" by simp
  qed simp
  ultimately show ?thesis by simp
qed

lemma last_key_byte: "k < 256 \<Longrightarrow> key_bytes (PublicKey (word_of_nat k)) ! 31 = word_of_nat k"
proof -
  assume "k < 256"
  then have "k < 2 ^ 256" by (simp add: power_eq_if)
  then have "unat (word_of_nat k :: 256 word) = k" by (simp add: unat_of_nat take_bit_nat_eq_self)
  then have "key_bytes (PublicKey (word_of_nat k)) ! 31 = le_bytes 32 k ! 0"
    by (simp add: key_bytes_def bytes32_def rev_nth)
  also have "\<dots> = word_of_nat k" using le_bytes.simps(2) [of 31 k] by simp
  finally show ?thesis .
qed

lemma nat_of_le_bytes_zeros: "nat_of_le_bytes (bs @ replicate n 0) = nat_of_le_bytes bs"
proof (induction bs)
  case Nil
  show ?case by (induction n) simp_all
qed simp

lemma grid_block_digest:
  assumes "r < 256" and "k < 256"
  shows "cert_digest slot_lib (grid_block r k) = grid_digest r k"
proof -
  let ?pre = "cert_preimage (grid_block r k)"
  have "?pre ! 32 = word_of_nat r"
    using le_bytes.simps(2) [of 7 r] by (simp add: cert_preimage_def nth_append)
  moreover have "?pre ! 71 = word_of_nat k"
    using last_key_byte [OF assms(2)] by (simp add: cert_preimage_def nth_append)
  ultimately have "take 32 (sha512 slot_lib ?pre) = replicate 30 0 @ [word_of_nat r, word_of_nat k]"
    by (simp add: slot_lib_def) (simp add: cert_preimage_def)
  moreover have "nat_of_le_bytes ([word_of_nat k, word_of_nat r] @ replicate 30 0) = 256 * r + k"
    using assms unfolding nat_of_le_bytes_zeros by (simp add: unat_of_nat take_bit_eq_mod)
  ultimately show ?thesis
    by (simp add: cert_digest_def sha_digest_def word32_def grid_digest_def)
qed

lemma grid_pairs: "(d, b) \<in> set (grid_pairs R) \<longleftrightarrow> (\<exists>r \<le> R. \<exists>k \<in> {1, 2, 3, 4}. d = grid_digest r k \<and> b = grid_block r k)"
  unfolding grid_pairs_def set_concat set_map set_upt atLeast0LessThan by (auto simp: less_Suc_eq_le)

lemma grid_SomeD:
  assumes "grid R d = Some b"
  obtains r k where "r \<le> R" and "k \<in> {1, 2, 3, 4}" and "d = grid_digest r k" and "b = grid_block r k"
proof -
  have "(d, b) \<in> set (grid_pairs R)" using assms unfolding grid_def by (rule map_of_SomeD)
  then show thesis using that unfolding grid_pairs by blast
qed

lemma grid_Some:
  assumes "R < 256" and "r \<le> R" and "k \<in> {1, 2, 3, 4}"
  shows "grid R (grid_digest r k) = Some (grid_block r k)"
proof -
  have "(grid_digest r k, grid_block r k) \<in> set (grid_pairs R)" using assms(2,3) by (auto simp: grid_pairs)
  then obtain b where b: "grid R (grid_digest r k) = Some b" unfolding grid_def by (metis weak_map_of_SomeI)
  then obtain r' k' where k': "r' \<le> R" "k' \<in> {1, 2, 3, 4}" "grid_digest r k = grid_digest r' k'" "b = grid_block r' k'"
    by (rule grid_SomeD)
  moreover from this have "r = r' \<and> k = k'" using assms grid_digest_inject [of r r' k k'] by auto
  ultimately show ?thesis using b by simp
qed

lemma grid_history:
  assumes "R < 256"
  shows "mahi_history demo_committee {} (grid R)"
proof -
  have "mahi_block_ok demo_committee (grid R) b" if b: "grid R d = Some b" for d b
  proof -
    obtain r k where rk: "r \<le> R" "k \<in> {1, 2, 3, 4}" "b = grid_block r k" by (rule grid_SomeD [OF b])
    show ?thesis
    proof (cases r)
      case (Suc n)
      have h: "h_round (header (grid_block (Suc n) k)) = Suc n" by (simp flip: cert_round_def)
      have "those (map (grid R) (h_parents (header b))) = Some (grid_round n)"
        using rk Suc assms by (simp add: grid_Some grid_round_def)
      moreover have "validate_mahi_parents (header (grid_block (Suc n) k)) (grid_round n) demo_committee = Inr ()"
        by (simp add: validate_mahi_parents_def grid_round_def h demo_keys_def ensure_def)
      ultimately show ?thesis using rk Suc by (simp add: mahi_block_ok_def)
    qed (use rk in \<open>simp add: mahi_block_ok_def\<close>)
  qed
  moreover have "d = d'" if d: "grid R d = Some b" and d': "grid R d' = Some b'" and same: "cert_round b = cert_round b'"
    "cert_origin b = cert_origin b'" for d d' b b'
  proof -
    obtain r k where b: "k \<in> {1, 2, 3, 4}" "d = grid_digest r k" "b = grid_block r k" by (rule grid_SomeD [OF d])
    obtain r' k' where b': "k' \<in> {1, 2, 3, 4}" "d' = grid_digest r' k'" "b' = grid_block r' k'" by (rule grid_SomeD [OF d'])
    have "(word_of_nat k :: 256 word) = word_of_nat k'" using same(2) b b' by simp
    then have "k = k'" using b(1) b'(1) by auto
    then show ?thesis using same(1) b b' by simp
  qed
  moreover have "finite (dom (grid R))" by (simp add: grid_def finite_dom_map_of)
  ultimately show ?thesis by (simp add: mahi_history_def)
qed

definition grid_node :: "nat \<Rightarrow> Consensus" where
  "grid_node n = demo_consensus MahiMahi4 RoundRobin (PublicKey (word_of_nat n))"

lemma slot_lib_bls: "bls_unique slot_lib"
  using demo_lib_bls(2) by (simp add: bls_unique_def slot_lib_def)

lemma grid_spawn:
  "spawn_with_protocol slot_lib (PublicKey (word_of_nat n)) demo_committee 50 MahiMahi4 RoundRobin = Inr (grid_node n)"
  by (simp add: spawn_with_protocol_def grid_node_def demo_consensus_def Let_def)

lemma grid_genesis: "genesis demo_committee = grid_round 0"
  by (simp add: genesis_def grid_round_def grid_block_def demo_keys_def default_header_def)

lemma grid_genesis_known: "R < 256 \<Longrightarrow> \<forall>g \<in> set (genesis demo_committee). grid R (cert_digest slot_lib g) = Some g"
  by (simp add: grid_genesis grid_round_def grid_block_digest grid_Some)

lemma grid_digests: "R < 256 \<Longrightarrow> grid R d = Some b \<Longrightarrow> cert_digest slot_lib b = d"
  by (erule grid_SomeD) (auto simp: grid_block_digest)

text \<open>Rounds delivered one after the other.\<close>

lemma delivered_append:
  "delivered lib B K (xs @ ys) \<longleftrightarrow> delivered lib B K xs \<and> delivered lib B (K \<union> cert_digest lib ` set xs) ys"
  by (induction xs arbitrary: K) auto

lemma grid_delivered:
  assumes "R < 256" and "n \<le> R"
  shows "delivered slot_lib (grid R) (cert_digest slot_lib ` set (genesis demo_committee)) (concat (map grid_round [1..<Suc n]))"
  using assms(2)
proof (induction n)
  case (Suc n)
  have "set (grid_round n) \<subseteq> set (genesis demo_committee) \<union> set (concat (map grid_round [1..<Suc n]))"
    by (cases n) (auto simp: grid_genesis)
  then have "cert_digest slot_lib ` set (grid_round n) \<subseteq>
      cert_digest slot_lib ` set (genesis demo_committee) \<union> cert_digest slot_lib ` set (concat (map grid_round [1..<Suc n]))" by auto
  then have "delivered slot_lib (grid R)
      (cert_digest slot_lib ` set (genesis demo_committee) \<union> cert_digest slot_lib ` set (concat (map grid_round [1..<Suc n])))
      (grid_round (Suc n))"
    using Suc.prems assms(1) by (simp add: grid_round_def grid_block_digest grid_Some)
  then show ?case using Suc by (simp add: delivered_append)
qed simp

section \<open>Agreement and order\<close>

lemma delivered_known:
  "delivered lib B K xs \<Longrightarrow> x \<in> set xs \<Longrightarrow> B (cert_digest lib x) = Some x"
  by (induction xs arbitrary: K) auto

lemma world_elects_fun: "mahi_world_ok F W \<Longrightarrow> world_elects W s a \<Longrightarrow> world_elects W s a' \<Longrightarrow> a = a'"
  using mahi_elects_fun by (simp add: mahi_world_ok_def) blast

lemma decisions_comparable:
  assumes "mahi_world_ok F W" and "mahi_run_inv W s ds" and "mahi_run_inv W s' ds'"
  shows "prefix ds ds' \<or> prefix ds' ds"
proof -
  have W: "mahi_history (mw_committee W) F (mw_blocks W)" "2 \<le> mw_wave W" using assms(1) by (simp_all add: mahi_world_ok_def)
  have "ds ! k = ds' ! k" if "k < length ds" "k < length ds'" for k
  proof (rule justified_agree [OF W])
    show "world_justified W (slot_of k) (ds ! k)" "world_justified W (slot_of k) (ds' ! k)"
      using assms(2,3) that by (simp_all add: mahi_run_inv_def)
  qed (rule world_elects_fun [OF assms(1)])
  then have "take (min (length ds) (length ds')) ds = take (min (length ds) (length ds')) ds'"
    by (intro nth_equalityI) simp_all
  then show ?thesis by (metis min.cobounded1 min.cobounded2 min_def take_all_iff take_is_prefix)
qed

lemma world_output_prefix: "prefix ds ds' \<Longrightarrow> prefix (world_output W ds) (world_output W ds')"
  by (auto simp: prefix_def world_output_def spec_output_append)

text \<open>
  C1. Total order of Mahi-Mahi.  Take any collection of validated blocks in which fewer
  than a third of the stake signs two blocks a round, and two nodes with the same settings
  that receive blocks of it, each after its parents.  Neither node panics, whatever it
  receives and in whatever order, and one of the two output sequences is a prefix of the
  other.
\<close>

theorem mahi_total_order:
  assumes "mahi_history c F B" and "bls_unique lib" and "is_mahi_mahi dp"
    and "spawn_with_protocol lib n c gc dp cp = Inr con" and "spawn_with_protocol lib n' c gc dp cp = Inr con'"
    and "\<forall>g \<in> set (genesis c). B (cert_digest lib g) = Some g"
    and "delivered lib B (cert_digest lib ` set (genesis c)) xs"
    and "delivered lib B (cert_digest lib ` set (genesis c)) ys"
  shows "\<exists>s out s' out'. mahi_run lib con xs = Inr (s, out) \<and> mahi_run lib con' ys = Inr (s', out') \<and>
    (prefix out out' \<or> prefix out' out)"
proof -
  let ?W = "world_of lib c con B"
  from mahi_run_sound [OF assms(1-4,4,6,7)] obtain s ds where
    x: "mahi_run lib con xs = Inr (s, world_output ?W ds)" "mahi_run_inv ?W s ds" by blast
  from mahi_run_sound [OF assms(1-3,5,4,6,8)] obtain s' ds' where
    y: "mahi_run lib con' ys = Inr (s', world_output ?W ds')" "mahi_run_inv ?W s' ds'" by blast
  have W: "mahi_world_ok F ?W" by (rule world_of_ok [OF assms(1,2,4,3,6)])
  have "prefix (world_output ?W ds) (world_output ?W ds') \<or> prefix (world_output ?W ds') (world_output ?W ds)"
    using decisions_comparable [OF W x(2) y(2)] world_output_prefix by blast
  with x(1) y(1) show ?thesis by blast
qed

theorem mahi_total_order_witness:
  "\<exists>s out s' out'. mahi_run slot_lib (grid_node 1) (concat (map grid_round [1..<7])) = Inr (s, out) \<and>
    mahi_run slot_lib (grid_node 2) (concat (map grid_round [1..<5])) = Inr (s', out') \<and>
    (prefix out out' \<or> prefix out' out)"
proof (rule mahi_total_order [OF grid_history [of 6] slot_lib_bls _ grid_spawn grid_spawn grid_genesis_known])
  show "delivered slot_lib (grid 6) (cert_digest slot_lib ` set (genesis demo_committee)) (concat (map grid_round [1..<7]))"
    using grid_delivered [of 6 6] by simp
  show "delivered slot_lib (grid 6) (cert_digest slot_lib ` set (genesis demo_committee)) (concat (map grid_round [1..<5]))"
    using grid_delivered [of 6 4] by simp
qed (simp_all add: is_mahi_mahi_def)

text \<open>
  C2. The committer implements the abstract commit rule.  A run without panic outputs the
  linearization of a list of decisions for the slots in their order, each of them derivable
  in the abstract rule over all blocks that exist, whatever part of them the node held, and
  so is every decision in its table.
\<close>

theorem mahi_run_refines:
  assumes "mahi_history c F B" and "bls_unique lib" and "is_mahi_mahi dp" and "mahi_mahi_wave_length dp = Some w"
    and "spawn_with_protocol lib n c gc dp cp = Inr con"
    and "\<forall>g \<in> set (genesis c). B (cert_digest lib g) = Some g"
    and "delivered lib B (cert_digest lib ` set (genesis c)) xs"
  shows "\<exists>con' mc ds.
    mahi_run lib con xs = Inr ((con', mc), map (\<lambda>x. the (B x)) (spec_output B (cert_digest lib ` set (genesis c)) ds)) \<and>
    mc_last_decided mc = last_slot (length ds) \<and>
    (\<forall>k < length ds. justified c B w (mahi_elects lib con w) (slot_of k) (ds ! k)) \<and>
    (\<forall>slot d. map_of (mc_decisions mc) slot = Some d \<longrightarrow> is_decided d \<longrightarrow> justified c B w (mahi_elects lib con w) slot d)"
proof -
  have e: "con_dag_protocol con = dp" using spawn_electable [OF assms(5,3)] by simp
  from mahi_run_sound [OF assms(1-3,5,5,6,7)] obtain s ds where
    "mahi_run lib con xs = Inr (s, world_output (world_of lib c con B) ds)" "mahi_run_inv (world_of lib c con B) s ds" by blast
  then show ?thesis
    using assms(4) e
    by (intro exI [of _ "fst s"] exI [of _ "snd s"] exI [of _ ds])
      (auto simp: world_output_def world_of_def mahi_run_inv_def decisions_ok_def decision_ok_def)
qed

theorem mahi_run_refines_witness:
  "\<exists>con mc ds. mahi_run slot_lib (grid_node 1) (concat (map grid_round [1..<7])) =
      Inr ((con, mc), map (\<lambda>x. the (grid 6 x)) (spec_output (grid 6) (cert_digest slot_lib ` set (genesis demo_committee)) ds))"
proof -
  have "delivered slot_lib (grid 6) (cert_digest slot_lib ` set (genesis demo_committee)) (concat (map grid_round [1..<7]))"
    using grid_delivered [of 6 6] by simp
  with mahi_run_refines [OF grid_history [of 6] slot_lib_bls _ _ grid_spawn [of 1] grid_genesis_known] show ?thesis
    by (fastforce simp: is_mahi_mahi_def)
qed

text \<open>
  C3. Causal output.  A run outputs only delivered blocks, each block once, and every
  parent of a block before the block itself, unless it is a genesis block.
\<close>

theorem mahi_output_causal:
  assumes "mahi_history c F B" and "bls_unique lib" and "is_mahi_mahi dp"
    and "spawn_with_protocol lib n c gc dp cp = Inr con"
    and "\<forall>g \<in> set (genesis c). B (cert_digest lib g) = Some g" and "\<forall>d b. B d = Some b \<longrightarrow> cert_digest lib b = d"
    and "delivered lib B (cert_digest lib ` set (genesis c)) xs"
  shows "\<exists>s out. mahi_run lib con xs = Inr (s, out) \<and> distinct (map (cert_digest lib) out) \<and> set out \<subseteq> set xs \<and>
    (\<forall>ys b zs. out = ys @ b # zs \<longrightarrow> set (h_parents (header b)) \<subseteq> cert_digest lib ` (set (genesis c) \<union> set ys))"
proof -
  let ?W = "world_of lib c con B" and ?G = "cert_digest lib ` set (genesis c)"
  from mahi_run_sound [OF assms(1-4,4,5,7)] obtain s ds where
    run: "mahi_run lib con xs = Inr (s, world_output ?W ds)" "mahi_run_inv ?W s ds"
    and held: "held (mc_dag (snd s)) = cert_digest lib ` (set (genesis c) \<union> set xs)" by blast
  define ks where "ks = spec_output B ?G ds"
  have out: "world_output ?W ds = map (\<lambda>x. the (B x)) ks" by (simp add: world_output_def world_of_def ks_def)
  have fin: "finite (dom B)" using assms(1) by (simp add: mahi_history_def)
  have "parent_closed B ?G" using world_of_ok [OF assms(1,2,4,3,5)] by (simp add: mahi_world_ok_def world_of_def)
  then have causal: "causal B ?G ks" unfolding ks_def by (rule spec_output_causal [OF assms(1)])
  have "spec_emitted B ?G ds \<subseteq> held (mc_dag (snd s))" using run(2) by (auto simp: mahi_run_inv_def world_of_def)
  then have ks: "set ks \<subseteq> cert_digest lib ` set xs" "distinct ks"
    using spec_output_set [OF fin, of ?G ds] unfolding held ks_def by auto
  have known: "\<exists>b \<in> set xs. B x = Some b" if "x \<in> set ks" for x
    using ks(1) that delivered_known [OF assms(7)] by auto
  then have dig: "map (cert_digest lib) (map (\<lambda>x. the (B x)) ks) = ks"
    using assms(6) by (fastforce intro!: map_idI simp: comp_def)
  have "set (h_parents (header b)) \<subseteq> cert_digest lib ` (set (genesis c) \<union> set ys)" if eq: "map (\<lambda>x. the (B x)) ks = ys @ b # zs" for ys b zs
  proof -
    from eq dig have split: "ks = map (cert_digest lib) ys @ cert_digest lib b # map (cert_digest lib) zs" by simp
    from eq have "b \<in> (\<lambda>x. the (B x)) ` set ks" by (metis in_set_conv_decomp set_map)
    then have "B (cert_digest lib b) = Some b" using known assms(6) by fastforce
    then have "p \<in> ?G \<union> set (map (cert_digest lib) ys)" if "p \<in> set (h_parents (header b))" for p
      using causal that split unfolding causal_def parent_of_def by blast
    then show ?thesis by auto
  qed
  moreover have "set (map (\<lambda>x. the (B x)) ks) \<subseteq> set xs" using known by fastforce
  ultimately show ?thesis
    using run(1) ks(2) dig unfolding out by (intro exI [of _ s] exI [of _ "map (\<lambda>x. the (B x)) ks"]) (simp del: map_map)
qed

theorem mahi_output_causal_witness:
  "\<exists>s out. mahi_run slot_lib (grid_node 1) (concat (map grid_round [1..<7])) = Inr (s, out) \<and>
    distinct (map (cert_digest slot_lib) out) \<and> set out \<subseteq> set (concat (map grid_round [1..<7]))"
proof -
  have "delivered slot_lib (grid 6) (cert_digest slot_lib ` set (genesis demo_committee)) (concat (map grid_round [1..<7]))"
    using grid_delivered [of 6 6] by simp
  with mahi_output_causal [OF grid_history [of 6] slot_lib_bls _ grid_spawn [of 1] grid_genesis_known] show ?thesis
    using grid_digests [of 6] by (fastforce simp: is_mahi_mahi_def)
qed

end
