(* ===== verification/Mahi_Liveness.thy ===== *)
theory Mahi_Liveness
  imports Mahi_Complete Mahi_Safety
begin

text \<open>
  Progress of the Mahi-Mahi committer: what a node with the parents of all its blocks
  decides, and the only reasons for which a run stops before a slot.
\<close>

section \<open>Stores for concrete runs\<close>

definition store_of :: "CryptoLib \<Rightarrow> Certificate list \<Rightarrow> Certificate list \<Rightarrow> MahiDag" where
  "store_of lib gs xs = foldl (\<lambda>d x. fst (mahi_insert lib d x)) (mahi_dag_new lib gs) xs"

lemma store_of_ok:
  assumes "delivered lib B (held d) xs" and "mahi_node_ok c B d"
  shows "mahi_node_ok c B (foldl (\<lambda>d x. fst (mahi_insert lib d x)) d xs) \<and>
    held (foldl (\<lambda>d x. fst (mahi_insert lib d x)) d xs) = held d \<union> cert_digest lib ` set xs"
  using assms
proof (induction xs arbitrary: d)
  case (Cons x xs)
  with mahi_insert_ok [OF Cons.prems(2), of lib x] show ?case by auto
qed simp

definition grid_store :: "nat \<Rightarrow> MahiDag" where
  "grid_store n = store_of slot_lib (genesis demo_committee) (concat (map grid_round [1..<Suc n]))"

definition grid_committer :: "nat \<Rightarrow> MahiCommitter" where
  "grid_committer n = (mahi_committer_new slot_lib (genesis demo_committee) 4)\<lparr>mc_dag := grid_store n\<rparr>"

lemma grid_store_ok:
  assumes "R < 256" and "n \<le> R"
  shows "mahi_node_ok demo_committee (grid R) (grid_store n)"
    and "held (grid_store n) = cert_digest slot_lib ` (set (genesis demo_committee) \<union> set (concat (map grid_round [1..<Suc n])))"
proof -
  have "\<forall>g \<in> set (genesis demo_committee). grid R (cert_digest slot_lib g) = Some g \<and> h_parents (header g) = []"
    using grid_genesis_known [OF assms(1)] genesis_facts by blast
  note new = mahi_dag_new_ok [OF this, of demo_committee]
  from store_of_ok [of slot_lib "grid R" "mahi_dag_new slot_lib (genesis demo_committee)", OF _ new [THEN conjunct1]]
    new grid_delivered [OF assms]
  show "mahi_node_ok demo_committee (grid R) (grid_store n)"
    "held (grid_store n) = cert_digest slot_lib ` (set (genesis demo_committee) \<union> set (concat (map grid_round [1..<Suc n])))"
    by (auto simp: grid_store_def store_of_def image_Un simp del: upt_Suc)
qed

section \<open>Decisions from an anchor\<close>

lemma anchored_certificate_complete:
  assumes "mahi_history c F B" and "mahi_node_ok c B d" and "contains_key (by_digest d) anchor" and "contains_key (by_digest d) l"
    and "\<forall>x \<in> set xs. contains_key (by_digest d) x"
  shows "\<exists>d' found. anchored_certificate c anchor l d False xs = (d', found, False) \<and> mahi_node_ok c B d' \<and> same_blocks d d'"
  using assms(2-)
proof (induction xs arbitrary: d)
  case (Cons x xs)
  obtain d1 where d1: "mahi_linked d anchor x = (d1, Some (links_to B anchor x))" "mahi_store_ok c B d1" "same_blocks d d1"
    using linked_complete [OF assms(1) Cons.prems(1,2), of x] Cons.prems(4) by auto
  have n1: "mahi_node_ok c B d1" by (rule mahi_node_same [OF Cons.prems(1) d1(3,2)])
  have k1: "contains_key (by_digest d1) y \<longleftrightarrow> contains_key (by_digest d) y" for y using d1(3) by (simp add: same_blocks_def)
  obtain d2 where d2: "is_certificate c d1 x l = (d2, Some (certifies c B x l))" "mahi_node_ok c B d2" "same_blocks d1 d2"
    using is_certificate_complete [OF assms(1) n1, of x l] Cons.prems(3,4) by (auto simp: k1)
  have k2: "contains_key (by_digest d2) y \<longleftrightarrow> contains_key (by_digest d) y" for y
    using d1(3) d2(3) by (simp add: same_blocks_def)
  note tr = same_blocks_trans [OF d1(3)] same_blocks_trans [OF same_blocks_trans [OF d1(3) d2(3)]]
  show ?case
    using Cons.IH [OF n1] Cons.IH [OF d2(2)] Cons.prems(2-4) d1 d2 tr same_blocks_trans [OF d1(3) d2(3)]
    by (cases "links_to B anchor x"; cases "certifies c B x l") (auto simp: k1 k2 Let_def)
next
  case Nil
  then show ?case by (intro exI [of _ d] exI [of _ False]) simp
qed

lemma anchored_candidates_complete:
  assumes "mahi_history c F B" and "mahi_node_ok c B d" and "contains_key (by_digest d) anchor"
    and "\<forall>l \<in> set ls. contains_key (by_digest d) l" and "\<forall>x \<in> set xs. contains_key (by_digest d) x"
  shows "\<exists>d' ls'. anchored_candidates c anchor xs d False ls = (d', ls', False)"
  using assms(2-)
proof (induction ls arbitrary: d)
  case (Cons l ls)
  obtain d1 found where d1: "anchored_certificate c anchor l d False xs = (d1, found, False)" "mahi_node_ok c B d1" "same_blocks d d1"
    using anchored_certificate_complete [OF assms(1) Cons.prems(1,2) _ Cons.prems(4), of l] Cons.prems(3) by auto
  have k1: "contains_key (by_digest d1) y \<longleftrightarrow> contains_key (by_digest d) y" for y using d1(3) by (simp add: same_blocks_def)
  from Cons.IH [OF d1(2)] Cons.prems(2-4) d1(1) show ?case by (auto simp: k1)
qed simp

text \<open>
  C9. An anchor decides.  A node that holds the parents of all its blocks decides every slot
  from a committed anchor it holds: it commits the block of the slot that has a certificate
  in the history of the anchor, if there is one, and skips the slot otherwise.
\<close>

theorem anchor_decides:
  assumes "mahi_history c F B" and "mahi_node_ok c B (mc_dag mc)" and "w = mc_wave_length mc" and "2 \<le> w"
    and "contains_key (by_digest (mc_dag mc)) anchor"
  shows "\<exists>mc' dec. decide_from_anchor c mc slot anchor = Inr (mc', dec) \<and> mahi_node_ok c B (mc_dag mc') \<and> dec \<noteq> Undecided \<and>
    (\<forall>l. dec = Commit l \<longleftrightarrow> anchored c B w (ls_authority slot) (slot_round (ls_id slot)) anchor l)"
proof -
  let ?d = "mc_dag mc" and ?r = "slot_round (ls_id slot)" and ?a = "ls_authority slot"
  have idx: "mahi_index_ok ?d" using assms(2) by (simp add: mahi_node_ok_def)
  have "\<forall>l \<in> set (slot_digests ?d ?a ?r). contains_key (by_digest ?d) l"
    and "\<forall>x \<in> set (round_digests ?d (?r + w - 1)). contains_key (by_digest ?d) x"
    by (auto simp: slot_digests_ok(2) [OF idx] round_digests_ok [OF idx] contains_key_def)
  from anchored_candidates_complete [OF assms(1,2,5) this] obtain d1 ls where
    all: "anchored_candidates c anchor (round_digests ?d (?r + w - 1)) ?d False (slot_digests ?d ?a ?r) = (d1, ls, False)" by blast
  from decide_from_anchor_sound [OF assms, of slot] obtain mc' dec where
    run: "decide_from_anchor c mc slot anchor = Inr (mc', dec)" and frame: "dag_only c B mc mc'"
    and dec: "case dec of Commit l \<Rightarrow> anchored c B w ?a ?r anchor l \<and> contains_key (by_digest ?d) l
      | Skip \<Rightarrow> (\<forall>l. \<not> anchored c B w ?a ?r anchor l) | Undecided \<Rightarrow> True" by blast
  have "dec \<noteq> Undecided" using run all assms(3) by (auto simp: decide_from_anchor_def Let_def split: if_splits)
  moreover have "dec = Commit l \<longleftrightarrow> anchored c B w ?a ?r anchor l" for l
  proof
    assume l: "anchored c B w ?a ?r anchor l"
    show "dec = Commit l"
    proof (cases dec)
      case (Commit l')
      with dec have l': "anchored c B w ?a ?r anchor l'" by simp
      have "l' = l"
        by (rule slot_votes_unique [OF assms(1) anchored_slot [OF l'] anchored_slot [OF l]
              anchored_votes [OF assms(1) l' assms(4)] anchored_votes [OF assms(1) l assms(4)]])
      with Commit show ?thesis by simp
    qed (use dec l \<open>dec \<noteq> Undecided\<close> in auto)
  qed (use dec in auto)
  ultimately show ?thesis using run frame by (auto simp: dag_only_def)
qed

theorem anchor_decides_witness:
  "\<exists>mc dec. decide_from_anchor demo_committee (grid_committer 6)
      \<lparr>ls_id = \<lparr>slot_round = 1, slot_index = 0\<rparr>, ls_authority = PublicKey 1\<rparr> (grid_digest 5 1) = Inr (mc, dec) \<and>
    dec \<noteq> Undecided"
proof -
  have "cert_digest slot_lib (grid_block 5 1) \<in> held (grid_store 6)"
    unfolding grid_store_ok(2) [of 6 6, simplified] by (rule imageI) (auto simp: grid_round_def)
  then have "contains_key (by_digest (mc_dag (grid_committer 6))) (grid_digest 5 1)"
    by (simp add: grid_block_digest held_def grid_committer_def)
  moreover have "mahi_node_ok demo_committee (grid 6) (mc_dag (grid_committer 6))" "4 = mc_wave_length (grid_committer 6)"
    using grid_store_ok(1) [of 6 6] by (simp_all add: grid_committer_def mahi_committer_new_def)
  moreover have "mahi_history demo_committee {} (grid 6)" "2 \<le> (4 :: Round)" by (simp_all add: grid_history)
  ultimately show ?thesis using anchor_decides by blast
qed

text \<open>
  C8. The direct rule is exact.  A node that holds the parents of all its blocks commits a
  block of a slot directly if and only if decision-round blocks of a quorum of authors that
  it holds certify it, skips the slot if and only if vote-round blocks of a quorum of authors
  support none of its blocks, and never fails an assertion.
\<close>

theorem direct_decision_exact:
  assumes "mahi_history c F B" and "mahi_node_ok c B (mc_dag mc)" and "w = mc_wave_length mc" and "2 \<le> w"
  shows "\<exists>mc' dec. direct_decision c mc slot = Inr (mc', dec) \<and>
    (\<forall>l. dec = Commit l \<longleftrightarrow> local_commit c B (mc_dag mc) w (ls_authority slot) (slot_round (ls_id slot)) l) \<and>
    (dec = Skip \<longleftrightarrow> local_skip c B (mc_dag mc) w (ls_authority slot) (slot_round (ls_id slot)))"
  by (rule direct_rule_exact [OF assms])

theorem direct_decision_exact_witness:
  "\<exists>mc dec. direct_decision demo_committee (grid_committer 4)
      \<lparr>ls_id = \<lparr>slot_round = 1, slot_index = 0\<rparr>, ls_authority = PublicKey 1\<rparr> = Inr (mc, dec) \<and>
    (\<forall>l. dec = Commit l \<longleftrightarrow> local_commit demo_committee (grid 6) (grid_store 4) 4 (PublicKey 1) 1 l)"
  using direct_decision_exact [of demo_committee "{}" "grid 6" "grid_committer 4" 4
      "\<lparr>ls_id = \<lparr>slot_round = 1, slot_index = 0\<rparr>, ls_authority = PublicKey 1\<rparr>"] grid_history [of 6] grid_store_ok(1) [of 6 4]
  by (auto simp: grid_committer_def mahi_committer_new_def)

section \<open>Runs do not stop without a reason\<close>

lemma undecided_no_evidence:
  assumes "mahi_history c F B" and "2 \<le> w" and "directly_undecided c B w d slot"
  shows "(\<forall>l. \<not> local_commit c B d w (ls_authority slot) (slot_round (ls_id slot)) l) \<and>
    \<not> local_skip c B d w (ls_authority slot) (slot_round (ls_id slot))"
proof -
  obtain mc mc' where mc: "same_blocks d (mc_dag mc)" "mahi_node_ok c B (mc_dag mc)" "mc_wave_length mc = w"
    "direct_decision c mc slot = Inr (mc', Undecided)" using assms(3) by (auto simp: directly_undecided_def)
  from direct_rule_exact [OF assms(1) mc(2) mc(3) [symmetric] assms(2), of slot] mc(4)
  have "(\<forall>l. \<not> local_commit c B (mc_dag mc) w (ls_authority slot) (slot_round (ls_id slot)) l) \<and>
    \<not> local_skip c B (mc_dag mc) w (ls_authority slot) (slot_round (ls_id slot))" by auto
  then show ?thesis using mc(1) by (simp add: local_commit_def local_skip_def same_blocks_def)
qed

text \<open>
  C7. Progress of Mahi-Mahi.  After any delivery the node has decided and output all slots
  in order up to the first one for which one of the following holds: the node holds no block
  of the decision round or later; the coin round gives it no leader yet; or the blocks it
  holds are no evidence for a direct decision of the slot's leader, neither to commit nor to
  skip it.  In particular a slot with direct evidence never blocks the output.
\<close>

theorem mahi_progress:
  assumes "mahi_history c F B" and "bls_unique lib" and "is_mahi_mahi dp" and "mahi_mahi_wave_length dp = Some w"
    and "spawn_with_protocol lib n c gc dp cp = Inr con"
    and "\<forall>g \<in> set (genesis c). B (cert_digest lib g) = Some g"
    and "delivered lib B (cert_digest lib ` set (genesis c)) xs"
  shows "\<exists>con' mc out slot. mahi_run lib con xs = Inr ((con', mc), out) \<and> slot = first_pending (mc_last_decided mc) \<and>
    (highest_round (mc_dag mc) < slot_round slot + w - 1 \<or> leaderless lib con w (mc_dag mc) slot \<or>
     (\<exists>a. mahi_elects lib con w slot a \<and> \<not> local_skip c B (mc_dag mc) w a (slot_round slot) \<and>
        (\<forall>l. \<not> local_commit c B (mc_dag mc) w a (slot_round slot) l)))"
proof -
  have e: "con_dag_protocol con = dp" using spawn_electable [OF assms(5,3)] by simp
  from mahi_run_sound [OF assms(1-3,5,5,6,7)] obtain s ds where
    run: "mahi_run lib con xs = Inr (s, world_output (world_of lib c con B) ds)" "mahi_run_inv (world_of lib c con B) s ds"
    and stall: "stalled (world_of lib c con B) (mc_dag (snd s)) (length ds)" by blast
  have w: "2 \<le> w" using assms(4) by (cases dp) simp_all
  have "first_pending (mc_last_decided (snd s)) = slot_of (length ds)"
    using run(2) first_pending_of [of "length ds"] by (simp add: mahi_run_inv_def last_slot_def)
  moreover have "highest_round (mc_dag (snd s)) < slot_round (slot_of (length ds)) + w - 1 \<or>
      leaderless lib con w (mc_dag (snd s)) (slot_of (length ds)) \<or>
      (\<exists>slot. ls_id slot = slot_of (length ds) \<and> mahi_elects lib con w (slot_of (length ds)) (ls_authority slot) \<and>
         directly_undecided c B w (mc_dag (snd s)) slot)"
    using stall assms(4) e by (simp add: stalled_def world_of_def)
  then have "highest_round (mc_dag (snd s)) < slot_round (slot_of (length ds)) + w - 1 \<or>
      leaderless lib con w (mc_dag (snd s)) (slot_of (length ds)) \<or>
      (\<exists>a. mahi_elects lib con w (slot_of (length ds)) a \<and>
         \<not> local_skip c B (mc_dag (snd s)) w a (slot_round (slot_of (length ds))) \<and>
         (\<forall>l. \<not> local_commit c B (mc_dag (snd s)) w a (slot_round (slot_of (length ds))) l))"
    using undecided_no_evidence [OF assms(1) w] by metis
  ultimately show ?thesis using run(1) by (metis surjective_pairing)
qed

theorem mahi_progress_witness:
  "\<exists>con mc out slot. mahi_run slot_lib (grid_node 1) (concat (map grid_round [1..<7])) = Inr ((con, mc), out) \<and>
    slot = first_pending (mc_last_decided mc) \<and>
    (highest_round (mc_dag mc) < slot_round slot + 4 - 1 \<or> leaderless slot_lib (grid_node 1) 4 (mc_dag mc) slot \<or>
     (\<exists>a. mahi_elects slot_lib (grid_node 1) 4 slot a \<and> \<not> local_skip demo_committee (grid 6) (mc_dag mc) 4 a (slot_round slot) \<and>
        (\<forall>l. \<not> local_commit demo_committee (grid 6) (mc_dag mc) 4 a (slot_round slot) l)))"
proof -
  have "delivered slot_lib (grid 6) (cert_digest slot_lib ` set (genesis demo_committee)) (concat (map grid_round [1..<7]))"
    using grid_delivered [of 6 6] by simp
  then show ?thesis
    by (intro mahi_progress [OF grid_history [of 6] slot_lib_bls _ _ grid_spawn [of 1] grid_genesis_known])
      (simp_all add: is_mahi_mahi_def)
qed

end
