(* ===== verification/Store.thy ===== *)
theory Store
  imports Messages
begin

text \<open>
  The storage task (\<^verbatim>\<open>store/src/lib.rs\<close>).  RocksDB is a parameter: the record \<open>KvLib\<close> has
  its \<^verbatim>\<open>put\<close> and \<^verbatim>\<open>get\<close>, \<open>kv_ok\<close> states what the code relies on.  Reply channels are
  numbered tickets; a reply is a pair of a ticket and the answer sent on it.
\<close>

type_synonym Key = "byte list"
type_synonym Value = "byte list"
type_synonym Ticket = nat

record 'db KvLib =
  kv_put :: "'db \<Rightarrow> Key \<Rightarrow> Value \<Rightarrow> 'db"
  kv_get :: "'db \<Rightarrow> Key \<Rightarrow> unit + Value option"

definition kv_ok :: "'db KvLib \<Rightarrow> bool" where
  "kv_ok kv \<longleftrightarrow> (\<forall>db k v k'. kv_get kv (kv_put kv db k v) k' = (if k' = k then Inr (Some v) else kv_get kv db k')) \<and>
     (\<forall>db k. kv_get kv db k \<noteq> Inl ())"

datatype StoreCommand =
    Write Key Value
  | Read Key Ticket
  | NotifyRead Key Ticket

datatype StoreReply = ReadReply "unit + Value option" | NotifyReply "unit + Value"

record 'db Store =
  st_db :: 'db
  st_obligations :: "(Key \<times> Ticket list) list"

definition store_new :: "'db \<Rightarrow> 'db Store" where
  "store_new db = \<lparr>st_db = db, st_obligations = []\<rparr>"

definition store_command ::
    "'db KvLib \<Rightarrow> 'db Store \<Rightarrow> StoreCommand \<Rightarrow> 'db Store \<times> (Ticket \<times> StoreReply) list" where
  "store_command kv s command =
     (case command of
        Write key v \<Rightarrow>
          (let senders = (case map_of (st_obligations s) key of None \<Rightarrow> [] | Some ts \<Rightarrow> ts)
           in (s\<lparr>st_db := kv_put kv (st_db s) key v, st_obligations := AList.delete key (st_obligations s)\<rparr>,
               map (\<lambda>t. (t, NotifyReply (Inr v))) senders))
      | Read key t \<Rightarrow> (s, [(t, ReadReply (kv_get kv (st_db s) key))])
      | NotifyRead key t \<Rightarrow>
          (case kv_get kv (st_db s) key of
             Inr None \<Rightarrow>
               (let senders = (case map_of (st_obligations s) key of None \<Rightarrow> [] | Some ts \<Rightarrow> ts)
                in (s\<lparr>st_obligations := AList.update key (senders @ [t]) (st_obligations s)\<rparr>, []))
           | Inr (Some v) \<Rightarrow> (s, [(t, NotifyReply (Inr v))])
           | Inl e \<Rightarrow> (s, [(t, NotifyReply (Inl e))])))"

fun store_run ::
    "'db KvLib \<Rightarrow> 'db Store \<Rightarrow> StoreCommand list \<Rightarrow> 'db Store \<times> (Ticket \<times> StoreReply) list" where
  "store_run kv s [] = (s, [])"
| "store_run kv s (command # commands) =
     (case store_command kv s command of
        (s1, replies) \<Rightarrow> (case store_run kv s1 commands of (s2, rest) \<Rightarrow> (s2, replies @ rest)))"

section \<open>What the task guarantees\<close>

text \<open>The tickets waiting for a key, and the last value written to it.\<close>

definition waiting_on :: "'db Store \<Rightarrow> Key \<Rightarrow> Ticket list" where
  "waiting_on s k = (case map_of (st_obligations s) k of None \<Rightarrow> [] | Some ts \<Rightarrow> ts)"

fun last_write :: "Key \<Rightarrow> Value option \<Rightarrow> StoreCommand list \<Rightarrow> Value option" where
  "last_write k v [] = v"
| "last_write k v (Write k' v' # commands) = last_write k (if k' = k then Some v' else v) commands"
| "last_write k v (_ # commands) = last_write k v commands"

definition store_ok :: "'db KvLib \<Rightarrow> 'db Store \<Rightarrow> bool" where
  "store_ok kv s \<longleftrightarrow> (\<forall>k. waiting_on s k \<noteq> [] \<longrightarrow> kv_get kv (st_db s) k = Inr None)"

lemma store_command_db:
  assumes "kv_ok kv" and "kv_get kv (st_db s) k = Inr v"
  shows "kv_get kv (st_db (fst (store_command kv s command))) k = Inr (last_write k v [command])"
  using assms by (cases command) (auto simp: store_command_def kv_ok_def Let_def split: sum.splits option.splits)

lemma store_command_waiting:
  "waiting_on (fst (store_command kv s command)) k =
     (case command of
        Write k' v \<Rightarrow> if k' = k then [] else waiting_on s k
      | Read k' t \<Rightarrow> waiting_on s k
      | NotifyRead k' t \<Rightarrow> if k' = k \<and> kv_get kv (st_db s) k = Inr None then waiting_on s k @ [t] else waiting_on s k)"
  by (cases command) (auto simp: store_command_def waiting_on_def Let_def delete_conv' split: sum.splits option.splits)

lemma store_command_ok:
  assumes "kv_ok kv" and "store_ok kv s"
  shows "store_ok kv (fst (store_command kv s command))"
  unfolding store_ok_def
proof (intro allI impI)
  fix k
  assume w: "waiting_on (fst (store_command kv s command)) k \<noteq> []"
  then have "kv_get kv (st_db s) k = Inr None"
    using assms(2) unfolding store_command_waiting store_ok_def by (auto split: StoreCommand.splits if_splits)
  from store_command_db [OF assms(1) this, of command] w
  show "kv_get kv (st_db (fst (store_command kv s command))) k = Inr None"
    unfolding store_command_waiting by (cases command) (auto split: if_splits)
qed

text \<open>A pending ticket is answered by the first write to its key.\<close>

lemma write_answers:
  "t \<in> set (waiting_on s k) \<Longrightarrow> (t, NotifyReply (Inr v)) \<in> set (snd (store_command kv s (Write k v)))"
  by (auto simp: store_command_def waiting_on_def Let_def split: option.splits)

lemma store_run_waiting:
  assumes "kv_ok kv" and "store_ok kv s" and "t \<in> set (waiting_on s k)" and "Write k v \<in> set commands"
  shows "\<exists>v. (t, NotifyReply (Inr v)) \<in> set (snd (store_run kv s commands))"
  using assms(2-)
proof (induction commands arbitrary: s)
  case (Cons command commands)
  let ?s = "fst (store_command kv s command)"
  have run: "set (snd (store_run kv s (command # commands))) =
      set (snd (store_command kv s command)) \<union> set (snd (store_run kv ?s commands))"
    by (simp split: prod.split)
  show ?case
  proof (cases "\<exists>v. command = Write k v")
    case True
    then show ?thesis unfolding run using write_answers [OF Cons.prems(2), of _ kv] by blast
  next
    case False
    then have "t \<in> set (waiting_on ?s k)" using Cons.prems(2) unfolding store_command_waiting by (auto split: StoreCommand.splits)
    moreover have "Write k v \<in> set commands" using Cons.prems(3) False by auto
    ultimately show ?thesis unfolding run using Cons.IH [OF store_command_ok [OF assms(1) Cons.prems(1)]] by blast
  qed
qed simp

lemma store_run_append:
  "fst (store_run kv s (xs @ ys)) = fst (store_run kv (fst (store_run kv s xs)) ys)"
  "snd (store_run kv s (xs @ ys)) = snd (store_run kv s xs) @ snd (store_run kv (fst (store_run kv s xs)) ys)"
  by (induction xs arbitrary: s) (simp_all add: case_prod_beta)

lemma last_write_Some: "\<exists>y. last_write k (Some x) commands = Some y"
proof (induction commands arbitrary: x)
  case (Cons c cs)
  then show ?case by (cases c) simp_all
qed simp

lemma last_write_None: "last_write k u commands = None \<Longrightarrow> Write k v \<notin> set commands"
proof (induction commands arbitrary: u)
  case (Cons c cs)
  then show ?case using last_write_Some [of k v cs] by (cases c) (auto split: if_splits)
qed simp

lemma store_run_state:
  assumes "kv_ok kv" and "store_ok kv s" and "kv_get kv (st_db s) k = Inr v"
  shows "store_ok kv (fst (store_run kv s commands))"
    and "kv_get kv (st_db (fst (store_run kv s commands))) k = Inr (last_write k v commands)"
proof -
  have "store_ok kv (fst (store_run kv s commands)) \<and>
      kv_get kv (st_db (fst (store_run kv s commands))) k = Inr (last_write k v commands)"
    using assms(2,3)
  proof (induction commands arbitrary: s v)
    case (Cons command commands)
    let ?s = "fst (store_command kv s command)"
    have "last_write k v (command # commands) = last_write k (last_write k v [command]) commands" by (cases command) simp_all
    moreover have "fst (store_run kv s (command # commands)) = fst (store_run kv ?s commands)" by (simp split: prod.split)
    ultimately show ?case
      using Cons.IH [OF store_command_ok [OF assms(1) Cons.prems(1)] store_command_db [OF assms(1) Cons.prems(2)], of command] by simp
  qed simp
  then show "store_ok kv (fst (store_run kv s commands))"
    and "kv_get kv (st_db (fst (store_run kv s commands))) k = Inr (last_write k v commands)" by simp_all
qed

text \<open>
  The storage task.  From an empty database a read answers with the last value written
  to its key before it, whatever commands were interleaved; a notified read of a key is
  answered if and when the key is written, before or after the request, and no request
  waits for a key that has a value.
\<close>

theorem store_reads_last_write:
  assumes "kv_ok kv" and "\<forall>k. kv_get kv db k = Inr None"
  shows "(t, ReadReply (Inr (last_write k None before))) \<in> set (snd (store_run kv (store_new db) (before @ [Read k t]))) \<and>
    (Write k v \<in> set (before @ rest) \<longrightarrow>
       (\<exists>v. (t, NotifyReply (Inr v)) \<in> set (snd (store_run kv (store_new db) (before @ NotifyRead k t # rest))))) \<and>
    store_ok kv (fst (store_run kv (store_new db) before))"
proof -
  have new: "store_ok kv (store_new db)" "kv_get kv (st_db (store_new db)) k = Inr None"
    using assms(2) by (simp_all add: store_ok_def waiting_on_def store_new_def)
  let ?s = "fst (store_run kv (store_new db) before)"
  note state = store_run_state [OF assms(1) new, of before]
  have "\<exists>v. (t, NotifyReply (Inr v)) \<in> set (snd (store_run kv ?s (NotifyRead k t # rest)))" if "Write k v \<in> set (before @ rest)"
  proof (cases "last_write k None before")
    case None
    with that last_write_None [OF None] have "Write k v \<in> set rest" by auto
    moreover have "t \<in> set (waiting_on (fst (store_command kv ?s (NotifyRead k t))) k)"
      using state(2) None unfolding store_command_waiting by simp
    ultimately show ?thesis
      using store_run_waiting [OF assms(1) store_command_ok [OF assms(1) state(1)]] by (fastforce split: prod.split)
  next
    case (Some x)
    with state(2) show ?thesis by (auto simp: store_command_def split: prod.split)
  qed
  then show ?thesis using state by (auto simp: store_run_append store_command_def)
qed

definition demo_kv :: "(Key \<Rightarrow> Value option) KvLib" where
  "demo_kv = \<lparr>kv_put = (\<lambda>db k v. db(k \<mapsto> v)), kv_get = (\<lambda>db k. Inr (db k))\<rparr>"

lemma demo_kv_ok [simp]: "kv_ok demo_kv"
  by (simp add: kv_ok_def demo_kv_def)

theorem store_reads_last_write_witness:
  "(7, ReadReply (Inr (Some [2]))) \<in> set (snd (store_run demo_kv (store_new Map.empty)
     ([Write [9] [1], NotifyRead [8] 3, Write [9] [2]] @ [Read [9] 7])))"
proof -
  have "\<forall>k. kv_get demo_kv Map.empty k = Inr None" by (simp add: demo_kv_def)
  from store_reads_last_write [OF demo_kv_ok this, of 7 "[9]" "[Write [9] [1], NotifyRead [8] 3, Write [9] [2]]"]
  show ?thesis by simp
qed

end
