(* ===== verification/Synchronizer.thy ===== *)
theory Synchronizer
  imports Store
begin

text \<open>
  The synchronizer of the primary (\<^verbatim>\<open>primary/src/synchronizer.rs\<close>): it looks up the parents and
  the payload of a header in its cache and in the store, and asks the waiters for what is
  missing.  The serializer is a parameter; a request to a waiter is returned with the
  result.
\<close>

datatype WaiterMessage =
    SyncBatches "(Digest \<times> WorkerId) list" PublicKey Header
  | SyncParents "Digest list" Header

record 'db CoreEnv =
  ce_crypto :: CryptoLib
  ce_kv :: "'db KvLib"
  ce_bincode_header :: "Header \<Rightarrow> byte list"
  ce_bincode_certificate :: "Certificate \<Rightarrow> byte list"
  ce_debincode_certificate :: "byte list \<Rightarrow> Certificate option"
  ce_secret :: "byte list"

abbreviation ce_digest :: "'db CoreEnv \<Rightarrow> Certificate \<Rightarrow> Digest" where
  "ce_digest env \<equiv> cert_digest (ce_crypto env)"

record Synchronizer =
  sy_name :: PublicKey
  sy_committee :: Committee
  sy_dag_protocol :: DagProtocol
  sy_genesis :: "(Digest \<times> Certificate) list"
  sy_certificate_cache :: "(Digest \<times> Certificate) list"
  sy_certificate_holders :: "(Digest \<times> PublicKey list) list"
  sy_header_holders :: "(Digest \<times> PublicKey) list"

definition synchronizer_new :: "CryptoLib \<Rightarrow> PublicKey \<Rightarrow> Committee \<Rightarrow> DagProtocol \<Rightarrow> Synchronizer" where
  "synchronizer_new lib name c dp =
     (let gen = map (\<lambda>x. (cert_digest lib x, x)) (genesis c)
      in \<lparr>sy_name = name, sy_committee = c, sy_dag_protocol = dp, sy_genesis = gen,
          sy_certificate_cache = foldl (\<lambda>m (d, x). AList.update d x m) [] gen,
          sy_certificate_holders = [], sy_header_holders = []\<rparr>)"

section \<open>Who holds what\<close>

definition preferred_reference_holder :: "CryptoLib \<Rightarrow> Synchronizer \<Rightarrow> Certificate \<Rightarrow> PublicKey option" where
  "preferred_reference_holder lib sy certificate =
     (case map_of (sy_certificate_holders sy) (cert_digest lib certificate) of
        None \<Rightarrow> None
      | Some holders \<Rightarrow>
          (case find (\<lambda>holder. holder \<noteq> h_author (header certificate)) (rev holders) of
             Some holder \<Rightarrow> Some holder
           | None \<Rightarrow> if holders = [] then None else Some (last holders)))"

definition observe_certificate :: "CryptoLib \<Rightarrow> Certificate \<Rightarrow> Synchronizer \<Rightarrow> Synchronizer" where
  "observe_certificate lib certificate sy =
     (case preferred_reference_holder lib sy certificate of
        None \<Rightarrow> sy
      | Some holder \<Rightarrow>
          (let id = h_id (header certificate); author = h_author (header certificate);
               entry = (case map_of (sy_header_holders sy) id of
                          None \<Rightarrow> holder
                        | Some current \<Rightarrow> if current = author \<and> holder \<noteq> author then holder else current)
           in sy\<lparr>sy_header_holders := AList.update id entry (sy_header_holders sy)\<rparr>))"

definition cache_certificate :: "CryptoLib \<Rightarrow> Certificate \<Rightarrow> Synchronizer \<Rightarrow> Synchronizer" where
  "cache_certificate lib certificate sy =
     (let sy1 = observe_certificate lib certificate sy
      in sy1\<lparr>sy_certificate_cache := AList.update (cert_digest lib certificate) certificate (sy_certificate_cache sy1)\<rparr>)"

definition record_reference_holder :: "CryptoLib \<Rightarrow> PublicKey \<Rightarrow> Digest \<Rightarrow> Synchronizer \<Rightarrow> Synchronizer" where
  "record_reference_holder lib holder digest sy =
     (let holders = (case map_of (sy_certificate_holders sy) digest of None \<Rightarrow> [] | Some hs \<Rightarrow> hs);
          sy1 = sy\<lparr>sy_certificate_holders :=
            AList.update digest (if holder \<in> set holders then holders else holders @ [holder]) (sy_certificate_holders sy)\<rparr>
      in case map_of (sy_certificate_cache sy1) digest of
           None \<Rightarrow> sy1
         | Some certificate \<Rightarrow> observe_certificate lib certificate sy1)"

section \<open>Payload\<close>

definition batch_key :: "Digest \<Rightarrow> WorkerId \<Rightarrow> Key" where
  "batch_key digest worker_id = digest_bytes digest @ le_bytes 4 (unat worker_id)"

fun missing_batches ::
    "'db CoreEnv \<Rightarrow> 'db \<Rightarrow> (Digest \<times> WorkerId) list \<Rightarrow> (Digest \<times> WorkerId) list dag_result" where
  "missing_batches env db [] = Inr []"
| "missing_batches env db ((digest, worker_id) # payload) =
     (case kv_get (ce_kv env) db (batch_key digest worker_id) of
        Inl _ \<Rightarrow> Inl StoreError
      | Inr found \<Rightarrow> rbind (missing_batches env db payload) (\<lambda>rest.
          Inr (if found = None then (digest, worker_id) # rest else rest)))"

definition missing_payload_for ::
    "'db CoreEnv \<Rightarrow> 'db \<Rightarrow> Header \<Rightarrow> Header \<Rightarrow> Synchronizer \<Rightarrow> WaiterMessage option dag_result" where
  "missing_payload_for env db payload_header deliver sy =
     (if h_author payload_header = sy_name sy then Inr None
      else rbind (missing_batches env db (h_payload payload_header)) (\<lambda>missing.
        if missing = [] then Inr None
        else (let source = (case map_of (sy_header_holders sy) (h_id payload_header) of
                              None \<Rightarrow> h_author payload_header | Some holder \<Rightarrow> holder)
              in Inr (Some (SyncBatches missing source deliver)))))"

definition missing_payload ::
    "'db CoreEnv \<Rightarrow> 'db \<Rightarrow> Header \<Rightarrow> Synchronizer \<Rightarrow> WaiterMessage option dag_result" where
  "missing_payload env db h sy = missing_payload_for env db h h sy"

section \<open>Parents\<close>

definition known_parent :: "Synchronizer \<Rightarrow> Digest \<Rightarrow> Certificate option" where
  "known_parent sy digest =
     (case find (\<lambda>(x, _). x = digest) (sy_genesis sy) of
        Some (_, x) \<Rightarrow> Some x
      | None \<Rightarrow> map_of (sy_certificate_cache sy) digest)"

text \<open>The parents that are not known are read from the store and verified again.\<close>

fun read_parents ::
    "'db CoreEnv \<Rightarrow> 'db \<Rightarrow> Synchronizer \<Rightarrow> Certificate list \<Rightarrow> Digest list \<Rightarrow> Digest list
     \<Rightarrow> Synchronizer \<times> (Certificate list \<times> Digest list) dag_result" where
  "read_parents env db sy parents missing [] = (sy, Inr (parents, missing))"
| "read_parents env db sy parents missing (digest # digests) =
     (case kv_get (ce_kv env) db (digest_bytes digest) of
        Inl _ \<Rightarrow> (sy, Inl StoreError)
      | Inr None \<Rightarrow> read_parents env db sy parents (missing @ [digest]) digests
      | Inr (Some bytes) \<Rightarrow>
          (case ce_debincode_certificate env bytes of
             None \<Rightarrow> (sy, Inl SerializationError)
           | Some certificate \<Rightarrow>
               (case cert_verify (ce_crypto env) (sy_committee sy) (sy_dag_protocol sy) certificate of
                  Inl e \<Rightarrow> (sy, Inl e)
                | Inr _ \<Rightarrow>
                    read_parents env db
                      (sy\<lparr>sy_certificate_cache := AList.update digest certificate (sy_certificate_cache sy)\<rparr>)
                      (parents @ [certificate]) missing digests)))"

definition lookup_parents ::
    "'db CoreEnv \<Rightarrow> 'db \<Rightarrow> Synchronizer \<Rightarrow> Digest list \<Rightarrow> Digest list
     \<Rightarrow> Synchronizer \<times> (Certificate list \<times> Digest list) dag_result" where
  "lookup_parents env db sy missing digests =
     read_parents env db sy (List.map_filter (known_parent sy) digests) missing
       (filter (\<lambda>digest. known_parent sy digest = None) digests)"

definition get_parents ::
    "'db CoreEnv \<Rightarrow> 'db \<Rightarrow> Header \<Rightarrow> Synchronizer
     \<Rightarrow> Synchronizer \<times> ((Certificate list \<times> Certificate list) \<times> WaiterMessage option) dag_result" where
  "get_parents env db h sy =
     (let sy0 = foldl (\<lambda>s digest. record_reference_holder (ce_crypto env) (h_author h) digest s) sy
                  (h_parents h @ h_parents_2 h)
      in case lookup_parents env db sy0 [] (h_parents h) of
           (sy1, Inl e) \<Rightarrow> (sy1, Inl e)
         | (sy1, Inr (parents_1, missing)) \<Rightarrow>
             (case (if is_shortfin_family (sy_dag_protocol sy1)
                    then lookup_parents env db sy1 missing (h_parents_2 h) else (sy1, Inr ([], missing))) of
                (sy2, Inl e) \<Rightarrow> (sy2, Inl e)
              | (sy2, Inr (parents_2, missing)) \<Rightarrow>
                  (sy2, Inr (if missing = [] then ((parents_1, parents_2), None)
                             else (([], []), Some (SyncParents missing h))))))"

fun all_delivered :: "'db CoreEnv \<Rightarrow> 'db \<Rightarrow> Synchronizer \<Rightarrow> Digest list \<Rightarrow> bool dag_result" where
  "all_delivered env db sy [] = Inr True"
| "all_delivered env db sy (digest # digests) =
     (if list_ex (\<lambda>(x, _). x = digest) (sy_genesis sy) \<or> contains_key (sy_certificate_cache sy) digest
      then all_delivered env db sy digests
      else (case kv_get (ce_kv env) db (digest_bytes digest) of
              Inl _ \<Rightarrow> Inl StoreError
            | Inr None \<Rightarrow> Inr False
            | Inr (Some _) \<Rightarrow> all_delivered env db sy digests))"

text \<open>False stands for a certificate handed to the certificate waiter.\<close>

definition deliver_certificate :: "'db CoreEnv \<Rightarrow> 'db \<Rightarrow> Certificate \<Rightarrow> Synchronizer \<Rightarrow> bool dag_result" where
  "deliver_certificate env db certificate sy =
     rbind (all_delivered env db sy (h_parents (header certificate))) (\<lambda>ok.
       if \<not> ok then Inr False
       else if is_shortfin_family (sy_dag_protocol sy)
       then all_delivered env db sy (h_parents_2 (header certificate))
       else Inr True)"

section \<open>What the lookups establish\<close>

definition parent_known :: "'db CoreEnv \<Rightarrow> 'db \<Rightarrow> Synchronizer \<Rightarrow> Digest \<Rightarrow> bool" where
  "parent_known env db sy digest \<longleftrightarrow> digest \<in> fst ` set (sy_genesis sy) \<or> contains_key (sy_certificate_cache sy) digest \<or>
     (\<exists>bytes. kv_get (ce_kv env) db (digest_bytes digest) = Inr (Some bytes))"

lemma list_ex_key: "list_ex (\<lambda>(x, _). x = d) xs \<longleftrightarrow> d \<in> fst ` set xs"
  by (induction xs) auto

lemma all_delivered_known:
  "all_delivered env db sy digests = Inr True \<Longrightarrow> \<forall>d \<in> set digests. parent_known env db sy d"
proof (induction digests)
  case (Cons d ds)
  then show ?case
    by (auto simp: parent_known_def list_ex_key split: if_splits sum.splits option.splits)
qed simp

lemma all_delivered_exact:
  assumes "kv_ok (ce_kv env)"
  shows "all_delivered env db sy digests = Inr (\<forall>d \<in> set digests. parent_known env db sy d)"
proof (induction digests)
  case (Cons d ds)
  have "kv_get (ce_kv env) db (digest_bytes d) \<noteq> Inl u" for u using assms by (simp add: kv_ok_def)
  then obtain r where r: "kv_get (ce_kv env) db (digest_bytes d) = Inr r" by (cases "kv_get (ce_kv env) db (digest_bytes d)") auto
  show ?case
    using Cons r by (cases r) (auto simp: parent_known_def list_ex_key)
qed simp

lemma observe_certificate_fields [simp]:
  "sy_name (observe_certificate lib x sy) = sy_name sy" "sy_committee (observe_certificate lib x sy) = sy_committee sy"
  "sy_dag_protocol (observe_certificate lib x sy) = sy_dag_protocol sy" "sy_genesis (observe_certificate lib x sy) = sy_genesis sy"
  "sy_certificate_cache (observe_certificate lib x sy) = sy_certificate_cache sy"
  by (simp_all add: observe_certificate_def Let_def split: option.split)

lemma cache_certificate_fields [simp]:
  "sy_name (cache_certificate lib x sy) = sy_name sy" "sy_committee (cache_certificate lib x sy) = sy_committee sy"
  "sy_dag_protocol (cache_certificate lib x sy) = sy_dag_protocol sy" "sy_genesis (cache_certificate lib x sy) = sy_genesis sy"
  "sy_certificate_cache (cache_certificate lib x sy) = AList.update (cert_digest lib x) x (sy_certificate_cache sy)"
  by (simp_all add: cache_certificate_def Let_def)

lemma record_reference_holder_fields [simp]:
  "sy_name (record_reference_holder lib a d sy) = sy_name sy" "sy_committee (record_reference_holder lib a d sy) = sy_committee sy"
  "sy_dag_protocol (record_reference_holder lib a d sy) = sy_dag_protocol sy"
  "sy_genesis (record_reference_holder lib a d sy) = sy_genesis sy"
  "sy_certificate_cache (record_reference_holder lib a d sy) = sy_certificate_cache sy"
  by (simp_all add: record_reference_holder_def Let_def split: option.split)

end
