(* ===== verification/Byzantine.thy ===== *)
theory Byzantine
  imports Messages "HOL-Library.Product_Lexorder"
begin

text \<open>
  The process-local attack behaviour of a primary (\<^verbatim>\<open>primary/src/byzantine.rs\<close>): the signed
  versions of one proposal and the peers each version is sent to.  Reading the
  configuration from the environment is not modelled; the disabled configuration is
  \<open>byzantine_default\<close>.
\<close>

record ByzantineConfig =
  bz_equivocation :: bool
  bz_variant_count :: nat
  bz_addresses :: "SocketAddr list"

definition byzantine_default :: ByzantineConfig where
  "byzantine_default = \<lparr>bz_equivocation = False, bz_variant_count = 0, bz_addresses = []\<rparr>"

definition is_equivocating :: "ByzantineConfig \<Rightarrow> bool" where
  "is_equivocating cfg = bz_equivocation cfg"

definition allows_multiple_votes :: "ByzantineConfig \<Rightarrow> bool" where
  "allows_multiple_votes cfg = bz_equivocation cfg"

definition invalidates_payload :: "ByzantineConfig \<Rightarrow> bool" where
  "invalidates_payload cfg = bz_equivocation cfg"

section \<open>The signed versions\<close>

definition resign :: "CryptoLib \<Rightarrow> byte list \<Rightarrow> Header \<Rightarrow> Header" where
  "resign lib secret h = (let id = header_digest lib h in h\<lparr>h_id := id, h_signature := sig_new lib id secret\<rparr>)"

text \<open>One Mahi-Mahi version: every \<open>count\<close>-th batch, and only the matching branch as own parent.\<close>

definition mahi_variant ::
    "CryptoLib \<Rightarrow> byte list \<Rightarrow> Header \<Rightarrow> (nat \<times> Digest) list \<Rightarrow> nat \<Rightarrow> nat \<Rightarrow> Header" where
  "mahi_variant lib secret canonical branches variants index =
     (let tag = index + 1;
          payload = map snd (filter (\<lambda>(i, _). i mod variants = index) (enumerate 0 (h_payload canonical)));
          kept = filter (\<lambda>digest. digest \<notin> set (values_of branches)) (h_parents canonical);
          parents = (case map_of branches tag of None \<Rightarrow> kept | Some parent \<Rightarrow> btree_set (parent # kept))
      in resign lib secret (canonical\<lparr>h_payload := payload, h_parents := parents, h_equivocation_tag := tag\<rparr>))"

text \<open>One certified version: the canonical header without its \<open>tag\<close>-th batch, if there is one.\<close>

definition certified_variant :: "CryptoLib \<Rightarrow> byte list \<Rightarrow> Header \<Rightarrow> nat \<Rightarrow> Header" where
  "certified_variant lib secret canonical tag =
     (let payload = (if tag - 1 < length (h_payload canonical)
                     then take (tag - 1) (h_payload canonical) @ drop tag (h_payload canonical)
                     else h_payload canonical)
      in resign lib secret (canonical\<lparr>h_payload := payload, h_equivocation_tag := tag\<rparr>))"

definition signed_attack_headers ::
    "CryptoLib \<Rightarrow> byte list \<Rightarrow> ByzantineConfig \<Rightarrow> Header \<Rightarrow> DagProtocol \<Rightarrow> (nat \<times> Digest) list \<Rightarrow> Header list" where
  "signed_attack_headers lib secret cfg canonical dp branches =
     (if \<not> bz_equivocation cfg \<or> h_round canonical = 0 then [canonical]
      else if is_mahi_mahi dp
      then (let variants = max (bz_variant_count cfg) 1
            in map (mahi_variant lib secret canonical branches variants) [0..<variants])
      else canonical # map (certified_variant lib secret canonical) [1..<Suc (bz_variant_count cfg)])"

section \<open>The routes\<close>

type_synonym Peer = "PublicKey \<times> Stake \<times> SocketAddr"

definition peer_list :: "Committee \<Rightarrow> PublicKey \<Rightarrow> Peer list" where
  "peer_list c own_name =
     map (\<lambda>(name, authority). (name, stake c name, primary_to_primary authority)) (others_primaries c own_name)"

definition byzantine_peers :: "ByzantineConfig \<Rightarrow> Committee \<Rightarrow> PublicKey \<Rightarrow> Peer list \<times> Peer list" where
  "byzantine_peers cfg c own_name =
     (sort_key fst (filter (\<lambda>(_, _, a). a \<notin> set (bz_addresses cfg)) (peer_list c own_name)),
      sort_key fst (filter (\<lambda>(_, _, a). a \<in> set (bz_addresses cfg)) (peer_list c own_name)))"

fun honest_needed :: "Committee \<Rightarrow> Stake \<Rightarrow> Peer list \<Rightarrow> nat" where
  "honest_needed c weight [] = 0"
| "honest_needed c weight ((_, honest_stake, _) # honest) =
     (if weight \<ge> quorum_threshold c then 0 else Suc (honest_needed c (weight + honest_stake) honest))"

definition canonical_honest_count :: "ByzantineConfig \<Rightarrow> Committee \<Rightarrow> PublicKey \<Rightarrow> nat" where
  "canonical_honest_count cfg c own_name =
     (let (honest, byzantine) = byzantine_peers cfg c own_name
      in honest_needed c (stake c own_name + sum_list (map (\<lambda>(_, s, _). s) byzantine)) honest)"

definition peer_address :: "Peer \<Rightarrow> SocketAddr" where
  "peer_address p = snd (snd p)"

definition canonical_targets :: "ByzantineConfig \<Rightarrow> Committee \<Rightarrow> PublicKey \<Rightarrow> SocketAddr list" where
  "canonical_targets cfg c own_name =
     (if \<not> bz_equivocation cfg then map (\<lambda>(_, authority). primary_to_primary authority) (others_primaries c own_name)
      else (let (honest, byzantine) = byzantine_peers cfg c own_name;
                honest_count = canonical_honest_count cfg c own_name
            in map peer_address byzantine @ map peer_address (take honest_count honest)))"

definition variant_targets :: "ByzantineConfig \<Rightarrow> Committee \<Rightarrow> PublicKey \<Rightarrow> nat \<Rightarrow> bool \<Rightarrow> SocketAddr list" where
  "variant_targets cfg c own_name tag mahi_mahi =
     (if \<not> bz_equivocation cfg \<or> tag = 0 then []
      else (let (honest, byzantine) = byzantine_peers cfg c own_name;
                first_honest = (if mahi_mahi then 0 else canonical_honest_count cfg c own_name);
                honest_index = first_honest + tag - 1
            in map peer_address byzantine @
               (if honest_index < length honest then [peer_address (honest ! honest_index)] else [])))"

section \<open>Properties of the routes\<close>

definition honest_addresses :: "ByzantineConfig \<Rightarrow> Committee \<Rightarrow> PublicKey \<Rightarrow> SocketAddr list" where
  "honest_addresses cfg c own_name = map peer_address (fst (byzantine_peers cfg c own_name))"

lemma honest_not_byzantine: "a \<in> set (honest_addresses cfg c n) \<Longrightarrow> a \<notin> set (bz_addresses cfg)"
  by (auto simp: honest_addresses_def byzantine_peers_def peer_address_def)

lemma byzantine_are_byzantine: "a \<in> set (map peer_address (snd (byzantine_peers cfg c n))) \<Longrightarrow> a \<in> set (bz_addresses cfg)"
  by (auto simp: byzantine_peers_def peer_address_def)

lemma honest_distinct:
  assumes "distinct (map peer_address (peer_list c n))"
  shows "distinct (honest_addresses cfg c n)"
proof -
  let ?f = "filter (\<lambda>(_, _, a). a \<notin> set (bz_addresses cfg)) (peer_list c n)"
  have "distinct (map peer_address ?f)" using assms by (rule distinct_map_filter)
  moreover have "mset (map peer_address (sort_key fst ?f)) = mset (map peer_address ?f)" by simp
  ultimately show ?thesis
    unfolding honest_addresses_def byzantine_peers_def fst_conv by (metis mset_eq_imp_distinct_iff)
qed

lemma canonical_honest:
  assumes "bz_equivocation cfg" and "a \<notin> set (bz_addresses cfg)"
  shows "a \<in> set (canonical_targets cfg c n) \<longleftrightarrow> a \<in> set (take (canonical_honest_count cfg c n) (honest_addresses cfg c n))"
  using assms byzantine_are_byzantine [of a cfg c n]
  by (cases "byzantine_peers cfg c n") (auto simp: canonical_targets_def honest_addresses_def take_map Let_def)

lemma variant_honest:
  assumes "bz_equivocation cfg" and "1 \<le> tag" and "a \<notin> set (bz_addresses cfg)"
  shows "a \<in> set (variant_targets cfg c n tag mahi) \<longleftrightarrow>
    (let i = (if mahi then 0 else canonical_honest_count cfg c n) + tag - 1
     in i < length (honest_addresses cfg c n) \<and> a = honest_addresses cfg c n ! i)"
  using assms byzantine_are_byzantine [of a cfg c n]
  by (cases "byzantine_peers cfg c n") (auto simp: variant_targets_def honest_addresses_def Let_def)

text \<open>
  Routes of an equivocation.  When the peers have different addresses, no honest peer is
  sent two versions of one proposal: the canonical version and a branch reach different
  honest peers, and so do two branches.
\<close>

theorem attack_routes_disjoint:
  assumes "bz_equivocation cfg" and "distinct (map peer_address (peer_list c n))" and "1 \<le> tag" and "1 \<le> tag'" and "tag \<noteq> tag'"
  shows "set (canonical_targets cfg c n) \<inter> set (variant_targets cfg c n tag False) \<subseteq> set (bz_addresses cfg) \<and>
    set (variant_targets cfg c n tag mahi) \<inter> set (variant_targets cfg c n tag' mahi) \<subseteq> set (bz_addresses cfg)"
proof -
  let ?H = "honest_addresses cfg c n" and ?k = "canonical_honest_count cfg c n"
  have H: "distinct ?H" by (rule honest_distinct [OF assms(2)])
  have "\<not> (a \<in> set (canonical_targets cfg c n) \<and> a \<in> set (variant_targets cfg c n tag False))" if a: "a \<notin> set (bz_addresses cfg)" for a
  proof
    assume both: "a \<in> set (canonical_targets cfg c n) \<and> a \<in> set (variant_targets cfg c n tag False)"
    then obtain i where "i < ?k" "i < length ?H" "?H ! i = a"
      unfolding canonical_honest [OF assms(1) a] by (auto simp: in_set_conv_nth)
    moreover from both have "?k + tag - 1 < length ?H" "?H ! (?k + tag - 1) = a"
      unfolding variant_honest [OF assms(1,3) a] by (auto simp: Let_def)
    ultimately have "i = ?k + tag - 1" using H by (metis nth_eq_iff_index_eq)
    then show False using \<open>i < ?k\<close> assms(3) by simp
  qed
  moreover have "\<not> (a \<in> set (variant_targets cfg c n tag mahi) \<and> a \<in> set (variant_targets cfg c n tag' mahi))"
    if "a \<notin> set (bz_addresses cfg)" for a
    using H assms(3-5) unfolding variant_honest [OF assms(1,3) that] variant_honest [OF assms(1,4) that] Let_def
    by (auto simp: nth_eq_iff_index_eq)
  ultimately show ?thesis by blast
qed

theorem attack_routes_disjoint_witness:
  "set (variant_targets \<lparr>bz_equivocation = True, bz_variant_count = 2, bz_addresses = [''b'']\<rparr>
      \<lparr>authorities = [(PublicKey 1, \<lparr>auth_stake = 1, auth_primary = \<lparr>primary_to_primary = ''a'', worker_to_primary = []\<rparr>, auth_workers = []\<rparr>),
        (PublicKey 2, \<lparr>auth_stake = 1, auth_primary = \<lparr>primary_to_primary = ''b'', worker_to_primary = []\<rparr>, auth_workers = []\<rparr>),
        (PublicKey 3, \<lparr>auth_stake = 1, auth_primary = \<lparr>primary_to_primary = ''c'', worker_to_primary = []\<rparr>, auth_workers = []\<rparr>)]\<rparr>
      (PublicKey 2) 1 True) \<inter>
   set (variant_targets \<lparr>bz_equivocation = True, bz_variant_count = 2, bz_addresses = [''b'']\<rparr>
      \<lparr>authorities = [(PublicKey 1, \<lparr>auth_stake = 1, auth_primary = \<lparr>primary_to_primary = ''a'', worker_to_primary = []\<rparr>, auth_workers = []\<rparr>),
        (PublicKey 2, \<lparr>auth_stake = 1, auth_primary = \<lparr>primary_to_primary = ''b'', worker_to_primary = []\<rparr>, auth_workers = []\<rparr>),
        (PublicKey 3, \<lparr>auth_stake = 1, auth_primary = \<lparr>primary_to_primary = ''c'', worker_to_primary = []\<rparr>, auth_workers = []\<rparr>)]\<rparr>
      (PublicKey 2) 2 True) \<subseteq> {''b''}"
  (is "set (variant_targets ?cfg ?c ?n 1 True) \<inter> _ \<subseteq> _")
proof -
  have "distinct (map peer_address (peer_list ?c ?n))"
    by (simp add: peer_list_def peer_address_def others_primaries_def)
  from attack_routes_disjoint [of ?cfg ?c ?n 1 2 True, OF _ this] show ?thesis by simp
qed

end
