(* ===== verification/Wahoo_Messages.thy ===== *)
theory Wahoo_Messages
  imports Messages
begin

text \<open>
  The wire messages of Wahoo (\<^verbatim>\<open>primary/src/wahoo/messages.rs\<close>) and the envelope of every
  message between primaries (\<^verbatim>\<open>PrimaryMessage\<close> in \<^verbatim>\<open>primary/src/primary.rs\<close>).
\<close>

definition is_pbc_proposal :: "Header \<Rightarrow> bool" where
  "is_pbc_proposal block \<longleftrightarrow> h_wahoo_tag block = Some Pbc"

definition is_pbc_vote_complete :: "Header \<Rightarrow> bool" where
  "is_pbc_vote_complete block \<longleftrightarrow> h_wahoo_tag block = Some PbcVoteComplete"

record WahooReady =
  wr_ready_sender :: PublicKey
  wr_block_sender :: PublicKey
  wr_round :: Round
  wr_hash :: Digest
  wr_partial_sig :: "byte list"

record WahooDone =
  wd_done_sender :: PublicKey
  wd_block_sender :: PublicKey
  wd_done :: "(PublicKey \<times> byte list) list"
  wd_hash :: Digest
  wd_round :: Round

record WahooElect =
  we_sender :: PublicKey
  we_round :: Round
  we_partial_sig :: "byte list"

record WahooReVote =
  wv_revote_sender :: PublicKey
  wv_block_sender :: PublicKey
  wv_round :: Round
  wv_voted :: bool
  wv_hash :: Digest

datatype WahooMessage =
    WBlock Header
  | WVote Vote
  | WPbcCertificate Certificate
  | WEpbcCertificate Certificate
  | WElect WahooElect
  | WReady WahooReady
  | WDone WahooDone
  | WReVote WahooReVote

definition wahoo_sender :: "WahooMessage \<Rightarrow> PublicKey" where
  "wahoo_sender message =
     (case message of
        WBlock b \<Rightarrow> h_author b
      | WVote v \<Rightarrow> v_author v
      | WPbcCertificate c \<Rightarrow> cert_origin c
      | WEpbcCertificate c \<Rightarrow> cert_origin c
      | WElect e \<Rightarrow> we_sender e
      | WReady r \<Rightarrow> wr_ready_sender r
      | WDone d \<Rightarrow> wd_done_sender d
      | WReVote r \<Rightarrow> wv_revote_sender r)"

record SignedWahoo =
  sw_msg :: WahooMessage
  sw_sig :: Signature

datatype PrimaryMessage =
    HeaderMessage Header
  | VoteMessage Vote
  | CertificateMessage Certificate
  | CertificatesRequest "Digest list" PublicKey
  | WahooEnvelope SignedWahoo
  | RecpEnvelope RecpMessage

end
