(* ===== verification/Core_State.thy ===== *)
theory Core_State
  imports Synchronizer Byzantine Aggregators Mahi_Dag Wahoo_Messages
begin

text \<open>
  The state of the primary's core (\<^verbatim>\<open>struct Core\<close> in \<^verbatim>\<open>primary/src/core.rs\<close>), the effects it
  has on the other tasks, and its queries on the certified history.  Sending on a channel
  or on the network appends an event to \<open>cr_events\<close>; the receivers are assumed alive, so
  that a send does not fail.  Cancel handlers of the network, timestamps of the benchmark
  diagnostics and log lines are left out.
\<close>

datatype ShortfinBlockState = Bubble | Uncertificated | Certificated

record ProposerSignal =
  ps_round :: Round
  ps_parents_1 :: "Digest list"
  ps_parents_2 :: "Digest list"
  ps_qc :: "EmbeddedQc option"
  ps_certificates_1 :: "Certificate list"

datatype CoreEvent =
    ToHeaderWaiter WaiterMessage
  | ToCertificateWaiter Certificate
  | ToProposer ProposerSignal
  | ToConsensus Certificate
  | Send SocketAddr PrimaryMessage
  | Broadcast "SocketAddr list" PrimaryMessage

record 'db Core =
  cr_name :: PublicKey
  cr_committee :: Committee
  cr_dag_protocol :: DagProtocol
  cr_store :: 'db
  cr_synchronizer :: Synchronizer
  cr_consensus_round :: Round
  cr_gc_depth :: Round
  cr_gc_round :: Round
  cr_last_voted :: "(Round \<times> PublicKey list) list"
  cr_voted_headers :: "(Digest \<times> Round) list"
  cr_processing :: "(Round \<times> Digest list) list"
  cr_current_header :: Header
  cr_local_round :: Round
  cr_own_headers :: "(Digest \<times> Header) list"
  cr_votes_aggregators :: "(Digest \<times> VotesAggregator) list"
  cr_certificates_aggregators :: "(Round \<times> CertificatesAggregator) list"
  cr_certificates_vec_aggregators :: "(Round \<times> CertificatesVecAggregator) list"
  cr_certificates_by_round :: "(Round \<times> (PublicKey \<times> Certificate) list) list"
  cr_certificates_by_digest :: "(Digest \<times> Certificate) list"
  cr_headers_by_id :: "(Digest \<times> Header) list"
  cr_history_support_cache :: "((Digest \<times> Round) \<times> PublicKey list) list"
  cr_history_id_cache :: "((Digest \<times> Digest) \<times> bool) list"
  cr_mahi_pending_weak_refs :: "((Round \<times> PublicKey \<times> Digest) \<times> Digest) list"
  cr_pending_votes :: "(Digest \<times> Vote list) list"
  cr_shortfin_states :: "(Digest \<times> ShortfinBlockState) list"
  cr_shortfin_qcs :: "(Digest \<times> Vote list) list"
  cr_shortfin_structural_sent :: "Digest list"
  cr_shortfin_certified_sent :: "Digest list"
  cr_next_round_to_signal :: Round
  cr_pending_qc_signals :: "Round list"
  cr_byzantine :: ByzantineConfig
  cr_events :: "CoreEvent list"

definition core_new ::
    "'db CoreEnv \<Rightarrow> PublicKey \<Rightarrow> Committee \<Rightarrow> DagProtocol \<Rightarrow> 'db \<Rightarrow> Round \<Rightarrow> ByzantineConfig \<Rightarrow> 'db Core" where
  "core_new env name c dp db gc_depth byzantine =
     (let by_authority = foldl (\<lambda>m x. AList.update (cert_origin x) x m) [] (genesis c);
          by_digest = foldl (\<lambda>m x. AList.update (ce_digest env x) x m) [] (values_of by_authority)
      in \<lparr>cr_name = name, cr_committee = c, cr_dag_protocol = dp, cr_store = db,
          cr_synchronizer = synchronizer_new (ce_crypto env) name c dp, cr_consensus_round = 0,
          cr_gc_depth = gc_depth, cr_gc_round = 0, cr_last_voted = [], cr_voted_headers = [], cr_processing = [],
          cr_current_header = default_header, cr_local_round = 1, cr_own_headers = [], cr_votes_aggregators = [],
          cr_certificates_aggregators = [], cr_certificates_vec_aggregators = [],
          cr_certificates_by_round = [(0, by_authority)], cr_certificates_by_digest = by_digest,
          cr_headers_by_id = [], cr_history_support_cache = [], cr_history_id_cache = [],
          cr_mahi_pending_weak_refs = [], cr_pending_votes = [], cr_shortfin_states = [], cr_shortfin_qcs = [],
          cr_shortfin_structural_sent = [], cr_shortfin_certified_sent = [], cr_next_round_to_signal = 1,
          cr_pending_qc_signals = [], cr_byzantine = byzantine, cr_events = []\<rparr>)"

definition emit :: "CoreEvent \<Rightarrow> 'db Core \<Rightarrow> 'db Core" where
  "emit e s = s\<lparr>cr_events := cr_events s @ [e]\<rparr>"

definition certificate_to_embedded_qc :: "Certificate \<Rightarrow> EmbeddedQc" where
  "certificate_to_embedded_qc certificate =
     \<lparr>qc_target = h_id (header certificate), qc_round = cert_round certificate, qc_votes = votes certificate\<rparr>"

section \<open>Indexes\<close>

definition core_round_digests :: "'db CoreEnv \<Rightarrow> 'db Core \<Rightarrow> Round \<Rightarrow> Digest list" where
  "core_round_digests env s round =
     (case map_of (cr_certificates_by_round s) round of
        None \<Rightarrow> [] | Some by_authority \<Rightarrow> map (ce_digest env) (values_of by_authority))"

text \<open>\<^verbatim>\<open>max_by_key\<close>: the last of the maximal elements.\<close>

definition latest_certificate :: "Certificate list \<Rightarrow> Certificate option" where
  "latest_certificate cs =
     foldl (\<lambda>m x. case m of None \<Rightarrow> Some x | Some y \<Rightarrow> if cert_round y \<le> cert_round x then Some x else Some y) None cs"

definition latest_ref_digests :: "'db CoreEnv \<Rightarrow> 'db Core \<Rightarrow> Digest list" where
  "latest_ref_digests env s =
     List.map_filter (\<lambda>name. map_option (ce_digest env) (latest_certificate
         (List.map_filter (\<lambda>by_authority. map_of by_authority name) (values_of (cr_certificates_by_round s)))))
       (keys_of (authorities (cr_committee s)))"

definition record_mahi_weak_ref :: "'db CoreEnv \<Rightarrow> Certificate \<Rightarrow> 'db Core \<Rightarrow> 'db Core" where
  "record_mahi_weak_ref env certificate s =
     (if \<not> is_mahi_mahi (cr_dag_protocol s) \<or> cert_round certificate = 0 then s
      else (let digest = ce_digest env certificate
            in s\<lparr>cr_mahi_pending_weak_refs :=
                 AList.update (cert_round certificate, cert_origin certificate, digest) digest (cr_mahi_pending_weak_refs s)\<rparr>))"

definition index_certificate :: "'db CoreEnv \<Rightarrow> Certificate \<Rightarrow> 'db Core \<Rightarrow> 'db Core" where
  "index_certificate env certificate s =
     s\<lparr>cr_headers_by_id := AList.update (h_id (header certificate)) (header certificate) (cr_headers_by_id s),
       cr_certificates_by_digest := AList.update (ce_digest env certificate) certificate (cr_certificates_by_digest s)\<rparr>"

definition index_roots :: "'db CoreEnv \<Rightarrow> Certificate list \<Rightarrow> 'db Core \<Rightarrow> 'db Core" where
  "index_roots env roots s = foldl (\<lambda>s certificate. index_certificate env certificate s) s roots"

definition shortfin_payload_available :: "'db Core \<Rightarrow> Digest \<Rightarrow> bool" where
  "shortfin_payload_available s hid \<longleftrightarrow>
     (case map_of (cr_shortfin_states s) hid of
        Some Uncertificated \<Rightarrow> True | Some Certificated \<Rightarrow> True | _ \<Rightarrow> False)"

definition record_shortfin_qc :: "Digest \<Rightarrow> Vote list \<Rightarrow> 'db Core \<Rightarrow> 'db Core" where
  "record_shortfin_qc hid qc s =
     (let s1 = (if contains_key (cr_shortfin_qcs s) hid then s
                else s\<lparr>cr_shortfin_qcs := AList.update hid qc (cr_shortfin_qcs s)\<rparr>)
      in if map_of (cr_shortfin_states s1) hid = Some Uncertificated
         then s1\<lparr>cr_shortfin_states := AList.update hid Certificated (cr_shortfin_states s1)\<rparr> else s1)"

definition mark_shortfin_payload_available :: "Digest \<Rightarrow> 'db Core \<Rightarrow> 'db Core" where
  "mark_shortfin_payload_available hid s =
     (let state = (if contains_key (cr_shortfin_qcs s) hid then Certificated else Uncertificated)
      in s\<lparr>cr_shortfin_states := AList.update hid state (cr_shortfin_states s)\<rparr>)"

section \<open>Support in the history\<close>

text \<open>
  The authors of a round that a certificate reaches through its parents; None when a
  certificate on the way is not known.  A certificate that is being visited contributes
  nobody.
\<close>

function (sequential) reachable_authors_at_round ::
    "(Digest \<times> Certificate) list \<Rightarrow> ((Digest \<times> Round) \<times> PublicKey list) list \<Rightarrow> Digest \<Rightarrow> Round \<Rightarrow> Digest list
     \<Rightarrow> ((Digest \<times> Round) \<times> PublicKey list) list \<times> PublicKey list option"
  and reachable_authors_loop ::
    "(Digest \<times> Certificate) list \<Rightarrow> ((Digest \<times> Round) \<times> PublicKey list) list \<Rightarrow> Round \<Rightarrow> Digest list \<Rightarrow> PublicKey list
     \<Rightarrow> Digest list \<Rightarrow> ((Digest \<times> Round) \<times> PublicKey list) list \<times> PublicKey list option" where
  "reachable_authors_at_round blocks cache root round visiting =
     (case map_of cache (root, round) of
        Some authors \<Rightarrow> (cache, Some authors)
      | None \<Rightarrow>
          if root \<in> set visiting then (cache, Some [])
          else (case map_of blocks root of
                  None \<Rightarrow> (cache, None)
                | Some certificate \<Rightarrow>
                    (if cert_round certificate = round
                     then (AList.update (root, round) [cert_origin certificate] cache, Some [cert_origin certificate])
                     else if cert_round certificate > round
                     then (case reachable_authors_loop blocks cache round (root # visiting) []
                                  (h_parents (header certificate) @ h_parents_2 (header certificate)) of
                             (cache1, None) \<Rightarrow> (cache1, None)
                           | (cache1, Some authors) \<Rightarrow> (AList.update (root, round) authors cache1, Some authors))
                     else (AList.update (root, round) [] cache, Some []))))"
| "reachable_authors_loop blocks cache round visiting authors [] = (cache, Some authors)"
| "reachable_authors_loop blocks cache round visiting authors (parent # parents) =
     (case reachable_authors_at_round blocks cache parent round visiting of
        (cache1, None) \<Rightarrow> (cache1, None)
      | (cache1, Some found) \<Rightarrow>
          reachable_authors_loop blocks cache1 round visiting (List.union found authors) parents)"
  by pat_completeness auto

termination
proof (relation "(\<lambda>x. case x of
      Inl (blocks, cache, root, round, visiting) \<Rightarrow> unvisited blocks visiting
    | Inr (blocks, cache, round, visiting, authors, parents) \<Rightarrow> unvisited blocks visiting) <*mlex*>
    measure (\<lambda>x. case x of Inl _ \<Rightarrow> 0 | Inr (blocks, cache, round, visiting, authors, parents) \<Rightarrow> Suc (length parents))")
qed (auto simp: wf_mlex mlex_iff unvisited_Cons)

declare reachable_authors_at_round.simps [simp del] reachable_authors_loop.simps [simp del]

fun roots_authors ::
    "'db CoreEnv \<Rightarrow> (Digest \<times> Certificate) list \<Rightarrow> ((Digest \<times> Round) \<times> PublicKey list) list \<Rightarrow> Round \<Rightarrow> PublicKey list
     \<Rightarrow> Certificate list \<Rightarrow> ((Digest \<times> Round) \<times> PublicKey list) list \<times> PublicKey list" where
  "roots_authors env blocks cache round authors [] = (cache, authors)"
| "roots_authors env blocks cache round authors (root # roots) =
     (case reachable_authors_at_round blocks cache (ce_digest env root) round [] of
        (cache1, None) \<Rightarrow> roots_authors env blocks cache1 round authors roots
      | (cache1, Some root_authors) \<Rightarrow> roots_authors env blocks cache1 round (List.union root_authors authors) roots)"

definition history_authors_at_round_from_roots ::
    "'db CoreEnv \<Rightarrow> Certificate list \<Rightarrow> Round \<Rightarrow> 'db Core \<Rightarrow> 'db Core \<times> PublicKey list" where
  "history_authors_at_round_from_roots env roots round s =
     (let s1 = index_roots env roots s;
          r = roots_authors env (cr_certificates_by_digest s1) (cr_history_support_cache s1) round [] roots
      in (s1\<lparr>cr_history_support_cache := fst r\<rparr>, snd r))"

definition history_support_weight_from_roots ::
    "'db CoreEnv \<Rightarrow> Certificate list \<Rightarrow> Round \<Rightarrow> 'db Core \<Rightarrow> 'db Core \<times> Stake" where
  "history_support_weight_from_roots env roots round s =
     (let r = history_authors_at_round_from_roots env roots round s
      in (fst r, sum_list (map (stake (cr_committee s)) (snd r))))"

section \<open>Headers in the history\<close>

function (sequential) history_contains_header_from_root ::
    "(Digest \<times> Certificate) list \<Rightarrow> ((Digest \<times> Digest) \<times> bool) list \<Rightarrow> Digest \<Rightarrow> PublicKey \<Rightarrow> Round \<Rightarrow> Digest \<Rightarrow> Digest list
     \<Rightarrow> ((Digest \<times> Digest) \<times> bool) list \<times> bool option"
  and history_contains_loop ::
    "(Digest \<times> Certificate) list \<Rightarrow> ((Digest \<times> Digest) \<times> bool) list \<Rightarrow> Digest \<Rightarrow> PublicKey \<Rightarrow> Round \<Rightarrow> Digest \<Rightarrow> Digest list
     \<Rightarrow> Digest list \<Rightarrow> ((Digest \<times> Digest) \<times> bool) list \<times> bool option" where
  "history_contains_header_from_root blocks cache hid origin min_round root visiting =
     (case map_of cache (root, hid) of
        Some contains \<Rightarrow> (cache, Some contains)
      | None \<Rightarrow>
          if root \<in> set visiting then (cache, Some False)
          else (case map_of blocks root of
                  None \<Rightarrow> (cache, None)
                | Some certificate \<Rightarrow>
                    if h_id (header certificate) = hid \<and> cert_origin certificate = origin \<and> cert_round certificate = min_round
                    then (AList.update (root, hid) True cache, Some True)
                    else if cert_round certificate < min_round
                    then (AList.update (root, hid) False cache, Some False)
                    else history_contains_loop blocks cache hid origin min_round root (root # visiting)
                           (h_parents (header certificate) @ h_parents_2 (header certificate))))"
| "history_contains_loop blocks cache hid origin min_round root visiting [] =
     (AList.update (root, hid) False cache, Some False)"
| "history_contains_loop blocks cache hid origin min_round root visiting (parent # parents) =
     (case history_contains_header_from_root blocks cache hid origin min_round parent visiting of
        (cache1, Some True) \<Rightarrow> (AList.update (root, hid) True cache1, Some True)
      | (cache1, Some False) \<Rightarrow> history_contains_loop blocks cache1 hid origin min_round root visiting parents
      | (cache1, None) \<Rightarrow> (cache1, None))"
  by pat_completeness auto

termination
proof (relation "(\<lambda>x. case x of
      Inl (blocks, cache, hid, origin, min_round, root, visiting) \<Rightarrow> unvisited blocks visiting
    | Inr (blocks, cache, hid, origin, min_round, root, visiting, parents) \<Rightarrow> unvisited blocks visiting) <*mlex*>
    measure (\<lambda>x. case x of Inl _ \<Rightarrow> 0
      | Inr (blocks, cache, hid, origin, min_round, root, visiting, parents) \<Rightarrow> Suc (length parents))")
qed (auto simp: wf_mlex mlex_iff unvisited_Cons)

declare history_contains_header_from_root.simps [simp del] history_contains_loop.simps [simp del]

fun any_root_contains ::
    "'db CoreEnv \<Rightarrow> (Digest \<times> Certificate) list \<Rightarrow> ((Digest \<times> Digest) \<times> bool) list \<Rightarrow> Digest \<Rightarrow> PublicKey \<Rightarrow> Round
     \<Rightarrow> Certificate list \<Rightarrow> ((Digest \<times> Digest) \<times> bool) list \<times> bool" where
  "any_root_contains env blocks cache hid origin round [] = (cache, False)"
| "any_root_contains env blocks cache hid origin round (root # roots) =
     (case history_contains_header_from_root blocks cache hid origin round (ce_digest env root) [] of
        (cache1, Some True) \<Rightarrow> (cache1, True)
      | (cache1, _) \<Rightarrow> any_root_contains env blocks cache1 hid origin round roots)"

definition history_contains_header_from_roots ::
    "'db CoreEnv \<Rightarrow> Certificate list \<Rightarrow> Digest \<Rightarrow> PublicKey \<Rightarrow> Round \<Rightarrow> 'db Core \<Rightarrow> 'db Core \<times> bool" where
  "history_contains_header_from_roots env roots hid origin round s =
     (let s1 = index_roots env roots s
      in if list_ex (\<lambda>root. h_id (header root) = hid \<and> cert_origin root = origin \<and> cert_round root = round) roots
         then (s1, True)
         else (let r = any_root_contains env (cr_certificates_by_digest s1) (cr_history_id_cache s1) hid origin round roots
               in (s1\<lparr>cr_history_id_cache := fst r\<rparr>, snd r)))"

section \<open>Parents of a Mahi-Mahi block\<close>

fun weak_parents ::
    "'db CoreEnv \<Rightarrow> Certificate list \<Rightarrow> Digest list \<Rightarrow> ((Round \<times> PublicKey \<times> Digest) \<times> Digest) list \<Rightarrow> 'db Core
     \<Rightarrow> 'db Core \<times> Digest list" where
  "weak_parents env roots parents [] s = (s, parents)"
| "weak_parents env roots parents ((slot, digest) # pending) s =
     (let remove = (\<lambda>s. s\<lparr>cr_mahi_pending_weak_refs := AList.delete slot (cr_mahi_pending_weak_refs s)\<rparr>)
      in case map_of (cr_certificates_by_digest s) digest of
           None \<Rightarrow> weak_parents env roots parents pending (remove s)
         | Some candidate \<Rightarrow>
             if digest \<in> set parents then weak_parents env roots parents pending (remove s)
             else (case history_contains_header_from_roots env roots (h_id (header candidate)) (cert_origin candidate)
                          (cert_round candidate) s of
                     (s1, covered) \<Rightarrow>
                       weak_parents env roots (if covered then parents else insort digest parents) pending (remove s1)))"

definition mahi_parent_digests :: "'db CoreEnv \<Rightarrow> Digest list \<Rightarrow> Round \<Rightarrow> 'db Core \<Rightarrow> 'db Core \<times> Digest list" where
  "mahi_parent_digests env strong round s =
     weak_parents env (List.map_filter (map_of (cr_certificates_by_digest s)) strong) (btree_set strong)
       (filter (\<lambda>((candidate_round, _, _), _). candidate_round \<le> round) (btree_iter (cr_mahi_pending_weak_refs s))) s"

end
