(* ===== verification/Core.thy ===== *)
theory Core
  imports Core_State Mahi_History
begin

text \<open>
  The handlers of the primary's core (\<^verbatim>\<open>impl Core\<close> in \<^verbatim>\<open>primary/src/core.rs\<close>).  A handler is a
  function from the state to the state it leaves, also when it fails, and its result: a
  \<^verbatim>\<open>DagError\<close>, a panic, or a value.  The handlers call each other in a cycle through
  \<^verbatim>\<open>process_certificate\<close>; they take it as a parameter \<open>pc\<close>, and \<open>process_certificate\<close> ties
  the knot with the depth of the nesting as fuel.
\<close>

section \<open>Handlers\<close>

datatype CoreError = Dag DagError | CorePanic string | OutOfFuel

type_synonym ('db, 'a) core = "'db Core \<Rightarrow> 'db Core \<times> (CoreError + 'a)"

definition cret :: "'a \<Rightarrow> ('db, 'a) core" where
  "cret x s = (s, Inr x)"

definition craise :: "CoreError \<Rightarrow> ('db, 'a) core" where
  "craise e s = (s, Inl e)"

definition cbind :: "('db, 'a) core \<Rightarrow> ('a \<Rightarrow> ('db, 'b) core) \<Rightarrow> ('db, 'b) core" where
  "cbind m f s = (case m s of (s1, Inl e) \<Rightarrow> (s1, Inl e) | (s1, Inr x) \<Rightarrow> f x s1)"

definition cget :: "('db Core \<Rightarrow> 'a) \<Rightarrow> ('db, 'a) core" where
  "cget f s = (s, Inr (f s))"

definition cupd :: "('db Core \<Rightarrow> 'db Core) \<Rightarrow> ('db, unit) core" where
  "cupd f s = (f s, Inr ())"

definition crun :: "('db Core \<Rightarrow> 'db Core \<times> 'a) \<Rightarrow> ('db, 'a) core" where
  "crun f s = (case f s of (s1, x) \<Rightarrow> (s1, Inr x))"

definition clift :: "'a dag_result \<Rightarrow> ('db, 'a) core" where
  "clift r s = (s, case r of Inl e \<Rightarrow> Inl (Dag e) | Inr x \<Rightarrow> Inr x)"

definition censure :: "bool \<Rightarrow> DagError \<Rightarrow> ('db, unit) core" where
  "censure b e = clift (ensure b e)"

text \<open>\<^verbatim>\<open>expect\<close> turns an error into a panic; a logged error is dropped.\<close>

definition cexpect :: "string \<Rightarrow> ('db, 'a) core \<Rightarrow> ('db, 'a) core" where
  "cexpect msg m s = (case m s of (s1, Inl (Dag e)) \<Rightarrow> (s1, Inl (CorePanic msg)) | r \<Rightarrow> r)"

definition cwarn :: "('db, unit) core \<Rightarrow> ('db, unit) core" where
  "cwarn m s = (case m s of (s1, Inl (Dag e)) \<Rightarrow> (s1, Inr ()) | r \<Rightarrow> r)"

fun cfor :: "('x \<Rightarrow> ('db, unit) core) \<Rightarrow> 'x list \<Rightarrow> ('db, unit) core" where
  "cfor f [] = cret ()"
| "cfor f (x # xs) = cbind (f x) (\<lambda>_. cfor f xs)"

definition send :: "CoreEvent \<Rightarrow> ('db, unit) core" where
  "send e = cupd (emit e)"

definition store_write :: "'db CoreEnv \<Rightarrow> Key \<Rightarrow> Value \<Rightarrow> ('db, unit) core" where
  "store_write env key v = cupd (\<lambda>s. s\<lparr>cr_store := kv_put (ce_kv env) (cr_store s) key v\<rparr>)"

section \<open>Signals to the proposer\<close>

definition round_weight :: "'db Core \<Rightarrow> Round \<Rightarrow> Stake" where
  "round_weight s round =
     (case map_of (cr_certificates_by_round s) round of
        None \<Rightarrow> 0 | Some by_authority \<Rightarrow> sum_list (map (stake (cr_committee s)) (keys_of by_authority)))"

text \<open>One iteration of the loop: None is a \<^verbatim>\<open>break\<close>.\<close>

definition signal_step :: "'db CoreEnv \<Rightarrow> 'db Core \<Rightarrow> 'db Core option" where
  "signal_step env s =
     (let round = cr_next_round_to_signal s
      in case map_of (cr_certificates_by_round s) round of
           None \<Rightarrow> None
         | Some by_authority \<Rightarrow>
             if round_weight s round < quorum_threshold (cr_committee s) then None
             else (let parents_1 = core_round_digests env s round
             in if parents_1 = [] then None
             else (let previous_round = (if round = 1 then 0 else round - 1)
             in if is_mahi_mahi (cr_dag_protocol s)
             then (let (s1, parents) = mahi_parent_digests env parents_1 round s
                   in Some ((emit (ToProposer \<lparr>ps_round = round + 1, ps_parents_1 = parents, ps_parents_2 = [],
                                               ps_qc = None, ps_certificates_1 = []\<rparr>) s1)
                            \<lparr>cr_next_round_to_signal := round + 1\<rparr>))
             else if is_shortfin_family (cr_dag_protocol s)
             then (let refs = latest_ref_digests env s;
                       own = (case map_of by_authority (cr_name s) of
                                None \<Rightarrow> None | Some x \<Rightarrow> if votes x = [] then None else Some x);
                       qc = map_option certificate_to_embedded_qc own
                   in if 1 \<le> round \<and> qc = None then None
                      else Some ((emit (ToProposer \<lparr>ps_round = round + 1, ps_parents_1 = refs, ps_parents_2 = [],
                                                    ps_qc = qc, ps_certificates_1 = []\<rparr>) s)
                                 \<lparr>cr_local_round := max (cr_local_round s) (round + 1), cr_next_round_to_signal := round + 1\<rparr>))
             else (let parents_2 = core_round_digests env s previous_round;
                       qc = map_option certificate_to_embedded_qc (map_of by_authority (cr_name s))
                   in if 2 \<le> round \<and> round_weight s previous_round < quorum_threshold (cr_committee s) then None
                      else if 1 \<le> round \<and> qc = None then None
                      else Some ((emit (ToProposer \<lparr>ps_round = round + 1, ps_parents_1 = parents_1, ps_parents_2 = parents_2,
                                                    ps_qc = qc, ps_certificates_1 = []\<rparr>) s)
                                 \<lparr>cr_next_round_to_signal := round + 1\<rparr>)))))"

text \<open>The queries on the history only change the indexes and the caches.\<close>

definition core_frame :: "'db Core \<Rightarrow> 'db Core" where
  "core_frame s = s\<lparr>cr_headers_by_id := [], cr_certificates_by_digest := [], cr_history_support_cache := [],
     cr_history_id_cache := [], cr_mahi_pending_weak_refs := []\<rparr>"

lemma core_frame_fields:
  assumes "core_frame s = core_frame s'"
  shows "cr_certificates_by_round s = cr_certificates_by_round s'" "cr_next_round_to_signal s = cr_next_round_to_signal s'"
    and "cr_events s = cr_events s'" "cr_last_voted s = cr_last_voted s'" "cr_voted_headers s = cr_voted_headers s'"
    and "cr_own_headers s = cr_own_headers s'" "cr_gc_round s = cr_gc_round s'" "cr_name s = cr_name s'"
    and "cr_dag_protocol s = cr_dag_protocol s'" "cr_committee s = cr_committee s'" "cr_byzantine s = cr_byzantine s'"
    and "cr_store s = cr_store s'" "cr_processing s = cr_processing s'" "cr_synchronizer s = cr_synchronizer s'"
    and "cr_pending_votes s = cr_pending_votes s'" "cr_consensus_round s = cr_consensus_round s'"
    and "cr_gc_depth s = cr_gc_depth s'" "cr_pending_qc_signals s = cr_pending_qc_signals s'"
  using assms by (cases s; cases s'; simp add: core_frame_def)+

lemma index_roots_frame [simp]: "core_frame (index_roots env roots s) = core_frame s"
  by (induction roots arbitrary: s) (simp_all add: index_roots_def index_certificate_def core_frame_def)

lemma core_frame_updates [simp]:
  "core_frame (s\<lparr>cr_history_id_cache := ids\<rparr>) = core_frame s"
  "core_frame (s\<lparr>cr_history_support_cache := support\<rparr>) = core_frame s"
  "core_frame (s\<lparr>cr_mahi_pending_weak_refs := weak\<rparr>) = core_frame s"
  by (simp_all add: core_frame_def)

lemma history_queries_frame [simp]:
  "core_frame (fst (history_authors_at_round_from_roots env roots round s)) = core_frame s"
  "core_frame (fst (history_support_weight_from_roots env roots round s)) = core_frame s"
  "core_frame (fst (history_contains_header_from_roots env roots hid origin round s)) = core_frame s"
  by (simp_all add: history_authors_at_round_from_roots_def history_support_weight_from_roots_def
      history_contains_header_from_roots_def Let_def)

lemma weak_parents_frame:
  "core_frame (fst (weak_parents env roots parents pending s)) = core_frame s"
proof (induction pending arbitrary: parents s)
  case (Cons p pending)
  obtain slot digest where p: "p = (slot, digest)" by (cases p)
  have "core_frame s1 = core_frame s"
    if "history_contains_header_from_roots env roots hid origin round s = (s1, covered)" for hid origin round s1 covered
    using history_queries_frame(3) [of env roots hid origin round s] that by simp
  then show ?case by (auto simp: p Let_def Cons.IH split: option.split prod.split)
qed simp

lemma mahi_parent_digests_frame [simp]:
  "core_frame (fst (mahi_parent_digests env strong round s)) = core_frame s"
  by (simp add: mahi_parent_digests_def weak_parents_frame)

lemma signal_step_progress:
  assumes "signal_step env s = Some s'"
  shows "cr_next_round_to_signal s \<in> set (keys_of (cr_certificates_by_round s))"
    and "cr_certificates_by_round s' = cr_certificates_by_round s"
    and "cr_next_round_to_signal s' = cr_next_round_to_signal s + 1"
proof -
  show "cr_next_round_to_signal s \<in> set (keys_of (cr_certificates_by_round s))"
    using assms by (force simp: signal_step_def Let_def split: option.splits dest: map_of_SomeD)
  show "cr_certificates_by_round s' = cr_certificates_by_round s" and "cr_next_round_to_signal s' = cr_next_round_to_signal s + 1"
    using assms mahi_parent_digests_frame [THEN core_frame_fields(1)]
    by (auto simp: signal_step_def Let_def emit_def case_prod_beta split: option.splits if_splits)
qed

function try_signal_proposer :: "'db CoreEnv \<Rightarrow> 'db Core \<Rightarrow> 'db Core" where
  "try_signal_proposer env s =
     (case signal_step env s of None \<Rightarrow> s | Some s1 \<Rightarrow> try_signal_proposer env s1)"
  by pat_completeness auto

termination
proof (relation "measure (\<lambda>(env, s). card {r \<in> set (keys_of (cr_certificates_by_round s)). cr_next_round_to_signal s \<le> r})")
  fix env :: "'db CoreEnv" and s s1 :: "'db Core"
  assume step: "signal_step env s = Some s1"
  let ?rounds = "\<lambda>n. {r \<in> set (keys_of (cr_certificates_by_round s)). n \<le> r}"
  have "cr_next_round_to_signal s \<in> ?rounds (cr_next_round_to_signal s) - ?rounds (cr_next_round_to_signal s + 1)"
    using signal_step_progress(1) [OF step] by simp
  moreover have "?rounds (cr_next_round_to_signal s + 1) \<subseteq> ?rounds (cr_next_round_to_signal s)" by auto
  ultimately have "?rounds (cr_next_round_to_signal s + 1) \<subset> ?rounds (cr_next_round_to_signal s)" by blast
  then have "card {r \<in> set (keys_of (cr_certificates_by_round s)). cr_next_round_to_signal s + 1 \<le> r}
      < card {r \<in> set (keys_of (cr_certificates_by_round s)). cr_next_round_to_signal s \<le> r}"
    by (intro psubset_card_mono) auto
  then show "((env, s1), (env, s)) \<in> measure (\<lambda>(env, s).
      card {r \<in> set (keys_of (cr_certificates_by_round s)). cr_next_round_to_signal s \<le> r})"
    by (simp add: signal_step_progress(2,3) [OF step])
qed simp

declare try_signal_proposer.simps [simp del]

text \<open>Nothing inserts into \<^verbatim>\<open>pending_qc_signals\<close>, so the signal is never sent.\<close>

definition send_qc_signal :: "Certificate \<Rightarrow> 'db Core \<Rightarrow> 'db Core" where
  "send_qc_signal certificate s =
     (let target_round = cert_round certificate + 1
      in if target_round \<in> set (cr_pending_qc_signals s)
         then emit (ToProposer \<lparr>ps_round = target_round, ps_parents_1 = [], ps_parents_2 = [],
                                ps_qc = Some (certificate_to_embedded_qc certificate), ps_certificates_1 = []\<rparr>)
                (s\<lparr>cr_pending_qc_signals := removeAll target_round (cr_pending_qc_signals s)\<rparr>)
         else s)"

section \<open>Votes\<close>

definition process_vote_with :: "(Certificate \<Rightarrow> ('db, unit) core) \<Rightarrow> Vote \<Rightarrow> ('db, unit) core" where
  "process_vote_with pc vote =
     cbind (cget (\<lambda>s. map_of (cr_own_headers s) (v_id vote))) (\<lambda>found.
     case found of
       None \<Rightarrow> craise (Dag (UnexpectedVote (v_id vote)))
     | Some h \<Rightarrow>
         cbind (crun (\<lambda>s.
             let agg = (case map_of (cr_votes_aggregators s) (h_id h) of None \<Rightarrow> votes_aggregator_new | Some a \<Rightarrow> a);
                 r = votes_append (cr_committee s) h agg vote
             in (s\<lparr>cr_votes_aggregators := AList.update (h_id h) (fst r) (cr_votes_aggregators s)\<rparr>, snd r))) (\<lambda>assembled.
         case assembled of
           None \<Rightarrow> cret ()
         | Some certificate \<Rightarrow>
             cbind (cupd (\<lambda>s.
                 if is_uncertified_dag (cr_dag_protocol s) then s
                 else emit (Broadcast (map (\<lambda>(_, x). primary_to_primary x) (others_primaries (cr_committee s) (cr_name s)))
                              (CertificateMessage certificate)) s)) (\<lambda>_.
             cexpect ''Failed to process valid certificate'' (pc certificate))))"

definition vote_for_header_with :: "'db CoreEnv \<Rightarrow> (Certificate \<Rightarrow> ('db, unit) core) \<Rightarrow> Header \<Rightarrow> ('db, unit) core" where
  "vote_for_header_with env pc h =
     cbind (cget (\<lambda>s. contains_key (cr_voted_headers s) (h_id h))) (\<lambda>voted.
     if voted then cret ()
     else
       cbind (crun (\<lambda>s.
           let authors = (case map_of (cr_last_voted s) (h_round h) of None \<Rightarrow> [] | Some xs \<Rightarrow> xs)
           in (s\<lparr>cr_last_voted := AList.update (h_round h) (List.insert (h_author h) authors) (cr_last_voted s)\<rparr>,
               h_author h \<notin> set authors))) (\<lambda>first.
       cbind (cget (\<lambda>s. allows_multiple_votes (cr_byzantine s))) (\<lambda>multiple.
       if \<not> first \<and> \<not> multiple then cret ()
       else
         cbind (cupd (\<lambda>s. s\<lparr>cr_voted_headers := AList.update (h_id h) (h_round h) (cr_voted_headers s)\<rparr>)) (\<lambda>_.
         cbind (cget (\<lambda>s. vote_new (ce_crypto env) (ce_secret env) h
                  (if is_shortfin_family (cr_dag_protocol s) then cr_local_round s else h_round h) (cr_name s))) (\<lambda>vote.
         cbind (cget cr_name) (\<lambda>name.
         if v_origin vote = name
         then cexpect ''Failed to process our own vote'' (process_vote_with pc vote)
         else
           cbind (cget (\<lambda>s. committee_primary (cr_committee s) (h_author h))) (\<lambda>address.
           case address of
             Inl _ \<Rightarrow> craise (CorePanic ''Author of valid header is not in the committee'')
           | Inr a \<Rightarrow> send (Send (primary_to_primary a) (VoteMessage vote)))))))))"

definition vote_pending :: "'db Core \<Rightarrow> Vote \<Rightarrow> bool" where
  "vote_pending s vote \<longleftrightarrow> v_voter_round vote \<noteq> 0 \<and>
     (case map_of (cr_certificates_by_round s) (v_voter_round vote) of
        None \<Rightarrow> True | Some by_authority \<Rightarrow> \<not> contains_key by_authority (v_author vote))"

definition cache_pending_vote :: "Vote \<Rightarrow> 'db Core \<Rightarrow> 'db Core" where
  "cache_pending_vote vote s =
     s\<lparr>cr_pending_votes := AList.update (v_id vote)
         ((case map_of (cr_pending_votes s) (v_id vote) of None \<Rightarrow> [] | Some vs \<Rightarrow> vs) @ [vote]) (cr_pending_votes s)\<rparr>"

definition process_vote_when_countable_with ::
    "(Certificate \<Rightarrow> ('db, unit) core) \<Rightarrow> Vote \<Rightarrow> ('db, unit) core" where
  "process_vote_when_countable_with pc vote =
     cbind (cget (\<lambda>s. vote_pending s vote)) (\<lambda>pending.
     if \<not> pending then process_vote_with pc vote else cupd (cache_pending_vote vote))"

text \<open>The votes of one header that can be counted; the others are returned.\<close>

fun count_votes :: "(Certificate \<Rightarrow> ('db, unit) core) \<Rightarrow> Vote list \<Rightarrow> Vote list \<Rightarrow> ('db, Vote list) core" where
  "count_votes pc still_pending [] = cret still_pending"
| "count_votes pc still_pending (vote # pending) =
     cbind (cget (\<lambda>s. vote_pending s vote)) (\<lambda>wait.
     if \<not> wait then cbind (process_vote_with pc vote) (\<lambda>_. count_votes pc still_pending pending)
     else count_votes pc (still_pending @ [vote]) pending)"

definition process_pending_votes_with :: "(Certificate \<Rightarrow> ('db, unit) core) \<Rightarrow> ('db, unit) core" where
  "process_pending_votes_with pc =
     cbind (crun (\<lambda>s. (s\<lparr>cr_pending_votes := []\<rparr>, cr_pending_votes s)))
       (cfor (\<lambda>(hid, pending).
          cbind (count_votes pc [] pending) (\<lambda>still_pending.
          cupd (\<lambda>s. if still_pending = [] then s
                      else s\<lparr>cr_pending_votes := AList.update hid still_pending (cr_pending_votes s)\<rparr>))))"

section \<open>Records of Shortfin\<close>

definition store_certificate :: "'db CoreEnv \<Rightarrow> Certificate \<Rightarrow> ('db, unit) core" where
  "store_certificate env certificate =
     store_write env (digest_bytes (ce_digest env certificate)) (ce_bincode_certificate env certificate)"

definition note_certificate :: "'db CoreEnv \<Rightarrow> Certificate \<Rightarrow> 'db Core \<Rightarrow> 'db Core" where
  "note_certificate env certificate s =
     (let by_authority = (case map_of (cr_certificates_by_round s) (cert_round certificate) of None \<Rightarrow> [] | Some m \<Rightarrow> m)
      in index_certificate env certificate
           (s\<lparr>cr_synchronizer := cache_certificate (ce_crypto env) certificate (cr_synchronizer s),
              cr_certificates_by_round := AList.update (cert_round certificate)
                (AList.update (cert_origin certificate) certificate by_authority) (cr_certificates_by_round s)\<rparr>))"

definition emit_shortfin_record_with :: "'db CoreEnv \<Rightarrow> (Certificate \<Rightarrow> ('db, unit) core) \<Rightarrow> Digest \<Rightarrow> ('db, unit) core" where
  "emit_shortfin_record_with env pc hid =
     cbind (cget (\<lambda>s. (map_of (cr_shortfin_states s) hid, map_of (cr_headers_by_id s) hid))) (\<lambda>(state, found).
     case (state, found) of
       (Some state, Some h) \<Rightarrow>
         (let is_certificated = (state = Certificated)
          in cbind (cget (\<lambda>s. hid \<notin> set (cr_shortfin_structural_sent s))) (\<lambda>first_delivery.
             cbind (cget (\<lambda>s. is_certificated \<and> hid \<notin> set (cr_shortfin_certified_sent s))) (\<lambda>certification_upgrade.
             if \<not> first_delivery \<and> \<not> certification_upgrade then cret ()
             else
               cbind (cupd (\<lambda>s. s\<lparr>cr_shortfin_structural_sent := List.insert hid (cr_shortfin_structural_sent s),
                   cr_shortfin_certified_sent := (if is_certificated then List.insert hid (cr_shortfin_certified_sent s)
                                                  else cr_shortfin_certified_sent s)\<rparr>)) (\<lambda>_.
               cbind (cget (\<lambda>s. \<lparr>header = h, votes = (if is_certificated
                   then (case map_of (cr_shortfin_qcs s) hid of None \<Rightarrow> [] | Some vs \<Rightarrow> vs) else [])\<rparr>)) (\<lambda>certificate.
               cbind (store_certificate env certificate) (\<lambda>_.
               cbind (cupd (note_certificate env certificate)) (\<lambda>_.
               cbind (process_pending_votes_with pc) (\<lambda>_.
               cbind (cupd (try_signal_proposer env)) (\<lambda>_.
               cbind (cupd (\<lambda>s. if is_certificated \<and> cert_origin certificate = cr_name s
                                  then send_qc_signal certificate s else s)) (\<lambda>_.
               send (ToConsensus certificate)))))))))))
     | _ \<Rightarrow> cret ())"

section \<open>Headers\<close>

definition csynchronize :: "WaiterMessage option \<Rightarrow> ('db, bool) core" where
  "csynchronize request =
     (case request of None \<Rightarrow> cret False | Some m \<Rightarrow> cbind (send (ToHeaderWaiter m)) (\<lambda>_. cret True))"

definition cmissing_payload_for :: "'db CoreEnv \<Rightarrow> Header \<Rightarrow> Header \<Rightarrow> ('db, bool) core" where
  "cmissing_payload_for env payload_header deliver =
     cbind (cget (\<lambda>s. missing_payload_for env (cr_store s) payload_header deliver (cr_synchronizer s))) (\<lambda>r.
     cbind (clift r) csynchronize)"

definition cget_parents :: "'db CoreEnv \<Rightarrow> Header \<Rightarrow> ('db, Certificate list \<times> Certificate list) core" where
  "cget_parents env h =
     cbind (crun (\<lambda>s. let r = get_parents env (cr_store s) h (cr_synchronizer s)
                       in (s\<lparr>cr_synchronizer := fst r\<rparr>, snd r))) (\<lambda>r.
     cbind (clift r) (\<lambda>(parents, request).
     cbind (csynchronize request) (\<lambda>_. cret parents)))"

text \<open>The voters of the embedded certificate, by the round they voted from.\<close>

fun voters_by_round :: "(Round \<times> PublicKey list) list \<Rightarrow> Vote list \<Rightarrow> (Round \<times> PublicKey list) list option" where
  "voters_by_round m [] = Some m"
| "voters_by_round m (vote # qc) =
     (if v_voter_round vote = 0 then None
      else voters_by_round (AList.update (v_voter_round vote)
             (List.insert (v_author vote) (case map_of m (v_voter_round vote) of None \<Rightarrow> [] | Some xs \<Rightarrow> xs)) m) qc)"

definition validate_shortfin :: "'db CoreEnv \<Rightarrow> Header \<Rightarrow> Certificate list \<Rightarrow> Certificate list \<Rightarrow> ('db, unit) core" where
  "validate_shortfin env h parents_1 parents_2 =
     cbind (crun (history_support_weight_from_roots env parents_1 (h_round h - 1))) (\<lambda>stake_1.
     cbind (cget (\<lambda>s. quorum_threshold (cr_committee s))) (\<lambda>quorum.
     cbind (censure (stake_1 \<ge> quorum) (HeaderRequiresQuorum (h_id h))) (\<lambda>_.
     cbind (censure (parents_2 = []) (MalformedHeader (h_id h))) (\<lambda>_.
     if h_round h < 2 then cret ()
     else (case h_qc h of
             None \<Rightarrow> craise (Dag (MalformedHeader (h_id h)))
           | Some qc \<Rightarrow>
               cbind (censure (qc_round qc + 1 = h_round h) (MalformedHeader (h_id h))) (\<lambda>_.
               cbind (crun (history_contains_header_from_roots env parents_1 (qc_target qc) (h_author h) (qc_round qc))) (\<lambda>found.
               cbind (censure found (MalformedHeader (h_id h))) (\<lambda>_.
               case voters_by_round [] (qc_votes qc) of
                 None \<Rightarrow> craise (Dag (MalformedHeader (h_id h)))
               | Some voters \<Rightarrow>
                   cfor (\<lambda>(voter_round, voters).
                     cbind (crun (history_authors_at_round_from_roots env parents_1 voter_round)) (\<lambda>authors.
                     cbind (censure (set voters \<subseteq> set authors) (HeaderRequiresQuorum (h_id h))) (\<lambda>_.
                     cbind (crun (history_support_weight_from_roots env parents_1 (voter_round - 1))) (\<lambda>weight.
                     censure (weight \<ge> quorum) (HeaderRequiresQuorum (h_id h)))))) voters))))))))"

fun validate_certified_loop ::
    "Committee \<Rightarrow> Header \<Rightarrow> PublicKey list \<Rightarrow> Stake \<Rightarrow> Certificate list \<Rightarrow> unit dag_result" where
  "validate_certified_loop c h authors weight [] =
     (if h_round h > 0 then ensure (weight \<ge> quorum_threshold c) (HeaderRequiresQuorum (h_id h)) else Inr ())"
| "validate_certified_loop c h authors weight (x # parents) =
     rbind (ensure (cert_round x + 1 = h_round h) (MalformedHeader (h_id h))) (\<lambda>_.
       if cert_origin x \<in> set authors then validate_certified_loop c h authors weight parents
       else validate_certified_loop c h (cert_origin x # authors) (weight + stake c (cert_origin x)) parents)"

definition validate_header_parents ::
    "'db CoreEnv \<Rightarrow> Header \<Rightarrow> Certificate list \<Rightarrow> Certificate list \<Rightarrow> ('db, unit) core" where
  "validate_header_parents env h parents_1 parents_2 =
     (if h_round h = 0 then cret ()
      else cbind (cget (\<lambda>s. (cr_dag_protocol s, cr_committee s))) (\<lambda>(dp, c).
        case dp of
          Shortfin \<Rightarrow> validate_shortfin env h parents_1 parents_2
        | Narwhal \<Rightarrow> clift (validate_certified_loop c h [] 0 parents_1)
        | Bullshark \<Rightarrow> clift (validate_certified_loop c h [] 0 parents_1)
        | Wahoo \<Rightarrow> clift (validate_certified_loop c h [] 0 parents_1)
        | _ \<Rightarrow> clift (validate_mahi_parents h parents_1 c)))"

text \<open>A Shortfin header whose parents are valid: first the target of its certificate, then its own payload.\<close>

definition admit_shortfin_with :: "'db CoreEnv \<Rightarrow> (Certificate \<Rightarrow> ('db, unit) core) \<Rightarrow> Header \<Rightarrow> ('db, unit) core" where
  "admit_shortfin_with env pc h =
     cbind (cupd (\<lambda>s. s\<lparr>cr_headers_by_id := AList.update (h_id h) h (cr_headers_by_id s)\<rparr>)) (\<lambda>_.
     cbind (case h_qc h of
              None \<Rightarrow> cret True
            | Some qc \<Rightarrow>
                cbind (cupd (record_shortfin_qc (qc_target qc) (qc_votes qc))) (\<lambda>_.
                cbind (cget (\<lambda>s. map_of (cr_headers_by_id s) (qc_target qc))) (\<lambda>found.
                case found of
                  None \<Rightarrow> craise (Dag (MalformedHeader (h_id h)))
                | Some target \<Rightarrow>
                    cbind (cget (\<lambda>s. contains_key (cr_shortfin_states s) (qc_target qc))) (\<lambda>known.
                    cbind (censure known (MalformedHeader (h_id h))) (\<lambda>_.
                    cbind (cmissing_payload_for env target h) (\<lambda>missing.
                    if missing then cret False
                    else
                      cbind (cget (\<lambda>s. shortfin_payload_available s (qc_target qc))) (\<lambda>available.
                      cbind (if available then cret ()
                             else cbind (cupd (mark_shortfin_payload_available (qc_target qc))) (\<lambda>_.
                                  vote_for_header_with env pc target)) (\<lambda>_.
                      cbind (emit_shortfin_record_with env pc (qc_target qc)) (\<lambda>_. cret True)))))))))
       (\<lambda>go_on.
     if \<not> go_on then cret ()
     else
       cbind (cupd (\<lambda>s. if contains_key (cr_shortfin_states s) (h_id h) then s
                          else s\<lparr>cr_shortfin_states := AList.update (h_id h) Bubble (cr_shortfin_states s)\<rparr>)) (\<lambda>_.
       cbind (cmissing_payload_for env h h) (\<lambda>own_payload_missing.
       cbind (if own_payload_missing then cret () else cupd (mark_shortfin_payload_available (h_id h))) (\<lambda>_.
       cbind (store_write env (digest_bytes (h_id h)) (ce_bincode_header env h)) (\<lambda>_.
       if own_payload_missing then cret () else vote_for_header_with env pc h))))))"

definition process_header_with :: "'db CoreEnv \<Rightarrow> (Certificate \<Rightarrow> ('db, unit) core) \<Rightarrow> Header \<Rightarrow> ('db, unit) core" where
  "process_header_with env pc h =
     cbind (cget (\<lambda>s. (cr_dag_protocol s, contains_key (cr_shortfin_states s) (h_id h)))) (\<lambda>(dp, admitted).
     if dp = Shortfin \<and> admitted
     then
       cbind (cget (\<lambda>s. shortfin_payload_available s (h_id h))) (\<lambda>available.
       if available then cret ()
       else cbind (cmissing_payload_for env h h) (\<lambda>missing.
            if missing then cret ()
            else cbind (cupd (mark_shortfin_payload_available (h_id h))) (\<lambda>_.
                 cbind (vote_for_header_with env pc h) (\<lambda>_.
                 emit_shortfin_record_with env pc (h_id h)))))
     else
       cbind (cupd (\<lambda>s. s\<lparr>cr_processing := AList.update (h_round h)
           (List.insert (h_id h) (case map_of (cr_processing s) (h_round h) of None \<Rightarrow> [] | Some xs \<Rightarrow> xs)) (cr_processing s)\<rparr>)) (\<lambda>_.
       cbind (cget_parents env h) (\<lambda>(parents_1, parents_2).
       if parents_1 = [] \<and> h_parents h \<noteq> [] then cret ()
       else
         cbind (validate_header_parents env h parents_1 parents_2) (\<lambda>_.
         if dp = Shortfin then admit_shortfin_with env pc h
         else
           cbind (cmissing_payload_for env h h) (\<lambda>missing.
           if missing then cret ()
           else
             cbind (store_write env (digest_bytes (h_id h)) (ce_bincode_header env h)) (\<lambda>_.
             if is_mahi_mahi dp then cret () else vote_for_header_with env pc h))))))"

section \<open>Certificates\<close>

definition header_ready :: "'db Core \<Rightarrow> Header \<Rightarrow> bool" where
  "header_ready s h \<longleftrightarrow>
     (if cr_dag_protocol s = Shortfin then contains_key (cr_shortfin_states s) (h_id h)
      else (case map_of (cr_processing s) (h_round h) of None \<Rightarrow> False | Some xs \<Rightarrow> h_id h \<in> set xs))"

definition cdeliver_certificate :: "'db CoreEnv \<Rightarrow> Certificate \<Rightarrow> ('db, bool) core" where
  "cdeliver_certificate env certificate =
     cbind (cget (\<lambda>s. deliver_certificate env (cr_store s) certificate (cr_synchronizer s))) (\<lambda>r.
     cbind (clift r) (\<lambda>ok. if ok then cret True
       else cbind (send (ToCertificateWaiter certificate)) (\<lambda>_. cret False)))"

text \<open>The part of \<^verbatim>\<open>process_certificate\<close> that depends on the protocol; the result says whether the certificate goes to consensus.\<close>

definition admit_certificate_with :: "'db CoreEnv \<Rightarrow> (Certificate \<Rightarrow> ('db, unit) core) \<Rightarrow> Certificate \<Rightarrow> ('db, bool) core" where
  "admit_certificate_with env pc certificate =
     cbind (cget cr_dag_protocol) (\<lambda>dp.
     if dp = Shortfin then cbind (emit_shortfin_record_with env pc (h_id (header certificate))) (\<lambda>_. cret False)
     else if is_mahi_mahi dp
     then
       cbind (store_certificate env certificate) (\<lambda>_.
       cbind (cupd (\<lambda>s. record_mahi_weak_ref env certificate (note_certificate env certificate s))) (\<lambda>_.
       cbind (process_pending_votes_with pc) (\<lambda>_.
       cbind (cupd (try_signal_proposer env)) (\<lambda>_.
       cbind (cupd (\<lambda>s. if is_shortfin_family dp \<and> cert_origin certificate = cr_name s \<and> votes certificate \<noteq> []
                          then send_qc_signal certificate s else s)) (\<lambda>_.
       cret True)))))
     else if dp = Narwhal
     then
       cbind (store_certificate env certificate) (\<lambda>_.
       cbind (crun (\<lambda>s.
           let agg = (case map_of (cr_certificates_aggregators s) (cert_round certificate) of
                        None \<Rightarrow> certificates_aggregator_new | Some a \<Rightarrow> a);
               r = certificates_append (ce_crypto env) (cr_committee s) agg certificate
           in (s\<lparr>cr_certificates_aggregators :=
                 AList.update (cert_round certificate) (fst r) (cr_certificates_aggregators s)\<rparr>, snd r))) (\<lambda>quorum.
       cbind (case quorum of
                None \<Rightarrow> cret ()
              | Some parents \<Rightarrow> send (ToProposer \<lparr>ps_round = cert_round certificate + 1, ps_parents_1 = parents,
                  ps_parents_2 = [], ps_qc = None, ps_certificates_1 = []\<rparr>)) (\<lambda>_.
       cret True)))
     else
       cbind (store_certificate env certificate) (\<lambda>_.
       cbind (crun (\<lambda>s.
           let agg = (case map_of (cr_certificates_vec_aggregators s) (cert_round certificate) of
                        None \<Rightarrow> certificates_vec_aggregator_new | Some a \<Rightarrow> a);
               r = certificates_vec_append (cr_committee s) agg certificate
           in (s\<lparr>cr_certificates_vec_aggregators :=
                 AList.update (cert_round certificate) (fst r) (cr_certificates_vec_aggregators s)\<rparr>, snd r))) (\<lambda>quorum.
       cbind (case quorum of
                None \<Rightarrow> cret ()
              | Some parents \<Rightarrow> send (ToProposer \<lparr>ps_round = cert_round certificate, ps_parents_1 = map (ce_digest env) parents,
                  ps_parents_2 = [], ps_qc = None, ps_certificates_1 = parents\<rparr>)) (\<lambda>_.
       cret True))))"

definition process_certificate_with :: "'db CoreEnv \<Rightarrow> (Certificate \<Rightarrow> ('db, unit) core) \<Rightarrow> Certificate \<Rightarrow> ('db, unit) core" where
  "process_certificate_with env pc certificate =
     cbind (cupd (\<lambda>s. s\<lparr>cr_synchronizer := observe_certificate (ce_crypto env) certificate (cr_synchronizer s)\<rparr>)) (\<lambda>_.
     cbind (cupd (\<lambda>s. if cr_dag_protocol s = Shortfin \<and> votes certificate \<noteq> []
         then record_shortfin_qc (h_id (header certificate)) (votes certificate)
                (s\<lparr>cr_headers_by_id := AList.update (h_id (header certificate)) (header certificate) (cr_headers_by_id s)\<rparr>)
         else s)) (\<lambda>_.
     cbind (cget (\<lambda>s. header_ready s (header certificate))) (\<lambda>ready.
     cbind (if ready then cret () else process_header_with env pc (header certificate)) (\<lambda>_.
     cbind (cget (\<lambda>s. cr_dag_protocol s = Shortfin \<and> \<not> contains_key (cr_shortfin_states s) (h_id (header certificate)))) (\<lambda>unknown.
     if unknown then cret ()
     else
       cbind (cdeliver_certificate env certificate) (\<lambda>delivered.
       if \<not> delivered then cret ()
       else
         cbind (admit_certificate_with env pc certificate) (\<lambda>to_consensus.
         if to_consensus then send (ToConsensus certificate) else cret ())))))))"

primrec process_certificate :: "'db CoreEnv \<Rightarrow> nat \<Rightarrow> Certificate \<Rightarrow> ('db, unit) core" where
  "process_certificate env 0 = (\<lambda>certificate. craise OutOfFuel)"
| "process_certificate env (Suc n) = process_certificate_with env (process_certificate env n)"

section \<open>Own headers\<close>

definition maybe_synthesize_uncertified_cert ::
    "'db CoreEnv \<Rightarrow> nat \<Rightarrow> Header \<Rightarrow> ('db, unit) core" where
  "maybe_synthesize_uncertified_cert env n h =
     cbind (cget (\<lambda>s. \<not> is_uncertified_dag (cr_dag_protocol s) \<or>
         (cr_dag_protocol s = Shortfin \<and> \<not> contains_key (cr_shortfin_states s) (h_id h)))) (\<lambda>skip.
     if skip then cret () else cwarn (process_certificate env n \<lparr>header = h, votes = []\<rparr>))"

definition mahi_parent_branches :: "'db Core \<Rightarrow> Header \<Rightarrow> (nat \<times> Digest) list" where
  "mahi_parent_branches s h =
     (if is_mahi_mahi (cr_dag_protocol s)
      then foldl (\<lambda>m digest.
             case map_of (cr_certificates_by_digest s) digest of
               None \<Rightarrow> m
             | Some x \<Rightarrow> if cert_origin x = cr_name s \<and> h_equivocation_tag (header x) > 0
                         then AList.update (h_equivocation_tag (header x)) digest m else m) [] (h_parents h)
      else [])"

definition header_targets :: "'db Core \<Rightarrow> Header \<Rightarrow> SocketAddr list" where
  "header_targets s h =
     (let cfg = cr_byzantine s; c = cr_committee s; name = cr_name s; tag = h_equivocation_tag h
      in if \<not> is_equivocating cfg then canonical_targets cfg c name
         else if is_mahi_mahi (cr_dag_protocol s) then variant_targets cfg c name tag True
         else if tag = 0 then canonical_targets cfg c name
         else variant_targets cfg c name tag False)"

definition process_own_header :: "'db CoreEnv \<Rightarrow> nat \<Rightarrow> Header \<Rightarrow> ('db, unit) core" where
  "process_own_header env n h =
     cbind (cget (\<lambda>s. signed_attack_headers (ce_crypto env) (ce_secret env) (cr_byzantine s) h (cr_dag_protocol s)
         (mahi_parent_branches s h))) (\<lambda>headers.
     cbind (cupd (\<lambda>s. s\<lparr>cr_local_round := (if is_shortfin_family (cr_dag_protocol s) then max (cr_local_round s) (h_round h)
                                             else cr_local_round s), cr_current_header := h\<rparr>)) (\<lambda>_.
     cfor (\<lambda>attack_header.
         cbind (cupd (\<lambda>s. s\<lparr>cr_own_headers := AList.update (h_id attack_header) attack_header (cr_own_headers s),
             cr_votes_aggregators := (if contains_key (cr_votes_aggregators s) (h_id attack_header) then cr_votes_aggregators s
               else AList.update (h_id attack_header) votes_aggregator_new (cr_votes_aggregators s))\<rparr>)) (\<lambda>_.
         cbind (process_header_with env (process_certificate env n) attack_header) (\<lambda>_.
         cbind (maybe_synthesize_uncertified_cert env n attack_header) (\<lambda>_.
         cupd (\<lambda>s. emit (Broadcast (header_targets s attack_header) (HeaderMessage attack_header)) s))))) headers))"

section \<open>The receive loop\<close>

definition sanitize_header :: "'db CoreEnv \<Rightarrow> Header \<Rightarrow> ('db, unit) core" where
  "sanitize_header env h =
     cbind (cget (\<lambda>s. s)) (\<lambda>s.
     cbind (censure (cr_gc_round s \<le> h_round h) (TooOld (h_id h) (h_round h))) (\<lambda>_.
     cbind (censure (h_round h \<le> min (2 ^ 64 - 1) ((if is_shortfin_family (cr_dag_protocol s) then cr_local_round s
                                    else h_round (cr_current_header s)) + 10)) (TooOld (h_id h) (h_round h))) (\<lambda>_.
     clift (header_verify (ce_crypto env) (cr_committee s) (cr_dag_protocol s) h))))"

definition sanitize_vote :: "'db CoreEnv \<Rightarrow> Vote \<Rightarrow> ('db, unit) core" where
  "sanitize_vote env vote =
     cbind (cget (\<lambda>s. s)) (\<lambda>s.
     cbind (censure (cr_gc_round s \<le> v_round vote) (TooOld (vote_digest (ce_crypto env) vote) (v_round vote))) (\<lambda>_.
     case map_of (cr_own_headers s) (v_id vote) of
       None \<Rightarrow> craise (Dag (UnexpectedVote (v_id vote)))
     | Some h \<Rightarrow>
         cbind (censure (v_origin vote = h_author h \<and> v_round vote = h_round h) (UnexpectedVote (v_id vote))) (\<lambda>_.
         cbind (censure (is_shortfin_family (cr_dag_protocol s) \<longrightarrow> v_voter_round vote > 0) (UnexpectedVote (v_id vote))) (\<lambda>_.
         clift (vote_verify (ce_crypto env) (cr_committee s) vote)))))"

definition sanitize_certificate :: "'db CoreEnv \<Rightarrow> Certificate \<Rightarrow> ('db, unit) core" where
  "sanitize_certificate env certificate =
     cbind (cget (\<lambda>s. s)) (\<lambda>s.
     cbind (censure (cr_gc_round s \<le> cert_round certificate) (TooOld (ce_digest env certificate) (cert_round certificate))) (\<lambda>_.
     clift (cert_verify (ce_crypto env) (cr_committee s) (cr_dag_protocol s) certificate)))"

text \<open>
  What wakes the core up; the last two inputs are the writes of other tasks it reads: the
  consensus round of the garbage collector, and the batch digests of the payload receiver.
\<close>

datatype CoreInput =
    FromPrimary PrimaryMessage
  | FromHeaderWaiter Header
  | FromCertificateWaiter Certificate
  | FromProposer Header
  | ConsensusRound Round
  | PayloadStored Digest WorkerId

definition process_header_and_synthesize :: "'db CoreEnv \<Rightarrow> nat \<Rightarrow> Header \<Rightarrow> ('db, unit) core" where
  "process_header_and_synthesize env n h =
     cbind (process_header_with env (process_certificate env n) h) (\<lambda>_. maybe_synthesize_uncertified_cert env n h)"

definition handle_message :: "'db CoreEnv \<Rightarrow> nat \<Rightarrow> PrimaryMessage \<Rightarrow> ('db, unit) core" where
  "handle_message env n message =
     (case message of
        HeaderMessage h \<Rightarrow> cbind (sanitize_header env h) (\<lambda>_. process_header_and_synthesize env n h)
      | VoteMessage vote \<Rightarrow>
          cbind (sanitize_vote env vote) (\<lambda>_.
          cbind (cget (\<lambda>s. is_shortfin_family (cr_dag_protocol s))) (\<lambda>shortfin.
          if shortfin then process_vote_when_countable_with (process_certificate env n) vote
          else process_vote_with (process_certificate env n) vote))
      | CertificateMessage certificate \<Rightarrow>
          cbind (sanitize_certificate env certificate) (\<lambda>_. process_certificate env n certificate)
      | _ \<Rightarrow> craise (CorePanic ''Unexpected core message''))"

definition handle_input :: "'db CoreEnv \<Rightarrow> nat \<Rightarrow> CoreInput \<Rightarrow> ('db, unit) core" where
  "handle_input env n input =
     (case input of
        FromPrimary message \<Rightarrow> handle_message env n message
      | FromHeaderWaiter h \<Rightarrow> process_header_and_synthesize env n h
      | FromCertificateWaiter certificate \<Rightarrow> process_certificate env n certificate
      | FromProposer h \<Rightarrow> process_own_header env n h
      | ConsensusRound r \<Rightarrow> cupd (\<lambda>s. s\<lparr>cr_consensus_round := r\<rparr>)
      | PayloadStored digest worker_id \<Rightarrow> store_write env (batch_key digest worker_id) [])"

definition retain :: "('k \<Rightarrow> 'v \<Rightarrow> bool) \<Rightarrow> ('k \<times> 'v) list \<Rightarrow> ('k \<times> 'v) list" where
  "retain P m = filter (\<lambda>(k, v). P k v) m"

definition core_cleanup :: "'db CoreEnv \<Rightarrow> 'db Core \<Rightarrow> 'db Core" where
  "core_cleanup env s =
     (if cr_consensus_round s \<le> cr_gc_depth s then s
      else (let gc = cr_consensus_round s - cr_gc_depth s;
                own = retain (\<lambda>_ h. h_round h \<ge> gc) (cr_own_headers s);
                by_round = retain (\<lambda>k _. k \<ge> gc) (cr_certificates_by_round s);
                live = concat (map (\<lambda>(_, by_authority). values_of by_authority) by_round);
                live_digests = map (ce_digest env) live;
                live_ids = map (\<lambda>x. h_id (header x)) live
            in s\<lparr>cr_last_voted := retain (\<lambda>k _. k \<ge> gc) (cr_last_voted s),
                 cr_voted_headers := retain (\<lambda>_ r. r \<ge> gc) (cr_voted_headers s),
                 cr_processing := retain (\<lambda>k _. k \<ge> gc) (cr_processing s),
                 cr_own_headers := own,
                 cr_votes_aggregators := retain (\<lambda>k _. k \<in> set (keys_of own)) (cr_votes_aggregators s),
                 cr_certificates_aggregators := retain (\<lambda>k _. k \<ge> gc) (cr_certificates_aggregators s),
                 cr_certificates_vec_aggregators := retain (\<lambda>k _. k \<ge> gc) (cr_certificates_vec_aggregators s),
                 cr_certificates_by_round := by_round,
                 cr_certificates_by_digest := retain (\<lambda>d _. d \<in> set live_digests) (cr_certificates_by_digest s),
                 cr_headers_by_id := retain (\<lambda>i _. i \<in> set live_ids) (cr_headers_by_id s),
                 cr_history_support_cache := retain (\<lambda>(d, _) _. d \<in> set live_digests) (cr_history_support_cache s),
                 cr_history_id_cache := retain (\<lambda>(d, _) _. d \<in> set live_digests) (cr_history_id_cache s),
                 cr_mahi_pending_weak_refs :=
                   retain (\<lambda>(r, _, _) d. r \<ge> gc \<and> d \<in> set live_digests) (cr_mahi_pending_weak_refs s),
                 cr_shortfin_states := retain (\<lambda>i _. i \<in> set live_ids) (cr_shortfin_states s),
                 cr_shortfin_qcs := retain (\<lambda>i _. i \<in> set live_ids) (cr_shortfin_qcs s),
                 cr_shortfin_structural_sent := filter (\<lambda>i. i \<in> set live_ids) (cr_shortfin_structural_sent s),
                 cr_shortfin_certified_sent := filter (\<lambda>i. i \<in> set live_ids) (cr_shortfin_certified_sent s),
                 cr_pending_votes := retain (\<lambda>i _. i \<in> set (keys_of own)) (cr_pending_votes s),
                 cr_gc_round := gc\<rparr>))"

text \<open>One turn of the loop: a storage error kills the node, other errors are logged.\<close>

definition core_step :: "'db CoreEnv \<Rightarrow> nat \<Rightarrow> CoreInput \<Rightarrow> ('db, unit) core" where
  "core_step env n input s =
     (case handle_input env n input s of
        (s1, Inl (CorePanic msg)) \<Rightarrow> (s1, Inl (CorePanic msg))
      | (s1, Inl OutOfFuel) \<Rightarrow> (s1, Inl OutOfFuel)
      | (s1, Inl (Dag StoreError)) \<Rightarrow> (s1, Inl (CorePanic ''Storage failure: killing node.''))
      | (s1, _) \<Rightarrow>
          ((case input of ConsensusRound _ \<Rightarrow> s1 | PayloadStored _ _ \<Rightarrow> s1 | _ \<Rightarrow> core_cleanup env s1), Inr ()))"

fun core_run :: "'db CoreEnv \<Rightarrow> nat \<Rightarrow> CoreInput list \<Rightarrow> ('db, unit) core" where
  "core_run env n [] = cret ()"
| "core_run env n (input # inputs) = cbind (core_step env n input) (\<lambda>_. core_run env n inputs)"

end
