(* ===== verification/Core_Votes.thy ===== *)
theory Core_Votes
  imports Core
begin

text \<open>
  Every handler of the core is a sequence of a few kinds of actions on the votes, the
  signals and the events; what the actions keep, every run of the core keeps.  Main result:
  above the garbage collected rounds an honest primary sends at most one vote per author
  and round.
\<close>

section \<open>Actions\<close>

definition voted_authors :: "'db Core \<Rightarrow> Round \<Rightarrow> PublicKey list" where
  "voted_authors s round = (case map_of (cr_last_voted s) round of None \<Rightarrow> [] | Some xs \<Rightarrow> xs)"

definition mark_author :: "Header \<Rightarrow> 'db Core \<Rightarrow> 'db Core" where
  "mark_author h s = s\<lparr>cr_last_voted :=
     AList.update (h_round h) (List.insert (h_author h) (voted_authors s (h_round h))) (cr_last_voted s)\<rparr>"

definition mark_voted :: "Header \<Rightarrow> 'db Core \<Rightarrow> 'db Core" where
  "mark_voted h s = (mark_author h s)\<lparr>cr_voted_headers := AList.update (h_id h) (h_round h) (cr_voted_headers s)\<rparr>"

definition may_vote :: "'db Core \<Rightarrow> Header \<Rightarrow> bool" where
  "may_vote s h \<longleftrightarrow> \<not> contains_key (cr_voted_headers s) (h_id h) \<and>
     (h_author h \<notin> set (voted_authors s (h_round h)) \<or> allows_multiple_votes (cr_byzantine s))"

definition own_vote :: "'db CoreEnv \<Rightarrow> 'db Core \<Rightarrow> Header \<Rightarrow> Vote" where
  "own_vote env s h = vote_new (ce_crypto env) (ce_secret env) h
     (if is_shortfin_family (cr_dag_protocol s) then cr_local_round s else h_round h) (cr_name s)"

text \<open>The part of the state that the votes depend on.\<close>

definition same_ledger :: "'db Core \<Rightarrow> 'db Core \<Rightarrow> bool" where
  "same_ledger s s' \<longleftrightarrow> cr_events s' = cr_events s \<and> cr_last_voted s' = cr_last_voted s \<and>
     cr_voted_headers s' = cr_voted_headers s \<and> cr_gc_round s' = cr_gc_round s \<and> cr_byzantine s' = cr_byzantine s \<and>
     cr_name s' = cr_name s \<and> cr_pending_qc_signals s' = cr_pending_qc_signals s \<and> cr_committee s' = cr_committee s \<and>
     cr_consensus_round s' = cr_consensus_round s \<and> cr_gc_depth s' = cr_gc_depth s \<and> cr_dag_protocol s' = cr_dag_protocol s"

definition is_vote_event :: "CoreEvent \<Rightarrow> bool" where
  "is_vote_event e \<longleftrightarrow> (\<exists>a v. e = Send a (VoteMessage v))"

inductive core_act :: "'db CoreEnv \<Rightarrow> 'db Core \<Rightarrow> 'db Core \<Rightarrow> bool" for env where
  keep: "same_ledger s s' \<Longrightarrow> core_act env s s'"
| event: "\<not> is_vote_event e \<Longrightarrow> core_act env s (emit e s)"
| qc_signal: "core_act env s (send_qc_signal certificate s)"
| refuse: "core_act env s (mark_author h s)"
| own: "may_vote s h \<Longrightarrow> core_act env s (mark_voted h s)"
| vote: "may_vote s h \<Longrightarrow> core_act env s (emit (Send address (VoteMessage (own_vote env s h))) (mark_voted h s))"

inductive_cases core_actE: "core_act env s s'"

definition acts :: "'db CoreEnv \<Rightarrow> ('db, 'a) core \<Rightarrow> bool" where
  "acts env m \<longleftrightarrow> (\<forall>s. (core_act env)\<^sup>*\<^sup>* s (fst (m s)))"

named_theorems acts_intro

lemma actsI: "(\<And>s. (core_act env)\<^sup>*\<^sup>* s (fst (m s))) \<Longrightarrow> acts env m"
  by (simp add: acts_def)

lemma actsD: "acts env m \<Longrightarrow> m s = (s1, r) \<Longrightarrow> (core_act env)\<^sup>*\<^sup>* s s1"
  by (metis acts_def fst_conv)

lemma acts_pure [acts_intro]:
  "acts env (cret x)" "acts env (craise e)" "acts env (cget f)" "acts env (clift r)" "acts env (censure b err)"
  by (simp_all add: acts_def cret_def craise_def cget_def clift_def censure_def)

lemma acts_bind [acts_intro]:
  assumes "acts env m" and "\<And>x. acts env (f x)"
  shows "acts env (cbind m f)"
proof (rule actsI)
  fix s
  obtain s1 r where r: "m s = (s1, r)" by (cases "m s")
  then have "(core_act env)\<^sup>*\<^sup>* s s1" by (rule actsD [OF assms(1)])
  moreover have "(core_act env)\<^sup>*\<^sup>* s1 (fst (f x s1))" for x using assms(2) by (simp add: acts_def)
  ultimately show "(core_act env)\<^sup>*\<^sup>* s (fst (cbind m f s))"
    by (cases r) (auto simp: cbind_def r intro: rtranclp_trans)
qed

lemma acts_expect [acts_intro]: "acts env m \<Longrightarrow> acts env (cexpect msg m)"
  by (auto simp: acts_def cexpect_def split: prod.split sum.split CoreError.split) (metis fst_conv)+

lemma acts_warn [acts_intro]: "acts env m \<Longrightarrow> acts env (cwarn m)"
  by (auto simp: acts_def cwarn_def split: prod.split sum.split CoreError.split) (metis fst_conv)+

lemma acts_for [acts_intro]: "(\<And>x. acts env (f x)) \<Longrightarrow> acts env (cfor f xs)"
  by (induction xs) (auto intro: acts_intro)

lemma acts_upd [acts_intro]: "(\<And>s. (core_act env)\<^sup>*\<^sup>* s (f s)) \<Longrightarrow> acts env (cupd f)"
  by (simp add: acts_def cupd_def)

lemma acts_run [acts_intro]: "(\<And>s. (core_act env)\<^sup>*\<^sup>* s (fst (f s))) \<Longrightarrow> acts env (crun f)"
  by (simp add: acts_def crun_def case_prod_beta)

lemma acts_if [acts_intro]: "acts env m1 \<Longrightarrow> acts env m2 \<Longrightarrow> acts env (if b then m1 else m2)"
  by simp

lemma acts_case_option [acts_intro]:
  "acts env m1 \<Longrightarrow> (\<And>x. acts env (m2 x)) \<Longrightarrow> acts env (case found of None \<Rightarrow> m1 | Some x \<Rightarrow> m2 x)"
  by (cases found) simp_all

lemma acts_case_prod [acts_intro]: "(\<And>x y. acts env (m x y)) \<Longrightarrow> acts env (case p of (x, y) \<Rightarrow> m x y)"
  by (cases p) simp

lemma acts_event [acts_intro]: "\<not> is_vote_event e \<Longrightarrow> acts env (send e)"
  unfolding send_def by (rule acts_upd) (auto intro: core_act.event)

lemma not_vote_event [simp]:
  "\<not> is_vote_event (ToHeaderWaiter m)" "\<not> is_vote_event (ToCertificateWaiter c)" "\<not> is_vote_event (ToProposer p)"
  "\<not> is_vote_event (ToConsensus c)" "\<not> is_vote_event (Broadcast addresses message)"
  by (simp_all add: is_vote_event_def)

lemma keep_star: "same_ledger s s' \<Longrightarrow> (core_act env)\<^sup>*\<^sup>* s s'"
  by (blast intro: core_act.keep)

lemma same_ledger_frame: "core_frame s' = core_frame s \<Longrightarrow> same_ledger s s'"
  using core_frame_fields [of s' s] by (simp add: same_ledger_def)


lemma frame_star: "core_frame s' = core_frame s \<Longrightarrow> (core_act env)\<^sup>*\<^sup>* s s'"
  by (rule keep_star) (rule same_ledger_frame)

section \<open>The handlers act\<close>

lemma acts_ledger [acts_intro]:
  "acts env (store_write env key v)" "acts env (store_certificate env certificate)"
  "acts env (cupd (cache_pending_vote vote))" "acts env (cupd (mark_shortfin_payload_available hid))"
  "acts env (cupd (record_shortfin_qc hid qc))" "acts env (cupd (note_certificate env certificate))"
  by (auto simp: store_write_def store_certificate_def cache_pending_vote_def mark_shortfin_payload_available_def
      record_shortfin_qc_def note_certificate_def index_certificate_def same_ledger_def Let_def
      intro!: acts_upd keep_star)

lemma signal_star:
  assumes "same_ledger s s1"
  shows "(core_act env)\<^sup>*\<^sup>* s ((emit (ToProposer p) s1)\<lparr>cr_next_round_to_signal := n\<rparr>)"
    and "(core_act env)\<^sup>*\<^sup>* s ((emit (ToProposer p) s1)\<lparr>cr_local_round := m, cr_next_round_to_signal := n\<rparr>)"
proof -
  have sent: "(core_act env)\<^sup>*\<^sup>* s (emit (ToProposer p) s1)"
    using assms by (meson core_act.event keep_star not_vote_event(3) rtranclp.rtrancl_into_rtrancl)
  show "(core_act env)\<^sup>*\<^sup>* s ((emit (ToProposer p) s1)\<lparr>cr_next_round_to_signal := n\<rparr>)"
    by (rule rtranclp_trans [OF sent]) (simp add: keep_star same_ledger_def)
  show "(core_act env)\<^sup>*\<^sup>* s ((emit (ToProposer p) s1)\<lparr>cr_local_round := m, cr_next_round_to_signal := n\<rparr>)"
    by (rule rtranclp_trans [OF sent]) (simp add: keep_star same_ledger_def)
qed

lemma signal_step_act:
  assumes "signal_step env s = Some s'"
  shows "(core_act env)\<^sup>*\<^sup>* s s'"
proof -
  have "same_ledger s (fst (mahi_parent_digests env strong round s))" for strong round
    by (rule same_ledger_frame) simp
  moreover have "same_ledger s s" by (simp add: same_ledger_def)
  ultimately show ?thesis
    using assms
    by (auto simp: signal_step_def Let_def case_prod_beta split: option.splits if_splits intro: signal_star)
qed

lemma try_signal_proposer_act: "(core_act env)\<^sup>*\<^sup>* s (try_signal_proposer env s)"
proof (induction env s rule: try_signal_proposer.induct)
  case (1 env s)
  then show ?case
    by (subst try_signal_proposer.simps) (auto split: option.split intro: rtranclp_trans signal_step_act)
qed

lemma event_star: "\<not> is_vote_event e \<Longrightarrow> (core_act env)\<^sup>*\<^sup>* s (emit e s)"
  by (rule r_into_rtranclp) (rule core_act.event)

lemma qc_signal_star: "(core_act env)\<^sup>*\<^sup>* s (send_qc_signal certificate s)"
  by (rule r_into_rtranclp) (rule core_act.qc_signal)

lemma acts_signals [acts_intro]:
  "acts env (cupd (try_signal_proposer env))"
  "acts env (cupd (\<lambda>s. if b s then send_qc_signal certificate s else s))"
  by (auto intro!: acts_upd try_signal_proposer_act qc_signal_star)

lemma acts_process_vote [acts_intro]:
  assumes "\<And>c. acts env (pc c)"
  shows "acts env (process_vote_with pc vote)"
  unfolding process_vote_with_def
  by (intro acts_intro assms) (simp_all add: event_star Let_def keep_star same_ledger_def)

lemma mark_author_fields [simp]:
  "cr_voted_headers (mark_author h s) = cr_voted_headers s" "cr_byzantine (mark_author h s) = cr_byzantine s"
  "cr_name (mark_author h s) = cr_name s" "cr_committee (mark_author h s) = cr_committee s"
  "cr_name (mark_voted h s) = cr_name s" "cr_committee (mark_voted h s) = cr_committee s"
  "own_vote env (mark_voted h s) h' = own_vote env s h'"
  by (simp_all add: own_vote_def mark_voted_def mark_author_def)

lemma vote_for_header_cases:
  "vote_for_header_with env pc h s =
     (if contains_key (cr_voted_headers s) (h_id h) then (s, Inr ())
      else if \<not> may_vote s h then (mark_author h s, Inr ())
      else if h_author h = cr_name s
      then cexpect ''Failed to process our own vote'' (process_vote_with pc (own_vote env s h)) (mark_voted h s)
      else (case committee_primary (cr_committee s) (h_author h) of
              Inl _ \<Rightarrow> (mark_voted h s, Inl (CorePanic ''Author of valid header is not in the committee''))
            | Inr a \<Rightarrow> (emit (Send (primary_to_primary a) (VoteMessage (own_vote env s h))) (mark_voted h s), Inr ())))"
proof -
  have "v_origin (own_vote env s h) = h_author h"
    by (simp add: own_vote_def vote_new_def vote_new_with_phase_def Let_def)
  then show ?thesis
    unfolding vote_for_header_with_def cbind_def cget_def crun_def cret_def cupd_def craise_def send_def
    by (simp add: Let_def own_vote_def [symmetric] mark_author_def [symmetric] mark_voted_def [symmetric]
        voted_authors_def [symmetric] may_vote_def split: sum.split) auto
qed

lemma acts_vote_for_header [acts_intro]:
  assumes "\<And>c. acts env (pc c)"
  shows "acts env (vote_for_header_with env pc h)"
proof (rule actsI)
  fix s
  have "(core_act env)\<^sup>*\<^sup>* t (fst (cexpect msg (process_vote_with pc v) t))" for t msg v
    using acts_expect [OF acts_process_vote [OF assms]] by (simp add: acts_def)
  then have own: "(core_act env)\<^sup>*\<^sup>* s (fst (cexpect msg (process_vote_with pc v) (mark_voted h s)))" if "may_vote s h" for msg v
    using core_act.own [OF that] by (blast intro: converse_rtranclp_into_rtranclp)
  show "(core_act env)\<^sup>*\<^sup>* s (fst (vote_for_header_with env pc h s))"
    unfolding vote_for_header_cases using own
    by (auto split: sum.split intro: core_act.refuse core_act.own core_act.vote)
qed

lemma acts_count_votes [acts_intro]:
  "(\<And>c. acts env (pc c)) \<Longrightarrow> acts env (count_votes pc still_pending pending)"
  by (induction pending arbitrary: still_pending) (auto intro!: acts_intro)

lemma acts_pending_votes [acts_intro]:
  assumes "\<And>c. acts env (pc c)"
  shows "acts env (process_pending_votes_with pc)" "acts env (process_vote_when_countable_with pc vote)"
  unfolding process_pending_votes_with_def process_vote_when_countable_with_def
  by (intro acts_intro assms; auto simp: same_ledger_def intro!: keep_star)+

lemma acts_emit_shortfin_record [acts_intro]:
  assumes "\<And>c. acts env (pc c)"
  shows "acts env (emit_shortfin_record_with env pc hid)"
  unfolding emit_shortfin_record_with_def Let_def
  by (rule acts_bind, rule acts_pure, rule acts_case_prod)
    (auto split: option.split simp: same_ledger_def intro!: acts_intro assms keep_star)

section \<open>Headers and certificates act\<close>

lemma acts_synchronize [acts_intro]:
  "acts env (csynchronize request)" "acts env (cmissing_payload_for env h h')" "acts env (cget_parents env h)"
  "acts env (cdeliver_certificate env certificate)"
  unfolding csynchronize_def cmissing_payload_for_def cget_parents_def cdeliver_certificate_def
  by (auto simp: Let_def same_ledger_def split: option.split intro!: acts_intro keep_star)

lemma acts_validate_shortfin [acts_intro]: "acts env (validate_shortfin env h parents_1 parents_2)"
  unfolding validate_shortfin_def
  by (intro acts_intro) (auto intro!: frame_star)

lemma acts_validate_header_parents [acts_intro]: "acts env (validate_header_parents env h parents_1 parents_2)"
  unfolding validate_header_parents_def
  by (auto split: DagProtocol.split intro!: acts_intro)

lemma acts_process_header [acts_intro]:
  assumes "\<And>c. acts env (pc c)"
  shows "acts env (admit_shortfin_with env pc h)" "acts env (process_header_with env pc h)"
proof -
  show shortfin: "acts env (admit_shortfin_with env pc h)" for h
    unfolding admit_shortfin_with_def
    by (intro acts_intro assms) (auto simp: same_ledger_def intro!: keep_star)
  show "acts env (process_header_with env pc h)"
    unfolding process_header_with_def
    by (intro acts_intro assms shortfin) (auto simp: same_ledger_def intro!: keep_star)
qed


lemma acts_process_certificate_with [acts_intro]:
  assumes "\<And>c. acts env (pc c)"
  shows "acts env (admit_certificate_with env pc certificate)" "acts env (process_certificate_with env pc certificate)"
proof -
  have weak: "acts env (cupd (\<lambda>s. record_mahi_weak_ref env c (note_certificate env c s)))" for c
    by (rule acts_upd)
      (simp add: keep_star same_ledger_def record_mahi_weak_ref_def note_certificate_def index_certificate_def Let_def)
  show admit: "acts env (admit_certificate_with env pc certificate)" for certificate
    unfolding admit_certificate_with_def
    by (intro acts_intro weak assms) (simp_all add: keep_star same_ledger_def Let_def)
  show "acts env (process_certificate_with env pc certificate)"
    unfolding process_certificate_with_def
    by (intro acts_intro admit assms) (simp_all add: keep_star same_ledger_def record_shortfin_qc_def Let_def)
qed

lemma acts_process_certificate [acts_intro]: "acts env (process_certificate env n certificate)"
  by (induction n arbitrary: certificate) (auto intro!: acts_intro)

lemma acts_synthesize [acts_intro]: "acts env (maybe_synthesize_uncertified_cert env n h)"
  unfolding maybe_synthesize_uncertified_cert_def by (intro acts_intro)

lemma acts_process_own_header [acts_intro]: "acts env (process_own_header env n h)"
  unfolding process_own_header_def
  by (intro acts_intro) (simp_all add: keep_star event_star same_ledger_def)

lemma acts_handle_message [acts_intro]: "acts env (handle_message env n message)"
  unfolding handle_message_def process_header_and_synthesize_def sanitize_header_def sanitize_vote_def sanitize_certificate_def
  by (cases message) (auto intro!: acts_intro)

lemma handle_input_acts:
  assumes "handle_input env n input s = (s', r)"
  shows "(\<exists>round. input = ConsensusRound round \<and> s' = s\<lparr>cr_consensus_round := round\<rparr>) \<or> (core_act env)\<^sup>*\<^sup>* s s'"
proof (cases input)
  case (ConsensusRound round)
  then show ?thesis using assms by (simp add: handle_input_def cupd_def)
next
  case (PayloadStored digest worker_id)
  then show ?thesis using assms actsD [OF acts_ledger(1)] by (auto simp: handle_input_def)
qed (use assms in \<open>auto simp: handle_input_def process_header_and_synthesize_def
      dest!: actsD [OF acts_handle_message] actsD [OF acts_process_certificate] actsD [OF acts_process_own_header]
        actsD [OF acts_bind [OF acts_process_header(2) [OF acts_process_certificate] acts_synthesize]]\<close>)

section \<open>One vote per author and round\<close>

definition sent_vote :: "CoreEvent \<Rightarrow> Vote option" where
  "sent_vote e = (case e of Send a (VoteMessage v) \<Rightarrow> Some v | _ \<Rightarrow> None)"

definition votes_sent :: "'db Core \<Rightarrow> Vote list" where
  "votes_sent s = List.map_filter sent_vote (cr_events s)"

definition votes_cast :: "'db Core \<Rightarrow> PublicKey \<Rightarrow> Round \<Rightarrow> Vote list" where
  "votes_cast s origin round = filter (\<lambda>v. v_origin v = origin \<and> v_round v = round) (votes_sent s)"

definition vote_inv :: "'db Core \<Rightarrow> bool" where
  "vote_inv s \<longleftrightarrow> \<not> allows_multiple_votes (cr_byzantine s) \<and>
     (cr_gc_round s = 0 \<or> cr_gc_round s + cr_gc_depth s \<le> cr_consensus_round s) \<and>
     (\<forall>v \<in> set (votes_sent s). v_author v = cr_name s) \<and>
     (\<forall>origin round. cr_gc_round s \<le> round \<longrightarrow>
        length (votes_cast s origin round) \<le> (if origin \<in> set (voted_authors s round) then 1 else 0))"

lemma vote_inv_once:
  assumes "vote_inv s" and "cr_gc_round s \<le> round"
  shows "length (votes_cast s origin round) \<le> 1"
proof -
  have "length (votes_cast s origin round) \<le> (if origin \<in> set (voted_authors s round) then 1 else 0)"
    using assms by (simp add: vote_inv_def)
  also have "\<dots> \<le> 1" by simp
  finally show ?thesis .
qed

lemma votes_sent_emit [simp]:
  "votes_sent (emit e s) = votes_sent s @ (case sent_vote e of None \<Rightarrow> [] | Some v \<Rightarrow> [v])"
  by (simp add: votes_sent_def emit_def List.map_filter_def split: option.split)

lemma sent_vote_simps [simp]:
  "sent_vote (Send a (VoteMessage v)) = Some v" "\<not> is_vote_event e \<Longrightarrow> sent_vote e = None"
  by (auto simp: sent_vote_def is_vote_event_def split: CoreEvent.split PrimaryMessage.split)

lemma vote_inv_mono:
  assumes "vote_inv s" and "votes_sent s' = votes_sent s"
    and "\<And>round. set (voted_authors s round) \<subseteq> set (voted_authors s' round)"
    and "cr_byzantine s' = cr_byzantine s" "cr_gc_round s' = cr_gc_round s" "cr_gc_depth s' = cr_gc_depth s"
    and "cr_consensus_round s \<le> cr_consensus_round s'" "cr_name s' = cr_name s"
  shows "vote_inv s'"
proof -
  have "length (votes_cast s' origin round) \<le> (if origin \<in> set (voted_authors s' round) then 1 else 0)"
    if "cr_gc_round s \<le> round" for origin round
  proof -
    have "length (votes_cast s origin round) \<le> (if origin \<in> set (voted_authors s round) then 1 else 0)"
      using assms(1) that by (simp add: vote_inv_def)
    then show ?thesis using assms(2,3) by (auto simp: votes_cast_def split: if_splits)
  qed
  then show ?thesis using assms by (auto simp: vote_inv_def)
qed

lemma voted_authors_mark [simp]:
  "set (voted_authors (mark_author h s) round) =
     (if round = h_round h then insert (h_author h) (set (voted_authors s round)) else set (voted_authors s round))"
  "voted_authors (mark_voted h s) = voted_authors (mark_author h s)"
  by (auto simp: voted_authors_def mark_author_def mark_voted_def split: option.split)

lemma marks_fields [simp]:
  "votes_sent (mark_author h s) = votes_sent s" "votes_sent (mark_voted h s) = votes_sent s"
  "cr_gc_round (mark_author h s) = cr_gc_round s" "cr_gc_round (mark_voted h s) = cr_gc_round s"
  "cr_gc_depth (mark_author h s) = cr_gc_depth s" "cr_gc_depth (mark_voted h s) = cr_gc_depth s"
  "cr_consensus_round (mark_author h s) = cr_consensus_round s" "cr_consensus_round (mark_voted h s) = cr_consensus_round s"
  "cr_byzantine (mark_voted h s) = cr_byzantine s"
  by (simp_all add: mark_author_def mark_voted_def votes_sent_def)

lemma emit_fields [simp]:
  "voted_authors (emit e s) = voted_authors s" "cr_gc_round (emit e s) = cr_gc_round s"
  "cr_gc_depth (emit e s) = cr_gc_depth s" "cr_consensus_round (emit e s) = cr_consensus_round s"
  "cr_byzantine (emit e s) = cr_byzantine s" "cr_name (emit e s) = cr_name s"
  by (simp_all add: emit_def voted_authors_def fun_eq_iff)

lemma vote_inv_vote:
  assumes "vote_inv s" and "may_vote s h"
  shows "vote_inv (emit (Send address (VoteMessage (own_vote env s h))) (mark_voted h s))" (is "vote_inv ?s")
proof -
  let ?v = "own_vote env s h"
  have v: "v_origin ?v = h_author h" "v_round ?v = h_round h" "v_author ?v = cr_name s"
    by (simp_all add: own_vote_def vote_new_def vote_new_with_phase_def Let_def)
  have "length (votes_cast ?s origin round) \<le> (if origin \<in> set (voted_authors ?s round) then 1 else 0)"
    if gc: "cr_gc_round s \<le> round" for origin round
  proof -
    have before: "length (votes_cast s origin round) \<le> (if origin \<in> set (voted_authors s round) then 1 else 0)"
      using assms(1) gc by (simp add: vote_inv_def)
    have now: "votes_cast ?s origin round =
        votes_cast s origin round @ (if origin = h_author h \<and> round = h_round h then [?v] else [])"
      using v by (auto simp: votes_cast_def)
    have fresh: "h_author h \<notin> set (voted_authors s (h_round h))"
      using assms by (simp add: may_vote_def vote_inv_def)
    show ?thesis
      unfolding now using before fresh by (cases "origin = h_author h \<and> round = h_round h") auto
  qed
  then show ?thesis using assms(1) v by (simp add: vote_inv_def)
qed

lemma vote_inv_act:
  assumes "core_act env s s'" and "vote_inv s"
  shows "vote_inv s'"
  using assms
proof (cases rule: core_act.cases)
  case (vote h address)
  then show ?thesis using assms(2) by (simp add: vote_inv_vote)
next
  case keep
  then show ?thesis
    by (intro vote_inv_mono [OF assms(2)]) (simp_all add: same_ledger_def votes_sent_def voted_authors_def)
next
  case (qc_signal certificate)
  then show ?thesis
    by (intro vote_inv_mono [OF assms(2)])
      (simp_all add: send_qc_signal_def Let_def votes_sent_def emit_def voted_authors_def sent_vote_def List.map_filter_def)
qed (auto intro!: vote_inv_mono [OF assms(2)])

lemma vote_inv_acts:
  assumes "(core_act env)\<^sup>*\<^sup>* s s'" and "vote_inv s"
  shows "vote_inv s'"
  using assms by (induction rule: rtranclp_induct) (auto intro: vote_inv_act)

section \<open>Runs\<close>

lemma map_of_retain: "map_of (retain (\<lambda>k _. P k) m) k = (if P k then map_of m k else None)"
  by (induction m) (auto simp: retain_def)

lemma cleanup_fields:
  "cr_events (core_cleanup env s) = cr_events s" "cr_byzantine (core_cleanup env s) = cr_byzantine s"
  "cr_name (core_cleanup env s) = cr_name s" "cr_gc_depth (core_cleanup env s) = cr_gc_depth s"
  "cr_consensus_round (core_cleanup env s) = cr_consensus_round s"
  "cr_pending_qc_signals (core_cleanup env s) = cr_pending_qc_signals s"
  by (simp_all add: core_cleanup_def Let_def)

lemma cleanup_gc:
  "cr_gc_round (core_cleanup env s) =
     (if cr_consensus_round s \<le> cr_gc_depth s then cr_gc_round s else cr_consensus_round s - cr_gc_depth s)"
  "cr_gc_round (core_cleanup env s) \<le> round \<Longrightarrow> voted_authors (core_cleanup env s) round = voted_authors s round"
  by (auto simp: core_cleanup_def Let_def voted_authors_def map_of_retain)

lemma vote_inv_cleanup:
  assumes "vote_inv s"
  shows "vote_inv (core_cleanup env s)"
proof -
  have "cr_gc_round s \<le> cr_gc_round (core_cleanup env s)"
    using assms by (auto simp: cleanup_gc(1) vote_inv_def)
  moreover have "votes_cast (core_cleanup env s) = votes_cast s" "votes_sent (core_cleanup env s) = votes_sent s"
    by (simp_all add: votes_cast_def votes_sent_def cleanup_fields fun_eq_iff)
  moreover have "cr_gc_round (core_cleanup env s) = 0 \<or>
      cr_gc_round (core_cleanup env s) + cr_gc_depth s \<le> cr_consensus_round s"
    using assms by (auto simp: cleanup_gc(1) vote_inv_def)
  ultimately show ?thesis
    using assms by (auto simp: vote_inv_def cleanup_fields cleanup_gc(2))
qed

fun consensus_rounds :: "CoreInput list \<Rightarrow> Round list" where
  "consensus_rounds [] = []"
| "consensus_rounds (ConsensusRound r # inputs) = r # consensus_rounds inputs"
| "consensus_rounds (_ # inputs) = consensus_rounds inputs"


lemma acts_static:
  assumes "(core_act env)\<^sup>*\<^sup>* s s'"
  shows "cr_consensus_round s' = cr_consensus_round s \<and> cr_name s' = cr_name s \<and>
    set (cr_pending_qc_signals s') \<subseteq> set (cr_pending_qc_signals s) \<and> set (votes_sent s) \<subseteq> set (votes_sent s')"
  using assms
proof (induction rule: rtranclp_induct)
  case (step s1 s2)
  have "cr_consensus_round s2 = cr_consensus_round s1 \<and> cr_name s2 = cr_name s1 \<and>
      set (cr_pending_qc_signals s2) \<subseteq> set (cr_pending_qc_signals s1) \<and> set (votes_sent s1) \<subseteq> set (votes_sent s2)"
    using step.hyps(2)
    by (cases rule: core_act.cases)
      (auto simp: same_ledger_def send_qc_signal_def emit_def mark_author_def mark_voted_def Let_def votes_sent_def
        List.map_filter_def)
  then show ?case using step.IH by auto
qed simp

lemma core_step_acts:
  assumes "core_step env n input s = (s', r)"
  obtains s1 where "s' = s1 \<or> s' = core_cleanup env s1"
    and "(\<exists>round. input = ConsensusRound round \<and> s1 = s\<lparr>cr_consensus_round := round\<rparr>) \<or>
         (\<forall>round. input \<noteq> ConsensusRound round) \<and> (core_act env)\<^sup>*\<^sup>* s s1"
proof -
  obtain s1 r1 where handled: "handle_input env n input s = (s1, r1)" by (cases "handle_input env n input s")
  have "s' = s1 \<or> s' = core_cleanup env s1"
    using assms by (auto simp: core_step_def handled split: sum.splits CoreError.splits DagError.splits CoreInput.splits)
  moreover have "(\<exists>round. input = ConsensusRound round \<and> s1 = s\<lparr>cr_consensus_round := round\<rparr>) \<or>
      (\<forall>round. input \<noteq> ConsensusRound round) \<and> (core_act env)\<^sup>*\<^sup>* s s1"
    using handle_input_acts [OF handled] handled by (auto simp: handle_input_def cupd_def)
  ultimately show thesis using that by blast
qed

lemma core_step_consensus:
  assumes "core_step env n input s = (s', r)"
  shows "cr_consensus_round s' = (case input of ConsensusRound round \<Rightarrow> round | _ \<Rightarrow> cr_consensus_round s)"
    and "cr_name s' = cr_name s" and "set (cr_pending_qc_signals s') \<subseteq> set (cr_pending_qc_signals s)"
    and "set (votes_sent s) \<subseteq> set (votes_sent s')"
  by (rule core_step_acts [OF assms]; auto simp: cleanup_fields votes_sent_def split: CoreInput.split dest!: acts_static)+

lemma vote_inv_step:
  assumes "core_step env n input s = (s', r)" and "vote_inv s"
    and "\<And>round. input = ConsensusRound round \<Longrightarrow> cr_consensus_round s \<le> round"
  shows "vote_inv s'"
proof (rule core_step_acts [OF assms(1)])
  fix s1
  assume s': "s' = s1 \<or> s' = core_cleanup env s1"
    and input: "(\<exists>round. input = ConsensusRound round \<and> s1 = s\<lparr>cr_consensus_round := round\<rparr>) \<or>
         (\<forall>round. input \<noteq> ConsensusRound round) \<and> (core_act env)\<^sup>*\<^sup>* s s1"
  from input have "vote_inv s1"
  proof
    assume "\<exists>round. input = ConsensusRound round \<and> s1 = s\<lparr>cr_consensus_round := round\<rparr>"
    then show ?thesis
      using assms(3) by (auto intro!: vote_inv_mono [OF assms(2)] simp: votes_sent_def voted_authors_def)
  qed (use assms(2) in \<open>blast intro: vote_inv_acts\<close>)
  then show ?thesis using s' vote_inv_cleanup by blast
qed

lemma vote_inv_run:
  assumes "core_run env n inputs s = (s', r)" and "vote_inv s"
    and "sorted (cr_consensus_round s # consensus_rounds inputs)"
  shows "vote_inv s'"
  using assms
proof (induction inputs arbitrary: s)
  case Nil
  then show ?case by (simp add: cret_def)
next
  case (Cons input inputs)
  obtain s1 r1 where step: "core_step env n input s = (s1, r1)" by (cases "core_step env n input s")
  have inv: "vote_inv s1"
    using vote_inv_step [OF step Cons.prems(2)] Cons.prems(3) by (cases input) auto
  have sorted: "sorted (cr_consensus_round s1 # consensus_rounds inputs)"
    using core_step_consensus(1) [OF step] Cons.prems(3) by (cases input) auto
  show ?case
    using Cons.prems(1) Cons.IH [OF _ inv sorted] inv by (auto simp: cbind_def step split: sum.splits)
qed

lemma vote_inv_new:
  "\<not> allows_multiple_votes byzantine \<Longrightarrow> vote_inv (core_new env name c dp db gc_depth byzantine)"
  by (simp add: vote_inv_def core_new_def Let_def votes_cast_def votes_sent_def List.map_filter_def)

lemma core_run_name:
  assumes "core_run env n inputs s = (s', r)"
  shows "cr_name s' = cr_name s" and "set (cr_pending_qc_signals s') \<subseteq> set (cr_pending_qc_signals s)"
proof -
  have "cr_name s' = cr_name s \<and> set (cr_pending_qc_signals s') \<subseteq> set (cr_pending_qc_signals s)"
    using assms
  proof (induction inputs arbitrary: s)
    case (Cons input inputs)
    obtain s1 r1 where step: "core_step env n input s = (s1, r1)" by (cases "core_step env n input s")
    then show ?case
      using Cons.prems Cons.IH [of s1] core_step_consensus(2,3) [OF step]
      by (auto simp: cbind_def split: sum.splits)
  qed (simp add: cret_def)
  then show "cr_name s' = cr_name s" and "set (cr_pending_qc_signals s') \<subseteq> set (cr_pending_qc_signals s)" by auto
qed

end
