(* ===== verification/Core_Safety.thy ===== *)
theory Core_Safety
  imports Core_Votes Mahi_Safety
begin

text \<open>
  The votes of the primary's core: the functional behaviour of \<^verbatim>\<open>process_header\<close> on headers
  whose parents are at hand, the uniqueness of the votes over whole runs, and what happens
  to headers of garbage collected rounds.
\<close>

section \<open>Headers whose parents are known\<close>

lemma record_holders_fields:
  "sy_genesis (foldl (\<lambda>s d. record_reference_holder lib a d s) sy ds) = sy_genesis sy \<and>
   sy_certificate_cache (foldl (\<lambda>s d. record_reference_holder lib a d s) sy ds) = sy_certificate_cache sy \<and>
   sy_dag_protocol (foldl (\<lambda>s d. record_reference_holder lib a d s) sy ds) = sy_dag_protocol sy \<and>
   sy_name (foldl (\<lambda>s d. record_reference_holder lib a d s) sy ds) = sy_name sy"
  by (induction ds arbitrary: sy) simp_all

lemma map_filter_total: "(\<And>x. x \<in> set xs \<Longrightarrow> f x = Some (g x)) \<Longrightarrow> List.map_filter f xs = map g xs"
  by (induction xs) (simp_all add: List.map_filter_def)

lemma get_parents_known:
  assumes "\<And>d. d \<in> set (h_parents h) \<Longrightarrow> known_parent sy d = Some (par d)"
    and "\<not> is_shortfin_family (sy_dag_protocol sy)"
  obtains sy' where "get_parents env db h sy = (sy', Inr ((map par (h_parents h), []), None))"
    and "sy_genesis sy' = sy_genesis sy" "sy_certificate_cache sy' = sy_certificate_cache sy"
    and "sy_dag_protocol sy' = sy_dag_protocol sy" "sy_name sy' = sy_name sy"
proof -
  define sy' where "sy' = foldl (\<lambda>s d. record_reference_holder (ce_crypto env) (h_author h) d s) sy (h_parents h @ h_parents_2 h)"
  have fields: "sy_genesis sy' = sy_genesis sy" "sy_certificate_cache sy' = sy_certificate_cache sy"
      "sy_dag_protocol sy' = sy_dag_protocol sy" "sy_name sy' = sy_name sy"
    unfolding sy'_def using record_holders_fields by blast+
  then have known: "known_parent sy' = known_parent sy" by (simp add: known_parent_def fun_eq_iff split: option.split)
  have "lookup_parents env db sy' [] (h_parents h) = (sy', Inr (map par (h_parents h), []))"
    using assms(1) by (simp add: lookup_parents_def known map_filter_total [of _ "known_parent sy" par] cong: filter_cong)
  then have "get_parents env db h sy = (sy', Inr ((map par (h_parents h), []), None))"
    using assms(2) fields(3) by (simp add: get_parents_def sy'_def [symmetric] del: foldl_append)
  then show thesis using that fields by blast
qed

text \<open>A state whose synchronizer runs the protocol of the core.\<close>

definition in_step :: "'db Core \<Rightarrow> bool" where
  "in_step s \<longleftrightarrow> sy_dag_protocol (cr_synchronizer s) = cr_dag_protocol s \<and> sy_name (cr_synchronizer s) = cr_name s"

definition mark_processing :: "Header \<Rightarrow> 'db Core \<Rightarrow> 'db Core" where
  "mark_processing h s = s\<lparr>cr_processing := AList.update (h_round h)
     (List.insert (h_id h) (case map_of (cr_processing s) (h_round h) of None \<Rightarrow> [] | Some xs \<Rightarrow> xs)) (cr_processing s)\<rparr>"

lemma process_header_known:
  assumes "in_step s" and "cr_dag_protocol s \<in> {Narwhal, Bullshark, Wahoo}"
    and "\<And>d. d \<in> set (h_parents h) \<Longrightarrow> known_parent (cr_synchronizer s) d = Some (par d)"
    and "h_parents h \<noteq> []" and "h_payload h = []"
    and "validate_certified_loop (cr_committee s) h [] 0 (map par (h_parents h)) = Inr ()"
  obtains sy' where
    "process_header_with env pc h s = vote_for_header_with env pc h
       ((mark_processing h s)\<lparr>cr_synchronizer := sy',
          cr_store := kv_put (ce_kv env) (cr_store s) (digest_bytes (h_id h)) (ce_bincode_header env h)\<rparr>)"
    and "sy_genesis sy' = sy_genesis (cr_synchronizer s)" "sy_certificate_cache sy' = sy_certificate_cache (cr_synchronizer s)"
    and "sy_dag_protocol sy' = cr_dag_protocol s" "sy_name sy' = cr_name s"
proof -
  have family: "\<not> is_shortfin_family (sy_dag_protocol (cr_synchronizer s))" "\<not> is_mahi_mahi (cr_dag_protocol s)"
    using assms(1,2) by (auto simp: in_step_def is_shortfin_family_def is_mahi_mahi_def)
  obtain sy' where sy': "get_parents env (cr_store s) h (cr_synchronizer s) = (sy', Inr ((map par (h_parents h), []), None))"
      "sy_genesis sy' = sy_genesis (cr_synchronizer s)" "sy_certificate_cache sy' = sy_certificate_cache (cr_synchronizer s)"
      "sy_dag_protocol sy' = sy_dag_protocol (cr_synchronizer s)" "sy_name sy' = sy_name (cr_synchronizer s)"
    by (rule get_parents_known [OF assms(3) family(1)])
  have dp: "cr_dag_protocol s \<noteq> Shortfin" using assms(2) by auto
  have valid: "validate_header_parents env h (map par (h_parents h)) [] t = (t, Inr ())"
    if "cr_dag_protocol t = cr_dag_protocol s" and "cr_committee t = cr_committee s" for t
    using assms(2,6) that by (auto simp: validate_header_parents_def cbind_def cget_def clift_def cret_def)
  have parents: "cget_parents env h (mark_processing h s) =
      ((mark_processing h s)\<lparr>cr_synchronizer := sy'\<rparr>, Inr (map par (h_parents h), []))"
    by (simp add: cget_parents_def cbind_def crun_def clift_def csynchronize_def cret_def mark_processing_def sy'(1))
  have payload: "cmissing_payload_for env h h t = (t, Inr False)" for t
    using assms(5) by (simp add: cmissing_payload_for_def cbind_def cget_def clift_def csynchronize_def cret_def missing_payload_for_def)
  have "process_header_with env pc h s = vote_for_header_with env pc h
       ((mark_processing h s)\<lparr>cr_synchronizer := sy',
          cr_store := kv_put (ce_kv env) (cr_store s) (digest_bytes (h_id h)) (ce_bincode_header env h)\<rparr>)"
    using assms(4) family(2) dp parents
    by (simp add: process_header_with_def cbind_def cget_def cupd_def mark_processing_def [symmetric] payload valid store_write_def)
      (simp add: mark_processing_def valid)
  then show thesis using that sy' assms(1) by (simp add: in_step_def)
qed

section \<open>A node for concrete runs\<close>

text \<open>The first authority of the four, with a serializer that keeps nothing, under Narwhal.\<close>

definition run_env :: "(Key \<Rightarrow> Value option) CoreEnv" where
  "run_env = \<lparr>ce_crypto = slot_lib, ce_kv = demo_kv, ce_bincode_header = (\<lambda>_. []), ce_bincode_certificate = (\<lambda>_. []),
     ce_debincode_certificate = (\<lambda>_. None), ce_secret = []\<rparr>"

definition run_header :: "Digest \<Rightarrow> Header" where
  "run_header i = default_header\<lparr>h_author := PublicKey 2, h_round := 1, h_id := i,
     h_parents := map (grid_digest 0) [1, 2, 3, 4]\<rparr>"

definition run_node :: "PublicKey \<Rightarrow> (Key \<Rightarrow> Value option) Core" where
  "run_node k = core_new run_env k demo_committee Narwhal Map.empty 50 byzantine_default"

definition run_core :: "(Key \<Rightarrow> Value option) Core" where
  "run_core = core_new run_env (PublicKey 1) demo_committee Narwhal Map.empty 50 byzantine_default"

definition voter_ready :: "'db Core \<Rightarrow> bool" where
  "voter_ready s \<longleftrightarrow> in_step s \<and> cr_dag_protocol s = Narwhal \<and> cr_committee s = demo_committee \<and>
     PublicKey 2 \<noteq> cr_name s \<and> \<not> allows_multiple_votes (cr_byzantine s) \<and> cr_gc_depth s = 50 \<and>
     sy_genesis (cr_synchronizer s) = map (\<lambda>k. (grid_digest 0 k, grid_block 0 k)) [1, 2, 3, 4]"

lemma run_header_simps [simp]:
  "h_author (run_header i) = PublicKey 2" "h_round (run_header i) = 1" "h_id (run_header i) = i"
  "h_parents (run_header i) = map (grid_digest 0) [1, 2, 3, 4]" "h_payload (run_header i) = []"
  by (simp_all add: run_header_def default_header_def)

lemma run_core_node: "run_core = run_node (PublicKey 1)"
  by (simp add: run_core_def run_node_def)

lemma voter_ready_node: "PublicKey 2 \<noteq> k \<Longrightarrow> voter_ready (run_node k)"
  by (simp add: voter_ready_def run_node_def core_new_def Let_def in_step_def synchronizer_new_def run_env_def
      grid_genesis grid_round_def grid_block_digest allows_multiple_votes_def byzantine_default_def)

lemma voter_ready_new: "voter_ready run_core"
  by (simp add: run_core_node voter_ready_node)

lemma voter_ready_cong:
  assumes "voter_ready s" and "same_ledger s s'" and "in_step s'"
    and "sy_genesis (cr_synchronizer s') = sy_genesis (cr_synchronizer s)"
  shows "voter_ready s'"
  using assms by (simp add: voter_ready_def same_ledger_def)

lemma genesis_parents_known:
  assumes "sy_genesis sy = map (\<lambda>k. (grid_digest 0 k, grid_block 0 k)) [1, 2, 3, 4]" and "k \<in> {1, 2, 3, 4}"
  shows "known_parent sy (grid_digest 0 k) = Some (grid_block 0 k)"
  using assms by (auto simp: known_parent_def grid_digest_inject)

definition genesis_of :: "Digest \<Rightarrow> Certificate" where
  "genesis_of d = the (map_of (map (\<lambda>k. (grid_digest 0 k, grid_block 0 k)) [1, 2, 3, 4]) d)"

lemma genesis_of_simps: "k \<in> {1, 2, 3, 4} \<Longrightarrow> genesis_of (grid_digest 0 k) = grid_block 0 k"
  by (auto simp: genesis_of_def grid_digest_inject)

lemma run_header_valid:
  "validate_certified_loop demo_committee (run_header i) [] 0 (map genesis_of (h_parents (run_header i))) = Inr ()"
  by (simp add: genesis_of_simps cert_round_def cert_origin_def grid_block_def default_header_def demo_keys_def)

lemma no_synthesis:
  "\<not> is_uncertified_dag (cr_dag_protocol s) \<Longrightarrow> maybe_synthesize_uncertified_cert env n h s = (s, Inr ())"
  by (simp add: maybe_synthesize_uncertified_cert_def cbind_def cget_def cret_def)

text \<open>Such a node processes a loopback header up to the vote.\<close>

lemma run_header_processed:
  assumes "voter_ready s"
  obtains s1 where "same_ledger s s1" and "voter_ready s1"
    and "process_header_with run_env (process_certificate run_env n) (run_header i) s =
           vote_for_header_with run_env (process_certificate run_env n) (run_header i) s1"
proof (rule process_header_known [of s "run_header i" genesis_of run_env "process_certificate run_env n"])
  fix sy'
  let ?s1 = "(mark_processing (run_header i) s)\<lparr>cr_synchronizer := sy',
     cr_store := kv_put (ce_kv run_env) (cr_store s) (digest_bytes (h_id (run_header i))) (ce_bincode_header run_env (run_header i))\<rparr>"
  assume step: "process_header_with run_env (process_certificate run_env n) (run_header i) s =
      vote_for_header_with run_env (process_certificate run_env n) (run_header i) ?s1"
    and sy': "sy_genesis sy' = sy_genesis (cr_synchronizer s)" "sy_dag_protocol sy' = cr_dag_protocol s" "sy_name sy' = cr_name s"
  have ledger: "same_ledger s ?s1" by (simp add: same_ledger_def mark_processing_def)
  have ready: "voter_ready ?s1"
    by (rule voter_ready_cong [OF assms ledger]) (simp_all add: in_step_def sy' mark_processing_def)
  from ledger ready step show thesis by (rule that)
next
  have "cr_committee s = demo_committee" using assms by (simp add: voter_ready_def)
  then show "validate_certified_loop (cr_committee s) (run_header i) [] 0
      (map genesis_of (h_parents (run_header i))) = Inr ()" using run_header_valid by simp
  show "known_parent (cr_synchronizer s) d = Some (genesis_of d)" if "d \<in> set (h_parents (run_header i))" for d
    using assms that by (auto simp: voter_ready_def genesis_parents_known genesis_of_simps)
qed (use assms in \<open>simp_all add: voter_ready_def\<close>)

lemma ledger_votes:
  assumes "same_ledger s s1"
  shows "votes_sent s1 = votes_sent s" "may_vote s1 h = may_vote s h" "voted_authors s1 = voted_authors s"
    and "cr_voted_headers s1 = cr_voted_headers s" "cr_consensus_round s1 = cr_consensus_round s"
    and "cr_gc_round s1 = cr_gc_round s"
  using assms by (simp_all add: same_ledger_def votes_sent_def may_vote_def voted_authors_def fun_eq_iff)

lemma voter_ready_marks:
  "voter_ready (emit e (mark_voted h s)) = voter_ready s"
  by (simp add: voter_ready_def in_step_def) (simp add: emit_def mark_voted_def mark_author_def)


lemma votes_sent_cleanup: "votes_sent (core_cleanup env s) = votes_sent s"
  by (simp add: votes_sent_def cleanup_fields)

lemma run_header_voted:
  assumes "voter_ready s" and "may_vote s (run_header i)"
  obtains s' v where "core_step run_env n (FromHeaderWaiter (run_header i)) s = (core_cleanup run_env s', Inr ())"
    and "voter_ready s'" and "votes_sent s' = votes_sent s @ [v]"
    and "v_id v = i" "v_origin v = PublicKey 2" "v_round v = 1"
    and "voted_authors s' = voted_authors (mark_voted (run_header i) s)"
    and "cr_voted_headers s' = AList.update i 1 (cr_voted_headers s)" and "cr_consensus_round s' = cr_consensus_round s"
proof (rule run_header_processed [OF assms(1), of n i])
  fix s1
  assume ledger: "same_ledger s s1" and ready: "voter_ready s1"
    and step: "process_header_with run_env (process_certificate run_env n) (run_header i) s =
      vote_for_header_with run_env (process_certificate run_env n) (run_header i) s1"
  let ?h = "run_header i"
  let ?v = "own_vote run_env s1 ?h"
  obtain a where primary: "committee_primary demo_committee (PublicKey 2) = Inr a"
    by (simp add: committee_primary_def demo_committee_def demo_keys_def)
  let ?s' = "emit (Send (primary_to_primary a) (VoteMessage ?v)) (mark_voted ?h s1)"
  have narwhal: "cr_dag_protocol ?s' = Narwhal" using ready voter_ready_marks [of _ ?h s1] by (simp add: voter_ready_def)
  have may: "may_vote s1 ?h" using assms(2) ledger_votes(2) [OF ledger] by simp
  have "vote_for_header_with run_env (process_certificate run_env n) ?h s1 = (?s', Inr ())"
    using may ready primary by (simp add: vote_for_header_cases may_vote_def voter_ready_def)
  then have "core_step run_env n (FromHeaderWaiter ?h) s = (core_cleanup run_env ?s', Inr ())"
    using step narwhal
    by (simp add: core_step_def handle_input_def process_header_and_synthesize_def cbind_def no_synthesis is_uncertified_dag_def)
  moreover have "v_id ?v = i" "v_origin ?v = PublicKey 2" "v_round ?v = 1"
    by (simp_all add: own_vote_def vote_new_def vote_new_with_phase_def Let_def)
  moreover have "cr_voted_headers ?s' = AList.update i 1 (cr_voted_headers s)"
    using ledger_votes(4) [OF ledger] by (simp add: emit_def mark_voted_def)
  moreover have "voted_authors ?s' = voted_authors (mark_voted ?h s)"
    using ledger by (simp add: fun_eq_iff) (simp add: voted_authors_def mark_author_def same_ledger_def)
  ultimately show thesis
    using ready by (intro that [of ?s' ?v]) (simp_all add: voter_ready_marks ledger_votes [OF ledger])
qed


section \<open>Votes over a run\<close>

text \<open>
  C27. An honest core votes once.  Whatever sequence of headers, votes, certificates,
  loopbacks and proposals an honest primary receives, if the consensus rounds it reads
  never decrease, then for every author and every round that is not garbage collected yet it
  has sent at most one vote, and every vote it sent carries its own name.
\<close>

theorem core_votes_once:
  assumes "\<not> allows_multiple_votes byzantine" and "sorted (consensus_rounds inputs)"
    and "core_run env n inputs (core_new env name c dp db gc_depth byzantine) = (s, r)"
  shows "(\<forall>v \<in> set (votes_sent s). v_author v = name) \<and>
         (\<forall>origin round. cr_gc_round s \<le> round \<longrightarrow> length (votes_cast s origin round) \<le> 1)"
proof -
  have "cr_consensus_round (core_new env name c dp db gc_depth byzantine) = 0"
      "cr_name (core_new env name c dp db gc_depth byzantine) = name"
    by (simp_all add: core_new_def Let_def)
  then have "vote_inv s" and "cr_name s = name"
    using vote_inv_run [OF assms(3) vote_inv_new [OF assms(1)]] assms(2) core_run_name(1) [OF assms(3)] by simp_all
  then show ?thesis using vote_inv_once by (auto simp: vote_inv_def)
qed


lemma run_node_fresh:
  "may_vote (run_node k) (run_header i)" "votes_sent (run_node k) = []" "voted_authors (run_node k) round = []"
  "cr_voted_headers (run_node k) = []" "cr_consensus_round (run_node k) = 0"
  by (simp_all add: may_vote_def voted_authors_def run_node_def core_new_def Let_def votes_sent_def List.map_filter_def
      contains_key_iff)

lemmas run_core_fresh = run_node_fresh [of "PublicKey 1", folded run_core_node]

theorem core_votes_once_witness:
  "votes_cast (fst (core_run run_env 3 [FromHeaderWaiter (run_header (Digest 7)), FromHeaderWaiter (run_header (Digest 8))]
     run_core)) (PublicKey 2) 1 \<noteq> [] \<and>
   length (votes_cast (fst (core_run run_env 3
     [FromHeaderWaiter (run_header (Digest 7)), FromHeaderWaiter (run_header (Digest 8))] run_core)) (PublicKey 2) 1) \<le> 1"
proof (rule run_header_voted [OF voter_ready_new run_core_fresh(1), of 3 "Digest 7"])
  let ?inputs = "[FromHeaderWaiter (run_header (Digest 7)), FromHeaderWaiter (run_header (Digest 8))]"
  fix s1 v
  assume step1: "core_step run_env 3 (FromHeaderWaiter (run_header (Digest 7))) run_core = (core_cleanup run_env s1, Inr ())"
    and s1: "votes_sent s1 = votes_sent run_core @ [v]" "cr_consensus_round s1 = cr_consensus_round run_core"
    and v: "v_origin v = PublicKey 2" "v_round v = 1"
  obtain s2 r2 where step2: "core_step run_env 3 (FromHeaderWaiter (run_header (Digest 8))) (core_cleanup run_env s1) = (s2, r2)"
    by (cases "core_step run_env 3 (FromHeaderWaiter (run_header (Digest 8))) (core_cleanup run_env s1)")
  obtain s r where run: "core_run run_env 3 ?inputs run_core = (s, r)"
    by (cases "core_run run_env 3 ?inputs run_core")
  have "s = s2" using run step1 step2 by (auto simp: cbind_def cret_def split: sum.splits)
  then have "v \<in> set (votes_sent s)" and "cr_consensus_round s = 0"
    using core_step_consensus(1,4) [OF step2] s1 by (auto simp: votes_sent_cleanup cleanup_fields run_core_fresh)
  then have "v \<in> set (votes_cast s (PublicKey 2) 1)" using v by (simp add: votes_cast_def)
  have honest: "\<not> allows_multiple_votes byzantine_default"
    by (simp add: allows_multiple_votes_def byzantine_default_def)
  have "vote_inv run_core" by (simp add: run_core_def vote_inv_new honest)
  then have "vote_inv s" by (rule vote_inv_run [OF run]) (simp add: run_core_fresh)
  then have "cr_gc_round s \<le> 1" using \<open>cr_consensus_round s = 0\<close> by (auto simp: vote_inv_def)
  then have "length (votes_cast s (PublicKey 2) 1) \<le> 1"
    using core_votes_once [OF honest _ run [unfolded run_core_def]] by simp
  then show ?thesis using \<open>v \<in> set (votes_cast s (PublicKey 2) 1)\<close> by (auto simp del: core_run.simps simp: run)
qed


end
