(* ===== verification/Core_Mahi.thy ===== *)
theory Core_Mahi
  imports Core_Safety
begin

text \<open>
  Blocks of the Mahi-Mahi protocols in the primary's core: there are no votes, a header
  that was processed becomes a certificate without votes.  The theory follows a header
  from its arrival to the consensus task.
\<close>

section \<open>Waiting for parents\<close>

lemma known_parent_None:
  "known_parent sy d = None \<longleftrightarrow> d \<notin> fst ` set (sy_genesis sy) \<and> \<not> contains_key (sy_certificate_cache sy) d"
proof -
  have "find (\<lambda>(x, _). x = d) (sy_genesis sy) = None \<longleftrightarrow> d \<notin> fst ` set (sy_genesis sy)"
    by (force simp: find_None_iff)
  then show ?thesis
    by (auto simp: known_parent_def contains_key_iff map_of_eq_None_iff split: option.split)
qed

lemma read_parents_missing:
  "(\<And>d. d \<in> set ds \<Longrightarrow> kv_get (ce_kv env) db (digest_bytes d) = Inr None) \<Longrightarrow>
   read_parents env db sy parents missing ds = (sy, Inr (parents, missing @ ds))"
  by (induction ds arbitrary: missing) simp_all

definition unknown_parents :: "Synchronizer \<Rightarrow> Header \<Rightarrow> Digest list" where
  "unknown_parents sy h = filter (\<lambda>d. known_parent sy d = None) (h_parents h)"

lemma get_parents_missing:
  assumes "unknown_parents sy h \<noteq> []"
    and "\<And>d. d \<in> set (unknown_parents sy h) \<Longrightarrow> kv_get (ce_kv env) db (digest_bytes d) = Inr None"
    and "\<not> is_shortfin_family (sy_dag_protocol sy)"
  obtains sy' where "get_parents env db h sy = (sy', Inr (([], []), Some (SyncParents (unknown_parents sy h) h)))"
    and "sy_genesis sy' = sy_genesis sy" "sy_certificate_cache sy' = sy_certificate_cache sy"
    and "sy_dag_protocol sy' = sy_dag_protocol sy" "sy_name sy' = sy_name sy"
proof -
  define sy' where "sy' = foldl (\<lambda>s d. record_reference_holder (ce_crypto env) (h_author h) d s) sy (h_parents h @ h_parents_2 h)"
  have fields: "sy_genesis sy' = sy_genesis sy" "sy_certificate_cache sy' = sy_certificate_cache sy"
      "sy_dag_protocol sy' = sy_dag_protocol sy" "sy_name sy' = sy_name sy"
    unfolding sy'_def using record_holders_fields by blast+
  then have known: "known_parent sy' = known_parent sy" by (simp add: known_parent_def fun_eq_iff split: option.split)
  have "lookup_parents env db sy' [] (h_parents h) =
      (sy', Inr (List.map_filter (known_parent sy) (h_parents h), unknown_parents sy h))"
    using assms(2) unfolding lookup_parents_def known unknown_parents_def by (subst read_parents_missing) auto
  then have "get_parents env db h sy = (sy', Inr (([], []), Some (SyncParents (unknown_parents sy h) h)))"
    using assms(1,3) fields(3) by (simp add: get_parents_def sy'_def [symmetric] del: foldl_append)
  then show thesis using that fields by blast
qed

lemma all_delivered_missing:
  assumes "d \<in> set ds" and "known_parent sy d = None" and "kv_get (ce_kv env) db (digest_bytes d) = Inr None"
    and "kv_ok (ce_kv env)"
  shows "all_delivered env db sy ds = Inr False"
proof -
  have "\<not> parent_known env db sy d" using assms(2,3) by (auto simp: parent_known_def known_parent_None)
  then show ?thesis using assms(1) by (auto simp: all_delivered_exact [OF assms(4)])
qed

section \<open>From the header to the consensus\<close>

abbreviation synthetic :: "Header \<Rightarrow> Certificate" where
  "synthetic h \<equiv> \<lparr>header = h, votes = []\<rparr>"

lemma header_ready_marked:
  assumes "cr_dag_protocol s \<noteq> Shortfin"
  shows "header_ready (mark_processing h s) h"
  using assms by (simp add: header_ready_def mark_processing_def)

lemma header_ready_cong:
  "cr_dag_protocol t = cr_dag_protocol s \<Longrightarrow> cr_processing t = cr_processing s \<Longrightarrow> cr_shortfin_states t = cr_shortfin_states s \<Longrightarrow>
   header_ready t h = header_ready s h"
  by (simp add: header_ready_def)

lemma process_header_suspended:
  assumes "in_step s" and "cr_dag_protocol s \<noteq> Shortfin" and "\<not> is_shortfin_family (cr_dag_protocol s)"
    and "unknown_parents (cr_synchronizer s) h \<noteq> []"
    and "\<And>d. d \<in> set (unknown_parents (cr_synchronizer s) h) \<Longrightarrow> kv_get (ce_kv env) (cr_store s) (digest_bytes d) = Inr None"
  obtains sy' where "process_header_with env pc h s =
      (emit (ToHeaderWaiter (SyncParents (unknown_parents (cr_synchronizer s) h) h))
         ((mark_processing h s)\<lparr>cr_synchronizer := sy'\<rparr>), Inr ())"
    and "sy_genesis sy' = sy_genesis (cr_synchronizer s)" "sy_certificate_cache sy' = sy_certificate_cache (cr_synchronizer s)"
    and "sy_dag_protocol sy' = cr_dag_protocol s" "sy_name sy' = cr_name s"
proof (rule get_parents_missing [OF assms(4,5)])
  show "\<not> is_shortfin_family (sy_dag_protocol (cr_synchronizer s))" using assms(1,3) by (simp add: in_step_def)
  fix sy'
  assume parents: "get_parents env (cr_store s) h (cr_synchronizer s) =
      (sy', Inr (([], []), Some (SyncParents (unknown_parents (cr_synchronizer s) h) h)))"
    and fields: "sy_genesis sy' = sy_genesis (cr_synchronizer s)" "sy_certificate_cache sy' = sy_certificate_cache (cr_synchronizer s)"
      "sy_dag_protocol sy' = sy_dag_protocol (cr_synchronizer s)" "sy_name sy' = sy_name (cr_synchronizer s)"
  have "h_parents h \<noteq> []" using assms(4) by (auto simp: unknown_parents_def)
  moreover have "cget_parents env h (mark_processing h s) =
      (emit (ToHeaderWaiter (SyncParents (unknown_parents (cr_synchronizer s) h) h))
        ((mark_processing h s)\<lparr>cr_synchronizer := sy'\<rparr>), Inr ([], []))"
    by (simp add: cget_parents_def cbind_def crun_def clift_def csynchronize_def cret_def mark_processing_def parents
        send_def cupd_def)
  ultimately have "process_header_with env pc h s =
      (emit (ToHeaderWaiter (SyncParents (unknown_parents (cr_synchronizer s) h) h))
         ((mark_processing h s)\<lparr>cr_synchronizer := sy'\<rparr>), Inr ())"
    using assms(2) by (simp add: process_header_with_def cbind_def cget_def cupd_def mark_processing_def [symmetric] cret_def)
  then show thesis using that fields assms(1) by (simp add: in_step_def)
qed


text \<open>A certificate whose parents are not delivered goes to the certificate waiter.\<close>

lemma process_certificate_suspended:
  assumes "cr_dag_protocol s \<noteq> Shortfin" and "header_ready s h"
    and "deliver_certificate env (cr_store s) (synthetic h) (observe_certificate (ce_crypto env) (synthetic h) (cr_synchronizer s))
           = Inr False"
  shows "process_certificate env (Suc n) (synthetic h) s =
    (emit (ToCertificateWaiter (synthetic h))
       (s\<lparr>cr_synchronizer := observe_certificate (ce_crypto env) (synthetic h) (cr_synchronizer s)\<rparr>), Inr ())"
  using assms
  by (simp add: process_certificate_with_def cbind_def cupd_def cget_def cret_def header_ready_def cdeliver_certificate_def
      clift_def send_def)

lemma no_pending_votes:
  "cr_pending_votes s = [] \<Longrightarrow> process_pending_votes_with pc s = (s, Inr ())"
  by (simp add: process_pending_votes_with_def cbind_def crun_def cret_def)

text \<open>A delivered one is stored, indexed and sent to the consensus.\<close>

definition mahi_record :: "'db CoreEnv \<Rightarrow> Certificate \<Rightarrow> 'db Core \<Rightarrow> 'db Core" where
  "mahi_record env x s = record_mahi_weak_ref env x (note_certificate env x
     (s\<lparr>cr_store := kv_put (ce_kv env) (cr_store s) (digest_bytes (ce_digest env x)) (ce_bincode_certificate env x)\<rparr>))"

lemma process_certificate_mahi:
  assumes "is_mahi_mahi (cr_dag_protocol s)" and "header_ready s (header x)" and "cr_pending_votes s = []"
    and "deliver_certificate env (cr_store s) x (observe_certificate (ce_crypto env) x (cr_synchronizer s)) = Inr True"
  shows "process_certificate env (Suc n) x s =
    (emit (ToConsensus x) (try_signal_proposer env (mahi_record env x
       (s\<lparr>cr_synchronizer := observe_certificate (ce_crypto env) x (cr_synchronizer s)\<rparr>))), Inr ())"
proof -
  have dp: "cr_dag_protocol s \<noteq> Shortfin" "\<not> is_shortfin_family (cr_dag_protocol s)"
    using assms(1) by (cases "cr_dag_protocol s"; simp add: is_mahi_mahi_def is_shortfin_family_def)+
  have pending: "cr_pending_votes (record_mahi_weak_ref env x (note_certificate env x t)) = cr_pending_votes t" for t
    by (simp add: record_mahi_weak_ref_def note_certificate_def index_certificate_def Let_def)
  show ?thesis
    using assms dp
    by (simp add: process_certificate_with_def admit_certificate_with_def cbind_def cupd_def cget_def cret_def header_ready_def
        cdeliver_certificate_def clift_def send_def store_certificate_def store_write_def mahi_record_def no_pending_votes pending)
qed

lemma deliver_known:
  assumes "kv_ok (ce_kv env)" and "\<not> is_shortfin_family (sy_dag_protocol sy)"
  shows "deliver_certificate env db x (observe_certificate lib x' sy) =
    Inr (\<forall>d \<in> set (h_parents (header x)). parent_known env db sy d)"
  using assms
  by (simp add: deliver_certificate_def all_delivered_exact parent_known_def)

text \<open>
  C36. A suspended Mahi-Mahi block is never validated.  A header with a parent that is
  missing is marked as processed, and the certificate made of it waits for the parents.  When
  they are there, the certificate is stored and sent to the consensus, although neither
  the parent quorum nor the payload of the header has been checked.
\<close>

theorem mahi_suspended_not_validated:
  assumes "kv_ok (ce_kv env)" and "is_mahi_mahi (cr_dag_protocol s)" and "in_step s"
    and "unknown_parents (cr_synchronizer s) h \<noteq> []"
    and "\<forall>d \<in> set (unknown_parents (cr_synchronizer s) h). kv_get (ce_kv env) (cr_store s) (digest_bytes d) = Inr None"
  shows "\<exists>s1. process_header_and_synthesize env (Suc n) h s = (s1, Inr ()) \<and> header_ready s1 h \<and>
           last (cr_events s1) = ToCertificateWaiter (synthetic h) \<and> cr_dag_protocol s1 = cr_dag_protocol s \<and>
           cr_pending_votes s1 = cr_pending_votes s \<and> in_step s1 \<and> cr_store s1 = cr_store s \<and>
           (\<forall>t. cr_dag_protocol t = cr_dag_protocol s \<and> in_step t \<and> header_ready t h \<and> cr_pending_votes t = [] \<and>
                (\<forall>d \<in> set (h_parents h). parent_known env (cr_store t) (cr_synchronizer t) d) \<longrightarrow>
              (\<exists>t1. process_certificate env (Suc n) (synthetic h) t = (t1, Inr ()) \<and>
                    last (cr_events t1) = ToConsensus (synthetic h)))"
proof -
  have dp: "cr_dag_protocol s \<noteq> Shortfin" "\<not> is_shortfin_family (cr_dag_protocol s)" "is_uncertified_dag (cr_dag_protocol s)"
    using assms(2) by (cases "cr_dag_protocol s"; simp add: is_mahi_mahi_def is_shortfin_family_def is_uncertified_dag_def)+
  have accepted: "\<exists>t1. process_certificate env (Suc n) (synthetic h) t = (t1, Inr ()) \<and>
      last (cr_events t1) = ToConsensus (synthetic h)"
    if "cr_dag_protocol t = cr_dag_protocol s" "in_step t" "header_ready t h" "cr_pending_votes t = []"
      "\<forall>d \<in> set (h_parents h). parent_known env (cr_store t) (cr_synchronizer t) d" for t
  proof -
    have "\<not> is_shortfin_family (sy_dag_protocol (cr_synchronizer t))" using that dp by (simp add: in_step_def)
    then have "process_certificate env (Suc n) (synthetic h) t =
      (emit (ToConsensus (synthetic h)) (try_signal_proposer env (mahi_record env (synthetic h)
        (t\<lparr>cr_synchronizer := observe_certificate (ce_crypto env) (synthetic h) (cr_synchronizer t)\<rparr>))), Inr ())"
      using that assms(2) deliver_known [OF assms(1)] by (intro process_certificate_mahi) simp_all
    then show ?thesis by (simp add: emit_def)
  qed
  obtain sy' where step: "process_header_with env (process_certificate env (Suc n)) h s =
      (emit (ToHeaderWaiter (SyncParents (unknown_parents (cr_synchronizer s) h) h))
         ((mark_processing h s)\<lparr>cr_synchronizer := sy'\<rparr>), Inr ())"
    and sy': "sy_genesis sy' = sy_genesis (cr_synchronizer s)" "sy_certificate_cache sy' = sy_certificate_cache (cr_synchronizer s)"
      "sy_dag_protocol sy' = cr_dag_protocol s" "sy_name sy' = cr_name s"
    using process_header_suspended [OF assms(3) dp(1,2) assms(4)] assms(5) by metis
  let ?s = "emit (ToHeaderWaiter (SyncParents (unknown_parents (cr_synchronizer s) h) h))
         ((mark_processing h s)\<lparr>cr_synchronizer := sy'\<rparr>)"
  have fields: "cr_dag_protocol ?s = cr_dag_protocol s" "cr_store ?s = cr_store s" "cr_synchronizer ?s = sy'"
      "cr_pending_votes ?s = cr_pending_votes s" "cr_name ?s = cr_name s"
    by (simp_all add: emit_def mark_processing_def)
  have ready: "header_ready ?s h"
    using header_ready_marked [OF dp(1)] by (simp add: header_ready_def emit_def)
  obtain d where d: "d \<in> set (h_parents h)" "known_parent (cr_synchronizer s) d = None"
    using assms(4) by (auto simp: unknown_parents_def filter_empty_conv)
  then have "\<not> parent_known env (cr_store s) sy' d"
    using assms(5) by (auto simp: unknown_parents_def parent_known_def known_parent_None sy')
  then have waits: "deliver_certificate env (cr_store ?s) (synthetic h)
      (observe_certificate (ce_crypto env) (synthetic h) (cr_synchronizer ?s)) = Inr False"
    using d(1) deliver_known [OF assms(1)] dp(2) by (auto simp: fields sy')
  let ?s1 = "emit (ToCertificateWaiter (synthetic h))
       (?s\<lparr>cr_synchronizer := observe_certificate (ce_crypto env) (synthetic h) (cr_synchronizer ?s)\<rparr>)"
  have "process_certificate env (Suc n) (synthetic h) ?s = (?s1, Inr ())"
    using fields(1) dp(1) ready waits by (intro process_certificate_suspended) simp_all
  then have "maybe_synthesize_uncertified_cert env (Suc n) h ?s = (?s1, Inr ())"
    using dp fields(1)
    by (simp del: process_certificate.simps add: maybe_synthesize_uncertified_cert_def cbind_def cget_def cwarn_def)
  then have "process_header_and_synthesize env (Suc n) h s = (?s1, Inr ())"
    using step by (simp del: process_certificate.simps add: process_header_and_synthesize_def cbind_def)
  moreover have "header_ready ?s1 h = header_ready ?s h" by (rule header_ready_cong) (simp_all add: emit_def)
  moreover have "last (cr_events ?s1) = ToCertificateWaiter (synthetic h)"
      "cr_dag_protocol ?s1 = cr_dag_protocol s" "cr_pending_votes ?s1 = cr_pending_votes s" "in_step ?s1" "cr_store ?s1 = cr_store s"
    by (simp_all add: in_step_def emit_def mark_processing_def sy')
  ultimately show ?thesis using accepted ready by blast
qed


text \<open>A block of round two with one parent, far from a quorum.\<close>

definition lone_header :: Header where
  "lone_header = default_header\<lparr>h_author := PublicKey 2, h_round := 2, h_parents := [grid_digest 1 3]\<rparr>"

definition mahi_core :: "(Key \<Rightarrow> Value option) Core" where
  "mahi_core = core_new run_env (PublicKey 1) demo_committee MahiMahi4 Map.empty 50 byzantine_default"

lemma lone_header_simps [simp]: "h_parents lone_header = [grid_digest 1 3]" "h_round lone_header = 2"
  by (simp_all add: lone_header_def)

lemma mahi_core_fields:
  "cr_dag_protocol mahi_core = MahiMahi4" "in_step mahi_core" "cr_pending_votes mahi_core = []" "cr_store mahi_core = Map.empty"
  "sy_genesis (cr_synchronizer mahi_core) = map (\<lambda>k. (grid_digest 0 k, grid_block 0 k)) [1, 2, 3, 4]"
  "sy_certificate_cache (cr_synchronizer mahi_core) = map (\<lambda>k. (grid_digest 0 k, grid_block 0 k)) [1, 2, 3, 4]"
  by (simp_all add: mahi_core_def core_new_def Let_def in_step_def synchronizer_new_def run_env_def
      grid_genesis grid_round_def grid_block_digest grid_digest_inject)

lemma lone_parent_unknown: "unknown_parents (cr_synchronizer mahi_core) lone_header = [grid_digest 1 3]"
  by (simp add: unknown_parents_def known_parent_None mahi_core_fields grid_digest_inject contains_key_iff)

theorem mahi_suspended_not_validated_witness:
  "validate_mahi_parents lone_header [grid_block 1 3] demo_committee = Inl (HeaderRequiresQuorum (h_id lone_header)) \<and>
   (\<exists>s1 t t1. process_header_and_synthesize run_env 1 lone_header mahi_core = (s1, Inr ()) \<and>
      t = s1\<lparr>cr_synchronizer := cache_certificate slot_lib (grid_block 1 3) (cr_synchronizer s1)\<rparr> \<and>
      process_certificate run_env 1 (synthetic lone_header) t = (t1, Inr ()) \<and>
      last (cr_events t1) = ToConsensus (synthetic lone_header))"
proof
  show "validate_mahi_parents lone_header [grid_block 1 3] demo_committee = Inl (HeaderRequiresQuorum (h_id lone_header))"
    by (simp add: validate_mahi_parents_def grid_block_def cert_round_def cert_origin_def default_header_def demo_keys_def
        word_le_nat_alt)
  have env: "ce_kv run_env = demo_kv" "ce_crypto run_env = slot_lib" by (simp_all add: run_env_def)
  have kv: "kv_ok (ce_kv run_env)" by (simp add: env)
  have mahi: "is_mahi_mahi (cr_dag_protocol mahi_core)" by (simp add: mahi_core_fields is_mahi_mahi_def)
  have unknown: "unknown_parents (cr_synchronizer mahi_core) lone_header \<noteq> []" by (simp add: lone_parent_unknown)
  have absent: "\<forall>d \<in> set (unknown_parents (cr_synchronizer mahi_core) lone_header).
      kv_get (ce_kv run_env) (cr_store mahi_core) (digest_bytes d) = Inr None"
    by (simp add: env mahi_core_fields demo_kv_def)
  obtain s1 where step: "process_header_and_synthesize run_env (Suc 0) lone_header mahi_core = (s1, Inr ())"
    and s1: "header_ready s1 lone_header" "cr_dag_protocol s1 = cr_dag_protocol mahi_core"
      "cr_pending_votes s1 = cr_pending_votes mahi_core" "in_step s1"
    and accepted: "\<forall>t. cr_dag_protocol t = cr_dag_protocol mahi_core \<and> in_step t \<and> header_ready t lone_header \<and>
        cr_pending_votes t = [] \<and> (\<forall>d \<in> set (h_parents lone_header). parent_known run_env (cr_store t) (cr_synchronizer t) d) \<longrightarrow>
        (\<exists>t1. process_certificate run_env (Suc 0) (synthetic lone_header) t = (t1, Inr ()) \<and>
          last (cr_events t1) = ToConsensus (synthetic lone_header))"
    using mahi_suspended_not_validated [OF kv mahi mahi_core_fields(2) unknown absent, of 0] by blast
  let ?t = "s1\<lparr>cr_synchronizer := cache_certificate slot_lib (grid_block 1 3) (cr_synchronizer s1)\<rparr>"
  have "header_ready ?t lone_header = header_ready s1 lone_header" by (rule header_ready_cong) simp_all
  moreover have "parent_known run_env (cr_store ?t) (cr_synchronizer ?t) (grid_digest 1 3)"
    by (simp add: parent_known_def contains_key_def grid_block_digest)
  ultimately have "\<exists>t1. process_certificate run_env (Suc 0) (synthetic lone_header) ?t = (t1, Inr ()) \<and>
      last (cr_events t1) = ToConsensus (synthetic lone_header)"
    using accepted s1 by (simp del: process_certificate.simps add: in_step_def mahi_core_fields)
  then show "\<exists>s1 t t1. process_header_and_synthesize run_env 1 lone_header mahi_core = (s1, Inr ()) \<and>
      t = s1\<lparr>cr_synchronizer := cache_certificate slot_lib (grid_block 1 3) (cr_synchronizer s1)\<rparr> \<and>
      process_certificate run_env 1 (synthetic lone_header) t = (t1, Inr ()) \<and>
      last (cr_events t1) = ToConsensus (synthetic lone_header)"
    using step by (simp del: process_certificate.simps)
qed

end
