(* ===== verification/Core_Fuel.thy ===== *)
theory Core_Fuel
  imports Core_Votes
begin

text \<open>
  The recursion of the core through \<^verbatim>\<open>process_certificate\<close> is at most two calls deep, in all
  protocols but Shortfin: the inner call is for a certificate of an own header, which is
  processed already.  So fuel two is enough for every run.
\<close>

section \<open>Triples\<close>

definition triple :: "('db Core \<Rightarrow> bool) \<Rightarrow> ('db, 'a) core \<Rightarrow> ('db Core \<Rightarrow> bool) \<Rightarrow> bool" where
  "triple P m Q \<longleftrightarrow> (\<forall>s. P s \<longrightarrow> Q (fst (m s)) \<and> snd (m s) \<noteq> Inl OutOfFuel)"

named_theorems triple_intro

lemma triple_pure [triple_intro]:
  "triple P (cret x) P" "triple P (cget f) P" "triple P (clift r) P" "triple P (censure b err) P"
  "triple P (craise (Dag err)) P" "triple P (craise (CorePanic msg)) P"
  by (auto simp: triple_def cret_def craise_def cget_def clift_def censure_def split: sum.split)

lemma triple_bind [triple_intro]:
  assumes "triple P m Q" and "\<And>x. triple Q (f x) Q"
  shows "triple P (cbind m f) Q"
  unfolding triple_def
proof (intro allI impI)
  fix s
  assume "P s"
  obtain s1 r where m: "m s = (s1, r)" by (cases "m s")
  then have "Q s1" and "r \<noteq> Inl OutOfFuel" using assms(1) \<open>P s\<close> by (force simp: triple_def)+
  then show "Q (fst (cbind m f s)) \<and> snd (cbind m f s) \<noteq> Inl OutOfFuel"
    using assms(2) by (cases r) (auto simp: cbind_def m triple_def)
qed

lemma triple_expect [triple_intro]: "triple P m Q \<Longrightarrow> triple P (cexpect msg m) Q"
  unfolding triple_def cexpect_def by (force split: prod.split sum.split CoreError.split)

lemma triple_warn [triple_intro]: "triple P m Q \<Longrightarrow> triple P (cwarn m) Q"
  unfolding triple_def cwarn_def by (force split: prod.split sum.split CoreError.split)

lemma triple_for [triple_intro]: "(\<And>x. triple P (f x) P) \<Longrightarrow> triple P (cfor f xs) P"
  by (induction xs) (auto intro: triple_intro)

lemma triple_upd [triple_intro]: "(\<And>s. P s \<Longrightarrow> Q (f s)) \<Longrightarrow> triple P (cupd f) Q"
  by (simp add: triple_def cupd_def)

lemma triple_run [triple_intro]: "(\<And>s. P s \<Longrightarrow> Q (fst (f s))) \<Longrightarrow> triple P (crun f) Q"
  by (simp add: triple_def crun_def case_prod_beta)

lemma triple_send [triple_intro]: "(\<And>s. P s \<Longrightarrow> P (emit e s)) \<Longrightarrow> triple P (send e) P"
  by (simp add: send_def triple_upd)

lemma triple_if [triple_intro]:
  "(b \<Longrightarrow> triple P m1 Q) \<Longrightarrow> (\<not> b \<Longrightarrow> triple P m2 Q) \<Longrightarrow> triple P (if b then m1 else m2) Q"
  by simp

lemma triple_case_option [triple_intro]:
  "triple P m1 Q \<Longrightarrow> (\<And>x. triple P (m2 x) Q) \<Longrightarrow> triple P (case found of None \<Rightarrow> m1 | Some x \<Rightarrow> m2 x) Q"
  by (cases found) simp_all

lemma triple_case_prod [triple_intro]: "(\<And>x y. triple P (m x y) Q) \<Longrightarrow> triple P (case p of (x, y) \<Rightarrow> m x y) Q"
  by (cases p) simp

text \<open>A field that is read satisfies what the precondition says of it.\<close>

lemma triple_get: "(\<And>s. P s \<Longrightarrow> triple P (g (f s)) Q) \<Longrightarrow> triple P (cbind (cget f) g) Q"
  by (simp add: triple_def cbind_def cget_def)

section \<open>Own headers are processed\<close>

definition own_ready :: "Header option \<Rightarrow> 'db Core \<Rightarrow> bool" where
  "own_ready fresh s \<longleftrightarrow> cr_dag_protocol s \<noteq> Shortfin \<and> cr_pending_votes s = [] \<and>
     (\<forall>(i, h) \<in> set (cr_own_headers s). h_id h = i \<and> (header_ready s h \<or> fresh = Some h))"

abbreviation settled :: "'db Core \<Rightarrow> bool" where
  "settled \<equiv> own_ready None"

lemma own_ready_cong:
  assumes "own_ready fresh s" and "cr_dag_protocol s' = cr_dag_protocol s" "cr_pending_votes s' = cr_pending_votes s"
    and "cr_own_headers s' = cr_own_headers s" "cr_processing s' = cr_processing s"
  shows "own_ready fresh s'"
proof -
  have "header_ready s' h = header_ready s h" for h
    using assms by (simp add: header_ready_def own_ready_def)
  then show ?thesis using assms unfolding own_ready_def by simp
qed

lemma own_ready_protocol: "own_ready fresh s \<Longrightarrow> cr_dag_protocol s \<noteq> Shortfin"
  by (simp add: own_ready_def)

text \<open>What \<open>pc\<close> is called with: certificates of headers that are processed already.\<close>

definition calls_ready :: "(Certificate \<Rightarrow> ('db, unit) core) \<Rightarrow> bool" where
  "calls_ready pc \<longleftrightarrow> (\<forall>x. triple (\<lambda>s. settled s \<and> header_ready s (header x)) (pc x) settled)"

lemma triple_process_vote [triple_intro]:
  assumes "calls_ready pc"
  shows "triple settled (process_vote_with pc vote) settled"
  unfolding triple_def
proof (intro allI impI)
  fix s :: "'a Core"
  assume inv: "settled s"
  show "settled (fst (process_vote_with pc vote s)) \<and> snd (process_vote_with pc vote s) \<noteq> Inl OutOfFuel"
  proof (cases "map_of (cr_own_headers s) (v_id vote)")
    case None
    then show ?thesis using inv by (simp add: process_vote_with_def cbind_def cget_def craise_def)
  next
    case (Some h)
    then have ready: "header_ready s h" using inv map_of_SomeD [OF Some] by (auto simp: own_ready_def)
    define r where "r = votes_append (cr_committee s) h
      (case map_of (cr_votes_aggregators s) (h_id h) of None \<Rightarrow> votes_aggregator_new | Some a \<Rightarrow> a) vote"
    define s1 where "s1 = s\<lparr>cr_votes_aggregators := AList.update (h_id h) (fst r) (cr_votes_aggregators s)\<rparr>"
    have s1: "settled s1" "header_ready s1 h"
      using inv ready by (auto simp: s1_def own_ready_def header_ready_def)
    show ?thesis
    proof (cases "snd r")
      case None
      then show ?thesis using Some s1(1)
        by (simp add: process_vote_with_def cbind_def cget_def crun_def cret_def Let_def r_def [symmetric] s1_def [symmetric])
    next
      case (Some certificate)
      then have header: "header certificate = h"
        by (auto simp: r_def votes_append_def Let_def split: if_splits)
      define s2 where "s2 = (if is_uncertified_dag (cr_dag_protocol s1) then s1
        else emit (Broadcast (map (\<lambda>(_, x). primary_to_primary x) (others_primaries (cr_committee s1) (cr_name s1)))
               (CertificateMessage certificate)) s1)"
      have "settled s2" "header_ready s2 (header certificate)"
        using s1 by (auto simp: s2_def header emit_def own_ready_def header_ready_def)
      then have "triple (\<lambda>s. s = s2) (cexpect ''Failed to process valid certificate'' (pc certificate)) settled"
        using assms unfolding calls_ready_def by (intro triple_expect) (auto simp: triple_def)
      then show ?thesis
        using Some \<open>map_of (cr_own_headers s) (v_id vote) = Some h\<close>
        by (simp add: triple_def process_vote_with_def cbind_def cget_def crun_def cupd_def Let_def r_def [symmetric]
            s1_def [symmetric] s2_def [symmetric])
    qed
  qed
qed


lemma settled_updates:
  assumes "own_ready fresh s"
  shows "own_ready fresh (emit e s)" "own_ready fresh (s\<lparr>cr_synchronizer := sy\<rparr>)" "own_ready fresh (s\<lparr>cr_store := db\<rparr>)"
    and "own_ready fresh (s\<lparr>cr_certificates_aggregators := ca\<rparr>)" "own_ready fresh (s\<lparr>cr_certificates_vec_aggregators := cva\<rparr>)"
    and "own_ready fresh (s\<lparr>cr_consensus_round := cr\<rparr>)"
  by (rule own_ready_cong [OF assms]; simp add: emit_def)+

lemma triple_vote_for_header [triple_intro]:
  assumes "calls_ready pc"
  shows "triple settled (vote_for_header_with env pc h) settled"
  unfolding triple_def
proof (intro allI impI)
  fix s :: "'a Core"
  assume inv: "settled s"
  have marks: "settled (mark_author h s)" "settled (mark_voted h s)"
    by (rule own_ready_cong [OF inv]; simp add: mark_author_def mark_voted_def)+
  have "triple settled (cexpect msg (process_vote_with pc v)) settled" for msg v
    by (intro triple_intro assms)
  then show "settled (fst (vote_for_header_with env pc h s)) \<and> snd (vote_for_header_with env pc h s) \<noteq> Inl OutOfFuel"
    using inv marks settled_updates(1) [OF marks(2)]
    by (simp add: vote_for_header_cases triple_def split: sum.split)
qed

lemma settled_frame: "settled s \<Longrightarrow> core_frame s' = core_frame s \<Longrightarrow> settled s'"
  by (rule own_ready_cong) (auto simp: core_frame_fields [of s' s])

lemma triple_synchronize [triple_intro]:
  "triple settled (csynchronize request) settled" "triple settled (cmissing_payload_for env h h') settled"
  "triple settled (cget_parents env h) settled" "triple settled (cdeliver_certificate env certificate) settled"
  "triple settled (store_write env key v) settled" "triple settled (store_certificate env certificate) settled"
  unfolding csynchronize_def cmissing_payload_for_def cget_parents_def cdeliver_certificate_def store_write_def
    store_certificate_def
  by (auto simp: Let_def split: option.split intro!: triple_intro settled_updates)

lemma triple_validate [triple_intro]:
  "triple settled (validate_shortfin env h parents_1 parents_2) settled"
  "triple settled (validate_header_parents env h parents_1 parents_2) settled"
proof -
  show shortfin: "triple settled (validate_shortfin env h parents_1 parents_2) settled"
    unfolding validate_shortfin_def
    by (intro triple_intro) (auto intro!: triple_intro elim!: settled_frame)
  show "triple settled (validate_header_parents env h parents_1 parents_2) settled"
    unfolding validate_header_parents_def
    by (auto split: DagProtocol.split intro!: triple_intro shortfin)
qed


text \<open>A header that is processed becomes ready at once.\<close>

lemma settled_mark_processing:
  assumes "own_ready (Some h) s"
  shows "settled (s\<lparr>cr_processing := AList.update (h_round h)
     (List.insert (h_id h) (case map_of (cr_processing s) (h_round h) of None \<Rightarrow> [] | Some xs \<Rightarrow> xs)) (cr_processing s)\<rparr>)"
    (is "settled ?s")
proof -
  have dp: "cr_dag_protocol s \<noteq> Shortfin" using assms by (simp add: own_ready_def)
  have "header_ready ?s h" "header_ready s h' \<Longrightarrow> header_ready ?s h'" for h'
    using dp by (auto simp: header_ready_def split: option.splits)
  then show ?thesis using assms unfolding own_ready_def by auto
qed

lemma triple_process_header:
  assumes "calls_ready pc"
  shows "triple (own_ready (Some h)) (process_header_with env pc h) settled"
  unfolding process_header_with_def
  by (rule triple_get, drule own_ready_protocol, simp only: prod.case, intro triple_intro assms)
    (simp_all add: settled_mark_processing)

section \<open>Certificates\<close>

lemma settled_record:
  assumes "settled s"
  shows "settled (record_mahi_weak_ref env x (note_certificate env x s))"
  by (rule own_ready_cong [OF assms])
    (simp_all add: record_mahi_weak_ref_def note_certificate_def index_certificate_def Let_def)

lemma settled_signal:
  assumes "settled s"
  shows "settled (try_signal_proposer env s)"
  using assms
proof (induction env s rule: try_signal_proposer.induct)
  case (1 env s)
  have "settled s1" if step: "signal_step env s = Some s1" for s1
  proof -
    note fields = core_frame_fields [OF mahi_parent_digests_frame, of env _ _ s]
    have "cr_dag_protocol s1 = cr_dag_protocol s \<and> cr_pending_votes s1 = cr_pending_votes s \<and>
        cr_own_headers s1 = cr_own_headers s \<and> cr_processing s1 = cr_processing s"
      using step fields
      by (auto simp: signal_step_def Let_def case_prod_beta emit_def split: option.splits if_splits)
    then show ?thesis by (intro own_ready_cong [OF 1(2)]) simp_all
  qed
  then show ?case using 1 by (subst try_signal_proposer.simps) (auto split: option.split)
qed

lemma triple_pending_votes:
  "triple settled (process_pending_votes_with pc) settled"
  by (auto simp: triple_def process_pending_votes_with_def cbind_def crun_def cret_def own_ready_def)
    (auto simp: header_ready_def)

lemma settled_qc_signal: "settled s \<Longrightarrow> settled (send_qc_signal certificate s)"
  by (erule own_ready_cong) (simp_all add: send_qc_signal_def Let_def emit_def)

lemma triple_admit [triple_intro]:
  "triple settled (admit_certificate_with env pc certificate) settled"
  unfolding admit_certificate_with_def
  by (rule triple_get, drule own_ready_protocol, intro triple_intro triple_pending_votes)
    (simp_all add: settled_record settled_signal settled_qc_signal settled_updates Let_def)


lemma own_ready_weaken: "settled s \<Longrightarrow> own_ready (Some h) s"
  by (auto simp: own_ready_def)

lemma triple_pre: "triple P m Q \<Longrightarrow> (\<And>s. P' s \<Longrightarrow> P s) \<Longrightarrow> triple P' m Q"
  by (auto simp: triple_def)

text \<open>A call for a header that is processed does not call back.\<close>

lemma process_certificate_ready:
  "triple (\<lambda>s. settled s \<and> header_ready s (header x)) (process_certificate_with env pc x) settled"
  unfolding triple_def
proof (intro allI impI, elim conjE)
  fix s :: "'a Core"
  assume inv: "settled s" and ready: "header_ready s (header x)"
  let ?s = "s\<lparr>cr_synchronizer := observe_certificate (ce_crypto env) x (cr_synchronizer s)\<rparr>"
  let ?rest = "cbind (cdeliver_certificate env x) (\<lambda>delivered. if \<not> delivered then cret ()
     else cbind (admit_certificate_with env pc x) (\<lambda>to_consensus. if to_consensus then send (ToConsensus x) else cret ()))"
  have "process_certificate_with env pc x s = ?rest ?s"
    using inv ready
    by (simp add: process_certificate_with_def cbind_def cupd_def cget_def cret_def header_ready_def own_ready_def)
  moreover have "triple settled ?rest settled" by (intro triple_intro) (simp_all add: settled_updates)
  ultimately show "settled (fst (process_certificate_with env pc x s)) \<and>
      snd (process_certificate_with env pc x s) \<noteq> Inl OutOfFuel"
    using settled_updates(2) [OF inv] by (simp add: triple_def)
qed

lemma calls_ready_process_certificate: "calls_ready (process_certificate env (Suc n))"
  by (simp add: calls_ready_def process_certificate_ready)

lemma triple_process_header_settled [triple_intro]:
  "calls_ready pc \<Longrightarrow> triple settled (process_header_with env pc h) settled"
  by (rule triple_pre [OF triple_process_header]) (simp_all add: own_ready_weaken)

lemma triple_process_certificate [triple_intro]:
  "triple settled (process_certificate env (Suc (Suc n)) x) settled"
  unfolding process_certificate.simps(2) [of env "Suc n"] process_certificate_with_def
  by (intro triple_intro calls_ready_process_certificate)
    (simp_all add: own_ready_protocol settled_updates)

section \<open>The receive loop\<close>

lemma triple_upd_bind:
  "(\<And>s. P s \<Longrightarrow> R (f s)) \<Longrightarrow> triple R (g ()) Q \<Longrightarrow> triple P (cbind (cupd f) g) Q"
  by (simp add: triple_def cbind_def cupd_def)

lemma triple_synthesize [triple_intro]: "triple settled (maybe_synthesize_uncertified_cert env (Suc (Suc n)) h) settled"
  unfolding maybe_synthesize_uncertified_cert_def
  by (intro triple_intro)

lemma settled_own_header:
  assumes "settled s"
  shows "own_ready (Some h) (s\<lparr>cr_own_headers := AList.update (h_id h) h (cr_own_headers s), cr_votes_aggregators := va\<rparr>)"
    (is "own_ready _ ?s")
proof -
  have "header_ready ?s h' = header_ready s h'" for h' by (simp add: header_ready_def)
  then show ?thesis
    using assms set_update_subset [of "h_id h" h "cr_own_headers s"] unfolding own_ready_def by force
qed

lemma triple_process_own_header [triple_intro]: "triple settled (process_own_header env (Suc (Suc n)) h) settled"
proof -
  have body: "triple (own_ready (Some x)) (cbind (process_header_with env (process_certificate env (Suc (Suc n))) x) (\<lambda>_.
         cbind (maybe_synthesize_uncertified_cert env (Suc (Suc n)) x) (\<lambda>_.
         cupd (\<lambda>s. emit (Broadcast (header_targets s x) (HeaderMessage x)) s)))) settled" for x
    by (intro triple_bind triple_process_header calls_ready_process_certificate triple_intro) (simp_all add: settled_updates)
  have upd: "settled s \<Longrightarrow> settled (s\<lparr>cr_local_round := l, cr_current_header := h\<rparr>)" for s :: "'a Core" and l
    by (erule own_ready_cong) simp_all
  show ?thesis
    unfolding process_own_header_def
    by (rule triple_bind, rule triple_pure, rule triple_upd_bind, erule upd,
        rule triple_for, rule triple_upd_bind, erule settled_own_header, rule body)
qed

lemma triple_sanitize [triple_intro]:
  "triple P (sanitize_header env h) P" "triple P (sanitize_vote env vote) P" "triple P (sanitize_certificate env x) P"
  unfolding sanitize_header_def sanitize_vote_def sanitize_certificate_def by (intro triple_intro)+

lemma triple_handle_message [triple_intro]: "triple settled (handle_message env (Suc (Suc n)) message) settled"
proof -
  have vote: "triple settled (cbind (cget (\<lambda>s. is_shortfin_family (cr_dag_protocol s))) (\<lambda>shortfin.
      if shortfin then process_vote_when_countable_with (process_certificate env (Suc (Suc n))) vote
      else process_vote_with (process_certificate env (Suc (Suc n))) vote)) settled" for vote
    by (rule triple_get, drule own_ready_protocol, intro triple_intro calls_ready_process_certificate)
      (simp_all add: is_shortfin_family_def)
  show ?thesis
    unfolding handle_message_def process_header_and_synthesize_def
    by (cases message) (auto intro!: triple_intro vote calls_ready_process_certificate simp del: process_certificate.simps)
qed

lemma triple_handle_input: "triple settled (handle_input env (Suc (Suc n)) input) settled"
  unfolding handle_input_def process_header_and_synthesize_def
  by (cases input)
    (auto intro!: triple_intro calls_ready_process_certificate settled_updates simp del: process_certificate.simps)

lemma settled_cleanup:
  assumes "settled s"
  shows "settled (core_cleanup env s)"
proof (cases "cr_consensus_round s \<le> cr_gc_depth s")
  case True
  then show ?thesis using assms by (simp add: core_cleanup_def)
next
  case False
  let ?gc = "cr_consensus_round s - cr_gc_depth s"
  have own: "cr_own_headers (core_cleanup env s) = retain (\<lambda>_ h. h_round h \<ge> ?gc) (cr_own_headers s)"
    and processing: "cr_processing (core_cleanup env s) = retain (\<lambda>k _. k \<ge> ?gc) (cr_processing s)"
    and rest: "cr_dag_protocol (core_cleanup env s) = cr_dag_protocol s"
      "cr_pending_votes (core_cleanup env s) = retain (\<lambda>i _. i \<in> set (keys_of (cr_own_headers (core_cleanup env s)))) (cr_pending_votes s)"
    using False by (simp_all add: core_cleanup_def Let_def)
  have "header_ready (core_cleanup env s) h = header_ready s h" if "?gc \<le> h_round h" for h
    using that assms by (simp add: header_ready_def rest processing map_of_retain own_ready_def)
  then show ?thesis
    using assms unfolding own_ready_def rest own by (auto simp: retain_def)
qed

lemma core_step_fuel:
  assumes "core_step env (Suc (Suc n)) input s = (s', r)" and "settled s"
  shows "settled s'" and "r \<noteq> Inl OutOfFuel"
proof -
  obtain s1 r1 where handled: "handle_input env (Suc (Suc n)) input s = (s1, r1)"
    by (cases "handle_input env (Suc (Suc n)) input s")
  then have "settled s1" and "r1 \<noteq> Inl OutOfFuel"
    using triple_handle_input [of env n input] assms(2) by (force simp: triple_def)+
  then show "settled s'" and "r \<noteq> Inl OutOfFuel"
    using assms(1) settled_cleanup [of s1 env]
    by (auto simp: core_step_def handled split: sum.splits CoreError.splits DagError.splits CoreInput.splits)
qed

text \<open>
  C28. Two nested calls are enough.  In every protocol but Shortfin, a run of the core on
  any inputs, with fuel at least two for the calls of \<^verbatim>\<open>process_certificate\<close> inside each other,
  never runs out of fuel.
\<close>

theorem core_run_fuel:
  assumes "dp \<noteq> Shortfin" and "2 \<le> n"
    and "core_run env n inputs (core_new env name c dp db gc_depth byzantine) = (s, r)"
  shows "r \<noteq> Inl OutOfFuel"
proof -
  obtain m where n: "n = Suc (Suc m)" using assms(2) by (metis add_2_eq_Suc le_Suc_ex)
  have "r \<noteq> Inl OutOfFuel" if "core_run env n inputs t = (s, r)" and "settled t" for t
    using that
  proof (induction inputs arbitrary: t)
    case (Cons input inputs)
    obtain t1 r1 where step: "core_step env n input t = (t1, r1)" by (cases "core_step env n input t")
    show ?case
      using Cons core_step_fuel [OF step [unfolded n] Cons.prems(2)]
      by (auto simp: cbind_def step split: sum.splits)
  qed (auto simp: cret_def)
  moreover have "settled (core_new env name c dp db gc_depth byzantine)"
    using assms(1) by (simp add: own_ready_def core_new_def Let_def)
  ultimately show ?thesis using assms(3) by blast
qed

theorem core_run_fuel_witness:
  "\<forall>env :: (byte list \<Rightarrow> byte list option) CoreEnv. \<forall>inputs.
     snd (core_run env 2 inputs (core_new env (PublicKey 1) demo_committee Narwhal Map.empty 50 byzantine_default))
       \<noteq> Inl OutOfFuel"
proof (intro allI)
  fix env :: "(byte list \<Rightarrow> byte list option) CoreEnv" and inputs
  let ?run = "core_run env 2 inputs (core_new env (PublicKey 1) demo_committee Narwhal Map.empty 50 byzantine_default)"
  show "snd ?run \<noteq> Inl OutOfFuel"
    using core_run_fuel [of Narwhal 2 env inputs "PublicKey 1" demo_committee Map.empty 50 byzantine_default "fst ?run" "snd ?run"]
    by simp
qed

end
