(* ===== verification/Proposer.thy ===== *)
theory Proposer
  imports Core_State ConsensusState
begin

text \<open>
  The proposer of the primary (\<^verbatim>\<open>primary/src/proposer.rs\<close>): it collects batch digests, waits for
  the parents the core signals and makes the own headers.  The environment variables that
  switch on attacks are parameters; timers are inputs, and the deadline of a timer is
  whether it has expired.
\<close>

definition SHORTFIN_WAVE_LENGTH :: Round where
  "SHORTFIN_WAVE_LENGTH = 4"

record ProposerEnv =
  pe_crypto :: CryptoLib
  pe_secret :: "byte list"
  pe_attack :: "string option"
  pe_variants :: "nat option"

record Proposer =
  pp_name :: PublicKey
  pp_dag_protocol :: DagProtocol
  pp_committee :: Committee
  pp_consensus_protocol :: ConsensusProtocol
  pp_header_size :: nat
  pp_coin_committee :: CoinCommittee
  pp_threshold_coin :: "ThresholdCoin option"
  pp_round :: Round
  pp_parents_1 :: "Digest list"
  pp_parents_2 :: "Digest list"
  pp_last_qc :: "EmbeddedQc option"
  pp_last_parent_certs :: "Certificate list"
  pp_last_leader :: "Certificate option"
  pp_digests :: "(Digest \<times> WorkerId) list"
  pp_payload_size :: nat
  pp_timer_expired :: bool
  pp_advance :: bool

definition proposer_new ::
    "ProposerEnv \<Rightarrow> PublicKey \<Rightarrow> Committee \<Rightarrow> DagProtocol \<Rightarrow> ConsensusProtocol \<Rightarrow> nat \<Rightarrow> Proposer outcome" where
  "proposer_new env name c dp cp header_size =
     rbind (coin_committee_new (keys_of (authorities c))) (\<lambda>cc.
     rbind (if cp = CommonCoin \<and> dp \<noteq> Wahoo
            then (let threshold = (if is_mahi_mahi dp then coin_quorum_threshold (committee_size c)
                                   else coin_threshold (committee_size c))
                  in rbind (coin_from_committee (pe_crypto env) cc threshold) (\<lambda>tc. Inr (Some tc)))
            else Inr None) (\<lambda>tc.
     Inr \<lparr>pp_name = name, pp_dag_protocol = dp, pp_committee = c, pp_consensus_protocol = cp, pp_header_size = header_size,
          pp_coin_committee = cc, pp_threshold_coin = tc, pp_round = (if dp = Bullshark then 0 else 1),
          pp_parents_1 = map (cert_digest (pe_crypto env)) (genesis c), pp_parents_2 = [], pp_last_qc = None,
          pp_last_parent_certs = (if dp = Bullshark then genesis c else []), pp_last_leader = None,
          pp_digests = [], pp_payload_size = 0, pp_timer_expired = False, pp_advance = True\<rparr>))"

section \<open>Headers\<close>

definition carries_coin_share :: "DagProtocol \<Rightarrow> Round \<Rightarrow> bool" where
  "carries_coin_share dp round =
     (case dp of
        Shortfin \<Rightarrow> round mod SHORTFIN_WAVE_LENGTH = 0
      | Narwhal \<Rightarrow> 4 \<le> round \<and> round mod 2 = 0
      | Bullshark \<Rightarrow> round mod 2 = 0
      | MahiMahi \<Rightarrow> 5 \<le> round
      | MahiMahi5 \<Rightarrow> 5 \<le> round
      | MahiMahi4 \<Rightarrow> 4 \<le> round
      | Wahoo \<Rightarrow> False)"

definition digest_size :: "Digest \<Rightarrow> nat" where
  "digest_size d = length (digest_bytes d)"

text \<open>The loop that fills the payload up to the header size: the count and the size taken.\<close>

fun select_digests :: "nat \<Rightarrow> nat \<Rightarrow> nat \<Rightarrow> (Digest \<times> WorkerId) list \<Rightarrow> nat \<times> nat" where
  "select_digests header_size taken selected_size [] = (taken, selected_size)"
| "select_digests header_size taken selected_size ((d, _) # ds) =
     (if 0 < taken \<and> header_size \<le> selected_size then (taken, selected_size)
      else select_digests header_size (taken + 1) (selected_size + digest_size d) ds)"

definition mahi_attack_width :: "ProposerEnv \<Rightarrow> DagProtocol \<Rightarrow> nat option" where
  "mahi_attack_width env dp =
     (if is_mahi_mahi dp \<and> pe_attack env = Some ''equivocation''
      then Some (case pe_variants env of None \<Rightarrow> 1 | Some n \<Rightarrow> if n > 0 then n else 1) else None)"

definition take_digests :: "ProposerEnv \<Rightarrow> Proposer \<Rightarrow> nat \<times> nat" where
  "take_digests env p =
     (case mahi_attack_width env (pp_dag_protocol p) of
        Some width \<Rightarrow>
          (let n = min width (length (pp_digests p))
           in (n, sum_list (map (\<lambda>(d, _). digest_size d) (take n (pp_digests p)))))
      | None \<Rightarrow> select_digests (pp_header_size p) 0 0 (pp_digests p))"

definition payload_map :: "(Digest \<times> WorkerId) list \<Rightarrow> (Digest \<times> WorkerId) list" where
  "payload_map ds = btree_iter (foldl (\<lambda>m (d, w). AList.update d w m) [] ds)"

definition fake_digest :: "Round \<Rightarrow> PublicKey \<Rightarrow> Digest" where
  "fake_digest round name = Digest (word32 (le_bytes 8 round @ take 8 (key_bytes name) @ [0xB7] @ replicate 15 0))"

definition make_header :: "ProposerEnv \<Rightarrow> Proposer \<Rightarrow> Proposer \<times> Header" where
  "make_header env p =
     (let (tc, share) = (case pp_threshold_coin p of
                           None \<Rightarrow> (None, None)
                         | Some tc \<Rightarrow>
                             if carries_coin_share (pp_dag_protocol p) (pp_round p)
                             then (case make_share (pe_crypto env) tc (pp_name p) (pp_round p) of (tc', s) \<Rightarrow> (Some tc', s))
                             else (Some tc, None));
          (n, size) = take_digests env p;
          payload = payload_map (take n (pp_digests p));
          payload = (if pe_attack env = Some ''invalid_payload''
                     then btree_iter (AList.update (fake_digest (pp_round p) (pp_name p)) 0 payload) else payload);
          h = header_new (pe_crypto env) (pe_secret env) (pp_name p) (pp_round p) payload (btree_set (pp_parents_1 p)) []
                (if is_shortfin_family (pp_dag_protocol p) then pp_last_qc p else None)
                (case share of None \<Rightarrow> [] | Some s \<Rightarrow> s) (pe_attack env = Some ''equivocation'')
      in (p\<lparr>pp_threshold_coin := tc, pp_digests := drop n (pp_digests p),
            pp_payload_size := pp_payload_size p - size, pp_parents_1 := []\<rparr>, h))"

section \<open>The Bullshark leader\<close>

definition proposer_round_robin_coin :: "Proposer \<Rightarrow> Round \<Rightarrow> Round outcome" where
  "proposer_round_robin_coin p round =
     rbind (case pp_dag_protocol p of Bullshark \<Rightarrow> round_robin_slot round 2 2 | _ \<Rightarrow> Inr round) (\<lambda>election_slot.
     Inr (cc_round_robin (pp_coin_committee p) election_slot))"

definition threshold_coin_from_parents :: "ProposerEnv \<Rightarrow> Proposer \<Rightarrow> Proposer \<times> Round option" where
  "threshold_coin_from_parents env p =
     (if pp_last_parent_certs p = [] then (p, None)
      else if sum_list (map (\<lambda>x. stake (pp_committee p) (cert_origin x)) (pp_last_parent_certs p))
                < quorum_threshold (pp_committee p) then (p, None)
      else (case pp_threshold_coin p of
              None \<Rightarrow> (p, None)
            | Some tc \<Rightarrow>
                (case recover (pe_crypto env) tc (pp_round p) (carried_shares (pp_last_parent_certs p)) of
                   (tc', v) \<Rightarrow> (p\<lparr>pp_threshold_coin := Some tc'\<rparr>, v))))"

definition update_leader :: "ProposerEnv \<Rightarrow> Proposer \<Rightarrow> (Proposer \<times> bool) outcome" where
  "update_leader env p =
     rbind (case pp_consensus_protocol p of
              RoundRobin \<Rightarrow> rbind (proposer_round_robin_coin p (pp_round p)) (\<lambda>v. Inr (p, Some v))
            | PseudoRandom \<Rightarrow> Inr (p, Some (cc_pseudo_random (pe_crypto env) (pp_coin_committee p) (pp_round p)))
            | CommonCoin \<Rightarrow> Inr (threshold_coin_from_parents env p)) (\<lambda>(p, coin).
     case coin of
       None \<Rightarrow> Inr (p\<lparr>pp_last_leader := None\<rparr>, False)
     | Some v \<Rightarrow>
         rbind (cc_leader (pp_coin_committee p) v 0) (\<lambda>leader_name.
         (let leader = find (\<lambda>x. cert_origin x = leader_name) (pp_last_parent_certs p)
          in Inr (p\<lparr>pp_last_leader := leader\<rparr>, leader \<noteq> None))))"

definition enough_votes :: "ProposerEnv \<Rightarrow> Proposer \<Rightarrow> bool" where
  "enough_votes env p =
     (case pp_last_leader p of
        None \<Rightarrow> True
      | Some x \<Rightarrow>
          (let leader = cert_digest (pe_crypto env) x;
               weight = (\<lambda>xs. sum_list (map (\<lambda>x. stake (pp_committee p) (cert_origin x)) xs));
               (for_leader, no_votes) = partition (\<lambda>x. leader \<in> set (h_parents (header x))) (pp_last_parent_certs p)
           in weight for_leader \<ge> quorum_threshold (pp_committee p) \<or> weight no_votes \<ge> validity_threshold (pp_committee p)))"

section \<open>The loop\<close>

definition enough_digests :: "Proposer \<Rightarrow> bool" where
  "enough_digests p \<longleftrightarrow> pp_header_size p \<le> pp_payload_size p"

definition propose_header :: "ProposerEnv \<Rightarrow> Proposer \<Rightarrow> Proposer \<times> Header list" where
  "propose_header env p = (case make_header env p of (p', h) \<Rightarrow> (p'\<lparr>pp_timer_expired := False\<rparr>, [h]))"

definition propose :: "ProposerEnv \<Rightarrow> Proposer \<Rightarrow> Proposer \<times> Header list" where
  "propose env p =
     (case pp_dag_protocol p of
        Shortfin \<Rightarrow>
          if (pp_timer_expired p \<or> enough_digests p) \<and> pp_parents_1 p \<noteq> [] \<and> (pp_round p < 2 \<or> pp_last_qc p \<noteq> None)
          then propose_header env p else (p, [])
      | Narwhal \<Rightarrow> if (pp_timer_expired p \<or> enough_digests p) \<and> pp_parents_1 p \<noteq> [] then propose_header env p else (p, [])
      | MahiMahi \<Rightarrow> if (pp_timer_expired p \<or> enough_digests p) \<and> pp_parents_1 p \<noteq> [] then propose_header env p else (p, [])
      | MahiMahi4 \<Rightarrow> if (pp_timer_expired p \<or> enough_digests p) \<and> pp_parents_1 p \<noteq> [] then propose_header env p else (p, [])
      | MahiMahi5 \<Rightarrow> if (pp_timer_expired p \<or> enough_digests p) \<and> pp_parents_1 p \<noteq> [] then propose_header env p else (p, [])
      | _ \<Rightarrow>
          if (pp_timer_expired p \<or> (enough_digests p \<and> pp_advance p)) \<and> pp_last_parent_certs p \<noteq> []
          then propose_header env (p\<lparr>pp_round := pp_round p + 1,
                 pp_parents_1 := map (cert_digest (pe_crypto env)) (pp_last_parent_certs p), pp_last_parent_certs := []\<rparr>)
          else (p, []))"

datatype ProposerInput =
    Signal ProposerSignal
  | BatchDigest Digest WorkerId
  | TimerElapsed

definition receive_signal :: "ProposerEnv \<Rightarrow> ProposerSignal \<Rightarrow> Proposer \<Rightarrow> Proposer outcome" where
  "receive_signal env signal p =
     (case pp_dag_protocol p of
        Shortfin \<Rightarrow>
          Inr (if ps_round signal < pp_round p then p
               else p\<lparr>pp_round := ps_round signal,
                      pp_parents_1 := (if ps_parents_1 signal = [] then pp_parents_1 p else ps_parents_1 signal),
                      pp_parents_2 := (if ps_parents_2 signal = [] then pp_parents_2 p else ps_parents_2 signal),
                      pp_last_qc := (if ps_qc signal = None then pp_last_qc p else ps_qc signal)\<rparr>)
      | Narwhal \<Rightarrow> Inr (if ps_round signal < pp_round p then p else p\<lparr>pp_round := ps_round signal, pp_parents_1 := ps_parents_1 signal\<rparr>)
      | MahiMahi \<Rightarrow> Inr (if ps_round signal < pp_round p then p else p\<lparr>pp_round := ps_round signal, pp_parents_1 := ps_parents_1 signal\<rparr>)
      | MahiMahi4 \<Rightarrow> Inr (if ps_round signal < pp_round p then p else p\<lparr>pp_round := ps_round signal, pp_parents_1 := ps_parents_1 signal\<rparr>)
      | MahiMahi5 \<Rightarrow> Inr (if ps_round signal < pp_round p then p else p\<lparr>pp_round := ps_round signal, pp_parents_1 := ps_parents_1 signal\<rparr>)
      | _ \<Rightarrow>
          (let p1 = (if ps_round signal > pp_round p
                     then p\<lparr>pp_round := ps_round signal, pp_last_parent_certs := ps_certificates_1 signal\<rparr>
                     else if ps_round signal < pp_round p then p
                     else p\<lparr>pp_last_parent_certs := pp_last_parent_certs p @ ps_certificates_1 signal\<rparr>)
           in rbind (if pp_round p1 mod 2 = 0 then update_leader env p1 else Inr (p1, enough_votes env p1)) (\<lambda>(p2, advance).
              Inr (p2\<lparr>pp_advance := advance\<rparr>))))"

definition receive :: "ProposerEnv \<Rightarrow> ProposerInput \<Rightarrow> Proposer \<Rightarrow> Proposer outcome" where
  "receive env input p =
     (case input of
        Signal signal \<Rightarrow> receive_signal env signal p
      | BatchDigest d w \<Rightarrow> Inr (p\<lparr>pp_payload_size := pp_payload_size p + digest_size d, pp_digests := pp_digests p @ [(d, w)]\<rparr>)
      | TimerElapsed \<Rightarrow> Inr (p\<lparr>pp_timer_expired := True\<rparr>))"

fun proposer_run :: "ProposerEnv \<Rightarrow> Proposer \<Rightarrow> ProposerInput list \<Rightarrow> (Proposer \<times> Header list) outcome" where
  "proposer_run env p [] = Inr (propose env p)"
| "proposer_run env p (input # inputs) =
     (case propose env p of (p1, hs) \<Rightarrow>
        rbind (receive env input p1) (\<lambda>p2.
        rbind (proposer_run env p2 inputs) (\<lambda>(p', hs'). Inr (p', hs @ hs'))))"


section \<open>Rounds\<close>

abbreviation leader_rounds :: "DagProtocol \<Rightarrow> bool" where
  "leader_rounds dp \<equiv> dp = Bullshark \<or> dp = Wahoo"



lemma make_header_fields:
  assumes "make_header env p = (p', h)"
  shows "h_round h = pp_round p" "h_author h = pp_name p" "h_parents h = btree_set (pp_parents_1 p)"
    and "pp_round p' = pp_round p" "pp_parents_1 p' = []" "pp_name p' = pp_name p" "pp_dag_protocol p' = pp_dag_protocol p"
    and "pp_header_size p' = pp_header_size p" "pp_payload_size p' \<le> pp_payload_size p"
  using assms
  by (auto simp: make_header_def Let_def header_new_def header_new_with_wahoo_def split: prod.splits)


lemma threshold_coin_only:
  "\<exists>tc. fst (threshold_coin_from_parents env p) = p\<lparr>pp_threshold_coin := tc\<rparr>"
  by (intro exI [of _ "pp_threshold_coin (fst (threshold_coin_from_parents env p))"])
    (simp add: threshold_coin_from_parents_def split: option.split prod.split)

lemma update_leader_only:
  assumes "update_leader env p = Inr (p', b)"
  shows "\<exists>tc leader. p' = p\<lparr>pp_threshold_coin := tc, pp_last_leader := leader\<rparr>"
proof -
  obtain q coin where q: "(case pp_consensus_protocol p of
              RoundRobin \<Rightarrow> rbind (proposer_round_robin_coin p (pp_round p)) (\<lambda>v. Inr (p, Some v))
            | PseudoRandom \<Rightarrow> Inr (p, Some (cc_pseudo_random (pe_crypto env) (pp_coin_committee p) (pp_round p)))
            | CommonCoin \<Rightarrow> Inr (threshold_coin_from_parents env p)) = Inr (q, coin)"
    and p': "\<exists>leader. p' = q\<lparr>pp_last_leader := leader\<rparr>"
    using assms by (fastforce simp: update_leader_def Let_def split: option.splits)
  have "\<exists>tc. q = p\<lparr>pp_threshold_coin := tc\<rparr>"
  proof (cases "pp_consensus_protocol p")
    case CommonCoin
    then show ?thesis using q threshold_coin_only [of env p] by auto
  qed (use q in \<open>auto intro!: exI [of _ "pp_threshold_coin p"]\<close>)
  then show ?thesis using p' by auto
qed

text \<open>A signal of a leader-based protocol changes the round, the certificates, the coin and the leader.\<close>

lemma receive_signal_leader:
  assumes "receive_signal env signal p = Inr p'" and "leader_rounds (pp_dag_protocol p)"
  shows "\<exists>round certs tc leader advance. pp_round p \<le> round \<and> p' = p\<lparr>pp_round := round, pp_last_parent_certs := certs,
    pp_threshold_coin := tc, pp_last_leader := leader, pp_advance := advance\<rparr>"
proof -
  define p1 where "p1 = (if ps_round signal > pp_round p
     then p\<lparr>pp_round := ps_round signal, pp_last_parent_certs := ps_certificates_1 signal\<rparr>
     else if ps_round signal < pp_round p then p
     else p\<lparr>pp_last_parent_certs := pp_last_parent_certs p @ ps_certificates_1 signal\<rparr>)"
  have p1: "\<exists>round certs. pp_round p \<le> round \<and> p1 = p\<lparr>pp_round := round, pp_last_parent_certs := certs\<rparr>"
    by (intro exI [of _ "pp_round p1"] exI [of _ "pp_last_parent_certs p1"]) (simp add: p1_def)
  have "receive_signal env signal p =
      rbind (if pp_round p1 mod 2 = 0 then update_leader env p1 else Inr (p1, enough_votes env p1)) (\<lambda>(p2, advance).
        Inr (p2\<lparr>pp_advance := advance\<rparr>))"
    using assms(2) unfolding receive_signal_def Let_def p1_def [symmetric] by (elim disjE) simp_all
  then obtain p2 b where p2: "(if pp_round p1 mod 2 = 0 then update_leader env p1 else Inr (p1, enough_votes env p1)) = Inr (p2, b)"
    and p': "p' = p2\<lparr>pp_advance := b\<rparr>"
    by (auto simp: assms(1) dest!: sym [of "Inr p'"])
  obtain tc leader where leader: "p2 = p1\<lparr>pp_threshold_coin := tc, pp_last_leader := leader\<rparr>"
  proof (cases "pp_round p1 mod 2 = 0")
    case True
    then show ?thesis using p2 update_leader_only [of env p1 p2 b] that by auto
  next
    case False
    then show ?thesis using p2 that [of "pp_last_leader p1" "pp_threshold_coin p1"] by simp
  qed
  obtain round certs where "pp_round p \<le> round" and "p1 = p\<lparr>pp_round := round, pp_last_parent_certs := certs\<rparr>"
    using p1 by blast
  moreover from this have "p' = p\<lparr>pp_round := round, pp_last_parent_certs := certs,
      pp_threshold_coin := tc, pp_last_leader := leader, pp_advance := b\<rparr>"
    using p' leader by simp
  ultimately show ?thesis by blast
qed

lemma receive_signal_chain:
  assumes "\<not> leader_rounds (pp_dag_protocol p)"
  shows "receive_signal env signal p = Inr (if ps_round signal < pp_round p then p
    else if pp_dag_protocol p = Shortfin
    then p\<lparr>pp_round := ps_round signal,
           pp_parents_1 := (if ps_parents_1 signal = [] then pp_parents_1 p else ps_parents_1 signal),
           pp_parents_2 := (if ps_parents_2 signal = [] then pp_parents_2 p else ps_parents_2 signal),
           pp_last_qc := (if ps_qc signal = None then pp_last_qc p else ps_qc signal)\<rparr>
    else p\<lparr>pp_round := ps_round signal, pp_parents_1 := ps_parents_1 signal\<rparr>)"
  using assms by (cases "pp_dag_protocol p") (simp_all add: receive_signal_def)





section \<open>Payload\<close>

lemma digest_size [simp]: "digest_size d = 32"
  by (simp add: digest_size_def)

lemma select_digests:
  "select_digests header_size taken (32 * taken) ds = (n, selected_size) \<Longrightarrow>
   selected_size = 32 * n \<and> taken \<le> n \<and> n \<le> taken + length ds \<and> (n \<le> 1 \<or> n = taken \<or> 32 * (n - 1) < header_size)"
proof (induction ds arbitrary: taken)
  case (Cons d ds)
  obtain x w where d: "d = (x, w)" by (cases d)
  show ?case
  proof (cases "0 < taken \<and> header_size \<le> 32 * taken")
    case True
    then show ?thesis using Cons.prems by (auto simp: d)
  next
    case False
    then have "select_digests header_size (taken + 1) (32 * (taken + 1)) ds = (n, selected_size)"
      using Cons.prems by (auto simp: d add.commute)
    from Cons.IH [OF this] show ?thesis using False by auto
  qed
qed auto

fun received :: "ProposerInput list \<Rightarrow> (Digest \<times> WorkerId) list" where
  "received [] = []"
| "received (BatchDigest d w # inputs) = (d, w) # received inputs"
| "received (_ # inputs) = received inputs"

definition sized :: "Proposer \<Rightarrow> bool" where
  "sized p \<longleftrightarrow> pp_payload_size p = 32 * length (pp_digests p)"

definition fits :: "nat \<Rightarrow> (Digest \<times> WorkerId) list \<Rightarrow> bool" where
  "fits header_size taken \<longleftrightarrow> length taken \<le> 1 \<or> 32 * (length taken - 1) < header_size"

lemma make_header_payload:
  assumes "make_header env p = (p', h)" and "pe_attack env = None" and "sized p"
  obtains taken where "pp_digests p = taken @ pp_digests p'" and "h_payload h = payload_map taken"
    and "fits (pp_header_size p) taken" and "sized p'"
proof -
  obtain n size where n: "select_digests (pp_header_size p) 0 0 (pp_digests p) = (n, size)"
    by (cases "select_digests (pp_header_size p) 0 0 (pp_digests p)")
  then have "take_digests env p = (n, size)"
    using assms(2) by (simp add: take_digests_def mahi_attack_width_def)
  then have "h_payload h = payload_map (take n (pp_digests p))" "pp_digests p' = drop n (pp_digests p)"
    "pp_payload_size p' = pp_payload_size p - size"
    using assms(1,2) by (auto simp: make_header_def Let_def header_new_def header_new_with_wahoo_def split: prod.splits)
  moreover have "size = 32 * n" "n \<le> length (pp_digests p)" "n \<le> 1 \<or> 32 * (n - 1) < pp_header_size p"
    using select_digests [of "pp_header_size p" 0 "pp_digests p" n size] n by auto
  ultimately show thesis
    using assms(3) by (intro that [of "take n (pp_digests p)"]) (auto simp: fits_def sized_def)
qed

lemma propose_payload:
  assumes "propose env p = (p', hs)" and "pe_attack env = None" and "sized p"
  obtains chunks where "concat chunks @ pp_digests p' = pp_digests p" and "map h_payload hs = map payload_map chunks"
    and "\<forall>chunk \<in> set chunks. fits (pp_header_size p) chunk" and "sized p'" and "pp_header_size p' = pp_header_size p"
proof -
  have "hs = [] \<and> p' = p \<or> (\<exists>q. propose_header env q = (p', hs) \<and> pp_digests q = pp_digests p \<and>
      pp_payload_size q = pp_payload_size p \<and> pp_header_size q = pp_header_size p)"
    using assms(1) by (cases "pp_dag_protocol p") (auto simp: propose_def split: if_splits)
  then show thesis
  proof (elim disjE conjE exE)
    fix q
    assume q: "propose_header env q = (p', hs)" "pp_digests q = pp_digests p" "pp_payload_size q = pp_payload_size p"
      "pp_header_size q = pp_header_size p"
    then obtain q' h where h: "make_header env q = (q', h)" and hs: "hs = [h]" "p' = q'\<lparr>pp_timer_expired := False\<rparr>"
      by (auto simp: propose_header_def split: prod.splits)
    have "sized q" using assms(3) q by (simp add: sized_def)
    from make_header_payload [OF h assms(2) this] obtain taken where "pp_digests q = taken @ pp_digests q'"
      "h_payload h = payload_map taken" "fits (pp_header_size q) taken" "sized q'" by metis
    then show thesis
      using q hs make_header_fields(8) [OF h] by (intro that [of "[taken]"]) (auto simp: sized_def)
  qed (use assms(3) in \<open>auto intro: that [of "[]"]\<close>)
qed

lemma receive_payload:
  assumes "receive env input p = Inr p'" and "sized p"
  shows "pp_digests p' = pp_digests p @ received [input]" and "sized p'" and "pp_header_size p' = pp_header_size p"
proof -
  have "pp_digests p' = pp_digests p @ received [input] \<and> sized p' \<and> pp_header_size p' = pp_header_size p"
  proof (cases input)
    case (Signal signal)
    then have "receive_signal env signal p = Inr p'" using assms(1) by (simp add: receive_def)
    then show ?thesis
      using receive_signal_leader [of env signal p p'] receive_signal_chain [of p env signal] assms(2)
      by (cases "leader_rounds (pp_dag_protocol p)") (auto simp: Signal sized_def split: if_splits)
  qed (use assms in \<open>auto simp: receive_def sized_def\<close>)
  then show "pp_digests p' = pp_digests p @ received [input]" and "sized p'" and "pp_header_size p' = pp_header_size p" by auto
qed

lemma proposer_run_payload:
  assumes "proposer_run env p inputs = Inr (p', hs)" and "pe_attack env = None" and "sized p"
  shows "\<exists>chunks. concat chunks @ pp_digests p' = pp_digests p @ received inputs \<and> map h_payload hs = map payload_map chunks \<and>
    (\<forall>chunk \<in> set chunks. fits (pp_header_size p) chunk)"
  using assms(1,3)
proof (induction inputs arbitrary: p hs)
  case Nil
  then show ?case by (auto elim!: propose_payload [OF _ assms(2)])
next
  case (Cons input inputs)
  obtain p1 hs1 where propose: "propose env p = (p1, hs1)" by (cases "propose env p")
  obtain p2 hs2 where receive: "receive env input p1 = Inr p2" and run: "proposer_run env p2 inputs = Inr (p', hs2)"
    and hs: "hs = hs1 @ hs2"
    using Cons.prems(1) by (auto simp: propose)
  obtain chunks1 where c1: "concat chunks1 @ pp_digests p1 = pp_digests p" "map h_payload hs1 = map payload_map chunks1"
    "\<forall>chunk \<in> set chunks1. fits (pp_header_size p) chunk" and p1: "sized p1" "pp_header_size p1 = pp_header_size p"
    by (rule propose_payload [OF propose assms(2) Cons.prems(2)])
  note p2 = receive_payload [OF receive p1(1)]
  obtain chunks2 where c2: "concat chunks2 @ pp_digests p' = pp_digests p2 @ received inputs"
    "map h_payload hs2 = map payload_map chunks2" "\<forall>chunk \<in> set chunks2. fits (pp_header_size p2) chunk"
    using Cons.IH [OF run p2(2)] by blast
  have "received (input # inputs) = received [input] @ received inputs" by (cases input) auto
  then have "concat (chunks1 @ chunks2) @ pp_digests p' = pp_digests p @ received (input # inputs)"
    using c1(1) c2(1) p2(1) by (metis append.assoc concat_append)
  then show ?case
    using c1 c2 p1 p2(3) hs by (intro exI [of _ "chunks1 @ chunks2"]) auto
qed


section \<open>Properties\<close>

lemma proposer_new_fields:
  assumes "proposer_new env name c dp cp header_size = Inr p"
  shows "pp_name p = name" "pp_dag_protocol p = dp" "pp_header_size p = header_size" "pp_digests p = []" "sized p"
    and "dp \<noteq> Bullshark \<Longrightarrow> pp_round p = 1"
    and "pp_payload_size p = 0" "\<not> pp_timer_expired p" "pp_parents_1 p = map (cert_digest (pe_crypto env)) (genesis c)"
  using assms by (auto simp: proposer_new_def sized_def)


text \<open>
  No batch is lost or proposed twice.  The headers of an honest proposer carry
  consecutive chunks of the batch digests in the order the workers sent them, each
  within the header size, and what remains is still waiting.
\<close>

theorem proposer_payload_fifo:
  assumes "proposer_new env name c dp cp header_size = Inr p" and "proposer_run env p inputs = Inr (p', hs)"
    and "pe_attack env = None"
  shows "\<exists>chunks. concat chunks @ pp_digests p' = received inputs \<and> map h_payload hs = map payload_map chunks \<and>
    (\<forall>chunk \<in> set chunks. length chunk \<le> 1 \<or> 32 * (length chunk - 1) < header_size)"
  using proposer_run_payload [OF assms(2,3) proposer_new_fields(5) [OF assms(1)]] proposer_new_fields(3,4) [OF assms(1)]
  by (simp add: fits_def)

text \<open>
  A signal for round zero stops a Bullshark proposer.  With the round-robin schedule a
  proposer that has not made its first header panics in the election of a leader for
  round zero, which precedes the first leader round.
\<close>

theorem bullshark_round_zero_panics:
  assumes "proposer_new env name c Bullshark RoundRobin header_size = Inr p" and "0 < header_size" and "ps_round signal = 0"
  shows "proposer_run env p (Signal signal # inputs) = Inl (AssertFailed ''round precedes first leader round'')"
proof -
  have p: "pp_dag_protocol p = Bullshark" "pp_consensus_protocol p = RoundRobin" "pp_round p = 0" "\<not> pp_timer_expired p"
    "pp_payload_size p = 0" "pp_header_size p = header_size"
    using assms(1) by (auto simp: proposer_new_def)
  then have "propose env p = (p, [])" using assms(2) by (simp add: propose_def enough_digests_def)
  then show ?thesis
    using p assms(3)
    by (simp add: receive_def receive_signal_def update_leader_def proposer_round_robin_coin_def round_robin_slot_def)
qed

section \<open>Concrete runs\<close>

definition demo_proposer_env :: ProposerEnv where
  "demo_proposer_env = \<lparr>pe_crypto = demo_lib, pe_secret = [], pe_attack = None, pe_variants = None\<rparr>"

definition demo_signal :: "Round \<Rightarrow> ProposerSignal" where
  "demo_signal r = \<lparr>ps_round = r, ps_parents_1 = [Digest 5], ps_parents_2 = [], ps_qc = None, ps_certificates_1 = []\<rparr>"

definition demo_proposer :: "DagProtocol \<Rightarrow> Proposer" where
  "demo_proposer dp = (case proposer_new demo_proposer_env (PublicKey 1) demo_committee dp RoundRobin 64 of Inr p \<Rightarrow> p)"

lemma demo_proposer: "proposer_new demo_proposer_env (PublicKey 1) demo_committee dp RoundRobin 64 = Inr (demo_proposer dp)"
  by (simp add: demo_proposer_def proposer_new_def coin_committee_new_def demo_keys_def)

abbreviation demo_inputs :: "ProposerInput list" where
  "demo_inputs \<equiv> [BatchDigest (Digest 7) 0, TimerElapsed, Signal (demo_signal 2), TimerElapsed]"

lemma propose_expired:
  assumes "pp_dag_protocol p = Narwhal" and "pp_timer_expired p" and "pp_parents_1 p \<noteq> []"
  obtains q h where "propose env p = (q\<lparr>pp_timer_expired := False\<rparr>, [h])" and "h_round h = pp_round p"
    and "pp_round q = pp_round p" and "pp_parents_1 q = []" and "pp_dag_protocol q = Narwhal"
    and "pp_header_size q = pp_header_size p" and "pp_payload_size q \<le> pp_payload_size p"
proof -
  obtain q h where h: "make_header env p = (q, h)" by (cases "make_header env p")
  show thesis
    by (rule that [of q h]) (simp_all add: propose_def propose_header_def h make_header_fields [OF h] assms)
qed

lemma rbind_Inr_right: "rbind r Inr = r"
  by (cases r) simp_all

lemma propose_idle:
  "pp_dag_protocol p = Narwhal \<Longrightarrow> \<not> pp_timer_expired p \<Longrightarrow> pp_payload_size p < pp_header_size p \<Longrightarrow> propose env p = (p, [])"
  by (simp add: propose_def enough_digests_def)

lemma demo_proposer_run:
  "\<exists>p' hs. proposer_run demo_proposer_env (demo_proposer Narwhal) demo_inputs = Inr (p', hs) \<and> map h_round hs = [1, 2]"
proof -
  let ?env = demo_proposer_env
  let ?p = "demo_proposer Narwhal"
  define p1 where "p1 = ?p\<lparr>pp_payload_size := 32, pp_digests := [(Digest 7, 0)], pp_timer_expired := True\<rparr>"
  have p: "pp_dag_protocol ?p = Narwhal" "pp_header_size ?p = 64" "pp_digests ?p = []" "pp_payload_size ?p = 0"
    "\<not> pp_timer_expired ?p" "pp_round ?p = 1" "pp_parents_1 ?p \<noteq> []"
    using proposer_new_fields [OF demo_proposer [of Narwhal]] by (simp_all add: genesis_def demo_keys_def)
  have run: "proposer_run ?env ?p demo_inputs = proposer_run ?env p1 [Signal (demo_signal 2), TimerElapsed]"
    using p by (simp add: p1_def propose_idle receive_def rbind_Inr_right split: prod.split)
  have p1: "pp_dag_protocol p1 = Narwhal" "pp_timer_expired p1" "pp_parents_1 p1 \<noteq> []" "pp_round p1 = 1"
    "pp_header_size p1 = 64" "pp_payload_size p1 = 32"
    using p by (simp_all add: p1_def)
  obtain q h where q: "propose ?env p1 = (q\<lparr>pp_timer_expired := False\<rparr>, [h])" "h_round h = 1" "pp_round q = 1"
      "pp_parents_1 q = []" "pp_dag_protocol q = Narwhal" "pp_payload_size q < pp_header_size q"
    by (rule propose_expired [OF p1(1-3), of ?env]) (simp add: p1)
  define p2 where "p2 = q\<lparr>pp_round := 2, pp_parents_1 := [Digest 5], pp_timer_expired := True\<rparr>"
  obtain q2 h2 where q2: "propose ?env p2 = (q2\<lparr>pp_timer_expired := False\<rparr>, [h2])" "h_round h2 = 2"
    by (rule propose_expired [of p2 ?env]) (simp_all add: p2_def q(5))
  have idle: "propose ?env (q\<lparr>pp_timer_expired := False, pp_round := 2, pp_parents_1 := [Digest 5]\<rparr>) =
      (q\<lparr>pp_timer_expired := False, pp_round := 2, pp_parents_1 := [Digest 5]\<rparr>, [])"
    using q(5,6) by (simp add: propose_idle)
  have "proposer_run ?env p1 [Signal (demo_signal 2), TimerElapsed] = Inr (q2\<lparr>pp_timer_expired := False\<rparr>, [h, h2])"
    using q q2 idle by (simp add: receive_def receive_signal_def demo_signal_def p2_def)
  then show ?thesis using run q(2) q2(2) by simp
qed


theorem proposer_payload_fifo_witness:
  "\<exists>p p' hs chunks. proposer_new demo_proposer_env (PublicKey 1) demo_committee Narwhal RoundRobin 64 = Inr p \<and>
     proposer_run demo_proposer_env p demo_inputs = Inr (p', hs) \<and> pe_attack demo_proposer_env = None \<and> length hs = 2 \<and>
     concat chunks @ pp_digests p' = [(Digest 7, 0)] \<and> map h_payload hs = map payload_map chunks"
proof -
  obtain p' hs where run: "proposer_run demo_proposer_env (demo_proposer Narwhal) demo_inputs = Inr (p', hs)"
    and hs: "map h_round hs = [1, 2]"
    using demo_proposer_run by auto
  have "pe_attack demo_proposer_env = None" by (simp add: demo_proposer_env_def)
  moreover have "length hs = 2" using hs by (auto dest: map_eq_imp_length_eq)
  moreover have "received demo_inputs = [(Digest 7, 0)]" by simp
  ultimately show ?thesis
    using proposer_payload_fifo [OF demo_proposer run] run demo_proposer [of Narwhal] by fastforce
qed

theorem bullshark_round_zero_panics_witness:
  "proposer_run demo_proposer_env (demo_proposer Bullshark) [Signal (demo_signal 0)] =
     Inl (AssertFailed ''round precedes first leader round'')"
  by (rule bullshark_round_zero_panics [OF demo_proposer]) (simp_all add: demo_signal_def)

end
