(* ===== verification/Waiting.thy ===== *)
theory Waiting
  imports Synchronizer Wahoo_Messages
begin

text \<open>
  What the waiting tasks of the primary and of the worker share: futures that join
  \<^verbatim>\<open>notify_read\<close> requests on the store, each with a handler by which it can be cancelled,
  and the messages between a primary and its workers (\<^verbatim>\<open>primary/src/primary.rs\<close>).  A handler is
  the number of a channel; the future is cancelled when the sender of the channel is no
  longer in the table of pending requests, since the code drops a sender exactly when it
  has sent on it or the future is done.
\<close>

datatype PrimaryWorkerMessage =
    Synchronize "Digest list" PublicKey
  | Cleanup Round

datatype WorkerPrimaryMessage =
    OurBatch Digest WorkerId
  | OthersBatch Digest WorkerId

type_synonym Handler = nat

record 'a Future =
  fu_keys :: "Key list"
  fu_deliver :: 'a
  fu_handler :: Handler

text \<open>\<^verbatim>\<open>try_join_all\<close>: nothing yet, the error of a read, or every key found.\<close>

definition try_join :: "'db KvLib \<Rightarrow> 'db \<Rightarrow> Key list \<Rightarrow> (unit + unit) option" where
  "try_join kv db ks =
     (if list_ex (\<lambda>k. isl (kv_get kv db k)) ks then Some (Inl ())
      else if list_all (\<lambda>k. kv_get kv db k \<noteq> Inr None) ks then Some (Inr ())
      else None)"

definition stored :: "'db KvLib \<Rightarrow> 'db \<Rightarrow> Key \<Rightarrow> bool" where
  "stored kv db k \<longleftrightarrow> (\<exists>v. kv_get kv db k = Inr (Some v))"

lemma try_join_done: "try_join kv db ks = Some (Inr ()) \<longleftrightarrow> (\<forall>k \<in> set ks. stored kv db k)"
proof -
  have "stored kv db k \<longleftrightarrow> \<not> isl (kv_get kv db k) \<and> kv_get kv db k \<noteq> Inr None" for k
    by (cases "kv_get kv db k") (auto simp: stored_def)
  then show ?thesis by (auto simp: try_join_def list_ex_iff list_all_iff)
qed

lemma try_join_no_error: "kv_ok kv \<Longrightarrow> try_join kv db ks \<noteq> Some (Inl ())"
  by (auto simp: try_join_def list_ex_iff kv_ok_def isl_def split: if_splits)

lemma stored_put: "kv_ok kv \<Longrightarrow> stored kv (kv_put kv db k v) k' \<longleftrightarrow> k' = k \<or> stored kv db k'"
  by (simp add: stored_def kv_ok_def)

definition remove_nth :: "nat \<Rightarrow> 'a list \<Rightarrow> 'a list" where
  "remove_nth i xs = take i xs @ drop (Suc i) xs"

lemma set_remove_nth_subset: "set (remove_nth i xs) \<subseteq> set xs"
  using set_take_subset [of i xs] set_drop_subset [of "Suc i" xs] by (auto simp: remove_nth_def)

lemma in_remove_nth: "x \<in> set xs \<Longrightarrow> x \<noteq> xs ! i \<Longrightarrow> x \<in> set (remove_nth i xs)"
proof (cases "i < length xs")
  case True
  assume "x \<in> set xs" and "x \<noteq> xs ! i"
  moreover have "set xs = insert (xs ! i) (set (remove_nth i xs))"
    using True by (subst id_take_nth_drop [OF True]) (auto simp: remove_nth_def)
  ultimately show ?thesis by auto
qed (simp add: remove_nth_def)

end
