(* ===== verification/Header_Waiter.thy ===== *)
theory Header_Waiter
  imports Waiting
begin

text \<open>
  The header waiter of the primary (\<^verbatim>\<open>primary/src/header_waiter.rs\<close>): it keeps the headers that
  miss parents or batches, asks for what is missing and returns a header to the core when
  the store has it all.  Wall-clock time is an argument of the handlers; the branches of
  the \<^verbatim>\<open>select!\<close> are the rules of a step relation, and other tasks writing to the store or
  advancing the consensus round are rules of their own.
\<close>

definition TIMER_RESOLUTION :: nat where
  "TIMER_RESOLUTION = 1000"

datatype WaiterEvent =
    LoopBack Header
  | RequestBatches SocketAddr PrimaryWorkerMessage
  | RequestParents SocketAddr PrimaryMessage
  | LuckyBroadcast "SocketAddr list" PrimaryMessage nat

record HeaderWaiter =
  hw_name :: PublicKey
  hw_committee :: Committee
  hw_gc_depth :: Round
  hw_sync_retry_delay :: nat
  hw_sync_retry_nodes :: nat
  hw_parent_requests :: "(Digest \<times> (Round \<times> nat)) list"
  hw_batch_requests :: "(Digest \<times> Round) list"
  hw_pending :: "(Digest \<times> (Round \<times> Handler)) list"
  hw_waiting :: "Header Future list"
  hw_channels :: Handler


section \<open>Requests of the synchronizer\<close>

text \<open>A new future in the pool, with a fresh channel to cancel it.\<close>

definition add_waiter :: "Key list \<Rightarrow> Header \<Rightarrow> HeaderWaiter \<Rightarrow> HeaderWaiter" where
  "add_waiter wait_for deliver s =
     s\<lparr>hw_pending := AList.update (h_id deliver) (h_round deliver, hw_channels s) (hw_pending s),
       hw_waiting := hw_waiting s @ [\<lparr>fu_keys = wait_for, fu_deliver = deliver, fu_handler = hw_channels s\<rparr>],
       hw_channels := Suc (hw_channels s)\<rparr>"

text \<open>The loop over the missing batches: what is not requested yet, grouped by worker.\<close>

fun request_batches ::
    "Round \<Rightarrow> (Digest \<times> WorkerId) list \<Rightarrow> (Digest \<times> Round) list \<Rightarrow> (WorkerId \<times> Digest list) list
     \<Rightarrow> (Digest \<times> Round) list \<times> (WorkerId \<times> Digest list) list" where
  "request_batches round [] requests requires_sync = (requests, requires_sync)"
| "request_batches round ((digest, worker_id) # missing) requests requires_sync =
     (if map_of requests digest \<noteq> None then request_batches round missing requests requires_sync
      else (let digests = (case map_of requires_sync worker_id of None \<Rightarrow> [] | Some ds \<Rightarrow> ds)
            in request_batches round missing (AList.update digest round requests)
                 (AList.update worker_id (digests @ [digest]) requires_sync)))"

fun send_batch_requests ::
    "HeaderWaiter \<Rightarrow> PublicKey \<Rightarrow> (WorkerId \<times> Digest list) list \<Rightarrow> WaiterEvent list outcome" where
  "send_batch_requests s source [] = Inr []"
| "send_batch_requests s source ((worker_id, digests) # rest) =
     (case committee_worker (hw_committee s) (hw_name s) worker_id of
        Inl _ \<Rightarrow> Inl (ExpectFailed ''Our worker id is not in the committee'')
      | Inr w \<Rightarrow> rbind (send_batch_requests s source rest) (\<lambda>events.
          Inr (RequestBatches (primary_to_worker w) (Synchronize digests source) # events)))"

definition sync_batches ::
    "(Digest \<times> WorkerId) list \<Rightarrow> PublicKey \<Rightarrow> Header \<Rightarrow> HeaderWaiter \<Rightarrow> (HeaderWaiter \<times> WaiterEvent list) outcome" where
  "sync_batches missing source deliver s =
     (let s1 = add_waiter (map (\<lambda>(digest, worker_id). batch_key digest worker_id) missing) deliver s
      in case request_batches (h_round deliver) missing (hw_batch_requests s1) [] of
           (requests, requires_sync) \<Rightarrow>
             rbind (send_batch_requests s1 source requires_sync) (\<lambda>events.
             Inr (s1\<lparr>hw_batch_requests := requests\<rparr>, events)))"

fun request_parents ::
    "Round \<times> nat \<Rightarrow> Digest list \<Rightarrow> (Digest \<times> (Round \<times> nat)) list \<Rightarrow> Digest list
     \<Rightarrow> (Digest \<times> (Round \<times> nat)) list \<times> Digest list" where
  "request_parents stamp [] requests requires_sync = (requests, requires_sync)"
| "request_parents stamp (digest # missing) requests requires_sync =
     (if map_of requests digest \<noteq> None then request_parents stamp missing requests requires_sync
      else request_parents stamp missing (AList.update digest stamp requests) (requires_sync @ [digest]))"

definition sync_parents ::
    "nat \<Rightarrow> Digest list \<Rightarrow> Header \<Rightarrow> HeaderWaiter \<Rightarrow> (HeaderWaiter \<times> WaiterEvent list) outcome" where
  "sync_parents now missing h s =
     (let s1 = add_waiter (map digest_bytes missing) h s
      in case request_parents (h_round h, now) missing (hw_parent_requests s1) [] of
           (requests, requires_sync) \<Rightarrow>
             rbind (if requires_sync = [] then Inr []
                    else (case committee_primary (hw_committee s1) (h_author h) of
                            Inl _ \<Rightarrow> Inl (ExpectFailed ''Author of valid header not in the committee'')
                          | Inr a \<Rightarrow> Inr [RequestParents (primary_to_primary a) (CertificatesRequest requires_sync (hw_name s1))]))
               (\<lambda>events. Inr (s1\<lparr>hw_parent_requests := requests\<rparr>, events)))"

section \<open>Completions, retries and cleanup\<close>

definition header_done :: "Header \<Rightarrow> HeaderWaiter \<Rightarrow> HeaderWaiter" where
  "header_done h s =
     s\<lparr>hw_pending := AList.delete (h_id h) (hw_pending s),
       hw_batch_requests := foldl (\<lambda>m (x, _). AList.delete x m) (hw_batch_requests s) (h_payload h),
       hw_parent_requests := foldl (\<lambda>m x. AList.delete x m)
         (foldl (\<lambda>m x. AList.delete x m) (hw_parent_requests s) (h_parents h)) (h_parents_2 h)\<rparr>"

definition retry_parents :: "nat \<Rightarrow> HeaderWaiter \<Rightarrow> WaiterEvent list" where
  "retry_parents now s =
     (let retry = map fst (filter (\<lambda>(_, _, timestamp). timestamp + hw_sync_retry_delay s < now) (hw_parent_requests s))
      in if retry = [] then []
         else [LuckyBroadcast (map (\<lambda>(_, a). primary_to_primary a) (others_primaries (hw_committee s) (hw_name s)))
                 (CertificatesRequest retry (hw_name s)) (hw_sync_retry_nodes s)])"

definition waiter_cleanup :: "Round \<Rightarrow> HeaderWaiter \<Rightarrow> HeaderWaiter" where
  "waiter_cleanup round s =
     (if round > hw_gc_depth s
      then (let gc_round = round - hw_gc_depth s
            in s\<lparr>hw_pending := filter (\<lambda>(_, r, _). r > gc_round) (hw_pending s),
                 hw_batch_requests := filter (\<lambda>(_, r). r > gc_round) (hw_batch_requests s),
                 hw_parent_requests := filter (\<lambda>(_, r, _). r > gc_round) (hw_parent_requests s)\<rparr>)
      else s)"

section \<open>The loop\<close>


fun wait_header :: "WaiterMessage \<Rightarrow> Header" where
  "wait_header (SyncBatches _ _ deliver) = deliver"
| "wait_header (SyncParents _ h) = h"

definition waiter_message :: "nat \<Rightarrow> WaiterMessage \<Rightarrow> HeaderWaiter \<Rightarrow> (HeaderWaiter \<times> WaiterEvent list) outcome" where
  "waiter_message now message s =
     (case message of
        SyncBatches missing source deliver \<Rightarrow> sync_batches missing source deliver s
      | SyncParents missing h \<Rightarrow> sync_parents now missing h s)"

definition cancelled :: "HeaderWaiter \<Rightarrow> Header Future \<Rightarrow> bool" where
  "cancelled s f \<longleftrightarrow> fu_handler f \<notin> (\<lambda>(_, _, handler). handler) ` set (hw_pending s)"

record 'db WaiterRun =
  wx_db :: 'db
  wx_round :: Round
  wx_waiter :: HeaderWaiter
  wx_messages :: "WaiterMessage list"
  wx_events :: "WaiterEvent list"

text \<open>
  One turn of the loop, together with the history of the messages received and the effects;
  a duplicate request continues without the cleanup.
\<close>

inductive waiter_step :: "'db KvLib \<Rightarrow> 'db WaiterRun \<Rightarrow> 'db WaiterRun \<Rightarrow> bool" for kv where
  duplicate:
    "map_of (hw_pending (wx_waiter x)) (h_id (wait_header message)) \<noteq> None
     \<Longrightarrow> waiter_step kv x (x\<lparr>wx_messages := wx_messages x @ [message]\<rparr>)"
| message:
    "map_of (hw_pending (wx_waiter x)) (h_id (wait_header message)) = None
     \<Longrightarrow> waiter_message now message (wx_waiter x) = Inr (s, events)
     \<Longrightarrow> waiter_step kv x (x\<lparr>wx_waiter := waiter_cleanup (wx_round x) s, wx_messages := wx_messages x @ [message],
                             wx_events := wx_events x @ events\<rparr>)"
| completed:
    "i < length (hw_waiting (wx_waiter x))
     \<Longrightarrow> f = hw_waiting (wx_waiter x) ! i
     \<Longrightarrow> try_join kv (wx_db x) (fu_keys f) = Some (Inr ())
     \<Longrightarrow> s = (wx_waiter x)\<lparr>hw_waiting := remove_nth i (hw_waiting (wx_waiter x))\<rparr>
     \<Longrightarrow> waiter_step kv x (x\<lparr>wx_waiter := waiter_cleanup (wx_round x) (header_done (fu_deliver f) s),
                             wx_events := wx_events x @ [LoopBack (fu_deliver f)]\<rparr>)"
| cancel:
    "i < length (hw_waiting (wx_waiter x))
     \<Longrightarrow> cancelled (wx_waiter x) (hw_waiting (wx_waiter x) ! i)
     \<Longrightarrow> s = (wx_waiter x)\<lparr>hw_waiting := remove_nth i (hw_waiting (wx_waiter x))\<rparr>
     \<Longrightarrow> waiter_step kv x (x\<lparr>wx_waiter := waiter_cleanup (wx_round x) s\<rparr>)"
| timer:
    "waiter_step kv x (x\<lparr>wx_waiter := waiter_cleanup (wx_round x) (wx_waiter x),
                        wx_events := wx_events x @ retry_parents now (wx_waiter x)\<rparr>)"
| store_write:
    "waiter_step kv x (x\<lparr>wx_db := kv_put kv (wx_db x) k v\<rparr>)"
| consensus_advance:
    "wx_round x \<le> r \<Longrightarrow> waiter_step kv x (x\<lparr>wx_round := r\<rparr>)"

inductive_cases waiter_stepE: "waiter_step kv x y"

section \<open>No request is lost\<close>








lemma waiter_cleanup_fields [simp]:
  "hw_waiting (waiter_cleanup r s) = hw_waiting s" "hw_gc_depth (waiter_cleanup r s) = hw_gc_depth s"
  "hw_channels (waiter_cleanup r s) = hw_channels s"
  by (simp_all add: waiter_cleanup_def Let_def)



lemma header_done_fields [simp]:
  "hw_waiting (header_done h s) = hw_waiting s" "hw_gc_depth (header_done h s) = hw_gc_depth s"
  by (simp_all add: header_done_def)

















end
