(* ===== verification/Primary_Tasks.thy ===== *)
theory Primary_Tasks
  imports Waiting
begin

text \<open>
  The small tasks of the primary: the certificate waiter (\<^verbatim>\<open>certificate_waiter.rs\<close>), the
  garbage collector (\<^verbatim>\<open>garbage_collector.rs\<close>), the helper that answers certificate requests
  (\<^verbatim>\<open>helper.rs\<close>), the receiver of batch digests (\<^verbatim>\<open>payload_receiver.rs\<close>) and the two network
  handlers that route messages to the tasks (\<^verbatim>\<open>primary.rs\<close>).  A task is a function from its
  inputs to what it sends; the database is the one the storage task has at that moment.
\<close>

section \<open>The certificate waiter\<close>

type_synonym CertificateWaiter = "(Key list \<times> Certificate) list"

datatype CertificateWaiterInput = ReceiveCertificate Certificate | JoinedCertificate nat

definition certificate_waiter_step ::
    "'db KvLib \<Rightarrow> 'db \<Rightarrow> CertificateWaiterInput \<Rightarrow> CertificateWaiter \<Rightarrow> (CertificateWaiter \<times> Certificate list) outcome" where
  "certificate_waiter_step kv db input waiting =
     (case input of
        ReceiveCertificate certificate \<Rightarrow>
          Inr (waiting @ [(map digest_bytes (h_parents (header certificate)), certificate)], [])
      | JoinedCertificate i \<Rightarrow>
          if i < length waiting
          then (case waiting ! i of (ks, certificate) \<Rightarrow>
                  (case try_join kv db ks of
                     None \<Rightarrow> Inr (waiting, [])
                   | Some (Inl _) \<Rightarrow> Inl (AssertFailed ''Storage failure: killing node.'')
                   | Some (Inr _) \<Rightarrow> Inr (remove_nth i waiting, [certificate])))
          else Inr (waiting, []))"

section \<open>The garbage collector\<close>

datatype CollectorEffect =
    StoreConsensusRound Round
  | BroadcastCleanup "SocketAddr list" PrimaryWorkerMessage

record GarbageCollector =
  gb_addresses :: "SocketAddr list"
  gb_last_committed_round :: Round

definition garbage_collector_new :: "PublicKey \<Rightarrow> Committee \<Rightarrow> GarbageCollector outcome" where
  "garbage_collector_new name c =
     (case our_workers c name of
        Inl _ \<Rightarrow> Inl (ExpectFailed ''Our public key or worker id is not in the committee'')
      | Inr ws \<Rightarrow> Inr \<lparr>gb_addresses = map primary_to_worker ws, gb_last_committed_round = 0\<rparr>)"

definition garbage_collector_step :: "Certificate \<Rightarrow> GarbageCollector \<Rightarrow> GarbageCollector \<times> CollectorEffect list" where
  "garbage_collector_step certificate s =
     (let round = cert_round certificate
      in if round > gb_last_committed_round s
         then (s\<lparr>gb_last_committed_round := round\<rparr>,
               [StoreConsensusRound round, BroadcastCleanup (gb_addresses s) (Cleanup round)])
         else (s, []))"

fun garbage_collector_run :: "GarbageCollector \<Rightarrow> Certificate list \<Rightarrow> CollectorEffect list" where
  "garbage_collector_run s [] = []"
| "garbage_collector_run s (certificate # certificates) =
     (case garbage_collector_step certificate s of (s', effects) \<Rightarrow> effects @ garbage_collector_run s' certificates)"

fun published_rounds :: "CollectorEffect list \<Rightarrow> Round list" where
  "published_rounds [] = []"
| "published_rounds (StoreConsensusRound r # effects) = r # published_rounds effects"
| "published_rounds (BroadcastCleanup _ _ # effects) = published_rounds effects"

section \<open>The helper\<close>

fun helper_reply :: "'db CoreEnv \<Rightarrow> 'db \<Rightarrow> SocketAddr \<Rightarrow> Digest list \<Rightarrow> (SocketAddr \<times> PrimaryMessage) list outcome" where
  "helper_reply env db address [] = Inr []"
| "helper_reply env db address (digest # digests) =
     (case kv_get (ce_kv env) db (digest_bytes digest) of
        Inr (Some data) \<Rightarrow>
          (case ce_debincode_certificate env data of
             None \<Rightarrow> Inl (ExpectFailed ''Failed to deserialize our own certificate'')
           | Some certificate \<Rightarrow> rbind (helper_reply env db address digests) (\<lambda>rest.
               Inr ((address, CertificateMessage certificate) # rest)))
      | _ \<Rightarrow> helper_reply env db address digests)"

definition helper_request ::
    "'db CoreEnv \<Rightarrow> Committee \<Rightarrow> 'db \<Rightarrow> Digest list \<Rightarrow> PublicKey \<Rightarrow> (SocketAddr \<times> PrimaryMessage) list outcome" where
  "helper_request env c db digests origin =
     (case committee_primary c origin of
        Inl _ \<Rightarrow> Inr []
      | Inr a \<Rightarrow> helper_reply env db (primary_to_primary a) digests)"

section \<open>The payload receiver\<close>

definition payload_receive :: "'db KvLib \<Rightarrow> 'db \<Rightarrow> Digest \<times> WorkerId \<Rightarrow> 'db" where
  "payload_receive kv db = (\<lambda>(digest, worker_id). kv_put kv db (batch_key digest worker_id) [])"

section \<open>Routing\<close>

datatype PrimaryRoute =
    RouteHelper "Digest list" PublicKey
  | RouteCore PrimaryMessage

definition primary_dispatch :: "PrimaryMessage option \<Rightarrow> PrimaryRoute dag_result" where
  "primary_dispatch message =
     (case message of
        None \<Rightarrow> Inl SerializationError
      | Some (CertificatesRequest missing requestor) \<Rightarrow> Inr (RouteHelper missing requestor)
      | Some request \<Rightarrow> Inr (RouteCore request))"

datatype WorkerRoute =
    RouteProposer Digest WorkerId
  | RoutePayloadReceiver Digest WorkerId

definition worker_dispatch :: "WorkerPrimaryMessage option \<Rightarrow> WorkerRoute dag_result" where
  "worker_dispatch message =
     (case message of
        None \<Rightarrow> Inl SerializationError
      | Some (OurBatch digest worker_id) \<Rightarrow> Inr (RouteProposer digest worker_id)
      | Some (OthersBatch digest worker_id) \<Rightarrow> Inr (RoutePayloadReceiver digest worker_id))"

section \<open>What the tasks guarantee\<close>

lemma published_rounds_append: "published_rounds (xs @ ys) = published_rounds xs @ published_rounds ys"
  by (induction xs rule: published_rounds.induct) auto

lemma garbage_collector_rounds:
  "sorted_wrt (<) (gb_last_committed_round s # published_rounds (garbage_collector_run s certificates))"
proof (induction certificates arbitrary: s)
  case (Cons certificate certificates)
  show ?case
    using Cons.IH [of "fst (garbage_collector_step certificate s)"]
    by (auto simp: garbage_collector_step_def Let_def published_rounds_append intro: less_trans)
qed simp

lemma batch_key_eq [simp]: "batch_key d w = batch_key d' w' \<longleftrightarrow> d = d' \<and> w = w'"
proof
  assume eq: "batch_key d w = batch_key d' w'"
  then have "le_bytes 4 (unat w) = le_bytes 4 (unat w')" and "digest_bytes d = digest_bytes d'"
    by (auto simp: batch_key_def)
  moreover have "unat x < 256 ^ 4" for x :: WorkerId using unsigned_less [of x] by simp
  ultimately show "d = d' \<and> w = w'" using le_bytes_inject [of "unat w" 4 "unat w'"] by simp (metis word_unat_eq_iff)
qed simp

lemma payload_receive_get:
  assumes "kv_ok kv"
  shows "kv_get kv (foldl (payload_receive kv) db xs) (batch_key d w) =
    (if (d, w) \<in> set xs then Inr (Some []) else kv_get kv db (batch_key d w))"
proof (induction xs arbitrary: db)
  case (Cons x xs)
  have "kv_get kv (payload_receive kv db x) (batch_key d w) = (if x = (d, w) then Inr (Some []) else kv_get kv db (batch_key d w))"
    using assms by (cases x) (auto simp: payload_receive_def kv_ok_def)
  then show ?case using Cons.IH [of "payload_receive kv db x"] by auto
qed simp

lemma missing_batches_exact:
  assumes "kv_ok (ce_kv env)"
  shows "missing_batches env db payload = Inr (filter (\<lambda>(d, w). \<not> stored (ce_kv env) db (batch_key d w)) payload)"
proof (induction payload)
  case (Cons x payload)
  then show ?case
    using assms by (cases x; cases "kv_get (ce_kv env) db (batch_key (fst x) (snd x))") (auto simp: stored_def kv_ok_def)
qed simp

text \<open>
  The payload of a header is available exactly when the workers have reported it.
  After the workers have reported a list of batches, the synchronizer misses exactly the
  batches of a header of another authority that are not in this list and were not stored
  before, whatever their order; none are missed of the own headers.
\<close>

theorem payload_available_when_reported:
  assumes "kv_ok (ce_kv env)"
  shows "missing_payload env (foldl (payload_receive (ce_kv env)) db reported) h sy =
    Inr (let missing = filter (\<lambda>(d, w). (d, w) \<notin> set reported \<and> \<not> stored (ce_kv env) db (batch_key d w)) (h_payload h)
         in if h_author h = sy_name sy \<or> missing = [] then None
            else Some (SyncBatches missing (case map_of (sy_header_holders sy) (h_id h) of None \<Rightarrow> h_author h | Some holder \<Rightarrow> holder) h))"
proof -
  have "stored (ce_kv env) (foldl (payload_receive (ce_kv env)) db reported) (batch_key d w) \<longleftrightarrow>
      (d, w) \<in> set reported \<or> stored (ce_kv env) db (batch_key d w)" for d w
    by (simp add: stored_def payload_receive_get [OF assms])
  then show ?thesis
    by (simp add: missing_payload_def missing_payload_for_def missing_batches_exact [OF assms] Let_def)
qed

definition demo_core_env :: "(Key \<Rightarrow> Value option) CoreEnv" where
  "demo_core_env = \<lparr>ce_crypto = demo_lib, ce_kv = demo_kv, ce_bincode_header = (\<lambda>_. []), ce_bincode_certificate = (\<lambda>_. []),
     ce_debincode_certificate = (\<lambda>_. None), ce_secret = []\<rparr>"

theorem payload_available_when_reported_witness:
  "missing_payload demo_core_env (foldl (payload_receive (ce_kv demo_core_env)) Map.empty [(Digest 7, 0), (Digest 7, 1)])
     (default_header\<lparr>h_author := PublicKey 2, h_payload := [(Digest 7, 1), (Digest 9, 0)]\<rparr>)
     (synchronizer_new demo_lib (PublicKey 1) demo_committee Narwhal) =
   Inr (Some (SyncBatches [(Digest 9, 0)] (PublicKey 2)
     (default_header\<lparr>h_author := PublicKey 2, h_payload := [(Digest 7, 1), (Digest 9, 0)]\<rparr>)))"
proof -
  have "kv_ok (ce_kv demo_core_env)" by (simp add: demo_core_env_def)
  moreover have "\<not> stored (ce_kv demo_core_env) Map.empty k" for k by (simp add: stored_def demo_core_env_def demo_kv_def)
  ultimately show ?thesis
    using payload_available_when_reported [of demo_core_env Map.empty "[(Digest 7, 0), (Digest 7, 1)]"]
    by (simp add: synchronizer_new_def Let_def)
qed

end
