(* ===== verification/Vote_Discipline.thy ===== *)
theory Vote_Discipline
  imports Messages
begin

text \<open>
  What the verification of certificates relies on: a correct member votes at most once for a
  slot.  The interface is provided by the core of the certified protocols and by the Wahoo
  node; its client is the argument that two quorums for one slot are for the same header.
\<close>

text \<open>\<open>correct n k\<close>: the voter \<open>n\<close> keeps the discipline for the slot \<open>k\<close>; \<open>cast n k\<close>: its votes there.\<close>

locale vote_discipline =
  fixes correct :: "'n \<Rightarrow> 'k \<Rightarrow> bool" and cast :: "'n \<Rightarrow> 'k \<Rightarrow> Vote list"
  assumes once: "correct n k \<Longrightarrow> length (cast n k) \<le> 1"
begin

lemma same_vote:
  assumes "correct n k" and "v \<in> set (cast n k)" and "w \<in> set (cast n k)"
  shows "v = w"
  using once [OF assms(1)] assms(2,3) by (cases "cast n k") auto

lemma same_id:
  assumes "correct n k" and "\<exists>w \<in> set (cast n k). v_id w = i" and "\<exists>w \<in> set (cast n k). v_id w = i'"
  shows "i = i'"
  using same_vote [OF assms(1)] assms(2,3) by blast

lemma quorums_agree:
  assumes "committee_ok c" and "few_faulty c F" and "quorum_votes c i r a vs" and "quorum_votes c i' r a vs'"
    and "\<And>v. v \<in> set vs \<union> set vs' \<Longrightarrow> v_author v \<in> members c - F \<Longrightarrow>
           correct (node (v_author v)) k \<and> (\<exists>w \<in> set (cast (node (v_author v)) k). v_id w = v_id v)"
  shows "i = i'"
proof (rule quorum_votes_unique [OF assms(1-4)])
  fix v v' assume v: "v \<in> set vs" "v' \<in> set vs'" "v_author v = v_author v'" "v_author v \<notin> F"
  then have "v_author v \<in> members c - F" using assms(3) by (auto simp: quorum_votes_def)
  with assms(5) [of v] assms(5) [of v'] v show "v_id v = v_id v'" by (intro same_id [of "node (v_author v)" k]) auto
qed

end

end
