(* ===== verification/Primary_Safety.thy ===== *)
theory Primary_Safety
  imports Core_Safety Primary_Tasks Vote_Discipline
begin

text \<open>
  Properties of the primary that span its tasks: the garbage collector feeds the core, the
  votes of the cores make the certificates, and the core fills the store the helper reads.
\<close>

section \<open>Votes and certificates\<close>

text \<open>
  An honest node of the network: a core whose consensus rounds are the ones its garbage
  collector publishes.
\<close>

definition honest_node :: "Committee \<Rightarrow> DagProtocol \<Rightarrow> PublicKey \<Rightarrow> 'db Core \<Rightarrow> bool" where
  "honest_node c dp name s \<longleftrightarrow> (\<exists>env n inputs db gc_depth byzantine collector committed r.
     core_run env n inputs (core_new env name c dp db gc_depth byzantine) = (s, r) \<and> \<not> allows_multiple_votes byzantine \<and>
     garbage_collector_new name c = Inr collector \<and>
     consensus_rounds inputs = published_rounds (garbage_collector_run collector committed))"

lemma honest_node_votes_once:
  assumes "honest_node c dp name s" and "cr_gc_round s \<le> round"
  shows "length (votes_cast s origin round) \<le> 1"
proof -
  obtain env n inputs db gc_depth byzantine collector committed r where
    run: "core_run env n inputs (core_new env name c dp db gc_depth byzantine) = (s, r)"
    and honest: "\<not> allows_multiple_votes byzantine" and new: "garbage_collector_new name c = Inr collector"
    and rounds: "consensus_rounds inputs = published_rounds (garbage_collector_run collector committed)"
    using assms(1) unfolding honest_node_def by blast
  have "gb_last_committed_round collector = 0"
    using new by (auto simp: garbage_collector_new_def split: sum.splits)
  then have "sorted (0 # consensus_rounds inputs)"
    using garbage_collector_rounds [of collector committed] unfolding rounds by (metis strict_sorted_imp_sorted)
  then have "vote_inv s"
    by (intro vote_inv_run [OF run vote_inv_new [OF honest]]) (simp add: core_new_def Let_def)
  then show ?thesis by (rule vote_inv_once [OF _ assms(2)])
qed

text \<open>A core keeps the discipline for the slots it has not collected.\<close>

definition disciplined_core :: "'db Core \<Rightarrow> PublicKey \<times> Round \<Rightarrow> bool" where
  "disciplined_core s slot \<longleftrightarrow> (\<exists>c dp name. honest_node c dp name s) \<and> cr_gc_round s \<le> snd slot"

interpretation core_voters: vote_discipline disciplined_core "\<lambda>s (origin, round). votes_cast s origin round"
  by unfold_locales (use honest_node_votes_once in \<open>fastforce simp: disciplined_core_def\<close>)

text \<open>
  C29. An equivocating author never gets two headers certified.  If the honest members run
  the core with their garbage collectors and every vote of an honest member in two verified
  certificates was sent by its core, then two certificates of one faulty author and one
  round that no honest member has collected are for the same header.
\<close>

theorem equivocation_never_certified:
  assumes "committee_ok c" and "few_faulty c F" and "\<not> is_uncertified_dag dp"
    and "cert_verify lib c dp a = Inr ()" and "cert_verify lib c dp b = Inr ()"
    and "\<forall>g \<in> set (genesis c). \<not> cert_eq g a \<and> \<not> cert_eq g b"
    and "cert_round a = cert_round b" and "cert_origin a = cert_origin b" and "cert_origin a \<in> F"
    and "\<forall>k \<in> members c - F. honest_node c dp k (node k) \<and> cr_gc_round (node k) \<le> cert_round a"
    and "\<forall>v \<in> set (votes a @ votes b). v_author v \<notin> F \<longrightarrow> (\<exists>w \<in> set (votes_sent (node (v_author v))).
           v_id w = v_id v \<and> v_round w = v_round v \<and> v_origin w = v_origin v)"
  shows "h_id (header a) = h_id (header b)"
proof (rule core_voters.quorums_agree [OF assms(1,2), where k = "(cert_origin a, cert_round a)" and node = node])
  show a: "quorum_votes c (h_id (header a)) (cert_round a) (cert_origin a) (votes a)"
    and b: "quorum_votes c (h_id (header b)) (cert_round a) (cert_origin a) (votes b)"
    using cert_verify_quorum [OF assms(1,4)] cert_verify_quorum [OF assms(1,5)] assms(3,6-8) by auto
  fix v assume v: "v \<in> set (votes a) \<union> set (votes b)" "v_author v \<in> members c - F"
  then obtain w where "w \<in> set (votes_sent (node (v_author v)))" "v_id w = v_id v" "v_round w = v_round v" "v_origin w = v_origin v"
    using assms(11) by fastforce
  moreover have "v_round v = cert_round a" "v_origin v = cert_origin a" using v(1) a b by (auto simp: quorum_votes_def)
  ultimately have "\<exists>w \<in> set (votes_cast (node (v_author v)) (cert_origin a) (cert_round a)). v_id w = v_id v"
    by (auto simp: votes_cast_def intro!: bexI [of _ w])
  moreover have "disciplined_core (node (v_author v)) (cert_origin a, cert_round a)"
    using assms(10) v(2) by (auto simp: disciplined_core_def)
  ultimately show "disciplined_core (node (v_author v)) (cert_origin a, cert_round a) \<and>
      (\<exists>w \<in> set (case (cert_origin a, cert_round a) of (origin, round) \<Rightarrow> votes_cast (node (v_author v)) origin round). v_id w = v_id v)"
    by simp
qed

text \<open>The three other authorities vote for a header of the second one.\<close>

lemma run_node_votes:
  assumes "PublicKey 2 \<noteq> k"
  obtains s where "core_run run_env 3 [FromHeaderWaiter (run_header i)] (run_node k) = (s, Inr ())"
    and "cr_gc_round s = 0" and "\<exists>w \<in> set (votes_sent s). v_id w = i \<and> v_round w = 1 \<and> v_origin w = PublicKey 2"
proof (rule run_header_voted [OF voter_ready_node [OF assms] run_node_fresh(1), of 3 i])
  fix s v
  assume step: "core_step run_env 3 (FromHeaderWaiter (run_header i)) (run_node k) = (core_cleanup run_env s, Inr ())"
    and s: "votes_sent s = votes_sent (run_node k) @ [v]" "cr_consensus_round s = cr_consensus_round (run_node k)"
    and v: "v_id v = i" "v_origin v = PublicKey 2" "v_round v = 1"
  have run: "core_run run_env 3 [FromHeaderWaiter (run_header i)] (run_node k) = (core_cleanup run_env s, Inr ())"
    using step by (simp add: cbind_def cret_def)
  have "vote_inv (run_node k)"
    by (simp add: run_node_def vote_inv_new allows_multiple_votes_def byzantine_default_def)
  then have "vote_inv (core_cleanup run_env s)" by (rule vote_inv_run [OF run]) (simp add: run_node_fresh)
  then have "cr_gc_round (core_cleanup run_env s) = 0"
    using s(2) by (auto simp: vote_inv_def cleanup_fields run_node_fresh)
  with run show thesis by (rule that) (use s(1) v in \<open>auto simp: votes_sent_cleanup\<close>)
qed

definition voting_node :: "PublicKey \<Rightarrow> (Key \<Rightarrow> Value option) Core" where
  "voting_node k = fst (core_run run_env 3 [FromHeaderWaiter (run_header (Digest 2))] (run_node k))"

lemma voting_node:
  assumes "k \<in> {PublicKey 1, PublicKey 3, PublicKey 4}"
  shows "honest_node demo_committee Narwhal k (voting_node k)" and "cr_gc_round (voting_node k) = 0"
    and "\<exists>w \<in> set (votes_sent (voting_node k)). v_id w = Digest 2 \<and> v_round w = 1 \<and> v_origin w = PublicKey 2"
proof -
  have "PublicKey 2 \<noteq> k" using assms by auto
  then obtain s where s: "core_run run_env 3 [FromHeaderWaiter (run_header (Digest 2))] (run_node k) = (s, Inr ())"
    "cr_gc_round s = 0" "\<exists>w \<in> set (votes_sent s). v_id w = Digest 2 \<and> v_round w = 1 \<and> v_origin w = PublicKey 2"
    by (rule run_node_votes)
  have node: "voting_node k = s" by (simp add: voting_node_def s(1) del: core_run.simps)
  have "\<exists>collector. garbage_collector_new k demo_committee = Inr collector"
    using assms by (auto simp: garbage_collector_new_def our_workers_def demo_committee_def demo_keys_def)
  moreover have "\<not> allows_multiple_votes byzantine_default" by (simp add: allows_multiple_votes_def byzantine_default_def)
  moreover have "consensus_rounds [FromHeaderWaiter (run_header (Digest 2))] = published_rounds (garbage_collector_run g [])" for g
    by simp
  ultimately show "honest_node demo_committee Narwhal k (voting_node k)"
    unfolding honest_node_def node using s(1) [unfolded run_node_def] by blast
  show "cr_gc_round (voting_node k) = 0"
    and "\<exists>w \<in> set (votes_sent (voting_node k)). v_id w = Digest 2 \<and> v_round w = 1 \<and> v_origin w = PublicKey 2"
    using s node by simp_all
qed

theorem equivocation_never_certified_witness:
  "h_id (header (demo_cert (demo_header (PublicKey 2) 1 [Digest 7]) [PublicKey 1, PublicKey 3, PublicKey 4]))
   = h_id (header (demo_cert (demo_header (PublicKey 2) 1 [Digest 8]) [PublicKey 4, PublicKey 1, PublicKey 3]))"
  (is "h_id (header ?a) = h_id (header ?b)")
proof (rule equivocation_never_certified [where c = demo_committee and F = "{PublicKey 2}" and lib = demo_lib and dp = Narwhal
      and node = voting_node])
  show "cert_verify demo_lib demo_committee Narwhal ?a = Inr ()"
    and "cert_verify demo_lib demo_committee Narwhal ?b = Inr ()"
    by (rule demo_cert_verify; simp add: demo_keys_def)+
  show "\<forall>g \<in> set (genesis demo_committee). \<not> cert_eq g ?a \<and> \<not> cert_eq g ?b"
    by (auto simp: genesis_def cert_eq_def cert_round_def demo_cert_def demo_header_def default_header_def)
  show "few_faulty demo_committee {PublicKey 2}"
    by (simp add: few_faulty_def nstake_def)
  have "members demo_committee - {PublicKey 2} = {PublicKey 1, PublicKey 3, PublicKey 4}"
    by (auto simp: members_def demo_committee_def demo_keys_def)
  then show "\<forall>k \<in> members demo_committee - {PublicKey 2}.
      honest_node demo_committee Narwhal k (voting_node k) \<and> cr_gc_round (voting_node k) \<le> cert_round ?a"
    using voting_node by simp
  show "\<forall>v \<in> set (votes ?a @ votes ?b). v_author v \<notin> {PublicKey 2} \<longrightarrow> (\<exists>w \<in> set (votes_sent (voting_node (v_author v))).
      v_id w = v_id v \<and> v_round w = v_round v \<and> v_origin w = v_origin v)"
    using voting_node(3)
    by (simp add: demo_cert_def demo_header_def default_header_def vote_new_def vote_new_with_phase_def Let_def)
qed (simp_all add: is_uncertified_dag_def cert_round_def cert_origin_def demo_cert_def demo_header_def default_header_def)

section \<open>The store and the helper\<close>

lemma vote_for_header_store:
  assumes "h_author h \<noteq> cr_name s"
  shows "cr_store (fst (vote_for_header_with env pc h s)) = cr_store s"
  using assms
  by (simp add: vote_for_header_with_def cbind_def cget_def crun_def cupd_def cret_def send_def craise_def emit_def Let_def
      vote_new_def vote_new_with_phase_def split: sum.split option.split)

text \<open>
  A request for a header stops the helper.  The core keeps headers and certificates
  in one table: once a certified primary has accepted a header of another authority, any member
  that asks its helper for the identifier of this header makes the helper panic, because the
  bytes of a header are not those of a certificate.
\<close>

theorem helper_header_request_panics:
  assumes "in_step s" and "cr_dag_protocol s \<in> {Narwhal, Bullshark, Wahoo}"
    and "\<And>d. d \<in> set (h_parents h) \<Longrightarrow> known_parent (cr_synchronizer s) d = Some (par d)"
    and "h_parents h \<noteq> []" and "h_payload h = []" and "h_author h \<noteq> cr_name s"
    and "validate_certified_loop (cr_committee s) h [] 0 (map par (h_parents h)) = Inr ()"
    and "kv_ok (ce_kv env)" and "ce_debincode_certificate env (ce_bincode_header env h) = None"
    and "committee_primary c origin = Inr a"
  shows "helper_request env c (cr_store (fst (process_header_with env pc h s))) (h_id h # digests) origin =
    Inl (ExpectFailed ''Failed to deserialize our own certificate'')"
proof (rule process_header_known [OF assms(1-5,7), of env pc])
  fix sy'
  let ?s = "(mark_processing h s)\<lparr>cr_synchronizer := sy',
    cr_store := kv_put (ce_kv env) (cr_store s) (digest_bytes (h_id h)) (ce_bincode_header env h)\<rparr>"
  assume step: "process_header_with env pc h s = vote_for_header_with env pc h ?s"
  have "h_author h \<noteq> cr_name ?s" using assms(6) by (simp add: mark_processing_def)
  then have "cr_store (fst (process_header_with env pc h s)) =
      kv_put (ce_kv env) (cr_store s) (digest_bytes (h_id h)) (ce_bincode_header env h)"
    unfolding step by (subst vote_for_header_store) simp_all
  then show ?thesis using assms(8-10) by (simp add: helper_request_def kv_ok_def)
qed

theorem helper_header_request_panics_witness:
  "helper_request run_env demo_committee
     (cr_store (fst (process_header_with run_env (process_certificate run_env 3) (run_header (Digest 7)) run_core)))
     [Digest 7] (PublicKey 3) = Inl (ExpectFailed ''Failed to deserialize our own certificate'')"
proof -
  have ready: "voter_ready run_core" by (rule voter_ready_new)
  obtain a where a: "committee_primary demo_committee (PublicKey 3) = Inr a"
    by (simp add: committee_primary_def demo_committee_def demo_keys_def)
  have "known_parent (cr_synchronizer run_core) d = Some (genesis_of d)" if "d \<in> set (h_parents (run_header (Digest 7)))" for d
    using ready that by (auto simp: voter_ready_def genesis_parents_known genesis_of_simps)
  moreover have "validate_certified_loop (cr_committee run_core) (run_header (Digest 7)) [] 0
      (map genesis_of (h_parents (run_header (Digest 7)))) = Inr ()"
    using ready run_header_valid by (simp add: voter_ready_def)
  ultimately show ?thesis
    using helper_header_request_panics [of run_core "run_header (Digest 7)" genesis_of run_env demo_committee "PublicKey 3" a
        "process_certificate run_env 3" "[]"] ready a
    by (simp add: voter_ready_def run_env_def)
qed

end
