(* ===== verification/Batches.thy ===== *)
theory Batches
  imports Waiting
begin

text \<open>
  How a worker makes its own batches available (\<^verbatim>\<open>worker/src/batch_maker.rs\<close>,
  \<^verbatim>\<open>quorum_waiter.rs\<close>, \<^verbatim>\<open>processor.rs\<close> and \<^verbatim>\<open>primary_connector.rs\<close>): transactions are sealed into
  batches, broadcast, acknowledged by a quorum, stored, and announced to the primary.  The
  serializer of the messages between workers is a parameter.  A handler of the reliable
  network is the name of the authority it was sent to; which handlers complete, and in
  which order, is an input of the quorum waiter.
\<close>

type_synonym Transaction = "byte list"
type_synonym Batch = "Transaction list"
type_synonym SerializedBatchMessage = "byte list"

datatype WorkerMessage =
    BatchMessage Batch
  | BatchRequest "Digest list" PublicKey

record 'db WorkerEnv =
  we_crypto :: CryptoLib
  we_kv :: "'db KvLib"
  we_bincode :: "WorkerMessage \<Rightarrow> byte list"
  we_debincode :: "byte list \<Rightarrow> WorkerMessage option"

section \<open>The batch maker\<close>

datatype BatchEffect =
    BroadcastBatch "SocketAddr list" SerializedBatchMessage
  | SendBatch SocketAddr SerializedBatchMessage
  | ToQuorumWaiter SerializedBatchMessage "PublicKey list"
  | ToProcessor SerializedBatchMessage

record BatchMaker =
  bm_batch_size :: nat
  bm_workers_addresses :: "(PublicKey \<times> SocketAddr) list"
  bm_current_batch :: Batch
  bm_current_batch_size :: nat
  bm_mahi_equivocation :: bool
  bm_byzantine_addresses :: "SocketAddr list"
  bm_attack_sequence :: u64

definition batch_maker_new :: "nat \<Rightarrow> (PublicKey \<times> SocketAddr) list \<Rightarrow> bool \<Rightarrow> SocketAddr list \<Rightarrow> BatchMaker" where
  "batch_maker_new batch_size workers_addresses mahi_equivocation byzantine_addresses =
     \<lparr>bm_batch_size = batch_size, bm_workers_addresses = workers_addresses, bm_current_batch = [],
      bm_current_batch_size = 0, bm_mahi_equivocation = mahi_equivocation,
      bm_byzantine_addresses = byzantine_addresses, bm_attack_sequence = 0\<rparr>"

text \<open>A variant of a batch carries the sequence number and the slot in its first transaction.\<close>

definition batch_marker :: "u64 \<Rightarrow> nat \<Rightarrow> byte list" where
  "batch_marker sequence slot = le_bytes 8 (unat sequence) @ le_bytes 8 slot"

definition mark_batch :: "byte list \<Rightarrow> Batch \<Rightarrow> Batch" where
  "mark_batch marker batch =
     (case batch of
        [] \<Rightarrow> [marker]
      | transaction # rest \<Rightarrow>
          (if length transaction \<ge> length marker
           then take (length transaction - length marker) transaction @ marker
           else transaction @ marker) # rest)"

definition mahi_equivocation_batches ::
    "'db WorkerEnv \<Rightarrow> Batch \<Rightarrow> nat \<Rightarrow> u64 \<Rightarrow> (Digest \<times> SerializedBatchMessage) list" where
  "mahi_equivocation_batches env batch n sequence =
     sort_key fst (map (\<lambda>slot.
       (let serialized = we_bincode env (BatchMessage (mark_batch (batch_marker sequence slot) batch))
        in (sha_digest (we_crypto env) serialized, serialized))) [0..<n])"

definition seal_mahi_equivocation :: "'db WorkerEnv \<Rightarrow> Batch \<Rightarrow> BatchMaker \<Rightarrow> BatchMaker \<times> BatchEffect list" where
  "seal_mahi_equivocation env batch s =
     (let honest_workers = sort_key fst (filter (\<lambda>(_, address). address \<notin> set (bm_byzantine_addresses s)) (bm_workers_addresses s))
      in if honest_workers = [] then (s, [])
         else (let sequence = bm_attack_sequence s + 1;
                   variants = mahi_equivocation_batches env batch (length honest_workers) sequence
               in (s\<lparr>bm_attack_sequence := sequence\<rparr>,
                   map (\<lambda>((_, serialized), (_, address)). SendBatch address serialized) (zip variants honest_workers) @
                   map (\<lambda>(_, serialized). ToProcessor serialized) variants)))"

definition seal :: "'db WorkerEnv \<Rightarrow> BatchMaker \<Rightarrow> BatchMaker \<times> BatchEffect list" where
  "seal env s =
     (let batch = bm_current_batch s; s1 = s\<lparr>bm_current_batch_size := 0, bm_current_batch := []\<rparr>
      in if bm_mahi_equivocation s then seal_mahi_equivocation env batch s1
         else (let serialized = we_bincode env (BatchMessage batch)
               in (s1, [BroadcastBatch (map snd (bm_workers_addresses s)) serialized,
                        ToQuorumWaiter serialized (map fst (bm_workers_addresses s))])))"

datatype BatchInput = ReceiveTransaction Transaction | BatchTimer

definition batch_maker_step :: "'db WorkerEnv \<Rightarrow> BatchInput \<Rightarrow> BatchMaker \<Rightarrow> BatchMaker \<times> BatchEffect list" where
  "batch_maker_step env input s =
     (case input of
        ReceiveTransaction transaction \<Rightarrow>
          (let s1 = s\<lparr>bm_current_batch_size := bm_current_batch_size s + length transaction,
                      bm_current_batch := bm_current_batch s @ [transaction]\<rparr>
           in if bm_current_batch_size s1 \<ge> bm_batch_size s1 then seal env s1 else (s1, []))
      | BatchTimer \<Rightarrow> if bm_current_batch s = [] then (s, []) else seal env s)"

fun batch_maker_run :: "'db WorkerEnv \<Rightarrow> BatchInput list \<Rightarrow> BatchMaker \<Rightarrow> BatchMaker \<times> BatchEffect list" where
  "batch_maker_run env [] s = (s, [])"
| "batch_maker_run env (input # inputs) s =
     (case batch_maker_step env input s of (s1, effects) \<Rightarrow>
        (case batch_maker_run env inputs s1 of (s2, rest) \<Rightarrow> (s2, effects @ rest)))"

section \<open>The quorum waiter\<close>

text \<open>Whether the loop over the completed handlers reaches the quorum.\<close>

fun wait_for_quorum :: "Committee \<Rightarrow> Stake \<Rightarrow> PublicKey list \<Rightarrow> bool" where
  "wait_for_quorum c weight [] = False"
| "wait_for_quorum c weight (name # acks) =
     (let weight' = weight + stake c name in weight' \<ge> quorum_threshold c \<or> wait_for_quorum c weight' acks)"

text \<open>
  A message has the batch and its handlers; with it come the handlers that complete.  When
  all of them complete without a quorum the batch is dropped, otherwise the task waits.
\<close>

fun quorum_waiter_run ::
    "Committee \<Rightarrow> Stake \<Rightarrow> (SerializedBatchMessage \<times> PublicKey list \<times> PublicKey list) list \<Rightarrow> SerializedBatchMessage list" where
  "quorum_waiter_run c own_stake [] = []"
| "quorum_waiter_run c own_stake ((batch, handlers, acks) # messages) =
     (if own_stake \<ge> quorum_threshold c \<or> wait_for_quorum c own_stake acks
      then batch # quorum_waiter_run c own_stake messages
      else if set handlers \<subseteq> set acks then quorum_waiter_run c own_stake messages
      else [])"

section \<open>The processor\<close>

definition batch_digest :: "'db WorkerEnv \<Rightarrow> SerializedBatchMessage \<Rightarrow> Digest" where
  "batch_digest env batch = sha_digest (we_crypto env) batch"

definition processor_batch ::
    "'db WorkerEnv \<Rightarrow> WorkerId \<Rightarrow> bool \<Rightarrow> SerializedBatchMessage \<Rightarrow> 'db \<Rightarrow> 'db \<times> WorkerPrimaryMessage" where
  "processor_batch env i own_digest batch db =
     (let digest = batch_digest env batch
      in (kv_put (we_kv env) db (digest_bytes digest) batch,
          if own_digest then OurBatch digest i else OthersBatch digest i))"

fun processor_run ::
    "'db WorkerEnv \<Rightarrow> WorkerId \<Rightarrow> bool \<Rightarrow> SerializedBatchMessage list \<Rightarrow> 'db \<Rightarrow> 'db \<times> WorkerPrimaryMessage list" where
  "processor_run env i own_digest [] db = (db, [])"
| "processor_run env i own_digest (batch # batches) db =
     (case processor_batch env i own_digest batch db of (db1, message) \<Rightarrow>
        (case processor_run env i own_digest batches db1 of (db2, messages) \<Rightarrow> (db2, message # messages)))"

section \<open>The primary connector\<close>

definition primary_connector :: "SocketAddr \<Rightarrow> WorkerPrimaryMessage list \<Rightarrow> (SocketAddr \<times> WorkerPrimaryMessage) list" where
  "primary_connector primary_address digests = map (\<lambda>digest. (primary_address, digest)) digests"

section \<open>Acknowledged by a quorum\<close>

lemma wait_for_quorum_prefix:
  "wait_for_quorum c w acks \<longleftrightarrow> (\<exists>i < length acks. quorum_threshold c \<le> w + sum_list (map (stake c) (take (Suc i) acks)))"
proof (induction acks arbitrary: w)
  case (Cons name acks)
  show ?case
    unfolding wait_for_quorum.simps Let_def Cons.IH
    by (auto simp: add.assoc Ex_less_Suc2)
qed simp

lemma waits_for_has_quorum:
  assumes "committee_ok c" and "distinct (name # acks)"
  shows "stake c name \<ge> quorum_threshold c \<or> wait_for_quorum c (stake c name) acks \<longleftrightarrow> has_quorum c (insert name (set acks))"
    (is "?loop \<longleftrightarrow> _")
proof -
  have prefix: "has_quorum c (insert name (set (take i acks))) \<longleftrightarrow>
      quorum_threshold c \<le> stake c name + sum_list (map (stake c) (take i acks))" for i
    using has_quorum_list [OF assms(1), of "name # take i acks"] assms(2) by (auto dest: in_set_takeD)
  have "?loop \<longleftrightarrow> (\<exists>i \<le> length acks. has_quorum c (insert name (set (take i acks))))"
  proof
    assume ?loop
    then show "\<exists>i \<le> length acks. has_quorum c (insert name (set (take i acks)))"
      using prefix [of 0] prefix by (auto simp: wait_for_quorum_prefix simp del: take_Suc_Cons intro: exI [of _ 0] Suc_leI)
  next
    assume "\<exists>i \<le> length acks. has_quorum c (insert name (set (take i acks)))"
    then obtain i where "i \<le> length acks" "quorum_threshold c \<le> stake c name + sum_list (map (stake c) (take i acks))"
      unfolding prefix by blast
    then show ?loop by (cases i) (auto simp: wait_for_quorum_prefix Suc_le_eq)
  qed
  also have "\<dots> \<longleftrightarrow> has_quorum c (insert name (set acks))"
    using has_quorum_mono [of c _ "insert name (set acks)"] set_take_subset [of _ acks]
    by (auto intro!: exI [of _ "length acks"])
  finally show ?thesis .
qed

lemma quorum_waiter_run_delivers:
  assumes "batch \<in> set (quorum_waiter_run c w messages)"
  shows "\<exists>handlers acks. (batch, handlers, acks) \<in> set messages \<and> (w \<ge> quorum_threshold c \<or> wait_for_quorum c w acks)"
  using assms by (induction c w messages rule: quorum_waiter_run.induct) (auto split: if_splits)

section \<open>Batches in order\<close>

fun received_transactions :: "BatchInput list \<Rightarrow> Transaction list" where
  "received_transactions [] = []"
| "received_transactions (ReceiveTransaction transaction # inputs) = transaction # received_transactions inputs"
| "received_transactions (BatchTimer # inputs) = received_transactions inputs"

definition batch_bytes :: "Batch \<Rightarrow> nat" where
  "batch_bytes batch = sum_list (map length batch)"

definition sealed_effects :: "'db WorkerEnv \<Rightarrow> BatchMaker \<Rightarrow> Batch \<Rightarrow> BatchEffect list" where
  "sealed_effects env s batch =
     [BroadcastBatch (map snd (bm_workers_addresses s)) (we_bincode env (BatchMessage batch)),
      ToQuorumWaiter (we_bincode env (BatchMessage batch)) (map fst (bm_workers_addresses s))]"

definition batch_fits :: "nat \<Rightarrow> Batch \<Rightarrow> bool" where
  "batch_fits limit batch \<longleftrightarrow> batch \<noteq> [] \<and> (butlast batch = [] \<or> batch_bytes (butlast batch) < limit)"

definition maker_inv :: "BatchMaker \<Rightarrow> bool" where
  "maker_inv s \<longleftrightarrow> \<not> bm_mahi_equivocation s \<and> bm_current_batch_size s = batch_bytes (bm_current_batch s) \<and>
     (bm_current_batch s = [] \<or> batch_bytes (bm_current_batch s) < bm_batch_size s)"

lemma seal_honest:
  "\<not> bm_mahi_equivocation s \<Longrightarrow>
   seal env s = (s\<lparr>bm_current_batch_size := 0, bm_current_batch := []\<rparr>, sealed_effects env s (bm_current_batch s))"
  by (simp add: seal_def sealed_effects_def Let_def)

lemma sealed_effects_cong:
  "bm_workers_addresses s = bm_workers_addresses s' \<Longrightarrow> sealed_effects env s = sealed_effects env s'"
  by (simp add: sealed_effects_def fun_eq_iff)

lemma maker_seals:
  assumes "maker_inv s" and "batch_maker_step env input s = (s', effects)"
  obtains chunks where "maker_inv s'" and "bm_batch_size s' = bm_batch_size s" and "bm_workers_addresses s' = bm_workers_addresses s"
    and "concat chunks @ bm_current_batch s' = bm_current_batch s @ received_transactions [input]"
    and "effects = concat (map (sealed_effects env s) chunks)" and "\<forall>chunk \<in> set chunks. batch_fits (bm_batch_size s) chunk"
proof (cases input)
  case (ReceiveTransaction tx)
  define s1 where "s1 = s\<lparr>bm_current_batch_size := bm_current_batch_size s + length tx,
    bm_current_batch := bm_current_batch s @ [tx]\<rparr>"
  have inv: "\<not> bm_mahi_equivocation s1" "bm_current_batch_size s1 = batch_bytes (bm_current_batch s1)"
    and fits: "batch_fits (bm_batch_size s) (bm_current_batch s @ [tx])"
    using assms(1) by (auto simp: s1_def maker_inv_def batch_bytes_def batch_fits_def)
  have s1: "bm_batch_size s1 = bm_batch_size s" "bm_workers_addresses s1 = bm_workers_addresses s"
    "bm_current_batch s1 = bm_current_batch s @ [tx]"
    by (simp_all add: s1_def)
  have step: "(s', effects) = (if bm_current_batch_size s1 \<ge> bm_batch_size s1 then seal env s1 else (s1, []))"
    using assms(2) by (auto simp: batch_maker_step_def ReceiveTransaction s1_def Let_def split: if_splits)
  show thesis
  proof (cases "bm_batch_size s1 \<le> bm_current_batch_size s1")
    case True
    then have "s' = s1\<lparr>bm_current_batch_size := 0, bm_current_batch := []\<rparr>" "effects = sealed_effects env s (bm_current_batch s @ [tx])"
      using step inv(1) s1 by (simp_all add: seal_honest sealed_effects_def)
    then show thesis
      using fits inv(1) s1 by (intro that [of "[bm_current_batch s @ [tx]]"]) (simp_all add: ReceiveTransaction maker_inv_def batch_bytes_def)
  next
    case False
    then show thesis
      using step inv s1 by (intro that [of "[]"]) (simp_all add: ReceiveTransaction maker_inv_def)
  qed
next
  case BatchTimer
  show thesis
  proof (cases "bm_current_batch s = []")
    case True
    then show thesis using assms by (intro that [of "[]"]) (simp_all add: BatchTimer batch_maker_step_def)
  next
    case False
    have "batch_bytes (butlast (bm_current_batch s)) \<le> batch_bytes (bm_current_batch s)"
      by (cases "bm_current_batch s" rule: rev_cases) (simp_all add: batch_bytes_def)
    then have "batch_fits (bm_batch_size s) (bm_current_batch s)"
      using False assms(1) by (auto simp: maker_inv_def batch_fits_def)
    then show thesis
      using assms False by (intro that [of "[bm_current_batch s]"])
        (auto simp: BatchTimer batch_maker_step_def seal_honest maker_inv_def batch_bytes_def)
  qed
qed

lemma maker_run_seals:
  assumes "maker_inv s" and "batch_maker_run env inputs s = (s', effects)"
  shows "\<exists>chunks. concat chunks @ bm_current_batch s' = bm_current_batch s @ received_transactions inputs \<and>
    effects = concat (map (sealed_effects env s) chunks) \<and> (\<forall>chunk \<in> set chunks. batch_fits (bm_batch_size s) chunk) \<and>
    (bm_current_batch s' = [] \<or> batch_bytes (bm_current_batch s') < bm_batch_size s)"
  using assms
proof (induction inputs arbitrary: s effects)
  case Nil
  then show ?case by (auto simp: maker_inv_def intro!: exI [of _ "[]"])
next
  case (Cons input inputs)
  obtain s1 e1 e2 where step: "batch_maker_step env input s = (s1, e1)" and run: "batch_maker_run env inputs s1 = (s', e2)"
    and effects: "effects = e1 @ e2"
    using Cons.prems(2) by (auto split: prod.splits)
  obtain chunks where s1: "maker_inv s1" "bm_batch_size s1 = bm_batch_size s" "bm_workers_addresses s1 = bm_workers_addresses s"
    and chunks: "concat chunks @ bm_current_batch s1 = bm_current_batch s @ received_transactions [input]"
      "e1 = concat (map (sealed_effects env s) chunks)" "\<forall>chunk \<in> set chunks. batch_fits (bm_batch_size s) chunk"
    by (rule maker_seals [OF Cons.prems(1) step])
  obtain chunks' where rest: "concat chunks' @ bm_current_batch s' = bm_current_batch s1 @ received_transactions inputs"
      "e2 = concat (map (sealed_effects env s1) chunks')" "\<forall>chunk \<in> set chunks'. batch_fits (bm_batch_size s1) chunk"
      "bm_current_batch s' = [] \<or> batch_bytes (bm_current_batch s') < bm_batch_size s1"
    using Cons.IH [OF s1(1) run] by blast
  have "sealed_effects env s1 = sealed_effects env s" by (rule sealed_effects_cong [OF s1(3)])
  moreover have "received_transactions (input # inputs) = received_transactions [input] @ received_transactions inputs" by (cases input) auto
  moreover have "concat (chunks @ chunks') @ bm_current_batch s' =
      bm_current_batch s @ received_transactions [input] @ received_transactions inputs"
    using chunks(1) rest(1) by (metis append.assoc concat_append)
  ultimately show ?case
    using chunks(2,3) rest(2-4) s1(2) effects by (intro exI [of _ "chunks @ chunks'"]) auto
qed

text \<open>
  No transaction is lost, repeated or reordered on the way into a batch.  The batches
  an honest worker seals are consecutive non-empty runs of the transactions it received, in
  their order, each within the batch size but for its last transaction; every batch is broadcast to
  all other workers and handed to the quorum waiter with their names, and what is not
  sealed yet is below the batch size.
\<close>

theorem batches_in_order:
  assumes "batch_maker_run env inputs (batch_maker_new batch_size addresses False byzantine) = (s, effects)"
  shows "\<exists>chunks. concat chunks @ bm_current_batch s = received_transactions inputs \<and>
    effects = concat (map (\<lambda>batch.
      [BroadcastBatch (map snd addresses) (we_bincode env (BatchMessage batch)),
       ToQuorumWaiter (we_bincode env (BatchMessage batch)) (map fst addresses)]) chunks) \<and>
    (\<forall>batch \<in> set chunks. batch \<noteq> [] \<and> (length batch = 1 \<or> batch_bytes (butlast batch) < batch_size)) \<and>
    (bm_current_batch s = [] \<or> batch_bytes (bm_current_batch s) < batch_size)"
proof -
  have "maker_inv (batch_maker_new batch_size addresses False byzantine)"
    by (simp add: maker_inv_def batch_maker_new_def batch_bytes_def)
  from maker_run_seals [OF this assms] obtain chunks where
    "concat chunks @ bm_current_batch s = received_transactions inputs"
    "effects = concat (map (sealed_effects env (batch_maker_new batch_size addresses False byzantine)) chunks)"
    "\<forall>chunk \<in> set chunks. batch_fits batch_size chunk" "bm_current_batch s = [] \<or> batch_bytes (bm_current_batch s) < batch_size"
    by (auto simp: batch_maker_new_def)
  moreover have "length batch = 1 \<or> batch_bytes (butlast batch) < batch_size" if "batch_fits batch_size batch" for batch
    using that by (cases batch rule: rev_cases) (auto simp: batch_fits_def)
  moreover have "sealed_effects env (batch_maker_new batch_size addresses False byzantine) = (\<lambda>batch.
      [BroadcastBatch (map snd addresses) (we_bincode env (BatchMessage batch)),
       ToQuorumWaiter (we_bincode env (BatchMessage batch)) (map fst addresses)])"
    by (simp add: fun_eq_iff sealed_effects_def batch_maker_new_def)
  ultimately show ?thesis
    by (intro exI [of _ chunks]) (simp add: batch_fits_def)
qed

section \<open>Announced batches\<close>

fun quorum_requests :: "BatchEffect list \<Rightarrow> (SerializedBatchMessage \<times> PublicKey list) list" where
  "quorum_requests [] = []"
| "quorum_requests (ToQuorumWaiter batch names # effects) = (batch, names) # quorum_requests effects"
| "quorum_requests (_ # effects) = quorum_requests effects"

lemma quorum_requests_append: "quorum_requests (xs @ ys) = quorum_requests xs @ quorum_requests ys"
  by (induction xs rule: quorum_requests.induct) auto

lemma quorum_requests_sealed:
  "quorum_requests (concat (map (sealed_effects env s) chunks)) =
   map (\<lambda>batch. (we_bincode env (BatchMessage batch), map fst (bm_workers_addresses s))) chunks"
  by (induction chunks) (simp_all add: quorum_requests_append sealed_effects_def)

definition announcement :: "'db WorkerEnv \<Rightarrow> WorkerId \<Rightarrow> bool \<Rightarrow> SerializedBatchMessage \<Rightarrow> WorkerPrimaryMessage" where
  "announcement env i own batch = (if own then OurBatch (batch_digest env batch) i else OthersBatch (batch_digest env batch) i)"

text \<open>The processor stores every batch and announces it.\<close>

lemma processor_run_eq:
  "processor_run env i own batches db =
     (foldl (\<lambda>db batch. kv_put (we_kv env) db (digest_bytes (batch_digest env batch)) batch) db batches,
      map (announcement env i own) batches)"
  by (induction batches arbitrary: db) (simp_all add: processor_batch_def announcement_def Let_def)

lemma stored_batches:
  assumes "kv_ok kv"
  shows "stored kv (foldl (\<lambda>db batch. kv_put kv db (digest_bytes (f batch)) batch) db batches) k \<longleftrightarrow>
    k \<in> (\<lambda>batch. digest_bytes (f batch)) ` set batches \<or> stored kv db k"
  by (induction batches arbitrary: db) (auto simp: stored_put [OF assms])

text \<open>
  C32. What a worker announces to its primary is available.  Every batch of its own an
  honest worker announces is made of transactions it received, is in its store under the
  announced digest, and was acknowledged by authorities that hold a quorum together with the
  worker's own authority.
\<close>

theorem announced_batch_has_quorum:
  assumes "committee_ok c" and "kv_ok (we_kv env)"
    and "batch_maker_run env inputs (batch_maker_new batch_size addresses False byzantine) = (s, effects)"
    and "map (\<lambda>(batch, handlers, _). (batch, handlers)) messages = quorum_requests effects"
    and "\<forall>(batch, handlers, acks) \<in> set messages. distinct (name # acks)"
    and "processor_run env i True (quorum_waiter_run c (stake c name) messages) db = (db', announced)"
  shows "\<forall>m \<in> set announced. \<exists>batch acks. m = OurBatch (batch_digest env (we_bincode env (BatchMessage batch))) i \<and>
    batch \<noteq> [] \<and> set batch \<subseteq> set (received_transactions inputs) \<and>
    (we_bincode env (BatchMessage batch), map fst addresses, acks) \<in> set messages \<and> has_quorum c (insert name (set acks)) \<and>
    stored (we_kv env) db' (digest_bytes (batch_digest env (we_bincode env (BatchMessage batch))))"
proof
  fix m
  assume "m \<in> set announced"
  then obtain bytes where bytes: "bytes \<in> set (quorum_waiter_run c (stake c name) messages)" "m = OurBatch (batch_digest env bytes) i"
    "stored (we_kv env) db' (digest_bytes (batch_digest env bytes))"
    using assms(6) by (auto simp: processor_run_eq announcement_def stored_batches [OF assms(2)])
  then obtain handlers acks where message: "(bytes, handlers, acks) \<in> set messages"
    and "stake c name \<ge> quorum_threshold c \<or> wait_for_quorum c (stake c name) acks"
    using quorum_waiter_run_delivers by blast
  then have quorum: "has_quorum c (insert name (set acks))"
    using waits_for_has_quorum [OF assms(1)] assms(5) by blast
  let ?new = "batch_maker_new batch_size addresses False byzantine"
  have "maker_inv ?new" by (simp add: maker_inv_def batch_maker_new_def batch_bytes_def)
  from maker_run_seals [OF this assms(3)] obtain chunks where
    chunks: "concat chunks @ bm_current_batch s = received_transactions inputs" "effects = concat (map (sealed_effects env ?new) chunks)"
      "\<forall>batch \<in> set chunks. batch_fits batch_size batch"
    by (auto simp: batch_maker_new_def)
  have "(bytes, handlers) \<in> set (quorum_requests effects)"
    unfolding assms(4) [symmetric] using message by force
  then obtain batch where "batch \<in> set chunks" "bytes = we_bincode env (BatchMessage batch)" "handlers = map fst addresses"
    unfolding chunks(2) quorum_requests_sealed by (auto simp: batch_maker_new_def)
  moreover have "set (concat chunks) \<subseteq> set (received_transactions inputs)" unfolding chunks(1) [symmetric] by auto
  ultimately show "\<exists>batch acks. m = OurBatch (batch_digest env (we_bincode env (BatchMessage batch))) i \<and>
      batch \<noteq> [] \<and> set batch \<subseteq> set (received_transactions inputs) \<and>
      (we_bincode env (BatchMessage batch), map fst addresses, acks) \<in> set messages \<and> has_quorum c (insert name (set acks)) \<and>
      stored (we_kv env) db' (digest_bytes (batch_digest env (we_bincode env (BatchMessage batch))))"
    using bytes(2,3) message quorum chunks(3) by (intro exI [of _ batch] exI [of _ acks]) (auto simp: batch_fits_def)
qed

section \<open>Concrete runs\<close>

text \<open>A serializer that concatenates the transactions, and reads any bytes as one transaction.\<close>

definition demo_worker_env :: "(Key \<Rightarrow> Value option) WorkerEnv" where
  "demo_worker_env = \<lparr>we_crypto = demo_lib, we_kv = demo_kv,
     we_bincode = (\<lambda>m. case m of BatchMessage batch \<Rightarrow> concat batch | BatchRequest _ _ \<Rightarrow> []),
     we_debincode = (\<lambda>bs. Some (BatchMessage [bs]))\<rparr>"

definition demo_addresses :: "(PublicKey \<times> SocketAddr) list" where
  "demo_addresses = [(PublicKey 2, ''b''), (PublicKey 3, ''c''), (PublicKey 4, ''d'')]"

abbreviation demo_transactions :: "BatchInput list" where
  "demo_transactions \<equiv> [ReceiveTransaction [1], ReceiveTransaction [2, 3], ReceiveTransaction [4], BatchTimer]"

definition demo_maker :: BatchMaker where
  "demo_maker = batch_maker_new 2 demo_addresses False []"

lemma demo_maker_run:
  "\<exists>s. batch_maker_run demo_worker_env demo_transactions demo_maker =
     (s, [BroadcastBatch [''b'', ''c'', ''d''] [1, 2, 3], ToQuorumWaiter [1, 2, 3] [PublicKey 2, PublicKey 3, PublicKey 4],
          BroadcastBatch [''b'', ''c'', ''d''] [4], ToQuorumWaiter [4] [PublicKey 2, PublicKey 3, PublicKey 4]]) \<and> bm_current_batch s = []"
  by (simp add: demo_maker_def batch_maker_new_def batch_maker_step_def seal_def demo_worker_env_def demo_addresses_def Let_def)

theorem batches_in_order_witness:
  "\<exists>s effects chunks. batch_maker_run demo_worker_env demo_transactions (batch_maker_new 2 demo_addresses False []) = (s, effects) \<and>
     length effects = 4 \<and> concat chunks @ bm_current_batch s = [[1], [2, 3], [4]] \<and>
     (\<forall>batch \<in> set chunks. batch \<noteq> [] \<and> (length batch = 1 \<or> batch_bytes (butlast batch) < 2))"
proof -
  obtain s effects where run: "batch_maker_run demo_worker_env demo_transactions demo_maker = (s, effects)" "length effects = 4"
    using demo_maker_run by auto
  then show ?thesis
    using batches_in_order [OF run(1) [unfolded demo_maker_def]] unfolding demo_maker_def by auto
qed

theorem announced_batch_has_quorum_witness:
  "\<exists>db' announced. processor_run demo_worker_env 0 True (quorum_waiter_run demo_committee (stake demo_committee (PublicKey 1))
       [([1, 2, 3], [PublicKey 2, PublicKey 3, PublicKey 4], [PublicKey 4, PublicKey 2]),
        ([4], [PublicKey 2, PublicKey 3, PublicKey 4], [PublicKey 3])]) Map.empty = (db', announced) \<and>
     announced = [OurBatch (batch_digest demo_worker_env [1, 2, 3]) 0] \<and>
     (\<exists>batch acks. announced = [OurBatch (batch_digest demo_worker_env (we_bincode demo_worker_env (BatchMessage batch))) 0] \<and>
        set batch \<subseteq> {[1], [2, 3], [4]} \<and> has_quorum demo_committee (insert (PublicKey 1) (set acks)))"
proof -
  let ?messages = "[([1, 2, 3], [PublicKey 2, PublicKey 3, PublicKey 4], [PublicKey 4, PublicKey 2]),
    ([4], [PublicKey 2, PublicKey 3, PublicKey 4], [PublicKey 3])] :: (byte list \<times> PublicKey list \<times> PublicKey list) list"
  obtain s effects where run: "batch_maker_run demo_worker_env demo_transactions demo_maker = (s, effects)"
    "map (\<lambda>(batch, handlers, _). (batch, handlers)) ?messages = quorum_requests effects"
    using demo_maker_run by auto
  have waiter: "quorum_waiter_run demo_committee (stake demo_committee (PublicKey 1)) ?messages = [[1, 2, 3]]"
    by (simp add: demo_keys_def word_le_nat_alt)
  obtain db' announced where processed: "processor_run demo_worker_env 0 True
      (quorum_waiter_run demo_committee (stake demo_committee (PublicKey 1)) ?messages) Map.empty = (db', announced)"
    by (cases "processor_run demo_worker_env 0 True
      (quorum_waiter_run demo_committee (stake demo_committee (PublicKey 1)) ?messages) Map.empty")
  then have announced: "announced = [OurBatch (batch_digest demo_worker_env [1, 2, 3]) 0]"
    unfolding waiter by (simp add: processor_run_eq announcement_def)
  have kv: "kv_ok (we_kv demo_worker_env)" by (simp add: demo_worker_env_def)
  have distinct: "\<forall>(batch, handlers, acks) \<in> set ?messages. distinct (PublicKey 1 # acks)" by simp
  have "committee_ok demo_committee" by simp
  from announced_batch_has_quorum [OF this kv run(1) [unfolded demo_maker_def] run(2) distinct processed] show ?thesis
    using processed announced by auto
qed

end
