(* ===== verification/Worker.thy ===== *)
theory Worker
  imports Batches
begin

text \<open>
  How workers exchange batches (\<^verbatim>\<open>worker/src/helper.rs\<close>, \<^verbatim>\<open>synchronizer.rs\<close> and the network
  handlers of \<^verbatim>\<open>worker.rs\<close>): a worker stores the batches of others, answers requests for batches,
  and asks other workers for the batches its primary misses.
\<close>

section \<open>Network handlers\<close>

datatype WorkerDispatch =
    DispatchBatch SerializedBatchMessage
  | DispatchRequest "Digest list" PublicKey

definition worker_receiver_dispatch :: "'db WorkerEnv \<Rightarrow> byte list \<Rightarrow> WorkerDispatch option" where
  "worker_receiver_dispatch env serialized =
     (case we_debincode env serialized of
        Some (BatchMessage _) \<Rightarrow> Some (DispatchBatch serialized)
      | Some (BatchRequest missing requestor) \<Rightarrow> Some (DispatchRequest missing requestor)
      | None \<Rightarrow> None)"

definition tx_receiver_dispatch :: "byte list \<Rightarrow> BatchInput" where
  "tx_receiver_dispatch message = ReceiveTransaction message"

section \<open>The helper\<close>

fun worker_helper_reply :: "'db WorkerEnv \<Rightarrow> 'db \<Rightarrow> SocketAddr \<Rightarrow> Digest list \<Rightarrow> (SocketAddr \<times> byte list) list" where
  "worker_helper_reply env db address [] = []"
| "worker_helper_reply env db address (digest # digests) =
     (case kv_get (we_kv env) db (digest_bytes digest) of
        Inr (Some data) \<Rightarrow> (address, data) # worker_helper_reply env db address digests
      | _ \<Rightarrow> worker_helper_reply env db address digests)"

definition worker_helper_request ::
    "'db WorkerEnv \<Rightarrow> Committee \<Rightarrow> WorkerId \<Rightarrow> bool \<Rightarrow> 'db \<Rightarrow> Digest list \<Rightarrow> PublicKey \<Rightarrow> (SocketAddr \<times> byte list) list" where
  "worker_helper_request env c i refuse_requests db digests origin =
     (if refuse_requests then []
      else (case committee_worker c origin i of
              Inl _ \<Rightarrow> []
            | Inr w \<Rightarrow> worker_helper_reply env db (worker_to_worker w) digests))"

section \<open>The synchronizer\<close>












section \<open>Batches travel between workers\<close>

definition worker_receive :: "'db WorkerEnv \<Rightarrow> WorkerId \<Rightarrow> byte list list \<Rightarrow> 'db \<Rightarrow> 'db \<times> WorkerPrimaryMessage list" where
  "worker_receive env i messages db =
     processor_run env i False
       (List.map_filter (\<lambda>serialized. case worker_receiver_dispatch env serialized of
          Some (DispatchBatch batch) \<Rightarrow> Some batch | _ \<Rightarrow> None) messages) db"

text \<open>Every entry of the store of a worker is a batch, under its digest.\<close>

definition batch_store_ok :: "'db WorkerEnv \<Rightarrow> 'db \<Rightarrow> bool" where
  "batch_store_ok env db \<longleftrightarrow> (\<forall>d v. kv_get (we_kv env) db (digest_bytes d) = Inr (Some v) \<longrightarrow>
     batch_digest env v = d \<and> (\<exists>batch. we_debincode env v = Some (BatchMessage batch)))"

lemma worker_receiver_dispatch_batch:
  "worker_receiver_dispatch env v = Some (DispatchBatch b) \<longleftrightarrow> b = v \<and> (\<exists>batch. we_debincode env v = Some (BatchMessage batch))"
  by (auto simp: worker_receiver_dispatch_def split: option.split WorkerMessage.split)

lemma batch_store_ok_processor:
  assumes "kv_ok (we_kv env)" and "batch_store_ok env db"
    and "\<forall>v \<in> set batches. \<exists>batch. we_debincode env v = Some (BatchMessage batch)"
  shows "batch_store_ok env (fst (processor_run env i own batches db))"
  using assms(2,3)
proof (induction batches arbitrary: db)
  case (Cons v batches)
  have "batch_store_ok env (kv_put (we_kv env) db (digest_bytes (batch_digest env v)) v)"
    using Cons.prems assms(1) by (auto simp: batch_store_ok_def kv_ok_def)
  from Cons.IH [OF this] show ?case using Cons.prems by (simp add: processor_run_eq)
qed (simp add: processor_run_eq)

definition batch_at :: "'db KvLib \<Rightarrow> 'db \<Rightarrow> Digest \<Rightarrow> byte list" where
  "batch_at kv db d = (case kv_get kv db (digest_bytes d) of Inr (Some v) \<Rightarrow> v | _ \<Rightarrow> [])"

lemma batch_at_stored: "stored kv db (digest_bytes d) \<Longrightarrow> kv_get kv db (digest_bytes d) = Inr (Some (batch_at kv db d))"
  by (auto simp: stored_def batch_at_def)

lemma worker_helper_reply_eq:
  "worker_helper_reply env db address digests =
   map (\<lambda>d. (address, batch_at (we_kv env) db d)) (filter (\<lambda>d. stored (we_kv env) db (digest_bytes d)) digests)"
  by (induction digests) (auto simp: stored_def batch_at_def split: sum.split option.split)

lemma get_stored_batch:
  assumes "kv_ok kv" and "v \<in> set batches" and "\<forall>b \<in> set batches. f b = f v \<longrightarrow> b = v"
  shows "kv_get kv (foldl (\<lambda>db batch. kv_put kv db (digest_bytes (f batch)) batch) db batches) (digest_bytes (f v)) = Inr (Some v)"
  using assms(2,3)
proof (induction batches rule: rev_induct)
  case (snoc b batches)
  then show ?case using assms(1) by (cases "f b = f v") (auto simp: kv_ok_def)
qed simp

text \<open>
  C34. A batch request brings the batches over.  If the store of the asked worker has only
  batches under their digests, as its processor keeps it, then the helper answers with
  exactly the requested batches it has; the requesting worker stores the same bytes under
  the requested digests and announces exactly these digests to its primary.
\<close>

theorem batch_sync_roundtrip:
  assumes "kv_ok (we_kv env)" and "batch_store_ok env db" and "committee_worker c origin i = Inr w"
    and "worker_receive env i (map snd (worker_helper_request env c i False db digests origin)) db2 = (db2', announced)"
  shows "(\<forall>d \<in> set digests. stored (we_kv env) db (digest_bytes d) \<longrightarrow>
        kv_get (we_kv env) db2' (digest_bytes d) = kv_get (we_kv env) db (digest_bytes d)) \<and>
    announced = map (\<lambda>d. OthersBatch d i) (filter (\<lambda>d. stored (we_kv env) db (digest_bytes d)) digests)"
proof -
  let ?held = "filter (\<lambda>d. stored (we_kv env) db (digest_bytes d)) digests"
  let ?batches = "map (batch_at (we_kv env) db) ?held"
  have batch: "batch_digest env (batch_at (we_kv env) db d) = d \<and> (\<exists>b. we_debincode env (batch_at (we_kv env) db d) = Some (BatchMessage b))"
    if "d \<in> set ?held" for d
    using that assms(2) batch_at_stored [of "we_kv env" db d] by (auto simp: batch_store_ok_def)
  have "List.map_filter (\<lambda>serialized. case worker_receiver_dispatch env serialized of
      Some (DispatchBatch batch) \<Rightarrow> Some batch | _ \<Rightarrow> None) xs = xs"
    if "\<forall>v \<in> set xs. \<exists>b. we_debincode env v = Some (BatchMessage b)" for xs
    using that by (induction xs) (auto simp: List.map_filter_def worker_receiver_dispatch_def)
  from this [of ?batches] have "worker_receive env i ?batches db2 = processor_run env i False ?batches db2"
    using batch unfolding worker_receive_def by fastforce
  moreover have "map snd (worker_helper_request env c i False db digests origin) = ?batches"
    by (simp add: worker_helper_request_def assms(3) worker_helper_reply_eq o_def)
  ultimately have run: "processor_run env i False ?batches db2 = (db2', announced)" using assms(4) by simp
  have "announced = map (\<lambda>d. OthersBatch d i) ?held"
    using run batch by (auto simp: processor_run_eq announcement_def)
  moreover have "kv_get (we_kv env) db2' (digest_bytes d) = kv_get (we_kv env) db (digest_bytes d)" if "d \<in> set ?held" for d
  proof -
    have "\<forall>b \<in> set ?batches. batch_digest env b = batch_digest env (batch_at (we_kv env) db d) \<longrightarrow> b = batch_at (we_kv env) db d"
      using that batch by auto
    from get_stored_batch [OF assms(1) _ this] show ?thesis
      using run that batch batch_at_stored [of "we_kv env" db d] by (auto simp: processor_run_eq)
  qed
  ultimately show ?thesis by simp
qed

section \<open>No request of the primary is lost\<close>












section \<open>Concrete runs\<close>

definition worker_committee :: Committee where
  "worker_committee = \<lparr>authorities = map (\<lambda>k. (k,
     \<lparr>auth_stake = 1, auth_primary = \<lparr>primary_to_primary = [], worker_to_primary = []\<rparr>,
      auth_workers = [(0, \<lparr>transactions = [], worker_to_worker = ''w'', primary_to_worker = []\<rparr>)]\<rparr>)) demo_keys\<rparr>"

lemma worker_committee_worker: "\<exists>w. committee_worker worker_committee (PublicKey 2) 0 = Inr w"
  by (simp add: committee_worker_def worker_committee_def demo_keys_def)

abbreviation demo_store :: "Key \<Rightarrow> Value option" where
  "demo_store \<equiv> [digest_bytes (batch_digest demo_worker_env [7]) \<mapsto> [7]]"

theorem batch_sync_roundtrip_witness:
  "\<exists>db2' announced. worker_receive demo_worker_env 0 (map snd (worker_helper_request demo_worker_env worker_committee 0 False
       demo_store [batch_digest demo_worker_env [7]] (PublicKey 2))) Map.empty = (db2', announced) \<and>
     kv_get demo_kv db2' (digest_bytes (batch_digest demo_worker_env [7])) = Inr (Some [7]) \<and>
     announced = [OthersBatch (batch_digest demo_worker_env [7]) 0]"
proof -
  let ?d = "batch_digest demo_worker_env [7]"
  obtain w where w: "committee_worker worker_committee (PublicKey 2) 0 = Inr w" using worker_committee_worker by blast
  obtain db2' announced where run: "worker_receive demo_worker_env 0 (map snd (worker_helper_request demo_worker_env worker_committee 0 False
      demo_store [?d] (PublicKey 2))) Map.empty = (db2', announced)"
    by (cases "worker_receive demo_worker_env 0 (map snd (worker_helper_request demo_worker_env worker_committee 0 False
      demo_store [?d] (PublicKey 2))) Map.empty")
  have kv: "we_kv demo_worker_env = demo_kv" by (simp add: demo_worker_env_def)
  have get: "kv_get demo_kv demo_store k = Inr (demo_store k)" for k by (simp add: demo_kv_def)
  have "batch_store_ok demo_worker_env demo_store"
    unfolding batch_store_ok_def kv get by (auto simp: demo_worker_env_def split: if_splits)
  from batch_sync_roundtrip [OF _ this w run] run show ?thesis
    unfolding kv by (simp add: stored_def get)
qed


end
