(* ===== verification/Wahoo_Network.thy ===== *)
theory Wahoo_Network
  imports Aggregators Wahoo_Messages
begin

text \<open>
  The network handler of a Wahoo primary (\<^verbatim>\<open>primary/src/primary.rs\<close>): what it checks of a message
  before the node sees it, and the certificate a committed block becomes for the consensus
  layer.
\<close>

text \<open>\<^verbatim>\<open>verify_wahoo_certificate\<close>: the votes carry one phase, and its threshold.\<close>

fun verify_wahoo_votes ::
    "Committee \<Rightarrow> Certificate \<Rightarrow> WahooVotePhase \<Rightarrow> PublicKey list \<Rightarrow> Stake \<Rightarrow> (PublicKey \<times> Signature) list
     \<Rightarrow> Vote list \<Rightarrow> (Stake \<times> (PublicKey \<times> Signature) list) dag_result" where
  "verify_wahoo_votes c cert phase used weight sigs [] = Inr (weight, sigs)"
| "verify_wahoo_votes c cert phase used weight sigs (v # vs) =
     rbind (ensure (v_wahoo_phase v = Some phase) (MalformedHeader (h_id (header cert)))) (\<lambda>_.
     rbind (ensure (v_id v = h_id (header cert)) (MalformedHeader (h_id (header cert)))) (\<lambda>_.
     rbind (ensure (v_round v = cert_round cert) (MalformedHeader (h_id (header cert)))) (\<lambda>_.
     rbind (ensure (v_origin v = cert_origin cert) (MalformedHeader (h_id (header cert)))) (\<lambda>_.
     rbind (ensure (v_author v \<notin> set used) (AuthorityReuse (v_author v))) (\<lambda>_.
     rbind (ensure (stake c (v_author v) > 0) (UnknownAuthority (v_author v))) (\<lambda>_.
     verify_wahoo_votes c cert phase (v_author v # used) (weight + stake c (v_author v))
       (sigs @ [(v_author v, v_signature v)]) vs))))))"

definition phase_round_ok :: "WahooVotePhase \<Rightarrow> Round \<Rightarrow> bool" where
  "phase_round_ok phase round = (if phase = PhasePbc then round mod 2 = 0 else round mod 2 = 1)"

definition tag_phase_ok :: "WahooVotePhase \<Rightarrow> WahooTag \<Rightarrow> bool" where
  "tag_phase_ok phase tag =
     (if phase = PhasePbc then tag = Pbc \<or> tag = PbcVoteComplete
      else tag = EpbcTs1 \<or> tag = EpbcTs2 \<or> tag = EpbcTf)"

definition verify_wahoo_certificate :: "CryptoLib \<Rightarrow> Committee \<Rightarrow> Certificate \<Rightarrow> unit dag_result" where
  "verify_wahoo_certificate lib c cert =
     (let h = header cert
      in rbind (ensure (header_digest lib h = h_id h) InvalidHeaderId) (\<lambda>_.
         rbind (ensure (stake c (h_author h) > 0) (UnknownAuthority (h_author h))) (\<lambda>_.
         rbind (of_crypto (sig_verify lib (h_signature h) (h_id h) (h_author h))) (\<lambda>_.
         case votes cert of
           [] \<Rightarrow> Inl (MalformedHeader (h_id h))
         | v # _ \<Rightarrow>
             (case v_wahoo_phase v of
                None \<Rightarrow> Inl (MalformedHeader (h_id h))
              | Some phase \<Rightarrow>
                  rbind (ensure (phase_round_ok phase (cert_round cert)) (MalformedHeader (h_id h))) (\<lambda>_.
                  rbind (case h_wahoo_tag h of None \<Rightarrow> Inr () | Some tag \<Rightarrow>
                           ensure (tag_phase_ok phase tag) (MalformedHeader (h_id h))) (\<lambda>_.
                  rbind (verify_wahoo_votes c cert phase [] 0 [] (votes cert)) (\<lambda>(weight, sigs).
                  rbind (of_crypto (verify_batch lib (vote_digest lib v) sigs)) (\<lambda>_.
                  ensure (weight \<ge> (if phase = PhaseTf then sum_list (map (stake c) (keys_of (authorities c)))
                                     else quorum_threshold c)) CertificateRequiresQuorum)))))))))"

datatype WahooRoute =
    RouteNode WahooMessage
  | RouteRecp RecpMessage
  | DropMessage

definition wahoo_digest :: "CryptoLib \<Rightarrow> byte list \<Rightarrow> Digest" where
  "wahoo_digest lib payload = sha_digest lib payload"

definition wahoo_dispatch :: "CryptoLib \<Rightarrow> (WahooMessage \<Rightarrow> byte list) \<Rightarrow> Committee \<Rightarrow> PrimaryMessage option \<Rightarrow> WahooRoute" where
  "wahoo_dispatch lib bincode c message =
     (case message of
        None \<Rightarrow> DropMessage
      | Some (WahooEnvelope sw) \<Rightarrow>
          (let msg = sw_msg sw; sender = wahoo_sender msg
           in if (case msg of WBlock _ \<Rightarrow> True | WVote _ \<Rightarrow> True | WPbcCertificate _ \<Rightarrow> True | WEpbcCertificate _ \<Rightarrow> True | _ \<Rightarrow> False)
              then DropMessage
              else if stake c sender = 0 then DropMessage
              else if sig_verify lib (sw_sig sw) (wahoo_digest lib (bincode msg)) sender \<noteq> Inr () then DropMessage
              else RouteNode msg)
      | Some (HeaderMessage h) \<Rightarrow>
          if stake c (h_author h) = 0 then DropMessage
          else if h_id h \<noteq> header_digest lib h then DropMessage
          else if sig_verify lib (h_signature h) (h_id h) (h_author h) \<noteq> Inr () then DropMessage
          else (case h_leader_link h of
                  Some ll \<Rightarrow>
                    if 3 \<le> h_round h \<and> h_round h mod 2 = 1 \<and> isl (verify_with_crypto lib c (h_round h - 2) ll)
                    then DropMessage else RouteNode (WBlock h)
                | None \<Rightarrow> RouteNode (WBlock h))
      | Some (VoteMessage v) \<Rightarrow>
          if stake c (v_author v) = 0 then DropMessage
          else if sig_verify lib (v_signature v) (vote_digest lib v) (v_author v) \<noteq> Inr () then DropMessage
          else RouteNode (WVote v)
      | Some (CertificateMessage cert) \<Rightarrow>
          (case votes cert of
             [] \<Rightarrow> DropMessage
           | v # _ \<Rightarrow>
               if \<not> list_all (\<lambda>w. v_wahoo_phase w = v_wahoo_phase v) (votes cert) then DropMessage
               else if isl (verify_wahoo_certificate lib c cert) then DropMessage
               else (case v_wahoo_phase v of
                       None \<Rightarrow> DropMessage
                     | Some phase \<Rightarrow> RouteNode (if phase = PhasePbc then WPbcCertificate cert else WEpbcCertificate cert)))
      | Some (RecpEnvelope recp) \<Rightarrow> if stake c (rm_author recp) = 0 then DropMessage else RouteRecp recp
      | Some (CertificatesRequest _ _) \<Rightarrow> DropMessage)"

definition wahoo_block_to_certificate :: "CryptoLib \<Rightarrow> Header \<Rightarrow> Certificate" where
  "wahoo_block_to_certificate lib block =
     (let h = default_header\<lparr>h_author := h_author block, h_round := h_round block, h_payload := h_payload block,
                h_benchmark_invalid_payload := h_benchmark_invalid_payload block\<rparr>
      in \<lparr>header = h\<lparr>h_id := header_digest lib h\<rparr>, votes = []\<rparr>)"

section \<open>What a verified certificate carries\<close>

lemma verify_wahoo_votes_Inr:
  assumes "verify_wahoo_votes c cert phase used w sigs vs = Inr (w', sigs')"
  shows "distinct (map v_author vs) \<and> v_author ` set vs \<inter> set used = {} \<and>
         w' = w + sum_list (map (stake c) (map v_author vs)) \<and>
         (\<forall>v \<in> set vs. vote_for (header cert) phase v \<and> 0 < stake c (v_author v))"
  using assms
  by (induction c cert phase used w sigs vs rule: verify_wahoo_votes.induct)
    (auto simp: algebra_simps vote_for_def cert_round_def cert_origin_def)

lemma quorum_threshold_le_phase: "committee_ok c \<Longrightarrow> unat (quorum_threshold c) \<le> phase_threshold c phase"
  by (auto simp: phase_threshold_def stake_simps committee_ok_def)

text \<open>A phase quorum for a header: distinct members, all for this header and phase, of enough stake.\<close>

definition phase_votes :: "Committee \<Rightarrow> Header \<Rightarrow> WahooVotePhase \<Rightarrow> Vote list \<Rightarrow> bool" where
  "phase_votes c h phase vs \<longleftrightarrow>
     distinct (map v_author vs) \<and> (\<forall>v \<in> set vs. vote_for h phase v \<and> v_author v \<in> members c) \<and>
     phase_threshold c phase \<le> sum (nstake c) (v_author ` set vs)"

lemma phase_votes_quorum:
  assumes "committee_ok c" and "phase_votes c h phase vs"
  shows "quorum_votes c (h_id h) (h_round h) (h_author h) vs"
  using assms quorum_threshold_le_phase [OF assms(1), of phase]
  by (auto simp: quorum_votes_def phase_votes_def vote_for_def has_quorum_def)

lemma verify_wahoo_certificate_votes:
  assumes "committee_ok c" and "verify_wahoo_certificate lib c cert = Inr ()"
  obtains phase where "phase_votes c (header cert) phase (votes cert)" and "phase_round_ok phase (cert_round cert)"
    and "v_wahoo_phase (hd (votes cert)) = Some phase" and "h_id (header cert) = header_digest lib (header cert)"
proof -
  obtain v vs phase w sigs where vs: "votes cert = v # vs" "v_wahoo_phase v = Some phase"
    "phase_round_ok phase (cert_round cert)" "h_id (header cert) = header_digest lib (header cert)"
    and run: "verify_wahoo_votes c cert phase [] 0 [] (votes cert) = Inr (w, sigs)"
    and w: "(if phase = PhaseTf then sum_list (map (stake c) (keys_of (authorities c))) else quorum_threshold c) \<le> w"
    using assms(2) unfolding verify_wahoo_certificate_def Let_def
    by (auto split: list.splits option.splits if_splits)
  note ok = verify_wahoo_votes_Inr [OF run]
  have "unat w = sum (nstake c) (v_author ` set (votes cert))"
    using ok unat_weight [OF assms(1)] by (metis add_0 list.set_map)
  then have "phase_threshold c phase \<le> sum (nstake c) (v_author ` set (votes cert))"
    using w unat_phase_threshold [OF assms(1), of phase] by (simp add: word_le_nat_alt)
  with ok vs show thesis
    by (intro that [of phase]) (auto simp: phase_votes_def intro: stake_pos_member)
qed

text \<open>What the handler routes to the node it has checked.\<close>

lemma wahoo_dispatch_vote: "wahoo_dispatch lib bincode c m = RouteNode (WVote v) \<Longrightarrow> 0 < stake c (v_author v)"
  by (auto simp: wahoo_dispatch_def Let_def word_gt_0 split: option.splits PrimaryMessage.splits if_splits list.splits)

lemma not_isl_unit [simp]: "\<not> isl (r :: unit dag_result) \<longleftrightarrow> r = Inr ()"
  by (cases r) auto

lemma wahoo_dispatch_certificate:
  "wahoo_dispatch lib bincode c m = RouteNode (WPbcCertificate cert) \<Longrightarrow>
     verify_wahoo_certificate lib c cert = Inr () \<and> v_wahoo_phase (hd (votes cert)) = Some PhasePbc"
  "wahoo_dispatch lib bincode c m = RouteNode (WEpbcCertificate cert) \<Longrightarrow>
     verify_wahoo_certificate lib c cert = Inr () \<and> v_wahoo_phase (hd (votes cert)) \<noteq> Some PhasePbc"
  by (auto simp: wahoo_dispatch_def Let_def
      split: option.splits PrimaryMessage.splits if_splits list.splits WahooMessage.splits)

lemma wahoo_dispatch_block:
  "wahoo_dispatch lib bincode c m = RouteNode (WBlock h) \<Longrightarrow> h_id h = header_digest lib h \<and> 0 < stake c (h_author h)"
  by (auto simp: wahoo_dispatch_def Let_def word_gt_0
      split: option.splits PrimaryMessage.splits if_splits list.splits sum.splits WahooMessage.splits)

end
