(* ===== verification/Wahoo_Pb.thy ===== *)
theory Wahoo_Pb
  imports Aggregators Wahoo_Network
begin

text \<open>
  Provable broadcast, the even rounds of Wahoo (\<^verbatim>\<open>primary/src/wahoo/pb.rs\<close>).  The nested maps of
  the code, from a round to a map from an author, are maps from the pair.
\<close>

type_synonym slot = "Round \<times> PublicKey"

datatype PbAction =
    SendVote PublicKey Vote
  | BroadcastCertificate Certificate
  | OutputBlock Header

record Pb =
  pbs_name :: PublicKey
  pbs_committee :: Committee
  pbs_pending_blocks :: "(slot \<times> Header) list"
  pbs_pending_certificates :: "(slot \<times> Certificate) list"
  pbs_pending_vote :: "(slot \<times> WahooVotesAggregator) list"
  pbs_block_output :: "(slot \<times> bool) list"
  pbs_block2_send :: "(Round \<times> bool) list"

definition pb_new :: "PublicKey \<Rightarrow> Committee \<Rightarrow> Pb" where
  "pb_new name c =
     \<lparr>pbs_name = name, pbs_committee = c, pbs_pending_blocks = [], pbs_pending_certificates = [],
      pbs_pending_vote = [], pbs_block_output = [], pbs_block2_send = []\<rparr>"

definition store_block_msg :: "Header \<Rightarrow> Pb \<Rightarrow> Pb" where
  "store_block_msg block pb =
     (if map_of (pbs_pending_blocks pb) (h_round block, h_author block) \<noteq> None then pb
      else pb\<lparr>pbs_pending_blocks := AList.update (h_round block, h_author block) block (pbs_pending_blocks pb)\<rparr>)"

definition pb_store_certificate :: "Certificate \<Rightarrow> Pb \<Rightarrow> Pb" where
  "pb_store_certificate certificate pb =
     pb\<lparr>pbs_pending_certificates :=
          AList.update (cert_round certificate, cert_origin certificate) certificate (pbs_pending_certificates pb)\<rparr>"

definition flag :: "('k \<times> bool) list \<Rightarrow> 'k \<Rightarrow> bool" where
  "flag m k = (map_of m k = Some True)"

definition try_to_output :: "slot \<Rightarrow> Pb \<Rightarrow> Pb \<times> PbAction list" where
  "try_to_output sl pb =
     (if flag (pbs_block_output pb) sl then (pb, [])
      else (case map_of (pbs_pending_blocks pb) sl of
              None \<Rightarrow> (pb, [])
            | Some block \<Rightarrow>
                if map_of (pbs_pending_certificates pb) sl = None \<and> \<not> flag (pbs_block2_send pb) (fst sl) then (pb, [])
                else (pb\<lparr>pbs_block_output := AList.update sl True (pbs_block_output pb)\<rparr>, [OutputBlock block])))"

definition pb_broadcast_block :: "Header \<Rightarrow> Pb \<Rightarrow> Pb" where
  "pb_broadcast_block block pb = store_block_msg block pb"

text \<open>The vote is not signed yet; the node signs it when it sends it.\<close>

definition unsigned_vote :: "Digest \<Rightarrow> Round \<Rightarrow> PublicKey \<Rightarrow> PublicKey \<Rightarrow> WahooVotePhase \<Rightarrow> Vote" where
  "unsigned_vote block_id round origin author phase =
     \<lparr>v_id = block_id, v_round = round, v_voter_round = round, v_origin = origin, v_author = author,
      v_wahoo_phase = Some phase, v_signature = default_signature\<rparr>"

definition pb_handle_block :: "CryptoLib \<Rightarrow> Header \<Rightarrow> Pb \<Rightarrow> Pb \<times> PbAction list" where
  "pb_handle_block lib block pb =
     (if is_pbc_vote_complete block then (pb, [])
      else (let sl = (h_round block, h_author block);
                pb1 = store_block_msg block pb;
                vote = SendVote (h_author block)
                  (unsigned_vote (header_digest lib block) (h_round block) (h_author block) (pbs_name pb) PhasePbc)
            in if map_of (pbs_pending_certificates pb1) sl \<noteq> None
               then (case try_to_output sl pb1 of (pb2, out) \<Rightarrow> (pb2, vote # out))
               else (pb1, [vote])))"

definition pb_handle_certificate :: "Certificate \<Rightarrow> Pb \<Rightarrow> Pb \<times> PbAction list" where
  "pb_handle_certificate certificate pb =
     (let sl = (cert_round certificate, cert_origin certificate);
          pb1 = pb\<lparr>pbs_pending_blocks := AList.update sl (header certificate) (pbs_pending_blocks pb)\<rparr>
      in try_to_output sl (pb_store_certificate certificate pb1))"

definition pb_handle_vote :: "Vote \<Rightarrow> Pb \<Rightarrow> Pb \<times> PbAction list" where
  "pb_handle_vote vote pb =
     (let sl = (v_round vote, v_origin vote)
      in case map_of (pbs_pending_blocks pb) sl of
           None \<Rightarrow> (pb, [])
         | Some h \<Rightarrow>
             (let agg = (case map_of (pbs_pending_vote pb) sl of None \<Rightarrow> wahoo_votes_aggregator_new | Some a \<Rightarrow> a)
              in case wahoo_votes_append (pbs_committee pb) h agg vote of
                   (agg', result) \<Rightarrow>
                     (let pb1 = pb\<lparr>pbs_pending_vote := AList.update sl agg' (pbs_pending_vote pb)\<rparr>
                      in case result of
                           Inr (Some (QuorumPbc cert)) \<Rightarrow>
                             (let (pb2, sent) =
                                (if flag (pbs_block2_send pb1) (v_round vote) then (pb1, [])
                                 else (pb_store_certificate cert (pb1\<lparr>pbs_block2_send := AList.update (v_round vote) True (pbs_block2_send pb1)\<rparr>),
                                       [BroadcastCertificate cert]))
                              in case try_to_output sl pb2 of (pb3, out) \<Rightarrow> (pb3, sent @ out))
                         | _ \<Rightarrow> (pb1, []))))"

datatype PbInput =
    OwnBlock Header
  | PbBlock Header
  | PbCertificate Certificate
  | PbVote Vote

definition pb_step :: "CryptoLib \<Rightarrow> PbInput \<Rightarrow> Pb \<Rightarrow> Pb \<times> PbAction list" where
  "pb_step lib input pb =
     (case input of
        OwnBlock block \<Rightarrow> (pb_broadcast_block block pb, [])
      | PbBlock block \<Rightarrow> pb_handle_block lib block pb
      | PbCertificate certificate \<Rightarrow> pb_handle_certificate certificate pb
      | PbVote vote \<Rightarrow> pb_handle_vote vote pb)"

fun pb_run :: "CryptoLib \<Rightarrow> PbInput list \<Rightarrow> Pb \<Rightarrow> Pb \<times> PbAction list" where
  "pb_run lib [] pb = (pb, [])"
| "pb_run lib (input # inputs) pb =
     (case pb_step lib input pb of (pb1, actions) \<Rightarrow>
        (case pb_run lib inputs pb1 of (pb2, rest) \<Rightarrow> (pb2, actions @ rest)))"

section \<open>What an output rests on\<close>

lemma wahoo_votes_append_votes:
  assumes "wahoo_votes_append c h agg v = (agg', r)"
  shows "set (pb_votes (phase_bucket p agg')) \<subseteq> insert v (set (pb_votes (phase_bucket p agg)))"
    and "r = Inr (Some q) \<Longrightarrow> \<exists>p. votes (wahoo_quorum_inner q) = pb_votes (phase_bucket p agg')"
proof -
  have bucket: "set (pb_votes b') \<subseteq> insert v (set (pb_votes b)) \<and> (rb = Inr (Some vs) \<longrightarrow> vs = pb_votes b')"
    if "bucket_append c t b v = (b', rb)" for t b b' rb vs
    using that by (auto simp: bucket_append_def Let_def split: if_splits)
  have "agg' = agg \<and> (\<exists>e. r = Inl e) \<or> (\<exists>p t b rb. bucket_append c t (phase_bucket p agg) v = (b, rb) \<and>
      agg' = set_phase_bucket p b agg \<and>
      r = rbind rb (\<lambda>ov. Inr (map_option (\<lambda>vs. phase_quorum p \<lparr>header = h, votes = vs\<rparr>) ov)))"
  proof (cases "\<exists>p. vote_for h p v")
    case False
    with assms show ?thesis
      unfolding wahoo_votes_append_def vote_for_def by (cases "v_wahoo_phase v") (auto split: if_splits)
  next
    case True
    then obtain p where p: "vote_for h p v" by blast
    define t where "t = (if p = PhaseTf then sum_list (map (stake c) (keys_of (authorities c))) else quorum_threshold c)"
    obtain b rb where "bucket_append c t (phase_bucket p agg) v = (b, rb)" by fastforce
    with assms p show ?thesis
      by (intro disjI2 exI [of _ p] exI [of _ t] exI [of _ b] exI [of _ rb])
        (simp add: wahoo_votes_append_def vote_for_def Let_def t_def [symmetric] del: map_map)
  qed
  moreover have "set (pb_votes (phase_bucket p agg')) \<subseteq> insert v (set (pb_votes (phase_bucket p agg))) \<and>
      (r = Inr (Some q) \<longrightarrow> votes (wahoo_quorum_inner q) = pb_votes (phase_bucket p' agg'))"
    if "bucket_append c t (phase_bucket p' agg) v = (b, rb)" "agg' = set_phase_bucket p' b agg"
      "r = rbind rb (\<lambda>ov. Inr (map_option (\<lambda>vs. phase_quorum p' \<lparr>header = h, votes = vs\<rparr>) ov))" for p' t b rb
    using that bucket [OF that(1)] by (cases rb) auto
  ultimately show "set (pb_votes (phase_bucket p agg')) \<subseteq> insert v (set (pb_votes (phase_bucket p agg)))"
    and "r = Inr (Some q) \<Longrightarrow> \<exists>p. votes (wahoo_quorum_inner q) = pb_votes (phase_bucket p agg')" by blast+
qed

text \<open>
  A block is justified by the inputs when a certificate for it arrived, or votes for it that
  reach the threshold of the phase.
\<close>

definition pb_justified :: "Committee \<Rightarrow> PbInput set \<Rightarrow> Header \<Rightarrow> bool" where
  "pb_justified c seen b \<longleftrightarrow>
     (\<exists>cert. PbCertificate cert \<in> seen \<and> header cert = b) \<or>
     (\<exists>vs. PbVote ` set vs \<subseteq> seen \<and> distinct (map v_author vs) \<and> (\<forall>v \<in> set vs. vote_for b PhasePbc v) \<and>
        phase_threshold c PhasePbc \<le> sum (nstake c) (v_author ` set vs))"

fun output_slots :: "PbAction list \<Rightarrow> slot list" where
  "output_slots [] = []"
| "output_slots (OutputBlock b # acts) = (h_round b, h_author b) # output_slots acts"
| "output_slots (_ # acts) = output_slots acts"

lemma output_slots_append [simp]: "output_slots (xs @ ys) = output_slots xs @ output_slots ys"
  by (induction xs rule: output_slots.induct) auto

lemma in_output_slots: "OutputBlock b \<in> set acts \<Longrightarrow> (h_round b, h_author b) \<in> set (output_slots acts)"
  by (induction acts rule: output_slots.induct) auto

definition votes_gathered :: "Committee \<Rightarrow> PbInput set \<Rightarrow> Header \<Rightarrow> WahooVotesAggregator \<Rightarrow> bool" where
  "votes_gathered c seen h agg \<longleftrightarrow> wahoo_votes_ok c h agg \<and> (\<forall>p. PbVote ` set (pb_votes (phase_bucket p agg)) \<subseteq> seen)"

text \<open>
  The aggregator of a slot counts votes for the pending block until the slot is output; a
  certificate may replace the block later, when the slot no longer matters.
\<close>

definition pb_inv :: "Committee \<Rightarrow> PbInput set \<Rightarrow> Pb \<Rightarrow> PbAction list \<Rightarrow> bool" where
  "pb_inv c seen pb out \<longleftrightarrow>
     pbs_committee pb = c \<and>
     (\<forall>sl h. map_of (pbs_pending_blocks pb) sl = Some h \<longrightarrow> (h_round h, h_author h) = sl) \<and>
     (\<forall>sl cert. map_of (pbs_pending_certificates pb) sl = Some cert \<longrightarrow> flag (pbs_block_output pb) sl) \<and>
     (\<forall>sl agg. map_of (pbs_pending_vote pb) sl = Some agg \<longrightarrow>
        (\<exists>h. map_of (pbs_pending_blocks pb) sl = Some h \<and>
           (\<not> flag (pbs_block_output pb) sl \<longrightarrow> votes_gathered c seen h agg))) \<and>
     (\<forall>sl. sl \<in> set (output_slots out) \<longleftrightarrow> flag (pbs_block_output pb) sl) \<and> distinct (output_slots out) \<and>
     (\<forall>b. OutputBlock b \<in> set out \<longrightarrow> pb_justified c seen b)"

lemma pb_invD:
  assumes "pb_inv c seen pb out"
  shows "pbs_committee pb = c"
    and "map_of (pbs_pending_blocks pb) sl = Some h \<Longrightarrow> (h_round h, h_author h) = sl"
    and "map_of (pbs_pending_certificates pb) sl = Some cert \<Longrightarrow> flag (pbs_block_output pb) sl"
    and "map_of (pbs_pending_vote pb) sl = Some agg \<Longrightarrow> \<exists>h. map_of (pbs_pending_blocks pb) sl = Some h \<and>
           (\<not> flag (pbs_block_output pb) sl \<longrightarrow> votes_gathered c seen h agg)"
    and "sl \<in> set (output_slots out) \<longleftrightarrow> flag (pbs_block_output pb) sl" and "distinct (output_slots out)"
    and "OutputBlock b \<in> set out \<Longrightarrow> pb_justified c seen b"
  using assms unfolding pb_inv_def by blast+

lemma pb_invI:
  assumes "pbs_committee pb = c"
    and "\<And>sl h. map_of (pbs_pending_blocks pb) sl = Some h \<Longrightarrow> (h_round h, h_author h) = sl"
    and "\<And>sl cert. map_of (pbs_pending_certificates pb) sl = Some cert \<Longrightarrow> flag (pbs_block_output pb) sl"
    and "\<And>sl agg. map_of (pbs_pending_vote pb) sl = Some agg \<Longrightarrow> \<exists>h. map_of (pbs_pending_blocks pb) sl = Some h \<and>
           (\<not> flag (pbs_block_output pb) sl \<longrightarrow> votes_gathered c seen h agg)"
    and "\<And>sl. sl \<in> set (output_slots out) \<longleftrightarrow> flag (pbs_block_output pb) sl" and "distinct (output_slots out)"
    and "\<And>b. OutputBlock b \<in> set out \<Longrightarrow> pb_justified c seen b"
  shows "pb_inv c seen pb out"
  using assms unfolding pb_inv_def by blast

lemma flag_update [simp]: "flag (AList.update k b m) k' = (if k' = k then b else flag m k')"
  by (simp add: flag_def)

lemma pb_justified_mono: "pb_justified c seen b \<Longrightarrow> seen \<subseteq> seen' \<Longrightarrow> pb_justified c seen' b"
  unfolding pb_justified_def by (blast intro: order_trans)

lemma votes_gathered_mono: "votes_gathered c seen h agg \<Longrightarrow> seen \<subseteq> seen' \<Longrightarrow> votes_gathered c seen' h agg"
  unfolding votes_gathered_def by (meson order_trans)

lemma pb_inv_mono:
  assumes "pb_inv c seen pb out" and "seen \<subseteq> seen'"
  shows "pb_inv c seen' pb out"
proof (rule pb_invI)
  fix sl agg
  assume "map_of (pbs_pending_vote pb) sl = Some agg"
  with pb_invD(4) [OF assms(1)] votes_gathered_mono [OF _ assms(2)]
  show "\<exists>h. map_of (pbs_pending_blocks pb) sl = Some h \<and>
      (\<not> flag (pbs_block_output pb) sl \<longrightarrow> votes_gathered c seen' h agg)" by blast
next
  fix b assume "OutputBlock b \<in> set out"
  then show "pb_justified c seen' b" using pb_invD(7) [OF assms(1)] pb_justified_mono [OF _ assms(2)] by blast
qed (use pb_invD(1-3,5,6) [OF assms(1)] in simp_all)

lemma pb_inv_new: "pb_inv c seen (pb_new name c) []"
  by (simp add: pb_inv_def pb_new_def flag_def)

lemma pb_inv_silent:
  "pb_inv c seen pb out \<Longrightarrow> output_slots acts = [] \<Longrightarrow> (\<And>b. OutputBlock b \<notin> set acts) \<Longrightarrow> pb_inv c seen pb (out @ acts)"
  by (auto simp: pb_inv_def)

lemma store_block_inv:
  assumes "pb_inv c seen pb out"
  shows "pb_inv c seen (store_block_msg b pb) out"
proof (rule pb_invI)
  fix sl agg
  assume "map_of (pbs_pending_vote (store_block_msg b pb)) sl = Some agg"
  with pb_invD(4) [OF assms, of sl agg]
  show "\<exists>h. map_of (pbs_pending_blocks (store_block_msg b pb)) sl = Some h \<and>
      (\<not> flag (pbs_block_output (store_block_msg b pb)) sl \<longrightarrow> votes_gathered c seen h agg)"
    by (auto simp: store_block_msg_def split: if_splits)
qed (use pb_invD [OF assms] in \<open>auto simp: store_block_msg_def split: if_splits\<close>)

text \<open>The one place that outputs: either the slot is flagged already, or its block is justified.\<close>

lemma try_to_output_inv:
  assumes "pb_inv c seen (pb\<lparr>pbs_pending_certificates := certs\<rparr>) out" and "try_to_output sl pb = (pb', acts)"
    and "\<And>sl'. sl' \<noteq> sl \<Longrightarrow> map_of (pbs_pending_certificates pb) sl' = map_of certs sl'"
    and "map_of (pbs_pending_blocks pb) sl = Some h"
    and "map_of (pbs_pending_certificates pb) sl \<noteq> None \<or> flag (pbs_block2_send pb) (fst sl)"
    and "\<not> flag (pbs_block_output pb) sl \<Longrightarrow> pb_justified c seen h"
  shows "pb_inv c seen pb' (out @ acts)"
proof -
  note D = pb_invD [OF assms(1), simplified]
  have pb': "pb' = (if flag (pbs_block_output pb) sl then pb
      else pb\<lparr>pbs_block_output := AList.update sl True (pbs_block_output pb)\<rparr>)"
    and acts: "acts = (if flag (pbs_block_output pb) sl then [] else [OutputBlock h])"
    using assms(2,4,5) by (auto simp: try_to_output_def split: if_splits)
  have slot: "(h_round h, h_author h) = sl" using D(2) [OF assms(4)] by simp
  show ?thesis
  proof (rule pb_invI)
    fix sl' cert
    assume "map_of (pbs_pending_certificates pb') sl' = Some cert"
    then show "flag (pbs_block_output pb') sl'"
      using D(3) [of sl' cert] assms(3) [of sl'] by (cases "sl' = sl") (auto simp: pb' split: if_splits)
  next
    fix sl' agg
    assume "map_of (pbs_pending_vote pb') sl' = Some agg"
    then show "\<exists>h. map_of (pbs_pending_blocks pb') sl' = Some h \<and>
        (\<not> flag (pbs_block_output pb') sl' \<longrightarrow> votes_gathered c seen h agg)"
      using D(4) [of sl' agg] by (auto simp: pb' split: if_splits)
  next
    fix sl' show "sl' \<in> set (output_slots (out @ acts)) \<longleftrightarrow> flag (pbs_block_output pb') sl'"
      using D(5) [of sl'] slot by (auto simp: pb' acts)
  next
    show "distinct (output_slots (out @ acts))" using D(5) [of sl] D(6) slot by (auto simp: acts)
  next
    fix b assume "OutputBlock b \<in> set (out @ acts)"
    then show "pb_justified c seen b" using D(7) assms(6) by (auto simp: acts split: if_splits)
  qed (use D(1,2) in \<open>auto simp: pb' split: if_splits\<close>)
qed

lemma pb_handle_block_inv:
  assumes "pb_inv c seen pb out" and "pb_handle_block lib b pb = (pb', acts)"
  shows "pb_inv c seen pb' (out @ acts)"
proof -
  let ?sl = "(h_round b, h_author b)"
  have inv: "pb_inv c seen (store_block_msg b pb) out" by (rule store_block_inv [OF assms(1)])
  have "try_to_output ?sl (store_block_msg b pb) = (store_block_msg b pb, [])"
    if "map_of (pbs_pending_certificates (store_block_msg b pb)) ?sl \<noteq> None"
    using that pb_invD(3) [OF inv, of ?sl] by (auto simp: try_to_output_def)
  then consider "pb' = pb" "acts = []" | v where "pb' = store_block_msg b pb" "acts = [SendVote (h_author b) v]"
    using assms(2) by (auto simp: pb_handle_block_def Let_def split: if_splits)
  then show ?thesis using assms(1) pb_inv_silent [OF inv] by cases auto
qed

lemma pb_handle_certificate_inv:
  assumes "pb_inv c seen pb out" and "pb_handle_certificate cert pb = (pb', acts)" and "PbCertificate cert \<in> seen"
  shows "pb_inv c seen pb' (out @ acts)"
proof -
  define sl where "sl = (cert_round cert, cert_origin cert)"
  define fl where "fl = flag (pbs_block_output pb) sl"
  note D = pb_invD [OF assms(1)]
  have slot: "(h_round (header cert), h_author (header cert)) = sl"
    by (simp add: sl_def cert_round_def cert_origin_def)
  have pb': "pb' = pb\<lparr>pbs_pending_blocks := AList.update sl (header cert) (pbs_pending_blocks pb),
      pbs_pending_certificates := AList.update sl cert (pbs_pending_certificates pb),
      pbs_block_output := (if fl then pbs_block_output pb else AList.update sl True (pbs_block_output pb))\<rparr>"
    and acts: "acts = (if fl then [] else [OutputBlock (header cert)])"
    using assms(2)
    by (auto simp: pb_handle_certificate_def pb_store_certificate_def try_to_output_def sl_def fl_def Let_def
        split: if_splits)
  have flags: "flag (pbs_block_output pb') sl' \<longleftrightarrow> sl' = sl \<or> flag (pbs_block_output pb) sl'" for sl'
    by (auto simp: pb' fl_def)
  show ?thesis
  proof (rule pb_invI)
    fix sl' cert'
    assume "map_of (pbs_pending_certificates pb') sl' = Some cert'"
    then have "sl' = sl \<or> map_of (pbs_pending_certificates pb) sl' = Some cert'" by (auto simp: pb' split: if_splits)
    then show "flag (pbs_block_output pb') sl'" unfolding flags using D(3) by blast
  next
    fix sl' agg
    assume "map_of (pbs_pending_vote pb') sl' = Some agg"
    with D(4) [of sl' agg] show "\<exists>h. map_of (pbs_pending_blocks pb') sl' = Some h \<and>
        (\<not> flag (pbs_block_output pb') sl' \<longrightarrow> votes_gathered c seen h agg)"
      unfolding flags by (auto simp: pb')
  next
    fix sl' show "sl' \<in> set (output_slots (out @ acts)) \<longleftrightarrow> flag (pbs_block_output pb') sl'"
      using D(5) [of sl'] slot unfolding flags by (auto simp: acts fl_def)
  next
    show "distinct (output_slots (out @ acts))" using D(5) [of sl] D(6) slot by (auto simp: acts fl_def)
  next
    fix b assume "OutputBlock b \<in> set (out @ acts)"
    then show "pb_justified c seen b" using D(7) assms(3) by (auto simp: acts pb_justified_def split: if_splits)
  next
    fix sl' h assume "map_of (pbs_pending_blocks pb') sl' = Some h"
    then show "(h_round h, h_author h) = sl'" using D(2) slot by (auto simp: pb' split: if_splits)
  qed (use D(1) in \<open>simp add: pb'\<close>)
qed

lemma votes_gathered_append:
  assumes "committee_ok c" and "votes_gathered c seen h agg" and "wahoo_votes_append c h agg v = (agg', r)"
    and "PbVote v \<in> seen"
  shows "votes_gathered c seen h agg'" and "r = Inr (Some (QuorumPbc cert)) \<Longrightarrow> pb_justified c seen h"
proof -
  note app = wahoo_votes_append_phases [OF assms(1) _ assms(3)] and vs = wahoo_votes_append_votes [OF assms(3)]
  show g: "votes_gathered c seen h agg'"
    using assms(2,4) app vs(1) unfolding votes_gathered_def by blast
  assume r: "r = Inr (Some (QuorumPbc cert))"
  then obtain p vs where p: "QuorumPbc cert = phase_quorum p \<lparr>header = h, votes = vs\<rparr>"
    "distinct (map v_author vs)" "\<forall>v \<in> set vs. vote_for h p v"
    "phase_threshold c p \<le> sum (nstake c) (v_author ` set vs)"
    using app assms(2) by (auto simp: votes_gathered_def)
  have "p = PhasePbc" "cert = \<lparr>header = h, votes = vs\<rparr>" using p(1) by (cases p; simp)+
  moreover have "PbVote ` set (votes cert) \<subseteq> seen" 
    using vs(2) [OF r] g unfolding votes_gathered_def by (metis wahoo_quorum_inner.simps(4))
  ultimately show "pb_justified c seen h" using p(2-4)
    unfolding pb_justified_def by (intro disjI2 exI [of _ vs]) simp
qed

lemma wahoo_quorum_header:
  assumes "wahoo_votes_append c h agg v = (agg', Inr (Some q))"
  shows "header (wahoo_quorum_inner q) = h"
  using assms by (auto simp: wahoo_votes_append_def Let_def rbind_def split: if_splits option.splits prod.splits sum.splits)

lemma pb_handle_vote_inv:
  assumes "committee_ok c" and "pb_inv c seen pb out" and "pb_handle_vote v pb = (pb', acts)" and "PbVote v \<in> seen"
  shows "pb_inv c seen pb' (out @ acts)"
proof (cases "map_of (pbs_pending_blocks pb) (v_round v, v_origin v)")
  case None
  with assms(2,3) show ?thesis by (simp add: pb_handle_vote_def Let_def)
next
  case (Some h)
  define sl where "sl = (v_round v, v_origin v)"
  note D = pb_invD [OF assms(2)]
  have h: "map_of (pbs_pending_blocks pb) sl = Some h" using Some by (simp add: sl_def)
  have slot: "(h_round h, h_author h) = sl" by (rule D(2) [OF h])
  define agg where "agg = (case map_of (pbs_pending_vote pb) sl of None \<Rightarrow> wahoo_votes_aggregator_new | Some a \<Rightarrow> a)"
  obtain agg' r where app: "wahoo_votes_append c h agg v = (agg', r)" by fastforce
  define pb1 where "pb1 = pb\<lparr>pbs_pending_vote := AList.update sl agg' (pbs_pending_vote pb)\<rparr>"
  have g: "votes_gathered c seen h agg" if u: "\<not> flag (pbs_block_output pb) sl"
  proof (cases "map_of (pbs_pending_vote pb) sl")
    case None
    have "phase_bucket p wahoo_votes_aggregator_new = phase_bucket_default" for p
      by (cases p) (simp_all add: wahoo_votes_aggregator_new_def)
    with None show ?thesis
      using wahoo_votes_new_ok [OF assms(1)] by (simp add: agg_def votes_gathered_def phase_bucket_default_def)
  next
    case (Some a)
    with D(4) [OF Some] h u show ?thesis by (simp add: agg_def)
  qed
  note step = votes_gathered_append [OF assms(1) g app assms(4)]
  have inv1: "pb_inv c seen pb1 out"
  proof (rule pb_invI)
    fix sl' a
    assume "map_of (pbs_pending_vote pb1) sl' = Some a"
    then show "\<exists>h. map_of (pbs_pending_blocks pb1) sl' = Some h \<and>
        (\<not> flag (pbs_block_output pb1) sl' \<longrightarrow> votes_gathered c seen h a)"
      using D(4) [of sl' a] h step(1) by (cases "sl' = sl") (auto simp: pb1_def)
  qed (use D in \<open>auto simp: pb1_def\<close>)
  consider cert where "r = Inr (Some (QuorumPbc cert))" | "pb' = pb1" "acts = []"
    using assms(3) app h D(1) unfolding pb_handle_vote_def Let_def sl_def [symmetric]
    by (auto simp: agg_def [symmetric] pb1_def [symmetric] split: sum.splits option.splits WahooQuorum.splits)
  then show ?thesis
  proof cases
    case (1 cert)
    have cert: "(cert_round cert, cert_origin cert) = sl"
      using wahoo_quorum_header [of c h agg v agg' "QuorumPbc cert"] app 1 slot
      by (simp add: cert_round_def cert_origin_def)
    define sent where "sent = flag (pbs_block2_send pb1) (v_round v)"
    define pb2 where "pb2 = (if sent then pb1 else pb_store_certificate cert
        (pb1\<lparr>pbs_block2_send := AList.update (v_round v) True (pbs_block2_send pb1)\<rparr>))"
    have "pb_handle_vote v pb =
        (case try_to_output sl pb2 of (pb3, out) \<Rightarrow> (pb3, (if sent then [] else [BroadcastCertificate cert]) @ out))"
      using app h D(1) 1 unfolding pb_handle_vote_def Let_def sl_def [symmetric]
      by (simp add: agg_def [symmetric] pb2_def pb1_def sent_def split: prod.split)
    then obtain acts' where out: "try_to_output sl pb2 = (pb', acts')"
      and acts: "acts = (if sent then [] else [BroadcastCertificate cert]) @ acts'"
      using assms(3) by (auto split: prod.splits)
    have "pb_inv c seen pb' ((out @ (if sent then [] else [BroadcastCertificate cert])) @ acts')"
    proof (rule try_to_output_inv [OF _ out])
      show "pb_inv c seen (pb2\<lparr>pbs_pending_certificates := pbs_pending_certificates pb1\<rparr>)
          (out @ (if sent then [] else [BroadcastCertificate cert]))"
        using inv1 by (intro pb_inv_silent) (auto simp: pb2_def pb_store_certificate_def pb_inv_def)
    qed (use h cert step(2) 1 sent_def in \<open>auto simp: pb2_def pb1_def pb_store_certificate_def sl_def\<close>)
    then show ?thesis by (simp add: acts)
  qed (use inv1 in simp)
qed

lemma pb_step_inv:
  assumes "committee_ok c" and "pb_inv c seen pb out" and "pb_step lib i pb = (pb', acts)" and "i \<in> seen"
  shows "pb_inv c seen pb' (out @ acts)"
  using assms store_block_inv [of c seen pb out] pb_handle_block_inv [of c seen pb out lib]
    pb_handle_certificate_inv [of c seen pb out] pb_handle_vote_inv [of c seen pb out]
  by (cases i) (auto simp: pb_step_def pb_broadcast_block_def)

lemma pb_run_inv:
  assumes "committee_ok c" and "pb_run lib inputs pb = (pb', acts)" and "pb_inv c seen pb out" and "set inputs \<subseteq> seen"
  shows "pb_inv c seen pb' (out @ acts)"
  using assms(2-4)
proof (induction inputs arbitrary: pb out acts)
  case (Cons i inputs)
  then obtain pb1 acts1 acts2 where "pb_step lib i pb = (pb1, acts1)" "pb_run lib inputs pb1 = (pb', acts2)"
    "acts = acts1 @ acts2"
    by (auto split: prod.splits)
  with Cons.IH [of pb1 acts2 "out @ acts1"] pb_step_inv [OF assms(1) Cons.prems(2)] Cons.prems(3) show ?case by simp
qed simp

text \<open>
  Provable broadcast outputs each block once and with a proof.  Whatever blocks, votes and
  certificates a node receives, it outputs at most one block for each round and author, and
  each block it outputs is the header of a certificate it received, or has a quorum of
  received votes of distinct authors for exactly that block.
\<close>

theorem pb_outputs_justified_once:
  assumes "committee_ok c" and "pb_run lib inputs (pb_new name c) = (pb, acts)"
  shows "distinct (output_slots acts) \<and> (\<forall>b. OutputBlock b \<in> set acts \<longrightarrow> pb_justified c (set inputs) b)"
  using pb_run_inv [OF assms pb_inv_new subset_refl] by (auto simp: pb_inv_def)

definition pbc_block :: "PublicKey \<Rightarrow> Header" where
  "pbc_block a = (demo_header a 2 [])\<lparr>h_wahoo_tag := Some Pbc\<rparr>"

definition pbc_vote :: "PublicKey \<Rightarrow> PublicKey \<Rightarrow> Vote" where
  "pbc_vote a k = unsigned_vote (Digest (key_word a)) 2 a k PhasePbc"

text \<open>The first authority broadcasts its block and receives the votes of the three others.\<close>

lemmas pb_demo_simps = pb_new_def pb_step_def pb_broadcast_block_def store_block_msg_def pb_handle_block_def
  pb_handle_vote_def pb_store_certificate_def try_to_output_def wahoo_votes_append_def bucket_append_def
  phase_bucket_default_def wahoo_votes_aggregator_new_def pbc_block_def pbc_vote_def unsigned_vote_def
  demo_header_def default_header_def flag_def is_pbc_vote_complete_def cert_round_def cert_origin_def Let_def
  demo_keys_def word_le_nat_alt

lemma pbc_demo_run:
  "snd (pb_run demo_lib [OwnBlock (pbc_block (PublicKey 1)), PbVote (pbc_vote (PublicKey 1) (PublicKey 2)),
     PbVote (pbc_vote (PublicKey 1) (PublicKey 3)), PbVote (pbc_vote (PublicKey 1) (PublicKey 4))]
     (pb_new (PublicKey 1) demo_committee)) =
   [BroadcastCertificate \<lparr>header = pbc_block (PublicKey 1),
      votes = map (pbc_vote (PublicKey 1)) [PublicKey 2, PublicKey 3, PublicKey 4]\<rparr>,
    OutputBlock (pbc_block (PublicKey 1))]"
  by (simp add: pb_demo_simps)

theorem pb_outputs_justified_once_witness:
  "pb_justified demo_committee (set [OwnBlock (pbc_block (PublicKey 1)), PbVote (pbc_vote (PublicKey 1) (PublicKey 2)),
     PbVote (pbc_vote (PublicKey 1) (PublicKey 3)), PbVote (pbc_vote (PublicKey 1) (PublicKey 4))]) (pbc_block (PublicKey 1))"
  using pb_outputs_justified_once [OF demo_committee_thresholds(4) surjective_pairing [of "pb_run _ _ _"],
      of demo_lib "[OwnBlock (pbc_block (PublicKey 1)), PbVote (pbc_vote (PublicKey 1) (PublicKey 2)),
        PbVote (pbc_vote (PublicKey 1) (PublicKey 3)), PbVote (pbc_vote (PublicKey 1) (PublicKey 4))]" "PublicKey 1"]
  unfolding pbc_demo_run by auto

section \<open>Two nodes\<close>

text \<open>What reaches the broadcast from the network has passed the handler of the primary.\<close>

fun pb_routed :: "CryptoLib \<Rightarrow> Committee \<Rightarrow> PbInput \<Rightarrow> bool" where
  "pb_routed lib c (PbVote v) = (0 < stake c (v_author v))"
| "pb_routed lib c (PbCertificate cert) =
     (verify_wahoo_certificate lib c cert = Inr () \<and> v_wahoo_phase (hd (votes cert)) = Some PhasePbc)"
| "pb_routed lib c _ = True"

fun input_votes :: "PbInput \<Rightarrow> Vote set" where
  "input_votes (PbVote v) = {v}"
| "input_votes (PbCertificate cert) = set (votes cert)"
| "input_votes _ = {}"

lemma pb_justified_votes:
  assumes "committee_ok c" and "pb_justified c seen b" and "\<And>i. i \<in> seen \<Longrightarrow> pb_routed lib c i"
  obtains vs where "phase_votes c b PhasePbc vs" and "set vs \<subseteq> (\<Union>i \<in> seen. input_votes i)"
  using assms(2) unfolding pb_justified_def
proof (elim disjE exE conjE)
  fix cert
  assume cert: "PbCertificate cert \<in> seen" "header cert = b"
  with assms(3) have "verify_wahoo_certificate lib c cert = Inr ()" "v_wahoo_phase (hd (votes cert)) = Some PhasePbc"
    by fastforce+
  then have "phase_votes c b PhasePbc (votes cert)"
    using cert(2) by (elim verify_wahoo_certificate_votes [OF assms(1)]) simp
  with cert(1) show thesis by (intro that) force+
next
  fix vs
  assume vs: "PbVote ` set vs \<subseteq> seen" "distinct (map v_author vs)" "\<forall>v \<in> set vs. vote_for b PhasePbc v"
    "phase_threshold c PhasePbc \<le> sum (nstake c) (v_author ` set vs)"
  have "v_author v \<in> members c" if "v \<in> set vs" for v
    using that vs(1) assms(3) [of "PbVote v"] by (auto intro: stake_pos_member)
  with vs show thesis by (intro that) (auto simp: phase_votes_def image_subset_iff)
qed

lemma pb_justified_agree:
  assumes "committee_ok c" and "few_faulty c F" and "pb_justified c seen b" and "pb_justified c seen' b'"
    and "\<And>i. i \<in> seen \<union> seen' \<Longrightarrow> pb_routed lib c i"
    and "h_round b = h_round b'" and "h_author b = h_author b'"
    and "\<And>i i' v v'. i \<in> seen \<Longrightarrow> i' \<in> seen' \<Longrightarrow> v \<in> input_votes i \<Longrightarrow> v' \<in> input_votes i' \<Longrightarrow>
           v_author v = v_author v' \<Longrightarrow> v_author v \<in> members c - F \<Longrightarrow> vote_for b PhasePbc v \<Longrightarrow>
           vote_for b' PhasePbc v' \<Longrightarrow> v_id v = v_id v'"
  shows "h_id b = h_id b'"
proof -
  obtain vs where vs: "phase_votes c b PhasePbc vs" "set vs \<subseteq> (\<Union>i \<in> seen. input_votes i)"
    using pb_justified_votes [OF assms(1,3)] assms(5) by blast
  obtain vs' where vs': "phase_votes c b' PhasePbc vs'" "set vs' \<subseteq> (\<Union>i \<in> seen'. input_votes i)"
    using pb_justified_votes [OF assms(1,4)] assms(5) by blast
  show ?thesis
  proof (rule quorum_votes_unique [OF assms(1,2) phase_votes_quorum [OF assms(1) vs(1)]])
    show "quorum_votes c (h_id b') (h_round b) (h_author b) vs'"
      using phase_votes_quorum [OF assms(1) vs'(1)] assms(6,7) by simp
    fix v v'
    assume v: "v \<in> set vs" "v' \<in> set vs'" "v_author v = v_author v'" "v_author v \<notin> F"
    moreover have "vote_for b PhasePbc v" "vote_for b' PhasePbc v'" "v_author v \<in> members c"
      using vs(1) vs'(1) v by (auto simp: phase_votes_def)
    ultimately show "v_id v = v_id v'" using vs(2) vs'(2) assms(8) by blast
  qed
qed

section \<open>One certificate for a round\<close>

lemma pb_vote_quorum_round:
  assumes "wahoo_votes_append c h agg v = (agg', Inr (Some (QuorumPbc cert)))"
  shows "cert_round cert = v_round v"
proof -
  have "h_round h = v_round v"
    using assms by (auto simp: wahoo_votes_append_def split: if_splits)
  with wahoo_quorum_header [OF assms] show ?thesis by (simp add: cert_round_def)
qed

lemma try_to_output_sends:
  "try_to_output sl pb = (pb', acts) \<Longrightarrow> BroadcastCertificate cert \<notin> set acts \<and> pbs_block2_send pb' = pbs_block2_send pb"
  by (auto simp: try_to_output_def split: if_splits option.splits)

lemma pb_handle_vote_sends:
  assumes "pb_handle_vote v pb = (pb', acts)"
  shows "(flag (pbs_block2_send pb) r \<longrightarrow> flag (pbs_block2_send pb') r) \<and>
    (BroadcastCertificate cert \<in> set acts \<longrightarrow> \<not> flag (pbs_block2_send pb) (cert_round cert) \<and>
       flag (pbs_block2_send pb') (cert_round cert))"
proof -
  have "(flag (pbs_block2_send pb) r \<longrightarrow> flag (pbs_block2_send pb') r) \<and>
    (BroadcastCertificate cert \<in> set acts \<longrightarrow> \<not> flag (pbs_block2_send pb) (v_round v) \<and>
       flag (pbs_block2_send pb') (v_round v) \<and> cert_round cert = v_round v)"
    using assms unfolding pb_handle_vote_def Let_def
    by (auto simp: pb_store_certificate_def dest: try_to_output_sends pb_vote_quorum_round
        split: option.splits prod.splits sum.splits WahooQuorum.splits if_splits)
  then show ?thesis by auto
qed

lemma pb_step_sends:
  assumes "pb_step lib i pb = (pb', acts)"
  shows "(flag (pbs_block2_send pb) r \<longrightarrow> flag (pbs_block2_send pb') r) \<and>
    (BroadcastCertificate cert \<in> set acts \<longrightarrow> \<not> flag (pbs_block2_send pb) (cert_round cert) \<and>
       flag (pbs_block2_send pb') (cert_round cert))"
proof (cases i)
  case (PbVote v)
  with assms show ?thesis using pb_handle_vote_sends [of v pb pb' acts] by (simp add: pb_step_def)
qed (use assms in \<open>auto simp: pb_step_def pb_broadcast_block_def store_block_msg_def pb_handle_block_def
    pb_handle_certificate_def pb_store_certificate_def Let_def dest: try_to_output_sends
    split: if_splits prod.splits\<close>)

lemma pb_run_keeps_flag:
  "pb_run lib inputs pb = (pb', acts) \<Longrightarrow> flag (pbs_block2_send pb) r \<Longrightarrow> flag (pbs_block2_send pb') r"
proof (induction inputs arbitrary: pb acts)
  case (Cons i inputs)
  then obtain pb1 acts1 acts2 where "pb_step lib i pb = (pb1, acts1)" "pb_run lib inputs pb1 = (pb', acts2)"
    by (auto split: prod.splits)
  with Cons.IH [of pb1 acts2] pb_step_sends [of lib i pb pb1 acts1 r] Cons.prems(2) show ?case by blast
qed simp

lemma pb_run_sends:
  assumes "pb_run lib inputs pb = (pb', acts)"
  shows "BroadcastCertificate cert \<in> set acts \<longrightarrow> \<not> flag (pbs_block2_send pb) (cert_round cert) \<and>
    flag (pbs_block2_send pb') (cert_round cert)"
  using assms
proof (induction inputs arbitrary: pb acts)
  case (Cons i inputs)
  then obtain pb1 acts1 acts2 where s: "pb_step lib i pb = (pb1, acts1)" "pb_run lib inputs pb1 = (pb', acts2)"
    "acts = acts1 @ acts2"
    by (auto split: prod.splits)
  from Cons.IH [OF s(2)] pb_run_keeps_flag [OF s(2), of "cert_round cert"]
    pb_step_sends [OF s(1), of "cert_round cert" cert] show ?case unfolding s(3) by auto
qed simp

text \<open>
  C39. The certificate of a node's own block can be suppressed.  The flag that a certificate was
  sent is kept for the round and not for the author, and votes for any known block are
  counted: once a node has broadcast a certificate of some round, of whatever author, it
  broadcasts no other certificate of that round.
\<close>

theorem pb_certificate_suppressed:
  assumes "pb_run lib before (pb_new name c) = (pb, sent)" and "BroadcastCertificate cert \<in> set sent"
    and "pb_run lib after pb = (pb', sent')" and "BroadcastCertificate cert' \<in> set sent'"
  shows "cert_round cert' \<noteq> cert_round cert"
  using pb_run_sends [OF assms(1), of cert] pb_run_sends [OF assms(3), of cert'] assms(2,4) by auto

text \<open>
  The second authority forwards the votes it got for its own block to the first one, whose
  own block then reaches its quorum: the first authority outputs it, and only the
  certificate of the second authority was ever sent.
\<close>

definition replayed :: "PbInput list" where
  "replayed = [OwnBlock (pbc_block (PublicKey 1)), PbBlock (pbc_block (PublicKey 2)),
     PbVote (pbc_vote (PublicKey 2) (PublicKey 2)), PbVote (pbc_vote (PublicKey 2) (PublicKey 3)),
     PbVote (pbc_vote (PublicKey 2) (PublicKey 4))]"

definition own_votes :: "PbInput list" where
  "own_votes = map (PbVote \<circ> pbc_vote (PublicKey 1)) [PublicKey 1, PublicKey 3, PublicKey 4]"

lemma replayed_run:
  defines "pb \<equiv> fst (pb_run demo_lib replayed (pb_new (PublicKey 1) demo_committee))"
  shows "BroadcastCertificate \<lparr>header = pbc_block (PublicKey 2),
           votes = map (pbc_vote (PublicKey 2)) [PublicKey 2, PublicKey 3, PublicKey 4]\<rparr>
         \<in> set (snd (pb_run demo_lib replayed (pb_new (PublicKey 1) demo_committee)))"
    and "OutputBlock (pbc_block (PublicKey 1)) \<in> set (snd (pb_run demo_lib own_votes pb))"
  by (simp_all add: pb_def replayed_def own_votes_def pb_demo_simps)

theorem pb_certificate_suppressed_witness:
  "OutputBlock (pbc_block (PublicKey 1)) \<in> set (snd (pb_run demo_lib own_votes
      (fst (pb_run demo_lib replayed (pb_new (PublicKey 1) demo_committee))))) \<and>
   \<not> (\<exists>vs. BroadcastCertificate \<lparr>header = pbc_block (PublicKey 1), votes = vs\<rparr> \<in>
      set (snd (pb_run demo_lib own_votes (fst (pb_run demo_lib replayed (pb_new (PublicKey 1) demo_committee))))))"
  using replayed_run(2) pb_certificate_suppressed [OF surjective_pairing replayed_run(1) surjective_pairing]
  unfolding cert_round_def by (fastforce simp: pbc_block_def demo_header_def)

end
