(* ===== verification/Wahoo_State.thy ===== *)
theory Wahoo_State
  imports Proposer Wahoo_Pb
begin

text \<open>
  The state of a Wahoo node (\<^verbatim>\<open>primary/src/wahoo/node.rs\<close>) and the operations that only read or
  write it: the stores, the reception pool and the leader link, the checks of a vote, of a
  Done proof and of a block's parents, and the construction of a block.

  A nested map of the code, from a round to a map from an authority, is a map from the pair;
  \<open>level\<close> reads the inner map of a round, and since the code never stores an empty inner map,
  a round is a key of the outer one when its level is not empty.  The order in which a
  \<^verbatim>\<open>HashMap\<close> is iterated is unspecified, so it is a parameter of the model (\<open>ne_slot_order\<close>,
  \<open>ne_level_order\<close>, \<open>ne_share_order\<close>).  The list \<open>wn_events\<close> is what the node hands to the
  signature service, the network and the consensus channel, in order.
\<close>

datatype WahooEvent =
    SignedVote Vote
  | SentVote PublicKey Vote
  | SentCertificate Certificate
  | SentHeader "SocketAddr list" Header
  | SentRecp RecpMessage
  | SentWahoo "PublicKey option" SignedWahoo
  | Committed Header

record WahooEnv =
  ne_crypto :: CryptoLib
  ne_secret :: "byte list"
  ne_bincode :: "WahooMessage \<Rightarrow> byte list"
  ne_attack :: "string option"
  ne_slot_order :: "(PublicKey \<times> Header) list \<Rightarrow> (PublicKey \<times> Header) list"
  ne_level_order :: "(Digest \<times> Header) list \<Rightarrow> (Digest \<times> Header) list"
  ne_share_order :: "(PublicKey \<times> byte list) list \<Rightarrow> (PublicKey \<times> byte list) list"

record WahooNode =
  wn_name :: PublicKey
  wn_committee :: Committee
  wn_authorities_sorted :: "PublicKey list"
  wn_node_num :: nat
  wn_quorum_num :: nat
  wn_consensus_protocol :: ConsensusProtocol
  wn_coin_committee :: CoinCommittee
  wn_elect_coin :: "ThresholdCoin option"
  wn_recp_threshold :: nat
  wn_header_size :: nat
  wn_byzantine :: ByzantineConfig
  wn_sent_votes :: "((Round \<times> PublicKey \<times> WahooVotePhase) \<times> Digest list) list"
  wn_dag :: "(slot \<times> Header) list"
  wn_pending_blocks :: "(slot \<times> Header) list"
  wn_blocks_by_digest :: "(Digest \<times> Header) list"
  wn_epbc_blocks :: "(slot \<times> Header) list"
  wn_epbc_votes :: "(slot \<times> WahooVotesAggregator) list"
  wn_epbc_delivered :: "(slot \<times> WahooVotePhase) list"
  wn_epbc_cert_sent :: "(Round \<times> PublicKey \<times> WahooVotePhase) list"
  wn_chain_round :: Round
  wn_chain_blocks :: "(Digest \<times> Header) list"
  wn_leader :: "(Round \<times> PublicKey) list"
  wn_done :: "(slot \<times> WahooDone) list"
  wn_elect :: "(slot \<times> byte list) list"
  wn_ready :: "((Round \<times> PublicKey \<times> PublicKey) \<times> byte list) list"
  wn_recp_pool :: "((Round \<times> Digest) \<times> (PublicKey \<times> RecpMessage) list) list"
  wn_round :: Round
  wn_move_round :: "(Round \<times> nat) list"
  wn_next_round_signaled :: "Round list"
  wn_leader_elect :: "Round list"
  wn_block_send :: "Round list"
  wn_done_send :: "Round list"
  wn_pb :: Pb
  wn_block_query :: nat
  wn_pending_digests :: "(Digest \<times> WorkerId) list"
  wn_events :: "WahooEvent list"

text \<open>The fields of a new node, with its coins.\<close>

definition wahoo_node_init ::
    "PublicKey \<Rightarrow> Committee \<Rightarrow> ConsensusProtocol \<Rightarrow> nat \<Rightarrow> ByzantineConfig \<Rightarrow> CoinCommittee \<Rightarrow> ThresholdCoin option \<Rightarrow> WahooNode" where
  "wahoo_node_init name c cp header_size byzantine cc elect_coin =
     (let authorities_sorted = sort (keys_of (authorities c));
          node_num = length authorities_sorted;
          quorum_num = (2 * node_num + 2) div 3
      in \<lparr>wn_name = name, wn_committee = c, wn_authorities_sorted = authorities_sorted, wn_node_num = node_num,
          wn_quorum_num = quorum_num, wn_consensus_protocol = cp, wn_coin_committee = cc, wn_elect_coin = elect_coin,
          wn_recp_threshold = recp_threshold node_num, wn_header_size = header_size, wn_byzantine = byzantine,
          wn_sent_votes = [], wn_dag = [], wn_pending_blocks = [], wn_blocks_by_digest = [], wn_epbc_blocks = [],
          wn_epbc_votes = [], wn_epbc_delivered = [], wn_epbc_cert_sent = [], wn_chain_round = 0,
          wn_chain_blocks = [], wn_leader = [], wn_done = [], wn_elect = [], wn_ready = [], wn_recp_pool = [],
          wn_round = 1, wn_move_round = [], wn_next_round_signaled = [], wn_leader_elect = [], wn_block_send = [],
          wn_done_send = [], wn_pb = pb_new name c, wn_block_query = 0, wn_pending_digests = [], wn_events = []\<rparr>)"

definition wahoo_node_new ::
    "WahooEnv \<Rightarrow> PublicKey \<Rightarrow> Committee \<Rightarrow> ConsensusProtocol \<Rightarrow> nat \<Rightarrow> ByzantineConfig \<Rightarrow> WahooNode outcome" where
  "wahoo_node_new env name c cp header_size byzantine =
     (let authorities_sorted = sort (keys_of (authorities c));
          node_num = length authorities_sorted
      in rbind (coin_committee_new authorities_sorted) (\<lambda>cc.
         rbind (if cp = CommonCoin
                then rbind (coin_from_committee (ne_crypto env) cc (coin_quorum_threshold node_num)) (\<lambda>tc. Inr (Some tc))
                else Inr None) (\<lambda>elect_coin.
         Inr (wahoo_node_init name c cp header_size byzantine cc elect_coin))))"

lemma wahoo_node_new_init:
  assumes "wahoo_node_new env name c cp hs byz = Inr s"
  obtains cc tc where "s = wahoo_node_init name c cp hs byz cc tc"
  using assms unfolding wahoo_node_new_def Let_def rbind_eq_Inr by blast

lemma wahoo_node_new_fields:
  assumes "wahoo_node_new env name c cp hs byz = Inr s"
  shows "wn_sent_votes s = []" "wn_events s = []" "wn_byzantine s = byz" "wn_round s = 1" "wn_next_round_signaled s = []"
    "wn_dag s = []" "wn_blocks_by_digest s = []" "wn_pending_blocks s = []" "wn_epbc_blocks s = []" "wn_pb s = pb_new name c"
    "wn_chain_blocks s = []" "wn_chain_round s = 0" "wn_name s = name" "wn_committee s = c" "wn_epbc_votes s = []"
proof -
  obtain cc tc where "s = wahoo_node_init name c cp hs byz cc tc" using assms by (rule wahoo_node_new_init)
  then show "wn_sent_votes s = []" "wn_events s = []" "wn_byzantine s = byz" "wn_round s = 1" "wn_next_round_signaled s = []"
    "wn_dag s = []" "wn_blocks_by_digest s = []" "wn_pending_blocks s = []" "wn_epbc_blocks s = []" "wn_pb s = pb_new name c"
    "wn_chain_blocks s = []" "wn_chain_round s = 0" "wn_name s = name" "wn_committee s = c" "wn_epbc_votes s = []"
    by (simp_all add: wahoo_node_init_def Let_def)
qed

definition level :: "Round \<Rightarrow> (slot \<times> 'v) list \<Rightarrow> (PublicKey \<times> 'v) list" where
  "level r m = map (\<lambda>((_, a), v). (a, v)) (filter (\<lambda>((r', _), _). r' = r) m)"

definition wahoo_emit :: "WahooEvent list \<Rightarrow> WahooNode \<Rightarrow> WahooNode" where
  "wahoo_emit es s = s\<lparr>wn_events := wn_events s @ es\<rparr>"

section \<open>Receptions and the leader link\<close>

definition handle_recp :: "RecpMessage \<Rightarrow> WahooNode \<Rightarrow> WahooNode" where
  "handle_recp recp s =
     (if stake (wn_committee s) (rm_author recp) = 0 then s
      else (let k = (rm_round recp, rm_block_hash recp);
                entry = (case map_of (wn_recp_pool s) k of None \<Rightarrow> [] | Some m \<Rightarrow> m)
            in if contains_key entry (rm_author recp) then s
               else s\<lparr>wn_recp_pool := AList.update k (AList.update (rm_author recp) recp entry) (wn_recp_pool s)\<rparr>))"

definition recp_buckets :: "Round \<Rightarrow> WahooNode \<Rightarrow> (Digest \<times> (PublicKey \<times> RecpMessage) list) list" where
  "recp_buckets prev s =
     sort_key fst (map (\<lambda>((_, h), entries). (h, entries)) (filter (\<lambda>((r, _), _). r = prev) (wn_recp_pool s)))"

definition authors_stake :: "Committee \<Rightarrow> (PublicKey \<times> 'v) list \<Rightarrow> Stake" where
  "authors_stake c m = sum_list (map (stake c) (keys_of m))"

text \<open>Pass 1: the first block, in the order of the digests, whose shares combine.\<close>

fun exclusive_commit ::
    "WahooEnv \<Rightarrow> WahooNode \<Rightarrow> Round \<Rightarrow> (Digest \<times> (PublicKey \<times> RecpMessage) list) list \<Rightarrow> LeaderLink option" where
  "exclusive_commit env s prev [] = None"
| "exclusive_commit env s prev ((h, entries) # buckets) =
     (if authors_stake (wn_committee s) entries \<ge> validity_threshold (wn_committee s)
      then (case combine_recp_shares (ne_crypto env) (wn_authorities_sorted s) (wn_recp_threshold s) prev h
                   (ne_share_order env (map (\<lambda>(a, recp). (a, rm_share recp)) entries)) of
              Some proof_bytes \<Rightarrow> Some \<lparr>ll_hash = Some h, ll_proof = ExclusiveCommit proof_bytes\<rparr>
            | None \<Rightarrow> exclusive_commit env s prev buckets)
      else exclusive_commit env s prev buckets)"

text \<open>Pass 2: one reception of each author, the one of the smallest digest.\<close>

definition add_author :: "(PublicKey \<times> RecpMessage) list \<Rightarrow> PublicKey \<times> RecpMessage \<Rightarrow> (PublicKey \<times> RecpMessage) list" where
  "add_author m e = (if contains_key m (fst e) then m else m @ [e])"

definition per_author :: "(Digest \<times> (PublicKey \<times> RecpMessage) list) list \<Rightarrow> (PublicKey \<times> RecpMessage) list" where
  "per_author buckets = foldl add_author [] (concat (map snd buckets))"

definition build_leader_link :: "WahooEnv \<Rightarrow> Round \<Rightarrow> WahooNode \<Rightarrow> LeaderLink option" where
  "build_leader_link env round s =
     (if round < 3 \<or> round mod 2 = 0 then None
      else (let prev = round - 2; buckets = recp_buckets prev s
            in if buckets = [] then None
               else (let c = wn_committee s;
                         f_plus_1 = validity_threshold c;
                         total = sum_list (map (stake c) (keys_of (authorities c)));
                         n_minus_f = total - f_plus_1 + 1
                     in case exclusive_commit env s prev buckets of
                          Some ll \<Rightarrow> Some ll
                        | None \<Rightarrow>
                            (let pa = per_author buckets
                             in if authors_stake c pa \<ge> n_minus_f
                                then Some \<lparr>ll_hash = None, ll_proof = NoCommit (sort_key rm_author (values_of pa))\<rparr>
                                else None))))"

fun self_recps :: "WahooEnv \<Rightarrow> Round \<Rightarrow> Header list \<Rightarrow> WahooNode \<Rightarrow> WahooNode" where
  "self_recps env prev_round [] s = s"
| "self_recps env prev_round (block # blocks) s =
     (let block_hash = header_digest (ne_crypto env) block
      in case make_recp_share (ne_crypto env) (wn_authorities_sorted s) (wn_recp_threshold s) (wn_name s) prev_round block_hash of
           None \<Rightarrow> self_recps env prev_round blocks s
         | Some share \<Rightarrow>
             (let recp = \<lparr>rm_block_hash = block_hash, rm_round = prev_round, rm_author = wn_name s, rm_share = share\<rparr>
              in self_recps env prev_round blocks (wahoo_emit [SentRecp recp] (handle_recp recp s))))"

definition broadcast_self_recps :: "WahooEnv \<Rightarrow> Round \<Rightarrow> WahooNode \<Rightarrow> WahooNode" where
  "broadcast_self_recps env prev_round s =
     self_recps env prev_round (values_of (ne_slot_order env (level prev_round (wn_dag s)))) s"

section \<open>Signed messages and votes\<close>

definition sign_wahoo :: "WahooEnv \<Rightarrow> WahooMessage \<Rightarrow> SignedWahoo" where
  "sign_wahoo env msg =
     \<lparr>sw_msg = msg, sw_sig = sig_new (ne_crypto env) (wahoo_digest (ne_crypto env) (ne_bincode env msg)) (ne_secret env)\<rparr>"

definition should_send_vote :: "Round \<Rightarrow> PublicKey \<Rightarrow> WahooVotePhase \<Rightarrow> Digest \<Rightarrow> WahooNode \<Rightarrow> WahooNode \<times> bool" where
  "should_send_vote round origin phase block_id s =
     (let seen = (case map_of (wn_sent_votes s) (round, origin, phase) of None \<Rightarrow> [] | Some ds \<Rightarrow> ds)
      in if block_id \<in> set seen then (s, False)
         else if seen \<noteq> [] \<and> \<not> allows_multiple_votes (wn_byzantine s) then (s, False)
         else (s\<lparr>wn_sent_votes := AList.update (round, origin, phase) (block_id # seen) (wn_sent_votes s)\<rparr>, True))"

definition sign_vote :: "WahooEnv \<Rightarrow> Vote \<Rightarrow> Vote" where
  "sign_vote env vote = vote\<lparr>v_signature := sig_new (ne_crypto env) (vote_digest (ne_crypto env) vote) (ne_secret env)\<rparr>"

definition send_vote :: "PublicKey \<Rightarrow> Vote \<Rightarrow> WahooNode \<Rightarrow> WahooNode outcome" where
  "send_vote target vote s =
     (case committee_primary (wn_committee s) target of
        Inl _ \<Rightarrow> Inl (ExpectFailed ''Wahoo send target not in committee'')
      | Inr _ \<Rightarrow> Inr (wahoo_emit [SentVote target vote] s))"

section \<open>Stores\<close>

definition bump_round :: "Round \<Rightarrow> WahooNode \<Rightarrow> WahooNode" where
  "bump_round r s =
     s\<lparr>wn_move_round := AList.update r (Suc (case map_of (wn_move_round s) r of None \<Rightarrow> 0 | Some n \<Rightarrow> n)) (wn_move_round s)\<rparr>"

definition store_done :: "WahooDone \<Rightarrow> WahooNode \<Rightarrow> WahooNode" where
  "store_done d s =
     (if contains_key (wn_done s) (wd_round d, wd_block_sender d) then s
      else bump_round (wd_round d) (s\<lparr>wn_done := AList.update (wd_round d, wd_block_sender d) d (wn_done s)\<rparr>))"

definition store_ready :: "WahooReady \<Rightarrow> WahooNode \<Rightarrow> WahooNode" where
  "store_ready r s =
     s\<lparr>wn_ready := AList.update (wr_round r, wr_block_sender r, wr_ready_sender r) (wr_partial_sig r) (wn_ready s)\<rparr>"

definition store_elect :: "WahooElect \<Rightarrow> WahooNode \<Rightarrow> WahooNode" where
  "store_elect e s = s\<lparr>wn_elect := AList.update (we_round e, we_sender e) (we_partial_sig e) (wn_elect s)\<rparr>"

definition store_pending_block :: "Header \<Rightarrow> WahooNode \<Rightarrow> WahooNode" where
  "store_pending_block b s = s\<lparr>wn_pending_blocks := AList.update (h_round b, h_author b) b (wn_pending_blocks s)\<rparr>"

text \<open>The signatures of a Done: each is on the hash itself, or a fast or second slow vote for it.\<close>

definition done_vote :: "WahooDone \<Rightarrow> PublicKey \<Rightarrow> WahooVotePhase \<Rightarrow> Signature \<Rightarrow> Vote" where
  "done_vote d author phase sig =
     \<lparr>v_id = wd_hash d, v_round = wd_round d, v_voter_round = wd_round d, v_origin = wd_block_sender d, v_author = author,
      v_wahoo_phase = Some phase, v_signature = sig\<rparr>"

fun verify_done_entries ::
    "CryptoLib \<Rightarrow> Committee \<Rightarrow> WahooDone \<Rightarrow> PublicKey list \<Rightarrow> (PublicKey \<times> byte list) list \<Rightarrow> PublicKey list option" where
  "verify_done_entries lib c d used [] = Some used"
| "verify_done_entries lib c d used ((author, bytes) # entries) =
     (if stake c author = 0 \<or> author \<in> set used then None
      else (case sig_from_bytes lib bytes of
              Inl _ \<Rightarrow> None
            | Inr sig \<Rightarrow>
                if sig_verify lib sig (wd_hash d) author = Inr () \<or>
                   sig_verify lib sig (vote_digest lib (done_vote d author PhaseTf sig)) author = Inr () \<or>
                   sig_verify lib sig (vote_digest lib (done_vote d author PhaseTs2 sig)) author = Inr ()
                then verify_done_entries lib c d (author # used) entries else None))"

definition verify_done_proof :: "WahooEnv \<Rightarrow> WahooDone \<Rightarrow> WahooNode \<Rightarrow> bool" where
  "verify_done_proof env d s =
     (if stake (wn_committee s) (wd_done_sender d) = 0 \<or> stake (wn_committee s) (wd_block_sender d) = 0 then False
      else (case verify_done_entries (ne_crypto env) (wn_committee s) d [] (wd_done d) of
              None \<Rightarrow> False
            | Some used \<Rightarrow> length used \<ge> wn_quorum_num s))"

section \<open>Blocks\<close>

definition select_previous_blocks :: "WahooEnv \<Rightarrow> Round \<Rightarrow> WahooNode \<Rightarrow> Digest list" where
  "select_previous_blocks env round s =
     (if round = 0 then [] else btree_set (map (header_digest (ne_crypto env)) (values_of (level round (wn_dag s)))))"

definition check_whether_can_add_to_dag :: "Header \<Rightarrow> WahooNode \<Rightarrow> bool" where
  "check_whether_can_add_to_dag block s =
     (if h_round block = 0 then True
      else if h_parents block = [] then level (h_round block - 1) (wn_dag s) = []
      else list_all (\<lambda>d. case map_of (wn_blocks_by_digest s) d of
                           Some parent \<Rightarrow> h_round parent = h_round block - 1 | None \<Rightarrow> False) (h_parents block))"

definition new_block :: "WahooEnv \<Rightarrow> Round \<Rightarrow> Digest list \<Rightarrow> WahooNode \<Rightarrow> WahooNode \<times> Header" where
  "new_block env round parents s =
     (let (n, _) = select_digests (wn_header_size s) 0 0 (wn_pending_digests s);
          payload = payload_map (take n (wn_pending_digests s));
          payload = (if ne_attack env = Some ''invalid_payload''
                     then btree_iter (AList.update (fake_digest round (wn_name s)) 0 payload) else payload);
          h = default_header\<lparr>h_author := wn_name s, h_round := round, h_parents := parents, h_payload := payload,
                h_wahoo_tag := Some (if round mod 2 = 0 then Pbc else EpbcTf),
                h_leader_link := (if round mod 2 = 1 then build_leader_link env round s else None),
                h_benchmark_invalid_payload := invalidates_payload (wn_byzantine s)\<rparr>
      in (s\<lparr>wn_pending_digests := drop n (wn_pending_digests s)\<rparr>, h\<lparr>h_id := header_digest (ne_crypto env) h\<rparr>))"

end
