(* ===== verification/Wahoo_Commit.thy ===== *)
theory Wahoo_Commit
  imports Wahoo_State
begin

text \<open>
  The commit pipeline of a Wahoo node (\<^verbatim>\<open>try_to_commit_leader\<close> and what it calls in
  \<^verbatim>\<open>primary/src/wahoo/node.rs\<close>): the walk back to linked earlier leaders and the commit of the
  ancestors of a leader, level by level.  The code keeps the levels in a map \<^verbatim>\<open>frontier\<close> keyed
  by the round, of which it only reads the level it has just written.
\<close>

definition queue_parent :: "WahooNode \<Rightarrow> (Digest \<times> Header) list \<Rightarrow> Digest \<Rightarrow> (Digest \<times> Header) list" where
  "queue_parent s nxt d =
     (case map_of (wn_blocks_by_digest s) d of
        None \<Rightarrow> nxt
      | Some pb \<Rightarrow> if contains_key (wn_chain_blocks s) d then nxt else AList.update d pb nxt)"

definition commit_entry :: "Round \<Rightarrow> PublicKey \<Rightarrow> Digest \<Rightarrow> Header \<Rightarrow> WahooNode \<Rightarrow> WahooNode" where
  "commit_entry round leader h b s =
     (if contains_key (wn_chain_blocks s) h then s
      else (let s1 = s\<lparr>wn_chain_blocks := AList.update h b (wn_chain_blocks s)\<rparr>
            in if h_round b = round \<and> h_author b = leader then s1 else wahoo_emit [Committed b] s1))"

fun commit_entries ::
    "Round \<Rightarrow> PublicKey \<Rightarrow> Round \<Rightarrow> (Digest \<times> Header) list \<Rightarrow> (Digest \<times> Header) list \<Rightarrow> WahooNode
     \<Rightarrow> (Digest \<times> Header) list \<times> WahooNode" where
  "commit_entries round leader r [] nxt s = (nxt, s)"
| "commit_entries round leader r ((h, b) # es) nxt s =
     (let s1 = commit_entry round leader h b s
      in commit_entries round leader r es (if r > 0 then foldl (queue_parent s1) nxt (h_parents b) else nxt) s1)"

fun commit_levels :: "WahooEnv \<Rightarrow> Round \<Rightarrow> PublicKey \<Rightarrow> Round \<Rightarrow> (Digest \<times> Header) list \<Rightarrow> WahooNode \<Rightarrow> WahooNode" where
  "commit_levels env round leader 0 lv s = snd (commit_entries round leader 0 (ne_level_order env lv) [] s)"
| "commit_levels env round leader (Suc r) lv s =
     (case commit_entries round leader (Suc r) (ne_level_order env lv) [] s of
        (nxt, s1) \<Rightarrow> if nxt = [] then s1 else commit_levels env round leader r nxt s1)"

definition commit_ancestor_blocks :: "WahooEnv \<Rightarrow> Round \<Rightarrow> WahooNode \<Rightarrow> WahooNode" where
  "commit_ancestor_blocks env round s =
     (case map_of (wn_leader s) round of
        None \<Rightarrow> s
      | Some leader \<Rightarrow>
          (case map_of (wn_dag s) (round, leader) of
             None \<Rightarrow> s
           | Some leader_block \<Rightarrow>
               commit_levels env round leader round [(header_digest (ne_crypto env) leader_block, leader_block)] s))"

section \<open>Earlier leaders\<close>

definition note_leader :: "WahooNode \<Rightarrow> Header \<Rightarrow> (Round \<times> PublicKey) list \<Rightarrow> (Round \<times> PublicKey) list" where
  "note_leader s b valid =
     (if h_round b mod 2 = 1 \<and> map_of (wn_leader s) (h_round b) = Some (h_author b)
      then AList.update (h_round b) (h_author b) valid else valid)"

definition add_parent :: "WahooNode \<Rightarrow> (Digest \<times> Header) list \<Rightarrow> Digest \<Rightarrow> (Digest \<times> Header) list" where
  "add_parent s nxt d = (case map_of (wn_blocks_by_digest s) d of None \<Rightarrow> nxt | Some pb \<Rightarrow> AList.update d pb nxt)"

fun find_valid_levels ::
    "WahooNode \<Rightarrow> Round \<Rightarrow> (Digest \<times> Header) list \<Rightarrow> (Round \<times> PublicKey) list \<Rightarrow> (Round \<times> PublicKey) list" where
  "find_valid_levels s 0 lv valid = valid"
| "find_valid_levels s (Suc r) lv valid =
     (if Suc r \<le> wn_chain_round s then valid
      else find_valid_levels s r (foldl (\<lambda>nxt (_, b). foldl (add_parent s) nxt (h_parents b)) [] lv)
             (foldl (\<lambda>v (_, b). note_leader s b v) valid lv))"

definition find_valid_leader :: "WahooEnv \<Rightarrow> Round \<Rightarrow> WahooNode \<Rightarrow> (Round \<times> PublicKey) list" where
  "find_valid_leader env round s =
     (case map_of (wn_leader s) round of
        None \<Rightarrow> []
      | Some leader \<Rightarrow>
          (case map_of (wn_dag s) (round, leader) of
             None \<Rightarrow> []
           | Some block \<Rightarrow> find_valid_levels s round [(header_digest (ne_crypto env) block, block)] []))"

definition commit_ancestor_leader :: "WahooEnv \<Rightarrow> (Round \<times> PublicKey) list \<Rightarrow> Round \<Rightarrow> WahooNode \<Rightarrow> WahooNode" where
  "commit_ancestor_leader env valid r s =
     (if \<not> contains_key valid r then s
      else (case map_of (wn_leader s) r of
              None \<Rightarrow> s
            | Some leader \<Rightarrow>
                (case map_of (wn_dag s) (r, leader) of
                   None \<Rightarrow> s
                 | Some block \<Rightarrow>
                     commit_ancestor_blocks env r (wahoo_emit [Committed block]
                       (s\<lparr>wn_chain_round := r,
                          wn_chain_blocks := AList.update (header_digest (ne_crypto env) block) block (wn_chain_blocks s)\<rparr>)))))"

definition try_to_commit_ancestor_leader :: "WahooEnv \<Rightarrow> Round \<Rightarrow> WahooNode \<Rightarrow> WahooNode" where
  "try_to_commit_ancestor_leader env round s =
     (if round < 2 \<or> round - 2 \<le> wn_chain_round s then s
      else (let valid = find_valid_leader env round s
            in fold (commit_ancestor_leader env valid) (filter odd [1..<round]) s))"

definition try_to_commit_leader :: "WahooEnv \<Rightarrow> Round \<Rightarrow> WahooNode \<Rightarrow> WahooNode" where
  "try_to_commit_leader env round s =
     (if round \<le> wn_chain_round s then s
      else (case map_of (wn_leader s) round of
              None \<Rightarrow> s
            | Some leader \<Rightarrow>
                if \<not> contains_key (wn_done s) (round, leader) then s
                else (case map_of (wn_dag s) (round, leader) of
                        None \<Rightarrow> s
                      | Some block \<Rightarrow>
                          (let s1 = try_to_commit_ancestor_leader env round s;
                               s2 = s1\<lparr>wn_chain_round := round,
                                       wn_chain_blocks := AList.update (header_digest (ne_crypto env) block) block
                                                            (wn_chain_blocks s1)\<rparr>
                           in wahoo_emit [Committed block] (commit_ancestor_blocks env round s2)))))"

section \<open>What the commit functions change\<close>

definition same_dag :: "WahooNode \<Rightarrow> WahooNode \<Rightarrow> bool" where
  "same_dag s s' \<longleftrightarrow> (\<exists>cr cb new. s' = s\<lparr>wn_chain_round := cr, wn_chain_blocks := cb, wn_events := wn_events s @ map Committed new\<rparr>)"

lemma same_dagI:
  "s' = s\<lparr>wn_chain_round := cr, wn_chain_blocks := cb, wn_events := wn_events s @ map Committed new\<rparr> \<Longrightarrow> same_dag s s'"
  by (auto simp: same_dag_def)

lemma same_dag_refl [simp, intro]: "same_dag s s"
  by (rule same_dagI [where cr = "wn_chain_round s" and cb = "wn_chain_blocks s" and new = "[]"]) simp

lemma same_dag_trans [trans]: "same_dag s t \<Longrightarrow> same_dag t u \<Longrightarrow> same_dag s u"
  unfolding same_dag_def
proof (elim exE)
  fix cr cb new cr' cb' new'
  assume "t = s\<lparr>wn_chain_round := cr, wn_chain_blocks := cb, wn_events := wn_events s @ map Committed new\<rparr>"
    and "u = t\<lparr>wn_chain_round := cr', wn_chain_blocks := cb', wn_events := wn_events t @ map Committed new'\<rparr>"
  then have "u = s\<lparr>wn_chain_round := cr', wn_chain_blocks := cb', wn_events := wn_events s @ map Committed (new @ new')\<rparr>"
    by simp
  then show "\<exists>cr cb new. u = s\<lparr>wn_chain_round := cr, wn_chain_blocks := cb, wn_events := wn_events s @ map Committed new\<rparr>"
    by blast
qed

lemma same_dag_fields:
  assumes "same_dag s s'"
  shows "wn_dag s' = wn_dag s" "wn_blocks_by_digest s' = wn_blocks_by_digest s" "wn_leader s' = wn_leader s"
    "wn_done s' = wn_done s" "wn_round s' = wn_round s" "wn_sent_votes s' = wn_sent_votes s" "wn_byzantine s' = wn_byzantine s"
    "wn_name s' = wn_name s" "wn_committee s' = wn_committee s" "wn_pending_blocks s' = wn_pending_blocks s"
    "wn_epbc_blocks s' = wn_epbc_blocks s" "wn_epbc_votes s' = wn_epbc_votes s" "wn_pb s' = wn_pb s"
    "wn_next_round_signaled s' = wn_next_round_signaled s" "wn_move_round s' = wn_move_round s" "wn_quorum_num s' = wn_quorum_num s"
  using assms by (auto simp: same_dag_def)

section \<open>One level\<close>

text \<open>The blocks a node has handed to the consensus layer, in order.\<close>

fun committed_headers :: "WahooEvent list \<Rightarrow> Header list" where
  "committed_headers [] = []"
| "committed_headers (Committed b # es) = b # committed_headers es"
| "committed_headers (_ # es) = committed_headers es"

lemma committed_headers_append [simp]: "committed_headers (xs @ ys) = committed_headers xs @ committed_headers ys"
  by (induction xs rule: committed_headers.induct) auto

lemma committed_headers_map [simp]: "committed_headers (map Committed bs) = bs"
  by (induction bs) auto

definition committed :: "WahooNode \<Rightarrow> Header list" where
  "committed s = committed_headers (wn_events s)"

text \<open>A block of some class whose parents, if it is above round zero, are all known, one round below.\<close>

definition parents_linked :: "(Header \<Rightarrow> bool) \<Rightarrow> WahooNode \<Rightarrow> Header \<Rightarrow> bool" where
  "parents_linked B s b \<longleftrightarrow> B b \<and> (0 < h_round b \<longrightarrow>
     (\<forall>d \<in> set (h_parents b). \<exists>pb. map_of (wn_blocks_by_digest s) d = Some pb \<and> h_round pb = h_round b - 1))"

definition level_ok :: "CryptoLib \<Rightarrow> (Header \<Rightarrow> bool) \<Rightarrow> Round \<Rightarrow> WahooNode \<Rightarrow> (Digest \<times> Header) list \<Rightarrow> bool" where
  "level_ok lib B r s lv \<longleftrightarrow> (\<forall>(d, b) \<in> set lv. header_digest lib b = d \<and> h_round b = r \<and> parents_linked B s b)"

lemma linked_same: "wn_blocks_by_digest s' = wn_blocks_by_digest s \<Longrightarrow> parents_linked B s' = parents_linked B s"
  by (simp add: parents_linked_def fun_eq_iff)

lemma queue_parents:
  "fst ` set (foldl (queue_parent s) nxt ds) = fst ` set nxt \<union>
     {d \<in> set ds. map_of (wn_blocks_by_digest s) d \<noteq> None \<and> map_of (wn_chain_blocks s) d = None}"
proof (induction ds arbitrary: nxt)
  case (Cons d ds)
  have "fst ` set (queue_parent s nxt d) = fst ` set nxt \<union>
      (if map_of (wn_blocks_by_digest s) d \<noteq> None \<and> map_of (wn_chain_blocks s) d = None then {d} else {})"
    by (auto simp: queue_parent_def contains_key_def keys_update split: option.splits)
  then show ?case unfolding foldl_Cons Cons.IH by auto
qed simp

lemma queue_parent_known:
  "(d, b) \<in> set (queue_parent s nxt d') \<Longrightarrow> (d, b) \<in> set nxt \<or> d = d' \<and> map_of (wn_blocks_by_digest s) d = Some b"
  by (auto simp: queue_parent_def split: option.splits if_splits dest!: subsetD [OF set_update_subset])

lemma queued_known:
  "(d, b) \<in> set (foldl (queue_parent s) nxt ds) \<Longrightarrow>
     (d, b) \<in> set nxt \<or> d \<in> set ds \<and> map_of (wn_blocks_by_digest s) d = Some b"
proof (induction ds arbitrary: nxt)
  case (Cons d' ds)
  then show ?case using Cons.IH [of "queue_parent s nxt d'"] queue_parent_known by fastforce
qed simp

lemma commit_entry_fields [simp]:
  "wn_blocks_by_digest (commit_entry round leader h b s) = wn_blocks_by_digest s"
  "map_of (wn_chain_blocks (commit_entry round leader h b s)) =
     (if map_of (wn_chain_blocks s) h = None then (map_of (wn_chain_blocks s))(h \<mapsto> b) else map_of (wn_chain_blocks s))"
  by (auto simp: commit_entry_def wahoo_emit_def contains_key_def Let_def fun_eq_iff)

lemma commit_entries_Cons:
  assumes "commit_entries round leader r ((h, b) # es) nxt s = (nxt', s')"
  obtains s1 nxt1 where "s1 = commit_entry round leader h b s" "nxt1 = (if r > 0 then foldl (queue_parent s1) nxt (h_parents b) else nxt)"
    "commit_entries round leader r es nxt1 s1 = (nxt', s')"
  using assms by (simp add: Let_def)

lemma commit_entries_digests:
  "commit_entries round leader r es nxt s = (nxt', s') \<Longrightarrow> wn_blocks_by_digest s' = wn_blocks_by_digest s"
proof (induction es arbitrary: nxt s)
  case (Cons e es)
  obtain h b where e: "e = (h, b)" by (cases e)
  from Cons.prems [unfolded e] show ?case by (rule commit_entries_Cons) (auto dest: Cons.IH)
qed simp

lemma commit_entries_dom:
  "commit_entries round leader r es nxt s = (nxt', s') \<Longrightarrow>
     dom (map_of (wn_chain_blocks s')) = dom (map_of (wn_chain_blocks s)) \<union> fst ` set es"
proof (induction es arbitrary: nxt s)
  case (Cons e es)
  obtain h b where e: "e = (h, b)" by (cases e)
  from Cons.prems [unfolded e] obtain s1 nxt1 where s1: "s1 = commit_entry round leader h b s"
    and run: "commit_entries round leader r es nxt1 s1 = (nxt', s')" by (rule commit_entries_Cons)
  have "dom (map_of (wn_chain_blocks s1)) = insert h (dom (map_of (wn_chain_blocks s)))"
    unfolding s1 commit_entry_fields(2) by auto
  then show ?case unfolding Cons.IH [OF run] by (auto simp: e)
qed simp

lemma commit_entries_chain:
  "commit_entries round leader r es nxt s = (nxt', s') \<Longrightarrow> map_of (wn_chain_blocks s') d = Some b \<Longrightarrow>
     map_of (wn_chain_blocks s) d = Some b \<or> (d, b) \<in> set es"
proof (induction es arbitrary: nxt s)
  case (Cons e es)
  obtain h b' where e: "e = (h, b')" by (cases e)
  from Cons.prems(1) [unfolded e] obtain s1 nxt1 where s1: "s1 = commit_entry round leader h b' s"
    and run: "commit_entries round leader r es nxt1 s1 = (nxt', s')" by (rule commit_entries_Cons)
  from Cons.IH [OF run Cons.prems(2)] show ?case by (auto simp: e s1 split: if_splits)
qed simp

lemma commit_entries_next:
  "commit_entries round leader r es nxt s = (nxt', s') \<Longrightarrow> (d, b) \<in> set nxt' \<Longrightarrow> (d, b) \<in> set nxt \<or>
     0 < r \<and> map_of (wn_blocks_by_digest s) d = Some b \<and> (\<exists>e \<in> set es. d \<in> set (h_parents (snd e)))"
proof (induction es arbitrary: nxt s)
  case (Cons e es)
  obtain h b' where e: "e = (h, b')" by (cases e)
  from Cons.prems(1) [unfolded e] obtain s1 nxt1 where s1: "s1 = commit_entry round leader h b' s"
    and n: "nxt1 = (if r > 0 then foldl (queue_parent s1) nxt (h_parents b') else nxt)"
    and run: "commit_entries round leader r es nxt1 s1 = (nxt', s')" by (rule commit_entries_Cons)
  have "(d, b) \<in> set nxt \<or> 0 < r \<and> map_of (wn_blocks_by_digest s) d = Some b \<and> d \<in> set (h_parents b')"
    if "(d, b) \<in> set nxt1" using that by (auto simp: n s1 dest: queued_known split: if_splits)
  with Cons.IH [OF run Cons.prems(2)] show ?case by (auto simp: e s1)
qed simp

lemma commit_entries_next_mono:
  "commit_entries round leader r es nxt s = (nxt', s') \<Longrightarrow> fst ` set nxt \<subseteq> fst ` set nxt'"
proof (induction es arbitrary: nxt s)
  case (Cons e es)
  obtain h b where e: "e = (h, b)" by (cases e)
  from Cons.prems [unfolded e] obtain s1 nxt1 where n: "nxt1 = (if r > 0 then foldl (queue_parent s1) nxt (h_parents b) else nxt)"
    and run: "commit_entries round leader r es nxt1 s1 = (nxt', s')" by (rule commit_entries_Cons)
  have "fst ` set nxt \<subseteq> fst ` set nxt1" by (auto simp: n queue_parents)
  with Cons.IH [OF run] show ?case by blast
qed simp

lemma commit_entries_parents:
  assumes "commit_entries round leader r es nxt s = (nxt', s')" and "level_ok lib B r s es" and "0 < r" and "(d, b) \<in> set es"
  shows "set (h_parents b) \<subseteq> dom (map_of (wn_chain_blocks s')) \<union> fst ` set nxt'"
  using assms
proof (induction es arbitrary: nxt s)
  case (Cons e es)
  obtain h b' where e: "e = (h, b')" by (cases e)
  from Cons.prems(1) [unfolded e] obtain s1 nxt1 where s1: "s1 = commit_entry round leader h b' s"
    and n: "nxt1 = (if r > 0 then foldl (queue_parent s1) nxt (h_parents b') else nxt)"
    and run: "commit_entries round leader r es nxt1 s1 = (nxt', s')" by (rule commit_entries_Cons)
  have ok: "level_ok lib B r s1 es" "parents_linked B s b'" "h_round b' = r"
    using Cons.prems(2) by (auto simp: level_ok_def e s1 linked_same [of "commit_entry round leader h b' s" s])
  show ?case
  proof (cases "(d, b) \<in> set es")
    case True
    with Cons.IH [OF run ok(1) Cons.prems(3)] show ?thesis by simp
  next
    case False
    with Cons.prems(4) have "b = b'" by (simp add: e)
    moreover have "set (h_parents b') \<subseteq> dom (map_of (wn_chain_blocks s1)) \<union> fst ` set nxt1"
      using ok(2,3) Cons.prems(3) by (auto simp: n queue_parents parents_linked_def s1 dom_def)
    moreover note commit_entries_next_mono [OF run] commit_entries_dom [OF run]
    ultimately show ?thesis by blast
  qed
qed simp

text \<open>The chain grew, and the blocks it gained were emitted, each once.\<close>

abbreviation chain_dom :: "WahooNode \<Rightarrow> Digest set" where
  "chain_dom s \<equiv> dom (map_of (wn_chain_blocks s))"

definition grown :: "CryptoLib \<Rightarrow> WahooNode \<Rightarrow> WahooNode \<Rightarrow> bool" where
  "grown lib s s' \<longleftrightarrow> (\<exists>cb new. s' = s\<lparr>wn_chain_blocks := cb, wn_events := wn_events s @ map Committed new\<rparr> \<and>
     map_of (wn_chain_blocks s) \<subseteq>\<^sub>m map_of cb \<and> header_digest lib ` set new = dom (map_of cb) - chain_dom s \<and>
     distinct (map (header_digest lib) new) \<and> (\<forall>b \<in> set new. map_of cb (header_digest lib b) = Some b))"

lemma grownI:
  assumes "s' = s\<lparr>wn_chain_blocks := cb, wn_events := wn_events s @ map Committed new\<rparr>"
    and "map_of (wn_chain_blocks s) \<subseteq>\<^sub>m map_of cb"
    and "header_digest lib ` set new = dom (map_of cb) - chain_dom s" and "distinct (map (header_digest lib) new)"
    and "\<forall>b \<in> set new. map_of cb (header_digest lib b) = Some b"
  shows "grown lib s s'"
  using assms unfolding grown_def by blast

lemma grown_refl [simp]: "grown lib s s"
  by (rule grownI [where cb = "wn_chain_blocks s" and new = "[]"]) simp_all

lemma grown_trans:
  assumes "grown lib s t" and "grown lib t u"
  shows "grown lib s u"
proof -
  obtain cb new where t: "t = s\<lparr>wn_chain_blocks := cb, wn_events := wn_events s @ map Committed new\<rparr>"
    "map_of (wn_chain_blocks s) \<subseteq>\<^sub>m map_of cb" "header_digest lib ` set new = dom (map_of cb) - chain_dom s"
    "distinct (map (header_digest lib) new)" "\<forall>b \<in> set new. map_of cb (header_digest lib b) = Some b"
    using assms(1) unfolding grown_def by blast
  obtain cb' new' where u: "u = t\<lparr>wn_chain_blocks := cb', wn_events := wn_events t @ map Committed new'\<rparr>"
    "map_of (wn_chain_blocks t) \<subseteq>\<^sub>m map_of cb'" "header_digest lib ` set new' = dom (map_of cb') - chain_dom t"
    "distinct (map (header_digest lib) new')" "\<forall>b \<in> set new'. map_of cb' (header_digest lib b) = Some b"
    using assms(2) unfolding grown_def by blast
  have d: "wn_chain_blocks t = cb" by (simp add: t(1))
  note le = t(2) u(2) [unfolded d]
  have sub: "chain_dom s \<subseteq> dom (map_of cb)" "dom (map_of cb) \<subseteq> dom (map_of cb')"
    by (rule map_le_implies_dom_le [OF le(1)], rule map_le_implies_dom_le [OF le(2)])
  show ?thesis
  proof (rule grownI [where cb = cb' and new = "new @ new'"])
    show "u = s\<lparr>wn_chain_blocks := cb', wn_events := wn_events s @ map Committed (new @ new')\<rparr>"
      unfolding u(1) by (simp add: t(1))
    show "map_of (wn_chain_blocks s) \<subseteq>\<^sub>m map_of cb'" by (rule map_le_trans [OF le])
    show "header_digest lib ` set (new @ new') = dom (map_of cb') - chain_dom s"
      unfolding set_append image_Un t(3) u(3) d using sub by blast
    show "distinct (map (header_digest lib) (new @ new'))" using t(3,4) u(3,4) d by auto
    show "\<forall>b \<in> set (new @ new'). map_of cb' (header_digest lib b) = Some b"
    proof
      fix b assume "b \<in> set (new @ new')"
      then consider "map_of cb (header_digest lib b) = Some b" | "map_of cb' (header_digest lib b) = Some b"
        using t(5) u(5) by auto
      then show "map_of cb' (header_digest lib b) = Some b"
      proof cases
        case 1
        with le(2) show ?thesis unfolding map_le_def by (metis domI)
      qed
    qed
  qed
qed

lemma grown_fields:
  assumes "grown lib s s'"
  shows "wn_blocks_by_digest s' = wn_blocks_by_digest s" and "wn_chain_round s' = wn_chain_round s" and "same_dag s s'"
    and "chain_dom s \<subseteq> chain_dom s'"
proof -
  obtain cb new where s': "s' = s\<lparr>wn_chain_blocks := cb, wn_events := wn_events s @ map Committed new\<rparr>"
    "map_of (wn_chain_blocks s) \<subseteq>\<^sub>m map_of cb" using assms unfolding grown_def by blast
  show "wn_blocks_by_digest s' = wn_blocks_by_digest s" "wn_chain_round s' = wn_chain_round s" "chain_dom s \<subseteq> chain_dom s'"
    using map_le_implies_dom_le [OF s'(2)] by (simp_all add: s'(1))
  show "same_dag s s'"
    by (rule same_dagI [where cr = "wn_chain_round s" and cb = cb and new = new]) (simp add: s'(1))
qed

lemma commit_entry_grown:
  assumes "header_digest lib b = h" and "h_round b \<noteq> round \<or> h \<in> chain_dom s"
  shows "grown lib s (commit_entry round leader h b s)"
proof (cases "h \<in> chain_dom s")
  case True
  then have "commit_entry round leader h b s = s" by (auto simp: commit_entry_def contains_key_def)
  then show ?thesis by simp
next
  case False
  show ?thesis
  proof (rule grownI [where cb = "AList.update h b (wn_chain_blocks s)" and new = "[b]"])
    show "commit_entry round leader h b s =
        s\<lparr>wn_chain_blocks := AList.update h b (wn_chain_blocks s), wn_events := wn_events s @ map Committed [b]\<rparr>"
      using False assms by (auto simp: commit_entry_def contains_key_def wahoo_emit_def Let_def)
  qed (use False assms in \<open>auto simp: update_conv' map_le_def\<close>)
qed

lemma commit_entries_grown:
  "commit_entries round leader r es nxt s = (nxt', s') \<Longrightarrow> level_ok lib B r s es \<Longrightarrow> r \<le> round \<Longrightarrow>
     r = round \<longrightarrow> fst ` set es \<subseteq> chain_dom s \<Longrightarrow> grown lib s s'"
proof (induction es arbitrary: nxt s)
  case (Cons e es)
  obtain h b where e: "e = (h, b)" by (cases e)
  from Cons.prems(1) [unfolded e] obtain s1 nxt1 where s1: "s1 = commit_entry round leader h b s"
    and run: "commit_entries round leader r es nxt1 s1 = (nxt', s')" by (rule commit_entries_Cons)
  have ok: "level_ok lib B r s1 es" "h_round b = r" "header_digest lib b = h"
    using Cons.prems(2) by (auto simp: level_ok_def e s1 linked_same [of "commit_entry round leader h b s" s])
  have g: "grown lib s s1"
    unfolding s1 by (rule commit_entry_grown) (use ok Cons.prems(4) in \<open>auto simp: e\<close>)
  have "r = round \<longrightarrow> fst ` set es \<subseteq> chain_dom s1"
    using Cons.prems(4) grown_fields(4) [OF g] unfolding e set_simps image_insert by blast
  from Cons.IH [OF run ok(1) Cons.prems(3) this] show ?case by (rule grown_trans [OF g])
qed simp

section \<open>All levels\<close>

definition blocks_ok :: "CryptoLib \<Rightarrow> (Header \<Rightarrow> bool) \<Rightarrow> WahooNode \<Rightarrow> bool" where
  "blocks_ok lib B s \<longleftrightarrow> (\<forall>d b. map_of (wn_blocks_by_digest s) d = Some b \<longrightarrow> header_digest lib b = d \<and> parents_linked B s b)"

definition chain_ok :: "CryptoLib \<Rightarrow> (Header \<Rightarrow> bool) \<Rightarrow> Round \<Rightarrow> WahooNode \<Rightarrow> bool" where
  "chain_ok lib B up s \<longleftrightarrow> (\<forall>d b. map_of (wn_chain_blocks s) d = Some b \<longrightarrow> header_digest lib b = d \<and> parents_linked B s b \<and> h_round b \<le> up)"

text \<open>
  The chain holds the parents of its blocks, except perhaps those on the level that is still to
  be committed and those of its blocks that are on this level.
\<close>

definition closed_except :: "(Digest \<times> Header) list \<Rightarrow> WahooNode \<Rightarrow> bool" where
  "closed_except lv s \<longleftrightarrow> (\<forall>d b. map_of (wn_chain_blocks s) d = Some b \<longrightarrow> (d, b) \<notin> set lv \<longrightarrow> 0 < h_round b \<longrightarrow>
     set (h_parents b) \<subseteq> chain_dom s \<union> fst ` set lv)"

lemma commit_entries_step:
  assumes "commit_entries round leader r es [] s = (nxt, s')" and "level_ok lib B r s es" and "r \<le> round"
    and "r = round \<longrightarrow> fst ` set es \<subseteq> dom (map_of (wn_chain_blocks s))"
    and "blocks_ok lib B s" and "chain_ok lib B round s" and "closed_except es s"
  shows "grown lib s s'" and "chain_ok lib B round s'" and "closed_except nxt s'"
    and "0 < r \<Longrightarrow> level_ok lib B (r - 1) s' nxt" and "r = 0 \<Longrightarrow> nxt = []"
proof -
  note same = linked_same [OF commit_entries_digests [OF assms(1)]]
  note dom = commit_entries_dom [OF assms(1)] and chain = commit_entries_chain [OF assms(1)]
  show "grown lib s s'" by (rule commit_entries_grown [OF assms(1-4)])
  show "chain_ok lib B round s'"
    unfolding chain_ok_def same
  proof (intro allI impI)
    fix d b assume "map_of (wn_chain_blocks s') d = Some b"
    from chain [OF this] show "header_digest lib b = d \<and> parents_linked B s b \<and> h_round b \<le> round"
      using assms(2,3,6) by (auto simp: chain_ok_def level_ok_def)
  qed
  show "closed_except nxt s'" unfolding closed_except_def
  proof (intro allI impI)
    fix d b
    assume b: "map_of (wn_chain_blocks s') d = Some b" "0 < h_round b"
    show "set (h_parents b) \<subseteq> chain_dom s' \<union> fst ` set nxt"
    proof (cases "(d, b) \<in> set es")
      case True
      moreover from this have "0 < r" using assms(2) b(2) by (auto simp: level_ok_def)
      ultimately show ?thesis using commit_entries_parents [OF assms(1,2)] by blast
    next
      case False
      with chain [OF b(1)] assms(7) b(2) have "set (h_parents b) \<subseteq> chain_dom s \<union> fst ` set es"
        by (simp add: closed_except_def)
      then show ?thesis unfolding dom by blast
    qed
  qed
  show "level_ok lib B (r - 1) s' nxt" if "0 < r"
    unfolding level_ok_def same
  proof (intro ballI, clarify)
    fix d b
    assume "(d, b) \<in> set nxt"
    from commit_entries_next [OF assms(1) this] obtain e where
      b: "map_of (wn_blocks_by_digest s) d = Some b" "e \<in> set es" "d \<in> set (h_parents (snd e))" by auto
    then have "h_round (snd e) = r" "parents_linked B s (snd e)" using assms(2) by (auto simp: level_ok_def)
    with b that have "h_round b = r - 1" by (auto simp: parents_linked_def)
    with b assms(5) show "header_digest lib b = d \<and> h_round b = r - 1 \<and> parents_linked B s b" by (auto simp: blocks_ok_def)
  qed
  show "nxt = []" if "r = 0"
    using commit_entries_next [OF assms(1)] that by (cases nxt) fastforce+
qed

lemma commit_levels_spec:
  assumes "\<And>lv. set (ne_level_order env lv) = set lv"
    and "level_ok lib B r s lv" and "r \<le> round" and "r = round \<longrightarrow> fst ` set lv \<subseteq> chain_dom s"
    and "blocks_ok lib B s" and "chain_ok lib B round s" and "closed_except lv s"
  shows "grown lib s (commit_levels env round leader r lv s) \<and> chain_ok lib B round (commit_levels env round leader r lv s) \<and>
    closed_except [] (commit_levels env round leader r lv s)"
  using assms(2-7)
proof (induction r arbitrary: lv s)
  case 0
  obtain nxt s1 where run: "commit_entries round leader 0 (ne_level_order env lv) [] s = (nxt, s1)" by fastforce
  have lv: "level_ok lib B 0 s (ne_level_order env lv)" "closed_except (ne_level_order env lv) s"
    using 0(1,6) by (simp_all add: level_ok_def closed_except_def assms(1))
  note step = commit_entries_step [OF run lv(1) 0(2) _ 0(4,5) lv(2)]
  from 0(3) step show ?case by (simp add: run assms(1))
next
  case (Suc r)
  obtain nxt s1 where run: "commit_entries round leader (Suc r) (ne_level_order env lv) [] s = (nxt, s1)" by fastforce
  have lv: "level_ok lib B (Suc r) s (ne_level_order env lv)" "closed_except (ne_level_order env lv) s"
    "Suc r = round \<longrightarrow> fst ` set (ne_level_order env lv) \<subseteq> chain_dom s"
    using Suc.prems(1,3,6) by (simp_all add: level_ok_def closed_except_def assms(1))
  note step = commit_entries_step [OF run lv(1) Suc.prems(2) lv(3) Suc.prems(4,5) lv(2)]
  have b1: "blocks_ok lib B s1"
    using Suc.prems(4) grown_fields(1) [OF step(1)] linked_same [OF grown_fields(1) [OF step(1)]] by (simp add: blocks_ok_def)
  show ?case
  proof (cases "nxt = []")
    case True
    with step show ?thesis by (simp add: run)
  next
    case False
    have "r \<le> round" "r = round \<longrightarrow> fst ` set nxt \<subseteq> chain_dom s1" using Suc.prems(2) by auto
    from Suc.IH [OF step(4) [simplified] this b1 step(2,3)] grown_trans [OF step(1)] False show ?thesis
      by (auto simp: run)
  qed
qed

text \<open>
  Committing the ancestors of a leader that is in the chain already: afterwards the chain is
  closed, and what it gained was emitted.
\<close>

lemma commit_ancestor_blocks_spec:
  assumes "\<And>lv. set (ne_level_order env lv) = set lv" and "lib = ne_crypto env"
    and "map_of (wn_leader s) round = Some leader" and "map_of (wn_dag s) (round, leader) = Some b"
    and "h_round b = round" and "parents_linked B s b" and "map_of (wn_chain_blocks s) (header_digest lib b) = Some b"
    and "blocks_ok lib B s" and "chain_ok lib B round s" and "closed_except [(header_digest lib b, b)] s"
  shows "grown lib s (commit_ancestor_blocks env round s) \<and> chain_ok lib B round (commit_ancestor_blocks env round s) \<and>
    closed_except [] (commit_ancestor_blocks env round s)"
proof -
  have "level_ok lib B round s [(header_digest lib b, b)]" using assms(5,6) by (simp add: level_ok_def)
  moreover have "fst ` set [(header_digest lib b, b)] \<subseteq> chain_dom s" using assms(7) by auto
  ultimately show ?thesis
    using commit_levels_spec [OF assms(1) _ order_refl _ assms(8-10), of leader] assms(2-4)
    by (simp add: commit_ancestor_blocks_def)
qed

section \<open>The commit invariant\<close>

text \<open>
  The digests of two blocks of the node that are equal are of blocks of one round.  Every block
  of the DAG is linked to known parents; every block of the chain is below its round, its
  parents are in the chain, and the chain is what was emitted, each block once.
\<close>

definition wahoo_commit_inv :: "CryptoLib \<Rightarrow> (Header \<Rightarrow> bool) \<Rightarrow> WahooNode \<Rightarrow> bool" where
  "wahoo_commit_inv lib B s \<longleftrightarrow> blocks_ok lib B s \<and>
     (\<forall>sl b. map_of (wn_dag s) sl = Some b \<longrightarrow> (h_round b, h_author b) = sl \<and> parents_linked B s b) \<and>
     chain_ok lib B (wn_chain_round s) s \<and> closed_except [] s \<and>
     header_digest lib ` set (committed s) = chain_dom s \<and> distinct (map (header_digest lib) (committed s)) \<and>
     (\<forall>b \<in> set (committed s). map_of (wn_chain_blocks s) (header_digest lib b) = Some b)"

definition digests_separate :: "CryptoLib \<Rightarrow> (Header \<Rightarrow> bool) \<Rightarrow> bool" where
  "digests_separate lib B \<longleftrightarrow> (\<forall>a b. B a \<longrightarrow> B b \<longrightarrow> header_digest lib a = header_digest lib b \<longrightarrow> h_round a = h_round b)"

text \<open>Committing one leader above the chain, emitted before or after its ancestors.\<close>

lemma leader_commit:
  assumes "wahoo_commit_inv lib B s" and "digests_separate lib B" and "\<And>lv. set (ne_level_order env lv) = set lv"
    and "lib = ne_crypto env" and "wn_chain_round s < r" and "map_of (wn_leader s) r = Some leader"
    and "map_of (wn_dag s) (r, leader) = Some b" and "pre @ post = [b]"
    and "s2 = s\<lparr>wn_chain_round := r, wn_chain_blocks := AList.update (header_digest lib b) b (wn_chain_blocks s),
                wn_events := wn_events s @ map Committed pre\<rparr>"
    and "t = wahoo_emit (map Committed post) (commit_ancestor_blocks env r s2)"
  shows "wahoo_commit_inv lib B t" and "wn_chain_round t = r" and "same_dag s t"
proof -
  let ?d = "header_digest lib b"
  have b: "parents_linked B s b" "h_round b = r" "B b"
    using assms(1,7) unfolding wahoo_commit_inv_def by (fastforce, fastforce, fastforce simp: parents_linked_def)
  have fresh: "?d \<notin> chain_dom s"
  proof
    assume "?d \<in> chain_dom s"
    then obtain b' where "map_of (wn_chain_blocks s) ?d = Some b'" by auto
    with assms(1) have "header_digest lib b' = ?d" "B b'" "h_round b' \<le> wn_chain_round s"
      by (auto simp: wahoo_commit_inv_def chain_ok_def parents_linked_def)
    with assms(2,5) b(2,3) show False unfolding digests_separate_def by (metis leD)
  qed
  have fields: "wn_blocks_by_digest s2 = wn_blocks_by_digest s" "wn_leader s2 = wn_leader s" "wn_dag s2 = wn_dag s"
    "map_of (wn_chain_blocks s2) = (map_of (wn_chain_blocks s))(?d \<mapsto> b)"
    by (auto simp: assms(9) update_conv' fun_eq_iff)
  have l2: "parents_linked B s2 = parents_linked B s" by (rule linked_same [OF fields(1)])
  have ok2: "blocks_ok lib B s2" using assms(1) by (simp add: wahoo_commit_inv_def blocks_ok_def l2 fields)
  have chain2: "chain_ok lib B r s2"
    using assms(1,5) b unfolding wahoo_commit_inv_def chain_ok_def l2 fields(4) by (fastforce split: if_splits)
  have closed2: "closed_except [(?d, b)] s2"
    using assms(1) unfolding wahoo_commit_inv_def closed_except_def fields(4) by (fastforce split: if_splits)
  define s3 where "s3 = commit_ancestor_blocks env r s2"
  have s3: "grown lib s2 s3" "chain_ok lib B r s3" "closed_except [] s3"
    using commit_ancestor_blocks_spec [OF assms(3,4), where s = s2 and round = r and leader = leader and b = b and B = B]
      assms(6,7) b ok2 chain2 closed2 by (simp_all add: fields l2 s3_def)
  obtain cb new where g: "s3 = s2\<lparr>wn_chain_blocks := cb, wn_events := wn_events s2 @ map Committed new\<rparr>"
    "map_of (wn_chain_blocks s2) \<subseteq>\<^sub>m map_of cb" "header_digest lib ` set new = dom (map_of cb) - chain_dom s2"
    "distinct (map (header_digest lib) new)" "\<forall>b \<in> set new. map_of cb (header_digest lib b) = Some b"
    using s3(1) unfolding grown_def by blast
  have t: "t = s\<lparr>wn_chain_round := r, wn_chain_blocks := cb, wn_events := wn_events s @ map Committed (pre @ new @ post)\<rparr>"
    unfolding assms(10) s3_def [symmetric] g(1) by (simp add: assms(9) wahoo_emit_def)
  show "wn_chain_round t = r" by (simp add: t)
  show "same_dag s t" by (rule same_dagI [OF t])
  have chain3: "wn_chain_blocks s3 = cb" "wn_blocks_by_digest s3 = wn_blocks_by_digest s" by (simp_all add: g(1) fields)
  have lt: "parents_linked B t = parents_linked B s" "parents_linked B s3 = parents_linked B s" by (rule linked_same; simp add: t chain3)+
  have old: "header_digest lib ` set (committed s) = chain_dom s" "distinct (map (header_digest lib) (committed s))"
    using assms(1) by (simp_all add: wahoo_commit_inv_def)
  have dom2: "chain_dom s2 = insert ?d (chain_dom s)" unfolding fields(4) by auto
  have new: "header_digest lib ` set (pre @ new @ post) = insert ?d (header_digest lib ` set new)"
    "distinct (map (header_digest lib) (pre @ new @ post)) = (?d \<notin> header_digest lib ` set new \<and> distinct (map (header_digest lib) new))"
    using assms(8) by (cases pre; force)+
  have com: "committed t = committed s @ pre @ new @ post" by (simp add: committed_def t del: map_append)
  have set: "header_digest lib ` set (committed t) = dom (map_of cb)"
    unfolding com set_append [of "committed s"] image_Un old(1) new(1) g(3) dom2
    using map_le_implies_dom_le [OF g(2)] dom2 by blast
  have vals: "map_of cb (header_digest lib b') = Some b'" if "b' \<in> set (committed t)" for b'
  proof -
    have "map_of (wn_chain_blocks s2) (header_digest lib b') = Some b'" if "b' \<notin> set new"
    proof -
      have "b' \<in> set (pre @ post) \<or> b' \<in> set (committed s)" using \<open>b' \<in> set (committed t)\<close> that by (auto simp: com)
      then show ?thesis
      proof
        assume "b' \<in> set (committed s)"
        then have "map_of (wn_chain_blocks s) (header_digest lib b') = Some b'" using assms(1) by (simp add: wahoo_commit_inv_def)
        with fresh show ?thesis by (auto simp: fields(4))
      qed (simp add: assms(8) fields(4))
    qed
    with g(2,5) show ?thesis unfolding map_le_def by (metis domI)
  qed
  have dist: "distinct (map (header_digest lib) (committed t))"
    unfolding com map_append [of _ "committed s"] distinct_append new(2) set_map new(1) old(1) g(3) dom2
    using old(2) g(4) fresh by blast
  show "wahoo_commit_inv lib B t"
    using assms(1) s3(2,3) set dist vals unfolding wahoo_commit_inv_def blocks_ok_def chain_ok_def closed_except_def lt chain3
    by (simp add: t)
qed

section \<open>Earlier leaders are above the chain\<close>

lemma add_parents_known:
  "(d, b) \<in> set (foldl (add_parent s) nxt ds) \<Longrightarrow>
     (d, b) \<in> set nxt \<or> d \<in> set ds \<and> map_of (wn_blocks_by_digest s) d = Some b"
proof (induction ds arbitrary: nxt)
  case (Cons d' ds)
  have "(d, b) \<in> set nxt \<or> d = d' \<and> map_of (wn_blocks_by_digest s) d = Some b" if "(d, b) \<in> set (add_parent s nxt d')"
    using that by (auto simp: add_parent_def split: option.splits dest!: subsetD [OF set_update_subset])
  with Cons.IH [of "add_parent s nxt d'"] Cons.prems show ?case by fastforce
qed simp

lemma add_level_known:
  "(d, b) \<in> set (foldl (\<lambda>nxt (_, b). foldl (add_parent s) nxt (h_parents b)) nxt lv) \<Longrightarrow>
     (d, b) \<in> set nxt \<or> map_of (wn_blocks_by_digest s) d = Some b \<and> (\<exists>e \<in> set lv. d \<in> set (h_parents (snd e)))"
proof (induction lv arbitrary: nxt)
  case (Cons e lv)
  then show ?case
    using Cons.IH [of "foldl (add_parent s) nxt (h_parents (snd e))"] add_parents_known [of d b s nxt "h_parents (snd e)"]
    by (cases e) auto
qed simp

lemma note_leaders_keys:
  "fst ` set (foldl (\<lambda>v (_, b). note_leader s b v) valid lv) \<subseteq> fst ` set valid \<union> (h_round \<circ> snd) ` set lv"
proof (induction lv arbitrary: valid)
  case (Cons e lv)
  obtain h b where e: "e = (h, b)" by (cases e)
  have "fst ` set (note_leader s b valid) \<subseteq> insert (h_round b) (fst ` set valid)"
    by (simp add: note_leader_def keys_update subset_insertI)
  with Cons.IH [of "note_leader s b valid"] show ?case
    unfolding foldl_Cons e prod.case set_simps image_insert comp_def snd_conv by blast
qed simp

lemma find_valid_levels_above:
  assumes "blocks_ok lib B s"
  shows "level_ok lib B r s lv \<Longrightarrow>
    fst ` set (find_valid_levels s r lv valid) \<subseteq> fst ` set valid \<union> {wn_chain_round s<..r}"
proof (induction r arbitrary: lv valid)
  case (Suc r)
  define nxt where "nxt = foldl (\<lambda>nxt (_, b). foldl (add_parent s) nxt (h_parents b)) [] lv"
  define valid' where "valid' = foldl (\<lambda>v (_, b). note_leader s b v) valid lv"
  have "level_ok lib B r s nxt" unfolding level_ok_def
  proof (intro ballI, clarify)
    fix d b
    assume "(d, b) \<in> set nxt"
    from add_level_known [OF this [unfolded nxt_def]] obtain e where
      b: "map_of (wn_blocks_by_digest s) d = Some b" "e \<in> set lv" "d \<in> set (h_parents (snd e))" by auto
    then have "h_round (snd e) = Suc r" "parents_linked B s (snd e)" using Suc.prems by (auto simp: level_ok_def)
    with b have "h_round b = r" by (auto simp: parents_linked_def)
    with b assms show "header_digest lib b = d \<and> h_round b = r \<and> parents_linked B s b" by (auto simp: blocks_ok_def)
  qed
  from Suc.IH [OF this, of valid'] have "fst ` set (find_valid_levels s r nxt valid') \<subseteq> fst ` set valid' \<union> {wn_chain_round s<..r}" .
  moreover have "fst ` set valid' \<subseteq> fst ` set valid \<union> {Suc r}"

  proof -
    have "(h_round \<circ> snd) ` set lv \<subseteq> {Suc r}" using Suc.prems by (auto simp: level_ok_def)
    with note_leaders_keys [of s valid lv] show ?thesis unfolding valid'_def by blast
  qed
  ultimately have "fst ` set (find_valid_levels s r nxt valid') \<subseteq> fst ` set valid \<union> {Suc r} \<union> {wn_chain_round s<..r}" by blast
  moreover have "find_valid_levels s (Suc r) lv valid =
      (if Suc r \<le> wn_chain_round s then valid else find_valid_levels s r nxt valid')"
    by (simp add: nxt_def valid'_def)
  moreover have "{Suc r} \<union> {wn_chain_round s<..r} \<subseteq> {wn_chain_round s<..Suc r}" if "\<not> Suc r \<le> wn_chain_round s"
    using that by auto
  ultimately show ?case by (auto split: if_splits)
qed simp

lemma find_valid_leader_above:
  assumes "wahoo_commit_inv (ne_crypto env) B s" and "contains_key (find_valid_leader env round s) r"
  shows "wn_chain_round s < r"
proof -
  obtain leader b where l: "map_of (wn_leader s) round = Some leader" "map_of (wn_dag s) (round, leader) = Some b"
    using assms(2) by (auto simp: find_valid_leader_def contains_key_def split: option.splits)
  have "level_ok (ne_crypto env) B round s [(header_digest (ne_crypto env) b, b)]"
    using l(2) assms(1) by (auto simp: wahoo_commit_inv_def level_ok_def)
  from find_valid_levels_above [OF _ this, of "[]"] assms l show ?thesis
    by (auto simp: find_valid_leader_def wahoo_commit_inv_def contains_key_iff)
qed

lemma commit_ancestor_leaders:
  assumes "digests_separate (ne_crypto env) B" and "\<And>lv. set (ne_level_order env lv) = set lv"
  shows "wahoo_commit_inv (ne_crypto env) B s \<Longrightarrow> sorted_wrt (<) rs \<Longrightarrow>
    \<forall>r \<in> set rs. contains_key valid r \<longrightarrow> wn_chain_round s < r \<Longrightarrow>
    \<forall>r \<in> set rs. r < round \<Longrightarrow> wn_chain_round s < round \<Longrightarrow>
    wahoo_commit_inv (ne_crypto env) B (fold (commit_ancestor_leader env valid) rs s) \<and>
    same_dag s (fold (commit_ancestor_leader env valid) rs s) \<and>
    wn_chain_round (fold (commit_ancestor_leader env valid) rs s) < round"
proof (induction rs arbitrary: s)
  case (Cons r rs)
  let ?s1 = "commit_ancestor_leader env valid r s"
  have step: "?s1 = s \<or> wahoo_commit_inv (ne_crypto env) B ?s1 \<and> same_dag s ?s1 \<and> wn_chain_round ?s1 = r"
  proof (cases "contains_key valid r")
    case True
    show ?thesis
    proof (cases "\<exists>leader b. map_of (wn_leader s) r = Some leader \<and> map_of (wn_dag s) (r, leader) = Some b")
      case True
      then obtain leader b where l: "map_of (wn_leader s) r = Some leader" "map_of (wn_dag s) (r, leader) = Some b" by blast
      have "?s1 = wahoo_emit (map Committed []) (commit_ancestor_blocks env r
          (s\<lparr>wn_chain_round := r, wn_chain_blocks := AList.update (header_digest (ne_crypto env) b) b (wn_chain_blocks s),
             wn_events := wn_events s @ map Committed [b]\<rparr>))"
        using l \<open>contains_key valid r\<close> by (simp add: commit_ancestor_leader_def wahoo_emit_def)
      from leader_commit [OF Cons.prems(1) assms refl _ l _ refl this] Cons.prems(3) \<open>contains_key valid r\<close> show ?thesis by auto
    qed (auto simp: commit_ancestor_leader_def split: option.splits)
  qed (simp add: commit_ancestor_leader_def)
  then have "wahoo_commit_inv (ne_crypto env) B ?s1" "same_dag s ?s1" "wn_chain_round ?s1 < round"
    "\<forall>r \<in> set rs. contains_key valid r \<longrightarrow> wn_chain_round ?s1 < r"
    using Cons.prems by auto
  with Cons.IH [of ?s1] Cons.prems same_dag_trans [of s ?s1] show ?case by auto
qed simp

text \<open>The commit pipeline keeps the invariant.\<close>

lemma try_to_commit_leader_inv:
  assumes "digests_separate (ne_crypto env) B" and "\<And>lv. set (ne_level_order env lv) = set lv" and "wahoo_commit_inv (ne_crypto env) B s"
  shows "wahoo_commit_inv (ne_crypto env) B (try_to_commit_leader env round s) \<and> same_dag s (try_to_commit_leader env round s)"
proof (cases "try_to_commit_leader env round s = s")
  case False
  define s1 where "s1 = try_to_commit_ancestor_leader env round s"
  obtain leader b where l: "\<not> round \<le> wn_chain_round s" "map_of (wn_leader s) round = Some leader"
    "map_of (wn_dag s) (round, leader) = Some b" "contains_key (wn_done s) (round, leader)"
    using False by (auto simp: try_to_commit_leader_def split: if_splits option.splits)
  have s1: "wahoo_commit_inv (ne_crypto env) B s1" "same_dag s s1" "wn_chain_round s1 < round"

  proof -
    have "\<forall>r \<in> set (filter odd [1..<round]). contains_key (find_valid_leader env round s) r \<longrightarrow> wn_chain_round s < r"
      using find_valid_leader_above [OF assms(3)] by blast
    moreover have "sorted_wrt (<) (filter odd [1..<round])" by (simp add: sorted_wrt_filter)
    moreover have "\<forall>r \<in> set (filter odd [1..<round]). r < round" "wn_chain_round s < round" using l(1) by auto
    ultimately have fold: "wahoo_commit_inv (ne_crypto env) B (fold (commit_ancestor_leader env (find_valid_leader env round s)) (filter odd [1..<round]) s) \<and>
        same_dag s (fold (commit_ancestor_leader env (find_valid_leader env round s)) (filter odd [1..<round]) s) \<and>
        wn_chain_round (fold (commit_ancestor_leader env (find_valid_leader env round s)) (filter odd [1..<round]) s) < round"
      by (intro commit_ancestor_leaders [OF assms])
    show "wahoo_commit_inv (ne_crypto env) B s1" "same_dag s s1" "wn_chain_round s1 < round"
      using fold assms(3) l(1) unfolding s1_def try_to_commit_ancestor_leader_def Let_def by simp_all
  qed
  have "try_to_commit_leader env round s = wahoo_emit (map Committed [b]) (commit_ancestor_blocks env round
      (s1\<lparr>wn_chain_round := round, wn_chain_blocks := AList.update (header_digest (ne_crypto env) b) b (wn_chain_blocks s1),
          wn_events := wn_events s1 @ map Committed []\<rparr>))"
    using l by (simp add: try_to_commit_leader_def s1_def Let_def)
  note fin = leader_commit [OF s1(1) assms(1,2) refl s1(3) _ _ _ refl this, of leader]
  from fin(1,3) l(2,3) same_dag_trans [OF s1(2)] show ?thesis by (simp add: same_dag_fields [OF s1(2)])
qed (use assms(3) in simp)

end
