(* ===== verification/Wahoo_Node.thy ===== *)
theory Wahoo_Node
  imports Wahoo_Commit
begin

text \<open>
  The handlers of a Wahoo node (\<^verbatim>\<open>primary/src/wahoo/node.rs\<close>).  They call each other recursively
  through boxed futures, all in one task, and each awaits its callees before it goes on: the
  pending work of the task is a stack of calls.  A handler is modelled by what it does before
  its first recursive call, and returns the calls it then makes, in order; the loop bodies and
  the statements after a call are calls of their own.  \<open>wahoo_node_step\<close> executes the call on top of
  the stack, and when the stack is empty takes the next message from one of the three
  channels of \<^verbatim>\<open>run\<close>.  \<^verbatim>\<open>expect\<close> and index panics end the task.
\<close>

datatype NodeCall =
    HandleMessage WahooMessage
  | DispatchPb PbAction
  | HandleFastBlock Header
  | HandleEpbcVote Vote
  | HandleEpbcCertificate Certificate
  | HandleReady WahooReady
  | HandleElect WahooElect
  | HandleDone WahooDone
  | BroadcastBlock Round
  | BroadcastHeader Round Header
  | BroadcastElect Round
  | SendWahooMessage "PublicKey option" WahooMessage
  | SendReady Round Digest PublicKey
  | SendEpbcVote Round Digest PublicKey WahooVotePhase
  | TryToUpdateDag Header
  | RetryPendingEpbc Round
  | UpdateDagFromPending Round
  | TryToNextRound Round
  | TryToCommitLeader Round

type_synonym called = "WahooNode \<times> NodeCall list"

section \<open>Messages\<close>

definition with_pb :: "Pb \<times> PbAction list \<Rightarrow> WahooNode \<Rightarrow> called" where
  "with_pb r s = (s\<lparr>wn_pb := fst r\<rparr>, map DispatchPb (snd r))"

definition wahoo_handle_message :: "WahooEnv \<Rightarrow> WahooMessage \<Rightarrow> WahooNode \<Rightarrow> called" where
  "wahoo_handle_message env msg s =
     (case msg of
        WBlock b \<Rightarrow>
          if h_round b mod 2 = 0 then with_pb (pb_handle_block (ne_crypto env) b (wn_pb s)) s else (s, [HandleFastBlock b])
      | WVote v \<Rightarrow> if v_round v mod 2 = 0 then with_pb (pb_handle_vote v (wn_pb s)) s else (s, [HandleEpbcVote v])
      | WPbcCertificate c \<Rightarrow> with_pb (pb_handle_certificate c (wn_pb s)) s
      | WEpbcCertificate c \<Rightarrow> (s, [HandleEpbcCertificate c])
      | WElect e \<Rightarrow> (s, [HandleElect e])
      | WReady r \<Rightarrow> (s, [HandleReady r])
      | WDone d \<Rightarrow> (s, [HandleDone d])
      | WReVote _ \<Rightarrow> (s, []))"

definition dispatch_pb_action :: "WahooEnv \<Rightarrow> PbAction \<Rightarrow> WahooNode \<Rightarrow> called outcome" where
  "dispatch_pb_action env action s =
     (case action of
        SendVote target vote \<Rightarrow>
          (case v_wahoo_phase vote of
             None \<Rightarrow> Inl (ExpectFailed ''PB vote action must carry a phase'')
           | Some phase \<Rightarrow>
               (case should_send_vote (v_round vote) (v_origin vote) phase (v_id vote) s of
                  (s1, False) \<Rightarrow> Inr (s1, [])
                | (s1, True) \<Rightarrow>
                    (let signed_vote = sign_vote env vote
                     in rbind (send_vote target signed_vote (wahoo_emit [SignedVote signed_vote] s1)) (\<lambda>s2. Inr (s2, [])))))
      | BroadcastCertificate certificate \<Rightarrow> Inr (wahoo_emit [SentCertificate certificate] s, [])
      | OutputBlock block \<Rightarrow> Inr (s, [TryToUpdateDag block]))"

definition handle_fast_block :: "WahooEnv \<Rightarrow> Header \<Rightarrow> WahooNode \<Rightarrow> called" where
  "handle_fast_block env block s =
     (let hash = header_digest (ne_crypto env) block; round = h_round block; sender = h_author block;
          s1 = (if contains_key (wn_epbc_blocks s) (round, sender) then s
                else s\<lparr>wn_epbc_blocks := AList.update (round, sender) block (wn_epbc_blocks s)\<rparr>)
      in if \<not> check_whether_can_add_to_dag block s1 then (s1\<lparr>wn_block_query := wn_block_query s1 + 1\<rparr>, [])
         else (s1, [SendEpbcVote round hash sender PhaseTs1, SendEpbcVote round hash sender PhaseTf]))"

text \<open>The phase and the certificate of a quorum; a Pbc quorum is ignored here.\<close>

definition epbc_quorum :: "WahooQuorum \<Rightarrow> (WahooVotePhase \<times> Certificate) option" where
  "epbc_quorum q =
     (case q of
        QuorumTs1 c \<Rightarrow> Some (PhaseTs1, c)
      | QuorumTs2 c \<Rightarrow> Some (PhaseTs2, c)
      | QuorumTf c \<Rightarrow> Some (PhaseTf, c)
      | QuorumPbc _ \<Rightarrow> None)"

definition handle_epbc_vote :: "Vote \<Rightarrow> WahooNode \<Rightarrow> called" where
  "handle_epbc_vote vote s =
     (let round = v_round vote; origin = v_origin vote
      in case map_of (wn_epbc_blocks s) (round, origin) of
           None \<Rightarrow> (s, [])
         | Some h \<Rightarrow>
             (let agg = (case map_of (wn_epbc_votes s) (round, origin) of None \<Rightarrow> wahoo_votes_aggregator_new | Some a \<Rightarrow> a);
                  (agg', result) = wahoo_votes_append (wn_committee s) h agg vote;
                  s1 = s\<lparr>wn_epbc_votes := AList.update (round, origin) agg' (wn_epbc_votes s)\<rparr>
              in case result of
                   Inr (Some q) \<Rightarrow>
                     (case epbc_quorum q of
                        None \<Rightarrow> (s1, [])
                      | Some (cert_phase, cert) \<Rightarrow>
                          if (round, origin, cert_phase) \<in> set (wn_epbc_cert_sent s1) then (s1, [])
                          else (wahoo_emit [SentCertificate cert]
                                  (s1\<lparr>wn_epbc_cert_sent := (round, origin, cert_phase) # wn_epbc_cert_sent s1\<rparr>),
                                [HandleEpbcCertificate cert]))
                 | _ \<Rightarrow> (s1, [])))"

definition certificate_done :: "PublicKey \<Rightarrow> Certificate \<Rightarrow> WahooDone" where
  "certificate_done name certificate =
     \<lparr>wd_done_sender = name, wd_block_sender = cert_origin certificate,
      wd_done = map (\<lambda>v. (v_author v, sig_to_bytes (v_signature v))) (votes certificate),
      wd_hash = h_id (header certificate), wd_round = cert_round certificate\<rparr>"

definition first_phase :: "Certificate \<Rightarrow> WahooVotePhase option" where
  "first_phase certificate = (case votes certificate of [] \<Rightarrow> None | v # _ \<Rightarrow> v_wahoo_phase v)"

definition handle_epbc_certificate :: "Certificate \<Rightarrow> WahooNode \<Rightarrow> called" where
  "handle_epbc_certificate certificate s =
     (case first_phase certificate of
        None \<Rightarrow> (s, [])
      | Some phase \<Rightarrow>
          (let round = cert_round certificate; origin = cert_origin certificate;
               s1 = s\<lparr>wn_epbc_blocks := AList.update (round, origin) (header certificate) (wn_epbc_blocks s)\<rparr>
           in case phase of
                PhaseTs1 \<Rightarrow> (s1, [SendEpbcVote round (h_id (header certificate)) origin PhaseTs2])
              | PhasePbc \<Rightarrow> (s1, [])
              | _ \<Rightarrow>
                  (let already = contains_key (wn_epbc_delivered s1) (round, origin);
                       s2 = s1\<lparr>wn_epbc_delivered := AList.update (round, origin) phase (wn_epbc_delivered s1)\<rparr>
                   in if already then (s2, [])
                      else (let d = certificate_done (wn_name s) certificate
                            in (s2, [TryToUpdateDag (header certificate), HandleDone d]
                                    @ (if origin = wn_name s then [SendWahooMessage None (WDone d)] else []))))))"

section \<open>Ready, Elect and Done\<close>

definition check_if_enough_ready :: "WahooEnv \<Rightarrow> WahooReady \<Rightarrow> WahooNode \<Rightarrow> called" where
  "check_if_enough_ready env ready s =
     (let round = wr_round ready; block_sender = wr_block_sender ready;
          entries = map (\<lambda>((_, _, a), sig). (a, sig))
                      (filter (\<lambda>((r, b, _), _). r = round \<and> b = block_sender) (wn_ready s))
      in if block_sender = wn_name s \<and> length entries \<ge> wn_node_num s \<and> round \<notin> set (wn_done_send s)
         then (let d = \<lparr>wd_done_sender = wn_name s, wd_block_sender = block_sender, wd_done = ne_share_order env entries,
                        wd_hash = wr_hash ready, wd_round = round\<rparr>
               in (s\<lparr>wn_done_send := round # wn_done_send s\<rparr>, [HandleDone d, SendWahooMessage None (WDone d)]))
         else (s, []))"

definition handle_ready :: "WahooEnv \<Rightarrow> WahooReady \<Rightarrow> WahooNode \<Rightarrow> called" where
  "handle_ready env ready s = check_if_enough_ready env ready (store_ready ready s)"

text \<open>The value of the coin: None when the shares do not recover it yet.\<close>

definition elect_value :: "WahooEnv \<Rightarrow> Round \<Rightarrow> (PublicKey \<times> byte list) list \<Rightarrow> WahooNode \<Rightarrow> (WahooNode \<times> nat option) outcome" where
  "elect_value env round elects s =
     (case wn_consensus_protocol s of
        RoundRobin \<Rightarrow>
          rbind (round_robin_slot round 2 2) (\<lambda>election_slot. Inr (s, Some (cc_round_robin (wn_coin_committee s) election_slot)))
      | PseudoRandom \<Rightarrow> Inr (s, Some (cc_pseudo_random (ne_crypto env) (wn_coin_committee s) round))
      | CommonCoin \<Rightarrow>
          (case wn_elect_coin s of
             None \<Rightarrow> Inr (s, None)
           | Some tc \<Rightarrow>
               (case recover (ne_crypto env) tc round (ne_share_order env elects) of
                  (tc', value) \<Rightarrow> Inr (s\<lparr>wn_elect_coin := Some tc'\<rparr>, value))))"

definition try_to_elect_leader :: "WahooEnv \<Rightarrow> Round \<Rightarrow> WahooNode \<Rightarrow> called outcome" where
  "try_to_elect_leader env round s =
     (let elects = level round (wn_elect s)
      in if round \<in> set (wn_leader_elect s) \<or> elects = [] \<or> length elects < wn_quorum_num s then Inr (s, [])
         else rbind (elect_value env round elects s) (\<lambda>(s1, value).
              case value of
                None \<Rightarrow> Inr (s1, [])
              | Some value \<Rightarrow>
                  rbind (cc_leader (wn_coin_committee s1) value 0) (\<lambda>leader_name.
                  let prev_round = round - 1
                  in Inr (s1\<lparr>wn_leader_elect := round # wn_leader_elect s1,
                             wn_leader := AList.update prev_round leader_name (wn_leader s1)\<rparr>,
                          [TryToCommitLeader prev_round]))))"

definition handle_elect :: "WahooEnv \<Rightarrow> WahooElect \<Rightarrow> WahooNode \<Rightarrow> called outcome" where
  "handle_elect env elect s = try_to_elect_leader env (we_round elect) (store_elect elect s)"

definition handle_done :: "WahooEnv \<Rightarrow> WahooDone \<Rightarrow> WahooNode \<Rightarrow> called" where
  "handle_done env d s =
     (if \<not> verify_done_proof env d s then (s, [])
      else (store_done d s, [TryToNextRound (wd_round d), TryToCommitLeader (wd_round d)]))"

section \<open>Sending\<close>

definition broadcast_block :: "WahooEnv \<Rightarrow> Round \<Rightarrow> WahooNode \<Rightarrow> called" where
  "broadcast_block env round s =
     (let (s1, block) = new_block env round (select_previous_blocks env (round - 1) s) s;
          s2 = s1\<lparr>wn_block_send := List.insert round (wn_block_send s1)\<rparr>;
          block = block\<lparr>h_signature := sig_new (ne_crypto env) (h_id block) (ne_secret env)\<rparr>;
          attack_headers = signed_attack_headers (ne_crypto env) (ne_secret env) (wn_byzantine s) block Wahoo [];
          s3 = (if 3 \<le> round \<and> round mod 2 = 1 then broadcast_self_recps env (round - 2) s2 else s2)
      in (s3, map (BroadcastHeader round) attack_headers @ (if round mod 2 = 0 then [BroadcastElect round] else [])))"

definition broadcast_header :: "WahooEnv \<Rightarrow> Round \<Rightarrow> Header \<Rightarrow> WahooNode \<Rightarrow> called" where
  "broadcast_header env round h s =
     (let targets = (if h_equivocation_tag h = 0 then canonical_targets (wn_byzantine s) (wn_committee s) (wn_name s)
                     else variant_targets (wn_byzantine s) (wn_committee s) (wn_name s) (h_equivocation_tag h) False);
          s1 = wahoo_emit [SentHeader targets h] s
      in if round mod 2 = 0
         then with_pb (pb_handle_block (ne_crypto env) h
                         (if h_equivocation_tag h = 0 then pb_broadcast_block h (wn_pb s1) else wn_pb s1)) s1
         else (s1, [HandleFastBlock h]))"

definition broadcast_elect :: "WahooEnv \<Rightarrow> Round \<Rightarrow> WahooNode \<Rightarrow> called" where
  "broadcast_elect env round s =
     (let (s1, share) = (case wn_elect_coin s of
                           None \<Rightarrow> (s, None)
                         | Some tc \<Rightarrow> (case make_share (ne_crypto env) tc (wn_name s) round of
                                         (tc', share) \<Rightarrow> (s\<lparr>wn_elect_coin := Some tc'\<rparr>, share)));
          elect = \<lparr>we_sender = wn_name s, we_round = round, we_partial_sig = (case share of None \<Rightarrow> [] | Some b \<Rightarrow> b)\<rparr>
      in (s1, [HandleElect elect, SendWahooMessage None (WElect elect)]))"

definition send_wahoo :: "WahooEnv \<Rightarrow> PublicKey option \<Rightarrow> WahooMessage \<Rightarrow> WahooNode \<Rightarrow> called outcome" where
  "send_wahoo env target msg s =
     (case target of
        None \<Rightarrow> Inr (wahoo_emit [SentWahoo None (sign_wahoo env msg)] s, [])
      | Some to \<Rightarrow>
          (case committee_primary (wn_committee s) to of
             Inl _ \<Rightarrow> Inl (ExpectFailed ''Wahoo send target not in committee'')
           | Inr _ \<Rightarrow> Inr (wahoo_emit [SentWahoo (Some to) (sign_wahoo env msg)] s, [])))"

definition send_ready :: "WahooEnv \<Rightarrow> Round \<Rightarrow> Digest \<Rightarrow> PublicKey \<Rightarrow> WahooNode \<Rightarrow> called" where
  "send_ready env round hash block_sender s =
     (let ready = \<lparr>wr_ready_sender = wn_name s, wr_block_sender = block_sender, wr_round = round, wr_hash = hash,
                   wr_partial_sig = sig_to_bytes (sig_new (ne_crypto env) hash (ne_secret env))\<rparr>
      in (s, [HandleReady ready, SendWahooMessage (Some block_sender) (WReady ready)]))"

definition send_epbc_vote :: "WahooEnv \<Rightarrow> Round \<Rightarrow> Digest \<Rightarrow> PublicKey \<Rightarrow> WahooVotePhase \<Rightarrow> WahooNode \<Rightarrow> called outcome" where
  "send_epbc_vote env round block_id block_sender phase s =
     (case should_send_vote round block_sender phase block_id s of
        (s1, False) \<Rightarrow> Inr (s1, [])
      | (s1, True) \<Rightarrow>
          (let vote = sign_vote env (unsigned_vote block_id round block_sender (wn_name s) phase);
               s2 = wahoo_emit [SignedVote vote] s1
           in if block_sender = wn_name s then Inr (s2, [HandleEpbcVote vote])
              else rbind (send_vote block_sender vote s2) (\<lambda>s3. Inr (s3, []))))"

section \<open>The DAG and the rounds\<close>

definition try_to_update_dag :: "WahooEnv \<Rightarrow> Header \<Rightarrow> WahooNode \<Rightarrow> called" where
  "try_to_update_dag env block s =
     (if check_whether_can_add_to_dag block s
      then (let round = h_round block;
                s1 = s\<lparr>wn_blocks_by_digest := AList.update (header_digest (ne_crypto env) block) block (wn_blocks_by_digest s),
                       wn_dag := AList.update (round, h_author block) block (wn_dag s)\<rparr>;
                (s2, first) = (if round mod 2 = 0 then (bump_round round s1, TryToNextRound round) else (s1, TryToCommitLeader round))
            in (s2, [first, UpdateDagFromPending (u64_add round 1), RetryPendingEpbc (u64_add round 1)]))
      else ((store_pending_block block s)\<lparr>wn_block_query := wn_block_query s + 1\<rparr>, []))"

definition retry_pending_epbc :: "WahooEnv \<Rightarrow> Round \<Rightarrow> WahooNode \<Rightarrow> called" where
  "retry_pending_epbc env round s =
     (let ready = filter (\<lambda>b. check_whether_can_add_to_dag b s) (values_of (ne_slot_order env (level round (wn_epbc_blocks s))))
      in (s, concat (map (\<lambda>b. [SendEpbcVote (h_round b) (header_digest (ne_crypto env) b) (h_author b) PhaseTs1,
                              SendEpbcVote (h_round b) (header_digest (ne_crypto env) b) (h_author b) PhaseTf]) ready)))"

definition try_to_update_dag_from_pending :: "WahooEnv \<Rightarrow> Round \<Rightarrow> WahooNode \<Rightarrow> called" where
  "try_to_update_dag_from_pending env round s =
     (s\<lparr>wn_pending_blocks := filter (\<lambda>((r, _), _). r \<noteq> round) (wn_pending_blocks s)\<rparr>,
      map TryToUpdateDag (values_of (ne_slot_order env (level round (wn_pending_blocks s)))))"

definition try_to_next_round :: "Round \<Rightarrow> WahooNode \<Rightarrow> called" where
  "try_to_next_round round s =
     (if round \<noteq> wn_round s then (s, [])
      else (let n = (case map_of (wn_move_round s) round of None \<Rightarrow> 0 | Some n \<Rightarrow> n)
            in if n \<ge> wn_quorum_num s \<and> round \<notin> set (wn_next_round_signaled s)
               then (let nxt = u64_add (wn_round s) 1
                     in (s\<lparr>wn_next_round_signaled := round # wn_next_round_signaled s, wn_round := nxt\<rparr>,
                         [BroadcastBlock nxt, TryToNextRound nxt]))
               else (s, [])))"

section \<open>The task\<close>

fun wahoo_call :: "WahooEnv \<Rightarrow> NodeCall \<Rightarrow> WahooNode \<Rightarrow> called outcome" where
  "wahoo_call env (HandleMessage msg) s = Inr (wahoo_handle_message env msg s)"
| "wahoo_call env (DispatchPb action) s = dispatch_pb_action env action s"
| "wahoo_call env (HandleFastBlock b) s = Inr (handle_fast_block env b s)"
| "wahoo_call env (HandleEpbcVote v) s = Inr (handle_epbc_vote v s)"
| "wahoo_call env (HandleEpbcCertificate c) s = Inr (handle_epbc_certificate c s)"
| "wahoo_call env (HandleReady r) s = Inr (handle_ready env r s)"
| "wahoo_call env (HandleElect e) s = handle_elect env e s"
| "wahoo_call env (HandleDone d) s = Inr (handle_done env d s)"
| "wahoo_call env (BroadcastBlock r) s = Inr (broadcast_block env r s)"
| "wahoo_call env (BroadcastHeader r h) s = Inr (broadcast_header env r h s)"
| "wahoo_call env (BroadcastElect r) s = Inr (broadcast_elect env r s)"
| "wahoo_call env (SendWahooMessage target msg) s = send_wahoo env target msg s"
| "wahoo_call env (SendReady r hash b) s = Inr (send_ready env r hash b s)"
| "wahoo_call env (SendEpbcVote r i b phase) s = send_epbc_vote env r i b phase s"
| "wahoo_call env (TryToUpdateDag b) s = Inr (try_to_update_dag env b s)"
| "wahoo_call env (RetryPendingEpbc r) s = Inr (retry_pending_epbc env r s)"
| "wahoo_call env (UpdateDagFromPending r) s = Inr (try_to_update_dag_from_pending env r s)"
| "wahoo_call env (TryToNextRound r) s = Inr (try_to_next_round r s)"
| "wahoo_call env (TryToCommitLeader r) s = Inr (try_to_commit_leader env r s, [])"

datatype NodeInput =
    InMessage WahooMessage
  | InBatch Digest WorkerId
  | InRecp RecpMessage

definition wahoo_input :: "NodeInput \<Rightarrow> WahooNode \<Rightarrow> called" where
  "wahoo_input input s =
     (case input of
        InMessage msg \<Rightarrow> (s, [HandleMessage msg])
      | InBatch digest wid \<Rightarrow> (s\<lparr>wn_pending_digests := wn_pending_digests s @ [(digest, wid)]\<rparr>, [])
      | InRecp recp \<Rightarrow> (handle_recp recp s, []))"

inductive wahoo_node_step :: "WahooEnv \<Rightarrow> (NodeInput \<Rightarrow> bool) \<Rightarrow> NodeCall list \<times> WahooNode \<Rightarrow> NodeCall list \<times> WahooNode \<Rightarrow> bool"
  for env :: WahooEnv and arrives :: "NodeInput \<Rightarrow> bool" where
  call: "wahoo_call env c s = Inr (s', cs) \<Longrightarrow> wahoo_node_step env arrives (c # rest, s) (cs @ rest, s')"
| input: "arrives i \<Longrightarrow> wahoo_input i s = (s', cs) \<Longrightarrow> wahoo_node_step env arrives ([], s) (cs, s')"

inductive_cases wahoo_node_stepE: "wahoo_node_step env arrives (stack, s) (stack', s')"

text \<open>
  The states of a node whose inputs all satisfy a predicate; \<^verbatim>\<open>run\<close> starts by broadcasting the
  block of round one.
\<close>

inductive wahoo_reachable ::
    "WahooEnv \<Rightarrow> (NodeInput \<Rightarrow> bool) \<Rightarrow> WahooNode \<Rightarrow> NodeCall list \<Rightarrow> WahooNode \<Rightarrow> bool"
  for env :: WahooEnv and arrives :: "NodeInput \<Rightarrow> bool" and s0 :: WahooNode where
  start: "wahoo_reachable env arrives s0 [BroadcastBlock 1] s0"
| step: "wahoo_reachable env arrives s0 stack s \<Longrightarrow> wahoo_node_step env arrives (stack, s) (stack', s') \<Longrightarrow>
           wahoo_reachable env arrives s0 stack' s'"

text \<open>The same, run with a bound on the number of calls.\<close>

fun wahoo_drain :: "WahooEnv \<Rightarrow> nat \<Rightarrow> NodeCall list \<Rightarrow> WahooNode \<Rightarrow> WahooNode option" where
  "wahoo_drain env fuel [] s = Some s"
| "wahoo_drain env 0 (c # cs) s = None"
| "wahoo_drain env (Suc fuel) (c # cs) s =
     (case wahoo_call env c s of Inl _ \<Rightarrow> None | Inr (s', new) \<Rightarrow> wahoo_drain env fuel (new @ cs) s')"

fun wahoo_run :: "WahooEnv \<Rightarrow> nat \<Rightarrow> NodeInput list \<Rightarrow> WahooNode \<Rightarrow> WahooNode option" where
  "wahoo_run env fuel [] s = Some s"
| "wahoo_run env fuel (i # is) s =
     (case wahoo_input i s of (s1, cs) \<Rightarrow>
        (case wahoo_drain env fuel cs s1 of None \<Rightarrow> None | Some s2 \<Rightarrow> wahoo_run env fuel is s2))"

end
