(* ===== verification/Wahoo_Votes.thy ===== *)
theory Wahoo_Votes
  imports Wahoo_Node
begin

text \<open>
  What a Wahoo node signs: at most one vote for each round, author and phase, and at most one
  header for each round.
\<close>

section \<open>Runs\<close>

lemma wahoo_reachable_drain:
  "wahoo_drain env fuel cs s = Some t \<Longrightarrow> wahoo_reachable env arrives s0 cs s \<Longrightarrow> wahoo_reachable env arrives s0 [] t"
proof (induction env fuel cs s rule: wahoo_drain.induct)
  case (3 env fuel c cs s)
  then obtain s' new where c: "wahoo_call env c s = Inr (s', new)" "wahoo_drain env fuel (new @ cs) s' = Some t"
    by (auto split: sum.splits)
  have "wahoo_reachable env arrives s0 (new @ cs) s'"
    by (rule wahoo_reachable.step [OF "3.prems"(2) wahoo_node_step.call [OF c(1)]])
  with "3.IH" [OF c(1) refl c(2)] show ?case by simp
qed simp_all

lemma wahoo_reachable_run:
  "wahoo_run env fuel is s = Some t \<Longrightarrow> wahoo_reachable env arrives s0 [] s \<Longrightarrow> \<forall>i \<in> set is. arrives i \<Longrightarrow>
     wahoo_reachable env arrives s0 [] t"
proof (induction env fuel "is" s rule: wahoo_run.induct)
  case (2 env fuel i "is" s)
  obtain s1 cs where i: "wahoo_input i s = (s1, cs)" by fastforce
  with "2.prems"(1) obtain s2 where s2: "wahoo_drain env fuel cs s1 = Some s2" "wahoo_run env fuel is s2 = Some t"
    by (auto split: option.splits)
  have "wahoo_reachable env arrives s0 cs s1"
    by (rule wahoo_reachable.step [OF "2.prems"(2) wahoo_node_step.input [OF _ i]]) (use "2.prems"(3) in simp)
  with "2.IH" [OF i [symmetric] s2] wahoo_reachable_drain [OF s2(1)] "2.prems"(3) show ?case by simp
qed simp

text \<open>An invariant of every call and every input holds in every reachable state.\<close>

lemma wahoo_reachable_inv:
  assumes "wahoo_reachable env arrives s0 stack s" and "I [BroadcastBlock 1] s0"
    and "\<And>c rest s s' cs. I (c # rest) s \<Longrightarrow> wahoo_call env c s = Inr (s', cs) \<Longrightarrow> I (cs @ rest) s'"
    and "\<And>i s s' cs. I [] s \<Longrightarrow> arrives i \<Longrightarrow> wahoo_input i s = (s', cs) \<Longrightarrow> I cs s'"
  shows "I stack s"
  using assms(1)
proof (induction rule: wahoo_reachable.induct)
  case start
  show ?case by (rule assms(2))
next
  case (step stack s stack' s')
  from step.hyps(2) step.IH show ?case by (elim wahoo_node_stepE) (use assms(3,4) in blast)+
qed

section \<open>What the commit pipeline leaves alone\<close>

lemma same_dag_emit: "same_dag s (wahoo_emit [Committed b] s)"
  by (rule same_dagI [where cr = "wn_chain_round s" and cb = "wn_chain_blocks s" and new = "[b]"]) (simp add: wahoo_emit_def)

lemma same_dag_chain: "same_dag s (s\<lparr>wn_chain_round := r, wn_chain_blocks := cb\<rparr>)"
  by (rule same_dagI [where cr = r and cb = cb and new = "[]"]) simp

lemma same_dag_entry: "same_dag s (commit_entry round leader h b s)"
proof -
  have "same_dag s (s\<lparr>wn_chain_blocks := cb\<rparr>)" for cb
    using same_dag_chain [where s = s and r = "wn_chain_round s" and cb = cb] by simp
  then show ?thesis
    unfolding commit_entry_def Let_def by (auto intro: same_dag_trans same_dag_emit)
qed

lemma same_dag_entries: "same_dag s (snd (commit_entries round leader r es nxt s))"
proof (induction es arbitrary: nxt s)
  case (Cons e es)
  obtain h b where "e = (h, b)" by (cases e)
  then show ?case using same_dag_trans [OF same_dag_entry Cons.IH] by (simp add: Let_def)
qed simp

lemma same_dag_levels: "same_dag s (commit_levels env round leader r lv s)"
proof (induction r arbitrary: lv s)
  case 0
  show ?case by (simp add: same_dag_entries)
next
  case (Suc r)
  obtain nxt s1 where run: "commit_entries round leader (Suc r) (ne_level_order env lv) [] s = (nxt, s1)" by fastforce
  have "same_dag s s1" using same_dag_entries [of s round leader "Suc r" "ne_level_order env lv" "[]"] by (simp add: run)
  with same_dag_trans [OF this Suc.IH] show ?case by (simp add: run)
qed

lemma same_dag_ancestors: "same_dag s (commit_ancestor_blocks env round s)"
  by (auto simp: commit_ancestor_blocks_def same_dag_levels split: option.splits)

lemma same_dag_ancestor_leader: "same_dag s (commit_ancestor_leader env valid r s)"
  unfolding commit_ancestor_leader_def
  by (auto intro: same_dag_trans [OF same_dag_trans [OF same_dag_chain same_dag_emit] same_dag_ancestors] split: option.splits)

lemma same_dag_fold: "same_dag s (fold (commit_ancestor_leader env valid) rs s)"
  by (induction rs arbitrary: s) (auto intro: same_dag_trans [OF same_dag_ancestor_leader])

lemma same_dag_commit: "same_dag s (try_to_commit_leader env round s)"
proof -
  have "same_dag s (try_to_commit_ancestor_leader env round s)"
    by (simp add: try_to_commit_ancestor_leader_def Let_def same_dag_fold)
  from same_dag_trans [OF same_dag_trans [OF same_dag_trans [OF this same_dag_chain] same_dag_ancestors] same_dag_emit]
  show ?thesis by (auto simp: try_to_commit_leader_def Let_def split: option.splits)
qed

section \<open>Votes\<close>

fun signed_votes_of :: "WahooEvent list \<Rightarrow> Vote list" where
  "signed_votes_of [] = []"
| "signed_votes_of (SignedVote v # es) = v # signed_votes_of es"
| "signed_votes_of (_ # es) = signed_votes_of es"

lemma signed_votes_of_append [simp]: "signed_votes_of (xs @ ys) = signed_votes_of xs @ signed_votes_of ys"
  by (induction xs rule: signed_votes_of.induct) auto

lemma signed_votes_of_committed [simp]: "signed_votes_of (map Committed bs) = []"
  by (induction bs) auto

definition signed_votes :: "WahooNode \<Rightarrow> Vote list" where
  "signed_votes s = signed_votes_of (wn_events s)"

text \<open>What determines the votes: their record, their log, and the Byzantine configuration.\<close>

definition vote_view :: "WahooNode \<Rightarrow> ((Round \<times> PublicKey \<times> WahooVotePhase) \<times> Digest list) list \<times> Vote list \<times> ByzantineConfig" where
  "vote_view s = (wn_sent_votes s, signed_votes s, wn_byzantine s)"

lemma vote_view_same_dag: "same_dag s s' \<Longrightarrow> vote_view s' = vote_view s"
  by (auto simp: same_dag_def vote_view_def signed_votes_def)

lemma vote_view_recp [simp]: "vote_view (handle_recp recp s) = vote_view s"
  by (simp add: handle_recp_def vote_view_def signed_votes_def Let_def)

lemma vote_view_self_recps [simp]: "vote_view (self_recps env r bs s) = vote_view s"
proof (induction bs arbitrary: s)
  case (Cons b bs)
  have "vote_view (wahoo_emit [SentRecp recp] t) = vote_view t" for recp t
    by (simp add: wahoo_emit_def vote_view_def signed_votes_def)
  with Cons show ?case by (simp add: Let_def split: option.split)
qed simp

lemma elect_value_changes:
  assumes "elect_value env round elects s = Inr (s', v)"
  obtains tc where "s' = s\<lparr>wn_elect_coin := tc\<rparr>"
proof (cases "wn_consensus_protocol s")
  case CommonCoin
  with assms that [of "wn_elect_coin s"] that show thesis
    by (auto simp: elect_value_def split: option.splits prod.splits)
qed (use assms that [of "wn_elect_coin s"] in \<open>auto simp: elect_value_def\<close>)

lemma handle_elect_changes:
  assumes "handle_elect env e s = Inr (s', cs)"
  obtains es tc le l where "s' = s\<lparr>wn_elect := es, wn_elect_coin := tc, wn_leader_elect := le, wn_leader := l\<rparr>"
    and "set cs \<subseteq> range TryToCommitLeader"
proof -
  define t where "t = store_elect e s"
  define elects where "elects = level (we_round e) (wn_elect t)"
  obtain es where t: "t = s\<lparr>wn_elect := es\<rparr>" by (simp add: t_def store_elect_def)
  show thesis
  proof (cases "we_round e \<in> set (wn_leader_elect t) \<or> elects = [] \<or> length elects < wn_quorum_num t")
    case True
    with assms have "s' = t" "cs = []"
      by (auto simp: handle_elect_def try_to_elect_leader_def elects_def t_def Let_def)
    then show thesis by (intro that [where es = es and tc = "wn_elect_coin s" and le = "wn_leader_elect s" and l = "wn_leader s"]) (simp_all add: t)
  next
    case False
    with assms obtain t1 v where v: "elect_value env (we_round e) elects t = Inr (t1, v)"
      by (auto simp: handle_elect_def try_to_elect_leader_def elects_def [symmetric] t_def [symmetric] Let_def)
    obtain tc where t1: "t1 = t\<lparr>wn_elect_coin := tc\<rparr>" using v by (rule elect_value_changes)
    obtain le l where "s' = t1\<lparr>wn_leader_elect := le, wn_leader := l\<rparr>" "set cs \<subseteq> range TryToCommitLeader"
    proof (cases v)
      case None
      with assms False v have "s' = t1" "cs = []"
        by (auto simp: handle_elect_def try_to_elect_leader_def elects_def [symmetric] t_def [symmetric] Let_def)
      then show thesis by (intro that [where le = "wn_leader_elect t1" and l = "wn_leader t1"]) simp_all
    next
      case (Some x)
      with assms False v obtain l where "s' = t1\<lparr>wn_leader_elect := we_round e # wn_leader_elect t1,
          wn_leader := AList.update (we_round e - 1) l (wn_leader t1)\<rparr>" "cs = [TryToCommitLeader (we_round e - 1)]"
        by (auto simp: handle_elect_def try_to_elect_leader_def elects_def [symmetric] t_def [symmetric] Let_def)
      then show thesis by (intro that) auto
    qed
    then show thesis by (intro that) (auto simp: t1 t)
  qed
qed

lemma vote_view_block: "broadcast_block env r s = (s', cs) \<Longrightarrow> vote_view s' = vote_view s"
  by (auto simp: broadcast_block_def new_block_def broadcast_self_recps_def Let_def split: prod.splits if_splits)
    (simp_all add: vote_view_def signed_votes_def)

lemma vote_view_calls:
  assumes "wahoo_call env c s = Inr (s', cs)" and "\<And>a. c \<noteq> DispatchPb a" and "\<And>r i b p. c \<noteq> SendEpbcVote r i b p"
  shows "vote_view s' = vote_view s"
proof (cases c)
  case (TryToCommitLeader r)
  with assms(1) show ?thesis using vote_view_same_dag [OF same_dag_commit] by auto
next
  case (BroadcastBlock r)
  with assms(1) show ?thesis using vote_view_block by simp
next
  case (HandleElect e)
  with assms(1) have "handle_elect env e s = Inr (s', cs)" by simp
  then show ?thesis by (rule handle_elect_changes) (auto simp: vote_view_def signed_votes_def)
qed (use assms in \<open>auto simp: wahoo_handle_message_def with_pb_def handle_fast_block_def handle_epbc_vote_def
    handle_epbc_certificate_def handle_ready_def check_if_enough_ready_def store_ready_def handle_done_def store_done_def
    bump_round_def broadcast_header_def broadcast_elect_def send_wahoo_def send_ready_def try_to_update_dag_def
    store_pending_block_def retry_pending_epbc_def try_to_update_dag_from_pending_def try_to_next_round_def
    wahoo_emit_def vote_view_def signed_votes_def Let_def
    split: WahooMessage.splits if_splits option.splits prod.splits sum.splits WahooVotePhase.splits\<close>)

text \<open>
  The votes signed for one round, author and phase are exactly the recorded digests; an honest
  node records at most one.
\<close>

definition votes_signed :: "WahooNode \<Rightarrow> Round \<Rightarrow> PublicKey \<Rightarrow> WahooVotePhase \<Rightarrow> Vote list" where
  "votes_signed s r origin phase =
     filter (\<lambda>v. v_round v = r \<and> v_origin v = origin \<and> v_wahoo_phase v = Some phase) (signed_votes s)"

definition wahoo_vote_inv :: "WahooNode \<Rightarrow> bool" where
  "wahoo_vote_inv s \<longleftrightarrow> (\<forall>r origin phase.
     map v_id (votes_signed s r origin phase) =
       rev (case map_of (wn_sent_votes s) (r, origin, phase) of None \<Rightarrow> [] | Some ds \<Rightarrow> ds)) \<and>
     (\<forall>k ds. map_of (wn_sent_votes s) k = Some ds \<longrightarrow> distinct ds \<and> (allows_multiple_votes (wn_byzantine s) \<or> length ds \<le> 1))"

lemma wahoo_vote_inv_view: "vote_view s' = vote_view s \<Longrightarrow> wahoo_vote_inv s' = wahoo_vote_inv s"
  by (simp add: vote_view_def wahoo_vote_inv_def votes_signed_def)

lemma should_send_vote_inv:
  assumes "wahoo_vote_inv s" and "should_send_vote r origin phase i s = (s1, b)"
    and "v_round v = r" and "v_origin v = origin" and "v_wahoo_phase v = Some phase" and "v_id v = i"
  shows "if b then wahoo_vote_inv (wahoo_emit [SignedVote v] s1) else s1 = s"
proof (cases b)
  case False
  with assms(2) show ?thesis by (auto simp: should_send_vote_def Let_def split: if_splits)
next
  case True
  define seen where "seen = (case map_of (wn_sent_votes s) (r, origin, phase) of None \<Rightarrow> [] | Some ds \<Rightarrow> ds)"
  have s1: "s1 = s\<lparr>wn_sent_votes := AList.update (r, origin, phase) (i # seen) (wn_sent_votes s)\<rparr>"
    and fresh: "i \<notin> set seen" "seen = [] \<or> allows_multiple_votes (wn_byzantine s)"
    using assms(2) True unfolding should_send_vote_def Let_def seen_def [symmetric] by (auto split: if_splits)
  let ?t = "wahoo_emit [SignedVote v] s1"
  have votes: "votes_signed ?t r' o' p' = votes_signed s r' o' p' @ (if (r', o', p') = (r, origin, phase) then [v] else [])" for r' o' p'
    using assms(3-5) by (auto simp: votes_signed_def signed_votes_def wahoo_emit_def s1)
  have sent: "map_of (wn_sent_votes ?t) k = (if k = (r, origin, phase) then Some (i # seen) else map_of (wn_sent_votes s) k)" for k
    by (simp add: wahoo_emit_def s1)
  have inv: "map v_id (votes_signed s r' o' p') =
        rev (case map_of (wn_sent_votes s) (r', o', p') of None \<Rightarrow> [] | Some ds \<Rightarrow> ds)"
      "map_of (wn_sent_votes s) k = Some ds \<Longrightarrow> distinct ds \<and> (allows_multiple_votes (wn_byzantine s) \<or> length ds \<le> 1)" for r' o' p' k ds
    using assms(1) unfolding wahoo_vote_inv_def by blast+
  have "distinct seen" using inv(2) unfolding seen_def by (cases "map_of (wn_sent_votes s) (r, origin, phase)") auto
  moreover have "wn_byzantine ?t = wn_byzantine s" by (simp add: wahoo_emit_def s1)
  ultimately have "wahoo_vote_inv ?t"
    unfolding wahoo_vote_inv_def votes sent using inv fresh assms(6) by (auto simp: seen_def [symmetric])
  with True show ?thesis by simp
qed

lemma vote_view_send: "send_vote target v s = Inr s' \<Longrightarrow> vote_view s' = vote_view s"
  by (auto simp: send_vote_def wahoo_emit_def vote_view_def signed_votes_def split: sum.splits)

lemma sign_vote_fields [simp]:
  "v_round (sign_vote env v) = v_round v" "v_origin (sign_vote env v) = v_origin v"
  "v_wahoo_phase (sign_vote env v) = v_wahoo_phase v" "v_id (sign_vote env v) = v_id v" "v_author (sign_vote env v) = v_author v"
  by (simp_all add: sign_vote_def)

lemma dispatch_pb_action_votes:
  assumes "wahoo_vote_inv s" and "dispatch_pb_action env a s = Inr (s', cs)"
  shows "wahoo_vote_inv s'"
proof (cases a)
  case (SendVote target v)
  obtain phase where p: "v_wahoo_phase v = Some phase"
    using assms(2) SendVote by (auto simp: dispatch_pb_action_def split: option.splits)
  obtain s1 b where b: "should_send_vote (v_round v) (v_origin v) phase (v_id v) s = (s1, b)" by fastforce
  note step = should_send_vote_inv [OF assms(1) b, of "sign_vote env v"]
  from assms(2) SendVote p b step wahoo_vote_inv_view [OF vote_view_send] assms(1) show ?thesis
    by (cases b) (auto simp: dispatch_pb_action_def Let_def)
next
  case (BroadcastCertificate c)
  with assms(2) wahoo_vote_inv_view [of s' s] assms(1) show ?thesis
    by (auto simp: dispatch_pb_action_def wahoo_emit_def vote_view_def signed_votes_def)
qed (use assms in \<open>auto simp: dispatch_pb_action_def\<close>)

lemma send_epbc_vote_votes:
  assumes "wahoo_vote_inv s" and "send_epbc_vote env r i origin phase s = Inr (s', cs)"
  shows "wahoo_vote_inv s'"
proof -
  define v where "v = sign_vote env (unsigned_vote i r origin (wn_name s) phase)"
  have v: "v_round v = r" "v_origin v = origin" "v_wahoo_phase v = Some phase" "v_id v = i"
    by (simp_all add: v_def unsigned_vote_def)
  obtain s1 b where b: "should_send_vote r origin phase i s = (s1, b)" by fastforce
  note step = should_send_vote_inv [OF assms(1) b v]
  from assms(2) b step wahoo_vote_inv_view [OF vote_view_send] assms(1) show ?thesis
    by (cases b) (auto simp: send_epbc_vote_def v_def [symmetric] Let_def split: if_splits)
qed

lemma wahoo_vote_inv_call:
  assumes "wahoo_vote_inv s" and "wahoo_call env c s = Inr (s', cs)"
  shows "wahoo_vote_inv s'"
proof (cases "(\<exists>a. c = DispatchPb a) \<or> (\<exists>r i b p. c = SendEpbcVote r i b p)")
  case True
  then show ?thesis
  proof (elim disjE exE)
    fix a assume "c = DispatchPb a"
    with assms show ?thesis by (intro dispatch_pb_action_votes [of s env a s' cs]) simp_all
  next
    fix r i b p assume "c = SendEpbcVote r i b p"
    with assms show ?thesis by (intro send_epbc_vote_votes [of s env r i b p s' cs]) simp_all
  qed
next
  case False
  then have "vote_view s' = vote_view s" by (intro vote_view_calls [OF assms(2)]) auto
  with wahoo_vote_inv_view assms(1) show ?thesis by blast
qed

lemma vote_view_input: "wahoo_input i s = (s', cs) \<Longrightarrow> vote_view s' = vote_view s"
  by (auto simp: wahoo_input_def split: NodeInput.splits) (simp add: vote_view_def signed_votes_def)

lemma wahoo_reachable_votes:
  assumes "wahoo_node_new env name c cp hs byz = Inr s0" and "wahoo_reachable env arrives s0 stack s"
  shows "wahoo_vote_inv s"
  using assms(2)
proof (rule wahoo_reachable_inv [where I = "\<lambda>_ s. wahoo_vote_inv s"])
  show "wahoo_vote_inv s0"
    using wahoo_node_new_fields [OF assms(1)] by (simp add: wahoo_vote_inv_def votes_signed_def signed_votes_def)
  show "wahoo_vote_inv t'" if "wahoo_vote_inv t" "wahoo_input i t = (t', cs)" for i t t' cs
    using that wahoo_vote_inv_view [OF vote_view_input] by blast
qed (use wahoo_vote_inv_call in blast)

section \<open>Proposals\<close>

fun header_rounds_of :: "WahooEvent list \<Rightarrow> Round list" where
  "header_rounds_of [] = []"
| "header_rounds_of (SentHeader _ h # es) = h_round h # header_rounds_of es"
| "header_rounds_of (_ # es) = header_rounds_of es"

lemma header_rounds_of_append [simp]: "header_rounds_of (xs @ ys) = header_rounds_of xs @ header_rounds_of ys"
  by (induction xs rule: header_rounds_of.induct) auto

lemma header_rounds_of_committed [simp]: "header_rounds_of (map Committed bs) = []"
  by (induction bs) auto

definition header_rounds :: "WahooNode \<Rightarrow> Round list" where
  "header_rounds s = header_rounds_of (wn_events s)"

fun pending_rounds :: "NodeCall list \<Rightarrow> Round list" where
  "pending_rounds [] = []"
| "pending_rounds (BroadcastBlock r # cs) = r # pending_rounds cs"
| "pending_rounds (BroadcastHeader _ h # cs) = h_round h # pending_rounds cs"
| "pending_rounds (_ # cs) = pending_rounds cs"

lemma pending_rounds_append [simp]: "pending_rounds (xs @ ys) = pending_rounds xs @ pending_rounds ys"
  by (induction xs rule: pending_rounds.induct) auto

lemma pending_rounds_tl: "pending_rounds cs = [] \<Longrightarrow> pending_rounds (tl cs) = []"
  by (cases cs rule: pending_rounds.cases) auto

lemma pending_rounds_maps [simp]:
  "pending_rounds (map DispatchPb as) = []" "pending_rounds (map (TryToUpdateDag \<circ> k) bs) = []"
  "pending_rounds (concat (map (\<lambda>b. [SendEpbcVote (f b) (g b) (h b) p, SendEpbcVote (f b) (g b) (h b) q]) bs)) = []"
  by (induction as, simp_all) (induction bs, simp_all)+

definition round_view :: "WahooNode \<Rightarrow> Round \<times> Round list \<times> ByzantineConfig \<times> Round list" where
  "round_view s = (wn_round s, wn_next_round_signaled s, wn_byzantine s, header_rounds s)"

lemma round_view_same_dag: "same_dag s s' \<Longrightarrow> round_view s' = round_view s"
  by (auto simp: same_dag_def round_view_def header_rounds_def)

lemma round_view_recp [simp]: "round_view (handle_recp recp s) = round_view s"
  by (simp add: handle_recp_def round_view_def header_rounds_def Let_def)

lemma round_view_self_recps [simp]: "round_view (self_recps env r bs s) = round_view s"
proof (induction bs arbitrary: s)
  case (Cons b bs)
  have "round_view (wahoo_emit [SentRecp recp] t) = round_view t" for recp t
    by (simp add: wahoo_emit_def round_view_def header_rounds_def)
  with Cons show ?case by (simp add: Let_def split: option.split)
qed simp

lemma round_view_should:
  "should_send_vote r o' p i s = (s1, b) \<Longrightarrow> round_view s1 = round_view s"
  by (auto simp: should_send_vote_def round_view_def header_rounds_def Let_def split: if_splits)

lemma round_view_emit:
  "(\<And>ts h. SentHeader ts h \<notin> set es) \<Longrightarrow> round_view (wahoo_emit es s) = round_view s"
proof -
  assume "\<And>ts h. SentHeader ts h \<notin> set es"
  then have "header_rounds_of es = []" by (induction es rule: header_rounds_of.induct) auto
  then show ?thesis by (simp add: wahoo_emit_def round_view_def header_rounds_def)
qed

lemma round_view_send: "send_vote target v s = Inr s' \<Longrightarrow> round_view s' = round_view s"
  by (auto simp: send_vote_def round_view_emit split: sum.splits)

lemma round_view_votes:
  "dispatch_pb_action env a s = Inr (s', cs) \<Longrightarrow> round_view s' = round_view s \<and> pending_rounds cs = []"
  "send_epbc_vote env r i b p s = Inr (s', cs) \<Longrightarrow> round_view s' = round_view s \<and> pending_rounds cs = []"
  by (auto simp: dispatch_pb_action_def send_epbc_vote_def Let_def round_view_emit
      split: PbAction.splits option.splits prod.splits bool.splits if_splits dest!: round_view_send round_view_should)

lemma round_view_calls:
  assumes "wahoo_call env c s = Inr (s', cs)" and "\<And>r. c \<noteq> BroadcastBlock r" and "\<And>r h. c \<noteq> BroadcastHeader r h"
    and "\<And>r. c \<noteq> TryToNextRound r"
  shows "round_view s' = round_view s \<and> pending_rounds cs = []"
proof (cases c)
  case (TryToCommitLeader r)
  with assms(1) show ?thesis using round_view_same_dag [OF same_dag_commit] by auto
next
  case (DispatchPb a)
  with assms(1) show ?thesis using round_view_votes(1) by simp
next
  case (SendEpbcVote r i b p)
  with assms(1) show ?thesis using round_view_votes(2) by simp
next
  case (HandleElect e)
  with assms(1) have "handle_elect env e s = Inr (s', cs)" by simp
  then show ?thesis
  proof (rule handle_elect_changes)
    fix es tc le l
    assume "s' = s\<lparr>wn_elect := es, wn_elect_coin := tc, wn_leader_elect := le, wn_leader := l\<rparr>" "set cs \<subseteq> range TryToCommitLeader"
    moreover from this(2) have "pending_rounds cs = []" by (induction cs) auto
    ultimately show ?thesis by (simp add: round_view_def header_rounds_def)
  qed
qed (use assms in \<open>auto simp: wahoo_handle_message_def with_pb_def handle_fast_block_def handle_epbc_vote_def
    handle_epbc_certificate_def handle_ready_def check_if_enough_ready_def store_ready_def handle_done_def store_done_def
    bump_round_def broadcast_elect_def send_wahoo_def send_ready_def try_to_update_dag_def
    store_pending_block_def retry_pending_epbc_def try_to_update_dag_from_pending_def
    wahoo_emit_def round_view_def header_rounds_def Let_def
    split: WahooMessage.splits if_splits option.splits prod.splits sum.splits WahooVotePhase.splits\<close>)

text \<open>
  A node that does not equivocate has at most one proposal pending, on top of the stack, and
  the rounds it proposed for are increasing.  The round counter wraps after all 64-bit
  rounds, so the invariant is stated for fewer round changes.
\<close>

definition proposal_inv :: "NodeCall list \<Rightarrow> WahooNode \<Rightarrow> bool" where
  "proposal_inv stack s \<longleftrightarrow> \<not> is_equivocating (wn_byzantine s) \<and>
     (length (wn_next_round_signaled s) + 1 < 2 ^ 64 \<longrightarrow>
        wn_round s = length (wn_next_round_signaled s) + 1 \<and> pending_rounds (tl stack) = [] \<and>
        sorted_wrt (<) (header_rounds s @ pending_rounds stack) \<and>
        (\<forall>r \<in> set (header_rounds s @ pending_rounds stack). r \<le> wn_round s))"

lemma proposal_inv_frame:
  assumes "proposal_inv (c # rest) s" and "round_view s' = round_view s" and "pending_rounds cs = []" and "pending_rounds [c] = []"
  shows "proposal_inv (cs @ rest) s'"
proof -
  have same: "wn_round s' = wn_round s" "wn_next_round_signaled s' = wn_next_round_signaled s"
    "wn_byzantine s' = wn_byzantine s" "header_rounds s' = header_rounds s"
    using assms(2) by (simp_all add: round_view_def)
  have c: "pending_rounds (c # rest) = pending_rounds rest"
    using assms(4) pending_rounds_append [of "[c]" rest] by simp
  show ?thesis
    using assms(1) pending_rounds_tl [of "cs @ rest"] unfolding proposal_inv_def same c list.sel
    by (auto simp: assms(3))
qed

lemma broadcast_block_honest:
  assumes "broadcast_block env r s = (s', cs)" and "\<not> is_equivocating (wn_byzantine s)"
  obtains h tail where "cs = BroadcastHeader r h # tail" "h_round h = r" "pending_rounds tail = []" "round_view s' = round_view s"
proof -
  obtain s1 block where b: "new_block env r (select_previous_blocks env (r - 1) s) s = (s1, block)" by fastforce
  have v: "round_view s1 = round_view s" "h_round block = r"
    using b by (auto simp: new_block_def Let_def round_view_def header_rounds_def split: prod.splits)
  define h where "h = block\<lparr>h_signature := sig_new (ne_crypto env) (h_id block) (ne_secret env)\<rparr>"
  define s2 where "s2 = s1\<lparr>wn_block_send := List.insert r (wn_block_send s1)\<rparr>"
  have r2: "round_view s2 = round_view s1" by (simp add: s2_def round_view_def header_rounds_def)
  have "signed_attack_headers lib secret (wn_byzantine s) h Wahoo [] = [h]" for lib secret
    using assms(2) by (simp add: signed_attack_headers_def is_equivocating_def)
  with assms(1) have "s' = (if 3 \<le> r \<and> r mod 2 = 1 then broadcast_self_recps env (r - 2) s2 else s2)"
    "cs = BroadcastHeader r h # (if r mod 2 = 0 then [BroadcastElect r] else [])"
    unfolding broadcast_block_def b Let_def prod.case h_def [symmetric] s2_def [symmetric] by (simp_all del: One_nat_def split del: if_split)
  then show thesis using v r2
    by (intro that [of h "if r mod 2 = 0 then [BroadcastElect r] else []"]) (auto simp: h_def broadcast_self_recps_def)
qed

lemma broadcast_header_rounds:
  assumes "broadcast_header env r h s = (s', cs)"
  shows "wn_round s' = wn_round s" "wn_next_round_signaled s' = wn_next_round_signaled s" "wn_byzantine s' = wn_byzantine s"
    "header_rounds s' = header_rounds s @ [h_round h]" "pending_rounds cs = []"
  using assms by (auto simp: broadcast_header_def with_pb_def wahoo_emit_def header_rounds_def Let_def split: if_splits)

lemma try_to_next_round_cases:
  assumes "try_to_next_round r s = (s', cs)"
  obtains "s' = s" "cs = []"
  | "s' = s\<lparr>wn_next_round_signaled := r # wn_next_round_signaled s, wn_round := u64_add (wn_round s) 1\<rparr>" "r = wn_round s"
    "cs = [BroadcastBlock (u64_add (wn_round s) 1), TryToNextRound (u64_add (wn_round s) 1)]"
proof (cases "s' = s \<and> cs = []")
  case False
  with assms have "r = wn_round s" by (auto simp: try_to_next_round_def split: if_splits)
  with assms False that(2) show thesis unfolding try_to_next_round_def Let_def by (simp split: if_splits)
qed (use that(1) in blast)

lemma proposal_inv_block:
  assumes "proposal_inv (BroadcastBlock r # rest) s" and "broadcast_block env r s = (s', cs)"
  shows "proposal_inv (cs @ rest) s'"
proof -
  have "\<not> is_equivocating (wn_byzantine s)" using assms(1) by (simp add: proposal_inv_def)
  from assms(2) this obtain h tail where cs: "cs = BroadcastHeader r h # tail" "h_round h = r" "pending_rounds tail = []"
    and view: "round_view s' = round_view s" by (rule broadcast_block_honest)
  have same: "wn_round s' = wn_round s" "wn_next_round_signaled s' = wn_next_round_signaled s"
    "wn_byzantine s' = wn_byzantine s" "header_rounds s' = header_rounds s" using view by (simp_all add: round_view_def)
  show ?thesis using assms(1) unfolding proposal_inv_def same by (auto simp: cs)
qed

lemma proposal_inv_header:
  assumes "proposal_inv (BroadcastHeader r h # rest) s" and "broadcast_header env r h s = (s', cs)"
  shows "proposal_inv (cs @ rest) s'"
  using assms(1) pending_rounds_tl [of "cs @ rest"] unfolding proposal_inv_def broadcast_header_rounds(1-4) [OF assms(2)]
  by (auto simp: broadcast_header_rounds(5) [OF assms(2)])

lemma proposal_inv_round:
  assumes "proposal_inv (TryToNextRound r # rest) s" and "try_to_next_round r s = (s', cs)"
  shows "proposal_inv (cs @ rest) s'"
  using assms(2)
proof (cases rule: try_to_next_round_cases)
  case 1
  show ?thesis using assms(1) pending_rounds_tl [of rest] by (auto simp: proposal_inv_def 1)
next
  case 2
  have "header_rounds s' = header_rounds s" by (simp add: 2(1) header_rounds_def)
  with assms(1) show ?thesis
    by (auto simp: proposal_inv_def 2(1,3) sorted_wrt_append less_Suc_eq_le intro: le_SucI)
qed

lemma proposal_inv_call:
  assumes "proposal_inv (c # rest) s" and "wahoo_call env c s = Inr (s', cs)"
  shows "proposal_inv (cs @ rest) s'"
proof (cases "(\<exists>r. c = BroadcastBlock r) \<or> (\<exists>r h. c = BroadcastHeader r h) \<or> (\<exists>r. c = TryToNextRound r)")
  case True
  then show ?thesis
  proof (elim disjE exE)
    fix r assume "c = BroadcastBlock r"
    with assms show ?thesis by (intro proposal_inv_block [of r rest s env]) simp_all
  next
    fix r h assume "c = BroadcastHeader r h"
    with assms show ?thesis by (intro proposal_inv_header [of r h rest s env]) simp_all
  next
    fix r assume "c = TryToNextRound r"
    with assms show ?thesis by (intro proposal_inv_round [of r rest s]) simp_all
  qed
next
  case False
  then have "round_view s' = round_view s \<and> pending_rounds cs = []" by (intro round_view_calls [OF assms(2)]) simp_all
  moreover have "pending_rounds [c] = []" using False by (cases c) auto
  ultimately show ?thesis using proposal_inv_frame [OF assms(1)] by simp
qed

lemma round_view_input: "wahoo_input i s = (s', cs) \<Longrightarrow> round_view s' = round_view s \<and> pending_rounds cs = []"
  by (cases i) (auto simp: wahoo_input_def round_view_def header_rounds_def handle_recp_def Let_def split: if_splits)

lemma wahoo_reachable_proposals:
  assumes "wahoo_node_new env name c cp hs byz = Inr s0" and "\<not> is_equivocating byz" and "wahoo_reachable env arrives s0 stack s"
  shows "proposal_inv stack s"
  using assms(3)
proof (rule wahoo_reachable_inv [where I = proposal_inv])
  show "proposal_inv [BroadcastBlock 1] s0"
    using wahoo_node_new_fields [OF assms(1)] assms(2) by (simp add: proposal_inv_def header_rounds_def)
  fix i t t' cs
  assume t: "proposal_inv [] t" "wahoo_input i t = (t', cs)"
  from round_view_input [OF t(2)] have same: "wn_round t' = wn_round t" "wn_next_round_signaled t' = wn_next_round_signaled t"
    "wn_byzantine t' = wn_byzantine t" "header_rounds t' = header_rounds t" "pending_rounds cs = []"
    by (simp_all add: round_view_def)
  from t(1) pending_rounds_tl [of cs] show "proposal_inv cs t'" unfolding proposal_inv_def same by (auto simp: same(5))
qed (use proposal_inv_call in blast)

end
