(* ===== verification/Wahoo_Safety.thy ===== *)
theory Wahoo_Safety
  imports Wahoo_Votes
begin

text \<open>
  What a Wahoo node commits, in every reachable state: each block once, with all its
  ancestors; and what two nodes deliver.
\<close>

section \<open>Headers of 64-bit rounds\<close>

text \<open>
  A header as it comes off the wire has a 64-bit round.  Iterating a \<^verbatim>\<open>HashMap\<close> visits each
  entry once, in some order.
\<close>

definition wire_header :: "Header \<Rightarrow> bool" where
  "wire_header h \<longleftrightarrow> h_round h < 2 ^ 64"

definition iterates :: "WahooEnv \<Rightarrow> bool" where
  "iterates env \<longleftrightarrow> (\<forall>xs. mset (ne_slot_order env xs) = mset xs) \<and> (\<forall>xs. mset (ne_level_order env xs) = mset xs) \<and>
     (\<forall>xs. mset (ne_share_order env xs) = mset xs)"

lemma iterates_sets:
  assumes "iterates env"
  shows "set (ne_slot_order env xs) = set xs" and "set (ne_level_order env ys) = set ys"
  using assms by (metis iterates_def set_mset_mset)+

fun message_headers :: "WahooMessage \<Rightarrow> Header set" where
  "message_headers (WBlock b) = {b}"
| "message_headers (WPbcCertificate c) = {header c}"
| "message_headers (WEpbcCertificate c) = {header c}"
| "message_headers _ = {}"

fun action_headers :: "PbAction \<Rightarrow> Header set" where
  "action_headers (OutputBlock b) = {b}"
| "action_headers _ = {}"

fun call_headers :: "NodeCall \<Rightarrow> Header set" where
  "call_headers (HandleMessage m) = message_headers m"
| "call_headers (DispatchPb a) = action_headers a"
| "call_headers (HandleFastBlock b) = {b}"
| "call_headers (HandleEpbcCertificate c) = {header c}"
| "call_headers (BroadcastHeader _ h) = {h}"
| "call_headers (TryToUpdateDag b) = {b}"
| "call_headers _ = {}"

definition vals :: "('k \<times> 'v) list \<Rightarrow> 'v set" where
  "vals m = snd ` set m"

definition state_headers :: "WahooNode \<Rightarrow> Header set" where
  "state_headers s = vals (wn_epbc_blocks s) \<union> vals (wn_pending_blocks s) \<union> vals (pbs_pending_blocks (wn_pb s))"

definition stack_headers :: "NodeCall list \<Rightarrow> Header set" where
  "stack_headers cs = (\<Union>c \<in> set cs. call_headers c)"

lemma stack_headers_simps [simp]:
  "stack_headers [] = {}" "stack_headers (c # cs) = call_headers c \<union> stack_headers cs"
  "stack_headers (cs @ ds) = stack_headers cs \<union> stack_headers ds"
  by (auto simp: stack_headers_def)

lemma values_update: "vals (AList.update k v m) \<subseteq> insert v (vals m)"
  using set_update_subset [of k v m] by (force simp: vals_def)

lemma level_values: "vals (level r m) \<subseteq> vals m"
  by (force simp: level_def vals_def)

lemma filter_values: "vals (filter P m) \<subseteq> vals m"
  by (force simp: vals_def)

lemma map_of_value: "map_of m k = Some v \<Longrightarrow> v \<in> vals m"
  by (force simp: vals_def dest: map_of_SomeD)

lemma store_block_values: "vals (pbs_pending_blocks (store_block_msg b pb)) \<subseteq> insert b (vals (pbs_pending_blocks pb))"
  using values_update [of "(h_round b, h_author b)" b "pbs_pending_blocks pb"] by (auto simp: store_block_msg_def)

lemma try_to_output_values:
  assumes "try_to_output sl pb = (pb', acts)"
  shows "pbs_pending_blocks pb' = pbs_pending_blocks pb \<and> stack_headers (map DispatchPb acts) \<subseteq> vals (pbs_pending_blocks pb)"
  using assms by (auto simp: try_to_output_def dest: map_of_value split: if_splits option.splits)

lemma pb_handle_block_values:
  assumes "pb_handle_block lib b pb = (pb', acts)"
  shows "vals (pbs_pending_blocks pb') \<union> stack_headers (map DispatchPb acts) \<subseteq> insert b (vals (pbs_pending_blocks pb))"
  using assms store_block_values [of b pb]
  by (auto simp: pb_handle_block_def Let_def split: if_splits prod.splits dest!: try_to_output_values)

lemma pb_handle_certificate_values:
  assumes "pb_handle_certificate c pb = (pb', acts)"
  shows "vals (pbs_pending_blocks pb') \<union> stack_headers (map DispatchPb acts) \<subseteq> insert (header c) (vals (pbs_pending_blocks pb))"
proof -
  define blocks where "blocks = AList.update (cert_round c, cert_origin c) (header c) (pbs_pending_blocks pb)"
  have "pbs_pending_blocks pb' = blocks \<and> stack_headers (map DispatchPb acts) \<subseteq> vals blocks"
    using assms by (auto simp: pb_handle_certificate_def pb_store_certificate_def blocks_def Let_def dest!: try_to_output_values)
  moreover have "vals blocks \<subseteq> insert (header c) (vals (pbs_pending_blocks pb))" unfolding blocks_def by (rule values_update)
  ultimately show ?thesis by blast
qed

lemma pb_handle_vote_values:
  assumes "pb_handle_vote v pb = (pb', acts)"
  shows "vals (pbs_pending_blocks pb') \<union> stack_headers (map DispatchPb acts) \<subseteq> vals (pbs_pending_blocks pb)"
  using assms unfolding pb_handle_vote_def Let_def
  by (auto simp: pb_store_certificate_def dest!: try_to_output_values
      split: option.splits prod.splits sum.splits WahooQuorum.splits if_splits)

text \<open>No call invents a header, except the broadcast of the node's own block.\<close>

lemma pb_call_headers:
  assumes "with_pb r s = (s', cs)"
    and "vals (pbs_pending_blocks (fst r)) \<union> stack_headers (map DispatchPb (snd r)) \<subseteq> H \<union> vals (pbs_pending_blocks (wn_pb s))"
  shows "state_headers s' \<union> stack_headers cs \<subseteq> H \<union> state_headers s"
  using assms by (auto simp: with_pb_def state_headers_def)

lemma message_call_headers:
  assumes "wahoo_handle_message env m s = (s', cs)"
  shows "state_headers s' \<union> stack_headers cs \<subseteq> message_headers m \<union> state_headers s"
proof (cases m)
  case (WBlock b)
  show ?thesis
  proof (cases "h_round b mod 2 = 0")
    case True
    with assms WBlock have "with_pb (pb_handle_block (ne_crypto env) b (wn_pb s)) s = (s', cs)" by (simp add: wahoo_handle_message_def)
    then have "state_headers s' \<union> stack_headers cs \<subseteq> {b} \<union> state_headers s"
      by (rule pb_call_headers) (use pb_handle_block_values [OF surjective_pairing, of "ne_crypto env" b "wn_pb s"] in simp)
    then show ?thesis by (simp add: WBlock)
  qed (use assms WBlock in \<open>auto simp: wahoo_handle_message_def\<close>)
next
  case (WVote v)
  show ?thesis
  proof (cases "v_round v mod 2 = 0")
    case True
    with assms WVote have "with_pb (pb_handle_vote v (wn_pb s)) s = (s', cs)" by (simp add: wahoo_handle_message_def)
    then have "state_headers s' \<union> stack_headers cs \<subseteq> {} \<union> state_headers s"
      by (rule pb_call_headers) (use pb_handle_vote_values [OF surjective_pairing, of v "wn_pb s"] in simp)
    then show ?thesis by (simp add: WVote)
  qed (use assms WVote in \<open>auto simp: wahoo_handle_message_def\<close>)
next
  case (WPbcCertificate c)
  with assms have "with_pb (pb_handle_certificate c (wn_pb s)) s = (s', cs)" by (simp add: wahoo_handle_message_def)
  then have "state_headers s' \<union> stack_headers cs \<subseteq> {header c} \<union> state_headers s"
    by (rule pb_call_headers) (use pb_handle_certificate_values [OF surjective_pairing, of c "wn_pb s"] in simp)
  then show ?thesis by (simp add: WPbcCertificate)
qed (use assms in \<open>auto simp: wahoo_handle_message_def\<close>)

lemma state_headers_emit [simp]: "state_headers (wahoo_emit es s) = state_headers s"
  by (simp add: wahoo_emit_def state_headers_def)

lemma should_send_vote_changes:
  assumes "should_send_vote r origin p i s = (s1, x)"
  obtains sv where "s1 = s\<lparr>wn_sent_votes := sv\<rparr>"
  using assms that [of "wn_sent_votes s"] that by (simp add: should_send_vote_def Let_def split: if_splits) blast

lemma send_vote_changes: "send_vote target v s = Inr s' \<Longrightarrow> s' = wahoo_emit [SentVote target v] s"
  by (simp add: send_vote_def split: sum.splits)

text \<open>Casting a vote touches the record of votes and the events only.\<close>

definition vote_changes :: "WahooNode \<Rightarrow> WahooNode \<Rightarrow> bool" where
  "vote_changes s s' \<longleftrightarrow> (\<exists>sv es. s' = s\<lparr>wn_sent_votes := sv, wn_events := wn_events s @ es\<rparr> \<and> committed_headers es = [])"

lemma vote_changesI:
  "s' = s\<lparr>wn_sent_votes := sv, wn_events := wn_events s @ es\<rparr> \<Longrightarrow> committed_headers es = [] \<Longrightarrow> vote_changes s s'"
  unfolding vote_changes_def by blast

lemma dispatch_changes:
  assumes "dispatch_pb_action env a s = Inr (s', cs)"
  shows "vote_changes s s' \<and> stack_headers cs \<subseteq> action_headers a"
proof (cases a)
  case (SendVote target v)
  obtain phase where p: "v_wahoo_phase v = Some phase"
    using assms SendVote by (cases "v_wahoo_phase v") (simp_all add: dispatch_pb_action_def)
  obtain s1 x where x: "should_send_vote (v_round v) (v_origin v) phase (v_id v) s = (s1, x)" by fastforce
  obtain sv where sv: "s1 = s\<lparr>wn_sent_votes := sv\<rparr>" using x by (rule should_send_vote_changes)
  show ?thesis
  proof (cases x)
    case True
    with assms SendVote p x have s': "s' = wahoo_emit [SentVote target (sign_vote env v)] (wahoo_emit [SignedVote (sign_vote env v)] s1)" "cs = []"
      by (auto simp: dispatch_pb_action_def Let_def dest: send_vote_changes)
    have "vote_changes s s'"
      by (rule vote_changesI [where sv = sv and es = "[SignedVote (sign_vote env v), SentVote target (sign_vote env v)]"])
        (simp_all add: s'(1) sv wahoo_emit_def)
    with s'(2) show ?thesis by simp
  next
    case False
    with assms SendVote p x have s': "s' = s1" "cs = []" by (simp_all add: dispatch_pb_action_def)
    have "vote_changes s s'" by (rule vote_changesI [where sv = sv and es = "[]"]) (simp_all add: s'(1) sv)
    with s'(2) show ?thesis by simp
  qed
next
  case (BroadcastCertificate c)
  with assms have s': "s' = wahoo_emit [SentCertificate c] s" "cs = []" by (simp_all add: dispatch_pb_action_def)
  have "vote_changes s s'"
    by (rule vote_changesI [where sv = "wn_sent_votes s" and es = "[SentCertificate c]"]) (simp_all add: s'(1) wahoo_emit_def)
  with s'(2) show ?thesis by simp
next
  case (OutputBlock b)
  with assms have s': "s' = s" "cs = [TryToUpdateDag b]" by (simp_all add: dispatch_pb_action_def)
  have "vote_changes s s'" by (rule vote_changesI [where sv = "wn_sent_votes s" and es = "[]"]) (simp_all add: s'(1))
  with s'(2) OutputBlock show ?thesis by simp
qed

lemma send_epbc_vote_changes:
  assumes "send_epbc_vote env r i b p s = Inr (s', cs)"
  shows "vote_changes s s' \<and> stack_headers cs = {}"
proof -
  obtain s1 x where x: "should_send_vote r b p i s = (s1, x)" by fastforce
  obtain sv where sv: "s1 = s\<lparr>wn_sent_votes := sv\<rparr>" using x by (rule should_send_vote_changes)
  define v where "v = sign_vote env (unsigned_vote i r b (wn_name s) p)"
  show ?thesis
  proof (cases x)
    case True
    with assms x have "(s' = wahoo_emit [SignedVote v] s1 \<and> cs = [HandleEpbcVote v]) \<or>
        (s' = wahoo_emit [SentVote b v] (wahoo_emit [SignedVote v] s1) \<and> cs = [])"
      by (auto simp: send_epbc_vote_def v_def [symmetric] Let_def split: if_splits dest: send_vote_changes)
    then show ?thesis
    proof (elim disjE conjE)
      assume s': "s' = wahoo_emit [SignedVote v] s1" "cs = [HandleEpbcVote v]"
      have "vote_changes s s'" by (rule vote_changesI [where sv = sv and es = "[SignedVote v]"]) (simp_all add: s'(1) sv wahoo_emit_def)
      with s'(2) show ?thesis by simp
    next
      assume s': "s' = wahoo_emit [SentVote b v] (wahoo_emit [SignedVote v] s1)" "cs = []"
      have "vote_changes s s'"
        by (rule vote_changesI [where sv = sv and es = "[SignedVote v, SentVote b v]"]) (simp_all add: s'(1) sv wahoo_emit_def)
      with s'(2) show ?thesis by simp
    qed
  next
    case False
    with assms x have s': "s' = s1" "cs = []" by (simp_all add: send_epbc_vote_def)
    have "vote_changes s s'" by (rule vote_changesI [where sv = sv and es = "[]"]) (simp_all add: s'(1) sv)
    with s'(2) show ?thesis by simp
  qed
qed

lemma broadcast_header_headers:
  assumes "broadcast_header env r h s = (s', cs)"
  shows "state_headers s' \<union> stack_headers cs \<subseteq> {h} \<union> state_headers s"
proof (cases "r mod 2 = 0")
  case True
  define pb where "pb = (if h_equivocation_tag h = 0 then pb_broadcast_block h (wn_pb s) else wn_pb s)"
  have "wn_pb (wahoo_emit es s) = wn_pb s" for es by (simp add: wahoo_emit_def)
  with assms True have "\<exists>es. with_pb (pb_handle_block (ne_crypto env) h pb) (wahoo_emit es s) = (s', cs)"
    unfolding broadcast_header_def pb_def Let_def by auto
  then obtain es where run: "with_pb (pb_handle_block (ne_crypto env) h pb) (wahoo_emit es s) = (s', cs)" by blast
  have "vals (pbs_pending_blocks pb) \<subseteq> insert h (vals (pbs_pending_blocks (wn_pb s)))"
    using store_block_values [of h "wn_pb s"] by (auto simp: pb_def pb_broadcast_block_def)
  with pb_handle_block_values [OF surjective_pairing, of "ne_crypto env" h pb]
  have "vals (pbs_pending_blocks (fst (pb_handle_block (ne_crypto env) h pb))) \<union>
      stack_headers (map DispatchPb (snd (pb_handle_block (ne_crypto env) h pb)))
      \<subseteq> {h} \<union> vals (pbs_pending_blocks (wn_pb (wahoo_emit es s)))"
    by (auto simp: wahoo_emit_def)
  from pb_call_headers [OF run this] show ?thesis by simp
qed (use assms in \<open>auto simp: broadcast_header_def Let_def\<close>)

lemma state_headers_vote_changes: "vote_changes s s' \<Longrightarrow> state_headers s' = state_headers s"
  by (auto simp: vote_changes_def state_headers_def)

lemma state_headers_same_dag: "same_dag s s' \<Longrightarrow> state_headers s' = state_headers s"
  by (auto simp: same_dag_def state_headers_def)

lemma state_headers_recp [simp]: "state_headers (handle_recp recp s) = state_headers s"
  by (simp add: handle_recp_def state_headers_def Let_def)

lemma state_headers_self_recps [simp]: "state_headers (self_recps env r bs s) = state_headers s"
  by (induction bs arbitrary: s) (simp_all add: Let_def split: option.split)

lemma pending_call_headers:
  assumes "iterates env"
  shows "stack_headers (map TryToUpdateDag (values_of (ne_slot_order env (level r m)))) \<subseteq> vals m"
  using iterates_sets(1) [OF assms, of "level r m"] level_values [of r m] by (auto simp: stack_headers_def vals_def)

lemma retry_call_headers: "retry_pending_epbc env r s = (s', cs) \<Longrightarrow> s' = s \<and> stack_headers cs = {}"
  by (auto simp: retry_pending_epbc_def stack_headers_def Let_def)

lemma epbc_quorum_inner: "epbc_quorum q = Some (p, cert) \<Longrightarrow> cert = wahoo_quorum_inner q"
  by (cases q) (auto simp: epbc_quorum_def)

lemma epbc_vote_changes:
  assumes "handle_epbc_vote v s = (s', cs)"
  obtains ev ct es where "s' = s\<lparr>wn_epbc_votes := ev, wn_epbc_cert_sent := ct, wn_events := wn_events s @ es\<rparr>"
    and "committed_headers es = []" and "stack_headers cs \<subseteq> vals (wn_epbc_blocks s)"
proof (cases "map_of (wn_epbc_blocks s) (v_round v, v_origin v)")
  case None
  with assms show thesis
    by (intro that [where ev = "wn_epbc_votes s" and ct = "wn_epbc_cert_sent s" and es = "[]"])
      (auto simp: handle_epbc_vote_def)
next
  case (Some h)
  define agg where "agg = (case map_of (wn_epbc_votes s) (v_round v, v_origin v) of None \<Rightarrow> wahoo_votes_aggregator_new | Some a \<Rightarrow> a)"
  obtain agg' r where app: "wahoo_votes_append (wn_committee s) h agg v = (agg', r)" by fastforce
  define ev where "ev = AList.update (v_round v, v_origin v) agg' (wn_epbc_votes s)"
  have "(s' = s\<lparr>wn_epbc_votes := ev\<rparr> \<and> cs = []) \<or> (\<exists>q p cert. r = Inr (Some q) \<and> epbc_quorum q = Some (p, cert) \<and>
      s' = wahoo_emit [SentCertificate cert] (s\<lparr>wn_epbc_votes := ev, wn_epbc_cert_sent := (v_round v, v_origin v, p) # wn_epbc_cert_sent s\<rparr>) \<and>
      cs = [HandleEpbcCertificate cert])"
    using assms Some app unfolding handle_epbc_vote_def Let_def agg_def [symmetric]
    by (simp add: ev_def [symmetric] split: sum.splits option.splits prod.splits if_splits)
  then show thesis
  proof (elim disjE exE conjE)
    fix q p cert
    assume q: "r = Inr (Some q)" "epbc_quorum q = Some (p, cert)"
      and s': "s' = wahoo_emit [SentCertificate cert] (s\<lparr>wn_epbc_votes := ev, wn_epbc_cert_sent := (v_round v, v_origin v, p) # wn_epbc_cert_sent s\<rparr>)"
        "cs = [HandleEpbcCertificate cert]"
    have "header cert = h" using wahoo_quorum_header [of "wn_committee s" h agg v agg' q] app q epbc_quorum_inner by simp
    with map_of_value [OF Some] show thesis
      by (intro that [where ev = ev and ct = "(v_round v, v_origin v, p) # wn_epbc_cert_sent s" and es = "[SentCertificate cert]"])
        (simp_all add: s' wahoo_emit_def)
  qed (intro that [where ev = ev and ct = "wn_epbc_cert_sent s" and es = "[]"], simp_all)
qed

lemma other_call_headers:
  assumes "iterates env" and "wahoo_call env c s = Inr (s', cs)" and "\<And>r. c \<noteq> BroadcastBlock r"
  shows "state_headers s' \<union> stack_headers cs \<subseteq> call_headers c \<union> state_headers s"
proof (cases c)
  case (HandleMessage m)
  with assms(2) message_call_headers [of env m s s' cs] show ?thesis by simp
next
  case (DispatchPb a)
  with assms(2) have "vote_changes s s' \<and> stack_headers cs \<subseteq> action_headers a" by (intro dispatch_changes) simp
  with DispatchPb state_headers_vote_changes show ?thesis by fastforce
next
  case (SendEpbcVote r i b p)
  with assms(2) have "vote_changes s s' \<and> stack_headers cs = {}" by (intro send_epbc_vote_changes) simp
  with state_headers_vote_changes show ?thesis by fastforce
next
  case (HandleFastBlock b)
  with assms(2) values_update [of "(h_round b, h_author b)" b "wn_epbc_blocks s"] show ?thesis
    by (auto simp: handle_fast_block_def state_headers_def Let_def split: if_splits)
next
  case (HandleEpbcCertificate ct)
  with assms(2) values_update [of "(cert_round ct, cert_origin ct)" "header ct" "wn_epbc_blocks s"] show ?thesis
    by (auto simp: handle_epbc_certificate_def state_headers_def Let_def split: option.splits WahooVotePhase.splits if_splits)
next
  case (HandleEpbcVote v)
  have "state_headers s' = state_headers s \<and> stack_headers cs \<subseteq> vals (wn_epbc_blocks s)"
    by (rule epbc_vote_changes [of v s s' cs]) (use assms(2) HandleEpbcVote in \<open>auto simp: state_headers_def\<close>)
  then show ?thesis by (auto simp: state_headers_def)
next
  case (HandleElect e)
  with assms(2) have "handle_elect env e s = Inr (s', cs)" by simp
  then show ?thesis by (rule handle_elect_changes) (auto simp: state_headers_def stack_headers_def)
next
  case (BroadcastHeader r h)
  with assms(2) broadcast_header_headers [of env r h s s' cs] show ?thesis by simp
next
  case (TryToUpdateDag b)
  with assms(2) values_update [of "(h_round b, h_author b)" b "wn_pending_blocks s"] show ?thesis
    by (auto simp: try_to_update_dag_def store_pending_block_def bump_round_def state_headers_def Let_def split: if_splits)
next
  case (UpdateDagFromPending r)
  with assms(2) pending_call_headers [OF assms(1), of r "wn_pending_blocks s"] show ?thesis
    by (auto simp: try_to_update_dag_from_pending_def state_headers_def dest!: subsetD [OF filter_values])
next
  case (RetryPendingEpbc r)
  with assms(2) retry_call_headers [of env r s s' cs] show ?thesis by auto
next
  case (TryToCommitLeader r)
  with assms(2) state_headers_same_dag [OF same_dag_commit [of s env r]] show ?thesis by auto
next
  case (BroadcastElect r)
  with assms(2) show ?thesis
    by (auto simp: broadcast_elect_def state_headers_def Let_def split: option.splits prod.splits)
qed (use assms in \<open>auto simp: handle_ready_def check_if_enough_ready_def store_ready_def handle_done_def store_done_def
    bump_round_def send_wahoo_def send_ready_def try_to_next_round_def state_headers_def wahoo_emit_def Let_def
    split: if_splits option.splits sum.splits\<close>)

lemma broadcast_block_headers:
  assumes "broadcast_block env r s = (s', cs)"
  shows "state_headers s' = state_headers s" and "\<And>h. h \<in> stack_headers cs \<Longrightarrow> h_round h = r"
proof -
  obtain s1 block where b: "new_block env r (select_previous_blocks env (r - 1) s) s = (s1, block)" by fastforce
  have v: "state_headers s1 = state_headers s" "h_round block = r"
    using b by (auto simp: new_block_def Let_def state_headers_def split: prod.splits)
  define h where "h = block\<lparr>h_signature := sig_new (ne_crypto env) (h_id block) (ne_secret env)\<rparr>"
  define s2 where "s2 = s1\<lparr>wn_block_send := List.insert r (wn_block_send s1)\<rparr>"
  have s2: "state_headers s2 = state_headers s1" by (simp add: s2_def state_headers_def)
  have attack: "h_round h' = r" if "h' \<in> set (signed_attack_headers lib secret cfg h Wahoo [])" for h' lib secret cfg
    using that v(2) by (auto simp: signed_attack_headers_def certified_variant_def resign_def is_mahi_mahi_def h_def Let_def split: if_splits)
  from assms have s': "s' = (if 3 \<le> r \<and> r mod 2 = 1 then broadcast_self_recps env (r - 2) s2 else s2)"
    and cs: "cs = map (BroadcastHeader r) (signed_attack_headers (ne_crypto env) (ne_secret env) (wn_byzantine s) h Wahoo [])
      @ (if r mod 2 = 0 then [BroadcastElect r] else [])"
    unfolding broadcast_block_def b Let_def prod.case h_def [symmetric] s2_def [symmetric]
    by (simp_all del: One_nat_def split del: if_split)
  show "state_headers s' = state_headers s" using v s2 by (simp add: s' broadcast_self_recps_def)
  show "h_round h' = r" if "h' \<in> stack_headers cs" for h'
    using that attack by (auto simp: cs stack_headers_def split: if_splits)
qed

text \<open>Every header of a node has a 64-bit round.\<close>

definition wire_inv :: "NodeCall list \<Rightarrow> WahooNode \<Rightarrow> bool" where
  "wire_inv stack s \<longleftrightarrow> (\<forall>h \<in> stack_headers stack \<union> state_headers s. wire_header h) \<and> (\<forall>r. BroadcastBlock r \<in> set stack \<longrightarrow> r < 2 ^ 64)"

lemma broadcasts_pushed:
  assumes "wahoo_call env c s = Inr (s', cs)" and "BroadcastBlock r \<in> set cs"
  shows "r < 2 ^ 64"
proof -
  have "pending_rounds cs \<noteq> []" using assms(2) by (induction cs rule: pending_rounds.induct) auto
  then consider r' where "c = BroadcastBlock r'" | r' h where "c = BroadcastHeader r' h" | r' where "c = TryToNextRound r'"
    using round_view_calls [OF assms(1)] by blast
  then show ?thesis
  proof cases
    case 1
    then show ?thesis using assms by (auto simp: broadcast_block_def Let_def split: prod.splits if_splits)
  next
    case 2
    then show ?thesis using assms by (auto simp: broadcast_header_def with_pb_def Let_def split: if_splits)
  next
    case 3
    then show ?thesis using assms by (auto simp: try_to_next_round_def u64_add_def Let_def split: if_splits)
  qed
qed

lemma wire_inv_call:
  assumes "iterates env" and "wire_inv (c # rest) s" and "wahoo_call env c s = Inr (s', cs)"
  shows "wire_inv (cs @ rest) s'"
proof -
  have "wire_header h" if "h \<in> state_headers s' \<union> stack_headers cs" for h
  proof (cases "\<exists>r. c = BroadcastBlock r")
    case True
    then obtain r where r: "c = BroadcastBlock r" "r < 2 ^ 64" using assms(2) by (auto simp: wire_inv_def)
    with assms(3) have "broadcast_block env r s = (s', cs)" by simp
    from broadcast_block_headers [OF this] r(2) that assms(2) show ?thesis by (auto simp: wire_inv_def wire_header_def)
  next
    case False
    then have "\<And>r. c \<noteq> BroadcastBlock r" by blast
    from other_call_headers [OF assms(1,3) this] that have "h \<in> call_headers c \<union> state_headers s" by blast
    with assms(2) show ?thesis by (auto simp: wire_inv_def)
  qed
  with assms(2) broadcasts_pushed [OF assms(3)] show ?thesis by (auto simp: wire_inv_def)
qed

section \<open>Commits\<close>

definition commit_view ::
    "WahooNode \<Rightarrow> (slot \<times> Header) list \<times> (Digest \<times> Header) list \<times> Round \<times> (Digest \<times> Header) list \<times> Header list" where
  "commit_view s = (wn_dag s, wn_blocks_by_digest s, wn_chain_round s, wn_chain_blocks s, committed s)"

lemma wahoo_commit_inv_view:
  assumes "commit_view s' = commit_view s"
  shows "wahoo_commit_inv lib B s' = wahoo_commit_inv lib B s"
proof -
  have same: "wn_dag s' = wn_dag s" "wn_blocks_by_digest s' = wn_blocks_by_digest s" "wn_chain_round s' = wn_chain_round s"
    "wn_chain_blocks s' = wn_chain_blocks s" "committed s' = committed s"
    using assms by (simp_all add: commit_view_def)
  show ?thesis
    unfolding wahoo_commit_inv_def blocks_ok_def chain_ok_def closed_except_def same linked_same [OF same(2)] by simp
qed

lemma commit_view_recp [simp]: "commit_view (handle_recp recp s) = commit_view s"
  by (simp add: handle_recp_def commit_view_def committed_def Let_def)

lemma commit_view_self_recps [simp]: "commit_view (self_recps env r bs s) = commit_view s"
proof (induction bs arbitrary: s)
  case (Cons b bs)
  have "commit_view (wahoo_emit [SentRecp recp] t) = commit_view t" for recp t
    by (simp add: wahoo_emit_def commit_view_def committed_def)
  with Cons show ?case by (simp add: Let_def split: option.split)
qed simp

lemma commit_view_block: "broadcast_block env r s = (s', cs) \<Longrightarrow> commit_view s' = commit_view s"
  by (auto simp: broadcast_block_def new_block_def broadcast_self_recps_def Let_def split: prod.splits if_splits)
    (simp_all add: commit_view_def committed_def)

lemma commit_view_vote: "vote_changes s s' \<Longrightarrow> commit_view s' = commit_view s"
  by (auto simp: vote_changes_def commit_view_def committed_def)

lemma commit_view_calls:
  assumes "wahoo_call env c s = Inr (s', cs)" and "\<And>b. c \<noteq> TryToUpdateDag b" and "\<And>r. c \<noteq> TryToCommitLeader r"
  shows "commit_view s' = commit_view s"
proof (cases c)
  case (DispatchPb a)
  with assms(1) dispatch_changes [of env a s s' cs] commit_view_vote show ?thesis by simp
next
  case (SendEpbcVote r i b p)
  with assms(1) send_epbc_vote_changes [of env r i b p s s' cs] commit_view_vote show ?thesis by simp
next
  case (HandleEpbcVote v)
  with assms(1) have "handle_epbc_vote v s = (s', cs)" by simp
  then show ?thesis by (rule epbc_vote_changes) (simp add: commit_view_def committed_def)
next
  case (HandleElect e)
  with assms(1) have "handle_elect env e s = Inr (s', cs)" by simp
  then show ?thesis by (rule handle_elect_changes) (simp add: commit_view_def committed_def)
next
  case (BroadcastBlock r)
  with assms(1) show ?thesis using commit_view_block by simp
next
  case (BroadcastElect r)
  with assms(1) show ?thesis
    by (auto simp: broadcast_elect_def commit_view_def committed_def Let_def split: option.splits prod.splits)
qed (use assms in \<open>auto simp: wahoo_handle_message_def with_pb_def handle_fast_block_def
    handle_epbc_certificate_def handle_ready_def check_if_enough_ready_def store_ready_def handle_done_def store_done_def
    bump_round_def broadcast_header_def send_wahoo_def send_ready_def retry_pending_epbc_def
    try_to_update_dag_from_pending_def try_to_next_round_def wahoo_emit_def commit_view_def committed_def Let_def
    split: WahooMessage.splits if_splits option.splits sum.splits WahooVotePhase.splits\<close>)

text \<open>Adding a block whose parents are known.\<close>

lemma add_block_inv:
  assumes "wahoo_commit_inv lib B s" and "digests_separate lib B" and "B b" and "check_whether_can_add_to_dag b s"
    and "s1 = s\<lparr>wn_blocks_by_digest := AList.update (header_digest lib b) b (wn_blocks_by_digest s),
                wn_dag := AList.update (h_round b, h_author b) b (wn_dag s)\<rparr>"
  shows "wahoo_commit_inv lib B s1"
proof -
  have bbd: "map_of (wn_blocks_by_digest s1) d = (if d = header_digest lib b then Some b else map_of (wn_blocks_by_digest s) d)" for d
    by (simp add: assms(5))
  have known: "header_digest lib p = d" "B p" if "map_of (wn_blocks_by_digest s) d = Some p" for d p
    using that assms(1) by (auto simp: wahoo_commit_inv_def blocks_ok_def parents_linked_def)
  have round: "\<exists>q. map_of (wn_blocks_by_digest s1) d = Some q \<and> h_round q = h_round p"
    if "map_of (wn_blocks_by_digest s) d = Some p" for d p
  proof (cases "d = header_digest lib b")
    case True
    with known [OF that] assms(2,3) have "h_round b = h_round p" unfolding digests_separate_def by metis
    with True show ?thesis by (simp add: bbd)
  qed (use that in \<open>simp add: bbd\<close>)
  have keep: "parents_linked B s1 c" if "parents_linked B s c" for c
    using that round unfolding parents_linked_def by metis
  have new: "parents_linked B s1 b"
  proof -
    have "parents_linked B s b"
      using assms(3,4) by (auto simp: parents_linked_def check_whether_can_add_to_dag_def list_all_iff split: if_splits option.splits)
    then show ?thesis by (rule keep)
  qed
  have same: "wn_chain_blocks s1 = wn_chain_blocks s" "wn_chain_round s1 = wn_chain_round s" "committed s1 = committed s"
    by (simp_all add: assms(5) committed_def)
  have "blocks_ok lib B s1"
    using assms(1) keep new unfolding wahoo_commit_inv_def blocks_ok_def bbd by (auto split: if_splits)
  moreover have "(h_round b', h_author b') = sl \<and> parents_linked B s1 b'" if "map_of (wn_dag s1) sl = Some b'" for sl b'

  proof (cases "sl = (h_round b, h_author b)")
    case True
    with that have "b' = b" by (simp add: assms(5))
    with True new show ?thesis by simp
  next
    case False
    with that have "map_of (wn_dag s) sl = Some b'" by (simp add: assms(5))
    with assms(1) keep show ?thesis unfolding wahoo_commit_inv_def by blast
  qed
  moreover have "chain_ok lib B (wn_chain_round s) s1"
    using assms(1) keep unfolding wahoo_commit_inv_def chain_ok_def same by blast
  ultimately show ?thesis
    using assms(1) unfolding wahoo_commit_inv_def closed_except_def same by blast
qed

lemma try_to_update_dag_inv:
  assumes "wahoo_commit_inv (ne_crypto env) B s" and "digests_separate (ne_crypto env) B" and "B b"
    and "try_to_update_dag env b s = (s', cs)"
  shows "wahoo_commit_inv (ne_crypto env) B s'"
proof (cases "check_whether_can_add_to_dag b s")
  case True
  define s1 where "s1 = s\<lparr>wn_blocks_by_digest := AList.update (header_digest (ne_crypto env) b) b (wn_blocks_by_digest s),
                wn_dag := AList.update (h_round b, h_author b) b (wn_dag s)\<rparr>"
  have "commit_view s' = commit_view s1"
    using assms(4) True by (auto simp: try_to_update_dag_def s1_def bump_round_def commit_view_def committed_def Let_def split: if_splits)
  then show ?thesis using add_block_inv [OF assms(1-3) True s1_def] wahoo_commit_inv_view by blast
next
  case False
  with assms(4) have "commit_view s' = commit_view s"
    by (auto simp: try_to_update_dag_def store_pending_block_def commit_view_def committed_def)
  with wahoo_commit_inv_view assms(1) show ?thesis by blast
qed

text \<open>The invariant of the whole configuration.\<close>

definition wahoo_inv :: "CryptoLib \<Rightarrow> NodeCall list \<Rightarrow> WahooNode \<Rightarrow> bool" where
  "wahoo_inv lib stack s \<longleftrightarrow> wire_inv stack s \<and> wahoo_commit_inv lib wire_header s"

lemma wahoo_inv_call:
  assumes "iterates env" and "digests_separate (ne_crypto env) wire_header" and "wahoo_inv (ne_crypto env) (c # rest) s"
    and "wahoo_call env c s = Inr (s', cs)"
  shows "wahoo_inv (ne_crypto env) (cs @ rest) s'"
proof -
  have inv: "wire_inv (c # rest) s" "wahoo_commit_inv (ne_crypto env) wire_header s" using assms(3) by (simp_all add: wahoo_inv_def)
  have "wahoo_commit_inv (ne_crypto env) wire_header s'"
  proof (cases "(\<exists>b. c = TryToUpdateDag b) \<or> (\<exists>r. c = TryToCommitLeader r)")
    case True
    then show ?thesis
    proof (elim disjE exE)
      fix b assume c: "c = TryToUpdateDag b"
      then have "wire_header b" "try_to_update_dag env b s = (s', cs)" using inv(1) assms(4) by (simp_all add: wire_inv_def)
      then show ?thesis by (rule try_to_update_dag_inv [OF inv(2) assms(2)])
    next
      fix r assume "c = TryToCommitLeader r"
      with assms(4) show ?thesis
        using try_to_commit_leader_inv [OF assms(2) iterates_sets(2) [OF assms(1)] inv(2)] by auto
    qed
  next
    case False
    then have "commit_view s' = commit_view s" by (intro commit_view_calls [OF assms(4)]) auto
    with wahoo_commit_inv_view inv(2) show ?thesis by blast
  qed
  with wire_inv_call [OF assms(1) inv(1) assms(4)] show ?thesis by (simp add: wahoo_inv_def)
qed

fun input_wire :: "NodeInput \<Rightarrow> bool" where
  "input_wire (InMessage m) \<longleftrightarrow> (\<forall>h \<in> message_headers m. wire_header h)"
| "input_wire _ \<longleftrightarrow> True"

lemma wahoo_inv_input:
  assumes "wahoo_inv lib [] s" and "input_wire i" and "wahoo_input i s = (s', cs)"
  shows "wahoo_inv lib cs s'"
proof -
  have v: "commit_view s' = commit_view s" "state_headers s' = state_headers s"
    using assms(3) by (auto simp: wahoo_input_def split: NodeInput.splits) (simp_all add: commit_view_def committed_def state_headers_def)
  have "wire_inv cs s'"
    using assms v(2) by (cases i) (auto simp: wahoo_inv_def wire_inv_def wahoo_input_def)
  with assms(1) wahoo_commit_inv_view [OF v(1)] show ?thesis by (simp add: wahoo_inv_def)
qed

lemma wahoo_reachable_commit_inv:
  assumes "iterates env" and "digests_separate (ne_crypto env) wire_header" and "\<And>i. arrives i \<Longrightarrow> input_wire i"
    and "wahoo_node_new env name c cp hs byz = Inr s0" and "wahoo_reachable env arrives s0 stack s"
  shows "wahoo_inv (ne_crypto env) stack s"
  using assms(5)
proof (rule wahoo_reachable_inv [where I = "wahoo_inv (ne_crypto env)"])
  show "wahoo_inv (ne_crypto env) [BroadcastBlock 1] s0"
    using wahoo_node_new_fields [OF assms(4)]
    by (simp add: wahoo_inv_def wire_inv_def wahoo_commit_inv_def blocks_ok_def chain_ok_def closed_except_def committed_def
        state_headers_def vals_def pb_new_def)
  show "wahoo_inv (ne_crypto env) (cs @ rest) t'" if "wahoo_inv (ne_crypto env) (c # rest) t" "wahoo_call env c t = Inr (t', cs)"
    for c rest t t' cs using that wahoo_inv_call [OF assms(1,2)] by blast
  show "wahoo_inv (ne_crypto env) cs t'" if "wahoo_inv (ne_crypto env) [] t" "arrives i" "wahoo_input i t = (t', cs)" for i t t' cs
    using that wahoo_inv_input assms(3) by blast
qed

end
