(* ===== verification/Wahoo_Agreement.thy ===== *)
theory Wahoo_Agreement
  imports Wahoo_Safety Vote_Discipline
begin

text \<open>
  Two Wahoo nodes: what the network handler lets through, and why the blocks of an even round
  in two DAGs are the same.
\<close>

section \<open>Where the blocks of even rounds come from\<close>

text \<open>What provable broadcast can have seen of the messages that arrive.\<close>

definition pb_arrivals :: "(NodeInput \<Rightarrow> bool) \<Rightarrow> PbInput set" where
  "pb_arrivals arrives = {PbVote v |v. arrives (InMessage (WVote v))} \<union>
     {PbCertificate ct |ct. arrives (InMessage (WPbcCertificate ct))}"

definition even_justified :: "Committee \<Rightarrow> PbInput set \<Rightarrow> Header \<Rightarrow> bool" where
  "even_justified c seen b \<longleftrightarrow> (h_round b mod 2 = 0 \<longrightarrow> pb_justified c seen b)"

fun call_ok :: "Committee \<Rightarrow> (NodeInput \<Rightarrow> bool) \<Rightarrow> NodeCall \<Rightarrow> bool" where
  "call_ok c arrives (HandleMessage m) \<longleftrightarrow> arrives (InMessage m)"
| "call_ok c arrives (DispatchPb a) \<longleftrightarrow> (\<forall>b \<in> action_headers a. even_justified c (pb_arrivals arrives) b)"
| "call_ok c arrives (HandleFastBlock b) \<longleftrightarrow> h_round b mod 2 = 1"
| "call_ok c arrives (HandleEpbcCertificate ct) \<longleftrightarrow> cert_round ct mod 2 = 1"
| "call_ok c arrives (BroadcastHeader r h) \<longleftrightarrow> h_round h = r"
| "call_ok c arrives (TryToUpdateDag b) \<longleftrightarrow> even_justified c (pb_arrivals arrives) b"
| "call_ok c arrives _ \<longleftrightarrow> True"

definition deliver_ok :: "Committee \<Rightarrow> (NodeInput \<Rightarrow> bool) \<Rightarrow> WahooNode \<Rightarrow> bool" where
  "deliver_ok c arrives s \<longleftrightarrow> (\<exists>out. pb_inv c (pb_arrivals arrives) (wn_pb s) out) \<and>
     (\<forall>b \<in> vals (wn_epbc_blocks s). h_round b mod 2 = 1) \<and>
     (\<forall>(k, b) \<in> set (wn_dag s). k = (h_round b, h_author b)) \<and>
     (\<forall>b \<in> vals (wn_dag s) \<union> vals (wn_pending_blocks s). even_justified c (pb_arrivals arrives) b)"

definition deliver_view :: "WahooNode \<Rightarrow> Pb \<times> (slot \<times> Header) list \<times> (slot \<times> Header) list \<times> (slot \<times> Header) list" where
  "deliver_view s = (wn_pb s, wn_epbc_blocks s, wn_dag s, wn_pending_blocks s)"

lemma deliver_ok_view: "deliver_view s' = deliver_view s \<Longrightarrow> deliver_ok c arrives s' = deliver_ok c arrives s"
  by (simp add: deliver_view_def deliver_ok_def)

lemma pb_outputs_ok:
  assumes "pb_inv c seen pb' (out @ acts)"
  shows "\<And>a b. a \<in> set acts \<Longrightarrow> b \<in> action_headers a \<Longrightarrow> pb_justified c seen b"
proof -
  fix a b assume a: "a \<in> set acts" "b \<in> action_headers a"
  have "a = OutputBlock b" using a(2) by (cases a) auto
  with a(1) have "OutputBlock b \<in> set acts" by simp
  then show "pb_justified c seen b" using pb_invD(7) [OF assms] by simp
qed

lemma with_pb_ok:
  assumes "deliver_ok c arrives s" and "with_pb r s = (s', cs)"
    and "\<And>out. pb_inv c (pb_arrivals arrives) (wn_pb s) out \<Longrightarrow> pb_inv c (pb_arrivals arrives) (fst r) (out @ snd r)"
  shows "deliver_ok c arrives s' \<and> list_all (call_ok c arrives) cs"
proof -
  obtain out where "pb_inv c (pb_arrivals arrives) (wn_pb s) out" using assms(1) by (auto simp: deliver_ok_def)
  from assms(3) [OF this] have inv: "pb_inv c (pb_arrivals arrives) (fst r) (out @ snd r)" .
  with assms(1,2) have "deliver_ok c arrives s'" by (auto simp: deliver_ok_def with_pb_def)
  moreover have "list_all (call_ok c arrives) cs"
    using pb_outputs_ok [OF inv] assms(2) by (auto simp: with_pb_def list_all_iff even_justified_def)
  ultimately show ?thesis ..
qed

lemma message_ok:
  assumes "committee_ok c" and "deliver_ok c arrives s" and "arrives (InMessage m)"
    and "\<And>ct. arrives (InMessage (WEpbcCertificate ct)) \<Longrightarrow> cert_round ct mod 2 = 1"
    and "wahoo_handle_message env m s = (s', cs)"
  shows "deliver_ok c arrives s' \<and> list_all (call_ok c arrives) cs"
proof (cases m)
  case (WBlock b)
  show ?thesis
  proof (cases "h_round b mod 2 = 0")
    case True
    with assms(5) WBlock have "with_pb (pb_handle_block (ne_crypto env) b (wn_pb s)) s = (s', cs)" by (simp add: wahoo_handle_message_def)
    then show ?thesis by (rule with_pb_ok [OF assms(2)]) (rule pb_handle_block_inv [OF _ surjective_pairing])
  qed (use assms(2,5) WBlock in \<open>auto simp: wahoo_handle_message_def\<close>)
next
  case (WVote v)
  show ?thesis
  proof (cases "v_round v mod 2 = 0")
    case True
    have seen: "PbVote v \<in> pb_arrivals arrives" using assms(3) WVote by (auto simp: pb_arrivals_def)
    from True assms(5) WVote have "with_pb (pb_handle_vote v (wn_pb s)) s = (s', cs)" by (simp add: wahoo_handle_message_def)
    then show ?thesis by (rule with_pb_ok [OF assms(2)]) (rule pb_handle_vote_inv [OF assms(1) _ surjective_pairing seen])
  qed (use assms(2,5) WVote in \<open>auto simp: wahoo_handle_message_def\<close>)
next
  case (WPbcCertificate ct)
  have seen: "PbCertificate ct \<in> pb_arrivals arrives" using assms(3) WPbcCertificate by (auto simp: pb_arrivals_def)
  from assms(5) WPbcCertificate have "with_pb (pb_handle_certificate ct (wn_pb s)) s = (s', cs)" by (simp add: wahoo_handle_message_def)
  then show ?thesis by (rule with_pb_ok [OF assms(2)]) (rule pb_handle_certificate_inv [OF _ surjective_pairing seen])
next
  case (WEpbcCertificate ct)
  with assms show ?thesis by (auto simp: wahoo_handle_message_def)
qed (use assms(2,5) in \<open>auto simp: wahoo_handle_message_def\<close>)

lemma broadcast_header_ok:
  assumes "deliver_ok c arrives s" and "h_round h = r" and "broadcast_header env r h s = (s', cs)"
  shows "deliver_ok c arrives s' \<and> list_all (call_ok c arrives) cs"
proof (cases "r mod 2 = 0")
  case True
  define pb where "pb = (if h_equivocation_tag h = 0 then pb_broadcast_block h (wn_pb s) else wn_pb s)"
  have emit: "wn_pb (wahoo_emit es s) = wn_pb s" "deliver_ok c arrives (wahoo_emit es s)" for es
    using assms(1) deliver_ok_view [of "wahoo_emit es s" s c arrives] by (simp_all add: wahoo_emit_def deliver_view_def)
  with assms(3) True have "\<exists>es. with_pb (pb_handle_block (ne_crypto env) h pb) (wahoo_emit es s) = (s', cs)"
    unfolding broadcast_header_def pb_def Let_def by auto
  then obtain es where run: "with_pb (pb_handle_block (ne_crypto env) h pb) (wahoo_emit es s) = (s', cs)" by blast
  show ?thesis
  proof (rule with_pb_ok [OF emit(2) run])
    fix out assume "pb_inv c (pb_arrivals arrives) (wn_pb (wahoo_emit es s)) out"
    then have "pb_inv c (pb_arrivals arrives) pb out"
      using store_block_inv [of c "pb_arrivals arrives" "wn_pb s" out h] by (auto simp: pb_def pb_broadcast_block_def emit)
    then show "pb_inv c (pb_arrivals arrives) (fst (pb_handle_block (ne_crypto env) h pb)) (out @ snd (pb_handle_block (ne_crypto env) h pb))"
      by (rule pb_handle_block_inv [OF _ surjective_pairing])
  qed
next
  case False
  have "deliver_ok c arrives (wahoo_emit es s)" for es
    using assms(1) deliver_ok_view [of "wahoo_emit es s" s c arrives] by (simp add: wahoo_emit_def deliver_view_def)
  with False assms(2,3) show ?thesis by (auto simp: broadcast_header_def Let_def)
qed

lemma deliver_view_vote: "vote_changes s s' \<Longrightarrow> deliver_view s' = deliver_view s"
  by (auto simp: vote_changes_def deliver_view_def)

lemma deliver_view_same_dag: "same_dag s s' \<Longrightarrow> deliver_view s' = deliver_view s"
  by (auto simp: same_dag_def deliver_view_def)

lemma deliver_view_self_recps [simp]: "deliver_view (self_recps env r bs s) = deliver_view s"
proof (induction bs arbitrary: s)
  case (Cons b bs)
  have "deliver_view (wahoo_emit es (handle_recp recp t)) = deliver_view t" for es recp t
    by (simp add: wahoo_emit_def handle_recp_def deliver_view_def Let_def)
  with Cons show ?case by (simp add: Let_def split: option.split)
qed simp

text \<open>The calls that leave the blocks alone push calls that need nothing.\<close>

lemma silent_call:
  assumes "wahoo_call env c s = Inr (s', cs)"
    and "\<And>m. c \<noteq> HandleMessage m" "\<And>a. c \<noteq> DispatchPb a" "\<And>b. c \<noteq> HandleFastBlock b" "\<And>v. c \<noteq> HandleEpbcVote v"
      "\<And>ct. c \<noteq> HandleEpbcCertificate ct" "\<And>r. c \<noteq> BroadcastBlock r" "\<And>r h. c \<noteq> BroadcastHeader r h"
      "\<And>b. c \<noteq> TryToUpdateDag b" "\<And>r. c \<noteq> UpdateDagFromPending r"
  shows "deliver_view s' = deliver_view s \<and> (\<forall>C A. list_all (call_ok C A) cs)"
proof (cases c)
  case (SendEpbcVote r i b p)
  with assms(1) have run: "send_epbc_vote env r i b p s = Inr (s', cs)" by simp
  have "\<forall>C A. list_all (call_ok C A) cs"
    using run by (auto simp: send_epbc_vote_def Let_def split: prod.splits bool.splits if_splits)
  with send_epbc_vote_changes [OF run] deliver_view_vote show ?thesis by blast
next
  case (HandleElect e)
  with assms(1) have "handle_elect env e s = Inr (s', cs)" by simp
  then show ?thesis by (rule handle_elect_changes) (auto simp: deliver_view_def list_all_iff)
next
  case (TryToCommitLeader r)
  with assms(1) deliver_view_same_dag [OF same_dag_commit [of s env r]] show ?thesis by auto
next
  case (BroadcastElect r)
  with assms(1) show ?thesis
    by (auto simp: broadcast_elect_def deliver_view_def Let_def split: option.splits prod.splits)
next
  case (RetryPendingEpbc r)
  with assms(1) show ?thesis by (auto simp: retry_pending_epbc_def deliver_view_def list_all_iff Let_def)
qed (use assms in \<open>auto simp: handle_ready_def check_if_enough_ready_def store_ready_def handle_done_def store_done_def
    bump_round_def send_wahoo_def send_ready_def try_to_next_round_def deliver_view_def wahoo_emit_def Let_def
    split: if_splits option.splits sum.splits\<close>)

lemma pending_ok:
  assumes "iterates env" and "deliver_ok c arrives s" and "try_to_update_dag_from_pending env r s = (s', cs)"
  shows "deliver_ok c arrives s' \<and> list_all (call_ok c arrives) cs"
proof -
  have cs: "cs = map TryToUpdateDag (values_of (ne_slot_order env (level r (wn_pending_blocks s))))"
    and s': "s' = s\<lparr>wn_pending_blocks := filter (\<lambda>((q, _), _). q \<noteq> r) (wn_pending_blocks s)\<rparr>"
    using assms(3) by (simp_all add: try_to_update_dag_from_pending_def)
  have "set (values_of (ne_slot_order env (level r (wn_pending_blocks s)))) \<subseteq> vals (wn_pending_blocks s)"
    using iterates_sets(1) [OF assms(1)] level_values [of r "wn_pending_blocks s"] by (simp add: vals_def)
  then have "list_all (call_ok c arrives) cs" using assms(2) by (auto simp: cs list_all_iff deliver_ok_def)
  moreover have "deliver_ok c arrives s'"
    using assms(2) filter_values [of "\<lambda>((q, _), _). q \<noteq> r" "wn_pending_blocks s"] by (auto simp: s' deliver_ok_def)
  ultimately show ?thesis by blast
qed

lemma set_update: "set (AList.update k v m) \<subseteq> insert (k, v) (set m)"
  by (induction m) auto

lemma update_dag_ok:
  assumes "deliver_ok c arrives s" and "even_justified c (pb_arrivals arrives) b" and "try_to_update_dag env b s = (s', cs)"
  shows "deliver_ok c arrives s' \<and> list_all (call_ok c arrives) cs"
proof -
  have "wn_pb s' = wn_pb s" "wn_epbc_blocks s' = wn_epbc_blocks s" "list_all (call_ok c arrives) cs"
    "vals (wn_dag s') \<subseteq> insert b (vals (wn_dag s))" "vals (wn_pending_blocks s') \<subseteq> insert b (vals (wn_pending_blocks s))"
    using assms(3) values_update [of "(h_round b, h_author b)" b "wn_dag s"] values_update [of "(h_round b, h_author b)" b "wn_pending_blocks s"]
    by (auto simp: try_to_update_dag_def store_pending_block_def bump_round_def Let_def split: if_splits)
  moreover have "set (wn_dag s') \<subseteq> insert ((h_round b, h_author b), b) (set (wn_dag s))"
    using assms(3) set_update [of "(h_round b, h_author b)" b "wn_dag s"]
    by (auto simp: try_to_update_dag_def store_pending_block_def bump_round_def Let_def split: if_splits)
  ultimately show ?thesis using assms(1,2) unfolding deliver_ok_def by auto
qed

lemma epbc_certificate_ok:
  assumes "deliver_ok c arrives s" and "cert_round ct mod 2 = 1" and "handle_epbc_certificate ct s = (s', cs)"
  shows "deliver_ok c arrives s' \<and> list_all (call_ok c arrives) cs"
proof -
  have odd: "h_round (header ct) mod 2 = 1" using assms(2) by (simp add: cert_round_def)
  have "wn_pb s' = wn_pb s" "wn_dag s' = wn_dag s" "wn_pending_blocks s' = wn_pending_blocks s"
    "vals (wn_epbc_blocks s') \<subseteq> insert (header ct) (vals (wn_epbc_blocks s))" "list_all (call_ok c arrives) cs"
    using assms(3) odd values_update [of "(cert_round ct, cert_origin ct)" "header ct" "wn_epbc_blocks s"]
    by (auto simp: handle_epbc_certificate_def even_justified_def Let_def split: option.splits WahooVotePhase.splits if_splits)
  with assms(1) odd show ?thesis unfolding deliver_ok_def by auto
qed

lemma fast_block_ok:
  assumes "deliver_ok c arrives s" and "h_round b mod 2 = 1" and "handle_fast_block env b s = (s', cs)"
  shows "deliver_ok c arrives s' \<and> list_all (call_ok c arrives) cs"
proof -
  have "wn_pb s' = wn_pb s" "wn_dag s' = wn_dag s" "wn_pending_blocks s' = wn_pending_blocks s"
    "vals (wn_epbc_blocks s') \<subseteq> insert b (vals (wn_epbc_blocks s))" "list_all (call_ok c arrives) cs"
    using assms(3) values_update [of "(h_round b, h_author b)" b "wn_epbc_blocks s"]
    by (auto simp: handle_fast_block_def Let_def split: if_splits)
  with assms(1,2) show ?thesis unfolding deliver_ok_def by auto
qed

lemma epbc_vote_ok:
  assumes "deliver_ok c arrives s" and "handle_epbc_vote v s = (s', cs)"
  shows "deliver_ok c arrives s' \<and> list_all (call_ok c arrives) cs"
  using assms(2)
proof (rule epbc_vote_changes)
  fix ev ct es
  assume s': "s' = s\<lparr>wn_epbc_votes := ev, wn_epbc_cert_sent := ct, wn_events := wn_events s @ es\<rparr>"
    and cs: "stack_headers cs \<subseteq> vals (wn_epbc_blocks s)"
  have "set cs \<subseteq> range HandleEpbcCertificate"
    using assms(2) by (auto simp: handle_epbc_vote_def Let_def split: option.splits prod.splits sum.splits if_splits)
  moreover have "cert_round x mod 2 = 1" if "HandleEpbcCertificate x \<in> set cs" for x
  proof -
    have "header x \<in> stack_headers cs" using that by (force simp: stack_headers_def)
    with cs assms(1) show ?thesis by (auto simp: deliver_ok_def cert_round_def)
  qed
  ultimately have "list_all (call_ok c arrives) cs" by (auto simp: list_all_iff)
  moreover have "deliver_ok c arrives s'" using assms(1) deliver_ok_view [of s' s c arrives] by (simp add: s' deliver_view_def)
  ultimately show ?thesis by blast
qed

lemma broadcast_block_ok:
  assumes "broadcast_block env r s = (s', cs)"
  shows "deliver_view s' = deliver_view s" and "list_all (call_ok c arrives) cs"
proof -
  show "deliver_view s' = deliver_view s"
    using assms by (auto simp: broadcast_block_def new_block_def broadcast_self_recps_def Let_def split: prod.splits if_splits)
      (simp_all add: deliver_view_def)
  have "set cs \<subseteq> range (BroadcastHeader r) \<union> range BroadcastElect"
    using assms by (auto simp: broadcast_block_def Let_def split: prod.splits if_splits)
  moreover have "h_round h = r" if "BroadcastHeader r h \<in> set cs" for h
    using that broadcast_block_headers(2) [OF assms, of h] by (force simp: stack_headers_def)
  ultimately show "list_all (call_ok c arrives) cs" by (fastforce simp: list_all_iff)
qed

lemma deliver_ok_call:
  assumes "iterates env" and "committee_ok C" and "\<And>ct. arrives (InMessage (WEpbcCertificate ct)) \<Longrightarrow> cert_round ct mod 2 = 1"
    and "deliver_ok C arrives s" and "call_ok C arrives c" and "wahoo_call env c s = Inr (s', cs)"
  shows "deliver_ok C arrives s' \<and> list_all (call_ok C arrives) cs"
proof (cases c)
  case (HandleMessage m)
  with assms(5,6) show ?thesis by (intro message_ok [OF assms(2,4) _ assms(3), of m env s' cs]) simp_all
next
  case (DispatchPb a)
  with assms(6) have run: "dispatch_pb_action env a s = Inr (s', cs)" by simp
  have "list_all (call_ok C arrives) cs"
    using run assms(5) DispatchPb
    by (auto simp: dispatch_pb_action_def Let_def split: PbAction.splits option.splits prod.splits bool.splits)
  with dispatch_changes [OF run] deliver_ok_view [OF deliver_view_vote] assms(4) show ?thesis by blast
next
  case (HandleFastBlock b)
  with assms(5,6) show ?thesis by (intro fast_block_ok [OF assms(4), of b env]) simp_all
next
  case (HandleEpbcVote v)
  with assms(6) show ?thesis by (intro epbc_vote_ok [OF assms(4), of v]) simp
next
  case (HandleEpbcCertificate ct)
  with assms(5,6) show ?thesis by (intro epbc_certificate_ok [OF assms(4), of ct]) simp_all
next
  case (BroadcastBlock r)
  with assms(6) have "broadcast_block env r s = (s', cs)" by simp
  from broadcast_block_ok [OF this] deliver_ok_view assms(4) show ?thesis by blast
next
  case (BroadcastHeader r h)
  with assms(5,6) show ?thesis by (intro broadcast_header_ok [OF assms(4), of h r env]) simp_all
next
  case (TryToUpdateDag b)
  with assms(5,6) show ?thesis by (intro update_dag_ok [OF assms(4), of b env]) simp_all
next
  case (UpdateDagFromPending r)
  with assms(6) show ?thesis by (intro pending_ok [OF assms(1,4), of r]) simp
qed (use silent_call [OF assms(6)] deliver_ok_view [of s' s C arrives] assms(4) in auto)

lemma wahoo_reachable_deliver:
  assumes "iterates env" and "committee_ok C" and "\<And>ct. arrives (InMessage (WEpbcCertificate ct)) \<Longrightarrow> cert_round ct mod 2 = 1"
    and "wahoo_node_new env name C cp hs byz = Inr s0" and "wahoo_reachable env arrives s0 stack s"
  shows "deliver_ok C arrives s"
proof -
  have "deliver_ok C arrives s \<and> list_all (call_ok C arrives) stack"
    using assms(5)
  proof (rule wahoo_reachable_inv [where I = "\<lambda>stack s. deliver_ok C arrives s \<and> list_all (call_ok C arrives) stack"])
    show "deliver_ok C arrives s0 \<and> list_all (call_ok C arrives) [BroadcastBlock 1]"
      using wahoo_node_new_fields [OF assms(4)] pb_inv_new [of C _ name] by (auto simp: deliver_ok_def vals_def)
    fix c rest t t' cs
    assume "deliver_ok C arrives t \<and> list_all (call_ok C arrives) (c # rest)" "wahoo_call env c t = Inr (t', cs)"
    with deliver_ok_call [OF assms(1-3), where s = t and c = c and s' = t' and cs = cs] show "deliver_ok C arrives t' \<and> list_all (call_ok C arrives) (cs @ rest)"
      by simp
  next
    fix i t t' cs
    assume t: "deliver_ok C arrives t \<and> list_all (call_ok C arrives) []" "arrives i" "wahoo_input i t = (t', cs)"
    have "deliver_view t' = deliver_view t"
      using t(3) by (auto simp: wahoo_input_def handle_recp_def deliver_view_def Let_def split: NodeInput.splits if_splits)
    then have "deliver_ok C arrives t'" using t(1) deliver_ok_view [of t' t C arrives] by blast
    moreover have "list_all (call_ok C arrives) cs" using t(2,3) by (cases i) (auto simp: wahoo_input_def)
    ultimately show "deliver_ok C arrives t' \<and> list_all (call_ok C arrives) cs" ..
  qed
  then show ?thesis ..
qed

section \<open>Honest nodes\<close>

lemma wahoo_byzantine_const:
  assumes "wahoo_node_new env name c cp hs byz = Inr s0" and "wahoo_reachable env arrives s0 stack s"
  shows "wn_byzantine s = byz"
  using assms(2)
proof (rule wahoo_reachable_inv [where I = "\<lambda>_ s. wn_byzantine s = byz"])
  show "wn_byzantine s0 = byz" by (rule wahoo_node_new_fields(3) [OF assms(1)])
  show "wn_byzantine t' = byz" if "wn_byzantine t = byz" "wahoo_call env c t = Inr (t', cs)" for c t t' cs
  proof (cases "(\<exists>a. c = DispatchPb a) \<or> (\<exists>r i b p. c = SendEpbcVote r i b p)")
    case True
    then have "vote_changes t t'" using that(2) by (auto dest: dispatch_changes send_epbc_vote_changes)
    with that(1) show ?thesis by (auto simp: vote_changes_def)
  next
    case False
    then have "vote_view t' = vote_view t" by (intro vote_view_calls [OF that(2)]) auto
    with that(1) show ?thesis by (simp add: vote_view_def)
  qed
  show "wn_byzantine t' = byz" if "wn_byzantine t = byz" "wahoo_input i t = (t', cs)" for i t t' cs
    using that vote_view_input [OF that(2)] by (simp add: vote_view_def)
qed

text \<open>A member of the committee that runs the node without the Byzantine switch.\<close>

definition honest_wahoo :: "Committee \<Rightarrow> PublicKey \<Rightarrow> WahooNode \<Rightarrow> bool" where
  "honest_wahoo c name s \<longleftrightarrow> (\<exists>env arrives cp hs byz s0 stack. wahoo_node_new env name c cp hs byz = Inr s0 \<and>
     \<not> allows_multiple_votes byz \<and> wahoo_reachable env arrives s0 stack s)"

lemma honest_wahoo_votes_once:
  assumes "honest_wahoo c name s"
  shows "length (votes_signed s r origin phase) \<le> 1"
proof -
  obtain env arrives cp hs byz s0 stack where new: "wahoo_node_new env name c cp hs byz = Inr s0"
    and honest: "\<not> allows_multiple_votes byz" and run: "wahoo_reachable env arrives s0 stack s"
    using assms unfolding honest_wahoo_def by blast
  have inv: "wahoo_vote_inv s" by (rule wahoo_reachable_votes [OF new run])
  have byz: "wn_byzantine s = byz" by (rule wahoo_byzantine_const [OF new run])
  define ds where "ds = (case map_of (wn_sent_votes s) (r, origin, phase) of None \<Rightarrow> [] | Some ds \<Rightarrow> ds)"
  have "length ds \<le> 1"
    using inv honest byz unfolding wahoo_vote_inv_def ds_def by (cases "map_of (wn_sent_votes s) (r, origin, phase)") auto
  moreover have "map v_id (votes_signed s r origin phase) = rev ds" using inv unfolding wahoo_vote_inv_def ds_def by blast
  ultimately show ?thesis by (metis length_map length_rev)
qed

text \<open>What reaches the node has passed the network handler of its primary.\<close>

fun routed :: "WahooEnv \<Rightarrow> Committee \<Rightarrow> NodeInput \<Rightarrow> bool" where
  "routed env c (InMessage m) \<longleftrightarrow> (\<exists>pm. wahoo_dispatch (ne_crypto env) (ne_bincode env) c pm = RouteNode m)"
| "routed env c (InRecp recp) \<longleftrightarrow> (\<exists>pm. wahoo_dispatch (ne_crypto env) (ne_bincode env) c pm = RouteRecp recp)"
| "routed env c (InBatch _ _) \<longleftrightarrow> True"

lemma routed_epbc_odd:
  assumes "committee_ok c" and "routed env c (InMessage (WEpbcCertificate ct))"
  shows "cert_round ct mod 2 = 1"
proof -
  obtain pm where "wahoo_dispatch (ne_crypto env) (ne_bincode env) c pm = RouteNode (WEpbcCertificate ct)" using assms(2) by auto
  note ok = wahoo_dispatch_certificate(2) [OF this]
  then have "verify_wahoo_certificate (ne_crypto env) c ct = Inr ()" by simp
  then show ?thesis
    by (rule verify_wahoo_certificate_votes [OF assms(1)]) (use ok in \<open>auto simp: phase_round_ok_def\<close>)
qed

lemma routed_pb:
  assumes "\<And>i. arrives i \<Longrightarrow> routed env c i" and "i \<in> pb_arrivals arrives"
  shows "pb_routed (ne_crypto env) c i"
  using assms(2) unfolding pb_arrivals_def
proof (elim UnE CollectE exE conjE)
  fix v assume "i = PbVote v" "arrives (InMessage (WVote v))"
  with assms(1) [of "InMessage (WVote v)"] show ?thesis by (auto dest: wahoo_dispatch_vote)
next
  fix ct assume "i = PbCertificate ct" "arrives (InMessage (WPbcCertificate ct))"
  with assms(1) [of "InMessage (WPbcCertificate ct)"] show ?thesis by (auto dest: wahoo_dispatch_certificate(1))
qed

definition arrived_votes :: "(NodeInput \<Rightarrow> bool) \<Rightarrow> Vote set" where
  "arrived_votes arrives = (\<Union>i \<in> pb_arrivals arrives. input_votes i)"

text \<open>A node that does not run the Byzantine switch keeps the discipline in every round and phase.\<close>

interpretation wahoo_voters: vote_discipline "\<lambda>s _. \<exists>c name. honest_wahoo c name s"
    "\<lambda>s (r, origin, phase). votes_signed s r origin phase"
  by unfold_locales (use honest_wahoo_votes_once in fastforce)

text \<open>A vote that a node signed.\<close>

definition signed_by_node :: "WahooNode \<Rightarrow> Vote \<Rightarrow> bool" where
  "signed_by_node s v \<longleftrightarrow> (\<exists>w \<in> set (signed_votes s). v_id w = v_id v \<and> v_round w = v_round v \<and>
     v_origin w = v_origin v \<and> v_wahoo_phase w = v_wahoo_phase v)"

lemma signed_votes_agree:
  assumes "signed_by_node s v" and "signed_by_node s v'" and "honest_wahoo c name s"
    and "v_round v = v_round v'" and "v_origin v = v_origin v'" and "v_wahoo_phase v = Some phase" and "v_wahoo_phase v' = Some phase"
  shows "v_id v = v_id v'"
proof (rule wahoo_voters.same_id [where n = s and k = "(v_round v, v_origin v, phase)"])
  show "\<exists>c name. honest_wahoo c name s" using assms(3) by blast
  show "\<exists>w \<in> set (case (v_round v, v_origin v, phase) of (r, origin, phase) \<Rightarrow> votes_signed s r origin phase). v_id w = v_id v"
    "\<exists>w \<in> set (case (v_round v, v_origin v, phase) of (r, origin, phase) \<Rightarrow> votes_signed s r origin phase). v_id w = v_id v'"
    using assms(1,2,4-7) by (auto simp: signed_by_node_def votes_signed_def)
qed

text \<open>A block of the DAG has its key, and in an even round a quorum behind it.\<close>

lemma dag_block_justified:
  assumes "committee_ok c" and "iterates env" and "\<forall>i. arrives i \<longrightarrow> routed env c i"
    and "wahoo_node_new env name c cp hs byz = Inr s0" and "wahoo_reachable env arrives s0 stack s"
    and "map_of (wn_dag s) (r, a) = Some b"
  shows "even_justified c (pb_arrivals arrives) b" and "h_round b = r" and "h_author b = a"
proof -
  have "deliver_ok c arrives s"
    by (rule wahoo_reachable_deliver [OF assms(2,1) _ assms(4,5)]) (use routed_epbc_odd [OF assms(1)] assms(3) in blast)
  then show "even_justified c (pb_arrivals arrives) b" "h_round b = r" "h_author b = a"
    using map_of_SomeD [OF assms(6)] map_of_value [OF assms(6)] unfolding deliver_ok_def vals_def by auto
qed

section \<open>The properties\<close>

text \<open>
  C6. A Wahoo node signs one vote for each proposal slot and phase.  In every state it can reach,
  whatever arrives, a node that does not run the Byzantine switch has signed at most one vote
  for each round, author and phase, over the votes it sent and those it counted itself.
\<close>

theorem wahoo_votes_once:
  assumes "wahoo_node_new env name c cp hs byz = Inr s0" and "\<not> allows_multiple_votes byz"
    and "wahoo_reachable env arrives s0 stack s"
  shows "length (votes_signed s r origin phase) \<le> 1"
proof -
  have "honest_wahoo c name s" unfolding honest_wahoo_def using assms by blast
  then show ?thesis by (rule honest_wahoo_votes_once)
qed

text \<open>
  C20. A Wahoo node proposes once a round, in order.  The rounds of the headers that a node that
  does not equivocate sends out are strictly increasing, as long as it has advanced fewer
  times than there are 64-bit rounds.
\<close>

theorem wahoo_proposes_once:
  assumes "wahoo_node_new env name c cp hs byz = Inr s0" and "\<not> is_equivocating byz"
    and "wahoo_reachable env arrives s0 stack s" and "length (wn_next_round_signaled s) + 1 < 2 ^ 64"
  shows "sorted_wrt (<) (header_rounds s)"
  using wahoo_reachable_proposals [OF assms(1-3)] assms(4) by (auto simp: proposal_inv_def sorted_wrt_append)

text \<open>
  C5. A Wahoo node commits every block once and with its history.  In every reachable state the
  committed blocks have distinct digests, and the parents of a committed block above round
  zero are committed too; the digests are assumed to separate blocks of different rounds.
\<close>

theorem wahoo_commits_history_once:
  assumes "iterates env" and "digests_separate (ne_crypto env) wire_header" and "\<forall>i. arrives i \<longrightarrow> input_wire i"
    and "wahoo_node_new env name c cp hs byz = Inr s0" and "wahoo_reachable env arrives s0 stack s"
  shows "distinct (map (header_digest (ne_crypto env)) (committed s)) \<and>
    (\<forall>b \<in> set (committed s). 0 < h_round b \<longrightarrow>
       (\<forall>d \<in> set (h_parents b). \<exists>p \<in> set (committed s). header_digest (ne_crypto env) p = d))"
proof -
  have "wahoo_inv (ne_crypto env) stack s"
    by (rule wahoo_reachable_commit_inv [OF assms(1,2) _ assms(4,5)]) (use assms(3) in blast)
  then have inv: "closed_except [] s" "header_digest (ne_crypto env) ` set (committed s) = chain_dom s"
    "distinct (map (header_digest (ne_crypto env)) (committed s))"
    "\<And>b. b \<in> set (committed s) \<Longrightarrow> map_of (wn_chain_blocks s) (header_digest (ne_crypto env) b) = Some b"
    by (simp_all add: wahoo_inv_def wahoo_commit_inv_def)
  have "\<exists>p \<in> set (committed s). header_digest (ne_crypto env) p = d"
    if b: "b \<in> set (committed s)" "0 < h_round b" "d \<in> set (h_parents b)" for b d
  proof -
    have "set (h_parents b) \<subseteq> chain_dom s" using inv(1) inv(4) [OF b(1)] b(2) by (auto simp: closed_except_def)
    with b(3) inv(2) show ?thesis by (metis imageE subsetD)
  qed
  with inv(3) show ?thesis by blast
qed

text \<open>
  C4. Two Wahoo nodes agree on the blocks of an even round.  If the honest members run the node
  and every vote of an honest member that reaches one of the two nodes, alone or in a
  certificate, was signed by its node, then the blocks of one author and one even round in
  the two DAGs have the same identifier, even when that author equivocates.
\<close>

theorem wahoo_even_blocks_agree:
  assumes "committee_ok c" and "few_faulty c F"
    and "\<forall>k \<in> members c - F. honest_wahoo c k (node k)"
    and "iterates env1" and "\<forall>i. arr1 i \<longrightarrow> routed env1 c i"
    and "wahoo_node_new env1 n1 c cp1 hs1 byz1 = Inr s1" and "wahoo_reachable env1 arr1 s1 stack1 t1"
    and "iterates env2" and "\<forall>i. arr2 i \<longrightarrow> routed env2 c i"
    and "wahoo_node_new env2 n2 c cp2 hs2 byz2 = Inr s2" and "wahoo_reachable env2 arr2 s2 stack2 t2"
    and "ne_crypto env1 = ne_crypto env2"
    and "\<forall>v \<in> arrived_votes arr1 \<union> arrived_votes arr2. v_author v \<in> members c - F \<longrightarrow> signed_by_node (node (v_author v)) v"
    and "r mod 2 = 0" and "map_of (wn_dag t1) (r, a) = Some b1" and "map_of (wn_dag t2) (r, a) = Some b2"
  shows "h_id b1 = h_id b2"
proof -
  note b1 = dag_block_justified [OF assms(1,4,5,6,7,15)] and b2 = dag_block_justified [OF assms(1,8,9,10,11,16)]
  show ?thesis
  proof (rule pb_justified_agree [OF assms(1,2), where lib = "ne_crypto env1"])
    show "pb_justified c (pb_arrivals arr1) b1" "pb_justified c (pb_arrivals arr2) b2" using b1 b2 assms(14) by (simp_all add: even_justified_def)
    show "h_round b1 = h_round b2" "h_author b1 = h_author b2" using b1 b2 by simp_all
    show "pb_routed (ne_crypto env1) c i" if "i \<in> pb_arrivals arr1 \<union> pb_arrivals arr2" for i
      using that routed_pb [of arr1 env1 c i] routed_pb [of arr2 env2 c i] assms(5,9,12) by auto
    fix i i' v v'
    assume v: "i \<in> pb_arrivals arr1" "i' \<in> pb_arrivals arr2" "v \<in> input_votes i" "v' \<in> input_votes i'"
      "v_author v = v_author v'" "v_author v \<in> members c - F" "vote_for b1 PhasePbc v" "vote_for b2 PhasePbc v'"
    then have "v \<in> arrived_votes arr1" "v' \<in> arrived_votes arr2" by (auto simp: arrived_votes_def)
    with assms(13) v(5,6) have "signed_by_node (node (v_author v)) v" "signed_by_node (node (v_author v)) v'"
      by (metis UnCI)+
    moreover have "honest_wahoo c (v_author v) (node (v_author v))" using assms(3) v(6) by blast
    ultimately show "v_id v = v_id v'" using v(7,8) b1(2,3) b2(2,3) by (intro signed_votes_agree) (auto simp: vote_for_def)
  qed
qed

end
