(* ===== verification/Wahoo_Examples.thy ===== *)
theory Wahoo_Examples
  imports Wahoo_Agreement
begin

text \<open>
  Concrete runs of a Wahoo node of the four-member demonstration committee, and through them
  the instances of the theorems of \<^verbatim>\<open>Wahoo_Agreement\<close>: a node that votes for and delivers a
  block of round two, and a node that commits the leader of round one.
\<close>

section \<open>A node of the demonstration committee\<close>

definition demo_wahoo_env :: "CryptoLib \<Rightarrow> WahooEnv" where
  "demo_wahoo_env lib = \<lparr>ne_crypto = lib, ne_secret = [], ne_bincode = (\<lambda>_. []), ne_attack = None,
     ne_slot_order = (\<lambda>xs. xs), ne_level_order = (\<lambda>xs. xs), ne_share_order = (\<lambda>xs. xs)\<rparr>"

definition demo_wahoo_node :: "PublicKey \<Rightarrow> WahooNode" where
  "demo_wahoo_node k = wahoo_node_init k demo_committee RoundRobin 1000 byzantine_default \<lparr>cc_authorities = demo_keys\<rparr> None"

lemma demo_wahoo_new: "wahoo_node_new (demo_wahoo_env lib) k demo_committee RoundRobin 1000 byzantine_default = Inr (demo_wahoo_node k)"
  by (simp add: wahoo_node_new_def demo_wahoo_node_def Let_def coin_committee_new_def demo_keys_def)

lemma header_digest_demo: "header_digest demo_lib h = Digest (key_word (h_author h))"
  by (cases "h_author h") (simp add: header_digest_def header_preimage_def sha_digest_def key_bytes_def)

lemmas wahoo_demo_simps = demo_wahoo_env_def demo_wahoo_node_def wahoo_node_init_def Let_def
  broadcast_block_def broadcast_header_def handle_fast_block_def send_epbc_vote_def should_send_vote_def
  handle_epbc_vote_def wahoo_emit_def new_block_def select_previous_blocks_def check_whether_can_add_to_dag_def
  build_leader_link_def level_def signed_attack_headers_def wahoo_votes_append_def bucket_append_def
  phase_bucket_default_def wahoo_votes_aggregator_new_def unsigned_vote_def default_header_def epbc_quorum_def
  sign_vote_def byzantine_default_def select_digests.simps payload_map_def is_equivocating_def allows_multiple_votes_def
  canonical_targets_def invalidates_payload_def word_le_nat_alt
  contains_key_def header_digest_demo sig_verify_def

lemma wahoo_drain_numeral [simp]:
  "wahoo_drain env (numeral n) (c # cs) s =
     (case wahoo_call env c s of Inl _ \<Rightarrow> None | Inr (s', new) \<Rightarrow> wahoo_drain env (pred_numeral n) (new @ cs) s')"
  by (simp add: numeral_eq_Suc)

definition pbc_certificate :: Certificate where
  "pbc_certificate = \<lparr>header = pbc_block (PublicKey 2), votes = map (pbc_vote (PublicKey 2)) [PublicKey 1, PublicKey 3, PublicKey 4]\<rparr>"

section \<open>Delivering a block of round two\<close>

lemma committee_primary_demo [simp]: "committee_primary demo_committee (PublicKey 2) = Inr \<lparr>primary_to_primary = [], worker_to_primary = []\<rparr>"
  by (simp add: committee_primary_def demo_committee_def demo_keys_def)

lemma pbc_run:
  assumes "k \<in> {PublicKey 1, PublicKey 3, PublicKey 4}"
  shows "\<exists>s s'. wahoo_drain (demo_wahoo_env demo_lib) 20 [BroadcastBlock 1] (demo_wahoo_node k) = Some s \<and>
    wahoo_run (demo_wahoo_env demo_lib) 20 [InMessage (WBlock (pbc_block (PublicKey 2))), InMessage (WPbcCertificate pbc_certificate)] s = Some s' \<and>
    map_of (wn_dag s') (2, PublicKey 2) = Some (pbc_block (PublicKey 2)) \<and> signed_by_node s' (pbc_vote (PublicKey 2) k)"
  using assms
  by (elim insertE emptyE)
    (simp_all add: wahoo_demo_simps demo_keys_def signed_by_node_def signed_votes_def wahoo_input_def wahoo_handle_message_def
       dispatch_pb_action_def pb_demo_simps pbc_certificate_def send_vote_def try_to_update_dag_def bump_round_def
       try_to_next_round_def try_to_update_dag_from_pending_def retry_pending_epbc_def pb_handle_certificate_def with_pb_def 
       rbind_def cert_origin_def)

lemma pbc_block_routed: "wahoo_dispatch demo_lib (\<lambda>_. []) demo_committee (Some (HeaderMessage (pbc_block (PublicKey 2)))) = RouteNode (WBlock (pbc_block (PublicKey 2)))"
  by (simp add: wahoo_dispatch_def pbc_block_def demo_header_def header_digest_def default_header_def header_preimage_def sha_digest_def sig_verify_def key_bytes_def demo_keys_def)

lemma pbc_certificate_routed: "wahoo_dispatch demo_lib (\<lambda>_. []) demo_committee (Some (CertificateMessage pbc_certificate)) = RouteNode (WPbcCertificate pbc_certificate)"
  by (simp add: wahoo_dispatch_def pbc_certificate_def pbc_vote_def unsigned_vote_def verify_wahoo_certificate_def pbc_block_def demo_header_def header_digest_def default_header_def header_preimage_def sha_digest_def sig_verify_def key_bytes_def demo_keys_def of_crypto_def Let_def cert_round_def cert_origin_def phase_round_ok_def tag_phase_ok_def ensure_def word_le_nat_alt verify_batch_def verify_batch_digests_def)

definition pbc_arrives :: "NodeInput \<Rightarrow> bool" where
  "pbc_arrives i \<longleftrightarrow> i = InMessage (WBlock (pbc_block (PublicKey 2))) \<or> i = InMessage (WPbcCertificate pbc_certificate)"

lemma pbc_node:
  assumes "k \<in> {PublicKey 1, PublicKey 3, PublicKey 4}"
  shows "\<exists>s. wahoo_reachable (demo_wahoo_env demo_lib) pbc_arrives (demo_wahoo_node k) [] s \<and>
    map_of (wn_dag s) (2, PublicKey 2) = Some (pbc_block (PublicKey 2)) \<and> signed_by_node s (pbc_vote (PublicKey 2) k)"
proof -
  obtain s s' where run: "wahoo_drain (demo_wahoo_env demo_lib) 20 [BroadcastBlock 1] (demo_wahoo_node k) = Some s"
    "wahoo_run (demo_wahoo_env demo_lib) 20 [InMessage (WBlock (pbc_block (PublicKey 2))), InMessage (WPbcCertificate pbc_certificate)] s = Some s'"
    and s': "map_of (wn_dag s') (2, PublicKey 2) = Some (pbc_block (PublicKey 2))" "signed_by_node s' (pbc_vote (PublicKey 2) k)"
    using pbc_run [OF assms] by blast
  have "wahoo_reachable (demo_wahoo_env demo_lib) pbc_arrives (demo_wahoo_node k) [] s'"
    by (rule wahoo_reachable_run [OF run(2) wahoo_reachable_drain [OF run(1) wahoo_reachable.start]]) (simp add: pbc_arrives_def)
  with s' show ?thesis by blast
qed

lemma pbc_routed: "\<forall>i. pbc_arrives i \<longrightarrow> routed (demo_wahoo_env demo_lib) demo_committee i"
  using pbc_block_routed pbc_certificate_routed by (auto simp: pbc_arrives_def demo_wahoo_env_def)

lemma pbc_arrived: "v \<in> arrived_votes pbc_arrives \<Longrightarrow> \<exists>k \<in> {PublicKey 1, PublicKey 3, PublicKey 4}. v = pbc_vote (PublicKey 2) k"
  by (auto simp: arrived_votes_def pb_arrivals_def pbc_arrives_def pbc_certificate_def)

lemma pbc_vote_author [simp]: "v_author (pbc_vote a k) = k"
  by (simp add: pbc_vote_def unsigned_vote_def)

lemma demo_iterates: "iterates (demo_wahoo_env lib)"
  by (simp add: iterates_def demo_wahoo_env_def)

theorem wahoo_votes_once_witness:
  "\<exists>s. wahoo_reachable (demo_wahoo_env demo_lib) pbc_arrives (demo_wahoo_node (PublicKey 1)) [] s \<and>
     length (votes_signed s 2 (PublicKey 2) PhasePbc) = 1"
proof -
  obtain s where s: "wahoo_reachable (demo_wahoo_env demo_lib) pbc_arrives (demo_wahoo_node (PublicKey 1)) [] s"
    "signed_by_node s (pbc_vote (PublicKey 2) (PublicKey 1))" using pbc_node [of "PublicKey 1"] by blast
  then have "votes_signed s 2 (PublicKey 2) PhasePbc \<noteq> []"
    by (auto simp: signed_by_node_def votes_signed_def filter_empty_conv pbc_vote_def unsigned_vote_def)
  then have "0 < length (votes_signed s 2 (PublicKey 2) PhasePbc)" by simp
  moreover have "length (votes_signed s 2 (PublicKey 2) PhasePbc) \<le> 1"
    by (rule wahoo_votes_once [OF demo_wahoo_new _ s(1)]) (simp add: allows_multiple_votes_def byzantine_default_def)
  ultimately show ?thesis using s(1) by (intro exI [of _ s]) linarith
qed

theorem wahoo_even_blocks_agree_witness:
  "\<exists>t1 t3 b1 b3. wahoo_reachable (demo_wahoo_env demo_lib) pbc_arrives (demo_wahoo_node (PublicKey 1)) [] t1 \<and>
     wahoo_reachable (demo_wahoo_env demo_lib) pbc_arrives (demo_wahoo_node (PublicKey 3)) [] t3 \<and>
     map_of (wn_dag t1) (2, PublicKey 2) = Some b1 \<and> map_of (wn_dag t3) (2, PublicKey 2) = Some b3 \<and> h_id b1 = h_id b3"
proof -
  let ?honest = "{PublicKey 1, PublicKey 3, PublicKey 4}" and ?b = "pbc_block (PublicKey 2)"
  obtain node where node: "\<forall>k \<in> ?honest. wahoo_reachable (demo_wahoo_env demo_lib) pbc_arrives (demo_wahoo_node k) [] (node k) \<and>
      map_of (wn_dag (node k)) (2, PublicKey 2) = Some ?b \<and> signed_by_node (node k) (pbc_vote (PublicKey 2) k)"
    using bchoice [of ?honest "\<lambda>k s. wahoo_reachable (demo_wahoo_env demo_lib) pbc_arrives (demo_wahoo_node k) [] s \<and>
      map_of (wn_dag s) (2, PublicKey 2) = Some ?b \<and> signed_by_node s (pbc_vote (PublicKey 2) k)"] pbc_node by blast
  have honest: "honest_wahoo demo_committee k (node k)" if "k \<in> ?honest" for k
    unfolding honest_wahoo_def using node that demo_wahoo_new [of demo_lib k]
    by (metis allows_multiple_votes_def byzantine_default_def ByzantineConfig.select_convs(1))
  have "h_id ?b = h_id ?b"
  proof (rule wahoo_even_blocks_agree [where c = demo_committee and F = "{PublicKey 2}" and node = node and r = 2 and a = "PublicKey 2",
        OF _ _ _ demo_iterates pbc_routed demo_wahoo_new [of _ "PublicKey 1"] _ demo_iterates pbc_routed demo_wahoo_new [of _ "PublicKey 3"]])
    show "wahoo_reachable (demo_wahoo_env demo_lib) pbc_arrives (demo_wahoo_node (PublicKey 1)) [] (node (PublicKey 1))"
      "wahoo_reachable (demo_wahoo_env demo_lib) pbc_arrives (demo_wahoo_node (PublicKey 3)) [] (node (PublicKey 3))"
      "map_of (wn_dag (node (PublicKey 1))) (2, PublicKey 2) = Some ?b" "map_of (wn_dag (node (PublicKey 3))) (2, PublicKey 2) = Some ?b"
      using node by auto
    show "\<forall>k \<in> members demo_committee - {PublicKey 2}. honest_wahoo demo_committee k (node k)"
      using honest by (auto simp: members_def demo_committee_def demo_keys_def)
    show "\<forall>v \<in> arrived_votes pbc_arrives \<union> arrived_votes pbc_arrives. v_author v \<in> members demo_committee - {PublicKey 2} \<longrightarrow>
        signed_by_node (node (v_author v)) v"
      using node pbc_arrived by fastforce
  qed (simp_all add: few_faulty_def nstake_def demo_keys_def)
  with node show ?thesis by (intro exI [of _ "node (PublicKey 1)"] exI [of _ "node (PublicKey 3)"] exI [of _ ?b]) auto
qed

section \<open>Committing the leader of round one\<close>

definition separating_lib :: CryptoLib where
  "separating_lib = demo_lib\<lparr>sha512 := (\<lambda>bs. bytes32 (word_of_nat (nat_of_le_bytes (take 8 (drop 32 bs)))) @ replicate 32 0)\<rparr>"

lemma header_digest_separating: "header_digest separating_lib h = Digest (word_of_nat (h_round h mod 2 ^ 64))"
  by (simp add: header_digest_def sha_digest_def separating_lib_def header_preimage_def nat_of_le_bytes_le_bytes)

lemma unat_round: "x < 2 ^ 64 \<Longrightarrow> unat (word_of_nat x :: 256 word) = x"
  by (simp add: unat_of_nat)

lemma separating_lib_separates: "digests_separate separating_lib wire_header"
  unfolding digests_separate_def wire_header_def
proof (intro allI impI)
  fix a b :: Header assume w: "h_round a < 2 ^ 64" "h_round b < 2 ^ 64" "header_digest separating_lib a = header_digest separating_lib b"
  then have "(word_of_nat (h_round a) :: 256 word) = word_of_nat (h_round b)"
    by (simp only: header_digest_separating Digest.inject mod_less)
  then show "h_round a = h_round b" using unat_round [OF w(1)] unat_round [OF w(2)] by metis
qed

lemma separating_sig_verify [simp]: "sig_verify separating_lib s d k = Inr ()"
  by (simp add: sig_verify_def separating_lib_def)

lemma separating_sig_bytes [simp]:
  "sig_from_bytes separating_lib bs = Inr (Signature (word32 (take 32 bs)) (word32 (take 32 (drop 32 bs))))"
  by (simp add: sig_from_bytes_def separating_lib_def)

definition leader_certificate :: Certificate where
  "leader_certificate = (let b = (demo_header (PublicKey 1) 1 [])\<lparr>h_wahoo_tag := Some EpbcTf\<rparr>
     in \<lparr>header = b, votes = map (\<lambda>k. unsigned_vote (h_id b) 1 (PublicKey 1) k PhaseTf) demo_keys\<rparr>)"

definition demo_elect :: "PublicKey \<Rightarrow> NodeInput" where
  "demo_elect k = InMessage (WElect \<lparr>we_sender = k, we_round = 2, we_partial_sig = []\<rparr>)"

lemma elect_demo:
  assumes "wn_consensus_protocol s = RoundRobin" "wn_leader_elect s = []" "wn_quorum_num s = 3" "length (level 2 (wn_elect s)) = 3"
    "wn_coin_committee s = \<lparr>cc_authorities = demo_keys\<rparr>"
  shows "try_to_elect_leader env 2 s = Inr (s\<lparr>wn_leader_elect := [2], wn_leader := AList.update (Suc 0) (PublicKey 1) (wn_leader s)\<rparr>, [TryToCommitLeader (Suc 0)])"
proof -
  have "cc_leader \<lparr>cc_authorities = demo_keys\<rparr> 0 0 = Inr (PublicKey 1)" by (simp add: cc_leader_def demo_keys_def)
  moreover have "round_robin_slot 2 2 2 = Inr 0" by (simp add: round_robin_slot_def)
  ultimately show ?thesis using assms
   by (auto simp: try_to_elect_leader_def elect_value_def cc_round_robin_def Let_def)

qed

lemma elect_few: "length (level r (wn_elect s)) < wn_quorum_num s \<Longrightarrow> try_to_elect_leader env r s = Inr (s, [])"
  by (simp add: try_to_elect_leader_def)

lemma commit_none: "map_of (wn_leader s) r = None \<Longrightarrow> try_to_commit_leader env r s = s"
  by (simp add: try_to_commit_leader_def)

lemma commit_demo:
  assumes "wn_chain_round s = 0" "map_of (wn_leader s) (Suc 0) = Some l" "contains_key (wn_done s) (Suc 0, l)"
    "map_of (wn_dag s) (Suc 0, l) = Some b" "h_parents b = []" "h_round b = Suc 0" "h_author b = l" "wn_chain_blocks s = []"
    "ne_level_order env = (\<lambda>xs. xs)"
  shows "try_to_commit_leader env (Suc 0) s =
    wahoo_emit [Committed b] (s\<lparr>wn_chain_round := 1, wn_chain_blocks := [(header_digest (ne_crypto env) b, b)]\<rparr>)"
  using assms by (simp add: try_to_commit_leader_def try_to_commit_ancestor_leader_def commit_ancestor_blocks_def commit_entry_def Let_def
     contains_key_def)

definition ready_to_elect :: "WahooNode \<Rightarrow> bool" where
  "ready_to_elect s \<longleftrightarrow> wn_consensus_protocol s = RoundRobin \<and> wn_leader_elect s = [] \<and> wn_quorum_num s = 3 \<and>
     wn_coin_committee s = \<lparr>cc_authorities = demo_keys\<rparr> \<and> wn_chain_round s = 0 \<and> wn_leader s = [] \<and>
     map fst (wn_done s) = [(Suc 0, PublicKey 1)] \<and> map_of (wn_dag s) (Suc 0, PublicKey 1) = Some (header leader_certificate) \<and>
     wn_chain_blocks s = [] \<and> wn_elect s = [] \<and> committed s = []"


lemma done_demo:
  assumes "wn_committee s = demo_committee" "wn_quorum_num s = 3"
  shows "verify_done_proof (demo_wahoo_env separating_lib) (certificate_done (PublicKey 2) leader_certificate) s"
  using assms by (simp add: verify_done_proof_def certificate_done_def leader_certificate_def cert_origin_def demo_header_def demo_wahoo_env_def
    demo_keys_def Let_def unsigned_vote_def default_header_def)

definition ready_for_certificate :: "WahooNode \<Rightarrow> bool" where
  "ready_for_certificate s \<longleftrightarrow> wn_name s = PublicKey 2 \<and> wn_committee s = demo_committee \<and> wn_quorum_num s = 3 \<and>
     wn_dag s = [] \<and> wn_pending_blocks s = [] \<and> level 2 (wn_epbc_blocks s) = [] \<and> wn_epbc_delivered s = [] \<and> wn_done s = [] \<and>
     wn_move_round s = [] \<and> wn_consensus_protocol s = RoundRobin \<and> wn_leader_elect s = [] \<and>
     wn_coin_committee s = \<lparr>cc_authorities = demo_keys\<rparr> \<and> wn_chain_round s = 0 \<and> wn_leader s = [] \<and>
     wn_chain_blocks s = [] \<and> wn_elect s = [] \<and> committed s = []"

lemma start_run:
  "\<exists>s. wahoo_drain (demo_wahoo_env separating_lib) 20 [BroadcastBlock 1] (demo_wahoo_node (PublicKey 2)) = Some s \<and> ready_for_certificate s"
  by (simp add: ready_for_certificate_def header_digest_separating wahoo_demo_simps demo_keys_def cert_origin_def cert_round_def committed_def)

lemma leader_certificate_facts:
  "cert_round leader_certificate = 1" "cert_origin leader_certificate = PublicKey 1" "first_phase leader_certificate = Some PhaseTf"
  "h_round (header leader_certificate) = 1" "h_author (header leader_certificate) = PublicKey 1" "h_parents (header leader_certificate) = []"
  "wd_round (certificate_done k leader_certificate) = 1" "wd_block_sender (certificate_done k leader_certificate) = PublicKey 1"
  by (simp_all add: leader_certificate_def cert_round_def cert_origin_def first_phase_def certificate_done_def demo_header_def
    default_header_def Let_def unsigned_vote_def demo_keys_def)

lemma demo_orders [simp]:
  "ne_crypto (demo_wahoo_env lib) = lib" "ne_slot_order (demo_wahoo_env lib) = (\<lambda>xs. xs)" "ne_level_order (demo_wahoo_env lib) = (\<lambda>xs. xs)"
  by (simp_all add: demo_wahoo_env_def)

lemma level_Nil [simp]: "level r [] = []"
  by (simp add: level_def)

lemma level_update_other: "r \<noteq> q \<Longrightarrow> level r (AList.update (q, a) v m) = level r m"
  by (induction m) (auto simp: level_def)

lemma u64_two: "u64_add (Suc 0) (Suc 0) = 2"
  by (simp add: u64_add_def)

lemma certificate_run:
  assumes "ready_for_certificate s"
  shows "\<exists>s'. wahoo_run (demo_wahoo_env separating_lib) 20 [InMessage (WEpbcCertificate leader_certificate)] s = Some s' \<and> ready_to_elect s'"
  using assms
  by (simp add: wahoo_input_def wahoo_handle_message_def handle_epbc_certificate_def leader_certificate_facts try_to_update_dag_def
    check_whether_can_add_to_dag_def level_update_other level_Nil contains_key_def try_to_commit_leader_def try_to_update_dag_from_pending_def retry_pending_epbc_def
    handle_done_def done_demo store_done_def bump_round_def try_to_next_round_def ready_for_certificate_def ready_to_elect_def committed_def Let_def u64_two)

lemma elects_run:
  assumes "ready_to_elect s"
  shows "\<exists>s'. wahoo_run (demo_wahoo_env lib) 20 (map demo_elect [PublicKey 2, PublicKey 3, PublicKey 4]) s = Some s' \<and>
    committed s' = [header leader_certificate]"
proof -
  define e where "e k = \<lparr>we_sender = k, we_round = 2, we_partial_sig = []\<rparr>" for k
  define s2 where "s2 = store_elect (e (PublicKey 3)) (store_elect (e (PublicKey 2)) s)"
  define s3 where "s3 = store_elect (e (PublicKey 4)) s2"
  define s4 where "s4 = s3\<lparr>wn_leader_elect := [2], wn_leader := AList.update (Suc 0) (PublicKey 1) (wn_leader s3)\<rparr>"
  have s3: "wn_elect s3 = [((2, PublicKey 2), []), ((2, PublicKey 3), []), ((2, PublicKey 4), [])]"
    "wn_consensus_protocol s3 = RoundRobin" "wn_leader_elect s3 = []" "wn_quorum_num s3 = 3" "wn_coin_committee s3 = \<lparr>cc_authorities = demo_keys\<rparr>"
    using assms by (simp_all add: s3_def s2_def store_elect_def e_def ready_to_elect_def)
  have elect: "try_to_elect_leader env 2 s3 = Inr (s4, [TryToCommitLeader (Suc 0)])" for env
    unfolding s4_def by (rule elect_demo) (use s3 in \<open>simp_all add: level_def\<close>)
  have s4: "wn_chain_round s4 = 0" "map_of (wn_leader s4) (Suc 0) = Some (PublicKey 1)" "contains_key (wn_done s4) (Suc 0, PublicKey 1)"
    "map_of (wn_dag s4) (Suc 0, PublicKey 1) = Some (header leader_certificate)" "wn_chain_blocks s4 = []"
    using assms by (auto simp: s4_def s3_def s2_def store_elect_def ready_to_elect_def contains_key_iff simp flip: set_map)
  have "try_to_commit_leader (demo_wahoo_env lib) (Suc 0) s4 = wahoo_emit [Committed (header leader_certificate)]
      (s4\<lparr>wn_chain_round := 1, wn_chain_blocks := [(header_digest lib (header leader_certificate), header leader_certificate)]\<rparr>)"
    using commit_demo [of s4 "PublicKey 1" "header leader_certificate" "demo_wahoo_env lib"] s4 leader_certificate_facts by simp
  moreover have "committed s4 = []" using assms by (simp add: s4_def s3_def s2_def store_elect_def ready_to_elect_def committed_def)
  ultimately have commit: "committed (try_to_commit_leader (demo_wahoo_env lib) (Suc 0) s4) = [header leader_certificate]"
    by (simp add: committed_def wahoo_emit_def)
  have few: "handle_elect env (e (PublicKey 2)) s = Inr (store_elect (e (PublicKey 2)) s, [])"
    "handle_elect env (e (PublicKey 3)) (store_elect (e (PublicKey 2)) s) = Inr (s2, [])" for env
    using assms by (auto simp: handle_elect_def s2_def e_def store_elect_def ready_to_elect_def level_def intro!: elect_few)
  have "handle_elect env (e (PublicKey 4)) s2 = Inr (s4, [TryToCommitLeader (Suc 0)])" for env
    using elect by (simp add: handle_elect_def s3_def e_def)
  with few commit show ?thesis
    by (simp add: demo_elect_def wahoo_input_def wahoo_handle_message_def e_def [symmetric])
qed

lemma start_proposal:
  "\<exists>s. wahoo_drain (demo_wahoo_env demo_lib) 20 [BroadcastBlock 1] (demo_wahoo_node (PublicKey 1)) = Some s \<and>
    header_rounds s = [1] \<and> wn_next_round_signaled s = []"
  by (simp add: header_rounds_def wahoo_demo_simps demo_keys_def cert_origin_def cert_round_def)

theorem wahoo_proposes_once_witness:
  "\<exists>s. wahoo_reachable (demo_wahoo_env demo_lib) (\<lambda>_. True) (demo_wahoo_node (PublicKey 1)) [] s \<and>
     header_rounds s = [1] \<and> sorted_wrt (<) (header_rounds s)"
proof -
  obtain s where s: "wahoo_drain (demo_wahoo_env demo_lib) 20 [BroadcastBlock 1] (demo_wahoo_node (PublicKey 1)) = Some s"
    "header_rounds s = [1]" "wn_next_round_signaled s = []" using start_proposal by blast
  have run: "wahoo_reachable (demo_wahoo_env demo_lib) (\<lambda>_. True) (demo_wahoo_node (PublicKey 1)) [] s"
    by (rule wahoo_reachable_drain [OF s(1) wahoo_reachable.start])
  have "sorted_wrt (<) (header_rounds s)"
    by (rule wahoo_proposes_once [OF demo_wahoo_new _ run]) (simp_all add: is_equivocating_def byzantine_default_def s(3))
  with run s(2) show ?thesis by blast
qed

definition leader_arrives :: "NodeInput \<Rightarrow> bool" where
  "leader_arrives i \<longleftrightarrow> i = InMessage (WEpbcCertificate leader_certificate) \<or> (\<exists>k. i = demo_elect k)"

lemma leader_wire: "\<forall>i. leader_arrives i \<longrightarrow> input_wire i"
  by (auto simp: leader_arrives_def demo_elect_def wire_header_def leader_certificate_facts)

lemma leader_certified:
  "\<exists>s. wahoo_reachable (demo_wahoo_env separating_lib) leader_arrives (demo_wahoo_node (PublicKey 2)) [] s \<and> ready_to_elect s"
proof -
  obtain s0 where s0: "wahoo_drain (demo_wahoo_env separating_lib) 20 [BroadcastBlock 1] (demo_wahoo_node (PublicKey 2)) = Some s0"
    "ready_for_certificate s0" using start_run by blast
  obtain s1 where s1: "wahoo_run (demo_wahoo_env separating_lib) 20 [InMessage (WEpbcCertificate leader_certificate)] s0 = Some s1"
    "ready_to_elect s1" using certificate_run [OF s0(2)] by blast
  have "wahoo_reachable (demo_wahoo_env separating_lib) leader_arrives (demo_wahoo_node (PublicKey 2)) [] s1"
    by (rule wahoo_reachable_run [OF s1(1) wahoo_reachable_drain [OF s0(1) wahoo_reachable.start]]) (simp add: leader_arrives_def)
  with s1(2) show ?thesis by blast
qed

theorem wahoo_commits_history_once_witness:
  "\<exists>s. wahoo_reachable (demo_wahoo_env separating_lib) leader_arrives (demo_wahoo_node (PublicKey 2)) [] s \<and>
     committed s = [header leader_certificate] \<and> distinct (map (header_digest separating_lib) (committed s))"
proof -
  obtain s1 where s1: "wahoo_reachable (demo_wahoo_env separating_lib) leader_arrives (demo_wahoo_node (PublicKey 2)) [] s1" "ready_to_elect s1"
    using leader_certified by blast
  obtain s2 where s2: "wahoo_run (demo_wahoo_env separating_lib) 20 (map demo_elect [PublicKey 2, PublicKey 3, PublicKey 4]) s1 = Some s2"
    "committed s2 = [header leader_certificate]" using elects_run [OF s1(2)] by blast
  have run: "wahoo_reachable (demo_wahoo_env separating_lib) leader_arrives (demo_wahoo_node (PublicKey 2)) [] s2"
    by (rule wahoo_reachable_run [OF s2(1) s1(1)]) (auto simp: leader_arrives_def)
  have "distinct (map (header_digest (ne_crypto (demo_wahoo_env separating_lib))) (committed s2))"
    using wahoo_commits_history_once [OF demo_iterates _ leader_wire demo_wahoo_new run] separating_lib_separates by simp
  with run s2(2) show ?thesis by auto
qed

end
