(* ===== verification/Wahoo_Order.thy ===== *)
theory Wahoo_Order
  imports Wahoo_Examples
begin

text \<open>
  What the state of a Wahoo node looks like, and in which order it hands a leader and its
  ancestors to the consensus layer: after them when the leader is committed on its own Done, in
  front of them when a later leader commits it.
\<close>

section \<open>The shape of the state\<close>

text \<open>
  C21. The DAG of a Wahoo node is well formed.  In every reachable state each block of the DAG is
  stored under its own round and author, its round fits in 64 bits, and every parent of it is a
  known block of the round below, indexed under its own digest.
\<close>

theorem wahoo_dag_well_formed:
  assumes "iterates env" and "digests_separate (ne_crypto env) wire_header" and "\<forall>i. arrives i \<longrightarrow> input_wire i"
    and "wahoo_node_new env name c cp hs byz = Inr s0" and "wahoo_reachable env arrives s0 stack s"
    and "map_of (wn_dag s) (r, a) = Some b"
  shows "h_round b = r \<and> h_author b = a \<and> r < 2 ^ 64 \<and>
    (0 < r \<longrightarrow> (\<forall>d \<in> set (h_parents b). \<exists>p. map_of (wn_blocks_by_digest s) d = Some p \<and>
       h_round p = r - 1 \<and> header_digest (ne_crypto env) p = d))"
proof -
  have "wahoo_commit_inv (ne_crypto env) wire_header s"
    using wahoo_reachable_commit_inv [OF assms(1,2) _ assms(4,5)] assms(3) by (simp add: wahoo_inv_def)
  then have dag: "(h_round b, h_author b) = (r, a)" "parents_linked wire_header s b" and known: "blocks_ok (ne_crypto env) wire_header s"
    using assms(6) unfolding wahoo_commit_inv_def by blast+
  then show ?thesis by (fastforce simp: parents_linked_def blocks_ok_def wire_header_def)
qed

section \<open>The commit functions only append events\<close>

lemma queue_parent_events [simp]: "queue_parent (s\<lparr>wn_events := es\<rparr>) = queue_parent s"
  by (intro ext) (simp add: queue_parent_def split: option.split)

lemma commit_entry_events:
  "\<exists>cb new. \<forall>es. commit_entry round leader h b (s\<lparr>wn_events := es\<rparr>) = s\<lparr>wn_chain_blocks := cb, wn_events := es @ map Committed new\<rparr>"
proof (cases "contains_key (wn_chain_blocks s) h")
  case True
  then have "\<forall>es. commit_entry round leader h b (s\<lparr>wn_events := es\<rparr>) = s\<lparr>wn_chain_blocks := wn_chain_blocks s, wn_events := es @ map Committed []\<rparr>"
    by (simp add: commit_entry_def)
  then show ?thesis by blast
next
  case False
  then have "\<forall>es. commit_entry round leader h b (s\<lparr>wn_events := es\<rparr>) = s\<lparr>wn_chain_blocks := AList.update h b (wn_chain_blocks s),
      wn_events := es @ map Committed (if h_round b = round \<and> h_author b = leader then [] else [b])\<rparr>"
    by (auto simp: commit_entry_def wahoo_emit_def Let_def)
  then show ?thesis by blast
qed

lemma commit_entries_events:
  "\<exists>nxt' cb new. \<forall>es. commit_entries round leader r ents nxt (s\<lparr>wn_events := es\<rparr>) =
     (nxt', s\<lparr>wn_chain_blocks := cb, wn_events := es @ map Committed new\<rparr>)"
proof (induction ents arbitrary: nxt s)
  case Nil
  have "\<forall>es. commit_entries round leader r [] nxt (s\<lparr>wn_events := es\<rparr>) =
      (nxt, s\<lparr>wn_chain_blocks := wn_chain_blocks s, wn_events := es @ map Committed []\<rparr>)" by simp
  then show ?case by blast
next
  case (Cons e ents)
  obtain h b where e: "e = (h, b)" by fastforce
  obtain cb new where one: "\<And>es. commit_entry round leader h b (s\<lparr>wn_events := es\<rparr>) = s\<lparr>wn_chain_blocks := cb, wn_events := es @ map Committed new\<rparr>"
    using commit_entry_events by blast
  define t where "t = s\<lparr>wn_chain_blocks := cb\<rparr>"
  define nxt1 where "nxt1 = (if r > 0 then foldl (queue_parent t) nxt (h_parents b) else nxt)"
  obtain nxt' cb' new' where rest: "\<And>es. commit_entries round leader r ents nxt1 (t\<lparr>wn_events := es\<rparr>) =
      (nxt', t\<lparr>wn_chain_blocks := cb', wn_events := es @ map Committed new'\<rparr>)"
    using Cons.IH by blast
  have "commit_entries round leader r (e # ents) nxt (s\<lparr>wn_events := es\<rparr>) =
      (nxt', s\<lparr>wn_chain_blocks := cb', wn_events := es @ map Committed (new @ new')\<rparr>)" for es
  proof -
    have first: "commit_entry round leader h b (s\<lparr>wn_events := es\<rparr>) = t\<lparr>wn_events := es @ map Committed new\<rparr>"
      using one [of es] by (simp add: t_def)
    have "commit_entries round leader r (e # ents) nxt (s\<lparr>wn_events := es\<rparr>) = commit_entries round leader r ents nxt1 (t\<lparr>wn_events := es @ map Committed new\<rparr>)"
      by (simp add: e first nxt1_def Let_def)
    then show ?thesis using rest [of "es @ map Committed new"] by (simp add: t_def)
  qed
  then show ?case by blast
qed

lemma commit_levels_events:
  "\<exists>cb new. \<forall>es. commit_levels env round leader r lv (s\<lparr>wn_events := es\<rparr>) = s\<lparr>wn_chain_blocks := cb, wn_events := es @ map Committed new\<rparr>"
proof (induction r arbitrary: lv s)
  case 0
  obtain nxt' cb new where "\<And>es. commit_entries round leader 0 (ne_level_order env lv) [] (s\<lparr>wn_events := es\<rparr>) =
      (nxt', s\<lparr>wn_chain_blocks := cb, wn_events := es @ map Committed new\<rparr>)" using commit_entries_events by blast
  then have "\<forall>es. commit_levels env round leader 0 lv (s\<lparr>wn_events := es\<rparr>) = s\<lparr>wn_chain_blocks := cb, wn_events := es @ map Committed new\<rparr>" by simp
  then show ?case by blast
next
  case (Suc r)
  obtain nxt' cb new where one: "\<And>es. commit_entries round leader (Suc r) (ne_level_order env lv) [] (s\<lparr>wn_events := es\<rparr>) =
      (nxt', s\<lparr>wn_chain_blocks := cb, wn_events := es @ map Committed new\<rparr>)" using commit_entries_events by blast
  show ?case
  proof (cases "nxt' = []")
    case True
    then have "\<forall>es. commit_levels env round leader (Suc r) lv (s\<lparr>wn_events := es\<rparr>) = s\<lparr>wn_chain_blocks := cb, wn_events := es @ map Committed new\<rparr>"
      by (simp add: one)
    then show ?thesis by blast
  next
    case False
    define t where "t = s\<lparr>wn_chain_blocks := cb\<rparr>"
    obtain cb' new' where rest: "\<And>es. commit_levels env round leader r nxt' (t\<lparr>wn_events := es\<rparr>) =
        t\<lparr>wn_chain_blocks := cb', wn_events := es @ map Committed new'\<rparr>" using Suc.IH by blast
    have "commit_levels env round leader (Suc r) lv (s\<lparr>wn_events := es\<rparr>) = s\<lparr>wn_chain_blocks := cb', wn_events := es @ map Committed (new @ new')\<rparr>" for es
    proof -
      have "commit_levels env round leader (Suc r) lv (s\<lparr>wn_events := es\<rparr>) = commit_levels env round leader r nxt' (t\<lparr>wn_events := es @ map Committed new\<rparr>)"
        using one [of es] False by (simp add: t_def)
      then show ?thesis using rest [of "es @ map Committed new"] by (simp add: t_def)
    qed
    then show ?thesis by blast
  qed
qed

lemma commit_ancestor_blocks_events:
  "\<exists>cb new. \<forall>es. commit_ancestor_blocks env r (s\<lparr>wn_events := es\<rparr>) = s\<lparr>wn_chain_blocks := cb, wn_events := es @ map Committed new\<rparr>"
proof (cases "\<exists>leader b. map_of (wn_leader s) r = Some leader \<and> map_of (wn_dag s) (r, leader) = Some b")
  case True
  then obtain leader b where "map_of (wn_leader s) r = Some leader" "map_of (wn_dag s) (r, leader) = Some b" by blast
  then show ?thesis using commit_levels_events by (simp add: commit_ancestor_blocks_def)
next
  case False
  then have "\<forall>es. commit_ancestor_blocks env r (s\<lparr>wn_events := es\<rparr>) = s\<lparr>wn_chain_blocks := wn_chain_blocks s, wn_events := es @ map Committed []\<rparr>"
    by (auto simp: commit_ancestor_blocks_def split: option.splits)
  then show ?thesis by blast
qed

section \<open>The order of a leader and its ancestors\<close>

text \<open>
  C37. The order of commits depends on how a leader is committed.  From one state, a leader above
  the chain with no earlier leader to commit is handed to the consensus layer after its new
  ancestors when its own Done commits it, and before the same ancestors when it is committed
  as the ancestor of a later leader; so two nodes that commit the same blocks, one each way,
  output them in different orders.
\<close>

theorem wahoo_commit_order_depends:
  assumes "wn_chain_round s < r" and "r - 2 \<le> wn_chain_round s" and "map_of (wn_leader s) r = Some leader"
    and "contains_key (wn_done s) (r, leader)" and "map_of (wn_dag s) (r, leader) = Some b" and "contains_key valid r"
  shows "\<exists>new. committed (try_to_commit_leader env r s) = committed s @ new @ [b] \<and>
    committed (commit_ancestor_leader env valid r s) = committed s @ [b] @ new"
proof -
  define t where "t = s\<lparr>wn_chain_round := r, wn_chain_blocks := AList.update (header_digest (ne_crypto env) b) b (wn_chain_blocks s)\<rparr>"
  obtain cb new where anc: "\<And>es. commit_ancestor_blocks env r (t\<lparr>wn_events := es\<rparr>) = t\<lparr>wn_chain_blocks := cb, wn_events := es @ map Committed new\<rparr>"
    using commit_ancestor_blocks_events by blast
  have same: "t\<lparr>wn_events := wn_events s\<rparr> = t" by (simp add: t_def)
  have none: "try_to_commit_ancestor_leader env r s = s" using assms(2) by (simp add: try_to_commit_ancestor_leader_def)
  have "try_to_commit_leader env r s = wahoo_emit [Committed b] (commit_ancestor_blocks env r t)"
    unfolding try_to_commit_leader_def none Let_def using assms(1,3-5) by (simp add: t_def)
  also have "\<dots> = t\<lparr>wn_chain_blocks := cb, wn_events := wn_events s @ map Committed (new @ [b])\<rparr>"
    using anc [of "wn_events s"] by (simp add: same wahoo_emit_def)
  finally have direct: "committed (try_to_commit_leader env r s) = committed s @ new @ [b]" by (simp add: committed_def del: map_append)
  have "commit_ancestor_leader env valid r s = commit_ancestor_blocks env r (t\<lparr>wn_events := wn_events s @ [Committed b]\<rparr>)"
    using assms(3,5,6) by (simp add: commit_ancestor_leader_def wahoo_emit_def t_def)
  also have "\<dots> = t\<lparr>wn_chain_blocks := cb, wn_events := (wn_events s @ [Committed b]) @ map Committed new\<rparr>" by (rule anc)
  finally have "committed (commit_ancestor_leader env valid r s) = committed s @ [b] @ new" by (simp add: committed_def)
  with direct show ?thesis by blast
qed

text \<open>A leader of round three whose only parent is not committed.\<close>

definition order_parent :: Header where
  "order_parent = demo_header (PublicKey 2) 2 []"

definition order_leader :: Header where
  "order_leader = demo_header (PublicKey 1) 3 [Digest 2]"

definition order_state :: WahooNode where
  "order_state = (demo_wahoo_node (PublicKey 1))\<lparr>wn_chain_round := 1, wn_leader := [(3, PublicKey 1)],
     wn_done := [((3, PublicKey 1), certificate_done (PublicKey 1) \<lparr>header = order_leader, votes = []\<rparr>)],
     wn_dag := [((2, PublicKey 2), order_parent), ((3, PublicKey 1), order_leader)],
     wn_blocks_by_digest := [(Digest 2, order_parent), (Digest 1, order_leader)]\<rparr>"

lemma order_state_fields:
  "wn_chain_round order_state = 1" "map_of (wn_leader order_state) 3 = Some (PublicKey 1)"
  "contains_key (wn_done order_state) (3, PublicKey 1)" "map_of (wn_dag order_state) (3, PublicKey 1) = Some order_leader"
  "committed order_state = []"
  by (simp_all add: order_state_def contains_key_def committed_def demo_wahoo_node_def wahoo_node_init_def Let_def)

lemma order_state_direct:
  "committed (try_to_commit_leader (demo_wahoo_env demo_lib) 3 order_state) = [order_parent, order_leader]"
proof -
  define t where "t = order_state\<lparr>wn_chain_round := 3, wn_chain_blocks := [(Digest 1, order_leader)]\<rparr>"
  have dig: "header_digest demo_lib order_leader = Digest 1" by (simp add: header_digest_demo order_leader_def demo_header_def default_header_def)
  have fields: "wn_chain_blocks t = [(Digest 1, order_leader)]" "wn_blocks_by_digest t = [(Digest 2, order_parent), (Digest 1, order_leader)]"
    "wn_dag t = wn_dag order_state" "wn_leader t = wn_leader order_state" "wn_events t = []"
    by (simp_all add: t_def order_state_def demo_wahoo_node_def wahoo_node_init_def Let_def)
  have headers: "h_parents order_leader = [Digest 2]" "h_round order_leader = 3" "h_author order_leader = PublicKey 1"
    "h_round order_parent = 2" "h_author order_parent = PublicKey 2" "h_parents order_parent = []"
    by (simp_all add: order_leader_def order_parent_def demo_header_def default_header_def)
  have three: "commit_levels env round leader 3 = commit_levels env round leader (Suc (Suc 1))" for env round leader by (simp add: numeral_3_eq_3)
  have "commit_ancestor_blocks (demo_wahoo_env demo_lib) 3 t =
      t\<lparr>wn_chain_blocks := [(Digest 1, order_leader), (Digest 2, order_parent)], wn_events := [Committed order_parent]\<rparr>"
    by (simp add: commit_ancestor_blocks_def fields order_state_fields dig three commit_entry_def queue_parent_def contains_key_def headers
        wahoo_emit_def)
  moreover have "try_to_commit_leader (demo_wahoo_env demo_lib) 3 order_state =
      wahoo_emit [Committed order_leader] (commit_ancestor_blocks (demo_wahoo_env demo_lib) 3 t)"
    using order_state_fields by (simp add: try_to_commit_leader_def try_to_commit_ancestor_leader_def Let_def t_def dig)
      (simp add: order_state_def demo_wahoo_node_def wahoo_node_init_def Let_def)
  ultimately show ?thesis by (simp add: committed_def wahoo_emit_def)
qed

theorem wahoo_commit_order_depends_witness:
  "committed (try_to_commit_leader (demo_wahoo_env demo_lib) 3 order_state) = [order_parent, order_leader] \<and>
   committed (commit_ancestor_leader (demo_wahoo_env demo_lib) [(3, PublicKey 1)] 3 order_state) = [order_leader, order_parent]"
  using wahoo_commit_order_depends [of order_state 3 "PublicKey 1" order_leader "[(3, PublicKey 1)]" "demo_wahoo_env demo_lib"]
    order_state_fields order_state_direct by (auto simp: contains_key_def)

theorem wahoo_dag_well_formed_witness:
  "\<exists>s b. wahoo_reachable (demo_wahoo_env separating_lib) leader_arrives (demo_wahoo_node (PublicKey 2)) [] s \<and>
     map_of (wn_dag s) (1, PublicKey 1) = Some b \<and> h_round b = 1 \<and> h_author b = PublicKey 1"
proof -
  obtain s where s: "wahoo_reachable (demo_wahoo_env separating_lib) leader_arrives (demo_wahoo_node (PublicKey 2)) [] s" "ready_to_elect s"
    using leader_certified by blast
  then have b: "map_of (wn_dag s) (1, PublicKey 1) = Some (header leader_certificate)" by (simp add: ready_to_elect_def)
  have "h_round (header leader_certificate) = 1 \<and> h_author (header leader_certificate) = PublicKey 1"
    using wahoo_dag_well_formed [OF demo_iterates _ leader_wire demo_wahoo_new s(1) b] separating_lib_separates by simp
  with s(1) b show ?thesis by blast
qed

section \<open>A Done is not bound to its slot\<close>

lemma sig_bytes_roundtrip:
  assumes "sig_verify lib s d k = Inr ()"
  shows "sig_from_bytes lib (sig_to_bytes s) = Inr s"
  using assms by (cases s) (auto simp: sig_verify_def sig_from_bytes_def sig_to_bytes_def sig_flatten_def split: if_splits)

lemma verify_done_entries_signed:
  assumes "\<And>v. v \<in> set vs \<Longrightarrow> 0 < stake c (v_author v) \<and> sig_verify lib (v_signature v) (wd_hash d) (v_author v) = Inr ()"
    and "distinct (map v_author vs)" and "set used \<inter> v_author ` set vs = {}"
  shows "verify_done_entries lib c d used (map (\<lambda>v. (v_author v, sig_to_bytes (v_signature v))) vs) = Some (rev (map v_author vs) @ used)"
  using assms
proof (induction vs arbitrary: used)
  case (Cons v vs)
  have v: "stake c (v_author v) \<noteq> 0" "sig_verify lib (v_signature v) (wd_hash d) (v_author v) = Inr ()" "v_author v \<notin> set used"
    using Cons.prems(1) [of v] Cons.prems(3) by auto
  have "verify_done_entries lib c d (v_author v # used) (map (\<lambda>v. (v_author v, sig_to_bytes (v_signature v))) vs) =
      Some (rev (map v_author vs) @ v_author v # used)"
    using Cons.prems by (intro Cons.IH) auto
  with v sig_bytes_roundtrip [OF v(2)] show ?case by simp
qed simp

text \<open>
  C38. Any quorum of signatures on one digest is a Done for every slot.  A signature on the hash of
  a Done counts as a Ready share, and nothing ties the hash to the round and the block sender;
  the digest of a vote does not name the voter, so the votes of any quorum, for whatever block
  and phase, pass as the proof that the block of an arbitrary member and round was delivered.
\<close>

theorem done_forged_from_votes:
  assumes "\<forall>v \<in> set vs. 0 < stake (wn_committee s) (v_author v) \<and>
      sig_verify (ne_crypto env) (v_signature v) digest (v_author v) = Inr ()"
    and "distinct (map v_author vs)" and "wn_quorum_num s \<le> length vs"
    and "0 < stake (wn_committee s) forger" and "0 < stake (wn_committee s) victim"
  shows "verify_done_proof env \<lparr>wd_done_sender = forger, wd_block_sender = victim,
      wd_done = map (\<lambda>v. (v_author v, sig_to_bytes (v_signature v))) vs, wd_hash = digest, wd_round = r\<rparr> s"
  using verify_done_entries_signed [of vs "wn_committee s" "ne_crypto env" "\<lparr>wd_done_sender = forger, wd_block_sender = victim,
      wd_done = map (\<lambda>v. (v_author v, sig_to_bytes (v_signature v))) vs, wd_hash = digest, wd_round = r\<rparr>" "[]"] assms
  by (simp add: verify_done_proof_def word_neq_0_conv [symmetric] del: word_neq_0_conv)

text \<open>The votes of the certificate of round two as the Done of a block of round nine that does not exist.\<close>

theorem done_forged_from_votes_witness:
  "verify_done_proof (demo_wahoo_env demo_lib) \<lparr>wd_done_sender = PublicKey 4, wd_block_sender = PublicKey 3,
     wd_done = map (\<lambda>v. (v_author v, sig_to_bytes (v_signature v))) (votes pbc_certificate),
     wd_hash = vote_digest demo_lib (hd (votes pbc_certificate)), wd_round = 9\<rparr> (demo_wahoo_node (PublicKey 1))"
  by (rule done_forged_from_votes)
    (auto simp: pbc_certificate_def pbc_vote_def unsigned_vote_def demo_wahoo_env_def demo_wahoo_node_def wahoo_node_init_def
      demo_keys_def Let_def sig_verify_def)

end
