(* ===== verification/Reliable_Sender.thy ===== *)
theory Reliable_Sender
  imports Config "HOL-Library.Sublist"
begin

text \<open>
  The reliable sender (\<^verbatim>\<open>network/src/reliable_sender.rs\<close>): one connection task per peer, which
  writes the messages of its channel to the peer, keeps them until they are acknowledged and
  sends them again after an error.  A step of the task is an event: a connection attempt, the
  timer, a message taken from the channel, a write, or what the reader returns; the outcome of
  the socket is part of the event.  The caller accepts messages into the channel and may drop
  a cancel handler at any time.
\<close>

section \<open>The connection task\<close>

record InnerMessage =
  im_data :: "byte list"
  im_handler :: nat

datatype NetworkError =
    FailedToConnect SocketAddr "16 word"
  | FailedToSendMessage SocketAddr
  | FailedToReceiveAck SocketAddr
  | UnexpectedAck SocketAddr

text \<open>
  Where the task waits: for the connection, in the timer of a failed one, in the loop that
  writes the buffer, or in the select of \<^verbatim>\<open>keep_alive\<close>.
\<close>

datatype ConnectionPhase = Connecting | Waiting | Flushing | Selecting

record Connection =
  cn_address :: SocketAddr
  cn_receiver :: "InnerMessage list"
  cn_retry_delay :: nat
  cn_buffer :: "InnerMessage list"
  cn_delay :: nat
  cn_retry :: "16 word"
  cn_phase :: ConnectionPhase
  cn_pending_replies :: "InnerMessage list"
  cn_closed :: "nat set"

definition connection_new :: "SocketAddr \<Rightarrow> Connection" where
  "connection_new address =
     \<lparr>cn_address = address, cn_receiver = [], cn_retry_delay = 200, cn_buffer = [], cn_delay = 200, cn_retry = 0,
      cn_phase = Connecting, cn_pending_replies = [], cn_closed = {}\<rparr>"

definition is_closed :: "Connection \<Rightarrow> InnerMessage \<Rightarrow> bool" where
  "is_closed c m \<longleftrightarrow> im_handler m \<in> cn_closed c"

datatype ConnectionEvent =
    AcceptMessage InnerMessage
  | CloseHandler nat
  | ConnectOk
  | ConnectFailed
  | TimerFired
  | ReceiveMessage
  | WriteNext bool
  | ReadReply "byte list option"

datatype ConnectionOutput =
    Transmitted InnerMessage
  | Notified InnerMessage "byte list"
  | Warned NetworkError

definition CHANNEL_CAPACITY :: nat where
  "CHANNEL_CAPACITY = 1000"

text \<open>Back to the connection loop: the messages without a reply go in front of the buffer.\<close>

definition connection_error :: "NetworkError \<Rightarrow> Connection \<Rightarrow> Connection \<times> ConnectionOutput list" where
  "connection_error e c =
     (c\<lparr>cn_buffer := foldr (#) (cn_pending_replies c) (cn_buffer c), cn_pending_replies := [], cn_phase := Connecting\<rparr>, [Warned e])"

definition connect_ok :: "Connection \<Rightarrow> Connection" where
  "connect_ok c = c\<lparr>cn_delay := cn_retry_delay c, cn_retry := 0, cn_pending_replies := [], cn_phase := Flushing\<rparr>"

definition timer_fired :: "Connection \<Rightarrow> Connection" where
  "timer_fired c = c\<lparr>cn_delay := min (2 * cn_delay c) 60000, cn_retry := cn_retry c + 1, cn_phase := Connecting\<rparr>"

definition drain_receiver :: "InnerMessage \<Rightarrow> InnerMessage list \<Rightarrow> Connection \<Rightarrow> Connection" where
  "drain_receiver m ms c = c\<lparr>cn_receiver := ms, cn_buffer := filter (\<lambda>x. \<not> is_closed c x) (cn_buffer c @ [m])\<rparr>"

definition write_next :: "bool \<Rightarrow> Connection \<Rightarrow> Connection \<times> ConnectionOutput list" where
  "write_next ok c =
     (case cn_buffer c of
        [] \<Rightarrow> (c\<lparr>cn_phase := Selecting\<rparr>, [])
      | m # ms \<Rightarrow>
          if is_closed c m then (c\<lparr>cn_buffer := ms\<rparr>, [])
          else if ok then (c\<lparr>cn_buffer := ms, cn_pending_replies := cn_pending_replies c @ [m]\<rparr>, [Transmitted m])
          else connection_error (FailedToSendMessage (cn_address c)) c)"

definition read_reply :: "byte list option \<Rightarrow> Connection \<Rightarrow> Connection \<times> ConnectionOutput list" where
  "read_reply response c =
     (case cn_pending_replies c of
        [] \<Rightarrow> connection_error (UnexpectedAck (cn_address c)) c
      | m # ms \<Rightarrow>
          (case response of
             Some bytes \<Rightarrow> (c\<lparr>cn_pending_replies := ms, cn_phase := Flushing\<rparr>, [Notified m bytes])
           | None \<Rightarrow> connection_error (FailedToReceiveAck (cn_address c)) c))"

text \<open>One event; None when the task does not wait for it.\<close>

definition connection_step :: "ConnectionEvent \<Rightarrow> Connection \<Rightarrow> (Connection \<times> ConnectionOutput list) option" where
  "connection_step event c =
     (case event of
        AcceptMessage m \<Rightarrow>
          if length (cn_receiver c) < CHANNEL_CAPACITY then Some (c\<lparr>cn_receiver := cn_receiver c @ [m]\<rparr>, []) else None
      | CloseHandler n \<Rightarrow> Some (c\<lparr>cn_closed := insert n (cn_closed c)\<rparr>, [])
      | ConnectOk \<Rightarrow> if cn_phase c = Connecting then Some (connect_ok c, []) else None
      | ConnectFailed \<Rightarrow>
          if cn_phase c = Connecting
          then Some (c\<lparr>cn_phase := Waiting\<rparr>, [Warned (FailedToConnect (cn_address c) (cn_retry c))]) else None
      | TimerFired \<Rightarrow> if cn_phase c = Waiting then Some (timer_fired c, []) else None
      | ReceiveMessage \<Rightarrow>
          (case cn_receiver c of
             [] \<Rightarrow> None
           | m # ms \<Rightarrow>
               if cn_phase c = Waiting then Some (drain_receiver m ms c, [])
               else if cn_phase c = Selecting
               then Some (c\<lparr>cn_receiver := ms, cn_buffer := cn_buffer c @ [m], cn_phase := Flushing\<rparr>, [])
               else None)
      | WriteNext ok \<Rightarrow> if cn_phase c = Flushing then Some (write_next ok c) else None
      | ReadReply response \<Rightarrow> if cn_phase c = Selecting then Some (read_reply response c) else None)"

fun connection_run :: "ConnectionEvent list \<Rightarrow> Connection \<Rightarrow> (Connection \<times> ConnectionOutput list) option" where
  "connection_run [] c = Some (c, [])"
| "connection_run (e # es) c =
     (case connection_step e c of
        None \<Rightarrow> None
      | Some (c1, out1) \<Rightarrow>
          (case connection_run es c1 of None \<Rightarrow> None | Some (c2, out2) \<Rightarrow> Some (c2, out1 @ out2)))"

section \<open>The sender\<close>

record ReliableSender =
  rs_connections :: "(SocketAddr \<times> Connection) list"
  rs_handlers :: nat

definition reliable_sender_new :: ReliableSender where
  "reliable_sender_new = \<lparr>rs_connections = [], rs_handlers = 0\<rparr>"

text \<open>The caller waits (None) while the channel of the connection is full.\<close>

definition reliable_send :: "SocketAddr \<Rightarrow> byte list \<Rightarrow> ReliableSender \<Rightarrow> (ReliableSender \<times> nat) option" where
  "reliable_send address data s =
     (let connection = (case map_of (rs_connections s) address of None \<Rightarrow> connection_new address | Some c \<Rightarrow> c);
          handler = rs_handlers s
      in case connection_step (AcceptMessage \<lparr>im_data = data, im_handler = handler\<rparr>) connection of
           None \<Rightarrow> None
         | Some (c, _) \<Rightarrow>
             Some (s\<lparr>rs_connections := AList.update address c (rs_connections s), rs_handlers := Suc handler\<rparr>, handler))"

fun reliable_broadcast :: "SocketAddr list \<Rightarrow> byte list \<Rightarrow> ReliableSender \<Rightarrow> (ReliableSender \<times> nat list) option" where
  "reliable_broadcast [] data s = Some (s, [])"
| "reliable_broadcast (address # addresses) data s =
     (case reliable_send address data s of
        None \<Rightarrow> None
      | Some (s1, handler) \<Rightarrow>
          (case reliable_broadcast addresses data s1 of
             None \<Rightarrow> None
           | Some (s2, handlers) \<Rightarrow> Some (s2, handler # handlers)))"

definition lucky_broadcast ::
    "(SocketAddr list \<Rightarrow> SocketAddr list) \<Rightarrow> SocketAddr list \<Rightarrow> byte list \<Rightarrow> nat \<Rightarrow> ReliableSender
     \<Rightarrow> (ReliableSender \<times> nat list) option" where
  "lucky_broadcast shuffle addresses data nodes s = reliable_broadcast (take nodes (shuffle addresses)) data s"

section \<open>What a run has done\<close>

fun accepted :: "ConnectionEvent list \<Rightarrow> InnerMessage list" where
  "accepted [] = []"
| "accepted (AcceptMessage m # es) = m # accepted es"
| "accepted (_ # es) = accepted es"

fun transmitted :: "ConnectionOutput list \<Rightarrow> InnerMessage list" where
  "transmitted [] = []"
| "transmitted (Transmitted m # out) = m # transmitted out"
| "transmitted (_ # out) = transmitted out"

fun notified :: "ConnectionOutput list \<Rightarrow> InnerMessage list" where
  "notified [] = []"
| "notified (Notified m _ # out) = m # notified out"
| "notified (_ # out) = notified out"

lemma accepted_append [simp]: "accepted (xs @ ys) = accepted xs @ accepted ys"
  by (induction xs rule: accepted.induct) auto

lemma transmitted_append [simp]: "transmitted (xs @ ys) = transmitted xs @ transmitted ys"
  by (induction xs rule: transmitted.induct) auto

lemma notified_append [simp]: "notified (xs @ ys) = notified xs @ notified ys"
  by (induction xs rule: notified.induct) auto

text \<open>The messages the connection still holds, in the order it will send them.\<close>

definition outstanding :: "Connection \<Rightarrow> InnerMessage list" where
  "outstanding c = cn_pending_replies c @ cn_buffer c @ cn_receiver c"

section \<open>Delivery\<close>

text \<open>
  After the events \<open>es\<close> with the outputs \<open>out\<close>: what was notified, followed by what is still
  held, is in the order of acceptance; nothing is missing but what the caller cancelled; only
  written messages wait for a reply or are notified.
\<close>

definition delivery_inv :: "ConnectionEvent list \<Rightarrow> ConnectionOutput list \<Rightarrow> Connection \<Rightarrow> bool" where
  "delivery_inv es out c \<longleftrightarrow>
     subseq (notified out @ outstanding c) (accepted es) \<and>
     (\<forall>m \<in> set (accepted es). m \<in> set (notified out) \<union> set (outstanding c) \<or> is_closed c m) \<and>
     set (notified out) \<union> set (cn_pending_replies c) \<subseteq> set (transmitted out) \<and>
     (cn_phase c = Connecting \<or> cn_phase c = Waiting \<longrightarrow> cn_pending_replies c = [])"

lemma foldr_Cons [simp]: "foldr (#) xs ys = xs @ ys"
  by (induction xs) auto

lemma delivery_invD:
  assumes "delivery_inv es out c"
  shows "subseq (notified out @ outstanding c) (accepted es)"
    and "\<And>m. m \<in> set (accepted es) \<Longrightarrow> m \<in> set (notified out) \<or> m \<in> set (outstanding c) \<or> is_closed c m"
    and "\<And>m. m \<in> set (notified out) \<Longrightarrow> m \<in> set (transmitted out)"
    and "\<And>m. m \<in> set (cn_pending_replies c) \<Longrightarrow> m \<in> set (transmitted out)"
    and "cn_phase c = Connecting \<or> cn_phase c = Waiting \<Longrightarrow> cn_pending_replies c = []"
  using assms unfolding delivery_inv_def by blast+

lemma delivery_invI:
  assumes "subseq (notified out @ outstanding c) (accepted es)"
    and "\<And>m. m \<in> set (accepted es) \<Longrightarrow> m \<in> set (notified out) \<or> m \<in> set (outstanding c) \<or> is_closed c m"
    and "\<And>m. m \<in> set (notified out) \<Longrightarrow> m \<in> set (transmitted out)"
    and "\<And>m. m \<in> set (cn_pending_replies c) \<Longrightarrow> m \<in> set (transmitted out)"
    and "cn_phase c = Connecting \<or> cn_phase c = Waiting \<Longrightarrow> cn_pending_replies c = []"
  shows "delivery_inv es out c"
  using assms unfolding delivery_inv_def by blast

lemma delivery_inv_same:
  assumes "delivery_inv es out c" and "outstanding c' = outstanding c" and "cn_pending_replies c' = cn_pending_replies c"
    and "cn_closed c \<subseteq> cn_closed c'" and "accepted es' = accepted es" and "notified out' = notified out"
    and "set (transmitted out) \<subseteq> set (transmitted out')" and "cn_phase c' = Connecting \<or> cn_phase c' = Waiting \<Longrightarrow> cn_phase c = Connecting \<or> cn_phase c = Waiting"
  shows "delivery_inv es' out' c'"
  using assms(2-8) delivery_invD [OF assms(1)] by (intro delivery_invI) (auto simp: is_closed_def subset_iff)

lemma delivery_inv_error:
  assumes "delivery_inv es out c" and "connection_error err c = (c', out')" and "accepted es' = accepted es"
  shows "delivery_inv es' (out @ out') c'"
proof -
  have c': "c' = c\<lparr>cn_buffer := cn_pending_replies c @ cn_buffer c, cn_pending_replies := [], cn_phase := Connecting\<rparr>" "out' = [Warned err]"
    using assms(2) by (simp_all add: connection_error_def)
  have same: "outstanding c' = outstanding c" "is_closed c' = is_closed c" by (simp_all add: c' outstanding_def is_closed_def fun_eq_iff)
  have f: "cn_pending_replies c' = []" "out' = [Warned err]" by (simp_all add: c')
  show ?thesis using delivery_invD [OF assms(1)] by (intro delivery_invI) (simp_all add: same assms(3) f)
qed

text \<open>Dropping cancelled messages from what is held.\<close>

lemma delivery_inv_drop:
  assumes "delivery_inv es out c" and "subseq (outstanding c') (outstanding c)" and "cn_pending_replies c' = cn_pending_replies c"
    and "cn_closed c' = cn_closed c" and "cn_phase c' = cn_phase c"
    and "\<And>m. m \<in> set (outstanding c) \<Longrightarrow> m \<notin> set (outstanding c') \<Longrightarrow> is_closed c m"
  shows "delivery_inv es out c'"
proof -
  have "subseq (notified out @ outstanding c') (accepted es)"
    using assms(1,2) subseq_order.order_trans [of "notified out @ outstanding c'" "notified out @ outstanding c" "accepted es"]
    by (auto simp: delivery_inv_def list_emb_append_mono)
  moreover have "is_closed c' m = is_closed c m" for m by (simp add: is_closed_def assms(4))
  moreover have "m \<in> set (notified out) \<or> m \<in> set (outstanding c') \<or> is_closed c m" if "m \<in> set (accepted es)" for m
    using delivery_invD(2) [OF assms(1) that] assms(6) [of m] by blast
  ultimately show ?thesis using delivery_invD(3-5) [OF assms(1)] assms(3,5) by (intro delivery_invI) simp_all
qed

lemma write_next_inv:
  assumes "delivery_inv es out c" and "write_next ok c = (c', out')" and "cn_phase c = Flushing" and "accepted es' = accepted es"
  shows "delivery_inv es' (out @ out') c'"
proof (cases "cn_buffer c")
  case Nil
  with assms show ?thesis by (intro delivery_inv_same [OF assms(1)]) (auto simp: write_next_def outstanding_def)
next
  case (Cons m ms)
  show ?thesis
  proof (cases "is_closed c m")
    case True
    with Cons assms(2) have c': "c' = c\<lparr>cn_buffer := ms\<rparr>" "out' = []" by (simp_all add: write_next_def)
    have "delivery_inv es out c'"
      by (rule delivery_inv_drop [OF assms(1)]) (auto simp: c' outstanding_def Cons True intro!: list_emb_append_mono)
    then show ?thesis by (simp add: delivery_inv_def assms(4) c'(2))
  next
    case False
    show ?thesis
    proof (cases ok)
      case True
      with Cons False assms(2) have c': "c' = c\<lparr>cn_buffer := ms, cn_pending_replies := cn_pending_replies c @ [m]\<rparr>" "out' = [Transmitted m]"
        by (simp_all add: write_next_def)
      have same: "outstanding c' = outstanding c" "is_closed c' = is_closed c"
        by (simp_all add: c' outstanding_def is_closed_def fun_eq_iff Cons)
      have f: "cn_pending_replies c' = cn_pending_replies c @ [m]" "cn_phase c' = cn_phase c" by (simp_all add: c')
      show ?thesis using delivery_invD [OF assms(1)] assms(3) by (intro delivery_invI) (auto simp: same assms(4) f c'(2))
    next
      case no: False
      from Cons False no assms(2) have "connection_error (FailedToSendMessage (cn_address c)) c = (c', out')" by (simp add: write_next_def)
      then show ?thesis by (rule delivery_inv_error [OF assms(1) _ assms(4)])
    qed
  qed
qed

lemma read_reply_inv:
  assumes "delivery_inv es out c" and "read_reply response c = (c', out')" and "accepted es' = accepted es"
  shows "delivery_inv es' (out @ out') c'"
proof (cases "\<exists>m ms bytes. cn_pending_replies c = m # ms \<and> response = Some bytes")
  case True
  then obtain m ms bytes where m: "cn_pending_replies c = m # ms" "response = Some bytes" by blast
  with assms(2) have c': "c' = c\<lparr>cn_pending_replies := ms, cn_phase := Flushing\<rparr>" "out' = [Notified m bytes]" by (simp_all add: read_reply_def)
  have same: "outstanding c = m # outstanding c'" "is_closed c' = is_closed c" by (simp_all add: c' outstanding_def is_closed_def fun_eq_iff m)
  have f: "cn_pending_replies c' = ms" "cn_phase c' = Flushing" by (simp_all add: c')
  show ?thesis using delivery_invD [OF assms(1)] by (intro delivery_invI) (auto simp: same assms(3) f c'(2) m)
next
  case False
  with assms(2) obtain err where "connection_error err c = (c', out')" by (auto simp: read_reply_def split: list.splits option.splits)
  then show ?thesis by (rule delivery_inv_error [OF assms(1) _ assms(3)])
qed

lemma drain_receiver_inv:
  assumes "delivery_inv es out c" and "cn_receiver c = m # ms" and "c' = drain_receiver m ms c"
  shows "delivery_inv es out c'"
proof (rule delivery_inv_drop [OF assms(1)])
  have "subseq (filter (\<lambda>x. \<not> is_closed c x) (cn_buffer c @ [m])) (cn_buffer c @ [m])" by (rule subseq_filter_left)
  then have "subseq (cn_pending_replies c @ filter (\<lambda>x. \<not> is_closed c x) (cn_buffer c @ [m]) @ ms) (cn_pending_replies c @ (cn_buffer c @ [m]) @ ms)"
    by (intro list_emb_append_mono subseq_order.order_refl)
  then show "subseq (outstanding c') (outstanding c)" by (simp add: outstanding_def assms(2,3) drain_receiver_def)
qed (auto simp: assms(2,3) drain_receiver_def outstanding_def split: if_splits)

lemma connection_step_inv:
  assumes "delivery_inv es out c" and "connection_step e c = Some (c', out')"
  shows "delivery_inv (es @ [e]) (out @ out') c'"
proof (cases e)
  case (AcceptMessage m)
  with assms(2) have c': "c' = c\<lparr>cn_receiver := cn_receiver c @ [m]\<rparr>" "out' = []" by (auto simp: connection_step_def split: if_splits)
  have same: "outstanding c' = outstanding c @ [m]" "is_closed c' = is_closed c" by (simp_all add: c' outstanding_def is_closed_def fun_eq_iff)
  have f: "cn_pending_replies c' = cn_pending_replies c" "cn_phase c' = cn_phase c" by (simp_all add: c')
  have "subseq ((notified out @ outstanding c) @ [m]) (accepted es @ [m])"
    by (intro list_emb_append_mono delivery_invD(1) [OF assms(1)] subseq_order.order_refl)
  then show ?thesis using delivery_invD [OF assms(1)] by (intro delivery_invI) (auto simp: same AcceptMessage f c'(2))
next
  case (WriteNext ok)
  with assms(2) have "write_next ok c = (c', out')" "cn_phase c = Flushing" by (auto simp: connection_step_def split: if_splits)
  then show ?thesis by (rule write_next_inv [OF assms(1)]) (simp add: WriteNext)
next
  case (ReadReply response)
  with assms(2) have "read_reply response c = (c', out')" by (auto simp: connection_step_def split: if_splits)
  then show ?thesis by (rule read_reply_inv [OF assms(1)]) (simp add: ReadReply)
next
  case ReceiveMessage
  with assms(2) obtain m ms where recv: "cn_receiver c = m # ms" and out': "out' = []"
    and c': "c' = drain_receiver m ms c \<or> c' = c\<lparr>cn_receiver := ms, cn_buffer := cn_buffer c @ [m], cn_phase := Flushing\<rparr>"
    by (auto simp: connection_step_def split: list.splits if_splits)
  from c' have "delivery_inv es out c'"
  proof
    assume "c' = drain_receiver m ms c" then show ?thesis by (rule drain_receiver_inv [OF assms(1) recv])
  next
    assume "c' = c\<lparr>cn_receiver := ms, cn_buffer := cn_buffer c @ [m], cn_phase := Flushing\<rparr>"
    then show ?thesis by (intro delivery_inv_same [OF assms(1)]) (simp_all add: outstanding_def recv)
  qed
  then show ?thesis by (simp add: delivery_inv_def ReceiveMessage out')
next
  case ConnectOk
  with assms(2) have "c' = connect_ok c" "out' = []" "cn_phase c = Connecting" by (auto simp: connection_step_def split: if_splits)
  with ConnectOk delivery_invD(5) [OF assms(1)] show ?thesis
    by (intro delivery_inv_same [OF assms(1)]) (simp_all add: connect_ok_def outstanding_def)
qed (use assms(2) in \<open>intro delivery_inv_same [OF assms(1)]; force simp: connection_step_def timer_fired_def outstanding_def split: if_splits\<close>)+

lemma connection_run_inv:
  "delivery_inv es out c \<Longrightarrow> connection_run fs c = Some (c', out') \<Longrightarrow> delivery_inv (es @ fs) (out @ out') c'"
proof (induction fs arbitrary: es out c out')
  case (Cons e fs)
  then obtain c1 out1 out2 where "connection_step e c = Some (c1, out1)" "connection_run fs c1 = Some (c', out2)" "out' = out1 @ out2"
    by (auto split: option.splits)
  with Cons.IH [OF connection_step_inv [OF Cons.prems(1)]] show ?case by fastforce
qed simp

lemma delivery_inv_new: "delivery_inv [] [] (connection_new address)"
  by (simp add: delivery_inv_def connection_new_def outstanding_def)

text \<open>
  C22. The reliable sender delivers in order and loses nothing.  In every run of a connection,
  whatever fails, the messages whose handler was notified, followed by those the connection
  still holds, are in the order of their acceptance; every accepted message is notified, held
  or cancelled by its caller; and no handler is notified of a message that was not written.
\<close>

theorem reliable_sender_in_order:
  assumes "connection_run es (connection_new address) = Some (c, out)"
  shows "subseq (notified out @ outstanding c) (accepted es) \<and>
    (\<forall>m \<in> set (accepted es). m \<in> set (notified out) \<union> set (outstanding c) \<or> im_handler m \<in> cn_closed c) \<and>
    set (notified out) \<subseteq> set (transmitted out)"
  using connection_run_inv [OF delivery_inv_new assms] by (auto simp: delivery_inv_def is_closed_def)

text \<open>
  Two messages are accepted and written, the read fails before the replies, and after the
  reconnection the first message is written again and notified.
\<close>

definition demo_message :: "nat \<Rightarrow> InnerMessage" where
  "demo_message n = \<lparr>im_data = [word_of_nat n], im_handler = n\<rparr>"

definition demo_reconnect :: "ConnectionEvent list" where
  "demo_reconnect = [ConnectOk, WriteNext True, AcceptMessage (demo_message 1), AcceptMessage (demo_message 2), ReceiveMessage,
     WriteNext True, WriteNext True, ReceiveMessage, WriteNext True, WriteNext True, ReadReply None, ConnectOk,
     WriteNext True, WriteNext True, WriteNext True, ReadReply (Some [])]"

lemmas connection_demo_simps = demo_reconnect_def connection_new_def connection_step_def connect_ok_def write_next_def read_reply_def
  connection_error_def is_closed_def outstanding_def CHANNEL_CAPACITY_def

lemma demo_reconnect_run:
  "\<exists>c out. connection_run demo_reconnect (connection_new ''a'') = Some (c, out) \<and> notified out = [demo_message 1] \<and>
     transmitted out = map demo_message [1, 2, 1, 2] \<and> outstanding c = [demo_message 2]"
  by (simp add: connection_demo_simps)

theorem reliable_sender_in_order_witness:
  "\<exists>c out. connection_run demo_reconnect (connection_new ''a'') = Some (c, out) \<and> notified out = [demo_message 1] \<and>
     subseq (notified out @ outstanding c) (accepted demo_reconnect)"
proof -
  obtain c out where run: "connection_run demo_reconnect (connection_new ''a'') = Some (c, out)" "notified out = [demo_message 1]"
    using demo_reconnect_run by blast
  with reliable_sender_in_order [OF run(1)] show ?thesis by blast
qed

section \<open>Progress\<close>

definition select_inv :: "Connection \<Rightarrow> bool" where
  "select_inv c \<longleftrightarrow> (cn_phase c = Selecting \<longrightarrow> cn_buffer c = [])"

lemma select_inv_step: "select_inv c \<Longrightarrow> connection_step e c = Some (c', out) \<Longrightarrow> select_inv c'"
  by (auto simp: select_inv_def connection_step_def connect_ok_def timer_fired_def drain_receiver_def write_next_def read_reply_def
      connection_error_def split: ConnectionEvent.splits if_splits list.splits option.splits)

lemma select_inv_run: "select_inv c \<Longrightarrow> connection_run es c = Some (c', out) \<Longrightarrow> select_inv c'"
proof (induction es arbitrary: c out)
  case (Cons e es)
  then obtain c1 out1 out2 where "connection_step e c = Some (c1, out1)" "connection_run es c1 = Some (c', out2)" by (auto split: option.splits)
  with Cons.IH select_inv_step [OF Cons.prems(1)] show ?case by blast
qed simp

definition phase_work :: "ConnectionPhase \<Rightarrow> nat" where
  "phase_work p = (case p of Waiting \<Rightarrow> 3 | Connecting \<Rightarrow> 2 | Flushing \<Rightarrow> 1 | Selecting \<Rightarrow> 0)"

definition connection_work :: "Connection \<Rightarrow> nat" where
  "connection_work c = phase_work (cn_phase c) + 5 * length (cn_receiver c) + 3 * length (cn_buffer c) + 2 * length (cn_pending_replies c)"

text \<open>The events of a peer that accepts the connection, takes every write and acknowledges it.\<close>

definition healthy :: "ConnectionEvent set" where
  "healthy = {ConnectOk, TimerFired, ReceiveMessage, WriteNext True, ReadReply (Some [])}"

lemma accepted_healthy: "set fs \<subseteq> healthy \<Longrightarrow> accepted fs = []"
  by (induction fs rule: accepted.induct) (auto simp: healthy_def)

lemma healthy_step:
  assumes "select_inv c" and "outstanding c \<noteq> []"
  shows "\<exists>e \<in> healthy. \<exists>c' out. connection_step e c = Some (c', out) \<and> connection_work c' < connection_work c \<and> cn_closed c' = cn_closed c"
proof (cases "cn_phase c")
  case Connecting
  then have "connection_step ConnectOk c = Some (connect_ok c, [])" "connection_work (connect_ok c) < connection_work c"
    by (simp_all add: connection_step_def connect_ok_def connection_work_def phase_work_def)
  then show ?thesis by (intro bexI [of _ ConnectOk]) (auto simp: healthy_def connect_ok_def)
next
  case Waiting
  then have "connection_step TimerFired c = Some (timer_fired c, [])" "connection_work (timer_fired c) < connection_work c"
    by (simp_all add: connection_step_def timer_fired_def connection_work_def phase_work_def)
  then show ?thesis by (intro bexI [of _ TimerFired]) (auto simp: healthy_def timer_fired_def)
next
  case Flushing
  then have "connection_step (WriteNext True) c = Some (write_next True c)" by (simp add: connection_step_def)
  moreover have "connection_work (fst (write_next True c)) < connection_work c" "cn_closed (fst (write_next True c)) = cn_closed c"
    using Flushing by (auto simp: write_next_def connection_work_def phase_work_def split: list.splits)
  ultimately show ?thesis by (intro bexI [of _ "WriteNext True"]) (auto simp: healthy_def intro: prod.collapse [symmetric])
next
  case Selecting
  with assms have cases: "cn_receiver c \<noteq> [] \<or> cn_receiver c = [] \<and> cn_pending_replies c \<noteq> []" by (auto simp: select_inv_def outstanding_def)
  then show ?thesis
  proof
    assume "cn_receiver c \<noteq> []"
    then obtain m ms where m: "cn_receiver c = m # ms" by (cases "cn_receiver c") auto
    define c' where "c' = c\<lparr>cn_receiver := ms, cn_buffer := cn_buffer c @ [m], cn_phase := Flushing\<rparr>"
    have "connection_step ReceiveMessage c = Some (c', [])" "connection_work c' < connection_work c" "cn_closed c' = cn_closed c"
      using m Selecting by (simp_all add: connection_step_def connection_work_def phase_work_def c'_def)
    then show ?thesis by (intro bexI [of _ ReceiveMessage]) (auto simp: healthy_def)
  next
    assume "cn_receiver c = [] \<and> cn_pending_replies c \<noteq> []"
    then obtain m ms where m: "cn_pending_replies c = m # ms" by (cases "cn_pending_replies c") auto
    define c' where "c' = c\<lparr>cn_pending_replies := ms, cn_phase := Flushing\<rparr>"
    have "connection_step (ReadReply (Some [])) c = Some (c', [Notified m []])" "connection_work c' < connection_work c" "cn_closed c' = cn_closed c"
      using m Selecting by (simp_all add: connection_step_def read_reply_def connection_work_def phase_work_def c'_def)
    then show ?thesis by (intro bexI [of _ "ReadReply (Some [])"]) (auto simp: healthy_def)
  qed
qed

lemma healthy_run:
  "select_inv c \<Longrightarrow> \<exists>fs c' out. set fs \<subseteq> healthy \<and> connection_run fs c = Some (c', out) \<and> outstanding c' = [] \<and> cn_closed c' = cn_closed c"
proof (induction "connection_work c" arbitrary: c rule: less_induct)
  case less
  show ?case
  proof (cases "outstanding c = []")
    case True
    then show ?thesis by (intro exI [of _ "[]"]) simp
  next
    case False
    then obtain e c1 out1 where e: "e \<in> healthy" "connection_step e c = Some (c1, out1)" "connection_work c1 < connection_work c" "cn_closed c1 = cn_closed c"
      using healthy_step [OF less.prems] by blast
    obtain fs c' out where "set fs \<subseteq> healthy" "connection_run fs c1 = Some (c', out)" "outstanding c' = []" "cn_closed c' = cn_closed c1"
      using less.hyps [OF e(3) select_inv_step [OF less.prems e(2)]] by blast
    with e show ?thesis by (intro exI [of _ "e # fs"]) auto
  qed
qed

text \<open>
  C23. A healthy peer gets everything.  From every state a connection can reach, whatever went
  wrong before, there is a run in which the peer only accepts, reads and acknowledges, after
  which the connection holds nothing, and every message accepted so far is notified unless its
  caller has cancelled it.
\<close>

theorem reliable_sender_drains:
  assumes "connection_run es (connection_new address) = Some (c, out)"
  shows "\<exists>fs c' out'. set fs \<subseteq> healthy \<and> connection_run fs c = Some (c', out') \<and> outstanding c' = [] \<and>
    (\<forall>m \<in> set (accepted es). m \<in> set (notified (out @ out')) \<or> im_handler m \<in> cn_closed c)"
proof -
  have inv: "delivery_inv es out c" using connection_run_inv [OF delivery_inv_new assms] by simp
  have "select_inv c" by (rule select_inv_run [OF _ assms]) (simp add: select_inv_def connection_new_def)
  from healthy_run [OF this] obtain fs c' out' where fs: "set fs \<subseteq> healthy" "connection_run fs c = Some (c', out')" "outstanding c' = []" "cn_closed c' = cn_closed c"
    by blast
  from delivery_invD(2) [OF connection_run_inv [OF inv fs(2)]] accepted_healthy [OF fs(1)]
  have "m \<in> set (notified (out @ out')) \<or> im_handler m \<in> cn_closed c" if "m \<in> set (accepted es)" for m
    using that fs(3,4) by (auto simp: is_closed_def)
  with fs(1-3) show ?thesis by blast
qed

theorem reliable_sender_drains_witness:
  "\<exists>c out fs c' out'. connection_run demo_reconnect (connection_new ''a'') = Some (c, out) \<and> connection_run fs c = Some (c', out') \<and>
     outstanding c' = []"
  using demo_reconnect_run reliable_sender_drains [of demo_reconnect "''a''"] by blast

text \<open>The delay before a new attempt.\<close>

lemma connection_delay:
  assumes "connection_run es c = Some (c', out)" and "cn_retry_delay c = 200" and "200 \<le> cn_delay c" and "cn_delay c \<le> 60000"
  shows "cn_retry_delay c' = 200 \<and> 200 \<le> cn_delay c' \<and> cn_delay c' \<le> 60000"
  using assms
proof (induction es arbitrary: c out)
  case (Cons e es)
  then obtain c1 out1 out2 where step: "connection_step e c = Some (c1, out1)" and run: "connection_run es c1 = Some (c', out2)"
    by (auto split: option.splits)
  have "cn_retry_delay c1 = 200 \<and> 200 \<le> cn_delay c1 \<and> cn_delay c1 \<le> 60000"
    using step Cons.prems(2-4)
    by (auto simp: connection_step_def connect_ok_def timer_fired_def drain_receiver_def write_next_def read_reply_def
      connection_error_def split: ConnectionEvent.splits if_splits list.splits option.splits)
  with Cons.IH [OF run] show ?case by blast
qed simp

end
