(* ===== verification/Network_Link.thy ===== *)
theory Network_Link
  imports Reliable_Sender Worker
begin

text \<open>
  The other ends of the network crate and their composition: the best-effort sender
  (\<^verbatim>\<open>network/src/simple_sender.rs\<close>), the runner that feeds the frames of one connection to a
  message handler (\<^verbatim>\<open>network/src/receiver.rs\<close>), and a reliable connection joined to such a runner
  by a stream that keeps its order.  A handler that acknowledges every message is an interface,
  which the handler of the worker (\<^verbatim>\<open>worker/src/worker.rs\<close>) implements.
\<close>

section \<open>The best-effort sender\<close>

datatype SimplePhase = SimpleConnecting | SimpleOpen | SimpleClosed

record SimpleConnection =
  sc_address :: SocketAddr
  sc_receiver :: "byte list list"
  sc_phase :: SimplePhase

definition simple_connection_new :: "SocketAddr \<Rightarrow> SimpleConnection" where
  "simple_connection_new address = \<lparr>sc_address = address, sc_receiver = [], sc_phase = SimpleConnecting\<rparr>"

datatype SimpleEvent =
    SimpleAccept "byte list"
  | SimpleConnect bool
  | SimpleWrite bool
  | SimpleReply bool

text \<open>
  The task ends, and drops what is left in its channel, when the connection cannot be made, a
  write fails, or the reader returns an error.  The result has the message that was written.
\<close>

definition simple_close :: "SimpleConnection \<Rightarrow> SimpleConnection" where
  "simple_close c = c\<lparr>sc_receiver := [], sc_phase := SimpleClosed\<rparr>"

definition simple_step :: "SimpleEvent \<Rightarrow> SimpleConnection \<Rightarrow> (SimpleConnection \<times> byte list list) option" where
  "simple_step event c =
     (case event of
        SimpleAccept data \<Rightarrow>
          if sc_phase c \<noteq> SimpleClosed \<and> length (sc_receiver c) < CHANNEL_CAPACITY
          then Some (c\<lparr>sc_receiver := sc_receiver c @ [data]\<rparr>, []) else None
      | SimpleConnect ok \<Rightarrow>
          if sc_phase c = SimpleConnecting then Some (if ok then c\<lparr>sc_phase := SimpleOpen\<rparr> else simple_close c, []) else None
      | SimpleWrite ok \<Rightarrow>
          (case sc_receiver c of
             [] \<Rightarrow> None
           | data # rest \<Rightarrow>
               if sc_phase c = SimpleOpen then Some (if ok then (c\<lparr>sc_receiver := rest\<rparr>, [data]) else (simple_close c, [])) else None)
      | SimpleReply ok \<Rightarrow> if sc_phase c = SimpleOpen then Some (if ok then c else simple_close c, []) else None)"

fun simple_run :: "SimpleEvent list \<Rightarrow> SimpleConnection \<Rightarrow> (SimpleConnection \<times> byte list list) option" where
  "simple_run [] c = Some (c, [])"
| "simple_run (e # es) c =
     (case simple_step e c of
        None \<Rightarrow> None
      | Some (c1, out1) \<Rightarrow> (case simple_run es c1 of None \<Rightarrow> None | Some (c2, out2) \<Rightarrow> Some (c2, out1 @ out2)))"

text \<open>A send re-uses a connection whose task runs, and makes a new one otherwise.\<close>

definition simple_send :: "SocketAddr \<Rightarrow> byte list \<Rightarrow> (SocketAddr \<times> SimpleConnection) list \<Rightarrow> (SocketAddr \<times> SimpleConnection) list option" where
  "simple_send address data s =
     (let connection = (case map_of s address of
                          Some c \<Rightarrow> if sc_phase c = SimpleClosed then simple_connection_new address else c
                        | None \<Rightarrow> simple_connection_new address)
      in case simple_step (SimpleAccept data) connection of
           None \<Rightarrow> None
         | Some (c, _) \<Rightarrow> Some (AList.update address c s))"

fun simple_broadcast ::
    "SocketAddr list \<Rightarrow> byte list \<Rightarrow> (SocketAddr \<times> SimpleConnection) list \<Rightarrow> (SocketAddr \<times> SimpleConnection) list option" where
  "simple_broadcast [] data s = Some s"
| "simple_broadcast (address # addresses) data s =
     (case simple_send address data s of None \<Rightarrow> None | Some s1 \<Rightarrow> simple_broadcast addresses data s1)"

definition simple_lucky_broadcast ::
    "(SocketAddr list \<Rightarrow> SocketAddr list) \<Rightarrow> SocketAddr list \<Rightarrow> byte list \<Rightarrow> nat
     \<Rightarrow> (SocketAddr \<times> SimpleConnection) list \<Rightarrow> (SocketAddr \<times> SimpleConnection) list option" where
  "simple_lucky_broadcast shuffle addresses data nodes s = simple_broadcast (take nodes (shuffle addresses)) data s"

fun simple_accepted :: "SimpleEvent list \<Rightarrow> byte list list" where
  "simple_accepted [] = []"
| "simple_accepted (SimpleAccept data # es) = data # simple_accepted es"
| "simple_accepted (_ # es) = simple_accepted es"

text \<open>What the best-effort sender writes is a prefix of what it accepted.\<close>

lemma simple_run_prefix:
  "simple_run es c = Some (c', written) \<Longrightarrow>
     (sc_phase c' \<noteq> SimpleClosed \<longrightarrow> written @ sc_receiver c' = sc_receiver c @ simple_accepted es) \<and>
     (\<exists>rest. sc_receiver c @ simple_accepted es = written @ rest)"
proof (induction es arbitrary: c written)
  case (Cons e es)
  then obtain c1 out1 out2 where step: "simple_step e c = Some (c1, out1)" and run: "simple_run es c1 = Some (c', out2)" and written: "written = out1 @ out2"
    by (auto split: option.splits)
  show ?case
  proof (cases "sc_phase c1 = SimpleClosed")
    case True
    have closed: "simple_run fs d = Some (d', o') \<Longrightarrow> sc_phase d = SimpleClosed \<Longrightarrow> d' = d \<and> o' = [] \<and> fs = []" for fs d d' o'
      by (cases fs) (auto simp: simple_step_def split: SimpleEvent.splits list.splits option.splits if_splits)
    have "out1 = []" using True step by (auto simp: simple_step_def split: SimpleEvent.splits list.splits if_splits)
    with closed [OF run True] written True show ?thesis by simp
  next
    case False
    then have "out1 @ sc_receiver c1 = sc_receiver c @ simple_accepted [e]"
      using step by (auto simp: simple_step_def simple_close_def split: SimpleEvent.splits list.splits if_splits)
    moreover have "simple_accepted (e # es) = simple_accepted [e] @ simple_accepted es" by (cases e) auto
    ultimately show ?thesis using Cons.IH [OF run] written by (metis append.assoc)
  qed
qed auto

section \<open>The receiver\<close>

text \<open>
  A handler gets a message and returns its state, its replies, and whether it succeeded; the
  runner of a connection stops at the first failure and at the first frame that cannot be read.
\<close>

type_synonym 's handler = "byte list \<Rightarrow> 's \<Rightarrow> 's \<times> byte list list \<times> bool"

fun receiver_runner :: "'s handler \<Rightarrow> byte list option list \<Rightarrow> 's \<Rightarrow> 's \<times> byte list list" where
  "receiver_runner dispatch [] s = (s, [])"
| "receiver_runner dispatch (None # frames) s = (s, [])"
| "receiver_runner dispatch (Some message # frames) s =
     (case dispatch message s of (s1, replies, ok) \<Rightarrow>
        if ok then (case receiver_runner dispatch frames s1 of (s2, later) \<Rightarrow> (s2, replies @ later))
        else (s1, replies))"

text \<open>
  The handler of a worker: it acknowledges first, then routes what it can read.  An
  acknowledgement that cannot be written is one of a broken stream, which is never read.
\<close>

definition ACK :: "byte list" where
  "ACK = [65, 99, 107]"

definition worker_handler :: "'db WorkerEnv \<Rightarrow> WorkerDispatch list handler" where
  "worker_handler env message routed =
     (case worker_receiver_dispatch env message of
        Some d \<Rightarrow> (routed @ [d], [ACK], True)
      | None \<Rightarrow> (routed, [ACK], True))"

section \<open>A connection and its peer\<close>

text \<open>
  Between them: the messages written and not yet read by the runner of the present stream, the
  replies sent and not yet read, the messages of broken streams that may still arrive, and
  whether the runner still reads.  \<open>ln_handled\<close> has every message given to the handler.
\<close>

record 's Link =
  ln_connection :: Connection
  ln_wire :: "InnerMessage list"
  ln_replies :: "byte list list"
  ln_stale :: "InnerMessage list"
  ln_open :: bool
  ln_peer :: 's
  ln_handled :: "InnerMessage list"
  ln_notified :: "InnerMessage list"

datatype LinkEvent = LocalEvent ConnectionEvent | PeerReads | PeerReadsStale nat

definition link_new :: "SocketAddr \<Rightarrow> 's \<Rightarrow> 's Link" where
  "link_new address s =
     \<lparr>ln_connection = connection_new address, ln_wire = [], ln_replies = [], ln_stale = [], ln_open = True, ln_peer = s,
      ln_handled = [], ln_notified = []\<rparr>"

definition peer_handles :: "'s handler \<Rightarrow> InnerMessage \<Rightarrow> 's Link \<Rightarrow> 's Link" where
  "peer_handles dispatch m l = l\<lparr>ln_peer := fst (dispatch (im_data m) (ln_peer l)), ln_handled := ln_handled l @ [m]\<rparr>"

text \<open>
  A reply is read only when one has arrived.  When the connection goes back to connecting, its
  stream is dropped: its replies are lost, and its messages may be handled later or never.  A
  new stream has a new runner.
\<close>

definition peer_reads :: "'s handler \<Rightarrow> 's Link \<Rightarrow> 's Link option" where
  "peer_reads dispatch l =
     (case ln_wire l of
        [] \<Rightarrow> None
      | m # rest \<Rightarrow>
          if ln_open l
          then (case dispatch (im_data m) (ln_peer l) of (_, replies, ok) \<Rightarrow>
                  Some ((peer_handles dispatch m l)\<lparr>ln_wire := rest, ln_replies := ln_replies l @ replies, ln_open := ok\<rparr>))
          else None)"

definition reply_read :: "ConnectionEvent \<Rightarrow> bool" where
  "reply_read e = (case e of ConnectionEvent.ReadReply (Some _) \<Rightarrow> True | _ \<Rightarrow> False)"

lemma reply_read_iff [simp]: "reply_read e \<longleftrightarrow> (\<exists>bytes. e = ConnectionEvent.ReadReply (Some bytes))"
  by (auto simp: reply_read_def split: ConnectionEvent.splits option.splits)

definition link_local :: "ConnectionEvent \<Rightarrow> 's Link \<Rightarrow> 's Link option" where
  "link_local e l =
     (if reply_read e \<and> ln_replies l = [] then None
      else case connection_step e (ln_connection l) of
             None \<Rightarrow> None
           | Some (c, out) \<Rightarrow>
               if cn_phase c = Connecting \<or> cn_phase c = Waiting
               then Some (l\<lparr>ln_connection := c, ln_wire := [], ln_replies := [], ln_stale := ln_stale l @ ln_wire l, ln_open := True,
                            ln_notified := ln_notified l @ notified out\<rparr>)
               else Some (l\<lparr>ln_connection := c, ln_wire := ln_wire l @ transmitted out,
                            ln_replies := (if reply_read e then tl (ln_replies l) else ln_replies l),
                            ln_notified := ln_notified l @ notified out\<rparr>))"

definition link_step :: "'s handler \<Rightarrow> LinkEvent \<Rightarrow> 's Link \<Rightarrow> 's Link option" where
  "link_step dispatch event l =
     (case event of
        LocalEvent e \<Rightarrow> link_local e l
      | PeerReads \<Rightarrow> peer_reads dispatch l
      | PeerReadsStale i \<Rightarrow> if i < length (ln_stale l) then Some (peer_handles dispatch (ln_stale l ! i) l) else None)"

fun link_run :: "'s handler \<Rightarrow> LinkEvent list \<Rightarrow> 's Link \<Rightarrow> 's Link option" where
  "link_run dispatch [] l = Some l"
| "link_run dispatch (e # es) l = (case link_step dispatch e l of None \<Rightarrow> None | Some l1 \<Rightarrow> link_run dispatch es l1)"

text \<open>
  The messages without a reply start with those the peer has handled, one for each reply under
  way; the wire is the rest of them, unless the runner has stopped.
\<close>

definition link_inv :: "'s handler \<Rightarrow> 's \<Rightarrow> 's Link \<Rightarrow> bool" where
  "link_inv dispatch s0 l \<longleftrightarrow>
     set (ln_notified l) \<subseteq> set (ln_handled l) \<and>
     ln_peer l = fold (\<lambda>m s. fst (dispatch (im_data m) s)) (ln_handled l) s0 \<and>
     (\<exists>answered rest. cn_pending_replies (ln_connection l) = answered @ rest \<and> length answered = length (ln_replies l) \<and>
        set answered \<subseteq> set (ln_handled l) \<and> (ln_open l \<longrightarrow> rest = ln_wire l)) \<and>
     (cn_phase (ln_connection l) = Connecting \<or> cn_phase (ln_connection l) = Waiting \<longrightarrow>
        cn_pending_replies (ln_connection l) = [])"

lemma link_inv_new: "link_inv dispatch s (link_new address s)"
  by (simp add: link_inv_def link_new_def connection_new_def)

lemma peer_handles_inv: "link_inv dispatch s0 l \<Longrightarrow> link_inv dispatch s0 (peer_handles dispatch m l)"
  by (auto simp: link_inv_def peer_handles_def; blast)

text \<open>What a step of the connection does to the messages that wait for a reply.\<close>

lemma connection_step_replies [consumes 2, case_names dropped kept replied]:
  assumes "connection_step e c = Some (c', out)"
    and "cn_phase c = Connecting \<or> cn_phase c = Waiting \<longrightarrow> cn_pending_replies c = []"
  obtains (dropped) "cn_phase c' = Connecting \<or> cn_phase c' = Waiting" and "cn_pending_replies c' = []" and "notified out = []"
  | (kept) "\<nexists>bytes. e = ConnectionEvent.ReadReply (Some bytes)" and "cn_pending_replies c' = cn_pending_replies c @ transmitted out"
      and "notified out = []" and "\<not> (cn_phase c' = Connecting \<or> cn_phase c' = Waiting)"
  | (replied) m bytes where "e = ConnectionEvent.ReadReply (Some bytes)" and "cn_pending_replies c = m # cn_pending_replies c'"
      and "notified out = [m]" and "transmitted out = []" and "cn_phase c' = Flushing"
proof -
  have "(cn_phase c' = Connecting \<or> cn_phase c' = Waiting) \<and> cn_pending_replies c' = [] \<and> notified out = [] \<or>
    (\<nexists>bytes. e = ConnectionEvent.ReadReply (Some bytes)) \<and> cn_pending_replies c' = cn_pending_replies c @ transmitted out \<and> notified out = [] \<and>
      \<not> (cn_phase c' = Connecting \<or> cn_phase c' = Waiting) \<or>
    (\<exists>m bytes. e = ConnectionEvent.ReadReply (Some bytes) \<and> cn_pending_replies c = m # cn_pending_replies c' \<and> notified out = [m] \<and>
      transmitted out = [] \<and> cn_phase c' = Flushing)"
    using assms
    by (cases "cn_phase c"; cases e)
      (auto simp: connection_step_def connect_ok_def timer_fired_def drain_receiver_def write_next_def read_reply_def
        connection_error_def split: if_splits list.splits option.splits)
  then show ?thesis using that by blast
qed

lemma link_local_inv:
  assumes "link_inv dispatch s0 l" and "link_local e l = Some l'"
  shows "link_inv dispatch s0 l'"
proof -
  obtain c out where step: "connection_step e (ln_connection l) = Some (c, out)"
    using assms(2) by (auto simp: link_local_def split: if_splits option.splits)
  from assms(1) have quiet: "cn_phase (ln_connection l) = Connecting \<or> cn_phase (ln_connection l) = Waiting \<longrightarrow>
      cn_pending_replies (ln_connection l) = []" by (auto simp: link_inv_def)
  obtain answered rest where a: "cn_pending_replies (ln_connection l) = answered @ rest" "length answered = length (ln_replies l)"
      "set answered \<subseteq> set (ln_handled l)" "ln_open l \<longrightarrow> rest = ln_wire l"
    and h: "set (ln_notified l) \<subseteq> set (ln_handled l)" "ln_peer l = fold (\<lambda>m s. fst (dispatch (im_data m) s)) (ln_handled l) s0"
    using assms(1) unfolding link_inv_def by blast
  from step quiet show ?thesis
  proof (cases rule: connection_step_replies)
    case dropped
    have "l' = l\<lparr>ln_connection := c, ln_wire := [], ln_replies := [], ln_stale := ln_stale l @ ln_wire l, ln_open := True,
        ln_notified := ln_notified l\<rparr>"
      using assms(2) step dropped by (simp add: link_local_def split: if_splits)
    with dropped h show ?thesis by (simp add: link_inv_def)
  next
    case kept
    with assms(2) step have l': "l' = l\<lparr>ln_connection := c, ln_wire := ln_wire l @ transmitted out\<rparr>"
      by (cases e) (auto simp: link_local_def split: if_splits option.splits)
    have "\<exists>answered' rest'. answered @ rest @ transmitted out = answered' @ rest' \<and> length answered' = length (ln_replies l) \<and>
        set answered' \<subseteq> set (ln_handled l) \<and> (ln_open l \<longrightarrow> rest' = ln_wire l @ transmitted out)"
      using a by (intro exI [of _ answered] exI [of _ "rest @ transmitted out"]) simp
    with kept h a(1) show ?thesis by (simp add: l' link_inv_def)
  next
    case (replied m bytes)
    with assms(2) step have some: "ln_replies l \<noteq> []"
      and l': "l' = l\<lparr>ln_connection := c, ln_replies := tl (ln_replies l), ln_notified := ln_notified l @ [m]\<rparr>"
      by (auto simp: link_local_def split: if_splits)
    with a(2) obtain answered' where answered: "answered = m # answered'" "length answered' = length (tl (ln_replies l))" "cn_pending_replies c = answered' @ rest"
      using a(1) replied(2) by (cases answered) auto
    with replied h a(3,4) show ?thesis by (auto simp: l' link_inv_def)
  qed
qed

section \<open>Acknowledging handlers\<close>

text \<open>A handler that goes on only after exactly one reply, and never replies twice to a message.\<close>

locale acknowledging_handler =
  fixes dispatch :: "'s handler"
  assumes one_reply: "dispatch message s = (s', replies, True) \<Longrightarrow> length replies = 1"
    and at_most_one_reply: "dispatch message s = (s', replies, ok) \<Longrightarrow> length replies \<le> 1"
begin

lemma peer_reads_inv:
  assumes "link_inv dispatch s0 l" and "peer_reads dispatch l = Some l'"
  shows "link_inv dispatch s0 l'"
proof -
  obtain m ws where wire: "ln_wire l = m # ws" and opened: "ln_open l"
    using assms(2) by (auto simp: peer_reads_def split: list.splits if_splits)
  obtain s1 replies ok where d: "dispatch (im_data m) (ln_peer l) = (s1, replies, ok)" by (metis prod_cases3)
  have l': "l' = (peer_handles dispatch m l)\<lparr>ln_wire := ws, ln_replies := ln_replies l @ replies, ln_open := ok\<rparr>"
    using assms(2) by (simp add: peer_reads_def wire opened d)
  obtain answered where a: "cn_pending_replies (ln_connection l) = answered @ m # ws" "length answered = length (ln_replies l)"
      "set answered \<subseteq> set (ln_handled l)"
    using assms(1) opened wire unfolding link_inv_def by auto
  define taken where "taken = (if replies = [] then [] else [m])"
  define rest where "rest = (if replies = [] then m # ws else ws)"
  have "length (answered @ taken) = length (ln_replies l @ replies)"
    using a(2) at_most_one_reply [OF d] by (cases replies) (auto simp: taken_def)
  moreover have "cn_pending_replies (ln_connection l) = (answered @ taken) @ rest" using a(1) by (simp add: taken_def rest_def)
  moreover have "ok \<longrightarrow> rest = ws" using one_reply [of "im_data m" "ln_peer l" s1 replies] d by (cases ok) (auto simp: rest_def)
  moreover have "set (answered @ taken) \<subseteq> set (ln_handled l @ [m])" using a(3) by (auto simp: taken_def)
  ultimately have "\<exists>answered' rest'. cn_pending_replies (ln_connection l) = answered' @ rest' \<and> length answered' = length (ln_replies l @ replies) \<and>
      set answered' \<subseteq> set (ln_handled l @ [m]) \<and> (ok \<longrightarrow> rest' = ws)" by blast
  then show ?thesis using assms(1) by (auto simp: l' link_inv_def peer_handles_def)
qed

lemma link_step_inv: "link_inv dispatch s0 l \<Longrightarrow> link_step dispatch e l = Some l' \<Longrightarrow> link_inv dispatch s0 l'"
  by (cases e) (auto simp: link_step_def split: if_splits intro: link_local_inv peer_reads_inv peer_handles_inv)

lemma link_run_inv: "link_inv dispatch s0 l \<Longrightarrow> link_run dispatch es l = Some l' \<Longrightarrow> link_inv dispatch s0 l'"
proof (induction es arbitrary: l)
  case (Cons e es)
  then obtain l1 where "link_step dispatch e l = Some l1" "link_run dispatch es l1 = Some l'" by (auto split: option.splits)
  with Cons.IH link_step_inv [OF Cons.prems(1)] show ?case by blast
qed simp

lemma notified_was_handled:
  assumes "link_run dispatch es (link_new address s0) = Some l"
  shows "set (ln_notified l) \<subseteq> set (ln_handled l) \<and> ln_peer l = fold (\<lambda>m s. fst (dispatch (im_data m) s)) (ln_handled l) s0"
  using link_run_inv [OF link_inv_new assms] by (simp add: link_inv_def)

text \<open>No run of the link has a reply for which no message waits.\<close>

lemma replies_expected:
  assumes "link_run dispatch es (link_new address s0) = Some l" and "ln_replies l \<noteq> []"
  shows "cn_pending_replies (ln_connection l) \<noteq> []"
  using link_run_inv [OF link_inv_new assms(1)] assms(2) by (auto simp: link_inv_def)

end

interpretation worker_link: acknowledging_handler "worker_handler env" for env
  by unfold_locales (auto simp: worker_handler_def split: option.splits)

text \<open>What a worker has routed after handling some messages.\<close>

lemma worker_handler_fold:
  "fold (\<lambda>m s. fst (worker_handler env (im_data m) s)) ms routed =
     routed @ List.map_filter (\<lambda>m. worker_receiver_dispatch env (im_data m)) ms"
  by (induction ms arbitrary: routed) (auto simp: worker_handler_def List.map_filter_def split: option.splits)

lemma acknowledged_batch_routed:
  assumes "link_run (worker_handler env) es (link_new address []) = Some l" and "m \<in> set (ln_notified l)"
    and "we_debincode env (im_data m) = Some (BatchMessage batch)"
  shows "DispatchBatch (im_data m) \<in> set (ln_peer l)"
proof -
  have "m \<in> set (ln_handled l)" "ln_peer l = List.map_filter (\<lambda>m. worker_receiver_dispatch env (im_data m)) (ln_handled l)"
    using worker_link.notified_was_handled [OF assms(1)] assms(2) by (auto simp: worker_handler_fold)
  then show ?thesis using assms(3) by (force simp: List.map_filter_def worker_receiver_dispatch_def)
qed

section \<open>Batches that a quorum can serve\<close>

text \<open>What the handler of a worker puts into the channel of its processor.\<close>

definition routed_batches :: "WorkerDispatch list \<Rightarrow> SerializedBatchMessage list" where
  "routed_batches routed = List.map_filter (\<lambda>d. case d of DispatchBatch b \<Rightarrow> Some b | _ \<Rightarrow> None) routed"

lemma routed_batches_iff: "b \<in> set (routed_batches routed) \<longleftrightarrow> DispatchBatch b \<in> set routed"
  by (induction routed) (auto simp: routed_batches_def List.map_filter_def split: WorkerDispatch.splits)

lemma processor_stores:
  "kv_ok (we_kv env) \<Longrightarrow> b \<in> set batches \<Longrightarrow>
     stored (we_kv env) (fst (processor_run env i own batches db)) (digest_bytes (batch_digest env b))"
  by (auto simp: processor_run_eq stored_batches)

text \<open>
  C33. A batch that the quorum waiter releases can be served by a quorum.  Let every
  acknowledgement it counts of an authority in \<open>H\<close> come from a reliable connection to a
  correct worker, in any run with connections that break and messages that are lost or late.
  Then there is a quorum each of whose authorities in \<open>H\<close>, other than the sender itself, has
  the batch in its store under its digest once its processor has handled what was routed to it.
\<close>

theorem released_batch_available:
  assumes "committee_ok c" and "kv_ok (we_kv env)" and "we_debincode env b = Some (BatchMessage batch)"
    and "b \<in> set (quorum_waiter_run c (stake c name) messages)"
    and "\<forall>(_, _, acks) \<in> set messages. distinct (name # acks)"
    and "\<forall>a \<in> H. link_run (worker_handler env) (events a) (link_new (address a) []) = Some (link a)"
    and "\<forall>(data, _, acks) \<in> set messages. \<forall>a \<in> set acks \<inter> H. data \<in> im_data ` set (ln_notified (link a))"
  shows "\<exists>Q. has_quorum c Q \<and> (\<forall>a \<in> Q \<inter> H - {name}. \<forall>db.
    stored (we_kv env) (fst (processor_run env i False (routed_batches (ln_peer (link a))) db)) (digest_bytes (batch_digest env b)))"
proof -
  obtain handlers acks where message: "(b, handlers, acks) \<in> set messages"
    and "stake c name \<ge> quorum_threshold c \<or> wait_for_quorum c (stake c name) acks"
    using quorum_waiter_run_delivers [OF assms(4)] by blast
  then have quorum: "has_quorum c (insert name (set acks))"
    using waits_for_has_quorum [OF assms(1)] assms(5) by blast
  have "stored (we_kv env) (fst (processor_run env i False (routed_batches (ln_peer (link a))) db)) (digest_bytes (batch_digest env b))"
    if "a \<in> set acks \<inter> H" for a db
  proof (rule processor_stores [OF assms(2)])
    obtain m where "m \<in> set (ln_notified (link a))" "im_data m = b" using assms(7) message \<open>a \<in> set acks \<inter> H\<close> by fastforce
    then show "b \<in> set (routed_batches (ln_peer (link a)))"
      using acknowledged_batch_routed [of env "events a" "address a" "link a" m batch] assms(3,6) that by (auto simp: routed_batches_iff)
  qed
  with quorum show ?thesis by (intro exI [of _ "insert name (set acks)"]) auto
qed

text \<open>One batch, sent, read by the peer and acknowledged.\<close>

definition demo_link_events :: "LinkEvent list" where
  "demo_link_events = map LocalEvent [ConnectOk, AcceptMessage \<lparr>im_data = [1, 2, 3], im_handler = 0\<rparr>, WriteNext True, ReceiveMessage, WriteNext True]
     @ [PeerReads] @ map LocalEvent [WriteNext True, ConnectionEvent.ReadReply (Some ACK)]"

lemma demo_link_run:
  "map_option (\<lambda>l. (map im_data (ln_notified l), ln_peer l)) (link_run (worker_handler demo_worker_env) demo_link_events (link_new ''b'' [])) =
     Some ([[1, 2, 3]], [DispatchBatch [1, 2, 3]])"
  by code_simp

theorem released_batch_available_witness:
  "\<exists>Q. has_quorum demo_committee Q \<and> (\<forall>a \<in> Q - {PublicKey 1}.
     stored demo_kv (fst (processor_run demo_worker_env 0 False (routed_batches [DispatchBatch [1, 2, 3]]) Map.empty))
       (digest_bytes (batch_digest demo_worker_env [1, 2, 3])))"
proof -
  let ?messages = "[([1, 2, 3], [PublicKey 2, PublicKey 3, PublicKey 4], [PublicKey 4, PublicKey 2])] :: (byte list \<times> PublicKey list \<times> PublicKey list) list"
  obtain l where l: "link_run (worker_handler demo_worker_env) demo_link_events (link_new ''b'' []) = Some l"
    "map im_data (ln_notified l) = [[1, 2, 3]]" "ln_peer l = [DispatchBatch [1, 2, 3]]" using demo_link_run by auto
  have waiter: "quorum_waiter_run demo_committee (stake demo_committee (PublicKey 1)) ?messages = [[1, 2, 3]]"
    by (simp add: demo_keys_def word_le_nat_alt)
  have kv: "kv_ok (we_kv demo_worker_env)" and read: "we_debincode demo_worker_env [1, 2, 3] = Some (BatchMessage [[1, 2, 3]])"
    by (simp_all add: demo_worker_env_def)
  have "committee_ok demo_committee" by simp
  moreover have "[1, 2, 3] \<in> im_data ` set (ln_notified l)" using l(2) by (metis list.set_intros(1) list.set_map)
  ultimately show ?thesis
    using released_batch_available [OF _ kv read, of demo_committee "PublicKey 1" ?messages UNIV "\<lambda>_. demo_link_events" "\<lambda>_. ''b''" "\<lambda>_. l" 0]
      waiter l(1,3) by (auto simp: demo_worker_env_def)
qed

end
