(* ===== verification/Spec2Isabelle.thy ===== *)
theory Spec2Isabelle
  imports Narwhal_Rules Bullshark_Rules Shortfin_Rules Mahi_Liveness Core_Mahi Core_Fuel Proposer Header_Waiter Primary_Safety Worker Wahoo_Order Network_Link
begin

text \<open>
  A verification library for NovelDAG, a Rust implementation of DAG-based Byzantine consensus
  (the crates under \<^verbatim>\<open>src/\<close>: \<^verbatim>\<open>crypto\<close>, \<^verbatim>\<open>config\<close>, \<^verbatim>\<open>store\<close>, \<^verbatim>\<open>network\<close>, \<^verbatim>\<open>primary\<close>, \<^verbatim>\<open>worker\<close>,
  \<^verbatim>\<open>consensus\<close>, \<^verbatim>\<open>node\<close>).

  The program.  A node is one primary, its workers and a consensus task.  A worker seals client
  transactions into batches, replicates them and reports the digests of stored batches to its
  primary.  The proposer of the primary packs digests into headers; the core checks the headers,
  votes and certificates of the other primaries, sends votes, aggregates the votes for its own
  headers into certificates, and hands certificates to the consensus task, which orders them by
  the rule of the chosen protocol: Narwhal, Bullshark, Shortfin or one of the Mahi-Mahi
  protocols.  The header waiter, the certificate waiter and the synchronizers fetch what is
  missing.  For the protocol Wahoo the whole primary is replaced by one state machine, the
  Wahoo node, with its provable broadcast.

  Theories and sources.
  \<^item> \<open>Prelude\<close>: bytes, results and panics (a Rust panic is a value), hash maps as association
    lists, 64-bit wrap-around, generic lemmas.
  \<^item> \<open>Crypto\<close>, \<open>Coin\<close> (\<^verbatim>\<open>crypto/src\<close>): keys, digests, signatures, recovery shares, the leader
    schedules and the threshold coin with its caches.
  \<^item> \<open>Config\<close> (\<^verbatim>\<open>config/src/lib.rs\<close>): protocols, the committee, thresholds on 32-bit stakes.
  \<^item> \<open>Store\<close> (\<^verbatim>\<open>store/src/lib.rs\<close>): the command loop with its obligations.
  \<^item> \<open>Reliable_Sender\<close> (\<^verbatim>\<open>network/src/reliable_sender.rs\<close>): the connection task that retransmits
    until a message is acknowledged or cancelled.  \<open>Network_Link\<close> (\<^verbatim>\<open>simple_sender.rs\<close>,
    \<^verbatim>\<open>receiver.rs\<close>): the best-effort sender, the runner of an incoming connection, and both ends
    of a reliable connection joined by a stream; what the acknowledgements counted by the quorum
    waiter of a worker say about the stores of the other workers.
  \<^item> \<open>Messages\<close>, \<open>Aggregators\<close> (\<^verbatim>\<open>primary/src/messages.rs\<close>, \<^verbatim>\<open>error.rs\<close>, \<^verbatim>\<open>aggregators.rs\<close>):
    headers, votes, certificates, their digests and every branch of their verification; votes
    into certificates.  \<open>Vote_Discipline\<close>: why two quorums for one slot agree.
  \<^item> \<open>ConsensusState\<close> (\<^verbatim>\<open>consensus/src/lib.rs\<close>): the DAG, its garbage collection, the elections.
    \<open>Certified_Dag\<close>, \<open>Narwhal_Rules\<close>, \<open>Bullshark_Rules\<close> (\<^verbatim>\<open>narwhal.rs\<close>, \<^verbatim>\<open>bullshark.rs\<close>) and
    \<open>Shortfin_Rules\<close> (\<^verbatim>\<open>shortfin.rs\<close>): the receive loops and what they commit.
  \<^item> \<open>Mahi_Dag\<close>, \<open>Mahi_Committer\<close> (\<^verbatim>\<open>mahi_mahi.rs\<close>): the block store with its caches and the
    committer.  \<open>Mahi_History\<close>, \<open>Mahi_Decisions\<close>, \<open>Mahi_Refinement\<close>, \<open>Mahi_Order\<close>,
    \<open>Mahi_Agreement\<close>, \<open>Mahi_Complete\<close>, \<open>Mahi_Safety\<close>, \<open>Mahi_Liveness\<close>: what its queries mean
    over all blocks that exist, the abstract commit rule \<open>justified\<close>, the refinement of the rule
    by the decision loop, total order, and progress.
  \<^item> \<open>Byzantine\<close> (\<^verbatim>\<open>primary/src/byzantine.rs\<close>), \<open>Synchronizer\<close>, \<open>Core_State\<close>, \<open>Core\<close>
    (\<^verbatim>\<open>synchronizer.rs\<close>, \<^verbatim>\<open>core.rs\<close>): every handler of the core.  \<open>Core_Votes\<close>, \<open>Core_Safety\<close>,
    \<open>Core_Mahi\<close>, \<open>Core_Fuel\<close>: what it votes for, and how deep it recurs.
  \<^item> \<open>Proposer\<close> (\<^verbatim>\<open>proposer.rs\<close>), \<open>Waiting\<close>, \<open>Header_Waiter\<close>, \<open>Primary_Tasks\<close>
    (\<^verbatim>\<open>header_waiter.rs\<close>, \<^verbatim>\<open>certificate_waiter.rs\<close>, \<^verbatim>\<open>garbage_collector.rs\<close>, \<^verbatim>\<open>helper.rs\<close>,
    \<^verbatim>\<open>payload_receiver.rs\<close>, the handlers of \<^verbatim>\<open>primary.rs\<close>); \<open>Primary_Safety\<close>: their composition.
  \<^item> \<open>Batches\<close>, \<open>Worker\<close> (\<^verbatim>\<open>worker/src\<close>): batch maker, quorum waiter, processor, helper,
    synchronizer and the handlers of \<^verbatim>\<open>worker.rs\<close>.
  \<^item> \<open>Wahoo_Messages\<close>, \<open>Wahoo_Network\<close> (\<^verbatim>\<open>wahoo/messages.rs\<close>, the Wahoo handler of \<^verbatim>\<open>primary.rs\<close>),
    \<open>Wahoo_Pb\<close> (\<^verbatim>\<open>wahoo/pb.rs\<close>), \<open>Wahoo_State\<close>, \<open>Wahoo_Commit\<close>, \<open>Wahoo_Node\<close> (\<^verbatim>\<open>wahoo/node.rs\<close>,
    \<^verbatim>\<open>msg_send.rs\<close>): every handler of the node.  \<open>Wahoo_Votes\<close>, \<open>Wahoo_Safety\<close>, \<open>Wahoo_Agreement\<close>,
    \<open>Wahoo_Order\<close>: its invariants, and what two nodes agree on; \<open>Wahoo_Examples\<close>: concrete runs.

  State and effects.  A struct of the code is a record with its fields, an operation a function
  on it.  Channels are lists of inputs and outputs; a handler of the core or of the Wahoo node
  returns the messages it sends as a list of events.  The tasks with a \<^verbatim>\<open>select\<close> over several
  channels (waiters, synchronizers, connection, Wahoo node) are step functions or relations
  whose input says which branch runs, so that a theorem covers every interleaving.  The Wahoo
  handlers await each other; the model keeps the calls that are still to be made on a stack,
  one step runs the top call and pushes the calls it makes, and the safety theorems are
  invariants of the reachable pairs of stack and state.

  Parameters.  \<open>CryptoLib\<close> holds SHA-512, ed25519 and the threshold signatures, \<open>KvLib\<close> RocksDB;
  \<open>CoreEnv\<close>, \<open>ProposerEnv\<close>, \<open>WorkerEnv\<close> and \<open>WahooEnv\<close> hold serializers, environment variables
  and the iteration orders of hash maps.  What a theorem needs of them is a hypothesis of it:
  few faulty members (\<open>few_faulty\<close>), digests that separate the blocks of different rounds
  (\<open>digests_separate\<close>), votes of honest members that their nodes have signed.

  Interfaces.  \<open>stake_quorum\<close> (quorums meet in a correct member) is interpreted on the committee;
  \<open>quorum_collector\<close> on the vote and the certificate aggregator; \<open>agreed_coin\<close> on the coin;
  \<open>vote_discipline\<close> (one vote per slot, hence one header per slot) on the core and on the Wahoo
  node; \<open>acknowledging_handler\<close> (one reply per message) on the handler of the worker;
  \<open>history_order\<close> and its extension \<open>certified_protocol\<close> on the Narwhal and Bullshark loops.

  Bounds and fuel.  Stakes are 32-bit words, rounds are naturals with the wrap-around of 64 bits
  written out where the code adds.  The core's handlers call \<open>process_certificate\<close> inside each
  other: the nesting depth is a fuel argument, and \<open>core_run_fuel\<close> shows that two is enough in
  every protocol but Shortfin.  The bound of \<open>wahoo_drain\<close> is for the concrete runs only.  Other
  loops recur over lists or carry a measure (the graph searches).

  What the lemmas show.  Agreement: total order of Mahi-Mahi (\<open>mahi_total_order\<close>), one certified
  header per author and round (\<open>certified_header_unique\<close>, \<open>equivocation_never_certified\<close>), equal
  blocks of even Wahoo rounds (\<open>wahoo_even_blocks_agree\<close>), equal leaders.  Vote and proposal
  discipline of the core, the proposer and the Wahoo node.  Every commit rule outputs a block
  once and with its history.  Exactness of searches and decisions, refinement of the abstract
  rule, progress, delivery of the reliable sender, availability of batches.  Where the code does
  not keep its promise a theorem shows how: the order of commits of a Wahoo leader depends on
  the way it is committed, a Done is bound to no slot, the certificate of an honest Wahoo block
  can be suppressed, a header keeps its digest when parents move, suspended Mahi-Mahi blocks
  are not validated, a collected round can be voted in twice.

  Not modelled.  The node binary and the benchmark client (command line, I/O), the
  accept loop of the network (sockets only), key files and JSON files, spawning of tasks, cancel handlers kept by callers, latency statistics, logging, and code the program
  never calls (\<^verbatim>\<open>generate_block2\<close>, \<^verbatim>\<open>into_message\<close>, \<^verbatim>\<open>recp_shares_for\<close>).
\<close>

definition consensus_run :: "CryptoLib \<Rightarrow> Consensus \<Rightarrow> Certificate list \<Rightarrow> Certificate list outcome" where
  "consensus_run lib con certs =
     (case con_dag_protocol con of
        Narwhal \<Rightarrow> rbind (narwhal_run lib con certs) (\<lambda>(_, out). Inr out)
      | Bullshark \<Rightarrow> rbind (bullshark_run lib con certs) (\<lambda>(_, out). Inr out)
      | Shortfin \<Rightarrow> rbind (shortfin_run lib con certs) (\<lambda>(_, out). Inr out)
      | Wahoo \<Rightarrow> rbind (run_steps wahoo_step con certs) (\<lambda>(_, out). Inr out)
      | _ \<Rightarrow> rbind (mahi_run lib con certs) (\<lambda>(_, out). Inr out))"

end
